(* ===== verification/Sandix_Prelude.thy ===== *)
theory Sandix_Prelude
  imports Main "HOL-Library.Word"
begin

text \<open>
  Shared vocabulary of the development.  It fixes the build that is modelled, the
  configuration \<^verbatim>\<open>arch/x86/configs/i386_defconfig\<close>: \<^verbatim>\<open>unsigned long\<close>, pointers,
  \<^verbatim>\<open>phys_addr_t\<close> and \<^verbatim>\<open>resource_size_t\<close> are 32 bits wide
  (\<^verbatim>\<open>CONFIG_PHYS_ADDR_T_64BIT\<close> is not set), \<^verbatim>\<open>CONFIG_HAVE_MEMBLOCK_NODE_MAP\<close> is set and
  there is one memory node.  It holds the integer types, the macros of
  \<^verbatim>\<open>include/sandix/kernel.h\<close> and \<^verbatim>\<open>include/sandix/pfn.h\<close>, the error values, arrays as lists,
  and the word and list lemmas the components share.
\<close>

unbundle bit_operations_syntax

section \<open>Integer types and error values\<close>

type_synonym u8 = "8 word"
type_synonym u16 = "16 word"
type_synonym u32 = "32 word"
type_synonym u64 = "64 word"

type_synonym ulong = "32 word"
type_synonym phys_addr_t = "32 word"

text \<open>
  What stops the kernel: a failed \<^verbatim>\<open>BUG_ON\<close>, a call of \<^verbatim>\<open>panic\<close>, a read through a null
  pointer, a read past the variable arguments.  \<open>Diverged\<close> is the value of
  a loop whose fuel has run out; the lemmas on each such loop show that the fuel its caller
  passes is enough.
\<close>

datatype kerror = BugOn | Panic | NullDeref | MissingArg | Diverged

type_synonym 'a kres = "kerror + 'a"

definition kbind :: "'a kres \<Rightarrow> ('a \<Rightarrow> 'b kres) \<Rightarrow> 'b kres" where
  "kbind m f = (case m of Inl e \<Rightarrow> Inl e | Inr x \<Rightarrow> f x)"

text \<open>The negative error numbers the modelled functions return.\<close>

definition EPERM :: int where "EPERM = 1"
definition ENOMEM :: int where "ENOMEM = 12"
definition EFAULT :: int where "EFAULT = 14"
definition EBUSY :: int where "EBUSY = 16"
definition EINVAL :: int where "EINVAL = 22"

text \<open>The direct mapping of physical memory.\<close>

definition PAGE_OFFSET :: ulong where "PAGE_OFFSET = 0xC0000000"

definition phys_to_virt :: "phys_addr_t \<Rightarrow> ulong" where
  "phys_to_virt address = address + PAGE_OFFSET"

section \<open>Macros of kernel.h and pfn.h\<close>

definition c_min :: "'a::len word \<Rightarrow> 'a word \<Rightarrow> 'a word" where
  "c_min x y = (if x < y then x else y)"

definition c_max :: "'a::len word \<Rightarrow> 'a word \<Rightarrow> 'a word" where
  "c_max x y = (if x > y then x else y)"

definition clamp :: "'a::len word \<Rightarrow> 'a word \<Rightarrow> 'a word \<Rightarrow> 'a word" where
  "clamp val lo hi = c_min (c_max val lo) hi"

definition round_mask :: "'a::len word \<Rightarrow> 'a word" where
  "round_mask y = y - 1"

definition round_up :: "'a::len word \<Rightarrow> 'a word \<Rightarrow> 'a word" where
  "round_up x y = ((x - 1) OR round_mask y) + 1"

definition round_down :: "'a::len word \<Rightarrow> 'a word \<Rightarrow> 'a word" where
  "round_down x y = x AND NOT (round_mask y)"

definition ULONG_MAX :: ulong where "ULONG_MAX = - 1"

definition PAGE_SHIFT :: nat where "PAGE_SHIFT = 12"
definition PAGE_SIZE :: ulong where "PAGE_SIZE = 4096"

definition PFN_UP :: "ulong \<Rightarrow> ulong" where
  "PFN_UP x = drop_bit PAGE_SHIFT (x + PAGE_SIZE - 1)"

definition PFN_DOWN :: "ulong \<Rightarrow> ulong" where
  "PFN_DOWN x = drop_bit PAGE_SHIFT x"

definition ALIGN_MASK :: "ulong \<Rightarrow> ulong \<Rightarrow> ulong" where
  "ALIGN_MASK x m = (x + m) AND NOT m"

definition ALIGN :: "ulong \<Rightarrow> ulong \<Rightarrow> ulong" where
  "ALIGN x a = ALIGN_MASK x (a - 1)"

definition PAGE_ALIGN :: "ulong \<Rightarrow> ulong" where
  "PAGE_ALIGN addr = ALIGN addr PAGE_SIZE"

definition PAGE_MASK :: ulong where "PAGE_MASK = NOT (PAGE_SIZE - 1)"

definition offset_in_page :: "ulong \<Rightarrow> ulong" where
  "offset_in_page p = p AND NOT PAGE_MASK"

section \<open>Arrays\<close>

text \<open>
  An array is a list of its full capacity.  \<^verbatim>\<open>memmove(&a[dst], &a[src], n * sizeof(a[0]))\<close> moves
  \<open>n\<close> elements inside one array; the two ranges may overlap.
\<close>

definition memmove_arr :: "'a list \<Rightarrow> nat \<Rightarrow> nat \<Rightarrow> nat \<Rightarrow> 'a list" where
  "memmove_arr xs dst src n = take dst xs @ take n (drop src xs) @ drop (dst + n) xs"

section \<open>Lemma collections\<close>

named_theorems nat_word \<open>facts that carry word comparisons over to \<open>nat\<close>\<close>

lemmas [nat_word] = word_le_nat_alt word_less_nat_alt

lemma kbind_Inl [simp]: "kbind (Inl e) f = Inl e"
  by (simp add: kbind_def)

lemma kbind_Inr [simp]: "kbind (Inr x) f = f x"
  by (simp add: kbind_def)

lemma kbind_eq_Inr: "kbind m f = Inr y \<longleftrightarrow> (\<exists>x. m = Inr x \<and> f x = Inr y)"
  by (cases m) auto

lemma kbind_assoc: "kbind (kbind m f) g = kbind m (\<lambda>x. kbind (f x) g)"
  by (cases m) auto

lemma kbind_cong [fundef_cong]:
  assumes "m = m'" and "\<And>x. m' = Inr x \<Longrightarrow> f x = f' x"
  shows "kbind m f = kbind m' f'"
  using assms by (cases m') auto

lemma length_memmove_arr [simp]:
  "dst + n \<le> length xs \<Longrightarrow> src + n \<le> length xs \<Longrightarrow> length (memmove_arr xs dst src n) = length xs"
  by (simp add: memmove_arr_def)

text \<open>Opening a hole of one element at an index, and closing one.\<close>

lemma memmove_arr_open:
  "memmove_arr (xs @ ys @ z # zs) (Suc (length xs)) (length xs) (length ys)
     = xs @ hd (ys @ [z]) # ys @ zs"
  by (cases ys) (simp_all add: memmove_arr_def)

lemma memmove_arr_close:
  "memmove_arr (xs @ r # ys @ zs) (length xs) (Suc (length xs)) (length ys)
     = xs @ ys @ drop (length ys) (r # ys @ zs)"
  by (simp add: memmove_arr_def)

lemmas memmove_arr_shift = memmove_arr_open memmove_arr_close

lemma unat_add_no_wrap:
  fixes x y :: "'a::len word"
  assumes "unat x + unat y < 2 ^ LENGTH('a)"
  shows "unat (x + y) = unat x + unat y"
  using assms by (simp add: unat_word_ariths)

lemma unat_sub_no_wrap:
  fixes x y :: "'a::len word"
  assumes "unat y \<le> unat x"
  shows "unat (x - y) = unat x - unat y"
  using assms by (simp add: unat_sub word_le_nat_alt)

lemma unat_lt32: "unat (x :: 32 word) < 2 ^ 32"
  using unsigned_less [of x] by simp

lemma unat_lt64: "unat (x :: 64 word) < 2 ^ 64"
  using unsigned_less [of x] by simp

lemma sint32_small: "unat x < 2 ^ 31 \<Longrightarrow> sint (x :: 32 word) = int (unat x)"
proof -
  assume "unat x < 2 ^ 31"
  then have "int (unat x) < int (2 ^ 31)" by (simp only: of_nat_less_iff)
  then have "uint x < 2 ^ 31" by simp
  then have "signed_take_bit 31 (uint x) = uint x"
    using order_trans [OF _ uint_ge_0 [of x], of "- (2 ^ 31)"] by (intro signed_take_bit_int_eq_self) simp_all
  then show ?thesis by (simp add: sint_uint)
qed

lemma unat_c_min: "unat (c_min x y) = min (unat x) (unat y)"
  by (simp add: c_min_def word_less_nat_alt min_def)

lemma unat_c_max: "unat (c_max x y) = max (unat x) (unat y)"
  by (simp add: c_max_def word_less_nat_alt max_def)

lemma unat_clamp: "unat (clamp v lo hi) = min (max (unat v) (unat lo)) (unat hi)"
  by (simp add: clamp_def unat_c_min unat_c_max)

lemmas [nat_word] = unat_c_min unat_c_max unat_clamp

section \<open>Rounding to a power of two\<close>

lemma round_mask_pow2: "round_mask (2 ^ k :: 'a::len word) = mask k"
  by (simp add: round_mask_def mask_eq_exp_minus_1)

lemma and_not_mask_plus: "(x AND NOT (mask k)) + take_bit k x = (x :: 'a::len word)"
proof -
  have "(x AND NOT (mask k)) AND (x AND mask k) = 0"
    by (rule bit_word_eqI) (auto simp: bit_simps)
  then have "(x AND NOT (mask k)) + (x AND mask k) = (x AND NOT (mask k)) OR (x AND mask k)"
    by (rule disjunctive_add_eq_or)
  also have "\<dots> = x" by (rule bit_word_eqI) (auto simp: bit_simps)
  finally show ?thesis by (simp add: take_bit_eq_mask)
qed

lemma unat_take_bit: "unat (take_bit k x) = unat x mod 2 ^ k" for x :: "'a::len word"
  by (simp add: unsigned_take_bit_eq flip: take_bit_eq_mod)

lemma unat_drop_bit: "unat (drop_bit k x) = unat x div 2 ^ k" for x :: "'a::len word"
  unfolding unat_drop_bit_eq by (rule drop_bit_eq_div)

lemma unat_ucast32: "unat (ucast (x :: 64 word) :: 32 word) = unat x mod 2 ^ 32"
  by (simp add: unsigned_ucast_eq take_bit_eq_mod)

lemma unat_ucast64: "unat (ucast (x :: 32 word) :: 64 word) = unat x"
  using unat_lt32 [of x] by (simp add: unsigned_ucast_eq take_bit_eq_mod)

lemma unat_round_down:
  fixes x :: "'a::len word"
  shows "unat (round_down x (2 ^ k)) = unat x - unat x mod 2 ^ k"
proof -
  have "round_down x (2 ^ k) = x - take_bit k x"
    using and_not_mask_plus [of x k] by (metis add_diff_cancel_right' round_down_def round_mask_pow2)
  then show ?thesis by (simp add: unat_sub_no_wrap unat_take_bit)
qed

lemma round_up_down:
  fixes x :: "'a::len word"
  shows "round_up x (2 ^ k) = round_down (x - 1) (2 ^ k) + 2 ^ k"
proof -
  let ?y = "x - 1"
  have "(?y AND NOT (mask k)) AND mask k = 0"
    by (rule bit_word_eqI) (auto simp: bit_simps)
  then have "(?y AND NOT (mask k)) + mask k = (?y AND NOT (mask k)) OR mask k"
    by (rule disjunctive_add_eq_or)
  also have "\<dots> = ?y OR mask k" by (rule bit_word_eqI) (auto simp: bit_simps)
  finally show ?thesis by (simp add: round_up_def round_down_def round_mask_pow2 mask_eq_exp_minus_1 algebra_simps)
qed

lemma unat_pow2: "k < LENGTH('a) \<Longrightarrow> unat (2 ^ k :: 'a::len word) = 2 ^ k"
  using unat_of_nat [of "2 ^ k", where 'a = 'a] by (simp add: mod_less)

lemma round_down_bounds:
  fixes x :: "'a::len word"
  shows "unat (round_down x (2 ^ k)) \<le> unat x" "2 ^ k dvd unat (round_down x (2 ^ k))"
    "unat x < unat (round_down x (2 ^ k)) + 2 ^ k"
proof -
  have "unat x mod 2 ^ k < 2 ^ k" "unat x mod 2 ^ k \<le> unat x" by simp_all
  then show "unat (round_down x (2 ^ k)) \<le> unat x" "unat x < unat (round_down x (2 ^ k)) + 2 ^ k"
    unfolding unat_round_down by linarith+
  show "2 ^ k dvd unat (round_down x (2 ^ k))" unfolding unat_round_down by (rule dvd_minus_mod)
qed

lemma round_up_bounds:
  fixes x :: "'a::len word"
  assumes k: "k < LENGTH('a)" and le: "unat x \<le> 2 ^ LENGTH('a) - 2 ^ k"
  shows "unat x \<le> unat (round_up x (2 ^ k))" "2 ^ k dvd unat (round_up x (2 ^ k))"
    "unat (round_up x (2 ^ k)) < unat x + 2 ^ k"
proof -
  have "unat x \<le> unat (round_up x (2 ^ k)) \<and> 2 ^ k dvd unat (round_up x (2 ^ k)) \<and>
    unat (round_up x (2 ^ k)) < unat x + 2 ^ k"
  proof (cases "x = 0")
    case True
    then show ?thesis by (simp add: round_up_def)
  next
    case False
    then have x1: "unat (x - 1) = unat x - 1" "0 < unat x"
      by (simp_all add: unat_minus_one unat_gt_0)
    note rd = round_down_bounds [where x = "x - 1" and k = k]
    have le2: "(2::nat) ^ k \<le> 2 ^ LENGTH('a)" using k by simp
    have "unat (round_down (x - 1) (2 ^ k) + 2 ^ k) = unat (round_down (x - 1) (2 ^ k)) + 2 ^ k"
      using k x1 rd(1) le le2 by (subst unat_add_no_wrap) (auto simp: unat_pow2)
    with rd x1 show ?thesis by (simp add: round_up_down) linarith
  qed
  then show "unat x \<le> unat (round_up x (2 ^ k))" "2 ^ k dvd unat (round_up x (2 ^ k))"
    "unat (round_up x (2 ^ k)) < unat x + 2 ^ k" by auto
qed

section \<open>Words and their bytes\<close>

lemma bytes_word:
  "(ucast (ucast v :: u8) :: ulong) OR push_bit 8 (ucast (ucast (drop_bit 8 v) :: u8)) OR
   push_bit 16 (ucast (ucast (drop_bit 16 v) :: u8)) OR push_bit 24 (ucast (ucast (drop_bit 24 v) :: u8)) = v" (is "?w = v")
proof (rule bit_word_eqI)
  fix n assume "n < LENGTH(32)"
  then have n: "n < 32" by simp
  show "bit ?w n = bit v n"
  proof (cases "24 \<le> n")
    case True
    then have "24 + (n - 24) = n" by simp
    then show ?thesis using True n by (auto simp: bit_simps not_le not_less)
  next
    case low: False
    show ?thesis
    proof (cases "16 \<le> n")
      case True
      then have "16 + (n - 16) = n" by simp
      then show ?thesis using True low by (auto simp: bit_simps not_le not_less)
    next
      case False
      then show ?thesis by (auto simp: bit_simps not_le not_less)
    qed
  qed
qed

end
