(* ===== verification/Memblock.thy ===== *)
theory Memblock
  imports Sandix_Prelude
begin

text \<open>
  The boot-time memory allocator of \<^verbatim>\<open>mm/memblock.c\<close> and \<^verbatim>\<open>include/sandix/memblock.h\<close>: the two
  region arrays, and the operations that insert, merge, add, split, remove and trim regions.
  The array loops are translated as they stand, on an array of full capacity with a separate
  count of used entries.
\<close>

section \<open>Data\<close>

record memblock_region =
  mr_base :: phys_addr_t
  mr_size :: phys_addr_t
  mr_flags :: ulong
  mr_nid :: int

record memblock_type =
  nr_regions :: nat
  mt_max :: nat
  total_size :: phys_addr_t
  regions :: "memblock_region list"

record memblock =
  is_bottom_up :: bool
  current_limit :: phys_addr_t
  mb_memory :: memblock_type
  mb_reserved :: memblock_type

definition INIT_MEMBLOCK_REGIONS :: nat where "INIT_MEMBLOCK_REGIONS = 128"

definition MEMBLOCK_NONE :: ulong where "MEMBLOCK_NONE = 0x0"
definition MEMBLOCK_HOTPLUG :: ulong where "MEMBLOCK_HOTPLUG = 0x1"
definition MEMBLOCK_MIRROR :: ulong where "MEMBLOCK_MIRROR = 0x2"
definition MEMBLOCK_NOMAP :: ulong where "MEMBLOCK_NOMAP = 0x4"

definition MEMBLOCK_ALLOC_ANYWHERE :: phys_addr_t where "MEMBLOCK_ALLOC_ANYWHERE = NOT 0"
definition MEMBLOCK_ALLOC_ACCESSIBLE :: phys_addr_t where "MEMBLOCK_ALLOC_ACCESSIBLE = 0"

text \<open>\<^verbatim>\<open>include/sandix/numa.h\<close>: without \<^verbatim>\<open>CONFIG_NODES_SHIFT\<close> there is one node.\<close>

definition NODES_SHIFT :: nat where "NODES_SHIFT = 0"
definition MAX_NR_NODES :: int where "MAX_NR_NODES = push_bit NODES_SHIFT 1"
definition NUMA_NO_NODE :: int where "NUMA_NO_NODE = - 1"

definition zero_region :: memblock_region where
  "zero_region = \<lparr>mr_base = 0, mr_size = 0, mr_flags = 0, mr_nid = 0\<rparr>"

definition init_memblock_type :: memblock_type where
  "init_memblock_type =
     \<lparr>nr_regions = 1, mt_max = INIT_MEMBLOCK_REGIONS, total_size = 0,
      regions = replicate INIT_MEMBLOCK_REGIONS zero_region\<rparr>"

definition init_memblock :: memblock where
  "init_memblock =
     \<lparr>is_bottom_up = False, current_limit = MEMBLOCK_ALLOC_ANYWHERE,
      mb_memory = init_memblock_type, mb_reserved = init_memblock_type\<rparr>"

section \<open>Accessors\<close>

definition choose_memblock_flags :: ulong where
  "choose_memblock_flags = MEMBLOCK_NONE"

definition memblock_set_current_limit :: "phys_addr_t \<Rightarrow> memblock \<Rightarrow> memblock" where
  "memblock_set_current_limit limit mb = mb\<lparr>current_limit := limit\<rparr>"

definition memblock_get_current_limit :: "memblock \<Rightarrow> phys_addr_t" where
  "memblock_get_current_limit mb = current_limit mb"

text \<open>The header defines both as constant \<open>false\<close>, whatever \<^verbatim>\<open>is_bottom_up\<close> says.\<close>

definition memblock_bottom_up :: "memblock \<Rightarrow> bool" where
  "memblock_bottom_up mb = False"

definition movable_node_is_enabled :: bool where
  "movable_node_is_enabled = False"

definition memblock_is_hotpluggable :: "memblock_region \<Rightarrow> bool" where
  "memblock_is_hotpluggable m \<longleftrightarrow> mr_flags m AND MEMBLOCK_HOTPLUG \<noteq> 0"

definition memblock_is_mirror :: "memblock_region \<Rightarrow> bool" where
  "memblock_is_mirror m \<longleftrightarrow> mr_flags m AND MEMBLOCK_MIRROR \<noteq> 0"

definition memblock_is_nomap :: "memblock_region \<Rightarrow> bool" where
  "memblock_is_nomap m \<longleftrightarrow> mr_flags m AND MEMBLOCK_NOMAP \<noteq> 0"

definition memblock_set_region_node :: "memblock_region \<Rightarrow> int \<Rightarrow> memblock_region" where
  "memblock_set_region_node r nid = r\<lparr>mr_nid := nid\<rparr>"

definition memblock_get_region_node :: "memblock_region \<Rightarrow> int" where
  "memblock_get_region_node r = mr_nid r"

text \<open>\<^verbatim>\<open>(phys_addr_t)ULLONG_MAX\<close> is all ones in 32 bits.  The result is the new \<^verbatim>\<open>*size\<close>.\<close>

definition memblock_cap_size :: "phys_addr_t \<Rightarrow> phys_addr_t \<Rightarrow> phys_addr_t" where
  "memblock_cap_size base sz = c_min sz (- 1 - base)"

section \<open>Merging and inserting regions\<close>

definition region_at :: "memblock_type \<Rightarrow> nat \<Rightarrow> memblock_region" where
  "region_at t i = regions t ! i"

definition set_region :: "memblock_type \<Rightarrow> nat \<Rightarrow> memblock_region \<Rightarrow> memblock_type" where
  "set_region t i r = t\<lparr>regions := (regions t)[i := r]\<rparr>"

definition region_end :: "memblock_region \<Rightarrow> phys_addr_t" where
  "region_end r = mr_base r + mr_size r"

text \<open>
  The body of the \<^verbatim>\<open>while\<close> loop of \<^verbatim>\<open>memblock_merge_regions\<close>.  \<^verbatim>\<open>nr_regions\<close> is never below 1,
  so \<^verbatim>\<open>i < nr_regions - 1\<close> is \<open>i + 1 < nr_regions\<close>.
\<close>

function memblock_merge_loop :: "nat \<Rightarrow> memblock_type \<Rightarrow> memblock_type kres" where
  "memblock_merge_loop i t =
     (if i + 1 < nr_regions t then
        (let this = region_at t i; nxt = region_at t (i + 1) in
         if region_end this \<noteq> mr_base nxt
            \<or> memblock_get_region_node this \<noteq> memblock_get_region_node nxt
            \<or> mr_flags this \<noteq> mr_flags nxt
         then if region_end this > mr_base nxt then Inl BugOn
              else memblock_merge_loop (i + 1) t
         else memblock_merge_loop i
                (t\<lparr>regions := memmove_arr ((regions t)[i := this\<lparr>mr_size := mr_size this + mr_size nxt\<rparr>])
                                (i + 1) (i + 2) (nr_regions t - (i + 2)),
                   nr_regions := nr_regions t - 1\<rparr>))
      else Inr t)"
  by pat_completeness auto
termination
  by (relation "measures [\<lambda>(i, t). nr_regions t, \<lambda>(i, t). nr_regions t - i]") auto

definition memblock_merge_regions :: "memblock_type \<Rightarrow> memblock_type kres" where
  "memblock_merge_regions t = memblock_merge_loop 0 t"

definition memblock_insert_region ::
  "memblock_type \<Rightarrow> nat \<Rightarrow> phys_addr_t \<Rightarrow> phys_addr_t \<Rightarrow> int \<Rightarrow> ulong \<Rightarrow> memblock_type kres" where
  "memblock_insert_region t idx base sz nid flags =
     (if nr_regions t \<ge> mt_max t then Inl BugOn
      else Inr (t\<lparr>regions := (memmove_arr (regions t) (idx + 1) idx (nr_regions t - idx))
                               [idx := memblock_set_region_node
                                        \<lparr>mr_base = base, mr_size = sz, mr_flags = flags,
                                         mr_nid = mr_nid (regions t ! idx)\<rparr> nid],
                  nr_regions := nr_regions t + 1,
                  total_size := total_size t + sz\<rparr>))"

section \<open>Adding a range\<close>

text \<open>
  One execution of the \<^verbatim>\<open>for_each_memblock_type\<close> loop of \<^verbatim>\<open>memblock_add_range\<close>, with its
  loop variables \<^verbatim>\<open>idx\<close>, \<^verbatim>\<open>base\<close> and \<^verbatim>\<open>nr_new\<close>; the result holds them after the loop.  The
  \<^verbatim>\<open>WARN_ON\<close>s print and have no other effect.
\<close>

function memblock_add_loop ::
  "bool \<Rightarrow> phys_addr_t \<Rightarrow> int \<Rightarrow> ulong \<Rightarrow> nat \<Rightarrow> phys_addr_t \<Rightarrow> nat \<Rightarrow> memblock_type
     \<Rightarrow> (nat \<times> phys_addr_t \<times> nat \<times> memblock_type) kres" where
  "memblock_add_loop ins end nid flags idx base nr_new t =
     (if idx < nr_regions t then
        (let rbase = mr_base (region_at t idx);
             rend = rbase + mr_size (region_at t idx) in
         if rbase \<ge> end then Inr (idx, base, nr_new, t)
         else if rend \<le> base then
           memblock_add_loop ins end nid flags (idx + 1) base nr_new t
         else if rbase > base then
           (if ins then
              (case memblock_insert_region t idx base (rbase - base) nid flags of
                 Inl e \<Rightarrow> Inl e
               | Inr t' \<Rightarrow> memblock_add_loop ins end nid flags (idx + 2) (c_min rend end)
                             (nr_new + 1) t')
            else memblock_add_loop ins end nid flags (idx + 1) (c_min rend end) (nr_new + 1) t)
         else memblock_add_loop ins end nid flags (idx + 1) (c_min rend end) nr_new t)
      else Inr (idx, base, nr_new, t))"
  by pat_completeness auto
termination
  by (relation "measure (\<lambda>(ins, end, nid, flags, idx, base, nr_new, t). nr_regions t - idx)")
     (auto simp: memblock_insert_region_def split: if_splits)

text \<open>
  One round of the \<^verbatim>\<open>repeat\<close> label: the loop, then the remaining portion.
\<close>

definition memblock_add_round ::
  "bool \<Rightarrow> phys_addr_t \<Rightarrow> phys_addr_t \<Rightarrow> int \<Rightarrow> ulong \<Rightarrow> memblock_type
     \<Rightarrow> (nat \<times> memblock_type) kres" where
  "memblock_add_round ins obase end nid flags t =
     kbind (memblock_add_loop ins end nid flags 0 obase 0 t) (\<lambda>(idx, base, nr_new, t).
       if base < end then
         (if ins then
            kbind (memblock_insert_region t idx base (end - base) nid flags)
                  (\<lambda>t. Inr (nr_new + 1, t))
          else Inr (nr_new + 1, t))
       else Inr (nr_new, t))"

definition memblock_add_range ::
  "memblock_type \<Rightarrow> phys_addr_t \<Rightarrow> phys_addr_t \<Rightarrow> int \<Rightarrow> ulong \<Rightarrow> (int \<times> memblock_type) kres" where
  "memblock_add_range t base size0 nid flags =
     (let sz = memblock_cap_size base size0;
          end = base + sz in
      if sz = 0 then Inr (0, t)
      else if mr_size (region_at t 0) = 0 then
        Inr (0, (set_region t 0
                  (memblock_set_region_node
                     ((region_at t 0)\<lparr>mr_base := base, mr_size := sz, mr_flags := flags\<rparr>) nid))
                \<lparr>total_size := sz\<rparr>)
      else
        kbind (memblock_add_round False base end nid flags t) (\<lambda>(nr_new, t).
          if nr_regions t + nr_new > mt_max t then Inr (- ENOMEM, t)
          else
            kbind (memblock_add_round True base end nid flags t) (\<lambda>(_, t).
              kbind (memblock_merge_regions t) (\<lambda>t. Inr (0, t)))))"

definition memblock_add_node :: "phys_addr_t \<Rightarrow> phys_addr_t \<Rightarrow> int \<Rightarrow> memblock \<Rightarrow> (int \<times> memblock) kres" where
  "memblock_add_node base sz nid mb =
     kbind (memblock_add_range (mb_memory mb) base sz nid 0)
           (\<lambda>(ret, t). Inr (ret, mb\<lparr>mb_memory := t\<rparr>))"

definition memblock_add :: "phys_addr_t \<Rightarrow> phys_addr_t \<Rightarrow> memblock \<Rightarrow> (int \<times> memblock) kres" where
  "memblock_add base sz mb =
     kbind (memblock_add_range (mb_memory mb) base sz MAX_NR_NODES 0)
           (\<lambda>(ret, t). Inr (ret, mb\<lparr>mb_memory := t\<rparr>))"

definition memblock_reserve :: "phys_addr_t \<Rightarrow> phys_addr_t \<Rightarrow> memblock \<Rightarrow> (int \<times> memblock) kres" where
  "memblock_reserve base sz mb =
     kbind (memblock_add_range (mb_reserved mb) base sz MAX_NR_NODES 0)
           (\<lambda>(ret, t). Inr (ret, mb\<lparr>mb_reserved := t\<rparr>))"

section \<open>Removing a range\<close>

definition memblock_remove_region :: "memblock_type \<Rightarrow> nat \<Rightarrow> memblock_type" where
  "memblock_remove_region t r =
     (let t1 = t\<lparr>total_size := total_size t - mr_size (region_at t r),
                 regions := memmove_arr (regions t) r (r + 1) (nr_regions t - (r + 1)),
                 nr_regions := nr_regions t - 1\<rparr> in
      if nr_regions t1 = 0 then
        (set_region t1 0
           (memblock_set_region_node
              ((region_at t1 0)\<lparr>mr_base := 0, mr_size := 0, mr_flags := 0\<rparr>) MAX_NR_NODES))
        \<lparr>nr_regions := 1\<rparr>
      else t1)"

text \<open>
  The loop of \<^verbatim>\<open>memblock_isolate_range\<close>.  A region that crosses the upper boundary is split and
  the same index is visited again (\<^verbatim>\<open>idx--\<close> followed by the loop's \<^verbatim>\<open>idx++\<close>), so the loop takes
  fuel; \<^verbatim>\<open>nr_regions + 4\<close> iterations are enough, because at most two splits happen.
\<close>

primrec memblock_isolate_loop ::
  "nat \<Rightarrow> phys_addr_t \<Rightarrow> phys_addr_t \<Rightarrow> nat \<Rightarrow> nat \<Rightarrow> nat \<Rightarrow> memblock_type
     \<Rightarrow> (nat \<times> nat \<times> memblock_type) kres" where
  "memblock_isolate_loop 0 base end idx start_rgn end_rgn t = Inl Diverged"
| "memblock_isolate_loop (Suc fuel) base end idx start_rgn end_rgn t =
     (if idx < nr_regions t then
        (let rgn = region_at t idx; rbase = mr_base rgn; rend = rbase + mr_size rgn in
         if rbase \<ge> end then Inr (start_rgn, end_rgn, t)
         else if rend \<le> base then
           memblock_isolate_loop fuel base end (idx + 1) start_rgn end_rgn t
         else if rbase < base then
           kbind (memblock_insert_region
                    ((set_region t idx (rgn\<lparr>mr_base := base, mr_size := mr_size rgn - (base - rbase)\<rparr>))
                     \<lparr>total_size := total_size t - (base - rbase)\<rparr>)
                    idx rbase (base - rbase) (memblock_get_region_node rgn) (mr_flags rgn))
             (memblock_isolate_loop fuel base end (idx + 1) start_rgn end_rgn)
         else if rend > end then
           kbind (memblock_insert_region
                    ((set_region t idx (rgn\<lparr>mr_base := end, mr_size := mr_size rgn - (end - rbase)\<rparr>))
                     \<lparr>total_size := total_size t - (end - rbase)\<rparr>)
                    idx rbase (end - rbase) (memblock_get_region_node rgn) (mr_flags rgn))
             (memblock_isolate_loop fuel base end idx start_rgn end_rgn)
         else
           memblock_isolate_loop fuel base end (idx + 1)
             (if end_rgn = 0 then idx else start_rgn) (idx + 1) t)
      else Inr (start_rgn, end_rgn, t))"

text \<open>The result is the return value, \<^verbatim>\<open>*start_rgn\<close>, \<^verbatim>\<open>*end_rgn\<close> and the array.\<close>

definition memblock_isolate_range ::
  "memblock_type \<Rightarrow> phys_addr_t \<Rightarrow> phys_addr_t \<Rightarrow> (int \<times> nat \<times> nat \<times> memblock_type) kres" where
  "memblock_isolate_range t base size0 =
     (let sz = memblock_cap_size base size0;
          end = base + sz in
      if sz = 0 then Inr (0, 0, 0, t)
      else if nr_regions t + 2 > mt_max t then Inr (- ENOMEM, 0, 0, t)
      else kbind (memblock_isolate_loop (nr_regions t + 4) base end 0 0 0 t)
             (\<lambda>(start_rgn, end_rgn, t). Inr (0, start_rgn, end_rgn, t)))"

text \<open>\<^verbatim>\<open>for (i = end_rgn - 1; i >= start_rgn; i--) memblock_remove_region(type, i);\<close>\<close>

function memblock_remove_loop :: "int \<Rightarrow> int \<Rightarrow> memblock_type \<Rightarrow> memblock_type" where
  "memblock_remove_loop i start_rgn t =
     (if i \<ge> start_rgn then memblock_remove_loop (i - 1) start_rgn (memblock_remove_region t (nat i))
      else t)"
  by pat_completeness auto
termination
  by (relation "measure (\<lambda>(i, s, t). nat (i - s + 1))") auto

definition memblock_remove_range ::
  "memblock_type \<Rightarrow> phys_addr_t \<Rightarrow> phys_addr_t \<Rightarrow> (int \<times> memblock_type) kres" where
  "memblock_remove_range t base sz =
     kbind (memblock_isolate_range t base sz) (\<lambda>(ret, start_rgn, end_rgn, t).
       if ret \<noteq> 0 then Inr (ret, t)
       else Inr (0, memblock_remove_loop (int end_rgn - 1) (int start_rgn) t))"

definition memblock_remove :: "phys_addr_t \<Rightarrow> phys_addr_t \<Rightarrow> memblock \<Rightarrow> (int \<times> memblock) kres" where
  "memblock_remove base sz mb =
     kbind (memblock_remove_range (mb_memory mb) base sz)
           (\<lambda>(ret, t). Inr (ret, mb\<lparr>mb_memory := t\<rparr>))"

definition memblock_free :: "phys_addr_t \<Rightarrow> phys_addr_t \<Rightarrow> memblock \<Rightarrow> (int \<times> memblock) kres" where
  "memblock_free base sz mb =
     kbind (memblock_remove_range (mb_reserved mb) base sz)
           (\<lambda>(ret, t). Inr (ret, mb\<lparr>mb_reserved := t\<rparr>))"

section \<open>Trimming and node assignment\<close>

text \<open>
  The loop of \<^verbatim>\<open>memblock_trim_memory\<close>; \<open>i\<close> is the index \<^verbatim>\<open>r - memblock.memory.regions\<close>.  After a
  removal \<^verbatim>\<open>r--\<close> and the loop's \<^verbatim>\<open>r++\<close> visit the same index again.
\<close>

primrec memblock_trim_loop :: "nat \<Rightarrow> phys_addr_t \<Rightarrow> nat \<Rightarrow> memblock_type \<Rightarrow> memblock_type kres" where
  "memblock_trim_loop 0 align i t = Inl Diverged"
| "memblock_trim_loop (Suc fuel) align i t =
     (if i < nr_regions t then
        (let r = region_at t i;
             orig_start = mr_base r;
             orig_end = mr_base r + mr_size r;
             start = round_up orig_start align;
             end = round_down orig_end align in
         if start = orig_start \<and> end = orig_end then memblock_trim_loop fuel align (i + 1) t
         else if start < end then
           memblock_trim_loop fuel align (i + 1)
             (set_region t i (r\<lparr>mr_base := start, mr_size := end - start\<rparr>))
         else memblock_trim_loop fuel align i (memblock_remove_region t i))
      else Inr t)"

definition memblock_trim_memory :: "phys_addr_t \<Rightarrow> memblock \<Rightarrow> memblock kres" where
  "memblock_trim_memory align mb =
     kbind (memblock_trim_loop (nr_regions (mb_memory mb) + 2) align 0 (mb_memory mb))
           (\<lambda>t. Inr (mb\<lparr>mb_memory := t\<rparr>))"

function memblock_set_node_loop :: "nat \<Rightarrow> nat \<Rightarrow> int \<Rightarrow> memblock_type \<Rightarrow> memblock_type" where
  "memblock_set_node_loop i end_rgn nid t =
     (if i < end_rgn
      then memblock_set_node_loop (i + 1) end_rgn nid
             (set_region t i (memblock_set_region_node (region_at t i) nid))
      else t)"
  by pat_completeness auto
termination
  by (relation "measure (\<lambda>(i, e, nid, t). e - i)") auto

definition memblock_set_node ::
  "phys_addr_t \<Rightarrow> phys_addr_t \<Rightarrow> memblock_type \<Rightarrow> int \<Rightarrow> (int \<times> memblock_type) kres" where
  "memblock_set_node base sz t nid =
     kbind (memblock_isolate_range t base sz) (\<lambda>(ret, start_rgn, end_rgn, t).
       if ret \<noteq> 0 then Inr (ret, t)
       else kbind (memblock_merge_regions (memblock_set_node_loop start_rgn end_rgn nid t))
              (\<lambda>t. Inr (0, t)))"

declare memblock_merge_loop.simps [simp del] memblock_add_loop.simps [simp del]
  memblock_remove_loop.simps [simp del] memblock_set_node_loop.simps [simp del]

end
