(* ===== verification/Memblock_Iter.thy ===== *)
theory Memblock_Iter
  imports Memblock
begin

text \<open>
  The iterators of \<^verbatim>\<open>mm/memblock.c\<close> over the areas of one region array that another does not
  cover (\<^verbatim>\<open>__next_mem_range\<close>, \<^verbatim>\<open>__next_mem_range_rev\<close>) and over page ranges
  (\<^verbatim>\<open>__next_mem_pfn_range\<close>), the \<^verbatim>\<open>for_each\<close> macros of \<^verbatim>\<open>memblock.h\<close> as loops, and the two
  searches for a free area.
\<close>

section \<open>The forward iterator\<close>

text \<open>The out parameters \<^verbatim>\<open>*out_start\<close>, \<^verbatim>\<open>*out_end\<close> and \<^verbatim>\<open>*out_nid\<close>.\<close>

type_synonym outs = "phys_addr_t \<times> phys_addr_t \<times> int"

definition ULLONG_MAX :: u64 where "ULLONG_MAX = - 1"

text \<open>\<^verbatim>\<open>(u32)idx_a | (u64)idx_b << 32\<close>, and the two halves of \<^verbatim>\<open>*idx\<close> as unsigned values.\<close>

definition idx_pack :: "nat \<Rightarrow> nat \<Rightarrow> u64" where
  "idx_pack idx_a idx_b = ucast (of_nat idx_a :: u32) OR push_bit 32 (of_nat idx_b)"

definition idx_lo :: "u64 \<Rightarrow> nat" where
  "idx_lo idx = unat (ucast (idx AND 0xffffffff) :: u32)"

definition idx_hi :: "u64 \<Rightarrow> nat" where
  "idx_hi idx = unat (ucast (drop_bit 32 idx) :: u32)"

definition fix_nid :: "int \<Rightarrow> int" where
  "fix_nid nid = (if nid = MAX_NR_NODES then NUMA_NO_NODE else nid)"

text \<open>The four \<^verbatim>\<open>continue\<close> statements at the head of the loop.\<close>

definition skip_region :: "int \<Rightarrow> ulong \<Rightarrow> memblock_region \<Rightarrow> bool" where
  "skip_region nid flags m \<longleftrightarrow>
     (nid \<noteq> NUMA_NO_NODE \<and> nid \<noteq> memblock_get_region_node m)
     \<or> (movable_node_is_enabled \<and> memblock_is_hotpluggable m)
     \<or> (flags AND MEMBLOCK_MIRROR \<noteq> 0 \<and> \<not> memblock_is_mirror m)
     \<or> (flags AND MEMBLOCK_NOMAP = 0 \<and> memblock_is_nomap m)"

text \<open>The area before reservation \<open>idx_b\<close>: \<^verbatim>\<open>r_start\<close> and \<^verbatim>\<open>r_end\<close>.\<close>

definition gap_start :: "memblock_type \<Rightarrow> nat \<Rightarrow> phys_addr_t" where
  "gap_start tb idx_b = (if idx_b \<noteq> 0 then region_end (region_at tb (idx_b - 1)) else 0)"

definition gap_end :: "memblock_type \<Rightarrow> nat \<Rightarrow> phys_addr_t" where
  "gap_end tb idx_b = (if idx_b < nr_regions tb then mr_base (region_at tb idx_b) else - 1)"

text \<open>
  The inner loop: the index \<^verbatim>\<open>idx_b\<close> where it stops and whether an intersection was found
  there.
\<close>

function scan_gaps :: "phys_addr_t \<Rightarrow> phys_addr_t \<Rightarrow> memblock_type \<Rightarrow> nat \<Rightarrow> nat \<times> bool" where
  "scan_gaps m_start m_end tb idx_b =
     (if idx_b < nr_regions tb + 1 then
        (if gap_start tb idx_b \<ge> m_end then (idx_b, False)
         else if m_start < gap_end tb idx_b then (idx_b, True)
         else scan_gaps m_start m_end tb (idx_b + 1))
      else (idx_b, False))"
  by pat_completeness auto
termination
  by (relation "measure (\<lambda>(s, e, tb, i). nr_regions tb + 1 - i)") auto

text \<open>The outer loop, from \<^verbatim>\<open>idx_a\<close> and \<^verbatim>\<open>idx_b\<close> on.\<close>

function next_mem_range_loop ::
  "int \<Rightarrow> ulong \<Rightarrow> memblock_type \<Rightarrow> memblock_type option \<Rightarrow> nat \<Rightarrow> nat \<Rightarrow> outs \<Rightarrow> u64 \<times> outs" where
  "next_mem_range_loop nid flags ta tbo idx_a idx_b out =
     (if idx_a < nr_regions ta then
        (let m = region_at ta idx_a;
             m_start = mr_base m;
             m_end = mr_base m + mr_size m;
             m_nid = memblock_get_region_node m in
         if skip_region nid flags m then
           next_mem_range_loop nid flags ta tbo (idx_a + 1) idx_b out
         else
           (case tbo of
              None \<Rightarrow> (idx_pack (idx_a + 1) idx_b, (m_start, m_end, m_nid))
            | Some tb \<Rightarrow>
                (case scan_gaps m_start m_end tb idx_b of
                   (b, True) \<Rightarrow>
                     (if m_end \<le> gap_end tb b then idx_pack (idx_a + 1) b else idx_pack idx_a (b + 1),
                      (c_max m_start (gap_start tb b), c_min m_end (gap_end tb b), m_nid))
                 | (b, False) \<Rightarrow> next_mem_range_loop nid flags ta tbo (idx_a + 1) b out)))
      else (ULLONG_MAX, out))"
  by pat_completeness auto
termination
  by (relation "measure (\<lambda>(nid, flags, ta, tbo, a, b, out). nr_regions ta - a)") auto

definition next_mem_range ::
  "u64 \<Rightarrow> int \<Rightarrow> ulong \<Rightarrow> memblock_type \<Rightarrow> memblock_type option \<Rightarrow> outs \<Rightarrow> u64 \<times> outs" where
  "next_mem_range idx nid flags ta tbo out =
     next_mem_range_loop (fix_nid nid) flags ta tbo (idx_lo idx) (idx_hi idx) out"

section \<open>The reverse iterator\<close>

text \<open>The halves of \<^verbatim>\<open>*idx\<close> as \<^verbatim>\<open>int\<close>, and the index built from two \<^verbatim>\<open>int\<close>s.\<close>

definition idx_pack_int :: "int \<Rightarrow> int \<Rightarrow> u64" where
  "idx_pack_int idx_a idx_b = ucast (of_int idx_a :: u32) OR push_bit 32 (of_int idx_b)"

definition idx_lo_int :: "u64 \<Rightarrow> int" where
  "idx_lo_int idx = sint (ucast (idx AND 0xffffffff) :: u32)"

definition idx_hi_int :: "u64 \<Rightarrow> int" where
  "idx_hi_int idx = sint (ucast (drop_bit 32 idx) :: u32)"

function scan_gaps_rev :: "phys_addr_t \<Rightarrow> phys_addr_t \<Rightarrow> memblock_type \<Rightarrow> int \<Rightarrow> int \<times> bool" where
  "scan_gaps_rev m_start m_end tb idx_b =
     (if idx_b \<ge> 0 then
        (if gap_end tb (nat idx_b) \<le> m_start then (idx_b, False)
         else if m_end > gap_start tb (nat idx_b) then (idx_b, True)
         else scan_gaps_rev m_start m_end tb (idx_b - 1))
      else (idx_b, False))"
  by pat_completeness auto
termination
  by (relation "measure (\<lambda>(s, e, tb, i). nat (i + 1))") auto

function next_mem_range_rev_loop ::
  "int \<Rightarrow> ulong \<Rightarrow> memblock_type \<Rightarrow> memblock_type option \<Rightarrow> int \<Rightarrow> int \<Rightarrow> outs \<Rightarrow> u64 \<times> outs" where
  "next_mem_range_rev_loop nid flags ta tbo idx_a idx_b out =
     (if idx_a \<ge> 0 then
        (let m = region_at ta (nat idx_a);
             m_start = mr_base m;
             m_end = mr_base m + mr_size m;
             m_nid = memblock_get_region_node m in
         if skip_region nid flags m then
           next_mem_range_rev_loop nid flags ta tbo (idx_a - 1) idx_b out
         else
           (case tbo of
              None \<Rightarrow> (idx_pack_int (idx_a + 1) idx_b, (m_start, m_end, m_nid))
            | Some tb \<Rightarrow>
                (case scan_gaps_rev m_start m_end tb idx_b of
                   (b, True) \<Rightarrow>
                     (if m_start \<ge> gap_start tb (nat b) then idx_pack_int (idx_a - 1) b
                      else idx_pack_int idx_a (b - 1),
                      (c_max m_start (gap_start tb (nat b)), c_min m_end (gap_end tb (nat b)), m_nid))
                 | (b, False) \<Rightarrow> next_mem_range_rev_loop nid flags ta tbo (idx_a - 1) b out)))
      else (ULLONG_MAX, out))"
  by pat_completeness auto
termination
  by (relation "measure (\<lambda>(nid, flags, ta, tbo, a, b, out). nat (a + 1))") auto

text \<open>
  On the first call (\<^verbatim>\<open>*idx == ULLONG_MAX\<close>) the function reads \<^verbatim>\<open>type_b->nr_regions\<close> before it
  tests \<^verbatim>\<open>type_b\<close>.
\<close>

definition next_mem_range_rev ::
  "u64 \<Rightarrow> int \<Rightarrow> ulong \<Rightarrow> memblock_type \<Rightarrow> memblock_type option \<Rightarrow> outs \<Rightarrow> (u64 \<times> outs) kres" where
  "next_mem_range_rev idx nid flags ta tbo out =
     (if idx = ULLONG_MAX then
        (case tbo of
           None \<Rightarrow> Inl NullDeref
         | Some tb \<Rightarrow> Inr (next_mem_range_rev_loop (fix_nid nid) flags ta tbo
                             (int (nr_regions ta) - 1) (int (nr_regions tb)) out))
      else Inr (next_mem_range_rev_loop (fix_nid nid) flags ta tbo
                  (idx_lo_int idx) (idx_hi_int idx) out))"

section \<open>Searching for a free area\<close>

text \<open>
  \<^verbatim>\<open>for_each_free_mem_range\<close> with the body of \<^verbatim>\<open>__memblock_find_range_bottom_up\<close>.  Each turn
  advances one of the two indices, so \<^verbatim>\<open>nr_regions\<close> of both arrays and two more turns are
  enough fuel.
\<close>

primrec find_bottom_up_loop ::
  "nat \<Rightarrow> memblock \<Rightarrow> int \<Rightarrow> ulong \<Rightarrow> phys_addr_t \<Rightarrow> phys_addr_t \<Rightarrow> phys_addr_t \<Rightarrow> phys_addr_t
     \<Rightarrow> u64 \<times> outs \<Rightarrow> phys_addr_t kres" where
  "find_bottom_up_loop 0 mb nid flags start end sz align st = Inl Diverged"
| "find_bottom_up_loop (Suc fuel) mb nid flags start end sz align st =
     (case st of (i, out) \<Rightarrow>
        if i = ULLONG_MAX then Inr 0
        else (let this_start = clamp (fst out) start end;
                  this_end = clamp (fst (snd out)) start end;
                  cand = round_up this_start align in
              if cand < this_end \<and> this_end - cand \<ge> sz then Inr cand
              else find_bottom_up_loop fuel mb nid flags start end sz align
                     (next_mem_range i nid flags (mb_memory mb) (Some (mb_reserved mb)) out)))"

definition memblock_find_range_bottom_up ::
  "memblock \<Rightarrow> phys_addr_t \<Rightarrow> phys_addr_t \<Rightarrow> phys_addr_t \<Rightarrow> phys_addr_t \<Rightarrow> int \<Rightarrow> ulong
     \<Rightarrow> phys_addr_t kres" where
  "memblock_find_range_bottom_up mb start end sz align nid flags =
     find_bottom_up_loop (nr_regions (mb_memory mb) + nr_regions (mb_reserved mb) + 2)
       mb nid flags start end sz align
       (next_mem_range 0 nid flags (mb_memory mb) (Some (mb_reserved mb)) (0, 0, 0))"

text \<open>\<^verbatim>\<open>for_each_free_mem_range_reverse\<close> with the body of \<^verbatim>\<open>__memblock_find_range_top_down\<close>.\<close>

primrec find_top_down_loop ::
  "nat \<Rightarrow> memblock \<Rightarrow> int \<Rightarrow> ulong \<Rightarrow> phys_addr_t \<Rightarrow> phys_addr_t \<Rightarrow> phys_addr_t \<Rightarrow> phys_addr_t
     \<Rightarrow> u64 \<times> outs \<Rightarrow> phys_addr_t kres" where
  "find_top_down_loop 0 mb nid flags start end sz align st = Inl Diverged"
| "find_top_down_loop (Suc fuel) mb nid flags start end sz align st =
     (case st of (i, out) \<Rightarrow>
        if i = ULLONG_MAX then Inr 0
        else (let this_start = clamp (fst out) start end;
                  this_end = clamp (fst (snd out)) start end;
                  cand = round_down (this_end - sz) align in
              if this_end \<ge> sz \<and> cand \<ge> this_start then Inr cand
              else kbind (next_mem_range_rev i nid flags (mb_memory mb) (Some (mb_reserved mb)) out)
                     (find_top_down_loop fuel mb nid flags start end sz align)))"

definition memblock_find_range_top_down ::
  "memblock \<Rightarrow> phys_addr_t \<Rightarrow> phys_addr_t \<Rightarrow> phys_addr_t \<Rightarrow> phys_addr_t \<Rightarrow> int \<Rightarrow> ulong
     \<Rightarrow> phys_addr_t kres" where
  "memblock_find_range_top_down mb start end sz align nid flags =
     kbind (next_mem_range_rev ULLONG_MAX nid flags (mb_memory mb) (Some (mb_reserved mb)) (0, 0, 0))
       (find_top_down_loop (nr_regions (mb_memory mb) + nr_regions (mb_reserved mb) + 2)
          mb nid flags start end sz align)"

text \<open>
  \<^verbatim>\<open>memblock_find_in_range_node\<close>; \<open>kernel_end\<close> is \<^verbatim>\<open>__pa(__kend)\<close>, the address the linker gives
  to the end of the kernel image.
\<close>

definition memblock_find_in_range_node ::
  "phys_addr_t \<Rightarrow> memblock \<Rightarrow> phys_addr_t \<Rightarrow> phys_addr_t \<Rightarrow> phys_addr_t \<Rightarrow> phys_addr_t \<Rightarrow> int \<Rightarrow> ulong
     \<Rightarrow> phys_addr_t kres" where
  "memblock_find_in_range_node kernel_end mb sz align start0 end0 nid flags =
     (let end1 = (if end0 = MEMBLOCK_ALLOC_ACCESSIBLE then current_limit mb else end0);
          start = c_max start0 PAGE_SIZE;
          end = c_max start end1 in
      if memblock_bottom_up mb \<and> end > kernel_end then
        kbind (memblock_find_range_bottom_up mb (c_max start kernel_end) end sz align nid flags)
          (\<lambda>ret. if ret \<noteq> 0 then Inr ret
                 else memblock_find_range_top_down mb start end sz align nid flags)
      else memblock_find_range_top_down mb start end sz align nid flags)"

text \<open>
  \<^verbatim>\<open>memblock_find_in_range\<close>.  \<^verbatim>\<open>goto again\<close> runs with \<^verbatim>\<open>MEMBLOCK_MIRROR\<close> cleared, so it is taken
  at most once.
\<close>

definition memblock_find_in_range ::
  "phys_addr_t \<Rightarrow> memblock \<Rightarrow> phys_addr_t \<Rightarrow> phys_addr_t \<Rightarrow> phys_addr_t \<Rightarrow> phys_addr_t
     \<Rightarrow> phys_addr_t kres" where
  "memblock_find_in_range kernel_end mb start end sz align =
     (let flags = 0 in
      kbind (memblock_find_in_range_node kernel_end mb sz align start end NUMA_NO_NODE flags)
        (\<lambda>ret. if ret = 0 \<and> flags AND MEMBLOCK_MIRROR \<noteq> 0
               then memblock_find_in_range_node kernel_end mb sz align start end NUMA_NO_NODE
                      (flags AND NOT MEMBLOCK_MIRROR)
               else Inr ret))"

section \<open>Page ranges\<close>

text \<open>
  \<^verbatim>\<open>__next_mem_pfn_range\<close>: the loop \<^verbatim>\<open>while (++*idx < type->nr_regions)\<close> from index \<open>i\<close> on.  The
  result is \<^verbatim>\<open>*idx\<close> (\<open>None\<close> for the \<^verbatim>\<open>-1\<close> that ends the iteration) with the start and end page
  frame and the node.
\<close>

function next_mem_pfn_range :: "nat \<Rightarrow> int \<Rightarrow> memblock_type \<Rightarrow> (nat \<times> ulong \<times> ulong \<times> int) option" where
  "next_mem_pfn_range i nid t =
     (if i < nr_regions t then
        (let r = region_at t i in
         if PFN_UP (mr_base r) \<ge> PFN_DOWN (mr_base r + mr_size r) then
           next_mem_pfn_range (i + 1) nid t
         else if nid = MAX_NR_NODES \<or> nid = mr_nid r then
           Some (i, PFN_UP (mr_base r), PFN_DOWN (mr_base r + mr_size r), mr_nid r)
         else next_mem_pfn_range (i + 1) nid t)
      else None)"
  by pat_completeness auto
termination
  by (relation "measure (\<lambda>(i, nid, t). nr_regions t - i)") auto

lemma next_mem_pfn_range_bound:
  "next_mem_pfn_range i nid t = Some (j, s, e, n) \<Longrightarrow> i \<le> j \<and> j < nr_regions t"
proof (induction i nid t rule: next_mem_pfn_range.induct)
  case (1 i nid t)
  show ?case
    using 1 next_mem_pfn_range.simps [of i nid t]
    by (simp add: Let_def split: if_splits del: next_mem_pfn_range.simps)
qed

text \<open>The ranges \<^verbatim>\<open>for_each_mem_pfn_range\<close> visits, in order.\<close>

function mem_pfn_ranges :: "nat \<Rightarrow> int \<Rightarrow> memblock_type \<Rightarrow> (ulong \<times> ulong \<times> int) list" where
  "mem_pfn_ranges i nid t =
     (case next_mem_pfn_range i nid t of
        None \<Rightarrow> []
      | Some (j, s, e, n) \<Rightarrow> (s, e, n) # mem_pfn_ranges (j + 1) nid t)"
  by pat_completeness auto
termination
  by (relation "measure (\<lambda>(i, nid, t). nr_regions t - i)")
     (auto dest!: next_mem_pfn_range_bound simp del: next_mem_pfn_range.simps)

declare scan_gaps.simps [simp del] next_mem_range_loop.simps [simp del]
  scan_gaps_rev.simps [simp del] next_mem_range_rev_loop.simps [simp del]
  next_mem_pfn_range.simps [simp del] mem_pfn_ranges.simps [simp del]

end
