(* ===== verification/Memblock_Refine.thy ===== *)
theory Memblock_Refine
  imports Memblock
begin

text \<open>
  The array operations of \<^verbatim>\<open>Memblock\<close> refined to operations on the list of used regions.  \<open>live\<close>
  is the abstraction function; each loop over the array computes a recursive function on that
  list, and never fails a \<^verbatim>\<open>BUG_ON\<close> or runs out of fuel on a well-formed array.
\<close>

section \<open>The abstraction\<close>

definition live :: "memblock_type \<Rightarrow> memblock_region list" where
  "live t = take (nr_regions t) (regions t)"

definition array_wf :: "memblock_type \<Rightarrow> bool" where
  "array_wf t \<longleftrightarrow> length (regions t) = mt_max t \<and> 1 \<le> nr_regions t \<and> nr_regions t \<le> mt_max t"

definition size_sum :: "memblock_region list \<Rightarrow> phys_addr_t" where
  "size_sum rs = sum_list (map mr_size rs)"

definition mk_region :: "phys_addr_t \<Rightarrow> phys_addr_t \<Rightarrow> int \<Rightarrow> ulong \<Rightarrow> memblock_region" where
  "mk_region base sz nid flags = \<lparr>mr_base = base, mr_size = sz, mr_flags = flags, mr_nid = nid\<rparr>"

lemma size_sum_simps [simp]:
  "size_sum [] = 0" "size_sum (r # rs) = mr_size r + size_sum rs"
  "size_sum (rs @ ss) = size_sum rs + size_sum ss"
  by (simp_all add: size_sum_def)

lemma mk_region_sel [simp]:
  "mr_base (mk_region b s n f) = b" "mr_size (mk_region b s n f) = s"
  "mr_flags (mk_region b s n f) = f" "mr_nid (mk_region b s n f) = n"
  by (simp_all add: mk_region_def)

lemma length_live: "array_wf t \<Longrightarrow> length (live t) = nr_regions t"
  by (simp add: live_def array_wf_def)

lemma live_nth: "i < nr_regions t \<Longrightarrow> live t ! i = region_at t i"
  by (simp add: live_def region_at_def)

lemma live_split_nth:
  assumes "live t = xs @ r # ys" and "array_wf t"
  shows "region_at t (length xs) = r" and "length xs < nr_regions t"
proof -
  from assms have len: "nr_regions t = length xs + Suc (length ys)"
    by (metis length_append length_Cons length_live)
  then show "length xs < nr_regions t" by simp
  then have "region_at t (length xs) = live t ! length xs" by (simp add: live_nth)
  with assms(1) show "region_at t (length xs) = r" by simp
qed

lemma live_split_end:
  assumes "live t = xs" and "array_wf t"
  shows "\<not> length xs < nr_regions t"
  using assms length_live by auto

section \<open>Single array operations\<close>

lemma array_wf_set_region [simp]: "array_wf (set_region t i r) = array_wf t"
  by (simp add: array_wf_def set_region_def)

lemma array_wf_total_size [simp]: "array_wf (t\<lparr>total_size := x\<rparr>) = array_wf t"
  by (simp add: array_wf_def)

lemma live_total_size [simp]: "live (t\<lparr>total_size := x\<rparr>) = live t"
  by (simp add: live_def)

lemma live_set_region: "live (set_region t i r) = (live t)[i := r]"
  by (simp add: live_def set_region_def take_update_swap)

lemma set_region_sel [simp]:
  "nr_regions (set_region t i r) = nr_regions t" "mt_max (set_region t i r) = mt_max t"
  "total_size (set_region t i r) = total_size t"
  by (simp_all add: set_region_def)

lemma insert_region_live:
  assumes wf: "array_wf t" and room: "nr_regions t < mt_max t" and lv: "live t = xs @ ys"
  shows "\<exists>t'. memblock_insert_region t (length xs) b s n f = Inr t' \<and> array_wf t' \<and>
           live t' = xs @ mk_region b s n f # ys \<and> nr_regions t' = nr_regions t + 1 \<and>
           mt_max t' = mt_max t \<and> total_size t' = total_size t + s"
proof -
  let ?k = "length xs"
  from wf lv have len: "nr_regions t = ?k + length ys"
    by (metis length_append length_live)
  obtain zs where reg: "regions t = xs @ ys @ zs"
    using lv by (metis append.assoc append_take_drop_id live_def)
  from wf room len reg have zs: "zs \<noteq> []"
    by (auto simp: array_wf_def)
  then obtain z zs' where zs': "zs = z # zs'" by (cases zs) auto
  show ?thesis
    using room wf
    by (simp add: memblock_insert_region_def memmove_arr_open array_wf_def live_def len reg zs'
        mk_region_def memblock_set_region_node_def list_update_append)
qed

lemma remove_region_live:
  assumes wf: "array_wf t" and lv: "live t = xs @ r # ys" and more: "xs @ ys \<noteq> []"
  shows "array_wf (memblock_remove_region t (length xs))"
    and "live (memblock_remove_region t (length xs)) = xs @ ys"
    and "nr_regions (memblock_remove_region t (length xs)) = nr_regions t - 1"
    and "mt_max (memblock_remove_region t (length xs)) = mt_max t"
    and "total_size (memblock_remove_region t (length xs)) = total_size t - mr_size r"
proof -
  let ?k = "length xs"
  from wf lv have len: "nr_regions t = ?k + Suc (length ys)"
    by (metis length_append length_Cons length_live)
  obtain zs where reg: "regions t = xs @ r # ys @ zs"
    using lv by (metis append.assoc append_Cons append_take_drop_id live_def)
  have ge1: "Suc 0 \<le> length xs + length ys" using more by (cases xs; cases ys) auto
  then have ne: "nr_regions t - 1 \<noteq> 0" using len by arith
  have rm: "memblock_remove_region t ?k =
      t\<lparr>total_size := total_size t - mr_size r,
        regions := xs @ ys @ drop (length ys) (r # ys @ zs),
        nr_regions := nr_regions t - 1\<rparr>"
    using ne by (auto simp: memblock_remove_region_def memmove_arr_close region_at_def Let_def len reg)
  show "array_wf (memblock_remove_region t ?k)"
    using wf ge1 by (simp add: rm array_wf_def reg len)
  show "live (memblock_remove_region t ?k) = xs @ ys"
    by (simp add: rm live_def len)
  show "nr_regions (memblock_remove_region t ?k) = nr_regions t - 1"
    and "mt_max (memblock_remove_region t ?k) = mt_max t"
    and "total_size (memblock_remove_region t ?k) = total_size t - mr_size r"
    by (simp_all add: rm)
qed

text \<open>The dummy entry an array holds when its last region is removed.\<close>

definition dummy_region :: memblock_region where
  "dummy_region = \<lparr>mr_base = 0, mr_size = 0, mr_flags = 0, mr_nid = MAX_NR_NODES\<rparr>"

lemma remove_last_region_live:
  assumes wf: "array_wf t" and lv: "live t = [r]"
  shows "array_wf (memblock_remove_region t 0)"
    and "live (memblock_remove_region t 0) = [dummy_region]"
    and "nr_regions (memblock_remove_region t 0) = 1"
    and "mt_max (memblock_remove_region t 0) = mt_max t"
    and "total_size (memblock_remove_region t 0) = total_size t - mr_size r"
proof -
  from wf lv have len: "nr_regions t = 1" by (metis length_live One_nat_def length_Cons list.size(3))
  obtain zs where reg: "regions t = r # zs"
    using lv by (metis append_Cons append_Nil append_take_drop_id live_def)
  have rm: "memblock_remove_region t 0 =
      t\<lparr>total_size := total_size t - mr_size r, regions := dummy_region # zs, nr_regions := 1\<rparr>"
    by (simp add: memblock_remove_region_def len memmove_arr_def region_at_def reg set_region_def
        memblock_set_region_node_def dummy_region_def Let_def)
  show "array_wf (memblock_remove_region t 0)"
    using wf by (simp add: rm array_wf_def reg)
  show "live (memblock_remove_region t 0) = [dummy_region]"
    by (simp add: rm live_def)
  show "nr_regions (memblock_remove_region t 0) = 1"
    and "mt_max (memblock_remove_region t 0) = mt_max t"
    and "total_size (memblock_remove_region t 0) = total_size t - mr_size r"
    by (simp_all add: rm)
qed

section \<open>Merging\<close>

definition mergeable :: "memblock_region \<Rightarrow> memblock_region \<Rightarrow> bool" where
  "mergeable a b \<longleftrightarrow> region_end a = mr_base b \<and> mr_nid a = mr_nid b \<and> mr_flags a = mr_flags b"

fun merge_list :: "memblock_region list \<Rightarrow> memblock_region list" where
  "merge_list (a # b # rs) =
     (if mergeable a b then merge_list (a\<lparr>mr_size := mr_size a + mr_size b\<rparr> # rs)
      else a # merge_list (b # rs))"
| "merge_list rs = rs"

lemma merge_list_Nil [simp]: "merge_list rs = [] \<longleftrightarrow> rs = []"
  by (induction rs rule: merge_list.induct) auto

lemma size_sum_merge_list [simp]: "size_sum (merge_list rs) = size_sum rs"
  by (induction rs rule: merge_list.induct) (auto simp: add_ac)

text \<open>The condition under which the \<^verbatim>\<open>BUG_ON\<close> of the loop is silent.\<close>

fun no_backstep :: "memblock_region list \<Rightarrow> bool" where
  "no_backstep (a # b # rs) \<longleftrightarrow> region_end a \<le> mr_base b \<and> no_backstep (b # rs)"
| "no_backstep rs \<longleftrightarrow> True"

lemma no_backstep_merge:
  "no_backstep (a # b # rs) \<Longrightarrow> mergeable a b \<Longrightarrow>
   no_backstep (a\<lparr>mr_size := mr_size a + mr_size b\<rparr> # rs)"
  by (cases rs) (auto simp: mergeable_def region_end_def add.assoc [symmetric])

lemma merge_step_live:
  fixes t :: memblock_type and r :: memblock_region
  assumes wf: "array_wf t" and lv: "live t = xs @ a # b # ys"
  defines "t' \<equiv> t\<lparr>regions := memmove_arr ((regions t)[length xs := r]) (length xs + 1) (length xs + 2)
                                (nr_regions t - (length xs + 2)),
                  nr_regions := nr_regions t - 1\<rparr>"
  shows "array_wf t'" and "live t' = xs @ r # ys" and "nr_regions t' = nr_regions t - 1"
    and "mt_max t' = mt_max t" and "total_size t' = total_size t"
proof -
  from wf lv have len: "nr_regions t = length xs + Suc (Suc (length ys))"
    by (metis length_append length_Cons length_live)
  obtain zs where reg: "regions t = xs @ a # b # ys @ zs"
    using lv by (metis append.assoc append_Cons append_take_drop_id live_def)
  have mm: "memmove_arr ((regions t)[length xs := r]) (length xs + 1) (length xs + 2)
              (nr_regions t - (length xs + 2)) = xs @ r # ys @ drop (length ys) (b # ys @ zs)"
    using memmove_arr_close [of "xs @ [r]" b ys zs] by (simp add: reg len list_update_append)
  show "array_wf t'" using wf by (simp add: t'_def mm array_wf_def reg len)
  show "live t' = xs @ r # ys" unfolding t'_def mm by (simp add: live_def len)
  show "nr_regions t' = nr_regions t - 1" "mt_max t' = mt_max t" "total_size t' = total_size t"
    by (simp_all add: t'_def)
qed

lemma merge_loop_live:
  assumes "array_wf t" and "live t = xs @ ys" and "ys \<noteq> []" and "no_backstep ys"
  shows "\<exists>t'. memblock_merge_loop (length xs) t = Inr t' \<and> array_wf t' \<and>
           live t' = xs @ merge_list ys \<and> mt_max t' = mt_max t \<and> total_size t' = total_size t"
  using assms
proof (induction ys arbitrary: xs t rule: merge_list.induct [case_names 1 none single])
  case (1 a b rs)
  note wf = "1.prems"(1) and lv = "1.prems"(2)
  have lv': "live t = (xs @ [a]) @ b # rs" using lv by simp
  from live_split_nth [OF lv wf] live_split_nth [OF lv' wf]
  have at: "region_at t (length xs) = a" "region_at t (Suc (length xs)) = b"
    and lt: "length xs + 1 < nr_regions t" by simp_all
  let ?r = "a\<lparr>mr_size := mr_size a + mr_size b\<rparr>"
  show ?case
  proof (cases "mergeable a b")
    case True
    note step = merge_step_live [OF wf lv, of ?r]
    from "1.IH"(1) [OF True step(1,2)] no_backstep_merge [OF "1.prems"(4) True] True lt
    show ?thesis
      by (subst memblock_merge_loop.simps)
         (simp add: at Let_def mergeable_def memblock_get_region_node_def)
  next
    case False
    from "1.IH"(2) [OF False wf lv'] "1.prems"(4) lt False show ?thesis
      by (subst memblock_merge_loop.simps)
         (auto simp: at Let_def mergeable_def memblock_get_region_node_def)
  qed
next
  case (single v)
  then have "nr_regions t = length xs + 1"
    by (metis length_live length_append length_Cons list.size(3) One_nat_def)
  then show ?case using single by (subst memblock_merge_loop.simps) simp
qed simp

lemma merge_regions_live:
  assumes "array_wf t" and "no_backstep (live t)"
  shows "\<exists>t'. memblock_merge_regions t = Inr t' \<and> array_wf t' \<and>
           live t' = merge_list (live t) \<and> mt_max t' = mt_max t \<and> total_size t' = total_size t"
proof -
  have "live t \<noteq> []" using assms(1) by (auto simp: live_def array_wf_def)
  with merge_loop_live [of t "[]" "live t"] assms show ?thesis
    by (simp add: memblock_merge_regions_def)
qed

section \<open>Adding a range\<close>

text \<open>What one round inserts into the list of used regions.\<close>

fun add_list :: "phys_addr_t \<Rightarrow> int \<Rightarrow> ulong \<Rightarrow> phys_addr_t \<Rightarrow> memblock_region list \<Rightarrow> memblock_region list" where
  "add_list e nid fl b [] = (if b < e then [mk_region b (e - b) nid fl] else [])"
| "add_list e nid fl b (r # rs) =
     (if mr_base r \<ge> e then (if b < e then [mk_region b (e - b) nid fl] else []) @ r # rs
      else if region_end r \<le> b then r # add_list e nid fl b rs
      else if mr_base r > b then
        mk_region b (mr_base r - b) nid fl # r # add_list e nid fl (c_min (region_end r) e) rs
      else r # add_list e nid fl (c_min (region_end r) e) rs)"

definition new_count :: "phys_addr_t \<Rightarrow> int \<Rightarrow> ulong \<Rightarrow> phys_addr_t \<Rightarrow> memblock_region list \<Rightarrow> nat" where
  "new_count e nid fl b rs = length (add_list e nid fl b rs) - length rs"

lemma length_add_list: "length rs \<le> length (add_list e nid fl b rs)"
  by (induction rs arbitrary: b) (auto simp: le_SucI)

lemma new_count_simps [simp]:
  "new_count e nid fl b [] = (if b < e then 1 else 0)"
  "new_count e nid fl b (r # rs) =
     (if mr_base r \<ge> e then (if b < e then 1 else 0)
      else if region_end r \<le> b then new_count e nid fl b rs
      else if mr_base r > b then Suc (new_count e nid fl (c_min (region_end r) e) rs)
      else new_count e nid fl (c_min (region_end r) e) rs)"
  using length_add_list [of rs e nid fl "c_min (region_end r) e"]
  by (simp_all add: new_count_def Suc_diff_le)

text \<open>
  The state in which a round is after visiting \<open>pre\<close>: with \<open>ins\<close> unset nothing is inserted
  and the new regions are only counted.
\<close>

definition add_tail ::
  "bool \<Rightarrow> phys_addr_t \<Rightarrow> int \<Rightarrow> ulong \<Rightarrow> nat \<times> phys_addr_t \<times> nat \<times> memblock_type
     \<Rightarrow> (nat \<times> memblock_type) kres" where
  "add_tail ins e nid fl = (\<lambda>(idx, base, nr_new, t).
       if base < e then
         (if ins then kbind (memblock_insert_region t idx base (e - base) nid fl) (\<lambda>t. Inr (nr_new + 1, t))
          else Inr (nr_new + 1, t))
       else Inr (nr_new, t))"

lemma add_tail_simps [simp]:
  "add_tail False e nid fl (idx, b, n, t) = Inr (if b < e then n + 1 else n, t)"
  "add_tail True e nid fl (idx, b, n, t) =
     (if b < e then kbind (memblock_insert_region t idx b (e - b) nid fl) (\<lambda>t. Inr (n + 1, t))
      else Inr (n, t))"
  by (simp_all add: add_tail_def)

lemma add_round_tail:
  "memblock_add_round ins b e nid fl t =
     kbind (memblock_add_loop ins e nid fl 0 b 0 t) (add_tail ins e nid fl)"
  by (simp add: memblock_add_round_def add_tail_def)

lemma add_loop_count:
  assumes "array_wf t" and "live t = pre @ rest"
  shows "kbind (memblock_add_loop False e nid fl (length pre) b n t) (add_tail False e nid fl)
           = Inr (n + new_count e nid fl b rest, t)"
  using assms
proof (induction rest arbitrary: pre b n)
  case Nil
  with live_split_end [of t pre] show ?case
    by (subst memblock_add_loop.simps) simp
next
  case (Cons r rest)
  note at = live_split_nth [OF Cons.prems(2,1)]
  have lv: "live t = (pre @ [r]) @ rest" using Cons.prems by simp
  note IH = Cons.IH [OF Cons.prems(1) lv, simplified]
  show ?case
    by (subst memblock_add_loop.simps) (simp add: at IH Let_def region_end_def)
qed

lemma add_loop_insert:
  assumes "array_wf t" and "live t = pre @ rest"
    and "nr_regions t + new_count e nid fl b rest \<le> mt_max t"
  shows "\<exists>t'. kbind (memblock_add_loop True e nid fl (length pre) b n t) (add_tail True e nid fl)
            = Inr (n + new_count e nid fl b rest, t') \<and>
           array_wf t' \<and> live t' = pre @ add_list e nid fl b rest \<and> mt_max t' = mt_max t \<and>
           total_size t' = total_size t + (size_sum (add_list e nid fl b rest) - size_sum rest)"
  using assms
proof (induction rest arbitrary: pre b n t)
  case Nil
  note stop = live_split_end [of t pre]
  show ?case
  proof (cases "b < e")
    case True
    with Nil insert_region_live [of t pre "[]" b "e - b" nid fl] stop show ?thesis
      by (subst memblock_add_loop.simps) auto
  next
    case False
    with Nil stop show ?thesis
      by (subst memblock_add_loop.simps) simp
  qed
next
  case (Cons r rest)
  note wf = Cons.prems(1) and lv = Cons.prems(2) and room = Cons.prems(3)
  note at = live_split_nth [OF lv wf]
  have lv': "live t = (pre @ [r]) @ rest" using lv by simp
  note IH = Cons.IH [OF wf lv', simplified]
  show ?case
  proof (cases "mr_base r \<ge> e")
    case True
    show ?thesis
    proof (cases "b < e")
      case b: True
      with True room insert_region_live [OF wf _ lv, of b "e - b" nid fl] at show ?thesis
        by (subst memblock_add_loop.simps) (auto simp: Let_def)
    next
      case False
      with True lv wf at show ?thesis
        by (subst memblock_add_loop.simps) (simp add: Let_def)
    qed
  next
    case below: False
    show ?thesis
    proof (cases "region_end r \<le> b \<or> \<not> mr_base r > b")
      case True
      with below room IH [of b n] IH [of "c_min (region_end r) e" n] at show ?thesis
        by (subst memblock_add_loop.simps) (auto simp: Let_def region_end_def)
    next
      case False
      let ?b = "c_min (region_end r) e"
      from room below False have lt: "nr_regions t < mt_max t" by simp
      from insert_region_live [OF wf lt lv, of b "mr_base r - b" nid fl] obtain u where
        u: "memblock_insert_region t (length pre) b (mr_base r - b) nid fl = Inr u" "array_wf u"
          "live u = (pre @ [mk_region b (mr_base r - b) nid fl, r]) @ rest"
          "nr_regions u = nr_regions t + 1" "mt_max u = mt_max t"
          "total_size u = total_size t + (mr_base r - b)" by auto
      from room below False u(4,5) have "nr_regions u + new_count e nid fl ?b rest \<le> mt_max u" by simp
      from Cons.IH [OF u(2,3) this, of "n + 1"] below False at u(1,5,6) show ?thesis
        by (subst memblock_add_loop.simps) (auto simp: Let_def region_end_def not_le)
    qed
  qed
qed

lemma add_round_live:
  assumes wf: "array_wf t"
  shows "memblock_add_round False b e nid fl t = Inr (new_count e nid fl b (live t), t)"
    and "nr_regions t + new_count e nid fl b (live t) \<le> mt_max t \<Longrightarrow>
         \<exists>t' n. memblock_add_round True b e nid fl t = Inr (n, t') \<and> array_wf t' \<and>
           live t' = add_list e nid fl b (live t) \<and> mt_max t' = mt_max t \<and>
           total_size t' = total_size t + (size_sum (add_list e nid fl b (live t)) - size_sum (live t))"
  using add_loop_count [of t "[]" "live t" e nid fl b 0] wf
    add_loop_insert [of t "[]" "live t" e nid fl b 0]
  by (auto simp: add_round_tail)

end
