(* ===== verification/Memblock_Map.thy ===== *)
theory Memblock_Map
  imports Memblock_Refine
begin

text \<open>
  The abstract contract of a region array: a finite partial map from physical addresses to the
  node and flags of the region that covers them.  The lists of \<^verbatim>\<open>Memblock_Refine\<close> are related to
  that map: adding a range fills the unmapped addresses of the range, removing one unmaps it,
  splitting and merging regions changes nothing.
\<close>

section \<open>Regions as intervals\<close>

type_synonym attr_map = "nat \<rightharpoonup> (int \<times> ulong)"

definition r_lo :: "memblock_region \<Rightarrow> nat" where
  "r_lo r = unat (mr_base r)"

definition r_hi :: "memblock_region \<Rightarrow> nat" where
  "r_hi r = unat (mr_base r) + unat (mr_size r)"

definition region_ok :: "memblock_region \<Rightarrow> bool" where
  "region_ok r \<longleftrightarrow> mr_size r \<noteq> 0 \<and> r_hi r < 2 ^ 32"

definition regs_wf :: "memblock_region list \<Rightarrow> bool" where
  "regs_wf rs \<longleftrightarrow> list_all region_ok rs \<and> sorted_wrt (\<lambda>a b. r_hi a \<le> r_lo b) rs"

definition region_map :: "memblock_region \<Rightarrow> attr_map" where
  "region_map r = (\<lambda>a. if r_lo r \<le> a \<and> a < r_hi r then Some (mr_nid r, mr_flags r) else None)"

primrec attrs :: "memblock_region list \<Rightarrow> attr_map" where
  "attrs [] = Map.empty"
| "attrs (r # rs) = attrs rs ++ region_map r"

lemma attrs_append: "attrs (xs @ ys) = attrs ys ++ attrs xs"
  by (induction xs) simp_all

lemma attrs_Cons_apply:
  "attrs (r # rs) a = (if r_lo r \<le> a \<and> a < r_hi r then Some (mr_nid r, mr_flags r) else attrs rs a)"
  by (simp add: map_add_def region_map_def)

lemma region_ok_less: "region_ok r \<Longrightarrow> r_lo r < r_hi r"
  by (simp add: region_ok_def r_lo_def r_hi_def unat_gt_0)

lemma unat_region_end: "region_ok r \<Longrightarrow> unat (region_end r) = r_hi r"
  by (simp add: region_ok_def r_hi_def region_end_def unat_add_no_wrap)

lemma regs_wf_Nil [simp]: "regs_wf []"
  by (simp add: regs_wf_def)

lemma regs_wf_Cons:
  "regs_wf (r # rs) \<longleftrightarrow> region_ok r \<and> (\<forall>s\<in>set rs. r_hi r \<le> r_lo s) \<and> regs_wf rs"
  by (auto simp: regs_wf_def)

lemma regs_wf_append:
  "regs_wf (xs @ ys) \<longleftrightarrow> regs_wf xs \<and> regs_wf ys \<and> (\<forall>r\<in>set xs. \<forall>s\<in>set ys. r_hi r \<le> r_lo s)"
  by (auto simp: regs_wf_def sorted_wrt_append)

lemmas regs_wf_simps = regs_wf_Cons regs_wf_append

lemma regs_wf_ok: "regs_wf rs \<Longrightarrow> r \<in> set rs \<Longrightarrow> region_ok r"
  by (auto simp: regs_wf_def list_all_iff)

lemma attrs_None_iff: "attrs rs a = None \<longleftrightarrow> (\<forall>r\<in>set rs. \<not> (r_lo r \<le> a \<and> a < r_hi r))"
  by (induction rs) (auto simp: region_map_def map_add_None)

lemma attrs_Some_in:
  assumes "attrs rs a = Some x"
  shows "\<exists>r\<in>set rs. r_lo r \<le> a \<and> a < r_hi r"
  using assms attrs_None_iff [of rs a] by auto

lemma attrs_bounds:
  assumes "attrs rs a = Some x" and "regs_wf rs"
  shows "a < 2 ^ 32"
  using attrs_Some_in [OF assms(1)] regs_wf_ok [OF assms(2)] by (force simp: region_ok_def)

lemma regs_wf_no_backstep: "regs_wf rs \<Longrightarrow> no_backstep rs"
proof (induction rs rule: no_backstep.induct)
  case (1 a b rs)
  then show ?case by (auto simp: regs_wf_Cons word_le_nat_alt unat_region_end r_lo_def)
qed simp_all

section \<open>Merging keeps the map\<close>

lemma mergeable_hi_lo:
  "mergeable a b \<Longrightarrow> region_ok a \<Longrightarrow> r_hi a = r_lo b"
  by (metis mergeable_def r_lo_def unat_region_end)

lemma merged_region:
  assumes "mergeable a b" "region_ok a" "region_ok b"
  defines "m \<equiv> a\<lparr>mr_size := mr_size a + mr_size b\<rparr>"
  shows "region_ok m" "r_lo m = r_lo a" "r_hi m = r_hi b" "region_map m = region_map b ++ region_map a"
proof -
  have hl: "r_hi a = r_lo b" using assms(1,2) by (rule mergeable_hi_lo)
  then have sz: "unat (mr_size a + mr_size b) = unat (mr_size a) + unat (mr_size b)"
    using assms(3) by (intro unat_add_no_wrap) (simp add: region_ok_def r_hi_def r_lo_def)
  show lo: "r_lo m = r_lo a" by (simp add: m_def r_lo_def)
  show hi: "r_hi m = r_hi b" using hl sz by (simp add: m_def r_hi_def r_lo_def)
  have "mr_size m \<noteq> 0"
    using sz assms(2) by (metis m_def add_is_0 region_ok_def memblock_region.select_convs(2)
        memblock_region.update_convs(2) memblock_region.surjective unat_eq_zero)
  with hi assms(3) show "region_ok m" by (simp add: region_ok_def)
  show "region_map m = region_map b ++ region_map a"
    using assms(1) hl lo hi region_ok_less [OF assms(2)] region_ok_less [OF assms(3)]
    by (auto simp: region_map_def fun_eq_iff map_add_def mergeable_def m_def)
qed

lemma regs_wf_merge:
  assumes "regs_wf (a # b # rs)" "mergeable a b"
  shows "regs_wf (a\<lparr>mr_size := mr_size a + mr_size b\<rparr> # rs)"
  using merged_region [of a b] assms by (simp add: regs_wf_Cons)

lemma attrs_merge_list: "regs_wf rs \<Longrightarrow> attrs (merge_list rs) = attrs rs"
proof (induction rs rule: merge_list.induct)
  case (1 a b rs)
  then show ?case
    using merged_region(4) [of a b] regs_wf_merge [of a b rs] by (auto simp: regs_wf_Cons)
qed simp_all

lemma merge_list_lo: "regs_wf rs \<Longrightarrow> r \<in> set (merge_list rs) \<Longrightarrow> \<exists>s\<in>set rs. r_lo s \<le> r_lo r"
proof (induction rs rule: merge_list.induct)
  case (1 a b rs)
  then show ?case
    using regs_wf_merge [of a b rs] by (fastforce simp: regs_wf_Cons r_lo_def split: if_splits)
qed auto

lemma regs_wf_merge_list: "regs_wf rs \<Longrightarrow> regs_wf (merge_list rs)"
proof (induction rs rule: merge_list.induct)
  case (1 a b rs)
  show ?case
  proof (cases "mergeable a b")
    case True
    with 1 regs_wf_merge [of a b rs] show ?thesis by simp
  next
    case False
    have "\<forall>s\<in>set (merge_list (b # rs)). r_hi a \<le> r_lo s"
      using merge_list_lo [of "b # rs"] "1.prems" by (fastforce simp: regs_wf_Cons)
    with False 1 show ?thesis by (simp add: regs_wf_Cons)
  qed
qed simp_all

text \<open>After merging no two neighbours can be merged any more.\<close>

fun minimal_regs :: "memblock_region list \<Rightarrow> bool" where
  "minimal_regs (a # b # rs) \<longleftrightarrow> \<not> mergeable a b \<and> minimal_regs (b # rs)"
| "minimal_regs rs \<longleftrightarrow> True"

lemma merge_list_hd:
  "\<exists>s rest. merge_list (a # rs) = s # rest \<and> mr_base s = mr_base a \<and>
     mr_nid s = mr_nid a \<and> mr_flags s = mr_flags a"
  by (induction "a # rs" arbitrary: a rs rule: merge_list.induct) auto

lemma minimal_merge_list: "minimal_regs (merge_list rs)"
proof (induction rs rule: merge_list.induct)
  case (1 a b rs)
  obtain s rest where "merge_list (b # rs) = s # rest" "mr_base s = mr_base b"
    "mr_nid s = mr_nid b" "mr_flags s = mr_flags b"
    using merge_list_hd by blast
  with 1 show ?case by (auto simp: mergeable_def)
qed simp_all

section \<open>Adding fills the unmapped addresses\<close>

definition fill_map :: "nat \<Rightarrow> nat \<Rightarrow> int \<times> ulong \<Rightarrow> attr_map \<Rightarrow> attr_map" where
  "fill_map lo hi v m = (\<lambda>a. if m a = None \<and> lo \<le> a \<and> a < hi then Some v else m a)"

lemma mk_region_between:
  assumes "b < e"
  shows "region_ok (mk_region b (e - b) nid fl)" "r_lo (mk_region b (e - b) nid fl) = unat b"
    "r_hi (mk_region b (e - b) nid fl) = unat e"
proof -
  from assms have lt: "unat b < unat e" by (simp add: word_less_nat_alt)
  then have sz: "unat (e - b) = unat e - unat b" by (simp add: unat_sub_no_wrap)
  show lo: "r_lo (mk_region b (e - b) nid fl) = unat b" by (simp add: r_lo_def)
  show hi: "r_hi (mk_region b (e - b) nid fl) = unat e" using sz lt by (simp add: r_hi_def)
  have "e - b \<noteq> 0" using assms by auto
  with hi unat_lt32 [of e] show "region_ok (mk_region b (e - b) nid fl)" by (simp add: region_ok_def)
qed

lemma add_list_new:
  "s \<in> set (add_list e nid fl b rs) \<Longrightarrow> regs_wf rs \<Longrightarrow> b \<le> e \<Longrightarrow>
     s \<in> set rs \<or> unat b \<le> r_lo s \<and> b < e"
proof (induction rs arbitrary: b)
  case (Cons r rs)
  have ok: "region_ok r" "regs_wf rs" using Cons.prems by (auto simp: regs_wf_Cons)
  let ?b = "c_min (region_end r) e"
  have le: "?b \<le> e" by (simp add: nat_word)
  show ?case
    using Cons.prems Cons.IH [OF _ ok(2), of b] Cons.IH [OF _ ok(2) le]
    by (auto simp: mk_region_between nat_word r_lo_def split: if_splits)
qed (auto simp: mk_region_between split: if_splits)

lemma regs_wf_add_list: "regs_wf rs \<Longrightarrow> b \<le> e \<Longrightarrow> regs_wf (add_list e nid fl b rs)"
proof (induction rs arbitrary: b)
  case (Cons r rs)
  have ok: "region_ok r" "regs_wf rs" and lo: "\<forall>s\<in>set rs. r_hi r \<le> r_lo s"
    using Cons.prems by (auto simp: regs_wf_Cons)
  let ?b = "c_min (region_end r) e"
  have le: "?b \<le> e" by (simp add: nat_word)
  note hi = unat_region_end [OF ok(1)] and lt = region_ok_less [OF ok(1)]
  have tail: "\<forall>s\<in>set (add_list e nid fl ?b rs). r_hi r \<le> r_lo s"
    using add_list_new [OF _ ok(2) le] lo hi by (fastforce simp: nat_word)
  have tail': "region_end r \<le> b \<Longrightarrow> \<forall>s\<in>set (add_list e nid fl b rs). r_hi r \<le> r_lo s"
    using add_list_new [OF _ ok(2) Cons.prems(2)] lo hi by (fastforce simp: nat_word)
  have above: "\<forall>s\<in>set (add_list e nid fl ?b rs). r_lo r \<le> r_lo s" using tail lt by fastforce
  show ?case
    using Cons.IH [OF ok(2) le] Cons.IH [OF ok(2) Cons.prems(2)] ok lo lt tail tail' above
    by (auto simp: regs_wf_Cons mk_region_between nat_word r_lo_def not_le)
qed (auto simp: mk_region_between regs_wf_Cons)

lemma attrs_add_list:
  "regs_wf rs \<Longrightarrow> b \<le> e \<Longrightarrow>
   attrs (add_list e nid fl b rs) = fill_map (unat b) (unat e) (nid, fl) (attrs rs)"
proof (induction rs arbitrary: b)
  case (Cons r rs)
  have ok: "region_ok r" "regs_wf rs" and lo: "\<forall>s\<in>set rs. r_hi r \<le> r_lo s"
    using Cons.prems by (auto simp: regs_wf_Cons)
  let ?b = "c_min (region_end r) e"
  have le: "?b \<le> e" by (simp add: nat_word)
  note hi = unat_region_end [OF ok(1)] and lt = region_ok_less [OF ok(1)]
  have none: "\<And>a. a < r_hi r \<Longrightarrow> attrs rs a = None"
    using lo by (force simp: attrs_None_iff)
  show ?case
    using Cons.IH [OF ok(2) le] Cons.IH [OF ok(2) Cons.prems(2)] Cons.prems(2) hi lt none
    by (auto simp: fun_eq_iff fill_map_def attrs_Cons_apply mk_region_between nat_word r_lo_def not_le
        simp del: attrs.simps)
qed (auto simp: mk_region_between fill_map_def region_map_def fun_eq_iff nat_word)

section \<open>Isolating a range\<close>

definition lower_part :: "phys_addr_t \<Rightarrow> memblock_region \<Rightarrow> memblock_region" where
  "lower_part x r = mk_region (mr_base r) (x - mr_base r) (mr_nid r) (mr_flags r)"

definition upper_part :: "phys_addr_t \<Rightarrow> memblock_region \<Rightarrow> memblock_region" where
  "upper_part x r = r\<lparr>mr_base := x, mr_size := mr_size r - (x - mr_base r)\<rparr>"

lemma cut_parts:
  assumes ok: "region_ok r" and lo: "mr_base r < x" and hi: "x < region_end r"
  shows "r_lo (lower_part x r) = r_lo r" "r_hi (lower_part x r) = unat x" "region_ok (lower_part x r)"
    "r_lo (upper_part x r) = unat x" "r_hi (upper_part x r) = r_hi r" "region_ok (upper_part x r)"
    "region_map (upper_part x r) ++ region_map (lower_part x r) = region_map r"
    "mr_size (lower_part x r) + mr_size (upper_part x r) = mr_size r"
proof -
  have x: "r_lo r < unat x" "unat x < r_hi r"
    using lo hi unat_region_end [OF ok] by (simp_all add: r_lo_def nat_word)
  show L: "r_lo (lower_part x r) = r_lo r" "r_hi (lower_part x r) = unat x" "region_ok (lower_part x r)"
    using mk_region_between [OF lo] by (simp_all add: lower_part_def r_lo_def)
  have d: "unat (x - mr_base r) = unat x - r_lo r"
    using x(1) by (simp add: unat_sub_no_wrap r_lo_def)
  have sz: "unat (mr_size r - (x - mr_base r)) = unat (mr_size r) - (unat x - r_lo r)"
    using x d by (subst unat_sub_no_wrap) (auto simp: r_hi_def r_lo_def)
  show U: "r_lo (upper_part x r) = unat x" "r_hi (upper_part x r) = r_hi r"
    using sz x by (auto simp: upper_part_def r_lo_def r_hi_def)
  have "unat (mr_size (upper_part x r)) \<noteq> 0"
    using sz x by (simp add: upper_part_def r_hi_def r_lo_def)
  then have "mr_size (upper_part x r) \<noteq> 0" by (metis unat_0)
  with U ok show "region_ok (upper_part x r)" by (simp add: region_ok_def)
  show "region_map (upper_part x r) ++ region_map (lower_part x r) = region_map r"
    using L U x by (auto simp: region_map_def map_add_def fun_eq_iff) (simp_all add: lower_part_def upper_part_def)
  show "mr_size (lower_part x r) + mr_size (upper_part x r) = mr_size r"
    by (simp add: lower_part_def upper_part_def)
qed

lemma cut_live:
  assumes wf: "array_wf t" and room: "nr_regions t < mt_max t" and lv: "live t = pre @ r # rest"
  shows "\<exists>t'. memblock_insert_region
             ((set_region t (length pre) (r\<lparr>mr_base := x, mr_size := mr_size r - (x - mr_base r)\<rparr>))
                \<lparr>total_size := total_size t - (x - mr_base r)\<rparr>)
             (length pre) (mr_base r) (x - mr_base r) (memblock_get_region_node r) (mr_flags r) = Inr t' \<and>
           array_wf t' \<and> live t' = pre @ lower_part x r # upper_part x r # rest \<and>
           nr_regions t' = nr_regions t + 1 \<and> mt_max t' = mt_max t \<and> total_size t' = total_size t"
proof -
  let ?u = "(set_region t (length pre) (upper_part x r))\<lparr>total_size := total_size t - (x - mr_base r)\<rparr>"
  have "live ?u = pre @ upper_part x r # rest" by (simp add: live_set_region lv)
  from insert_region_live [OF _ _ this, of "mr_base r" "x - mr_base r" "mr_nid r" "mr_flags r"] wf room
  show ?thesis by (auto simp: upper_part_def lower_part_def memblock_get_region_node_def)
qed

text \<open>What the loop returns: the regions below, inside and above the range.\<close>

definition isolated ::
  "phys_addr_t \<Rightarrow> phys_addr_t \<Rightarrow> memblock_region list \<Rightarrow> memblock_region list \<Rightarrow> memblock_region list \<Rightarrow> bool" where
  "isolated b e A M C \<longleftrightarrow>
     regs_wf (A @ M @ C) \<and> (\<forall>r\<in>set A. r_hi r \<le> unat b) \<and>
     (\<forall>r\<in>set M. unat b \<le> r_lo r \<and> r_hi r \<le> unat e) \<and> (\<forall>r\<in>set C. unat e \<le> r_lo r)"

definition same_map :: "memblock_region list \<Rightarrow> memblock_region list \<Rightarrow> bool" where
  "same_map rs ss \<longleftrightarrow> attrs rs = attrs ss \<and> size_sum rs = size_sum ss"

lemma same_map_lo:
  assumes "same_map rs ss" "regs_wf rs" "\<forall>s\<in>set ss. x \<le> r_lo s"
  shows "\<forall>r\<in>set rs. x \<le> r_lo r"
proof
  fix r assume r: "r \<in> set rs"
  then have "attrs rs (r_lo r) \<noteq> None"
    using r region_ok_less [OF regs_wf_ok [OF assms(2) r]] by (auto simp: attrs_None_iff)
  then have "attrs ss (r_lo r) \<noteq> None" using assms(1) by (simp add: same_map_def)
  then obtain s where "s \<in> set ss" "r_lo s \<le> r_lo r" by (auto simp: attrs_None_iff)
  with assms(3) show "x \<le> r_lo r" by force
qed

lemma isolate_loop_inside:
  assumes "array_wf t" "live t = pre @ rest" "regs_wf rest" "\<forall>r\<in>set rest. unat b \<le> r_lo r"
    "nr_regions t < mt_max t" "length rest + 2 \<le> fuel" "b < e"
  shows "\<exists>M C t'. memblock_isolate_loop fuel b e (length pre) s en t =
             Inr (if M = [] \<or> en \<noteq> 0 then s else length pre, if M = [] then en else length pre + length M, t') \<and>
           array_wf t' \<and> mt_max t' = mt_max t \<and> total_size t' = total_size t \<and>
           live t' = pre @ M @ C \<and> isolated b e [] M C \<and> same_map (M @ C) rest"
  using assms
proof (induction rest arbitrary: pre fuel s en t)
  case Nil
  then obtain f where f: "fuel = Suc f" by (cases fuel) auto
  from Nil live_split_end [of t pre] show ?case
    by - (rule exI [of _ "[]"], rule exI [of _ "[]"], rule exI [of _ t],
          simp add: f isolated_def same_map_def)
next
  case (Cons r rest)
  then obtain f where f: "fuel = Suc f" by (cases fuel) auto
  note wf = Cons.prems(1) and lv = Cons.prems(2) and be = Cons.prems(7)
  note at = live_split_nth [OF lv wf]
  have ok: "region_ok r" "regs_wf rest" and above: "\<forall>s\<in>set rest. r_hi r \<le> r_lo s"
    using Cons.prems(3) by (auto simp: regs_wf_Cons)
  note hi = unat_region_end [OF ok(1)] and lt = region_ok_less [OF ok(1)]
  have b: "\<not> region_end r \<le> b" "\<not> mr_base r < b"
    using Cons.prems(4) hi lt by (auto simp: nat_word r_lo_def)
  consider (stop) "e \<le> mr_base r" | (cut) "mr_base r < e" "e < region_end r"
    | (take) "mr_base r < e" "region_end r \<le> e" by fastforce
  then show ?case
  proof cases
    case stop
    have "isolated b e [] [] (r # rest)"
      using stop Cons.prems(3) above lt by (force simp: isolated_def nat_word r_lo_def)
    with stop at lv wf show ?thesis
      by - (rule exI [of _ "[]"], rule exI [of _ "r # rest"], rule exI [of _ t],
          simp add: f Let_def same_map_def)
  next
    case cut
    note parts = cut_parts [OF ok(1) cut]
    from cut_live [OF wf Cons.prems(5) lv, of e] obtain u where
      u: "memblock_insert_region
             ((set_region t (length pre) (r\<lparr>mr_base := e, mr_size := mr_size r - (e - mr_base r)\<rparr>))
                \<lparr>total_size := total_size t - (e - mr_base r)\<rparr>)
             (length pre) (mr_base r) (e - mr_base r) (memblock_get_region_node r) (mr_flags r) = Inr u"
        "array_wf u" "live u = pre @ lower_part e r # upper_part e r # rest"
        "mt_max u = mt_max t" "total_size u = total_size t" by auto
    from u(3) have lu: "live u = (pre @ [lower_part e r]) @ upper_part e r # rest" by simp
    note at2 = live_split_nth [OF u(3,2)] live_split_nth [OF lu u(2), simplified]
    from Cons.prems(6) f obtain g where g: "f = Suc (Suc g)" by (cases f; cases "f - 1") auto
    have ends: "mr_base r + mr_size (lower_part e r) = e" "mr_base (lower_part e r) = mr_base r"
      "mr_base (upper_part e r) = e"
      by (simp_all add: lower_part_def upper_part_def)
    have nle: "\<not> e \<le> b" "\<not> e \<le> mr_base r" using be cut(1) by auto
    have "isolated b e [] [lower_part e r] (upper_part e r # rest)"
      using parts(1-6) ok above Cons.prems(4) lt cut(2) hi
      by (force simp: isolated_def regs_wf_Cons nat_word)
    moreover have "same_map ([lower_part e r] @ upper_part e r # rest) (r # rest)"
      using parts(7,8) by (simp add: same_map_def flip: map_add_assoc add.assoc)
    ultimately show ?thesis
      using cut at b u at2 ends nle
      by - (rule exI [of _ "[lower_part e r]"], rule exI [of _ "upper_part e r # rest"], rule exI [of _ u],
          simp add: f g Let_def flip: region_end_def)
  next
    case take
    then have nle: "\<not> e \<le> mr_base r" "\<not> e < region_end r" by auto
    from lv have lv': "live t = (pre @ [r]) @ rest" by simp
    from Cons.prems(4) have "\<forall>r\<in>set rest. unat b \<le> r_lo r" by simp
    from Cons.IH [OF wf lv' ok(2) this Cons.prems(5) _ be, of f "if en = 0 then length pre else s" "length pre + 1"]
      Cons.prems(6) f
    obtain M C t' where IH: "memblock_isolate_loop f b e (length (pre @ [r])) (if en = 0 then length pre else s)
         (length pre + 1) t = Inr (if en = 0 then length pre else s,
           if M = [] then length pre + 1 else length (pre @ [r]) + length M, t')"
        "array_wf t'" "mt_max t' = mt_max t" "total_size t' = total_size t"
        "live t' = (pre @ [r]) @ M @ C" "isolated b e [] M C" "same_map (M @ C) rest"
      by (auto simp del: length_append)
    have "\<forall>s\<in>set (M @ C). r_hi r \<le> r_lo s"
      using same_map_lo [OF IH(7) _ above] IH(6) by (simp add: isolated_def)
    then have "isolated b e [] (r # M) C"
      using IH(6) ok take hi Cons.prems(4) by (auto simp: isolated_def regs_wf_simps nat_word)
    moreover have "same_map ((r # M) @ C) (r # rest)" using IH(7) by (simp add: same_map_def)
    ultimately show ?thesis
      using nle at b IH
      by - (rule exI [of _ "r # M"], rule exI [of _ C], rule exI [of _ t'],
          simp add: f Let_def flip: region_end_def)
  qed
qed

lemma isolate_loop_live:
  assumes "array_wf t" "live t = pre @ rest" "regs_wf rest"
    "nr_regions t + 2 \<le> mt_max t" "length rest + 4 \<le> fuel" "b < e"
  shows "\<exists>A M C t'. memblock_isolate_loop fuel b e (length pre) 0 0 t =
             Inr (if M = [] then 0 else length pre + length A,
                  if M = [] then 0 else length pre + length A + length M, t') \<and>
           array_wf t' \<and> mt_max t' = mt_max t \<and> total_size t' = total_size t \<and>
           live t' = pre @ A @ M @ C \<and> isolated b e A M C \<and> same_map (A @ M @ C) rest"
  using assms
proof (induction rest arbitrary: pre fuel t)
  case Nil
  then obtain f where f: "fuel = Suc f" by (cases fuel) auto
  from Nil live_split_end [of t pre] show ?case
    by - (rule exI [of _ "[]"], rule exI [of _ "[]"], rule exI [of _ "[]"], rule exI [of _ t],
          simp add: f isolated_def same_map_def)
next
  case (Cons r rest)
  then obtain f where f: "fuel = Suc f" by (cases fuel) auto
  note wf = Cons.prems(1) and lv = Cons.prems(2) and be = Cons.prems(6)
  note at = live_split_nth [OF lv wf]
  have ok: "region_ok r" "regs_wf rest" and above: "\<forall>s\<in>set rest. r_hi r \<le> r_lo s"
    using Cons.prems(3) by (auto simp: regs_wf_Cons)
  note hi = unat_region_end [OF ok(1)] and lt = region_ok_less [OF ok(1)]
  consider (inside) "b \<le> mr_base r" | (cut) "mr_base r < b" "b < region_end r"
    | (skip) "mr_base r < b" "region_end r \<le> b" by fastforce
  then show ?case
  proof cases
    case inside
    then have "\<forall>s\<in>set (r # rest). unat b \<le> r_lo s" using above lt by (force simp: nat_word r_lo_def)
    from isolate_loop_inside [OF wf lv Cons.prems(3) this _ _ be, of fuel 0 0] Cons.prems(4,5)
    show ?thesis by - (rule exI [of _ "[]"], auto)
  next
    case cut
    then have nle: "\<not> region_end r \<le> b" "\<not> e \<le> mr_base r" using be by auto
    note parts = cut_parts [OF ok(1) cut]
    from Cons.prems(4) have room: "nr_regions t < mt_max t" by simp
    from cut_live [OF wf room lv, of b] obtain u where
      u: "memblock_insert_region
             ((set_region t (length pre) (r\<lparr>mr_base := b, mr_size := mr_size r - (b - mr_base r)\<rparr>))
                \<lparr>total_size := total_size t - (b - mr_base r)\<rparr>)
             (length pre) (mr_base r) (b - mr_base r) (memblock_get_region_node r) (mr_flags r) = Inr u"
        "array_wf u" "live u = (pre @ [lower_part b r]) @ upper_part b r # rest"
        "nr_regions u = nr_regions t + 1" "mt_max u = mt_max t" "total_size u = total_size t" by auto
    have wfu: "regs_wf (upper_part b r # rest)" and above_u: "\<forall>s\<in>set (upper_part b r # rest). unat b \<le> r_lo s"
      using parts above ok lt hi cut by (force simp: regs_wf_Cons nat_word)+
    from isolate_loop_inside [OF u(2,3) wfu above_u _ _ be, of f 0 0] Cons.prems(4,5) u(4,5) f
    obtain M C t' where IH: "memblock_isolate_loop f b e (length (pre @ [lower_part b r])) 0 0 u =
         Inr (if M = [] then 0 else length (pre @ [lower_part b r]),
              if M = [] then 0 else length (pre @ [lower_part b r]) + length M, t')"
      "array_wf t'" "mt_max t' = mt_max u" "total_size t' = total_size u"
      "live t' = (pre @ [lower_part b r]) @ M @ C" "isolated b e [] M C" "same_map (M @ C) (upper_part b r # rest)"
      by (auto simp del: length_append)
    have "\<forall>s\<in>set (M @ C). unat b \<le> r_lo s"
      using same_map_lo [OF IH(7) _ above_u] IH(6) by (simp add: isolated_def)
    then have "isolated b e [lower_part b r] M C"
      using IH(6) parts(2,3) by (auto simp: isolated_def regs_wf_simps)
    moreover have "same_map ([lower_part b r] @ M @ C) (r # rest)"
      using IH(7) parts(7,8) by (simp add: same_map_def flip: map_add_assoc add.assoc)
    ultimately show ?thesis
      using cut at u IH nle
      by - (rule exI [of _ "[lower_part b r]"], rule exI [of _ M], rule exI [of _ C], rule exI [of _ t'],
          simp add: f Let_def flip: region_end_def)
  next
    case skip
    then have nle: "\<not> e \<le> mr_base r" using be by auto
    from lv have lv': "live t = (pre @ [r]) @ rest" by simp
    from Cons.IH [OF wf lv' ok(2) Cons.prems(4) _ be, of f] Cons.prems(5) f
    obtain A M C t' where IH: "memblock_isolate_loop f b e (length (pre @ [r])) 0 0 t =
        Inr (if M = [] then 0 else length (pre @ [r]) + length A,
             if M = [] then 0 else length (pre @ [r]) + length A + length M, t')"
      "array_wf t'" "mt_max t' = mt_max t" "total_size t' = total_size t"
      "live t' = (pre @ [r]) @ A @ M @ C" "isolated b e A M C" "same_map (A @ M @ C) rest"
      by (auto simp del: length_append)
    have "\<forall>s\<in>set (A @ M @ C). r_hi r \<le> r_lo s"
      using same_map_lo [OF IH(7) _ above] IH(6) by (simp add: isolated_def)
    then have "isolated b e (r # A) M C"
      using IH(6) ok skip hi by (auto simp: isolated_def regs_wf_simps nat_word)
    moreover have "same_map ((r # A) @ M @ C) (r # rest)" using IH(7) by (simp add: same_map_def)
    ultimately show ?thesis
      using skip at IH nle
      by - (rule exI [of _ "r # A"], rule exI [of _ M], rule exI [of _ C], rule exI [of _ t'],
          simp add: f Let_def flip: region_end_def)
  qed
qed

section \<open>Removing regions\<close>

text \<open>
  Removing the entries \<open>M\<close> between \<open>A\<close> and \<open>C\<close>, from the last to the first; the array that
  loses its last region keeps the dummy entry.
\<close>

lemma remove_loop_live:
  assumes "array_wf t" "live t = A @ M @ C"
  shows "\<exists>t'. memblock_remove_loop (int (length A + length M) - 1) (int (length A)) t = t' \<and>
           array_wf t' \<and> mt_max t' = mt_max t \<and> total_size t' = total_size t - size_sum M \<and>
           live t' = (if A @ C = [] then [dummy_region] else A @ C)"
  using assms
proof (induction M arbitrary: t C rule: rev_induct)
  case Nil
  from Nil have "A @ C \<noteq> []" by (auto simp: array_wf_def live_def)
  with Nil show ?case by (subst memblock_remove_loop.simps) auto
next
  case (snoc r M)
  have i: "nat (int (length A + length (M @ [r])) - 1) = length (A @ M)" by simp
  have lv: "live t = (A @ M) @ r # C" using snoc.prems(2) by simp
  let ?u = "memblock_remove_region t (length (A @ M))"
  have step: "memblock_remove_loop (int (length A + length (M @ [r])) - 1) (int (length A)) t
      = memblock_remove_loop (int (length A + length M) - 1) (int (length A)) ?u"
    by (subst memblock_remove_loop.simps) (simp add: nat_int_add)
  show ?case
  proof (cases "A @ M @ C = []")
    case True
    with lv have "live t = [r]" by simp
    from remove_last_region_live [OF snoc.prems(1) this] True show ?thesis
      unfolding step by (subst memblock_remove_loop.simps) simp
  next
    case False
    then have ne: "(A @ M) @ C \<noteq> []" by simp
    note rm = remove_region_live [OF snoc.prems(1) lv ne]
    from snoc.IH [OF rm(1), of C] rm(2,4,5) show ?thesis
      unfolding step by (simp add: diff_diff_eq add.commute)
  qed
qed

definition restrict_out :: "nat \<Rightarrow> nat \<Rightarrow> attr_map \<Rightarrow> attr_map" where
  "restrict_out lo hi m = (\<lambda>a. if lo \<le> a \<and> a < hi then None else m a)"

lemma isolated_attrs:
  assumes "isolated b e A M C"
  shows "attrs (A @ C) = restrict_out (unat b) (unat e) (attrs (A @ M @ C))"
    and "regs_wf (A @ C)"
proof -
  have wf: "regs_wf (A @ M @ C)" using assms by (simp add: isolated_def)
  then show "regs_wf (A @ C)" by (auto simp: regs_wf_append)
  have A: "\<And>a. unat b \<le> a \<Longrightarrow> attrs A a = None" and C: "\<And>a. a < unat e \<Longrightarrow> attrs C a = None"
    and M: "\<And>a. \<not> (unat b \<le> a \<and> a < unat e) \<Longrightarrow> attrs M a = None"
    using assms by (force simp: isolated_def attrs_None_iff)+
  show "attrs (A @ C) = restrict_out (unat b) (unat e) (attrs (A @ M @ C))"
    using A C M by (auto simp: restrict_out_def fun_eq_iff attrs_append map_add_def split: option.splits)
qed

end
