(* ===== verification/Memblock_Spec.thy ===== *)
theory Memblock_Spec
  imports Memblock_Map
begin

text \<open>
  The contract of the region arrays over the operations of \<^verbatim>\<open>mm/memblock.c\<close>: the invariant of an
  array, the address map it stands for, and what \<^verbatim>\<open>memblock_add_range\<close>,
  \<^verbatim>\<open>memblock_remove_range\<close>, \<^verbatim>\<open>memblock_set_node\<close> and \<^verbatim>\<open>memblock_trim_memory\<close> do to it.
\<close>

section \<open>Invariant and abstraction\<close>

text \<open>An array whose first entry has size 0 is empty; it still counts one region.\<close>

definition type_regs :: "memblock_type \<Rightarrow> memblock_region list" where
  "type_regs t = (if mr_size (region_at t 0) = 0 then [] else live t)"

definition type_map :: "memblock_type \<Rightarrow> attr_map" where
  "type_map t = attrs (type_regs t)"

definition shape_wf :: "memblock_type \<Rightarrow> bool" where
  "shape_wf t \<longleftrightarrow> array_wf t \<and> regs_wf (type_regs t) \<and>
     (mr_size (region_at t 0) = 0 \<longrightarrow> nr_regions t = 1 \<and> mr_base (region_at t 0) = 0)"

definition type_wf :: "memblock_type \<Rightarrow> bool" where
  "type_wf t \<longleftrightarrow> shape_wf t \<and> total_size t = size_sum (type_regs t)"

definition range_end :: "phys_addr_t \<Rightarrow> phys_addr_t \<Rightarrow> nat" where
  "range_end base sz = min (unat base + unat sz) (2 ^ 32 - 1)"

lemma unat_cap_size: "unat (memblock_cap_size base sz) = min (unat sz) (2 ^ 32 - 1 - unat base)"
proof -
  have "unat (- 1 - base) = 2 ^ 32 - 1 - unat base"
    using unat_lt32 [of base] by (subst unat_sub_no_wrap) (simp_all add: unsigned_minus_1_eq_mask mask_eq_exp_minus_1)
  then show ?thesis by (simp add: memblock_cap_size_def unat_c_min)
qed

lemma unat_cap_end: "unat (base + memblock_cap_size base sz) = range_end base sz"
  using unat_lt32 [of base] unat_cap_size [of base sz]
  by (subst unat_add_no_wrap) (auto simp: range_end_def)

lemma cap_size_zero:
  "memblock_cap_size base sz = 0 \<longleftrightarrow> range_end base sz = unat base"
  using unat_lt32 [of base] unat_cap_size [of base sz] unat_eq_zero [of "memblock_cap_size base sz"]
  by (auto simp: range_end_def min_def split: if_splits)

lemma cap_end_less:
  "memblock_cap_size base sz \<noteq> 0 \<Longrightarrow> base < base + memblock_cap_size base sz"
  using unat_lt32 [of base] unat_cap_end [of base sz] cap_size_zero [of base sz]
  by (auto simp: word_less_nat_alt range_end_def)

lemma region_at_0: "array_wf t \<Longrightarrow> region_at t 0 = hd (live t)"
  by (cases "regions t") (auto simp: array_wf_def live_def region_at_def hd_take hd_conv_nth)

lemma live_ne: "array_wf t \<Longrightarrow> live t \<noteq> []"
  by (auto simp: array_wf_def live_def)

lemma type_regs_wf:
  assumes "array_wf t" "live t = rs" "regs_wf rs"
  shows "type_regs t = rs" "shape_wf t"
proof -
  have "region_at t 0 \<in> set rs" using assms region_at_0 live_ne hd_in_set by metis
  with assms(3) have "mr_size (region_at t 0) \<noteq> 0" by (auto dest: regs_wf_ok simp: region_ok_def)
  then show "type_regs t = rs" by (simp add: type_regs_def assms)
  then show "shape_wf t" using assms \<open>mr_size (region_at t 0) \<noteq> 0\<close> by (simp add: shape_wf_def)
qed

lemma shape_wf_cases:
  assumes "shape_wf t"
  obtains (empty) r where "live t = [r]" "mr_size r = 0" "mr_base r = 0" "type_regs t = []" "nr_regions t = 1"
    "region_at t 0 = r"
  | (used) "mr_size (region_at t 0) \<noteq> 0" "regs_wf (live t)" "type_regs t = live t"
proof (cases "mr_size (region_at t 0) = 0")
  case True
  with assms have "nr_regions t = 1" "array_wf t" by (auto simp: shape_wf_def)
  then have "live t = [region_at t 0]"
    by (cases "regions t") (auto simp: live_def region_at_def array_wf_def)
  with True assms show ?thesis by (intro empty) (auto simp: shape_wf_def type_regs_def)
next
  case False
  with assms show ?thesis by (intro used) (auto simp: shape_wf_def type_regs_def)
qed

lemma shape_wf_array: "shape_wf t \<Longrightarrow> array_wf t"
  by (simp add: shape_wf_def)

lemma type_wf_shape: "type_wf t \<Longrightarrow> shape_wf t"
  by (simp add: type_wf_def)

lemma type_wf_init: "type_wf init_memblock_type"
  by (simp add: type_wf_def shape_wf_def array_wf_def init_memblock_type_def type_regs_def region_at_def
      INIT_MEMBLOCK_REGIONS_def zero_region_def)

section \<open>Adding\<close>

lemma new_count_le: "new_count e nid fl b rs \<le> Suc (length rs)"
  by (induction rs arbitrary: b) (auto simp: le_SucI)

lemma add_range_live:
  assumes "shape_wf t"
  shows "\<exists>ret t'. memblock_add_range t base sz nid fl = Inr (ret, t') \<and> shape_wf t' \<and> mt_max t' = mt_max t \<and>
     (ret = 0 \<and> type_map t' = fill_map (unat base) (range_end base sz) (nid, fl) (type_map t) \<and>
        (minimal_regs (type_regs t) \<longrightarrow> minimal_regs (type_regs t')) \<and>
        (total_size t = size_sum (type_regs t) \<longrightarrow> total_size t' = size_sum (type_regs t'))
      \<or> ret = - ENOMEM \<and> t' = t \<and> mt_max t < 2 * nr_regions t + 1)"
proof -
  let ?sz = "memblock_cap_size base sz"
  let ?e = "base + ?sz"
  note wf = shape_wf_array [OF assms]
  consider (zero) "?sz = 0" | (used) "?sz \<noteq> 0" "mr_size (region_at t 0) \<noteq> 0"
    | (empty) "?sz \<noteq> 0" "mr_size (region_at t 0) = 0" by blast
  then show ?thesis
  proof cases
    case zero
    then have "fill_map (unat base) (range_end base sz) (nid, fl) (type_map t) = type_map t"
      by (auto simp: cap_size_zero fill_map_def fun_eq_iff)
    with zero assms show ?thesis by (simp add: memblock_add_range_def)
  next
    case empty
    let ?r = "mk_region base ?sz nid fl"
    let ?t = "(set_region t 0 ?r)\<lparr>total_size := ?sz\<rparr>"
    from assms empty obtain r where e: "live t = [r]" "type_regs t = []"
      by (elim shape_wf_cases) auto
    have between: "?r = mk_region base (?e - base) nid fl" by simp
    note rb = mk_region_between [OF cap_end_less [OF empty(1)], of nid fl, folded between]
    have "live ?t = [?r]" using e by (simp add: live_set_region)
    from type_regs_wf [OF _ this] wf rb have t: "type_regs ?t = [?r]" "shape_wf ?t"
      by (auto simp: regs_wf_Cons)
    have "memblock_add_range t base sz nid fl = Inr (0, ?t)"
      using empty by (cases "region_at t 0")
        (simp add: memblock_add_range_def Let_def memblock_set_region_node_def mk_region_def)
    moreover have "type_map ?t = fill_map (unat base) (range_end base sz) (nid, fl) (type_map t)"
      using t e rb by (auto simp: type_map_def fill_map_def region_map_def unat_cap_end fun_eq_iff)
    ultimately show ?thesis using t by simp
  next
    case used
    with assms have u: "regs_wf (live t)" "type_regs t = live t" by (elim shape_wf_cases; simp)+
    let ?L = "add_list ?e nid fl base (live t)"
    note le = less_imp_le [OF cap_end_less [OF used(1)]]
    note L = regs_wf_add_list [OF u(1) le, of nid fl] attrs_add_list [OF u(1) le, of nid fl]
    note round = add_round_live [OF wf, where b = base and e = ?e and nid = nid and fl = fl]
    show ?thesis
    proof (cases "nr_regions t + new_count ?e nid fl base (live t) \<le> mt_max t")
      case True
      from round(2) [OF True] obtain u1 n where u1: "memblock_add_round True base ?e nid fl t = Inr (n, u1)"
        "array_wf u1" "live u1 = ?L" "mt_max u1 = mt_max t"
        "total_size u1 = total_size t + (size_sum ?L - size_sum (live t))" by blast
      from merge_regions_live [OF u1(2)] u1(3) L(1) regs_wf_no_backstep obtain u2 where
        u2: "memblock_merge_regions u1 = Inr u2" "array_wf u2" "live u2 = merge_list ?L"
        "mt_max u2 = mt_max u1" "total_size u2 = total_size u1" by metis
      note t' = type_regs_wf [OF u2(2,3) regs_wf_merge_list [OF L(1)]]
      have "memblock_add_range t base sz nid fl = Inr (0, u2)"
        using used True round(1) u1(1) u2(1) by (simp add: memblock_add_range_def Let_def)
      then show ?thesis
        using t' u u1(4,5) u2(4,5) L attrs_merge_list [OF L(1)] minimal_merge_list
        by (simp add: type_map_def unat_cap_end)
    next
      case False
      have "new_count ?e nid fl base (live t) \<le> Suc (nr_regions t)"
        using new_count_le length_live [OF wf] by metis
      with False have "mt_max t < 2 * nr_regions t + 1" by linarith
      with False used round(1) assms show ?thesis by (simp add: memblock_add_range_def Let_def)
    qed
  qed
qed

section \<open>Removing and assigning nodes\<close>

text \<open>The two ways a call of \<^verbatim>\<open>memblock_isolate_range\<close> can end on a well-formed array.\<close>

lemma isolate_range_live:
  assumes "shape_wf t"
  shows "memblock_isolate_range t base sz = Inr (- ENOMEM, 0, 0, t) \<and> nr_regions t + 2 > mt_max t \<or>
    memblock_isolate_range t base sz = Inr (0, 0, 0, t) \<and>
      (\<forall>a. unat base \<le> a \<and> a < range_end base sz \<longrightarrow> type_map t a = None) \<or>
    (\<exists>A M C t'. memblock_isolate_range t base sz =
         Inr (0, if M = [] then 0 else length A, if M = [] then 0 else length A + length M, t') \<and>
       array_wf t' \<and> mt_max t' = mt_max t \<and> total_size t' = total_size t \<and> live t' = A @ M @ C \<and>
       isolated base (base + memblock_cap_size base sz) A M C \<and> same_map (A @ M @ C) (type_regs t))"
proof -
  let ?sz = "memblock_cap_size base sz"
  let ?e = "base + ?sz"
  show ?thesis
  proof (cases "?sz = 0 \<or> nr_regions t + 2 > mt_max t")
    case True
    then show ?thesis
      by (cases "?sz = 0") (auto simp: memblock_isolate_range_def cap_size_zero Let_def)
  next
    case False
    then have be: "base < ?e" by (simp add: cap_end_less)
    note wf = shape_wf_array [OF assms]
    from assms show ?thesis
    proof (cases rule: shape_wf_cases)
      case (empty r)
      have e0: "\<not> ?e \<le> 0" using be by (auto simp: word_le_nat_alt word_less_nat_alt)
      have "memblock_isolate_range t base sz = Inr (0, 0, 0, t)"
        using False empty e0 by (simp add: memblock_isolate_range_def Let_def eval_nat_numeral)
      with empty show ?thesis by (simp add: type_map_def)
    next
      case used
      have "length (live t) + 4 \<le> nr_regions t + 4" by (simp add: length_live [OF wf])
      from isolate_loop_live [of t "[]" "live t", OF wf _ used(2) _ this be] False used(3)
      obtain A M C t' where "memblock_isolate_loop (nr_regions t + 4) base ?e 0 0 0 t =
          Inr (if M = [] then 0 else length A, if M = [] then 0 else length A + length M, t')"
          "array_wf t'" "mt_max t' = mt_max t" "total_size t' = total_size t"
          "live t' = A @ M @ C" "isolated base ?e A M C" "same_map (A @ M @ C) (type_regs t)"
        by (auto cong: if_cong)
      with False show ?thesis
        by - (rule disjI2, rule disjI2, rule exI [of _ A], rule exI [of _ M], rule exI [of _ C], rule exI [of _ t'],
            simp add: memblock_isolate_range_def Let_def)
    qed
  qed
qed

lemma restrict_out_id:
  "(\<And>a. lo \<le> a \<and> a < hi \<Longrightarrow> m a = None) \<Longrightarrow> restrict_out lo hi m = m"
  by (auto simp: restrict_out_def fun_eq_iff)

lemma type_regs_dummy:
  assumes "array_wf t" "live t = [dummy_region]"
  shows "type_regs t = []" "shape_wf t"
proof -
  have "region_at t 0 = dummy_region" "nr_regions t = 1"
    using assms length_live [OF assms(1)] by (simp_all add: region_at_0)
  with assms show "type_regs t = []" "shape_wf t"
    by (simp_all add: type_regs_def shape_wf_def dummy_region_def)
qed

lemma remove_range_live:
  assumes "shape_wf t"
  shows "\<exists>ret t'. memblock_remove_range t base sz = Inr (ret, t') \<and> shape_wf t' \<and> mt_max t' = mt_max t \<and>
     (ret = 0 \<and> type_map t' = restrict_out (unat base) (range_end base sz) (type_map t) \<and>
        (total_size t = size_sum (type_regs t) \<longrightarrow> total_size t' = size_sum (type_regs t'))
      \<or> ret = - ENOMEM \<and> t' = t \<and> mt_max t < nr_regions t + 2)"
  using isolate_range_live [OF assms, of base sz]
proof (elim disjE exE conjE)
  fix A M C u
  assume iso: "memblock_isolate_range t base sz =
         Inr (0, if M = [] then 0 else length A, if M = [] then 0 else length A + length M, u)"
    "array_wf u" "mt_max u = mt_max t" "total_size u = total_size t" "live u = A @ M @ C"
    "isolated base (base + memblock_cap_size base sz) A M C" "same_map (A @ M @ C) (type_regs t)"
  note AC = isolated_attrs [OF iso(6), unfolded unat_cap_end]
  have map: "attrs (A @ C) = restrict_out (unat base) (range_end base sz) (type_map t)"
    using AC(1) iso(7) by (simp add: same_map_def type_map_def)
  have ts: "total_size t = size_sum (type_regs t) \<Longrightarrow> total_size u - size_sum M = size_sum (A @ C)"
    using iso(4,7) by (simp add: same_map_def flip: iso(7) [unfolded same_map_def])
  let ?t = "memblock_remove_loop (int (length A + length M) - 1) (int (length A)) u"
  have rm: "array_wf ?t" "mt_max ?t = mt_max u" "total_size ?t = total_size u - size_sum M"
    "live ?t = (if A @ C = [] then [dummy_region] else A @ C)"
    using remove_loop_live [OF iso(2,5)] by simp_all
  have res: "memblock_remove_range t base sz = Inr (0, ?t)"
    using iso(1) by (cases "M = []")
      (simp_all add: memblock_remove_range_def memblock_remove_loop.simps)
  have "type_regs ?t = A @ C \<and> shape_wf ?t"
  proof (cases "A @ C = []")
    case True with rm type_regs_dummy [OF rm(1)] show ?thesis by simp
  next
    case False with rm type_regs_wf [OF rm(1) _ AC(2)] show ?thesis by simp
  qed
  with res rm map ts iso(3) show ?thesis by (simp add: type_map_def)
qed (use assms in \<open>auto simp: memblock_remove_range_def memblock_remove_loop.simps restrict_out_id ENOMEM_def\<close>)

definition set_nid :: "int \<Rightarrow> memblock_region \<Rightarrow> memblock_region" where
  "set_nid nid r = memblock_set_region_node r nid"

lemma set_nid_sel [simp]:
  "r_lo (set_nid nid r) = r_lo r" "r_hi (set_nid nid r) = r_hi r" "mr_size (set_nid nid r) = mr_size r"
  "mr_nid (set_nid nid r) = nid" "mr_flags (set_nid nid r) = mr_flags r"
  "region_ok (set_nid nid r) = region_ok r"
  by (simp_all add: set_nid_def memblock_set_region_node_def r_lo_def r_hi_def region_ok_def)

lemma set_node_loop_live:
  assumes "array_wf t" "live t = A @ M @ C"
  shows "\<exists>t'. memblock_set_node_loop (length A) (length A + length M) nid t = t' \<and>
           array_wf t' \<and> mt_max t' = mt_max t \<and> total_size t' = total_size t \<and>
           live t' = A @ map (set_nid nid) M @ C"
  using assms
proof (induction M arbitrary: t A)
  case Nil
  then show ?case by (subst memblock_set_node_loop.simps) simp
next
  case (Cons r M)
  note at = live_split_nth [of t A r "M @ C"]
  let ?u = "set_region t (length A) (set_nid nid r)"
  have "live ?u = (A @ [set_nid nid r]) @ M @ C"
    by (simp add: live_set_region Cons.prems)
  from Cons.IH [OF _ this] Cons.prems(1) have
    "\<exists>t'. memblock_set_node_loop (length A + 1) (length A + length (r # M)) nid ?u = t' \<and>
       array_wf t' \<and> mt_max t' = mt_max t \<and> total_size t' = total_size t \<and>
       live t' = A @ map (set_nid nid) (r # M) @ C" by simp
  then show ?case
    using Cons.prems at by (subst memblock_set_node_loop.simps) (simp flip: set_nid_def)
qed

definition set_node_map :: "nat \<Rightarrow> nat \<Rightarrow> int \<Rightarrow> attr_map \<Rightarrow> attr_map" where
  "set_node_map lo hi nid m =
     (\<lambda>a. if lo \<le> a \<and> a < hi then map_option (\<lambda>(_, fl). (nid, fl)) (m a) else m a)"

lemma attrs_set_nid: "attrs (map (set_nid nid) rs) a = map_option (\<lambda>(_, fl). (nid, fl)) (attrs rs a)"
  by (induction rs) (simp_all add: attrs_Cons_apply del: attrs.simps(2))

lemma isolated_set_node:
  assumes "isolated b e A M C"
  shows "attrs (A @ map (set_nid nid) M @ C) = set_node_map (unat b) (unat e) nid (attrs (A @ M @ C))"
    and "regs_wf (A @ map (set_nid nid) M @ C)"
proof -
  have wf: "regs_wf (A @ M @ C)" using assms by (simp add: isolated_def)
  then show "regs_wf (A @ map (set_nid nid) M @ C)"
    by (auto simp: regs_wf_def list_all_iff sorted_wrt_append sorted_wrt_map)
  have A: "\<And>a. unat b \<le> a \<Longrightarrow> attrs A a = None" and C: "\<And>a. a < unat e \<Longrightarrow> attrs C a = None"
    and M: "\<And>a. \<not> (unat b \<le> a \<and> a < unat e) \<Longrightarrow> attrs M a = None"
    using assms by (force simp: isolated_def attrs_None_iff)+
  show "attrs (A @ map (set_nid nid) M @ C) = set_node_map (unat b) (unat e) nid (attrs (A @ M @ C))"
    using A C M
    by (auto simp: set_node_map_def fun_eq_iff attrs_append attrs_set_nid map_add_def split: option.splits)
qed

lemma set_node_map_id:
  "(\<And>a. lo \<le> a \<and> a < hi \<Longrightarrow> m a = None) \<Longrightarrow> set_node_map lo hi nid m = m"
  by (auto simp: set_node_map_def fun_eq_iff)

lemma size_sum_set_nid [simp]: "size_sum (map (set_nid nid) rs) = size_sum rs"
  by (induction rs) simp_all

lemma merge_type:
  assumes "array_wf t" "regs_wf rs" "live t = rs"
  shows "\<exists>t'. memblock_merge_regions t = Inr t' \<and> shape_wf t' \<and> mt_max t' = mt_max t \<and>
    total_size t' = total_size t \<and> type_map t' = attrs rs \<and> size_sum (type_regs t') = size_sum rs \<and>
    minimal_regs (type_regs t')"
proof -
  from merge_regions_live [OF assms(1)] assms regs_wf_no_backstep obtain u where
    u: "memblock_merge_regions t = Inr u" "array_wf u" "live u = merge_list rs"
    "mt_max u = mt_max t" "total_size u = total_size t" by metis
  with type_regs_wf [OF u(2,3) regs_wf_merge_list [OF assms(2)]] attrs_merge_list [OF assms(2)]
  show ?thesis by (simp add: type_map_def minimal_merge_list)
qed

lemma merge_noop:
  assumes "shape_wf t"
  shows "\<exists>t'. memblock_merge_regions t = Inr t' \<and> shape_wf t' \<and> mt_max t' = mt_max t \<and>
    total_size t' = total_size t \<and> type_map t' = type_map t \<and> size_sum (type_regs t') = size_sum (type_regs t) \<and>
    minimal_regs (type_regs t')"
  using assms
proof (cases rule: shape_wf_cases)
  case (empty r)
  then have "memblock_merge_regions t = Inr t"
    by (simp add: memblock_merge_regions_def memblock_merge_loop.simps)
  with assms empty show ?thesis by simp
next
  case used
  from merge_type [OF shape_wf_array [OF assms] used(2) refl] used(3) show ?thesis
    by (simp add: type_map_def)
qed

lemma set_node_live:
  assumes "shape_wf t"
  shows "\<exists>ret t'. memblock_set_node base sz t nid = Inr (ret, t') \<and> shape_wf t' \<and> mt_max t' = mt_max t \<and>
     (ret = 0 \<and> type_map t' = set_node_map (unat base) (range_end base sz) nid (type_map t) \<and>
        minimal_regs (type_regs t') \<and>
        (total_size t = size_sum (type_regs t) \<longrightarrow> total_size t' = size_sum (type_regs t'))
      \<or> ret = - ENOMEM \<and> t' = t \<and> mt_max t < nr_regions t + 2)"
  using isolate_range_live [OF assms, of base sz]
proof (elim disjE exE conjE)
  fix A M C u
  assume iso: "memblock_isolate_range t base sz =
         Inr (0, if M = [] then 0 else length A, if M = [] then 0 else length A + length M, u)"
    "array_wf u" "mt_max u = mt_max t" "total_size u = total_size t" "live u = A @ M @ C"
    "isolated base (base + memblock_cap_size base sz) A M C" "same_map (A @ M @ C) (type_regs t)"
  note N = isolated_set_node [OF iso(6), unfolded unat_cap_end, of nid]
  let ?v = "memblock_set_node_loop (length A) (length A + length M) nid u"
  have v: "array_wf ?v" "mt_max ?v = mt_max u" "total_size ?v = total_size u"
    "live ?v = A @ map (set_nid nid) M @ C"
    using set_node_loop_live [OF iso(2,5), of nid] by auto
  from merge_type [OF v(1) N(2) v(4)] obtain t' where
    t': "memblock_merge_regions ?v = Inr t'" "shape_wf t'" "mt_max t' = mt_max ?v"
      "total_size t' = total_size ?v" "type_map t' = attrs (A @ map (set_nid nid) M @ C)"
      "size_sum (type_regs t') = size_sum (A @ map (set_nid nid) M @ C)" "minimal_regs (type_regs t')"
    by blast
  have "memblock_set_node base sz t nid = Inr (0, t')"
    using iso(1) t'(1) by (cases "M = []") (auto simp: memblock_set_node_def memblock_set_node_loop.simps)
  moreover have "type_map t' = set_node_map (unat base) (range_end base sz) nid (type_map t)"
    using N(1) t'(5) iso(7) by (simp add: same_map_def type_map_def)
  moreover have "size_sum (type_regs t') = size_sum (type_regs t)"
    using t'(6) iso(7) by (simp add: same_map_def flip: iso(7) [unfolded same_map_def])
  ultimately show ?thesis using t' v iso(3,4) by simp
next
  assume iso: "memblock_isolate_range t base sz = Inr (0, 0, 0, t)"
    "\<forall>a. unat base \<le> a \<and> a < range_end base sz \<longrightarrow> type_map t a = None"
  with merge_noop [OF assms] show ?thesis
    by (auto simp: memblock_set_node_def memblock_set_node_loop.simps set_node_map_id)
qed (use assms in \<open>auto simp: memblock_set_node_def ENOMEM_def\<close>)

section \<open>Trimming\<close>

definition trim_region :: "phys_addr_t \<Rightarrow> memblock_region \<Rightarrow> memblock_region option" where
  "trim_region align r =
     (let s = round_up (mr_base r) align; e = round_down (region_end r) align in
      if s = mr_base r \<and> e = region_end r then Some r
      else if s < e then Some (r\<lparr>mr_base := s, mr_size := e - s\<rparr>) else None)"

primrec trim_list :: "phys_addr_t \<Rightarrow> memblock_region list \<Rightarrow> memblock_region list" where
  "trim_list align [] = []"
| "trim_list align (r # rs) =
     (case trim_region align r of Some r' \<Rightarrow> r' # trim_list align rs | None \<Rightarrow> trim_list align rs)"

lemma trim_dummy:
  "round_up (mr_base dummy_region) al = mr_base dummy_region"
  "round_down (mr_base dummy_region + mr_size dummy_region) al = mr_base dummy_region + mr_size dummy_region"
  by (simp_all add: dummy_region_def round_up_def round_down_def)

lemma trim_loop_live:
  assumes "array_wf t" "live t = pre @ rest" "length rest + 2 \<le> fuel"
  shows "\<exists>t'. memblock_trim_loop fuel (2 ^ k) (length pre) t = Inr t' \<and> array_wf t' \<and> mt_max t' = mt_max t \<and>
    live t' = (if pre @ trim_list (2 ^ k) rest = [] then [dummy_region] else pre @ trim_list (2 ^ k) rest)"
  using assms
proof (induction rest arbitrary: pre fuel t)
  case Nil
  then obtain f where f: "fuel = Suc f" by (cases fuel) auto
  from Nil live_split_end [of t pre] live_ne [of t] show ?case by (simp add: f)
next
  case (Cons r rest)
  then obtain f where f: "fuel = Suc f" by (cases fuel) auto
  note wf = Cons.prems(1) and lv = Cons.prems(2)
  note at = live_split_nth [OF lv wf]
  show ?case
  proof (cases "trim_region (2 ^ k) r")
    case (Some r')
    let ?u = "set_region t (length pre) r'"
    have u: "live ?u = (pre @ [r']) @ rest" by (simp add: live_set_region lv)
    have same: "r' = r \<Longrightarrow> ?u = t"
      using at(1) by (cases t) (auto simp: set_region_def region_at_def)
    have "memblock_trim_loop fuel (2 ^ k) (length pre) t = memblock_trim_loop f (2 ^ k) (length (pre @ [r'])) ?u"
      using Some at same by (auto simp: f Let_def trim_region_def region_end_def split: if_splits)
    with Cons.IH [OF _ u, of f] wf Cons.prems(3) f Some show ?thesis by simp
  next
    case None
    let ?u = "memblock_remove_region t (length pre)"
    have step: "memblock_trim_loop fuel (2 ^ k) (length pre) t = memblock_trim_loop f (2 ^ k) (length pre) ?u"
      using None at by (auto simp: f Let_def trim_region_def region_end_def split: if_splits)
    show ?thesis
    proof (cases "pre @ rest = []")
      case True
      with lv have "live t = [r]" by simp
      note rm = remove_last_region_live [OF wf this]
      obtain g where g: "f = Suc (Suc g)" using Cons.prems(3) f by (cases f; cases "f - 1") auto
      have "region_at ?u 0 = dummy_region" using rm(1,2) True by (simp add: region_at_0)
      with step True rm None show ?thesis
        by (simp add: g Let_def trim_dummy)
    next
      case False
      note rm = remove_region_live [OF wf lv False]
      have "length rest + 2 \<le> f" using Cons.prems(3) f by simp
      from Cons.IH [OF rm(1,2) this] rm(4) None show ?thesis
        by (simp only: step trim_list.simps option.case)
    qed
  qed
qed

text \<open>The aligned block of an address lies inside a region.\<close>

definition block_inside :: "nat \<Rightarrow> nat \<Rightarrow> memblock_region \<Rightarrow> bool" where
  "block_inside k a r \<longleftrightarrow> r_lo r \<le> a - a mod 2 ^ k \<and> a - a mod 2 ^ k + 2 ^ k \<le> r_hi r"

lemma block_between:
  assumes "(m::nat) dvd s" "m dvd e" "0 < m"
  shows "s \<le> a \<and> a < e \<longleftrightarrow> s \<le> a - a mod m \<and> a - a mod m + m \<le> e"
proof -
  obtain i j where ij: "s = m * i" "e = m * j" using assms by (auto elim!: dvdE)
  have a: "a - a mod m = m * (a div m)" by (simp add: minus_mod_eq_mult_div)
  have "m * i \<le> a \<longleftrightarrow> i \<le> a div m" "a < m * j \<longleftrightarrow> a div m < j"
    using assms(3) by (simp_all add: less_eq_div_iff_mult_less_eq div_less_iff_less_mult mult.commute)
  moreover have "m * i \<le> m * (a div m) \<longleftrightarrow> i \<le> a div m" using assms(3) by simp
  moreover have "m * (a div m) + m \<le> m * j \<longleftrightarrow> a div m < j"
    using assms(3) by (metis Suc_le_eq add.commute mult_Suc_right mult_le_cancel1)
  ultimately show ?thesis using ij a by simp
qed

lemma multiple_le:
  assumes "(m::nat) dvd s" "m dvd b" "s < b + m"
  shows "s \<le> b"
proof -
  obtain i j where ij: "s = m * i" "b = m * j" using assms by (auto elim!: dvdE)
  with assms(3) have "m * i < m * (j + 1)" by simp
  then have "i < j + 1" by (simp only: mult_less_cancel1)
  with ij show ?thesis by simp
qed

lemma trim_bounds:
  fixes r :: memblock_region
  assumes ok: "region_ok r" and k: "k < 32" and lo: "r_lo r \<le> 2 ^ 32 - 2 ^ k"
  defines "s \<equiv> unat (round_up (mr_base r) (2 ^ k))" and "e \<equiv> unat (round_down (region_end r) (2 ^ k))"
  shows "r_lo r \<le> s" "2 ^ k dvd s" "s < r_lo r + 2 ^ k" "e \<le> r_hi r" "2 ^ k dvd e" "r_hi r < e + 2 ^ k"
  using round_up_bounds [of k "mr_base r"] round_down_bounds [where x = "region_end r" and k = k] assms
  by (simp_all add: unat_region_end r_lo_def)

lemma block_inside_iff:
  assumes "region_ok r" "k < 32" "r_lo r \<le> 2 ^ 32 - 2 ^ k"
  shows "block_inside k a r \<longleftrightarrow>
    unat (round_up (mr_base r) (2 ^ k)) \<le> a \<and> a < unat (round_down (region_end r) (2 ^ k))"
proof -
  let ?s = "unat (round_up (mr_base r) (2 ^ k))" and ?e = "unat (round_down (region_end r) (2 ^ k))"
  let ?b = "a - a mod 2 ^ k"
  note B = trim_bounds [OF assms]
  have mult: "(2::nat) ^ k dvd ?b" by (rule dvd_minus_mod)
  have up: "r_lo r \<le> ?b \<longleftrightarrow> ?s \<le> ?b"
  proof
    assume "r_lo r \<le> ?b"
    with B(3) have "?s < ?b + 2 ^ k" by linarith
    with B(2) mult show "?s \<le> ?b" by (rule multiple_le)
  qed (use B(1) in linarith)
  have down: "?b + 2 ^ k \<le> r_hi r \<longleftrightarrow> ?b + 2 ^ k \<le> ?e"
  proof
    assume "?b + 2 ^ k \<le> r_hi r"
    with B(6) have "?b + 2 ^ k < ?e + 2 ^ k" by linarith
    then show "?b + 2 ^ k \<le> ?e" by (rule multiple_le [OF dvd_add [OF mult dvd_refl] B(5)])
  qed (use B(4) in linarith)
  show ?thesis
    using block_between [OF B(2,5), of a] up down by (simp add: block_inside_def)
qed

lemma trim_region_Some:
  assumes ok: "region_ok r" "k < 32" "r_lo r \<le> 2 ^ 32 - 2 ^ k" and tr: "trim_region (2 ^ k) r = Some r'"
  shows "region_ok r'" "r_lo r \<le> r_lo r'" "r_hi r' \<le> r_hi r"
    "region_map r' = (\<lambda>a. if block_inside k a r then Some (mr_nid r, mr_flags r) else None)"
proof -
  let ?s = "round_up (mr_base r) (2 ^ k)" and ?e = "round_down (region_end r) (2 ^ k)"
  note B = trim_bounds [OF ok] and I = block_inside_iff [OF ok]
  have "r' = r \<and> ?s = mr_base r \<and> ?e = region_end r \<or> ?s < ?e \<and> r' = mk_region ?s (?e - ?s) (mr_nid r) (mr_flags r)"
    using tr by (cases r) (auto simp: trim_region_def Let_def mk_region_def split: if_splits)
  then have "region_ok r' \<and> r_lo r' = unat ?s \<and> r_hi r' = unat ?e \<and> mr_nid r' = mr_nid r \<and> mr_flags r' = mr_flags r"
    using mk_region_between [of ?s ?e "mr_nid r" "mr_flags r"] ok(1) unat_region_end [OF ok(1)]
    by (auto simp: r_lo_def)
  with B I show "region_ok r'" "r_lo r \<le> r_lo r'" "r_hi r' \<le> r_hi r"
    "region_map r' = (\<lambda>a. if block_inside k a r then Some (mr_nid r, mr_flags r) else None)"
    by (simp_all add: region_map_def fun_eq_iff)
qed

lemma trim_region_None:
  assumes ok: "region_ok r" "k < 32" "r_lo r \<le> 2 ^ 32 - 2 ^ k" and tr: "trim_region (2 ^ k) r = None"
  shows "\<not> block_inside k a r"
  using tr block_inside_iff [OF ok, of a]
  by (auto simp: trim_region_def Let_def word_less_nat_alt split: if_splits)

definition trimmable :: "nat \<Rightarrow> memblock_region list \<Rightarrow> bool" where
  "trimmable k rs \<longleftrightarrow> (\<forall>r\<in>set rs. r_lo r \<le> 2 ^ 32 - 2 ^ k)"

definition keep_blocks :: "nat \<Rightarrow> memblock_region list \<Rightarrow> attr_map \<Rightarrow> attr_map" where
  "keep_blocks k rs m = (\<lambda>a. if \<exists>r\<in>set rs. block_inside k a r then m a else None)"

lemma block_inside_in: "block_inside k a r \<Longrightarrow> r_lo r \<le> a \<and> a < r_hi r"
proof -
  assume b: "block_inside k a r"
  have "a mod 2 ^ k < 2 ^ k" "a mod 2 ^ k \<le> a" by simp_all
  with b show ?thesis unfolding block_inside_def by linarith
qed

lemma trim_list_sub: "r' \<in> set (trim_list al rs) \<Longrightarrow> \<exists>r\<in>set rs. trim_region al r = Some r'"
  by (induction rs) (auto split: option.splits)

lemma trim_list_map:
  assumes "regs_wf rs" "k < 32" "trimmable k rs"
  shows "regs_wf (trim_list (2 ^ k) rs) \<and> attrs (trim_list (2 ^ k) rs) = keep_blocks k rs (attrs rs)"
  using assms
proof (induction rs)
  case Nil
  then show ?case by (simp add: keep_blocks_def)
next
  case (Cons r rs)
  have ok: "region_ok r" "r_lo r \<le> 2 ^ 32 - 2 ^ k" "regs_wf rs" "trimmable k rs"
    and above: "\<forall>s\<in>set rs. r_hi r \<le> r_lo s"
    using Cons.prems by (auto simp: regs_wf_Cons trimmable_def)
  have IH: "regs_wf (trim_list (2 ^ k) rs)" "attrs (trim_list (2 ^ k) rs) = keep_blocks k rs (attrs rs)"
    using Cons.IH ok Cons.prems(2) by auto
  have out: "\<And>a s. block_inside k a r \<Longrightarrow> s \<in> set rs \<Longrightarrow> \<not> block_inside k a s"
    using above by (fastforce dest: block_inside_in)
  have up: "\<And>s. s \<in> set (trim_list (2 ^ k) rs) \<Longrightarrow> r_hi r \<le> r_lo s"
  proof -
    fix s assume "s \<in> set (trim_list (2 ^ k) rs)"
    then obtain s0 where s0: "s0 \<in> set rs" "trim_region (2 ^ k) s0 = Some s" using trim_list_sub by blast
    then have "r_lo s0 \<le> r_lo s"
      using trim_region_Some(2) [OF _ Cons.prems(2) _ s0(2)] regs_wf_ok [OF ok(3) s0(1)] ok(4)
      by (auto simp: trimmable_def)
    with above s0(1) show "r_hi r \<le> r_lo s" by force
  qed
  show ?case
  proof (cases "trim_region (2 ^ k) r")
    case None
    note N = trim_region_None [OF ok(1) Cons.prems(2) ok(2) None]
    have "keep_blocks k (r # rs) (attrs (r # rs)) = keep_blocks k rs (attrs rs)"
    proof
      fix a
      show "keep_blocks k (r # rs) (attrs (r # rs)) a = keep_blocks k rs (attrs rs) a"
        using N [of a] above block_inside_in [of k a]
        by (fastforce simp: keep_blocks_def attrs_Cons_apply simp del: attrs.simps)
    qed
    with None IH show ?thesis by simp
  next
    case (Some r')
    note S = trim_region_Some [OF ok(1) Cons.prems(2) ok(2) Some]
    have "regs_wf (r' # trim_list (2 ^ k) rs)"
      using S IH up by (fastforce simp: regs_wf_Cons)
    moreover have "attrs (r' # trim_list (2 ^ k) rs) = keep_blocks k (r # rs) (attrs (r # rs))"
    proof
      fix a
      show "attrs (r' # trim_list (2 ^ k) rs) a = keep_blocks k (r # rs) (attrs (r # rs)) a"
        using S(4) IH(2) out [of a] block_inside_in [of k a] above
        by (fastforce simp: keep_blocks_def map_add_def region_map_def split: option.splits)
    qed
    ultimately show ?thesis using Some by simp
  qed
qed

lemma trim_memory_live:
  assumes wf: "shape_wf (mb_memory mb)" and k: "k < 32" "trimmable k (type_regs (mb_memory mb))"
  shows "\<exists>t. memblock_trim_memory (2 ^ k) mb = Inr (mb\<lparr>mb_memory := t\<rparr>) \<and> shape_wf t \<and>
    type_map t = keep_blocks k (type_regs (mb_memory mb)) (type_map (mb_memory mb))"
proof -
  let ?t = "mb_memory mb"
  note awf = shape_wf_array [OF wf]
  have fuel: "length (live ?t) + 2 \<le> nr_regions ?t + 2" by (simp add: length_live [OF awf])
  from trim_loop_live [of ?t "[]" "live ?t", OF awf _ fuel, of k] obtain u where
    u: "memblock_trim_loop (nr_regions ?t + 2) (2 ^ k) 0 ?t = Inr u" "array_wf u"
      "live u = (if trim_list (2 ^ k) (live ?t) = [] then [dummy_region] else trim_list (2 ^ k) (live ?t))"
    by auto
  have res: "memblock_trim_memory (2 ^ k) mb = Inr (mb\<lparr>mb_memory := u\<rparr>)"
    using u(1) by (simp add: memblock_trim_memory_def)
  from wf show ?thesis
  proof (cases rule: shape_wf_cases)
    case (empty r)
    then have "trim_region (2 ^ k) r = Some r"
      by (simp add: trim_region_def region_end_def round_up_def round_down_def)
    with empty u have "live u = [r]" by simp
    then have "region_at u 0 = r" "nr_regions u = 1"
      using region_at_0 [OF u(2)] length_live [OF u(2)] by simp_all
    with empty u(2) have "type_regs u = []" "shape_wf u"
      by (simp_all add: type_regs_def shape_wf_def)
    with res empty show ?thesis by (auto simp: type_map_def keep_blocks_def)
  next
    case used
    from k used have tm: "trimmable k (live ?t)" by simp
    note T = trim_list_map [OF used(2) k(1) tm]
    have "type_regs u = trim_list (2 ^ k) (live ?t) \<and> shape_wf u"
    proof (cases "trim_list (2 ^ k) (live ?t) = []")
      case True
      with type_regs_dummy [OF u(2)] u(3) show ?thesis by simp
    next
      case False
      with type_regs_wf [OF u(2) _ conjunct1 [OF T]] u(3) show ?thesis by simp
    qed
    with res T used(3) show ?thesis by (intro exI [of _ u]) (simp add: type_map_def)
  qed
qed

section \<open>Accounting\<close>

definition region_cover :: "memblock_region \<Rightarrow> nat set" where
  "region_cover r = {r_lo r..<r_hi r}"

lemma dom_region_map: "dom (region_map r) = region_cover r"
  by (auto simp: region_cover_def region_map_def dom_def)

lemma dom_attrs: "dom (attrs rs) = (\<Union>r\<in>set rs. region_cover r)"
  by (induction rs) (simp_all add: dom_region_map)

lemma card_attrs: "regs_wf rs \<Longrightarrow> card (dom (attrs rs)) = sum_list (map (\<lambda>r. unat (mr_size r)) rs)"
proof (induction rs)
  case (Cons r rs)
  have disj: "region_cover r \<inter> dom (attrs rs) = {}"
    using Cons.prems by (force simp: regs_wf_Cons region_cover_def dom_attrs)
  have "finite (dom (attrs rs))" by (auto simp: dom_attrs region_cover_def)
  moreover have "dom (attrs (r # rs)) = region_cover r \<union> dom (attrs rs)" by (simp add: dom_region_map)
  moreover have "card (region_cover r) = unat (mr_size r)" by (simp add: region_cover_def r_lo_def r_hi_def)
  ultimately show ?case
    using Cons disj by (simp add: card_Un_disjoint region_cover_def regs_wf_Cons)
qed simp

lemma size_sum_card:
  assumes "regs_wf rs"
  shows "unat (size_sum rs) = card (dom (attrs rs))"
proof -
  have "region_cover r \<subseteq> {0..<2 ^ 32 - 1}" if "r \<in> set rs" for r
    using regs_wf_ok [OF assms that] by (auto simp: region_cover_def region_ok_def)
  then have "dom (attrs rs) \<subseteq> {0..<2 ^ 32 - 1}" unfolding dom_attrs by blast
  then have "card (dom (attrs rs)) \<le> 2 ^ 32 - 1"
    using card_mono [of "{0..<2 ^ 32 - 1 :: nat}" "dom (attrs rs)"] by simp
  moreover have "size_sum rs = of_nat (sum_list (map (\<lambda>r. unat (mr_size r)) rs))"
    by (induction rs) (simp_all add: size_sum_def)
  ultimately show ?thesis
    using card_attrs [OF assms] by (simp add: unat_of_nat)
qed

section \<open>Properties\<close>

definition demo_type :: memblock_type where
  "demo_type = init_memblock_type\<lparr>total_size := 0x2000,
     regions := (regions init_memblock_type)[0 := mk_region 0x1000 0x2000 MAX_NR_NODES 0]\<rparr>"

lemma demo_type_facts:
  "live demo_type = [mk_region 0x1000 0x2000 MAX_NR_NODES 0]" "mt_max demo_type = INIT_MEMBLOCK_REGIONS"
  "nr_regions demo_type = 1" "array_wf demo_type" "type_wf demo_type" "shape_wf demo_type"
  "type_regs demo_type = [mk_region 0x1000 0x2000 MAX_NR_NODES 0]"
proof -
  show l: "live demo_type = [mk_region 0x1000 0x2000 MAX_NR_NODES 0]" and "mt_max demo_type = INIT_MEMBLOCK_REGIONS"
    and "nr_regions demo_type = 1" and a: "array_wf demo_type"
    by (simp_all add: demo_type_def init_memblock_type_def live_def array_wf_def INIT_MEMBLOCK_REGIONS_def
        eval_nat_numeral)
  have "regs_wf [mk_region 0x1000 0x2000 MAX_NR_NODES 0]"
    by (simp add: regs_wf_Cons region_ok_def r_hi_def)
  from type_regs_wf [OF a l this] show "shape_wf demo_type"
    and "type_regs demo_type = [mk_region 0x1000 0x2000 MAX_NR_NODES 0]" by simp_all
  then show "type_wf demo_type" by (simp add: type_wf_def demo_type_def)
qed

text \<open>
  C3: \<^verbatim>\<open>memblock_add_range\<close> on a well-formed array returns (no \<^verbatim>\<open>BUG_ON\<close> fires) and keeps it
  well-formed.  On success the array maps every address of the range that was unmapped to the
  given node and flags and leaves every other address as it was; otherwise it returns
  \<^verbatim>\<open>-ENOMEM\<close>, changes nothing, and the array has no room for twice its regions.
\<close>

theorem add_range_refines:
  assumes "type_wf t"
  shows "\<exists>ret t'. memblock_add_range t base sz nid flags = Inr (ret, t') \<and> type_wf t' \<and>
     (ret = 0 \<and> type_map t' = fill_map (unat base) (range_end base sz) (nid, flags) (type_map t)
      \<or> ret = - ENOMEM \<and> t' = t \<and> mt_max t < 2 * nr_regions t + 1)"
  using add_range_live [of t base sz nid flags] assms by (auto simp: type_wf_def)

theorem add_range_refines_witness:
  "\<exists>ret t'. memblock_add_range demo_type 0x2800 0x1000 1 0 = Inr (ret, t') \<and> type_wf t' \<and>
     (ret = 0 \<and> type_map t' = fill_map (unat (0x2800 :: phys_addr_t)) (range_end 0x2800 0x1000) (1, 0) (type_map demo_type)
      \<or> ret = - ENOMEM \<and> t' = demo_type \<and> mt_max demo_type < 2 * nr_regions demo_type + 1)"
  using add_range_refines [OF demo_type_facts(5), of "0x2800" "0x1000" 1 0] by simp

text \<open>
  C4: \<^verbatim>\<open>memblock_remove_range\<close> on a well-formed array returns and keeps it well-formed.  On success
  exactly the addresses of the range are unmapped, splitting regions that cross its ends;
  otherwise it returns \<^verbatim>\<open>-ENOMEM\<close>, changes nothing, and fewer than two entries are unused.
\<close>

theorem remove_range_refines:
  assumes "type_wf t"
  shows "\<exists>ret t'. memblock_remove_range t base sz = Inr (ret, t') \<and> type_wf t' \<and>
     (ret = 0 \<and> type_map t' = restrict_out (unat base) (range_end base sz) (type_map t)
      \<or> ret = - ENOMEM \<and> t' = t \<and> mt_max t < nr_regions t + 2)"
  using remove_range_live [of t base sz] assms by (auto simp: type_wf_def)

theorem remove_range_refines_witness:
  "\<exists>ret t'. memblock_remove_range demo_type 0x1800 0x400 = Inr (ret, t') \<and> type_wf t' \<and>
     (ret = 0 \<and> type_map t' = restrict_out (unat (0x1800 :: phys_addr_t)) (range_end 0x1800 0x400) (type_map demo_type)
      \<or> ret = - ENOMEM \<and> t' = demo_type \<and> mt_max demo_type < nr_regions demo_type + 2)"
  using remove_range_refines [OF demo_type_facts(5), of "0x1800" "0x400"] by simp

text \<open>
  \<^verbatim>\<open>memblock_set_node\<close> changes the node of every mapped address of the range and nothing else:
  no address becomes mapped or unmapped, flags stay, and the accounting stays right.
\<close>

theorem set_node_refines:
  assumes "type_wf t"
  shows "\<exists>ret t'. memblock_set_node base sz t nid = Inr (ret, t') \<and> type_wf t' \<and>
     (ret = 0 \<and> type_map t' = set_node_map (unat base) (range_end base sz) nid (type_map t)
      \<or> ret = - ENOMEM \<and> t' = t \<and> mt_max t < nr_regions t + 2)"
  using set_node_live [of t base sz nid] assms by (auto simp: type_wf_def)

theorem set_node_refines_witness:
  "\<exists>ret t'. memblock_set_node 0x1800 0x400 demo_type 0 = Inr (ret, t') \<and> type_wf t' \<and>
     (ret = 0 \<and> type_map t' = set_node_map (unat (0x1800 :: phys_addr_t)) (range_end 0x1800 0x400) 0 (type_map demo_type)
      \<or> ret = - ENOMEM \<and> t' = demo_type \<and> mt_max demo_type < nr_regions demo_type + 2)"
  using set_node_refines [OF demo_type_facts(5), of "0x1800" "0x400" 0] by simp

text \<open>
  \<^verbatim>\<open>memblock_trim_memory\<close> with a power of two keeps an address exactly when its whole aligned
  block lies in one region of memory.  The regions must not start in the last block below 4 GiB,
  where \<^verbatim>\<open>round_up\<close> wraps to 0.
\<close>

theorem trim_memory_keeps_blocks:
  assumes "shape_wf (mb_memory mb)" and "k < 32" and "trimmable k (type_regs (mb_memory mb))"
  shows "\<exists>t. memblock_trim_memory (2 ^ k) mb = Inr (mb\<lparr>mb_memory := t\<rparr>) \<and> shape_wf t \<and>
    type_map t = keep_blocks k (type_regs (mb_memory mb)) (type_map (mb_memory mb))"
  using assms by (rule trim_memory_live)

theorem trim_memory_keeps_blocks_witness:
  "\<exists>t. memblock_trim_memory (2 ^ 13) (init_memblock\<lparr>mb_memory := demo_type\<rparr>)
       = Inr (init_memblock\<lparr>mb_memory := demo_type\<rparr>\<lparr>mb_memory := t\<rparr>) \<and> shape_wf t \<and>
    type_map t = keep_blocks 13 (type_regs demo_type) (type_map demo_type)"
  using trim_memory_keeps_blocks [of "init_memblock\<lparr>mb_memory := demo_type\<rparr>" 13] demo_type_facts(6,7)
  by (simp add: trimmable_def r_lo_def)

text \<open>
  the field \<^verbatim>\<open>total_size\<close> of a well-formed array is the number of addresses it covers; 32 bits
  are enough for it.
\<close>

theorem total_size_counts:
  assumes "type_wf t"
  shows "unat (total_size t) = card (dom (type_map t))"
  using assms size_sum_card [of "type_regs t"] by (simp add: type_wf_def shape_wf_def type_map_def)

theorem total_size_counts_witness: "card (dom (type_map demo_type)) = 0x2000"
  using total_size_counts [OF demo_type_facts(5)] by (simp add: demo_type_def)

text \<open>
  adding to an array without mergeable neighbours leaves none: two adjacent regions with the
  same node and flags are always merged into one.
\<close>

theorem add_range_minimal:
  assumes "type_wf t" and "minimal_regs (type_regs t)"
    and "memblock_add_range t base sz nid flags = Inr (ret, t')"
  shows "minimal_regs (type_regs t')"
  using add_range_live [OF type_wf_shape [OF assms(1)], of base sz nid flags] assms(2,3) by auto

theorem add_range_minimal_witness:
  "\<exists>ret t'. memblock_add_range demo_type 0x3000 0x1000 MAX_NR_NODES 0 = Inr (ret, t') \<and> minimal_regs (type_regs t')"
proof -
  obtain ret t' where r: "memblock_add_range demo_type 0x3000 0x1000 MAX_NR_NODES 0 = Inr (ret, t')"
    using add_range_live [OF demo_type_facts(6)] by blast
  have "minimal_regs (type_regs demo_type)" by (simp add: demo_type_facts(7))
  from add_range_minimal [OF demo_type_facts(5) this r] r show ?thesis by blast
qed

definition uneven_memblock :: memblock where
  "uneven_memblock = init_memblock\<lparr>mb_memory := \<lparr>nr_regions = 1, mt_max = 2, total_size = 0x3000,
     regions = [mk_region 0x1000 0x3000 MAX_NR_NODES 0, zero_region]\<rparr>\<rparr>"

text \<open>
  \<^verbatim>\<open>memblock_trim_memory\<close> does not adjust \<^verbatim>\<open>total_size\<close> when it shrinks a region: a region of
  0x3000 bytes at 0x1000, trimmed to blocks of 0x2000 bytes, becomes 0x2000 bytes at 0x2000 while
  the array still counts 0x3000.
\<close>

theorem trim_memory_total_size:
  "memblock_trim_memory 0x2000 uneven_memblock =
     Inr (uneven_memblock\<lparr>mb_memory := \<lparr>nr_regions = 1, mt_max = 2, total_size = 0x3000,
       regions = [mk_region 0x2000 0x2000 MAX_NR_NODES 0, zero_region]\<rparr>\<rparr>)"
  by code_simp

end
