(* ===== verification/Memblock_Search.thy ===== *)
theory Memblock_Search
  imports Memblock_Iter Memblock_Spec
begin

text \<open>
  The reverse iterator of \<^verbatim>\<open>mm/memblock.c\<close> visits exactly the areas of memory that are not
  reserved, from the highest to the lowest, and \<^verbatim>\<open>memblock_find_in_range_node\<close> returns the
  highest aligned free block of the requested size.
\<close>

section \<open>Bounds of regions and gaps\<close>

abbreviation lo_at :: "memblock_type \<Rightarrow> nat \<Rightarrow> nat" where "lo_at t i \<equiv> r_lo (region_at t i)"
abbreviation hi_at :: "memblock_type \<Rightarrow> nat \<Rightarrow> nat" where "hi_at t i \<equiv> r_hi (region_at t i)"

lemma shape_region:
  assumes "shape_wf t" "i < nr_regions t"
  shows "lo_at t i \<le> hi_at t i" "hi_at t i \<le> 2 ^ 32 - 1"
    "unat (mr_base (region_at t i) + mr_size (region_at t i)) = hi_at t i"
    "unat (region_end (region_at t i)) = hi_at t i"
proof -
  show le: "lo_at t i \<le> hi_at t i" by (simp add: r_lo_def r_hi_def)
  have "hi_at t i \<le> 2 ^ 32 - 1 \<and> unat (region_end (region_at t i)) = hi_at t i"
    using assms(1)
  proof (cases rule: shape_wf_cases)
    case (empty r)
    with assms(2) show ?thesis by (simp add: r_hi_def region_end_def)
  next
    case used
    have "region_at t i \<in> set (live t)"
      using assms(2) length_live [OF shape_wf_array [OF assms(1)]] live_nth nth_mem by metis
    then have "region_ok (region_at t i)" using used(2) regs_wf_ok by blast
    then show ?thesis by (simp add: unat_region_end region_ok_def)
  qed
  then show "hi_at t i \<le> 2 ^ 32 - 1" "unat (region_end (region_at t i)) = hi_at t i"
    "unat (mr_base (region_at t i) + mr_size (region_at t i)) = hi_at t i"
    by (simp_all add: region_end_def)
qed

lemma shape_sorted:
  assumes "shape_wf t" "i < j" "j < nr_regions t"
  shows "hi_at t i \<le> lo_at t j"
  using assms(1)
proof (cases rule: shape_wf_cases)
  case (empty r)
  with assms show ?thesis by simp
next
  case used
  then have "sorted_wrt (\<lambda>a b. r_hi a \<le> r_lo b) (live t)" by (simp add: regs_wf_def)
  with assms length_live [OF shape_wf_array [OF assms(1)]] live_nth show ?thesis
    by (metis order.strict_trans sorted_wrt_iff_nth_less)
qed

lemma shape_hi_mono:
  assumes "shape_wf t" "i \<le> j" "j < nr_regions t"
  shows "lo_at t i \<le> lo_at t j" "hi_at t i \<le> hi_at t j"
  using shape_sorted [OF assms(1), of i j] shape_region(1) [OF assms(1), of i]
    shape_region(1) [OF assms(1), of j] assms by (cases "i = j"; simp)+

lemma type_map_None:
  assumes "shape_wf t"
  shows "type_map t a = None \<longleftrightarrow> (\<forall>i<nr_regions t. \<not> (lo_at t i \<le> a \<and> a < hi_at t i))"
  using assms
proof (cases rule: shape_wf_cases)
  case (empty r)
  then show ?thesis by (simp add: type_map_def r_lo_def r_hi_def)
next
  case used
  then show ?thesis
    by (simp add: type_map_def attrs_None_iff all_set_conv_all_nth length_live [OF shape_wf_array [OF assms]]
        live_nth)
qed

definition gs :: "memblock_type \<Rightarrow> nat \<Rightarrow> nat" where "gs t j = unat (gap_start t j)"
definition ge :: "memblock_type \<Rightarrow> nat \<Rightarrow> nat" where "ge t j = unat (gap_end t j)"

lemma gs_eq: "shape_wf t \<Longrightarrow> j \<le> nr_regions t \<Longrightarrow> gs t j = (if j = 0 then 0 else hi_at t (j - 1))"
  using shape_region(4) [of t "j - 1"] by (auto simp: gs_def gap_start_def)

lemma ge_eq: "ge t j = (if j < nr_regions t then lo_at t j else 2 ^ 32 - 1)"
  by (simp add: ge_def gap_end_def r_lo_def unsigned_minus_1_eq_mask mask_eq_exp_minus_1)

lemma gs_mono:
  assumes "shape_wf t" "j \<le> k" "k \<le> nr_regions t"
  shows "gs t j \<le> gs t k"
proof (cases "j = 0")
  case False
  then have "hi_at t (j - 1) \<le> hi_at t (k - 1)" using assms by (intro shape_hi_mono) auto
  with False assms show ?thesis by (simp add: gs_eq)
qed (use assms in \<open>simp add: gs_eq\<close>)

lemma ge_le_gs:
  assumes "shape_wf t" "j < k" "k \<le> nr_regions t"
  shows "ge t j \<le> gs t k"
proof -
  have "lo_at t j \<le> lo_at t (k - 1)" using assms by (intro shape_hi_mono) auto
  also have "\<dots> \<le> hi_at t (k - 1)" using assms by (intro shape_region) auto
  finally show ?thesis using assms by (auto simp: gs_eq ge_eq)
qed

lemma ge_mono:
  assumes "shape_wf t" "j \<le> k" "k \<le> nr_regions t"
  shows "ge t j \<le> ge t k"
proof (cases "k < nr_regions t")
  case True
  with shape_hi_mono(1) [OF assms(1,2)] assms show ?thesis by (simp add: ge_eq)
next
  case False
  with shape_region(2) [OF assms(1), of j] shape_region(1) [OF assms(1), of j] show ?thesis
    by (auto simp: ge_eq)
qed

lemma gap_unmapped:
  assumes "shape_wf t" "j \<le> nr_regions t" "gs t j \<le> a" "a < ge t j"
  shows "type_map t a = None"
  unfolding type_map_None [OF assms(1)]
proof (intro allI impI notI)
  fix i assume i: "i < nr_regions t" and a: "lo_at t i \<le> a \<and> a < hi_at t i"
  show False
  proof (cases "i < j")
    case True
    with gs_mono [OF assms(1), of "Suc i" j] assms a i show False by (simp add: gs_eq)
  next
    case False
    with shape_hi_mono(1) [OF assms(1), of j i] i assms a show False by (simp add: ge_eq)
  qed
qed

section \<open>The reverse iterator\<close>

text \<open>
  A pair of a memory region and a gap between reservations whose intersection is not empty, and
  the pairs still to come when the iterator stands at \<open>a\<close> and \<open>b\<close>.
\<close>

definition free_pair :: "int \<Rightarrow> ulong \<Rightarrow> memblock_type \<Rightarrow> memblock_type \<Rightarrow> nat \<Rightarrow> nat \<Rightarrow> bool" where
  "free_pair nid fl ta tb i j \<longleftrightarrow> i < nr_regions ta \<and> j \<le> nr_regions tb \<and>
     \<not> skip_region nid fl (region_at ta i) \<and>
     max (lo_at ta i) (gs tb j) < min (hi_at ta i) (ge tb j)"

definition pending :: "int \<Rightarrow> ulong \<Rightarrow> memblock_type \<Rightarrow> memblock_type \<Rightarrow> int \<Rightarrow> int \<Rightarrow> (nat \<times> nat) set" where
  "pending nid fl ta tb a b = {(i, j). free_pair nid fl ta tb i j \<and> int i \<le> a \<and> int j \<le> b}"

lemma scan_gaps_rev_spec:
  assumes "shape_wf tb" "b \<le> int (nr_regions tb)" "scan_gaps_rev ms me tb b = (b', f)"
  shows "b' \<le> b \<and> (\<forall>j. b' < int j \<and> int j \<le> b \<longrightarrow> unat me \<le> gs tb j) \<and>
    (if f then 0 \<le> b' \<and> unat ms < ge tb (nat b') \<and> gs tb (nat b') < unat me
     else \<forall>j. int j \<le> b' \<longrightarrow> ge tb j \<le> unat ms)"
  using assms
proof (induction ms me tb b rule: scan_gaps_rev.induct)
  case (1 ms me tb b)
  consider (neg) "b < 0" | (stop) "0 \<le> b" "gap_end tb (nat b) \<le> ms"
    | (hit) "0 \<le> b" "\<not> gap_end tb (nat b) \<le> ms" "gap_start tb (nat b) < me"
    | (down) "0 \<le> b" "\<not> gap_end tb (nat b) \<le> ms" "\<not> gap_start tb (nat b) < me" by linarith
  then show ?case
  proof cases
    case neg
    with "1.prems" show ?thesis by (subst (asm) scan_gaps_rev.simps) auto
  next
    case stop
    then have r: "b' = b" "\<not> f" using "1.prems"(3) by (subst (asm) scan_gaps_rev.simps; simp)+
    have "ge tb j \<le> unat ms" if "int j \<le> b" for j
    proof -
      have "ge tb j \<le> ge tb (nat b)" using that "1.prems" stop by (intro ge_mono) auto
      also have "\<dots> \<le> unat ms" using stop by (simp add: ge_def word_le_nat_alt)
      finally show ?thesis .
    qed
    with r stop show ?thesis by auto
  next
    case hit
    then have r: "b' = b" "f" using "1.prems"(3) by (subst (asm) scan_gaps_rev.simps; simp)+
    with hit show ?thesis by (auto simp: ge_def gs_def nat_word not_le)
  next
    case down
    then have r: "scan_gaps_rev ms me tb (b - 1) = (b', f)"
      using "1.prems"(3) by (subst (asm) scan_gaps_rev.simps) simp
    from "1.IH" [OF down(1-3) "1.prems"(1) _ r] "1.prems"(2)
    have IH: "b' \<le> b - 1" "\<forall>j. b' < int j \<and> int j \<le> b - 1 \<longrightarrow> unat me \<le> gs tb j"
      "if f then 0 \<le> b' \<and> unat ms < ge tb (nat b') \<and> gs tb (nat b') < unat me
        else \<forall>j. int j \<le> b' \<longrightarrow> ge tb j \<le> unat ms" by auto
    have "unat me \<le> gs tb j" if "b' < int j" "int j \<le> b" for j
    proof (cases "int j = b")
      case True
      then have "j = nat b" by simp
      with down(3) show ?thesis by (simp add: gs_def nat_word)
    qed (use IH(2) that in auto)
    with IH down show ?thesis by (auto split: if_splits)
  qed
qed

text \<open>What one call of the iterator yields: the pair \<open>(p, q)\<close> and the position it continues from.\<close>

definition yields ::
  "int \<Rightarrow> ulong \<Rightarrow> memblock_type \<Rightarrow> memblock_type \<Rightarrow> int \<Rightarrow> int \<Rightarrow> nat \<Rightarrow> nat \<Rightarrow> int \<Rightarrow> int \<Rightarrow> outs \<Rightarrow> bool" where
  "yields nid fl ta tb a b p q a' b' out \<longleftrightarrow>
     p < nr_regions ta \<and> q \<le> nr_regions tb \<and> int p \<le> a \<and> int q \<le> b \<and> \<not> skip_region nid fl (region_at ta p) \<and>
     -1 \<le> a' \<and> a' \<le> a \<and> 0 \<le> b' \<and> b' \<le> b \<and> a' + b' < a + b \<and>
     unat (fst out) = max (lo_at ta p) (gs tb q) \<and> unat (fst (snd out)) = min (hi_at ta p) (ge tb q) \<and>
     pending nid fl ta tb a b \<subseteq> insert (p, q) (pending nid fl ta tb a' b') \<and>
     (\<forall>(i, j) \<in> pending nid fl ta tb a' b'. min (hi_at ta i) (ge tb j) \<le> unat (fst out))"

lemma free_pair_above:
  "free_pair nid fl ta tb i j \<Longrightarrow> x \<le> gs tb j \<Longrightarrow> hi_at ta i \<le> x \<Longrightarrow> False"
  "free_pair nid fl ta tb i j \<Longrightarrow> ge tb j \<le> x \<Longrightarrow> x \<le> lo_at ta i \<Longrightarrow> False"
  by (auto simp: free_pair_def)

lemma pending_skip:
  assumes "skip_region nid fl (region_at ta (nat a))" "0 \<le> a"
  shows "pending nid fl ta tb a b = pending nid fl ta tb (a - 1) b"
proof -
  have "int i \<le> a - 1" if "free_pair nid fl ta tb i j" "int i \<le> a" for i j
    using that assms by (cases "int i = a") (auto simp: free_pair_def)
  then show ?thesis by (fastforce simp: pending_def)
qed

lemma pending_miss:
  assumes ta: "shape_wf ta" "0 \<le> a" "a < int (nr_regions ta)"
    and above: "\<And>j. b' < int j \<and> int j \<le> b \<Longrightarrow> hi_at ta (nat a) \<le> gs tb j"
    and below: "\<And>j. int j \<le> b' \<Longrightarrow> ge tb j \<le> lo_at ta (nat a)" and le: "b' \<le> b"
  shows "pending nid fl ta tb a b = pending nid fl ta tb (a - 1) b'"
proof -
  have "int i \<le> a - 1 \<and> int j \<le> b'" if fp: "free_pair nid fl ta tb i j" and ij: "int i \<le> a" "int j \<le> b" for i j
  proof -
    have hi: "hi_at ta i \<le> hi_at ta (nat a)" using ij ta by (intro shape_hi_mono) auto
    have j: "int j \<le> b'"
      using above [of j] ij hi free_pair_above(1) [OF fp] by (meson not_le order_refl order_trans)
    have "int i \<noteq> a"
    proof
      assume "int i = a"
      then have "i = nat a" by simp
      with below [OF j] free_pair_above(2) [OF fp] show False by blast
    qed
    with ij j show ?thesis by simp
  qed
  then show ?thesis using le by (fastforce simp: pending_def)
qed

lemma rev_hit:
  assumes wf: "shape_wf ta" "shape_wf tb" and a: "0 \<le> a" "a < int (nr_regions ta)"
    and b: "0 \<le> b'" "b' \<le> b" "b \<le> int (nr_regions tb)" and ns: "\<not> skip_region nid fl (region_at ta (nat a))"
    and above: "\<And>j. b' < int j \<and> int j \<le> b \<Longrightarrow> hi_at ta (nat a) \<le> gs tb j"
    and s: "unat s = max (lo_at ta (nat a)) (gs tb (nat b'))" and e: "unat e = min (hi_at ta (nat a)) (ge tb (nat b'))"
  shows "gs tb (nat b') \<le> lo_at ta (nat a) \<Longrightarrow>
      yields nid fl ta tb a b (nat a) (nat b') (a - 1) b' (s, e, n)"
    and "lo_at ta (nat a) < gs tb (nat b') \<Longrightarrow>
      yields nid fl ta tb a b (nat a) (nat b') a (b' - 1) (s, e, n)"
proof -
  have hi: "hi_at ta i \<le> hi_at ta (nat a)" if "int i \<le> a" for i
    using that a wf by (intro shape_hi_mono) auto
  have lower: "hi_at ta i \<le> lo_at ta (nat a)" if "int i < a" for i
    using that a wf by (intro shape_sorted) auto
  have gap: "ge tb j \<le> gs tb (nat b')" if "int j < b'" for j
    using that b wf by (intro ge_le_gs) auto
  have j_le: "int j \<le> b'" if "free_pair nid fl ta tb i j" "int i \<le> a" "int j \<le> b" for i j
    using above [of j] hi [of i] that free_pair_above(1) [OF that(1)] by (meson not_le order_refl order_trans)
  have eqs: "int i = a \<longleftrightarrow> i = nat a" "int j = b' \<longleftrightarrow> j = nat b'" for i j using a(1) b(1) by auto
  show "yields nid fl ta tb a b (nat a) (nat b') (a - 1) b' (s, e, n)" if c: "gs tb (nat b') \<le> lo_at ta (nat a)"
  proof -
    have "(i, j) = (nat a, nat b') \<or> int i \<le> a - 1 \<and> int j \<le> b'"
      if fp: "free_pair nid fl ta tb i j" and ij: "int i \<le> a" "int j \<le> b" for i j
    proof (cases "int i = a \<and> int j < b'")
      case True
      with gap [of j] c free_pair_above(2) [OF fp] eqs show ?thesis by (metis order.trans)
    qed (use j_le [OF fp ij] ij eqs in force)
    then have "pending nid fl ta tb a b \<subseteq> insert (nat a, nat b') (pending nid fl ta tb (a - 1) b')"
      by (force simp: pending_def)
    moreover have "\<forall>(i, j) \<in> pending nid fl ta tb (a - 1) b'. min (hi_at ta i) (ge tb j) \<le> unat s"
      using lower s by (fastforce simp: pending_def)
    ultimately show ?thesis using a b ns s e by (simp add: yields_def nat_le_iff)
  qed
  show "yields nid fl ta tb a b (nat a) (nat b') a (b' - 1) (s, e, n)" if c: "lo_at ta (nat a) < gs tb (nat b')"
  proof -
    from c have b0: "0 < b'" using gs_eq [OF wf(2), of 0] by (cases "b' = 0") (use b in auto)
    have "(i, j) = (nat a, nat b') \<or> int j \<le> b' - 1"
      if fp: "free_pair nid fl ta tb i j" and ij: "int i \<le> a" "int j \<le> b" for i j
    proof (cases "int i < a \<and> int j = b'")
      case True
      with lower [of i] c free_pair_above(1) [OF fp] eqs show ?thesis by (metis less_imp_le order.trans)
    qed (use j_le [OF fp ij] ij eqs in force)
    then have "pending nid fl ta tb a b \<subseteq> insert (nat a, nat b') (pending nid fl ta tb a (b' - 1))"
      by (force simp: pending_def)
    moreover have "min (hi_at ta i) (ge tb j) \<le> unat s" if "(i, j) \<in> pending nid fl ta tb a (b' - 1)" for i j
      using that gap [of j] s by (auto simp: pending_def)
    ultimately show ?thesis using a b b0 ns s e by (auto simp: yields_def nat_le_iff)
  qed
qed

lemma yields_widen:
  "yields nid fl ta tb (a - 1) c p q a' b' out \<Longrightarrow> c \<le> b \<Longrightarrow>
   pending nid fl ta tb a b = pending nid fl ta tb (a - 1) c \<Longrightarrow> yields nid fl ta tb a b p q a' b' out"
  unfolding yields_def by (elim conjE, intro conjI) auto

definition rev_outcome ::
  "int \<Rightarrow> ulong \<Rightarrow> memblock_type \<Rightarrow> memblock_type \<Rightarrow> int \<Rightarrow> int \<Rightarrow> outs \<Rightarrow> u64 \<times> outs \<Rightarrow> bool" where
  "rev_outcome nid fl ta tb a b out res \<longleftrightarrow>
     res = (ULLONG_MAX, out) \<and> pending nid fl ta tb a b = {} \<or>
     (\<exists>p q a' b' out'. res = (idx_pack_int a' b', out') \<and> yields nid fl ta tb a b p q a' b' out')"

lemma rev_outcome_hit:
  "yields nid fl ta tb a b p q a' b' out' \<Longrightarrow> rev_outcome nid fl ta tb a b out (idx_pack_int a' b', out')"
  unfolding rev_outcome_def by blast

lemma rev_outcome_widen:
  assumes "rev_outcome nid fl ta tb (a - 1) c out res" "c \<le> b"
    "pending nid fl ta tb a b = pending nid fl ta tb (a - 1) c"
  shows "rev_outcome nid fl ta tb a b out res"
  using assms(1) unfolding rev_outcome_def
proof (elim disjE exE conjE)
  fix p q a' b' out'
  assume "res = (idx_pack_int a' b', out')" "yields nid fl ta tb (a - 1) c p q a' b' out'"
  with yields_widen [OF this(2) assms(2,3)]
  show "res = (ULLONG_MAX, out) \<and> pending nid fl ta tb a b = {} \<or>
     (\<exists>p q a' b' out'. res = (idx_pack_int a' b', out') \<and> yields nid fl ta tb a b p q a' b' out')" by blast
qed (use assms(3) in simp)

lemma rev_loop_spec:
  assumes "shape_wf ta" "shape_wf tb" "a < int (nr_regions ta)" "b \<le> int (nr_regions tb)"
  shows "rev_outcome nid fl ta tb a b out (next_mem_range_rev_loop nid fl ta (Some tb) a b out)"
  using assms
proof (induction nid fl ta "Some tb" a b out rule: next_mem_range_rev_loop.induct)
  case (1 nid fl ta a b out)
  note wf = "1.prems"(1,2) and lt = "1.prems"(3,4)
  show ?case
  proof (cases "0 \<le> a")
    case False
    then show ?thesis by (subst next_mem_range_rev_loop.simps) (auto simp: pending_def rev_outcome_def)
  next
    case a: True
    let ?m = "region_at ta (nat a)"
    have na: "nat a < nr_regions ta" using a lt by auto
    note reg = shape_region [OF wf(1) na]
    show ?thesis
    proof (cases "skip_region nid fl ?m")
      case True
      have step: "next_mem_range_rev_loop nid fl ta (Some tb) a b out
          = next_mem_range_rev_loop nid fl ta (Some tb) (a - 1) b out"
        using True a by (subst next_mem_range_rev_loop.simps) (simp add: Let_def)
      have lt': "a - 1 < int (nr_regions ta)" using lt(1) by simp
      show ?thesis unfolding step
        by (rule rev_outcome_widen [OF "1.hyps"(1) [OF a refl refl refl refl True wf lt' lt(2)] order_refl
              pending_skip [OF True a]])
    next
      case False
      obtain c f where sc: "scan_gaps_rev (mr_base ?m) (mr_base ?m + mr_size ?m) tb b = (c, f)"
        by (cases "scan_gaps_rev (mr_base ?m) (mr_base ?m + mr_size ?m) tb b") auto
      note S = scan_gaps_rev_spec [OF wf(2) lt(2) sc, unfolded reg(3), folded r_lo_def]
      then have above: "\<And>j. c < int j \<and> int j \<le> b \<Longrightarrow> hi_at ta (nat a) \<le> gs tb j" and cb: "c \<le> b" by auto
      show ?thesis
      proof (cases f)
        case True
        let ?s = "c_max (mr_base ?m) (gap_start tb (nat c))" and ?e = "c_min (mr_base ?m + mr_size ?m) (gap_end tb (nat c))"
        have s: "unat ?s = max (lo_at ta (nat a)) (gs tb (nat c))"
          and e: "unat ?e = min (hi_at ta (nat a)) (ge tb (nat c))"
          using reg(3) by (simp_all add: nat_word r_lo_def gs_def ge_def)
        have c0: "0 \<le> c" using S True by simp
        note hit = rev_hit [OF wf a lt(1) c0 cb lt(2) False above s e, of "memblock_get_region_node ?m"]
        have res: "next_mem_range_rev_loop nid fl ta (Some tb) a b out =
            (if gs tb (nat c) \<le> lo_at ta (nat a) then idx_pack_int (a - 1) c else idx_pack_int a (c - 1),
             (?s, ?e, memblock_get_region_node ?m))"
          using False a True sc
          by (subst next_mem_range_rev_loop.simps) (simp add: Let_def gs_def r_lo_def word_le_nat_alt)
        show ?thesis
        proof (cases "gs tb (nat c) \<le> lo_at ta (nat a)")
          case True
          with res rev_outcome_hit [OF hit(1)] show ?thesis by simp
        next
          case False
          with res rev_outcome_hit [OF hit(2)] show ?thesis by simp
        qed
      next
        case nf: False
        have step: "next_mem_range_rev_loop nid fl ta (Some tb) a b out
            = next_mem_range_rev_loop nid fl ta (Some tb) (a - 1) c out"
          using False a nf sc by (subst next_mem_range_rev_loop.simps) (simp add: Let_def)
        have pend: "pending nid fl ta tb a b = pending nid fl ta tb (a - 1) c"
          using S nf a lt(1) above cb by (intro pending_miss [OF wf(1)]) auto
        have lt': "a - 1 < int (nr_regions ta)" "c \<le> int (nr_regions tb)" and nf': "f = False"
          using lt cb nf by auto
        show ?thesis unfolding step
          by (rule rev_outcome_widen [OF "1.hyps"(2) [OF a refl refl refl refl False refl sc [symmetric] nf' wf lt']
                cb pend])
      qed
    qed
  qed
qed

section \<open>The packed index\<close>

lemma sint_of_int32:
  assumes "- (2 ^ 31) \<le> x" "x < 2 ^ 31"
  shows "sint (of_int x :: 32 word) = x"
  using assms by (simp add: sint_sbintrunc' signed_take_bit_int_eq_self)

lemma idx_int_roundtrip:
  assumes "- (2 ^ 31) \<le> a" "a < 2 ^ 31" "0 \<le> b" "b < 2 ^ 31"
  shows "idx_lo_int (idx_pack_int a b) = a" "idx_hi_int (idx_pack_int a b) = b"
    "idx_pack_int a b \<noteq> ULLONG_MAX"
proof -
  have lo: "ucast (idx_pack_int a b AND 0xffffffff) = (of_int a :: 32 word)"
  proof (rule bit_word_eqI)
    fix n assume n: "n < LENGTH(32)"
    have m: "(0xffffffff :: 64 word) = mask 32" by (simp add: mask_eq_exp_minus_1)
    show "bit (ucast (idx_pack_int a b AND 0xffffffff) :: 32 word) n = bit (of_int a :: 32 word) n"
      using n unfolding m by (auto simp: idx_pack_int_def bit_simps)
  qed
  have hi: "ucast (drop_bit 32 (idx_pack_int a b)) = (of_int b :: 32 word)"
    by (rule bit_word_eqI) (auto simp: idx_pack_int_def bit_simps dest: bit_imp_le_length)
  show "idx_lo_int (idx_pack_int a b) = a" using assms lo by (simp add: idx_lo_int_def sint_of_int32)
  show h: "idx_hi_int (idx_pack_int a b) = b" using assms hi by (simp add: idx_hi_int_def sint_of_int32)
  have "idx_hi_int ULLONG_MAX = - 1" by code_simp
  with h assms(3) show "idx_pack_int a b \<noteq> ULLONG_MAX" by auto
qed

section \<open>The search\<close>

text \<open>
  A candidate inside the pair \<open>(i, j)\<close>: an aligned block of \<open>n\<close> bytes in the intersection of memory
  region \<open>i\<close> with gap \<open>j\<close> and with \<open>[start, end)\<close>.
\<close>

definition cand_in ::
  "memblock_type \<Rightarrow> memblock_type \<Rightarrow> nat \<Rightarrow> nat \<Rightarrow> nat \<Rightarrow> nat \<Rightarrow> nat \<times> nat \<Rightarrow> nat \<Rightarrow> bool" where
  "cand_in ta tb st en n k = (\<lambda>(i, j) c.
     max (lo_at ta i) (gs tb j) \<le> c \<and> c + n \<le> min (hi_at ta i) (ge tb j) \<and>
     st \<le> c \<and> c + n \<le> en \<and> 2 ^ k dvd c)"

lemma round_down_greatest:
  fixes x :: "'a::len word"
  assumes "2 ^ k dvd c" "c \<le> unat x"
  shows "c \<le> unat (round_down x (2 ^ k))"
proof -
  have "c < unat (round_down x (2 ^ k)) + 2 ^ k"
    using round_down_bounds(3) [where x = x and k = k] assms(2) by linarith
  with assms(1) round_down_bounds(2) show ?thesis by (rule multiple_le)
qed

lemma top_down_test:
  fixes out :: outs and start "end" sz :: phys_addr_t and k :: nat
  assumes s: "unat (fst out) = max (lo_at ta p) (gs tb q)" and e: "unat (fst (snd out)) = min (hi_at ta p) (ge tb q)"
    and n: "0 < sz" and se: "start \<le> end"
  defines "ts \<equiv> clamp (fst out) start end" and "te \<equiv> clamp (fst (snd out)) start end"
  defines "cand \<equiv> round_down (te - sz) (2 ^ k)"
  shows "sz \<le> te \<Longrightarrow> ts \<le> cand \<Longrightarrow> cand_in ta tb (unat start) (unat end) (unat sz) k (p, q) (unat cand)"
    and "cand_in ta tb (unat start) (unat end) (unat sz) k (p, q) c \<Longrightarrow> sz \<le> te \<and> ts \<le> cand \<and> c \<le> unat cand"
proof -
  have n': "0 < unat sz" using n by (simp add: word_less_nat_alt)
  have ts: "unat ts = min (max (max (lo_at ta p) (gs tb q)) (unat start)) (unat end)"
    and te: "unat te = min (max (min (hi_at ta p) (ge tb q)) (unat start)) (unat end)"
    using s e by (simp_all add: ts_def te_def unat_clamp)
  have se': "unat start \<le> unat end" using se by (simp add: word_le_nat_alt)
  have sub: "unat (te - sz) = unat te - unat sz" if "sz \<le> te"
    using that by (intro unat_sub_no_wrap) (simp add: word_le_nat_alt)
  show "cand_in ta tb (unat start) (unat end) (unat sz) k (p, q) (unat cand)" if a: "sz \<le> te" "ts \<le> cand"
  proof -
    have "unat cand + unat sz \<le> unat te"
      using round_down_bounds(1) [where x = "te - sz" and k = k] sub [OF a(1)] a(1)
      by (simp add: cand_def word_le_nat_alt)
    moreover have "unat ts \<le> unat cand" using a(2) by (simp add: word_le_nat_alt)
    moreover have "2 ^ k dvd unat cand" unfolding cand_def by (rule round_down_bounds(2))
    ultimately show ?thesis unfolding cand_in_def using ts te se' n' by (simp add: min_def max_def split: if_splits)
  qed
  show "sz \<le> te \<and> ts \<le> cand \<and> c \<le> unat cand" if c: "cand_in ta tb (unat start) (unat end) (unat sz) k (p, q) c"
  proof -
    from c have "c + unat sz \<le> unat te" "unat ts \<le> c" "2 ^ k dvd c"
      unfolding cand_in_def using ts te by auto
    then have le: "sz \<le> te" and "c \<le> unat (te - sz)" using sub by (auto simp: word_le_nat_alt)
    then have "c \<le> unat cand" unfolding cand_def using \<open>2 ^ k dvd c\<close> by (intro round_down_greatest)
    with le \<open>unat ts \<le> c\<close> show ?thesis by (auto simp: word_le_nat_alt)
  qed
qed

definition best_of :: "nat set \<Rightarrow> phys_addr_t kres \<Rightarrow> bool" where
  "best_of S res \<longleftrightarrow> (\<exists>ret. res = Inr ret \<and>
     (if S = {} then ret = 0 else unat ret \<in> S \<and> (\<forall>c\<in>S. c \<le> unat ret)))"

definition cands ::
  "memblock \<Rightarrow> nat \<Rightarrow> nat \<Rightarrow> nat \<Rightarrow> nat \<Rightarrow> (nat \<times> nat) set \<Rightarrow> nat set" where
  "cands mb st en n k P =
     {c. \<exists>x\<in>P. cand_in (mb_memory mb) (mb_reserved mb) st en n k x c}"

lemma cands_insert:
  "cands mb st en n k (insert x P) =
     {c. cand_in (mb_memory mb) (mb_reserved mb) st en n k x c} \<union> cands mb st en n k P"
  by (auto simp: cands_def)

lemma cands_mono: "P \<subseteq> Q \<Longrightarrow> cands mb st en n k P \<subseteq> cands mb st en n k Q"
  by (auto simp: cands_def)

lemma cand_in_free_pair:
  assumes "cand_in ta tb st en n k (i, j) c" "0 < n" "i < nr_regions ta" "j \<le> nr_regions tb"
    "\<not> skip_region nid fl (region_at ta i)"
  shows "free_pair nid fl ta tb i j"
  using assms by (auto simp: cand_in_def free_pair_def)

lemma find_top_down_loop_spec:
  fixes mb :: memblock
  defines "ta \<equiv> mb_memory mb" and "tb \<equiv> mb_reserved mb"
  assumes wf: "shape_wf ta" "shape_wf tb" and small: "nr_regions ta < 2 ^ 31" "nr_regions tb < 2 ^ 31"
    and n: "0 < sz" and se: "start \<le> end" and st0: "0 < start"
  shows "rev_outcome (fix_nid nid) fl ta tb a b out st \<Longrightarrow> a < int (nr_regions ta) \<Longrightarrow>
    b \<le> int (nr_regions tb) \<Longrightarrow> a + b + 2 \<le> int fuel \<Longrightarrow> 0 < fuel \<Longrightarrow>
    best_of (cands mb (unat start) (unat end) (unat sz) k (pending (fix_nid nid) fl ta tb a b))
      (find_top_down_loop fuel mb nid fl start end sz (2 ^ k) st)"
proof (induction fuel arbitrary: a b out st)
  case (Suc fuel)
  let ?P = "pending (fix_nid nid) fl ta tb" and ?C = "cands mb (unat start) (unat end) (unat sz) k"
  from Suc.prems(1) show ?case
    unfolding rev_outcome_def
  proof (elim disjE exE conjE)
    assume "st = (ULLONG_MAX, out)" "?P a b = {}"
    then show ?thesis by (simp add: best_of_def cands_def)
  next
    fix p q a' b' out'
    assume st: "st = (idx_pack_int a' b', out')" and y: "yields (fix_nid nid) fl ta tb a b p q a' b' out'"
    let ?in = "cand_in ta tb (unat start) (unat end) (unat sz) k (p, q)"
    let ?ts = "clamp (fst out') start end" and ?te = "clamp (fst (snd out')) start end"
    let ?cand = "round_down (?te - sz) (2 ^ k)"
    have y': "unat (fst out') = max (lo_at ta p) (gs tb q)" "unat (fst (snd out')) = min (hi_at ta p) (ge tb q)"
      "-1 \<le> a'" "a' \<le> a" "0 \<le> b'" "b' \<le> b" "a' + b' < a + b" "p < nr_regions ta" "q \<le> nr_regions tb"
      "\<not> skip_region (fix_nid nid) fl (region_at ta p)"
      "?P a b \<subseteq> insert (p, q) (?P a' b')" "\<And>i j. (i, j) \<in> ?P a' b' \<Longrightarrow> min (hi_at ta i) (ge tb j) \<le> unat (fst out')"
      using y by (auto simp: yields_def)
    note test = top_down_test [OF y'(1,2) n se, where k = k]
    have idx: "idx_lo_int (idx_pack_int a' b') = a'" "idx_hi_int (idx_pack_int a' b') = b'"
      "idx_pack_int a' b' \<noteq> ULLONG_MAX"
      using y' small Suc.prems(2,3) by (intro idx_int_roundtrip; simp)+
    have C: "?C (?P a b) \<subseteq> {c. ?in c} \<union> ?C (?P a' b')"
      using cands_mono [OF y'(11)] by (simp add: cands_insert ta_def tb_def)
    show ?thesis
    proof (cases "sz \<le> ?te \<and> ?ts \<le> ?cand")
      case True
      then have cin: "?in (unat ?cand)" using test(1) by blast
      have pq: "(p, q) \<in> ?P a b"
        using cand_in_free_pair [OF cin] y'(8-10) y n by (simp add: pending_def yields_def word_less_nat_alt)
      have top: "c \<le> unat ?cand" if "c \<in> ?C (?P a b)" for c
        using C that
      proof (elim subsetD [THEN UnE])
        assume "c \<in> {c. ?in c}"
        then show ?thesis using test(2) by simp
      next
        assume "c \<in> ?C (?P a' b')"
        then have "c \<le> unat (fst out')"
          using y'(12) by (fastforce simp: cands_def cand_in_def ta_def tb_def)
        also have "unat (fst out') \<le> unat ?cand" using cin y'(1) by (simp add: cand_in_def)
        finally show ?thesis .
      qed
      have mem: "unat ?cand \<in> ?C (?P a b)" using pq cin by (auto simp: cands_def ta_def tb_def)
      have "find_top_down_loop (Suc fuel) mb nid fl start end sz (2 ^ k) st = Inr ?cand"
        using True idx(3) by (simp add: st Let_def)
      with mem top show ?thesis by (auto simp: best_of_def)
    next
      case False
      then have none: "\<not> ?in c" for c using test(2) by blast
      have sub: "?P a' b' \<subseteq> ?P a b" using y'(4,6) by (auto simp: pending_def)
      have eq: "?C (?P a b) = ?C (?P a' b')" using C none cands_mono [OF sub] by blast
      let ?next = "next_mem_range_rev_loop (fix_nid nid) fl ta (Some tb) a' b' out'"
      have "find_top_down_loop (Suc fuel) mb nid fl start end sz (2 ^ k) st
          = find_top_down_loop fuel mb nid fl start end sz (2 ^ k) ?next"
        using False idx by (auto simp: st Let_def next_mem_range_rev_def ta_def tb_def)
      moreover have lt: "a' < int (nr_regions ta)" "b' \<le> int (nr_regions tb)" using y' Suc.prems by auto
      moreover have "a' + b' + 2 \<le> int fuel" "0 < fuel" using y'(3,5,7) Suc.prems(4) by auto
      ultimately show ?thesis
        using Suc.IH [OF rev_loop_spec [OF wf lt]] eq by simp
    qed
  qed
qed simp

lemma find_top_down_spec:
  assumes wf: "shape_wf (mb_memory mb)" "shape_wf (mb_reserved mb)"
    and small: "nr_regions (mb_memory mb) < 2 ^ 31" "nr_regions (mb_reserved mb) < 2 ^ 31"
    and n: "0 < sz" and se: "start \<le> end" and st0: "0 < start"
  shows "best_of (cands mb (unat start) (unat end) (unat sz) k
      {(i, j). free_pair (fix_nid nid) fl (mb_memory mb) (mb_reserved mb) i j})
    (memblock_find_range_top_down mb start end sz (2 ^ k) nid fl)"
proof -
  let ?ta = "mb_memory mb" and ?tb = "mb_reserved mb"
  let ?a = "int (nr_regions ?ta) - 1" and ?b = "int (nr_regions ?tb)"
  have P: "pending (fix_nid nid) fl ?ta ?tb ?a ?b = {(i, j). free_pair (fix_nid nid) fl ?ta ?tb i j}"
    by (auto simp: pending_def free_pair_def)
  have "?a < int (nr_regions ?ta)" "?b \<le> int (nr_regions ?tb)" by simp_all
  from find_top_down_loop_spec [OF wf small n se st0 rev_loop_spec [OF wf this] this,
      where fuel = "nr_regions ?ta + nr_regions ?tb + 2" and k = k
        and nid = nid and fl = fl and out = "(0, 0, 0)"] P
  show ?thesis
    by (simp add: memblock_find_range_top_down_def next_mem_range_rev_def del: find_top_down_loop.simps)
qed

section \<open>The specification of a free block\<close>

text \<open>
  A block lies in one region that the node and flags allow, and no byte of it is reserved.
\<close>

definition free_block :: "memblock \<Rightarrow> int \<Rightarrow> ulong \<Rightarrow> nat \<Rightarrow> nat \<Rightarrow> bool" where
  "free_block mb nid fl c n \<longleftrightarrow>
     (\<exists>i<nr_regions (mb_memory mb). \<not> skip_region (fix_nid nid) fl (region_at (mb_memory mb) i) \<and>
        lo_at (mb_memory mb) i \<le> c \<and> c + n \<le> hi_at (mb_memory mb) i) \<and>
     (\<forall>a. c \<le> a \<and> a < c + n \<longrightarrow> type_map (mb_reserved mb) a = None)"

lemma type_map_lo:
  assumes "shape_wf t" "j < nr_regions t" "0 < lo_at t j"
  shows "type_map t (lo_at t j) \<noteq> None"
  using assms(1)
proof (cases rule: shape_wf_cases)
  case (empty r)
  with assms show ?thesis by (simp add: r_lo_def)
next
  case used
  have "region_at t j \<in> set (live t)"
    using assms(2) length_live [OF shape_wf_array [OF assms(1)]] live_nth nth_mem by metis
  then have "lo_at t j < hi_at t j" using used(2) regs_wf_ok region_ok_less by blast
  with assms show ?thesis by (auto simp: type_map_None)
qed

lemma gap_around:
  assumes wf: "shape_wf t" and free: "\<And>a. c \<le> a \<Longrightarrow> a < c + n \<Longrightarrow> type_map t a = None"
    and n: "0 < n" and top: "c + n \<le> 2 ^ 32 - 1"
  shows "\<exists>j\<le>nr_regions t. gs t j \<le> c \<and> c + n \<le> ge t j"
proof -
  let ?Q = "\<lambda>j. j \<le> nr_regions t \<and> c < ge t j"
  have "?Q (nr_regions t)" using top n by (simp add: ge_eq)
  then have j: "?Q (LEAST j. ?Q j)" by (rule LeastI)
  define j where "j = (LEAST j. ?Q j)"
  have least: "\<not> ?Q i" if "i < j" for i using that not_less_Least unfolding j_def by blast
  have jQ: "j \<le> nr_regions t" "c < ge t j" using j by (simp_all add: j_def)
  have "gs t j \<le> c"
  proof (cases j)
    case 0
    then show ?thesis using wf by (simp add: gs_eq)
  next
    case (Suc i)
    then have "lo_at t i \<le> c" using least [of i] jQ by (simp add: ge_eq)
    moreover have "type_map t c = None" using free n by simp
    ultimately have "hi_at t i \<le> c" using jQ(1) Suc unfolding type_map_None [OF wf] by (auto simp: not_less)
    then show ?thesis using wf jQ Suc by (simp add: gs_eq)
  qed
  moreover have "c + n \<le> ge t j"
  proof (cases "j < nr_regions t")
    case True
    with jQ type_map_lo [OF wf True] free [of "lo_at t j"] show ?thesis by (force simp: ge_eq)
  qed (use top in \<open>simp add: ge_eq\<close>)
  ultimately show ?thesis using jQ(1) by blast
qed

lemma cands_free_block:
  assumes wf: "shape_wf (mb_memory mb)" "shape_wf (mb_reserved mb)" and n: "0 < n"
  shows "cands mb st en n k {(i, j). free_pair (fix_nid nid) fl (mb_memory mb) (mb_reserved mb) i j}
    = {c. free_block mb nid fl c n \<and> st \<le> c \<and> c + n \<le> en \<and> 2 ^ k dvd c}" (is "?L = ?R")
proof (intro set_eqI iffI)
  fix c assume "c \<in> ?L"
  then obtain i j where ij: "free_pair (fix_nid nid) fl (mb_memory mb) (mb_reserved mb) i j"
    "cand_in (mb_memory mb) (mb_reserved mb) st en n k (i, j) c" by (auto simp: cands_def)
  then have "type_map (mb_reserved mb) a = None" if "c \<le> a" "a < c + n" for a
    using that by (intro gap_unmapped [OF wf(2), of j]) (auto simp: free_pair_def cand_in_def)
  moreover have "i < nr_regions (mb_memory mb) \<and> \<not> skip_region (fix_nid nid) fl (region_at (mb_memory mb) i) \<and>
      lo_at (mb_memory mb) i \<le> c \<and> c + n \<le> hi_at (mb_memory mb) i"
    using ij by (simp add: free_pair_def cand_in_def)
  ultimately have "free_block mb nid fl c n" unfolding free_block_def by blast
  with ij(2) show "c \<in> ?R" by (simp add: cand_in_def)
next
  fix c assume c: "c \<in> ?R"
  then obtain i where i: "i < nr_regions (mb_memory mb)" "lo_at (mb_memory mb) i \<le> c"
    "c + n \<le> hi_at (mb_memory mb) i" "\<not> skip_region (fix_nid nid) fl (region_at (mb_memory mb) i)"
    by (auto simp: free_block_def)
  have top: "c + n \<le> 2 ^ 32 - 1" using i shape_region(2) [OF wf(1) i(1)] by simp
  have free: "\<And>a. c \<le> a \<Longrightarrow> a < c + n \<Longrightarrow> type_map (mb_reserved mb) a = None"
    using c by (simp add: free_block_def)
  obtain j where "j \<le> nr_regions (mb_reserved mb)" "gs (mb_reserved mb) j \<le> c" "c + n \<le> ge (mb_reserved mb) j"
    using gap_around [OF wf(2) free n top] by blast
  with i c have "cand_in (mb_memory mb) (mb_reserved mb) st en n k (i, j) c"
    and "j \<le> nr_regions (mb_reserved mb)" by (simp_all add: cand_in_def)
  with cand_in_free_pair [OF this(1) n i(1) this(2) i(4)] show "c \<in> ?L" by (auto simp: cands_def)
qed

text \<open>\<^verbatim>\<open>memblock_find_in_range_node\<close> on a request of \<open>n\<close> bytes, aligned to \<open>2 ^ k\<close>.\<close>

definition search_end :: "memblock \<Rightarrow> phys_addr_t \<Rightarrow> phys_addr_t \<Rightarrow> phys_addr_t" where
  "search_end mb start0 end0 =
     c_max (c_max start0 PAGE_SIZE) (if end0 = MEMBLOCK_ALLOC_ACCESSIBLE then current_limit mb else end0)"

definition search_set ::
  "memblock \<Rightarrow> phys_addr_t \<Rightarrow> nat \<Rightarrow> phys_addr_t \<Rightarrow> phys_addr_t \<Rightarrow> int \<Rightarrow> ulong \<Rightarrow> nat set" where
  "search_set mb sz k start0 end0 nid fl =
     {c. free_block mb nid fl c (unat sz) \<and> unat (c_max start0 PAGE_SIZE) \<le> c \<and>
         c + unat sz \<le> unat (search_end mb start0 end0) \<and> 2 ^ k dvd c}"

lemma find_in_range_node_best:
  assumes wf: "shape_wf (mb_memory mb)" "shape_wf (mb_reserved mb)"
    and small: "nr_regions (mb_memory mb) < 2 ^ 31" "nr_regions (mb_reserved mb) < 2 ^ 31" and n: "0 < sz"
  shows "best_of (search_set mb sz k start0 end0 nid fl)
           (memblock_find_in_range_node kernel_end mb sz (2 ^ k) start0 end0 nid fl)"
proof -
  let ?s = "c_max start0 PAGE_SIZE"
  have s: "?s \<le> search_end mb start0 end0" "0 < ?s"
    by (simp_all add: search_end_def nat_word PAGE_SIZE_def)
  from find_top_down_spec [OF wf small n s, of k nid fl]
    cands_free_block [OF wf, of "unat sz" "unat ?s" "unat (search_end mb start0 end0)" k nid fl] n
  show ?thesis
    by (simp add: memblock_find_in_range_node_def memblock_bottom_up_def Let_def search_set_def
        word_less_nat_alt flip: search_end_def)
qed

section \<open>Page ranges\<close>

definition whole_pages :: "memblock_region \<Rightarrow> bool" where
  "whole_pages r \<longleftrightarrow> PFN_UP (mr_base r) < PFN_DOWN (mr_base r + mr_size r)"

definition pfn_range :: "memblock_region \<Rightarrow> ulong \<times> ulong \<times> int" where
  "pfn_range r = (PFN_UP (mr_base r), PFN_DOWN (mr_base r + mr_size r), mr_nid r)"

definition pfn_wanted :: "int \<Rightarrow> memblock_region \<Rightarrow> bool" where
  "pfn_wanted nid r \<longleftrightarrow> whole_pages r \<and> (nid = MAX_NR_NODES \<or> nid = mr_nid r)"

lemma next_mem_pfn_range_step:
  "next_mem_pfn_range i nid t =
     (if i < nr_regions t then
        (if pfn_wanted nid (region_at t i) then Some (i, pfn_range (region_at t i))
         else next_mem_pfn_range (i + 1) nid t)
      else None)"
  by (subst next_mem_pfn_range.simps) (auto simp: Let_def pfn_wanted_def whole_pages_def pfn_range_def not_le)

lemma mem_pfn_ranges_live:
  "array_wf t \<Longrightarrow> live t = pre @ rest \<Longrightarrow>
   mem_pfn_ranges (length pre) nid t = map pfn_range (filter (pfn_wanted nid) rest)"
proof (induction rest arbitrary: pre)
  case Nil
  then show ?case
    using live_split_end [of t pre] by (simp add: mem_pfn_ranges.simps next_mem_pfn_range_step [of "length pre"])
next
  case (Cons r rest)
  note at = live_split_nth [OF Cons.prems(2,1)]
  have "live t = (pre @ [r]) @ rest" using Cons.prems by simp
  note IH = Cons.IH [OF Cons.prems(1) this]
  show ?case
  proof (cases "pfn_wanted nid r")
    case True
    then show ?thesis
      using IH at by (subst mem_pfn_ranges.simps)
        (simp add: next_mem_pfn_range_step [of "length pre"] pfn_range_def split: prod.splits)
  next
    case False
    have "mem_pfn_ranges (length pre) nid t = mem_pfn_ranges (length pre + 1) nid t"
      using False at by (subst (1 2) mem_pfn_ranges.simps) (simp add: next_mem_pfn_range_step [of "length pre"])
    with False IH show ?thesis by simp
  qed
qed

section \<open>Properties\<close>

text \<open>
  C2: \<^verbatim>\<open>memblock_find_in_range_node\<close> returns, and its result is the highest address that is a multiple
  of the alignment, lies in the requested range above the first page and starts a free block of
  the requested size; it is 0 exactly when there is no such block.
\<close>

theorem find_in_range_node_highest:
  assumes "shape_wf (mb_memory mb)" and "shape_wf (mb_reserved mb)"
    and "nr_regions (mb_memory mb) < 2 ^ 31" and "nr_regions (mb_reserved mb) < 2 ^ 31" and "0 < sz"
  shows "\<exists>ret. memblock_find_in_range_node kernel_end mb sz (2 ^ k) start end nid flags = Inr ret \<and>
    (ret = 0 \<longleftrightarrow> search_set mb sz k start end nid flags = {}) \<and>
    (ret \<noteq> 0 \<longrightarrow> unat ret \<in> search_set mb sz k start end nid flags \<and>
       (\<forall>c\<in>search_set mb sz k start end nid flags. c \<le> unat ret))"
proof -
  have "0 \<notin> search_set mb sz k start end nid flags"
    by (auto simp: search_set_def unat_c_max PAGE_SIZE_def)
  moreover obtain ret where "memblock_find_in_range_node kernel_end mb sz (2 ^ k) start end nid flags = Inr ret"
    "if search_set mb sz k start end nid flags = {} then ret = 0
     else unat ret \<in> search_set mb sz k start end nid flags \<and> (\<forall>c\<in>search_set mb sz k start end nid flags. c \<le> unat ret)"
    using find_in_range_node_best [OF assms, of k start "end" nid flags kernel_end] unfolding best_of_def by blast
  ultimately show ?thesis by (metis unat_eq_zero)
qed

theorem find_in_range_node_highest_witness:
  "\<exists>ret. memblock_find_in_range_node 0 (init_memblock\<lparr>mb_memory := demo_type\<rparr>) 0x1000 (2 ^ 12) 0 0x4000 NUMA_NO_NODE 0
      = Inr ret \<and>
    (ret = 0 \<longleftrightarrow> search_set (init_memblock\<lparr>mb_memory := demo_type\<rparr>) 0x1000 12 0 0x4000 NUMA_NO_NODE 0 = {})"
proof -
  have "shape_wf init_memblock_type" using type_wf_init by (simp add: type_wf_def)
  then have wf: "shape_wf (mb_memory (init_memblock\<lparr>mb_memory := demo_type\<rparr>))"
    "shape_wf (mb_reserved (init_memblock\<lparr>mb_memory := demo_type\<rparr>))"
    "nr_regions (mb_memory (init_memblock\<lparr>mb_memory := demo_type\<rparr>)) < 2 ^ 31"
    "nr_regions (mb_reserved (init_memblock\<lparr>mb_memory := demo_type\<rparr>)) < 2 ^ 31"
    using demo_type_facts(3,6) by (simp_all add: init_memblock_def init_memblock_type_def)
  show ?thesis
    using find_in_range_node_highest [OF wf, of "0x1000" 0 12 0 "0x4000" NUMA_NO_NODE 0] by auto
qed

text \<open>
  the reverse iterator started with \<^verbatim>\<open>*idx == ULLONG_MAX\<close> and no second array reads through a
  null pointer, although \<^verbatim>\<open>for_each_mem_range_rev\<close> is documented to visit \<^verbatim>\<open>type_a\<close> alone then.
\<close>

theorem next_mem_range_rev_null: "next_mem_range_rev ULLONG_MAX nid flags ta None out = Inl NullDeref"
  by (simp add: next_mem_range_rev_def)

text \<open>
  \<^verbatim>\<open>for_each_mem_pfn_range\<close> visits, in order, every region of the wanted node that contains a
  whole page, with its first page frame rounded up and its end rounded down.
\<close>

theorem mem_pfn_ranges_complete:
  assumes "array_wf t"
  shows "mem_pfn_ranges 0 nid t = map pfn_range (filter (pfn_wanted nid) (live t))"
  using mem_pfn_ranges_live [of t "[]" "live t"] assms by simp

theorem mem_pfn_ranges_complete_witness: "mem_pfn_ranges 0 MAX_NR_NODES demo_type = [(1, 3, MAX_NR_NODES)]"
  using mem_pfn_ranges_complete [OF demo_type_facts(4), of MAX_NR_NODES]
  by (simp add: demo_type_facts(1) pfn_wanted_def whole_pages_def pfn_range_def PFN_UP_def PFN_DOWN_def
      PAGE_SHIFT_def PAGE_SIZE_def)

end
