(* ===== verification/Memblock_Store.thy ===== *)
theory Memblock_Store
  imports Memblock_Spec
begin

text \<open>
  The interface the rest of the boot code relies on: a store of address ranges with an operation
  that adds a range and one that removes it.  Clients are proved once in the locale; the two arrays
  of \<^verbatim>\<open>struct memblock\<close> with \<^verbatim>\<open>memblock_add\<close>/\<^verbatim>\<open>memblock_remove\<close> and
  \<^verbatim>\<open>memblock_reserve\<close>/\<^verbatim>\<open>memblock_free\<close> implement it.
\<close>

section \<open>The contract\<close>

datatype region_op = AddRange phys_addr_t phys_addr_t | RemoveRange phys_addr_t phys_addr_t

type_synonym 's range_call = "phys_addr_t \<Rightarrow> phys_addr_t \<Rightarrow> 's \<Rightarrow> (int \<times> 's) kres"

fun run_ops :: "'s range_call \<Rightarrow> 's range_call \<Rightarrow> region_op list \<Rightarrow> 's \<Rightarrow> (int list \<times> 's) kres" where
  "run_ops add rem [] s = Inr ([], s)"
| "run_ops add rem (op # ops) s =
     kbind (case op of AddRange b n \<Rightarrow> add b n s | RemoveRange b n \<Rightarrow> rem b n s) (\<lambda>(ret, s).
       kbind (run_ops add rem ops s) (\<lambda>(rets, s). Inr (ret # rets, s)))"

fun op_cover :: "region_op \<Rightarrow> nat set \<Rightarrow> nat set" where
  "op_cover (AddRange b n) A = A \<union> {unat b..<range_end b n}"
| "op_cover (RemoveRange b n) A = A - {unat b..<range_end b n}"

fun op_range :: "region_op \<Rightarrow> nat set" where
  "op_range (AddRange b n) = {unat b..<range_end b n}"
| "op_range (RemoveRange b n) = {unat b..<range_end b n}"

locale region_store =
  fixes wf :: "'s \<Rightarrow> bool" and cover :: "'s \<Rightarrow> nat set" and frame :: "'s \<Rightarrow> 'f"
    and add :: "'s range_call" and rem :: "'s range_call"
  assumes add_law: "wf s \<Longrightarrow> \<exists>ret s'. add b n s = Inr (ret, s') \<and> wf s' \<and> frame s' = frame s \<and>
      (ret = 0 \<and> cover s' = cover s \<union> {unat b..<range_end b n} \<or> ret \<noteq> 0 \<and> s' = s)"
    and rem_law: "wf s \<Longrightarrow> \<exists>ret s'. rem b n s = Inr (ret, s') \<and> wf s' \<and> frame s' = frame s \<and>
      (ret = 0 \<and> cover s' = cover s - {unat b..<range_end b n} \<or> ret \<noteq> 0 \<and> s' = s)"
begin

lemma op_law:
  assumes "wf s"
  shows "\<exists>ret s'. (case op of AddRange b n \<Rightarrow> add b n s | RemoveRange b n \<Rightarrow> rem b n s) = Inr (ret, s') \<and>
    wf s' \<and> frame s' = frame s \<and> (ret = 0 \<and> cover s' = op_cover op (cover s) \<or> ret \<noteq> 0 \<and> s' = s)"
proof (cases op)
  case (AddRange b n)
  with add_law [OF assms, of b n] show ?thesis by simp
next
  case (RemoveRange b n)
  with rem_law [OF assms, of b n] show ?thesis by simp
qed

lemma run_total:
  assumes "wf s"
  shows "\<exists>rets s'. run_ops add rem ops s = Inr (rets, s') \<and> length rets = length ops \<and> wf s' \<and> frame s' = frame s \<and>
    cover s' = fold (\<lambda>(ret, op) A. if ret = 0 then op_cover op A else A) (zip rets ops) (cover s)"
  using assms
proof (induction ops arbitrary: s)
  case (Cons op ops)
  from op_law [OF Cons.prems, of op] obtain ret s1 where
    s1: "(case op of AddRange b n \<Rightarrow> add b n s | RemoveRange b n \<Rightarrow> rem b n s) = Inr (ret, s1)"
    "wf s1" "frame s1 = frame s" "ret = 0 \<and> cover s1 = op_cover op (cover s) \<or> ret \<noteq> 0 \<and> s1 = s" by blast
  from Cons.IH [OF s1(2)] obtain rets s2 where
    "run_ops add rem ops s1 = Inr (rets, s2)" "length rets = length ops" "wf s2" "frame s2 = frame s1"
    "cover s2 = fold (\<lambda>(ret, op) A. if ret = 0 then op_cover op A else A) (zip rets ops) (cover s1)" by blast
  with s1 show ?case by auto
qed simp

text \<open>Addresses no operation mentions keep their state.\<close>

lemma fold_cover_outside:
  "(\<And>op. op \<in> set ops \<Longrightarrow> a \<notin> op_range op) \<Longrightarrow>
   (a \<in> fold (\<lambda>(ret, op) A. if ret = 0 then op_cover op A else A) (zip rets ops) A) = (a \<in> A)"
proof (induction ops arbitrary: rets A)
  case (Cons op ops)
  then have "a \<notin> op_range op" by simp
  then have eq: "(a \<in> op_cover op B) = (a \<in> B)" for B by (cases op) auto
  show ?case
  proof (cases rets)
    case (Cons ret rets')
    with eq Cons.prems Cons.IH show ?thesis by simp
  qed simp
qed simp

lemma run_outside:
  assumes "wf s" "run_ops add rem ops s = Inr (rets, s')" "\<And>op. op \<in> set ops \<Longrightarrow> a \<notin> op_range op"
  shows "a \<in> cover s' \<longleftrightarrow> a \<in> cover s"
  using run_total [OF assms(1), of ops] assms(2) fold_cover_outside [OF assms(3), of ops] by auto

lemma add_remove:
  assumes "wf s" "add b n s = Inr (0, s1)" "rem b n s1 = Inr (0, s2)"
  shows "cover s2 = cover s - {unat b..<range_end b n}"
  using add_law [OF assms(1), of b n] rem_law [of s1 b n] assms(2,3) by auto

end

section \<open>The two arrays of struct memblock\<close>

definition covered :: "memblock_type \<Rightarrow> nat set" where
  "covered t = dom (type_map t)"

definition mb_wf :: "memblock \<Rightarrow> bool" where
  "mb_wf mb \<longleftrightarrow> shape_wf (mb_memory mb) \<and> shape_wf (mb_reserved mb) \<and>
     mt_max (mb_memory mb) = INIT_MEMBLOCK_REGIONS \<and> mt_max (mb_reserved mb) = INIT_MEMBLOCK_REGIONS"

lemma covered_fill: "dom (fill_map lo hi v m) = dom m \<union> {lo..<hi}"
  by (auto simp: fill_map_def dom_def)

lemma covered_restrict: "dom (restrict_out lo hi m) = dom m - {lo..<hi}"
  by (auto simp: restrict_out_def dom_def)

lemma range_laws:
  assumes "shape_wf t"
  shows "\<exists>ret t'. memblock_add_range t b n nid fl = Inr (ret, t') \<and> shape_wf t' \<and> mt_max t' = mt_max t \<and>
      (ret = 0 \<and> covered t' = covered t \<union> {unat b..<range_end b n} \<or> ret \<noteq> 0 \<and> t' = t)"
    and "\<exists>ret t'. memblock_remove_range t b n = Inr (ret, t') \<and> shape_wf t' \<and> mt_max t' = mt_max t \<and>
      (ret = 0 \<and> covered t' = covered t - {unat b..<range_end b n} \<or> ret \<noteq> 0 \<and> t' = t)"
  using add_range_live [OF assms, of b n nid fl] remove_range_live [OF assms, of b n]
  by (auto simp: covered_def covered_fill covered_restrict ENOMEM_def)

interpretation memory_store: region_store mb_wf "\<lambda>mb. covered (mb_memory mb)"
  "\<lambda>mb. (is_bottom_up mb, current_limit mb, mb_reserved mb)" memblock_add memblock_remove
proof
  fix mb b n assume wf: "mb_wf mb"
  then have "shape_wf (mb_memory mb)" by (simp add: mb_wf_def)
  note laws = range_laws [OF this, of b n]
  show "\<exists>ret s'. memblock_add b n mb = Inr (ret, s') \<and> mb_wf s' \<and>
      (is_bottom_up s', current_limit s', mb_reserved s') = (is_bottom_up mb, current_limit mb, mb_reserved mb) \<and>
      (ret = 0 \<and> covered (mb_memory s') = covered (mb_memory mb) \<union> {unat b..<range_end b n} \<or> ret \<noteq> 0 \<and> s' = mb)"
    using laws(1) [of MAX_NR_NODES 0] wf by (auto simp: memblock_add_def mb_wf_def)
  show "\<exists>ret s'. memblock_remove b n mb = Inr (ret, s') \<and> mb_wf s' \<and>
      (is_bottom_up s', current_limit s', mb_reserved s') = (is_bottom_up mb, current_limit mb, mb_reserved mb) \<and>
      (ret = 0 \<and> covered (mb_memory s') = covered (mb_memory mb) - {unat b..<range_end b n} \<or> ret \<noteq> 0 \<and> s' = mb)"
    using laws(2) wf by (auto simp: memblock_remove_def mb_wf_def)
qed

interpretation reserved_store: region_store mb_wf "\<lambda>mb. covered (mb_reserved mb)"
  "\<lambda>mb. (is_bottom_up mb, current_limit mb, mb_memory mb)" memblock_reserve memblock_free
proof
  fix mb b n assume wf: "mb_wf mb"
  then have "shape_wf (mb_reserved mb)" by (simp add: mb_wf_def)
  note laws = range_laws [OF this, of b n]
  show "\<exists>ret s'. memblock_reserve b n mb = Inr (ret, s') \<and> mb_wf s' \<and>
      (is_bottom_up s', current_limit s', mb_memory s') = (is_bottom_up mb, current_limit mb, mb_memory mb) \<and>
      (ret = 0 \<and> covered (mb_reserved s') = covered (mb_reserved mb) \<union> {unat b..<range_end b n} \<or> ret \<noteq> 0 \<and> s' = mb)"
    using laws(1) [of MAX_NR_NODES 0] wf by (auto simp: memblock_reserve_def mb_wf_def)
  show "\<exists>ret s'. memblock_free b n mb = Inr (ret, s') \<and> mb_wf s' \<and>
      (is_bottom_up s', current_limit s', mb_memory s') = (is_bottom_up mb, current_limit mb, mb_memory mb) \<and>
      (ret = 0 \<and> covered (mb_reserved s') = covered (mb_reserved mb) - {unat b..<range_end b n} \<or> ret \<noteq> 0 \<and> s' = mb)"
    using laws(2) wf by (auto simp: memblock_free_def mb_wf_def)
qed

lemma mb_wf_init: "mb_wf init_memblock"
  using type_wf_init by (simp add: mb_wf_def init_memblock_def type_wf_def init_memblock_type_def)

definition demo_memblock :: memblock where
  "demo_memblock = init_memblock\<lparr>current_limit := 0x30000000, mb_memory := demo_type\<rparr>"

lemma mb_wf_demo: "mb_wf demo_memblock"
  using mb_wf_init demo_type_facts(2,6) by (simp add: mb_wf_def demo_memblock_def)

section \<open>Properties\<close>

text \<open>
  C12: every sequence of \<^verbatim>\<open>memblock_reserve\<close> and \<^verbatim>\<open>memblock_free\<close> calls on a well-formed structure
  returns, keeps it well-formed and does not touch the memory array; the reserved addresses are
  those of the calls that returned 0, added and removed in order.
\<close>

theorem reserve_free_sequences:
  assumes "mb_wf mb"
  shows "\<exists>rets mb'. run_ops memblock_reserve memblock_free ops mb = Inr (rets, mb') \<and> length rets = length ops \<and>
    mb_wf mb' \<and> (is_bottom_up mb', current_limit mb', mb_memory mb') = (is_bottom_up mb, current_limit mb, mb_memory mb) \<and>
    covered (mb_reserved mb') =
      fold (\<lambda>(ret, op) A. if ret = 0 then op_cover op A else A) (zip rets ops) (covered (mb_reserved mb))"
  by (rule reserved_store.run_total [OF assms])

theorem reserve_free_sequences_witness:
  "\<exists>rets mb'. run_ops memblock_reserve memblock_free [AddRange 0x1000 0x800, RemoveRange 0x1400 0x100] demo_memblock
      = Inr (rets, mb') \<and> length rets = 2 \<and> mb_wf mb'"
  using reserve_free_sequences [OF mb_wf_demo, where ops = "[AddRange 0x1000 0x800, RemoveRange 0x1400 0x100]"]
  by auto

text \<open>
  C13: the same for \<^verbatim>\<open>memblock_add\<close> and \<^verbatim>\<open>memblock_remove\<close> on the memory array; and an address that
  no call of the sequence names keeps its state.
\<close>

theorem add_remove_sequences:
  assumes "mb_wf mb"
  shows "\<exists>rets mb'. run_ops memblock_add memblock_remove ops mb = Inr (rets, mb') \<and> mb_wf mb' \<and>
    mb_reserved mb' = mb_reserved mb \<and>
    (\<forall>a. (\<forall>op\<in>set ops. a \<notin> op_range op) \<longrightarrow> (a \<in> covered (mb_memory mb') \<longleftrightarrow> a \<in> covered (mb_memory mb)))"
proof -
  obtain rets mb' where r: "run_ops memblock_add memblock_remove ops mb = Inr (rets, mb')" "mb_wf mb'"
    "mb_reserved mb' = mb_reserved mb"
    using memory_store.run_total [OF assms, where ops = ops] by auto
  from memory_store.run_outside [OF assms r(1)] r show ?thesis by blast
qed

theorem add_remove_sequences_witness:
  "\<exists>rets mb'. run_ops memblock_add memblock_remove [AddRange 0x8000 0x800] demo_memblock = Inr (rets, mb') \<and>
     (0x1800 \<in> covered (mb_memory mb') \<longleftrightarrow> 0x1800 \<in> covered (mb_memory demo_memblock))"
proof -
  obtain rets mb' where r: "run_ops memblock_add memblock_remove [AddRange 0x8000 0x800] demo_memblock = Inr (rets, mb')"
    "\<forall>a. (\<forall>op\<in>set [AddRange 0x8000 0x800]. a \<notin> op_range op) \<longrightarrow>
       (a \<in> covered (mb_memory mb') \<longleftrightarrow> a \<in> covered (mb_memory demo_memblock))"
    using add_remove_sequences [OF mb_wf_demo, of "[AddRange 0x8000 0x800]"] by blast
  have "0x1800 \<in> covered (mb_memory mb') \<longleftrightarrow> 0x1800 \<in> covered (mb_memory demo_memblock)"
    using r(2) [rule_format, of "0x1800"] by simp
  with r(1) show ?thesis by blast
qed

end
