(* ===== verification/Ctype.thy ===== *)
theory Ctype
  imports Sandix_Prelude
begin

text \<open>
  Character classes: the table of \<^verbatim>\<open>lib/ctype.c\<close> and the macros and inline functions of
  \<^verbatim>\<open>include/sandix/ctype.h\<close>, on bytes.
\<close>

section \<open>The table\<close>

definition CT_U :: u8 where "CT_U = 0x01"
definition CT_L :: u8 where "CT_L = 0x02"
definition CT_D :: u8 where "CT_D = 0x04"
definition CT_C :: u8 where "CT_C = 0x08"
definition CT_P :: u8 where "CT_P = 0x10"
definition CT_S :: u8 where "CT_S = 0x20"
definition CT_X :: u8 where "CT_X = 0x40"
definition CT_SP :: u8 where "CT_SP = 0x80"

definition ctype_table :: "u8 list" where
  "ctype_table =
     [CT_C, CT_C, CT_C, CT_C, CT_C, CT_C, CT_C, CT_C,
      CT_C, CT_C OR CT_S, CT_C OR CT_S, CT_C OR CT_S, CT_C OR CT_S, CT_C OR CT_S, CT_C, CT_C,
      CT_C, CT_C, CT_C, CT_C, CT_C, CT_C, CT_C, CT_C,
      CT_C, CT_C, CT_C, CT_C, CT_C, CT_C, CT_C, CT_C,
      CT_S OR CT_SP, CT_P, CT_P, CT_P, CT_P, CT_P, CT_P, CT_P,
      CT_P, CT_P, CT_P, CT_P, CT_P, CT_P, CT_P, CT_P,
      CT_D, CT_D, CT_D, CT_D, CT_D, CT_D, CT_D, CT_D,
      CT_D, CT_D, CT_P, CT_P, CT_P, CT_P, CT_P, CT_P,
      CT_P, CT_U OR CT_X, CT_U OR CT_X, CT_U OR CT_X, CT_U OR CT_X, CT_U OR CT_X, CT_U OR CT_X, CT_U,
      CT_U, CT_U, CT_U, CT_U, CT_U, CT_U, CT_U, CT_U,
      CT_U, CT_U, CT_U, CT_U, CT_U, CT_U, CT_U, CT_U,
      CT_U, CT_U, CT_U, CT_P, CT_P, CT_P, CT_P, CT_P,
      CT_P, CT_L OR CT_X, CT_L OR CT_X, CT_L OR CT_X, CT_L OR CT_X, CT_L OR CT_X, CT_L OR CT_X, CT_L,
      CT_L, CT_L, CT_L, CT_L, CT_L, CT_L, CT_L, CT_L,
      CT_L, CT_L, CT_L, CT_L, CT_L, CT_L, CT_L, CT_L,
      CT_L, CT_L, CT_L, CT_P, CT_P, CT_P, CT_P, CT_C,
      0, 0, 0, 0, 0, 0, 0, 0, 0, 0, 0, 0, 0, 0, 0, 0,
      0, 0, 0, 0, 0, 0, 0, 0, 0, 0, 0, 0, 0, 0, 0, 0,
      CT_S OR CT_SP, CT_P, CT_P, CT_P, CT_P, CT_P, CT_P, CT_P, CT_P, CT_P, CT_P, CT_P, CT_P, CT_P, CT_P, CT_P,
      CT_P, CT_P, CT_P, CT_P, CT_P, CT_P, CT_P, CT_P, CT_P, CT_P, CT_P, CT_P, CT_P, CT_P, CT_P, CT_P,
      CT_U, CT_U, CT_U, CT_U, CT_U, CT_U, CT_U, CT_U, CT_U, CT_U, CT_U, CT_U, CT_U, CT_U, CT_U, CT_U,
      CT_U, CT_U, CT_U, CT_U, CT_U, CT_U, CT_U, CT_P, CT_U, CT_U, CT_U, CT_U, CT_U, CT_U, CT_U, CT_L,
      CT_L, CT_L, CT_L, CT_L, CT_L, CT_L, CT_L, CT_L, CT_L, CT_L, CT_L, CT_L, CT_L, CT_L, CT_L, CT_L,
      CT_L, CT_L, CT_L, CT_L, CT_L, CT_L, CT_L, CT_P, CT_L, CT_L, CT_L, CT_L, CT_L, CT_L, CT_L, CT_L]"

section \<open>Classes\<close>

definition ismask :: "u8 \<Rightarrow> u8" where
  "ismask x = ctype_table ! unat x"

definition isalnum :: "u8 \<Rightarrow> bool" where "isalnum c \<longleftrightarrow> ismask c AND (CT_U OR CT_L OR CT_D) \<noteq> 0"
definition isalpha :: "u8 \<Rightarrow> bool" where "isalpha c \<longleftrightarrow> ismask c AND (CT_U OR CT_L) \<noteq> 0"
definition iscntrl :: "u8 \<Rightarrow> bool" where "iscntrl c \<longleftrightarrow> ismask c AND CT_C \<noteq> 0"
definition isdigit :: "u8 \<Rightarrow> bool" where "isdigit c \<longleftrightarrow> ismask c AND CT_D \<noteq> 0"
definition isgraph :: "u8 \<Rightarrow> bool" where "isgraph c \<longleftrightarrow> ismask c AND (CT_P OR CT_U OR CT_L OR CT_D) \<noteq> 0"
definition islower :: "u8 \<Rightarrow> bool" where "islower c \<longleftrightarrow> ismask c AND CT_L \<noteq> 0"
definition isprint :: "u8 \<Rightarrow> bool" where "isprint c \<longleftrightarrow> ismask c AND (CT_P OR CT_U OR CT_L OR CT_D OR CT_SP) \<noteq> 0"
definition ispunct :: "u8 \<Rightarrow> bool" where "ispunct c \<longleftrightarrow> ismask c AND CT_P \<noteq> 0"
definition isspace :: "u8 \<Rightarrow> bool" where "isspace c \<longleftrightarrow> ismask c AND CT_S \<noteq> 0"
definition isupper :: "u8 \<Rightarrow> bool" where "isupper c \<longleftrightarrow> ismask c AND CT_U \<noteq> 0"
definition isxdigit :: "u8 \<Rightarrow> bool" where "isxdigit c \<longleftrightarrow> ismask c AND (CT_D OR CT_X) \<noteq> 0"
definition isascii :: "u8 \<Rightarrow> bool" where "isascii c \<longleftrightarrow> c \<le> 0x7f"
definition toascii :: "u8 \<Rightarrow> u8" where "toascii c = c AND 0x7f"

text \<open>\<^verbatim>\<open>'A'\<close> is 65 and \<^verbatim>\<open>'a'\<close> is 97.\<close>

definition tolower :: "u8 \<Rightarrow> u8" where
  "tolower c = (if isupper c then c - (65 - 97) else c)"

definition toupper :: "u8 \<Rightarrow> u8" where
  "toupper c = (if islower c then c - (97 - 65) else c)"

definition fast_tolower :: "u8 \<Rightarrow> u8" where
  "fast_tolower c = c OR 0x20"

text \<open>\<^verbatim>\<open>char\<close> is signed.\<close>

definition isodigit :: "u8 \<Rightarrow> bool" where
  "isodigit c \<longleftrightarrow> sint c \<ge> 48 \<and> sint c \<le> 55"

section \<open>Facts about every byte\<close>

text \<open>
  The table as ranges of character codes, so that a statement about every byte can be evaluated
  byte by byte.
\<close>

definition class_of :: "int \<Rightarrow> u8" where
  "class_of i =
     (if i < 9 then 0x08 else if i < 14 then 0x28 else if i < 32 then 0x08 else if i = 32 then 0xA0
      else if i < 48 then 0x10 else if i < 58 then 0x04 else if i < 65 then 0x10 else if i < 71 then 0x41
      else if i < 91 then 0x01 else if i < 97 then 0x10 else if i < 103 then 0x42 else if i < 123 then 0x02
      else if i < 127 then 0x10 else if i = 127 then 0x08 else if i < 160 then 0 else if i = 160 then 0xA0
      else if i < 192 then 0x10 else if i = 215 \<or> i = 247 then 0x10 else if i < 223 then 0x01 else 0x02)"

lemma ctype_table_class: "ctype_table = map class_of [0..255]"
  by (simp add: upto_rec_numeral class_of_def ctype_table_def CT_U_def CT_L_def CT_D_def CT_C_def
      CT_P_def CT_S_def CT_X_def CT_SP_def upto.simps)

lemma uint_byte: "0 \<le> uint (c :: u8)" "uint c \<le> 255"
  using unsigned_less [of c, where 'a = int] by simp_all

lemma ismask_class: "ismask c = class_of (uint c)"
proof -
  have "unat c < 256" using unsigned_less [of c] by simp
  moreover have "0 + int (unat c) \<le> 255" using uint_byte [of c] by (simp flip: uint_nat)
  moreover have "map class_of [0..255] ! unat c = class_of ([0..255] ! unat c)"
    using \<open>unat c < 256\<close> by (intro nth_map) simp
  ultimately show ?thesis
    using nth_upto [of 0 "unat c" 255] by (simp add: ismask_def ctype_table_class)
qed

lemmas class_defs = ismask_class class_of_def CT_U_def CT_L_def CT_D_def CT_C_def CT_P_def CT_S_def CT_X_def CT_SP_def

lemma isupper_iff: "isupper c \<longleftrightarrow> 65 \<le> uint c \<and> uint c \<le> 90 \<or> 192 \<le> uint c \<and> uint c \<le> 222 \<and> uint c \<noteq> 215"
  using uint_byte [of c] by (auto simp: isupper_def class_defs)

lemma islower_iff: "islower c \<longleftrightarrow> 97 \<le> uint c \<and> uint c \<le> 122 \<or> 223 \<le> uint c \<and> uint c \<noteq> 247"
  using uint_byte [of c] by (auto simp: islower_def class_defs)

lemma isdigit_iff: "isdigit c \<longleftrightarrow> 48 \<le> uint c \<and> uint c \<le> 57"
  using uint_byte [of c] by (auto simp: isdigit_def class_defs)

lemma isxdigit_iff:
  "isxdigit c \<longleftrightarrow> 48 \<le> uint c \<and> uint c \<le> 57 \<or> 65 \<le> uint c \<and> uint c \<le> 70 \<or> 97 \<le> uint c \<and> uint c \<le> 102"
  using uint_byte [of c] by (auto simp: isxdigit_def class_defs)

lemma isspace_iff: "isspace c \<longleftrightarrow> 9 \<le> uint c \<and> uint c \<le> 13 \<or> uint c = 32 \<or> uint c = 160"
  using uint_byte [of c] by (auto simp: isspace_def class_defs)

lemma isspace_zero [simp]: "\<not> isspace 0"
  by (simp add: isspace_iff)

lemma uint_tolower: "uint (tolower c) = (if isupper c then uint c + 32 else uint c)"
  using uint_byte [of c] by (auto simp: tolower_def uint_word_ariths isupper_iff)

lemma tolower_not_upper: "\<not> isupper (tolower c)"
  using isupper_iff [of "tolower c"] isupper_iff [of c] by (auto simp: uint_tolower)

lemma tolower_idem: "tolower (tolower c) = tolower c"
  using tolower_not_upper [of c] by (simp add: tolower_def [of "tolower c"])

lemma tolower_zero [simp]: "tolower c = 0 \<longleftrightarrow> c = 0"
  using uint_tolower [of c] uint_byte [of c] by (auto simp: tolower_def isupper_iff uint_0_iff)

end
