(* ===== verification/String_Lib.thy ===== *)
theory String_Lib
  imports Ctype
begin

text \<open>
  The string and memory routines of \<^verbatim>\<open>lib/string.c\<close> over a flat 32-bit byte memory.  A pointer is
  an address, and \<^verbatim>\<open>NULL\<close> is 0.  A counted loop is a recursion on the count; a loop that runs to a
  terminator is a partial function with result \<open>None\<close> when it runs forever (memory without a
  terminator, or a copy that keeps overwriting its own).
\<close>

type_synonym mem = "ulong \<Rightarrow> u8"

section \<open>Scanning for the terminator\<close>

partial_function (option) skip_spaces :: "mem \<Rightarrow> ulong \<Rightarrow> ulong option" where
  "skip_spaces m str = (if isspace (m str) then skip_spaces m (str + 1) else Some str)"

partial_function (option) strlen_loop :: "mem \<Rightarrow> ulong \<Rightarrow> ulong option" where
  "strlen_loop m sc = (if m sc \<noteq> 0 then strlen_loop m (sc + 1) else Some sc)"

definition strlen :: "mem \<Rightarrow> ulong \<Rightarrow> ulong option" where
  "strlen m s = map_option (\<lambda>sc. sc - s) (strlen_loop m s)"

partial_function (option) strim_loop :: "mem \<Rightarrow> ulong \<Rightarrow> ulong \<Rightarrow> ulong option" where
  "strim_loop m s end = (if end \<ge> s \<and> isspace (m end) then strim_loop m s (end - 1) else Some end)"

text \<open>The result is the returned pointer and the memory.\<close>

definition strim :: "mem \<Rightarrow> ulong \<Rightarrow> (ulong \<times> mem) option" where
  "strim m s =
     Option.bind (strlen m s) (\<lambda>sz.
       if sz = 0 then Some (s, m)
       else Option.bind (strim_loop m s (s + sz - 1)) (\<lambda>end.
              let m' = m(end + 1 := 0) in
              map_option (\<lambda>p. (p, m')) (skip_spaces m' s)))"

primrec strnlen_loop :: "mem \<Rightarrow> nat \<Rightarrow> ulong \<Rightarrow> ulong" where
  "strnlen_loop m 0 sc = sc"
| "strnlen_loop m (Suc count) sc = (if m sc \<noteq> 0 then strnlen_loop m count (sc + 1) else sc)"

definition strnlen :: "mem \<Rightarrow> ulong \<Rightarrow> ulong \<Rightarrow> ulong" where
  "strnlen m s count = strnlen_loop m (unat count) s - s"

section \<open>Comparison\<close>

text \<open>
  The body of the \<^verbatim>\<open>do\<close> loop of \<^verbatim>\<open>strncasecmp\<close>, with \<open>len\<close> turns left.  \<^verbatim>\<open>continue\<close> goes on to the
  test \<^verbatim>\<open>--len\<close>.
\<close>

definition byte_diff :: "u8 \<Rightarrow> u8 \<Rightarrow> int" where
  "byte_diff c1 c2 = uint c1 - uint c2"

primrec strncasecmp_loop :: "mem \<Rightarrow> nat \<Rightarrow> ulong \<Rightarrow> ulong \<Rightarrow> int" where
  "strncasecmp_loop m 0 s1 s2 = 0"
| "strncasecmp_loop m (Suc len) s1 s2 =
     (let c1 = m s1; c2 = m s2 in
      if c1 = 0 \<or> c2 = 0 then byte_diff c1 c2
      else if c1 = c2 then
        (if len = 0 then byte_diff c1 c2 else strncasecmp_loop m len (s1 + 1) (s2 + 1))
      else let c1 = tolower c1; c2 = tolower c2 in
        if c1 \<noteq> c2 then byte_diff c1 c2
        else if len = 0 then byte_diff c1 c2 else strncasecmp_loop m len (s1 + 1) (s2 + 1))"

definition strncasecmp :: "mem \<Rightarrow> ulong \<Rightarrow> ulong \<Rightarrow> ulong \<Rightarrow> int" where
  "strncasecmp m s1 s2 len = (if len = 0 then 0 else strncasecmp_loop m (unat len) s1 s2)"

partial_function (option) strcasecmp :: "mem \<Rightarrow> ulong \<Rightarrow> ulong \<Rightarrow> int option" where
  "strcasecmp m s1 s2 =
     (let c1 = tolower (m s1); c2 = tolower (m s2) in
      if c1 = c2 \<and> c1 \<noteq> 0 then strcasecmp m (s1 + 1) (s2 + 1) else Some (byte_diff c1 c2))"

partial_function (option) strcmp :: "mem \<Rightarrow> ulong \<Rightarrow> ulong \<Rightarrow> int option" where
  "strcmp m cs ct =
     (let c1 = m cs; c2 = m ct in
      if c1 \<noteq> c2 then Some (if c1 < c2 then - 1 else 1)
      else if c1 = 0 then Some 0 else strcmp m (cs + 1) (ct + 1))"

primrec strncmp_loop :: "mem \<Rightarrow> nat \<Rightarrow> ulong \<Rightarrow> ulong \<Rightarrow> int" where
  "strncmp_loop m 0 cs ct = 0"
| "strncmp_loop m (Suc count) cs ct =
     (let c1 = m cs; c2 = m ct in
      if c1 \<noteq> c2 then (if c1 < c2 then - 1 else 1)
      else if c1 = 0 then 0 else strncmp_loop m count (cs + 1) (ct + 1))"

definition strncmp :: "mem \<Rightarrow> ulong \<Rightarrow> ulong \<Rightarrow> ulong \<Rightarrow> int" where
  "strncmp m cs ct count = strncmp_loop m (unat count) cs ct"

primrec memcmp_loop :: "mem \<Rightarrow> nat \<Rightarrow> ulong \<Rightarrow> ulong \<Rightarrow> int" where
  "memcmp_loop m 0 su1 su2 = 0"
| "memcmp_loop m (Suc count) su1 su2 =
     (let res = byte_diff (m su1) (m su2) in
      if res \<noteq> 0 then res else memcmp_loop m count (su1 + 1) (su2 + 1))"

definition memcmp :: "mem \<Rightarrow> ulong \<Rightarrow> ulong \<Rightarrow> ulong \<Rightarrow> int" where
  "memcmp m cs ct count = memcmp_loop m (unat count) cs ct"

section \<open>Copying\<close>

partial_function (option) strcpy_loop :: "mem \<Rightarrow> ulong \<Rightarrow> ulong \<Rightarrow> mem option" where
  "strcpy_loop m dest src =
     (let c = m src; m' = m(dest := c) in
      if c \<noteq> 0 then strcpy_loop m' (dest + 1) (src + 1) else Some m')"

definition strcpy :: "mem \<Rightarrow> ulong \<Rightarrow> ulong \<Rightarrow> (ulong \<times> mem) option" where
  "strcpy m dest src = map_option (Pair dest) (strcpy_loop m dest src)"

primrec strncpy_loop :: "nat \<Rightarrow> mem \<Rightarrow> ulong \<Rightarrow> ulong \<Rightarrow> mem" where
  "strncpy_loop 0 m tmp src = m"
| "strncpy_loop (Suc count) m tmp src =
     (let c = m src in strncpy_loop count (m(tmp := c)) (tmp + 1) (if c \<noteq> 0 then src + 1 else src))"

definition strncpy :: "mem \<Rightarrow> ulong \<Rightarrow> ulong \<Rightarrow> ulong \<Rightarrow> ulong \<times> mem" where
  "strncpy m dest src count = (dest, strncpy_loop (unat count) m dest src)"

primrec memcpy_loop :: "nat \<Rightarrow> mem \<Rightarrow> ulong \<Rightarrow> ulong \<Rightarrow> mem" where
  "memcpy_loop 0 m tmp s = m"
| "memcpy_loop (Suc count) m tmp s = memcpy_loop count (m(tmp := m s)) (tmp + 1) (s + 1)"

definition memcpy :: "mem \<Rightarrow> ulong \<Rightarrow> ulong \<Rightarrow> ulong \<Rightarrow> ulong \<times> mem" where
  "memcpy m dest src count = (dest, memcpy_loop (unat count) m dest src)"

definition strlcpy :: "mem \<Rightarrow> ulong \<Rightarrow> ulong \<Rightarrow> ulong \<Rightarrow> (ulong \<times> mem) option" where
  "strlcpy m dest src sz =
     map_option (\<lambda>ret.
       (ret, if sz \<noteq> 0 then
               (let len = (if ret \<ge> sz then sz - 1 else ret);
                    m1 = snd (memcpy m dest src len) in
                m1(dest + len := 0))
             else m))
       (strlen m src)"

definition strcat :: "mem \<Rightarrow> ulong \<Rightarrow> ulong \<Rightarrow> (ulong \<times> mem) option" where
  "strcat m dest src =
     Option.bind (strlen_loop m dest) (\<lambda>d. map_option (Pair dest) (strcpy_loop m d src))"

primrec strncat_loop :: "nat \<Rightarrow> mem \<Rightarrow> ulong \<Rightarrow> ulong \<Rightarrow> mem" where
  "strncat_loop 0 m dest src = m"
| "strncat_loop (Suc count) m dest src =
     (let c = m src; m' = m(dest := c) in
      if c \<noteq> 0 then
        (if count = 0 then m'(dest + 1 := 0) else strncat_loop count m' (dest + 1) (src + 1))
      else m')"

definition strncat :: "mem \<Rightarrow> ulong \<Rightarrow> ulong \<Rightarrow> ulong \<Rightarrow> (ulong \<times> mem) option" where
  "strncat m dest src count =
     (if count \<noteq> 0 then
        map_option (\<lambda>d. (dest, strncat_loop (unat count) m d src)) (strlen_loop m dest)
      else Some (dest, m))"

primrec memset_loop :: "nat \<Rightarrow> mem \<Rightarrow> ulong \<Rightarrow> u8 \<Rightarrow> mem" where
  "memset_loop 0 m xs c = m"
| "memset_loop (Suc count) m xs c = memset_loop count (m(xs := c)) (xs + 1) c"

definition memset :: "mem \<Rightarrow> ulong \<Rightarrow> int \<Rightarrow> ulong \<Rightarrow> ulong \<times> mem" where
  "memset m s c count = (s, memset_loop (unat count) m s (word_of_int c))"

primrec memmove_down_loop :: "nat \<Rightarrow> mem \<Rightarrow> ulong \<Rightarrow> ulong \<Rightarrow> mem" where
  "memmove_down_loop 0 m tmp s = m"
| "memmove_down_loop (Suc count) m tmp s =
     memmove_down_loop count (m(tmp - 1 := m (s - 1))) (tmp - 1) (s - 1)"

definition memmove :: "mem \<Rightarrow> ulong \<Rightarrow> ulong \<Rightarrow> ulong \<Rightarrow> ulong \<times> mem" where
  "memmove m dest src count =
     (dest, if dest \<le> src then memcpy_loop (unat count) m dest src
            else memmove_down_loop (unat count) m (dest + count) (src + count))"

section \<open>Searching\<close>

text \<open>\<^verbatim>\<open>(char)c\<close> of an \<^verbatim>\<open>int\<close>.\<close>

definition to_char :: "int \<Rightarrow> u8" where "to_char c = word_of_int c"

partial_function (option) strchr :: "mem \<Rightarrow> ulong \<Rightarrow> int \<Rightarrow> ulong option" where
  "strchr m s c =
     (if m s \<noteq> to_char c then (if m s = 0 then Some 0 else strchr m (s + 1) c) else Some s)"

partial_function (option) strrchr_loop :: "mem \<Rightarrow> ulong \<Rightarrow> int \<Rightarrow> ulong \<Rightarrow> ulong option" where
  "strrchr_loop m s c la =
     (let la' = (if m s = to_char c then s else la) in
      if m s \<noteq> 0 then strrchr_loop m (s + 1) c la' else Some la')"

definition strrchr :: "mem \<Rightarrow> ulong \<Rightarrow> int \<Rightarrow> ulong option" where
  "strrchr m s c = strrchr_loop m s c 0"

primrec strnchr_loop :: "mem \<Rightarrow> nat \<Rightarrow> ulong \<Rightarrow> int \<Rightarrow> ulong" where
  "strnchr_loop m 0 s c = 0"
| "strnchr_loop m (Suc count) s c =
     (if m s \<noteq> 0 then (if m s = to_char c then s else strnchr_loop m count (s + 1) c) else 0)"

definition strnchr :: "mem \<Rightarrow> ulong \<Rightarrow> ulong \<Rightarrow> int \<Rightarrow> ulong" where
  "strnchr m s count c = strnchr_loop m (unat count) s c"

text \<open>\<^verbatim>\<open>memscan\<close> compares the byte, promoted to \<^verbatim>\<open>int\<close>, with the whole \<^verbatim>\<open>int\<close> argument.\<close>

primrec memscan_loop :: "mem \<Rightarrow> nat \<Rightarrow> ulong \<Rightarrow> int \<Rightarrow> ulong" where
  "memscan_loop m 0 p c = p"
| "memscan_loop m (Suc sz) p c = (if uint (m p) = c then p else memscan_loop m sz (p + 1) c)"

definition memscan :: "mem \<Rightarrow> ulong \<Rightarrow> int \<Rightarrow> ulong \<Rightarrow> ulong" where
  "memscan m addr c sz = memscan_loop m (unat sz) addr c"

primrec memchr_loop :: "mem \<Rightarrow> nat \<Rightarrow> ulong \<Rightarrow> int \<Rightarrow> ulong" where
  "memchr_loop m 0 p c = 0"
| "memchr_loop m (Suc n) p c = (if to_char c = m p then p else memchr_loop m n (p + 1) c)"

definition memchr :: "mem \<Rightarrow> ulong \<Rightarrow> int \<Rightarrow> ulong \<Rightarrow> ulong" where
  "memchr m s c n = memchr_loop m (unat n) s c"

text \<open>
  The loop shared by \<^verbatim>\<open>strstr\<close> and \<^verbatim>\<open>strnstr\<close>: \<^verbatim>\<open>while (l1 >= l2) { l1--; ... }\<close> with \<open>0 < l2\<close>.
\<close>

function strstr_loop :: "mem \<Rightarrow> ulong \<Rightarrow> ulong \<Rightarrow> nat \<Rightarrow> ulong \<Rightarrow> ulong" where
  "strstr_loop m s1 s2 l1 l2 =
     (if unat l2 \<le> l1 \<and> l2 \<noteq> 0 then
        (if memcmp m s1 s2 l2 = 0 then s1 else strstr_loop m (s1 + 1) s2 (l1 - 1) l2)
      else 0)"
  by pat_completeness auto
termination
proof (relation "measure (\<lambda>(m, s1, s2, l1, l2). l1)", goal_cases)
  case (2 m s1 s2 l1 l2)
  then have "0 < unat l2" by (simp add: unat_gt_0)
  with 2 show ?case by simp
qed simp

definition strstr :: "mem \<Rightarrow> ulong \<Rightarrow> ulong \<Rightarrow> ulong option" where
  "strstr m s1 s2 =
     Option.bind (strlen m s2) (\<lambda>l2.
       if l2 = 0 then Some s1
       else map_option (\<lambda>l1. strstr_loop m s1 s2 (unat l1) l2) (strlen m s1))"

definition strnstr :: "mem \<Rightarrow> ulong \<Rightarrow> ulong \<Rightarrow> ulong \<Rightarrow> ulong option" where
  "strnstr m s1 s2 len =
     map_option (\<lambda>l2. if l2 = 0 then s1 else strstr_loop m s1 s2 (unat len) l2) (strlen m s2)"

declare strstr_loop.simps [simp del]

end
