(* ===== verification/String_Spec.thy ===== *)
theory String_Spec
  imports String_Lib
begin

text \<open>
  What the routines of \<^verbatim>\<open>lib/string.c\<close> compute: the effect of the memory routines on every address,
  and the string routines on terminated strings.
\<close>

section \<open>Offsets in a flat memory\<close>

lemma offset_Suc:
  fixes a s :: "'a::len word"
  shows "a \<noteq> s \<Longrightarrow> unat (a - s) = Suc (unat (a - (s + 1)))"
proof -
  assume "a \<noteq> s"
  then have ne: "a - s \<noteq> 0" by simp
  have "unat (a - s - 1) = unat (a - s) - 1" using ne by (rule unat_minus_one)
  moreover have "0 < unat (a - s)" using ne by (simp add: unat_gt_0)
  ultimately show ?thesis by (simp add: diff_diff_eq)
qed

lemma offset_less_Suc:
  fixes a s :: "32 word"
  assumes "n < 2 ^ 32"
  shows "unat (a - s) < Suc n \<longleftrightarrow> a = s \<or> unat (a - (s + 1)) < n"
proof (cases "a = s")
  case False
  then show ?thesis by (simp add: offset_Suc)
qed simp

lemma offset_self: "n < 2 ^ 32 \<Longrightarrow> \<not> unat (s - (s + 1) :: 32 word) < n"
  by (simp add: unsigned_minus_1_eq_mask mask_eq_exp_minus_1)

lemma unat_of_nat32: "n < 2 ^ 32 \<Longrightarrow> unat (of_nat n :: 32 word) = n"
  by (simp add: unat_of_nat)

section \<open>Filling and copying\<close>

lemma memset_loop_spec:
  "n \<le> 2 ^ 32 \<Longrightarrow> memset_loop n m s c = (\<lambda>a. if unat (a - s) < n then c else m a)"
proof (induction n arbitrary: m s)
  case (Suc n)
  then show ?case
    using offset_less_Suc [of n] offset_self [of n s] by (auto simp: fun_eq_iff)
qed simp

definition copy_mem :: "mem \<Rightarrow> ulong \<Rightarrow> ulong \<Rightarrow> nat \<Rightarrow> mem" where
  "copy_mem m dest src n = (\<lambda>a. if unat (a - dest) < n then m (src + (a - dest)) else m a)"

lemma memcpy_loop_spec:
  "n \<le> 2 ^ 32 \<Longrightarrow> dest = src \<or> n \<le> unat (dest - src) \<Longrightarrow>
   memcpy_loop n m dest src = copy_mem m dest src n"
proof (induction n arbitrary: m dest src)
  case 0
  then show ?case by (simp add: copy_mem_def)
next
  case (Suc n)
  let ?m = "m(dest := m src)"
  have "dest + 1 = src + 1 \<or> n \<le> unat ((dest + 1) - (src + 1))" using Suc.prems by auto
  with Suc have "memcpy_loop (Suc n) m dest src = copy_mem ?m (dest + 1) (src + 1) n" by simp
  also have "\<dots> = copy_mem m dest src (Suc n)"
  proof
    fix a
    have eq: "src + 1 + (a - (dest + 1)) = src + (a - dest)" by simp
    show "copy_mem ?m (dest + 1) (src + 1) n a = copy_mem m dest src (Suc n) a"
    proof (cases "a = dest")
      case True
      with Suc.prems offset_self [of n dest] show ?thesis by (simp add: copy_mem_def)
    next
      case False
      have "?m (src + (a - dest)) = m (src + (a - dest))" if "unat (a - (dest + 1)) < n"
      proof (cases "src + (a - dest) = dest")
        case True
        then have "a - dest = dest - src" by (simp add: algebra_simps)
        with that offset_Suc [OF False] Suc.prems(2) have "dest = src" by auto
        with True show ?thesis by simp
      qed simp
      with False Suc.prems(1) offset_less_Suc [of n a dest] show ?thesis
        by (simp add: copy_mem_def eq)
    qed
  qed
  finally show ?case .
qed

lemma memmove_down_loop_spec:
  "n < 2 ^ 32 \<Longrightarrow> tmp = s \<or> n \<le> unat (s - tmp) \<Longrightarrow>
   memmove_down_loop n m tmp s = (\<lambda>a. if 0 < unat (tmp - a) \<and> unat (tmp - a) \<le> n then m (s - (tmp - a)) else m a)"
proof (induction n arbitrary: m tmp s)
  case (Suc n)
  let ?m = "m(tmp - 1 := m (s - 1))"
  have "tmp - 1 = s - 1 \<or> n \<le> unat ((s - 1) - (tmp - 1))" using Suc.prems by auto
  with Suc have IH: "memmove_down_loop (Suc n) m tmp s =
      (\<lambda>a. if 0 < unat (tmp - 1 - a) \<and> unat (tmp - 1 - a) \<le> n then ?m (s - 1 - (tmp - 1 - a)) else ?m a)" by simp
  show ?case unfolding IH
  proof
    fix a
    have sh: "s - 1 - (tmp - 1 - a) = s - (tmp - a)" by simp
    show "(if 0 < unat (tmp - 1 - a) \<and> unat (tmp - 1 - a) \<le> n then ?m (s - 1 - (tmp - 1 - a)) else ?m a) =
      (if 0 < unat (tmp - a) \<and> unat (tmp - a) \<le> Suc n then m (s - (tmp - a)) else m a)"
    proof (cases "a = tmp")
      case True
      with Suc.prems(1) show ?thesis by (simp add: unsigned_minus_1_eq_mask mask_eq_exp_minus_1)
    next
      case False
      then have d: "unat (tmp - a) = Suc (unat (tmp - 1 - a))"
        using offset_Suc [of tmp a] by (simp add: algebra_simps)
      show ?thesis
      proof (cases "a = tmp - 1")
        case True
        then show ?thesis by simp
      next
        case ne: False
        then have pos: "0 < unat (tmp - 1 - a)" by (simp add: unat_gt_0)
        have other: "?m a = m a" using ne by simp
        have upd: "?m (s - (tmp - a)) = m (s - (tmp - a))" if "unat (tmp - 1 - a) \<le> n"
        proof (cases "s - (tmp - a) = tmp - 1")
          case True
          then have "s - tmp = tmp - 1 - a" by (simp add: algebra_simps)
          with that pos Suc.prems(2) show ?thesis by auto
        qed simp
        show ?thesis unfolding sh d other using upd pos by (simp del: fun_upd_apply)
      qed
    qed
  qed
qed (auto simp: fun_eq_iff)

lemma memmove_spec:
  assumes "unat dest + unat count \<le> 2 ^ 32" "unat src + unat count \<le> 2 ^ 32"
  shows "memmove m dest src count = (dest, copy_mem m dest src (unat count))"
proof (cases "dest \<le> src")
  case True
  have "dest = src \<or> unat count \<le> unat (dest - src)"
  proof (cases "dest = src")
    case False
    with True have "unat dest < unat src" by (simp add: word_le_nat_alt order_less_le word_unat_eq_iff)
    then have "unat (dest - src) = 2 ^ 32 + unat dest - unat src"
      by (subst unat_sub_if_size) (simp add: word_size)
    then have "unat count \<le> unat (dest - src)" using assms by linarith
    then show ?thesis ..
  qed simp
  with True memcpy_loop_spec [of "unat count" dest src m] unat_lt32 [of count] show ?thesis
    by (simp add: memmove_def)
next
  case False
  then have lt: "unat src < unat dest" by (simp add: word_le_nat_alt)
  then have "unat (src - dest) = 2 ^ 32 + unat src - unat dest"
    by (subst unat_sub_if_size) (simp add: word_size)
  then have "unat count \<le> unat (src + count - (dest + count))" using assms lt by simp
  have shift: "dest + count - a = count - (a - dest)" "src + count - (count - (a - dest)) = src + (a - dest)" for a
    by simp_all
  from memmove_down_loop_spec [OF unat_lt32 disjI2 [OF \<open>unat count \<le> unat (src + count - (dest + count))\<close>], of m]
  have "memmove_down_loop (unat count) m (dest + count) (src + count) =
    (\<lambda>a. if 0 < unat (count - (a - dest)) \<and> unat (count - (a - dest)) \<le> unat count
         then m (src + (a - dest)) else m a)" by (simp only: shift)
  also have "\<dots> = copy_mem m dest src (unat count)"
  proof
    fix a
    have "0 < unat (count - k) \<and> unat (count - k) \<le> unat count \<longleftrightarrow> unat k < unat count" for k :: ulong
      using unat_lt32 [of k] unat_lt32 [of count] by (subst (1 2) unat_sub_if_size) (auto simp: word_size)
    then show "(if 0 < unat (count - (a - dest)) \<and> unat (count - (a - dest)) \<le> unat count
         then m (src + (a - dest)) else m a) = copy_mem m dest src (unat count) a"
      by (simp add: copy_mem_def)
  qed
  finally show ?thesis using False by (simp add: memmove_def)
qed

section \<open>Terminated strings\<close>

definition cstr :: "mem \<Rightarrow> ulong \<Rightarrow> nat \<Rightarrow> bool" where
  "cstr m s n \<longleftrightarrow> n < 2 ^ 32 \<and> m (s + of_nat n) = 0 \<and> (\<forall>i<n. m (s + of_nat i) \<noteq> 0)"

definition bytes :: "mem \<Rightarrow> ulong \<Rightarrow> nat \<Rightarrow> u8 list" where
  "bytes m s n = map (\<lambda>i. m (s + of_nat i)) [0..<n]"

lemma bytes_Suc: "bytes m s (Suc n) = m s # bytes m (s + 1) n"
  by (simp add: bytes_def map_upt_Suc ac_simps del: upt_Suc)

lemma bytes_0 [simp]: "bytes m s 0 = []"
  by (simp add: bytes_def)

lemma cstr_Suc: "cstr m s (Suc n) \<Longrightarrow> m s \<noteq> 0 \<and> cstr m (s + 1) n"
proof -
  assume c: "cstr m s (Suc n)"
  then have "m s \<noteq> 0" by (auto simp: cstr_def dest: spec [of _ 0])
  moreover have "m (s + 1 + of_nat i) \<noteq> 0" if "i < n" for i
    using c that unfolding cstr_def by (metis Suc_less_eq add.assoc of_nat_Suc)
  ultimately show ?thesis using c by (simp add: cstr_def ac_simps)
qed

lemma cstr_0: "cstr m s 0 \<Longrightarrow> m s = 0"
  by (simp add: cstr_def)

lemma strlen_loop_cstr: "cstr m s n \<Longrightarrow> strlen_loop m s = Some (s + of_nat n)"
proof (induction n arbitrary: s)
  case 0
  then show ?case by (subst strlen_loop.simps) (simp add: cstr_0)
next
  case (Suc n)
  with cstr_Suc [OF Suc.prems] show ?case by (subst strlen_loop.simps) (simp add: ac_simps)
qed

lemma strlen_cstr: "cstr m s n \<Longrightarrow> strlen m s = Some (of_nat n)"
  by (simp add: strlen_def strlen_loop_cstr)

text \<open>A terminator anywhere in memory ends the scan.\<close>

lemma cstr_ex:
  assumes "m a = 0"
  shows "\<exists>n. cstr m s n"
proof -
  let ?P = "\<lambda>n. m (s + of_nat n) = 0"
  have "?P (unat (a - s))" using assms by simp
  then have "?P (LEAST n. ?P n)" "(LEAST n. ?P n) \<le> unat (a - s)" by (rule LeastI, rule Least_le)
  moreover have "unat (a - s) < 2 ^ 32" by (rule unat_lt32)
  ultimately show ?thesis
    using not_less_Least by (fastforce simp: cstr_def intro!: exI [of _ "LEAST n. ?P n"])
qed

section \<open>Comparison\<close>

fun compare_bytes :: "u8 list \<Rightarrow> u8 list \<Rightarrow> int" where
  "compare_bytes [] [] = 0"
| "compare_bytes [] (y # ys) = - 1"
| "compare_bytes (x # xs) [] = 1"
| "compare_bytes (x # xs) (y # ys) = (if x = y then compare_bytes xs ys else if x < y then - 1 else 1)"

lemma compare_bytes_0: "compare_bytes xs ys = 0 \<longleftrightarrow> xs = ys"
  by (induction xs ys rule: compare_bytes.induct) auto

lemma compare_bytes_anti: "compare_bytes ys xs = - compare_bytes xs ys"
  by (induction xs ys rule: compare_bytes.induct) auto

lemma compare_bytes_trans:
  "compare_bytes xs ys = - 1 \<Longrightarrow> compare_bytes ys zs = - 1 \<Longrightarrow> compare_bytes xs zs = - 1"
proof (induction xs ys arbitrary: zs rule: compare_bytes.induct)
  case (2 y ys)
  then show ?case by (cases zs) auto
next
  case (4 x xs y ys)
  then show ?case by (cases zs) (auto split: if_splits)
qed auto

lemma strcmp_cstr:
  "cstr m s n \<Longrightarrow> cstr m t k \<Longrightarrow> strcmp m s t = Some (compare_bytes (bytes m s n) (bytes m t k))"
proof (induction n arbitrary: s t k)
  case 0
  then have "m s = 0" by (simp add: cstr_0)
  moreover have "k = 0 \<Longrightarrow> m t = 0" "k \<noteq> 0 \<Longrightarrow> m t \<noteq> 0"
    using 0(2) cstr_0 cstr_Suc by (metis, metis not0_implies_Suc)
  ultimately show ?case
    by (cases k; subst strcmp.simps) (auto simp: bytes_Suc Let_def word_gt_0)
next
  case (Suc n)
  note s = cstr_Suc [OF Suc.prems(1)]
  show ?case
  proof (cases k)
    case 0
    with s Suc.prems(2) show ?thesis by (subst strcmp.simps) (simp add: bytes_Suc cstr_0)
  next
    case (Suc j)
    with Suc.prems(2) have t: "m t \<noteq> 0" "cstr m (t + 1) j" using cstr_Suc by auto
    with s Suc Suc.IH [of "s + 1" "t + 1" j] show ?thesis by (subst strcmp.simps) (auto simp: bytes_Suc Let_def)
  qed
qed

lemma byte_diff_0 [simp]: "byte_diff a b = 0 \<longleftrightarrow> a = b"
  by (simp add: byte_diff_def word_uint_eq_iff)

lemma memcmp_loop_0: "memcmp_loop m n s t = 0 \<longleftrightarrow> bytes m s n = bytes m t n"
  by (induction n arbitrary: s t) (auto simp: bytes_Suc Let_def)

section \<open>Bounded copy\<close>

lemma strlcpy_spec:
  assumes len: "cstr m src n" and sz: "sz \<noteq> 0"
    and apart: "unat sz \<le> unat (dest - src)"
  shows "\<exists>m'. strlcpy m dest src sz = Some (of_nat n, m') \<and>
    cstr m' dest (min n (unat sz - 1)) \<and>
    bytes m' dest (min n (unat sz - 1)) = bytes m src (min n (unat sz - 1)) \<and>
    (\<forall>a. unat sz \<le> unat (a - dest) \<longrightarrow> m' a = m a)"
proof -
  have n: "n < 2 ^ 32" using len by (simp add: cstr_def)
  let ?k = "min n (unat sz - 1)"
  have pos: "0 < unat sz" using sz by (simp add: unat_gt_0)
  then have "(if of_nat n \<ge> sz then sz - 1 else of_nat n) = (of_nat ?k :: ulong)"
    using n sz by (auto simp: word_le_nat_alt unat_of_nat32 min_def unat_minus_one word_unat_eq_iff)
  moreover have k: "unat (of_nat ?k :: ulong) = ?k" using n by (intro unat_of_nat32) simp
  moreover have "memcpy_loop ?k m dest src = copy_mem m dest src ?k"
    using apart unat_lt32 [of sz] pos by (intro memcpy_loop_spec) auto
  ultimately have res: "strlcpy m dest src sz = Some (of_nat n, (copy_mem m dest src ?k)(dest + of_nat ?k := 0))"
    using sz strlen_cstr [OF len] by (simp add: strlcpy_def memcpy_def Let_def)
  let ?m = "(copy_mem m dest src ?k)(dest + of_nat ?k := 0)"
  have at: "?m (dest + of_nat i) = m (src + of_nat i)" if "i < ?k" for i
  proof -
    have "unat (of_nat i :: ulong) = i" using that n by (intro unat_of_nat32) simp
    moreover from this k that have "(of_nat i :: ulong) \<noteq> of_nat ?k" by (metis less_irrefl)
    ultimately show ?thesis using that by (simp add: copy_mem_def)
  qed
  have "cstr ?m dest ?k" using at len n by (auto simp: cstr_def)
  moreover have "bytes ?m dest ?k = bytes m src ?k" using at by (simp add: bytes_def del: fun_upd_apply)
  moreover have "?m a = m a" if "unat sz \<le> unat (a - dest)" for a
  proof -
    have "unat (a - dest) \<noteq> ?k" "\<not> unat (a - dest) < ?k" using that pos by auto
    then show ?thesis using k by (auto simp: copy_mem_def)
  qed
  ultimately show ?thesis using res by blast
qed

section \<open>Searching\<close>

definition match_at :: "mem \<Rightarrow> ulong \<Rightarrow> ulong \<Rightarrow> nat \<Rightarrow> nat \<Rightarrow> bool" where
  "match_at m s1 s2 n i \<longleftrightarrow> bytes m (s1 + of_nat i) n = bytes m s2 n"

lemma match_at_Suc: "match_at m s1 s2 n (Suc i) = match_at m (s1 + 1) s2 n i"
  by (simp add: match_at_def ac_simps)

lemma strstr_loop_spec:
  "l2 \<noteq> 0 \<Longrightarrow>
    (\<exists>i. i + unat l2 \<le> l1 \<and> match_at m s1 s2 (unat l2) i \<and> (\<forall>j<i. \<not> match_at m s1 s2 (unat l2) j) \<and>
         strstr_loop m s1 s2 l1 l2 = s1 + of_nat i) \<or>
    (\<forall>i. i + unat l2 \<le> l1 \<longrightarrow> \<not> match_at m s1 s2 (unat l2) i) \<and> strstr_loop m s1 s2 l1 l2 = 0"
proof (induction m s1 s2 l1 l2 rule: strstr_loop.induct)
  case (1 m s1 s2 l1 l2)
  let ?M = "match_at m s1 s2 (unat l2)"
  have m0: "memcmp m s1 s2 l2 = 0 \<longleftrightarrow> ?M 0" by (simp add: memcmp_def memcmp_loop_0 match_at_def)
  have pos: "0 < unat l2" using 1 by (simp add: unat_gt_0)
  consider (short) "l1 < unat l2" | (hit) "unat l2 \<le> l1" "?M 0" | (step) "unat l2 \<le> l1" "\<not> ?M 0" by linarith
  then show ?case
  proof cases
    case short
    then show ?thesis by (subst (1 2) strstr_loop.simps) auto
  next
    case hit
    with m0 "1.prems" show ?thesis by (intro disjI1 exI [of _ 0]) (simp add: strstr_loop.simps)
  next
    case step
    have eq: "strstr_loop m s1 s2 l1 l2 = strstr_loop m (s1 + 1) s2 (l1 - 1) l2"
      using step m0 "1.prems" by (subst strstr_loop.simps) simp
    from "1.IH" step m0 "1.prems" have IH:
      "(\<exists>i. i + unat l2 \<le> l1 - 1 \<and> ?M (Suc i) \<and> (\<forall>j<i. \<not> ?M (Suc j)) \<and>
         strstr_loop m (s1 + 1) s2 (l1 - 1) l2 = s1 + 1 + of_nat i) \<or>
       (\<forall>i. i + unat l2 \<le> l1 - 1 \<longrightarrow> \<not> ?M (Suc i)) \<and> strstr_loop m (s1 + 1) s2 (l1 - 1) l2 = 0"
      by (simp add: match_at_Suc)
    then show ?thesis unfolding eq
    proof (elim disjE exE conjE)
      fix i assume i: "i + unat l2 \<le> l1 - 1" "?M (Suc i)" "\<forall>j<i. \<not> ?M (Suc j)"
        "strstr_loop m (s1 + 1) s2 (l1 - 1) l2 = s1 + 1 + of_nat i"
      have "\<forall>j<Suc i. \<not> ?M j" using i(3) step(2) by (auto simp: less_Suc_eq_0_disj)
      with i pos show "(\<exists>i. i + unat l2 \<le> l1 \<and> ?M i \<and> (\<forall>j<i. \<not> ?M j) \<and>
           strstr_loop m (s1 + 1) s2 (l1 - 1) l2 = s1 + of_nat i) \<or>
         (\<forall>i. i + unat l2 \<le> l1 \<longrightarrow> \<not> ?M i) \<and> strstr_loop m (s1 + 1) s2 (l1 - 1) l2 = 0"
        by (intro disjI1 exI [of _ "Suc i"]) (simp add: ac_simps)
    next
      assume n: "\<forall>i. i + unat l2 \<le> l1 - 1 \<longrightarrow> \<not> ?M (Suc i)" "strstr_loop m (s1 + 1) s2 (l1 - 1) l2 = 0"
      have "\<not> ?M i" if "i + unat l2 \<le> l1" for i using that n(1) step(2) by (cases i) auto
      with n(2) show "(\<exists>i. i + unat l2 \<le> l1 \<and> ?M i \<and> (\<forall>j<i. \<not> ?M j) \<and>
           strstr_loop m (s1 + 1) s2 (l1 - 1) l2 = s1 + of_nat i) \<or>
         (\<forall>i. i + unat l2 \<le> l1 \<longrightarrow> \<not> ?M i) \<and> strstr_loop m (s1 + 1) s2 (l1 - 1) l2 = 0" by blast
    qed
  qed
qed

section \<open>Termination\<close>

text \<open>The scan for a terminator returns only through one.\<close>

lemma strlen_loop_terminator:
  assumes "strlen_loop m s = Some e"
  shows "m e = 0"
proof (rule strlen_loop.raw_induct [of "\<lambda>m s e. m e = 0", OF _ assms])
  fix rec and m :: mem and sc r
  assume IH: "\<And>m sc y. rec m sc = Some y \<Longrightarrow> m y = 0"
    and eq: "(if m sc \<noteq> 0 then rec m (sc + 1) else Some sc) = Some r"
  show "m r = 0"
  proof (cases "m sc = 0")
    case True
    with eq show ?thesis by simp
  next
    case False
    with eq have "rec m (sc + 1) = Some r" by simp
    then show ?thesis by (rule IH)
  qed
qed

lemma memscan_loop_negative: "c < 0 \<or> 255 < c \<Longrightarrow> memscan_loop m n p c = p + of_nat n"
proof (induction n arbitrary: p)
  case (Suc n)
  have "uint (m p) \<noteq> c" using uint_byte [of "m p"] Suc.prems by auto
  with Suc show ?case by (simp add: ac_simps)
qed simp

definition hello :: mem where
  "hello = (\<lambda>a. if a = 0x100 then 104 else if a = 0x101 then 105 else 0)"

lemma cstr_hello: "cstr hello 0x100 2" "cstr hello 0x101 1"
proof -
  have two: "i < 2 \<longleftrightarrow> i = 0 \<or> i = 1" for i :: nat by auto
  show "cstr hello 0x100 2" "cstr hello 0x101 1" by (auto simp: cstr_def hello_def two)
qed

lemma bytes_hello: "bytes hello 0x100 2 = [104, 105]" "bytes hello 0x101 1 = [105]" "bytes hello 0x100 1 = [104]"
  by (simp_all add: bytes_def hello_def upt_rec)

lemmas bytes_hello' = bytes_hello [unfolded One_nat_def]

section \<open>Properties\<close>

text \<open>
  C30: \<^verbatim>\<open>memmove\<close> makes every byte of the destination equal to the old byte of the source, whatever the
  overlap, changes nothing else and returns the destination, for areas that do not wrap around
  the end of the address space.
\<close>

theorem memmove_correct:
  assumes "unat dest + unat count \<le> 2 ^ 32" and "unat src + unat count \<le> 2 ^ 32"
  shows "\<exists>m'. memmove m dest src count = (dest, m') \<and>
    (\<forall>a. m' a = (if unat (a - dest) < unat count then m (src + (a - dest)) else m a))"
  using memmove_spec [OF assms] by (simp add: copy_mem_def)

theorem memmove_correct_witness:
  "\<exists>m'. memmove hello 0x101 0x100 2 = (0x101, m') \<and> m' 0x101 = 104 \<and> m' 0x102 = 105 \<and> m' 0x103 = 0"
proof -
  obtain m' where "memmove hello 0x101 0x100 2 = (0x101, m')"
    "\<forall>a. m' a = (if unat (a - 0x101) < unat (2 :: ulong) then hello (0x100 + (a - 0x101)) else hello a)"
    using memmove_correct [of "0x101" 2 "0x100" hello] by auto
  then show ?thesis by (intro exI [of _ m']) (simp add: hello_def)
qed

text \<open>
  C31: \<^verbatim>\<open>strlcpy\<close> into a buffer of \<^verbatim>\<open>size\<close> bytes that does not overlap the source returns the length
  of the source, leaves in the buffer a terminated string that is the longest prefix of the source
  that fits, and writes no byte outside the buffer.
\<close>

theorem strlcpy_correct:
  assumes "cstr m src n" and "sz \<noteq> 0" and "unat sz \<le> unat (dest - src)"
  shows "\<exists>m'. strlcpy m dest src sz = Some (of_nat n, m') \<and>
    cstr m' dest (min n (unat sz - 1)) \<and>
    bytes m' dest (min n (unat sz - 1)) = bytes m src (min n (unat sz - 1)) \<and>
    (\<forall>a. unat sz \<le> unat (a - dest) \<longrightarrow> m' a = m a)"
  using assms by (rule strlcpy_spec)

theorem strlcpy_correct_witness:
  "\<exists>m'. strlcpy hello 0x200 0x100 2 = Some (2, m') \<and> cstr m' 0x200 1 \<and> bytes m' 0x200 1 = [104]"
proof -
  obtain m' where "strlcpy hello 0x200 0x100 2 = Some (2, m')" "cstr m' 0x200 1" "bytes m' 0x200 1 = bytes hello 0x100 1"
    using strlcpy_correct [OF cstr_hello(1), of 2 "0x200"] by auto
  then show ?thesis by (simp add: bytes_hello')
qed

text \<open>
  \<^verbatim>\<open>strcmp\<close> of two terminated strings returns; its result is that of the lexicographic comparison
  of their bytes as unsigned values, 0 exactly when the strings are equal.
\<close>

theorem strcmp_correct:
  assumes "cstr m s n" and "cstr m t k"
  shows "strcmp m s t = Some (compare_bytes (bytes m s n) (bytes m t k)) \<and>
    (strcmp m s t = Some 0 \<longleftrightarrow> bytes m s n = bytes m t k) \<and>
    strcmp m t s = map_option uminus (strcmp m s t)"
  using strcmp_cstr [OF assms] strcmp_cstr [OF assms(2,1)] compare_bytes_0 [of "bytes m s n" "bytes m t k"]
    compare_bytes_anti [of "bytes m t k" "bytes m s n"] by simp

theorem strcmp_correct_witness: "strcmp hello 0x100 0x101 = Some (- 1)"
  using strcmp_correct [OF cstr_hello] by (simp add: bytes_hello')

text \<open>
  \<^verbatim>\<open>strstr\<close> of two terminated strings returns the address of the first occurrence of the second
  in the first, the first string when the second is empty, and \<^verbatim>\<open>NULL\<close> when there is none.
\<close>

theorem strstr_correct:
  assumes "cstr m s1 n" and "cstr m s2 k"
  shows "k = 0 \<and> strstr m s1 s2 = Some s1 \<or>
    (\<exists>i. i + k \<le> n \<and> match_at m s1 s2 k i \<and> (\<forall>j<i. \<not> match_at m s1 s2 k j) \<and>
         strstr m s1 s2 = Some (s1 + of_nat i)) \<or>
    (\<forall>i. i + k \<le> n \<longrightarrow> \<not> match_at m s1 s2 k i) \<and> strstr m s1 s2 = Some 0"
proof (cases "k = 0")
  case True
  then show ?thesis using strlen_cstr [OF assms(2)] by (simp add: strstr_def)
next
  case False
  have lt: "n < 2 ^ 32" "k < 2 ^ 32" using assms by (auto simp: cstr_def)
  have k: "unat (of_nat k :: ulong) = k" "unat (of_nat n :: ulong) = n" using lt by (simp_all add: unat_of_nat32)
  have k0: "(of_nat k :: ulong) \<noteq> 0" using False k(1) by (metis unat_0)
  have eq: "strstr m s1 s2 = Some (strstr_loop m s1 s2 n (of_nat k))"
    using strlen_cstr [OF assms(1)] strlen_cstr [OF assms(2)] k k0 by (simp add: strstr_def)
  from strstr_loop_spec [OF k0, of n m s1 s2] show ?thesis unfolding eq k(1) by (simp only: option.inject) blast
qed

theorem strstr_correct_witness: "strstr hello 0x100 0x101 = Some 0x101"
proof -
  have m: "match_at hello 0x100 0x101 1 1" "\<not> match_at hello 0x100 0x101 1 0"
    by (simp_all add: match_at_def bytes_def hello_def)
  have "i = 1" if "i + 1 \<le> 2" "match_at hello 0x100 0x101 1 i" for i using that m(2) by (cases i) auto
  with strstr_correct [OF cstr_hello] m(1) show ?thesis by force
qed

text \<open>
  \<^verbatim>\<open>strlen\<close> returns exactly when some byte of memory is a terminator, and then returns the
  distance to the first one.
\<close>

theorem strlen_returns:
  "(strlen m s \<noteq> None \<longleftrightarrow> (\<exists>a. m a = 0)) \<and> (\<forall>n. strlen m s = Some n \<longleftrightarrow> cstr m s (unat n))"
proof -
  have some: "\<exists>a. m a = 0" if "strlen m s = Some n" for n
    using that strlen_loop_terminator by (auto simp: strlen_def)
  have eq: "strlen m s = Some n \<longleftrightarrow> cstr m s (unat n)" for n
  proof
    assume n: "strlen m s = Some n"
    with some cstr_ex obtain k where k: "cstr m s k" by blast
    then have "n = of_nat k" "k < 2 ^ 32" using n strlen_cstr [OF k] by (auto simp: cstr_def)
    with k show "cstr m s (unat n)" by (simp add: unat_of_nat32)
  next
    assume "cstr m s (unat n)"
    from strlen_cstr [OF this] show "strlen m s = Some n" by simp
  qed
  have "strlen m s \<noteq> None" if z: "m a = 0" for a
  proof -
    obtain k where "cstr m s k" using cstr_ex [of m a s] z by blast
    from strlen_cstr [OF this] show ?thesis by simp
  qed
  with some eq show ?thesis by auto
qed

text \<open>
  \<^verbatim>\<open>memscan\<close> compares a byte with its whole \<^verbatim>\<open>int\<close> argument: a search for -1 passes over a byte
  0xff, which \<^verbatim>\<open>memchr\<close> finds.
\<close>

theorem memscan_whole_int:
  "memscan (\<lambda>_. 0xff) addr (- 1) sz = addr + sz \<and>
   memchr (\<lambda>_. 0xff) addr (- 1) sz = (if sz = 0 then 0 else addr)"
proof (cases "sz = 0")
  case False
  then have "unat sz \<noteq> 0" by (metis unat_eq_zero)
  then obtain n where "unat sz = Suc n" by (cases "unat sz") auto
  then have "memchr (\<lambda>_. 0xff) addr (- 1) sz = addr" by (simp add: memchr_def to_char_def)
  with False show ?thesis by (simp add: memscan_def memscan_loop_negative)
qed (simp add: memchr_def memscan_def)

end
