(* ===== verification/Memblock_Alloc.thy ===== *)
theory Memblock_Alloc
  imports Memblock_Search Memblock_Store String_Spec
begin

text \<open>
  Boot-time allocation on top of the search: \<^verbatim>\<open>memblock_virt_alloc_internal\<close> and its callers in
  \<^verbatim>\<open>mm/memblock.c\<close>, and the \<^verbatim>\<open>bootmem\<close> interface of \<^verbatim>\<open>mm/bootmem_memblk.c\<close>.  The state is the
  \<^verbatim>\<open>memblock\<close> structure and the byte memory the allocated block is cleared in.
\<close>

section \<open>Shared pieces\<close>

datatype SLAB_STATES = SLAB_DOWN | SLAB_PARTIAL | SLAB_PARTIAL_NODE | SLAB_UP | SLAB_FULL

definition slab_is_available :: "SLAB_STATES \<Rightarrow> bool" where
  "slab_is_available slab_state \<longleftrightarrow> slab_state = SLAB_UP \<or> slab_state = SLAB_FULL"

definition L1_CACHE_BYTES :: phys_addr_t where "L1_CACHE_BYTES = 64"

text \<open>A pointer returned by an allocation, with the state after it; 0 is \<^verbatim>\<open>NULL\<close>.\<close>

type_synonym alloc_result = "(ulong \<times> memblock \<times> mem) kres"

section \<open>memblock.c\<close>

text \<open>The two searches after the label \<^verbatim>\<open>again\<close>.\<close>

definition virt_alloc_search ::
  "phys_addr_t \<Rightarrow> memblock \<Rightarrow> phys_addr_t \<Rightarrow> phys_addr_t \<Rightarrow> phys_addr_t \<Rightarrow> phys_addr_t \<Rightarrow> int \<Rightarrow> ulong
     \<Rightarrow> phys_addr_t kres" where
  "virt_alloc_search kernel_end mb sz align min_addr max_addr nid flags =
     kbind (memblock_find_in_range_node kernel_end mb sz align min_addr max_addr nid flags) (\<lambda>alloc.
       if alloc \<noteq> 0 then Inr alloc
       else if nid \<noteq> NUMA_NO_NODE then
         memblock_find_in_range_node kernel_end mb sz align min_addr max_addr NUMA_NO_NODE flags
       else Inr 0)"

definition memblock_virt_alloc_internal ::
  "phys_addr_t \<Rightarrow> SLAB_STATES \<Rightarrow> phys_addr_t \<Rightarrow> phys_addr_t \<Rightarrow> phys_addr_t \<Rightarrow> phys_addr_t \<Rightarrow> int
     \<Rightarrow> memblock \<Rightarrow> mem \<Rightarrow> alloc_result" where
  "memblock_virt_alloc_internal kernel_end slab sz align0 min_addr max_addr0 nid0 mb m =
     (let flags = choose_memblock_flags;
          nid = (if nid0 = MAX_NR_NODES then NUMA_NO_NODE else nid0) in
      if slab_is_available slab then Inl Panic
      else
        (let align = (if align0 = 0 then L1_CACHE_BYTES else align0);
             max_addr = (if max_addr0 > current_limit mb then current_limit mb else max_addr0) in
         kbind (virt_alloc_search kernel_end mb sz align min_addr max_addr nid flags) (\<lambda>alloc.
         kbind (if alloc = 0 \<and> min_addr \<noteq> 0
                then virt_alloc_search kernel_end mb sz align 0 max_addr nid flags
                else Inr alloc) (\<lambda>alloc.
           if alloc = 0 then Inr (0, mb, m)
           else kbind (memblock_reserve alloc sz mb) (\<lambda>(_, mb).
                  let ptr = phys_to_virt alloc in
                  Inr (ptr, mb, snd (memset m ptr 0 sz)))))))"

definition memblock_virt_alloc_try_nid_nopanic ::
  "phys_addr_t \<Rightarrow> SLAB_STATES \<Rightarrow> phys_addr_t \<Rightarrow> phys_addr_t \<Rightarrow> phys_addr_t \<Rightarrow> phys_addr_t \<Rightarrow> int
     \<Rightarrow> memblock \<Rightarrow> mem \<Rightarrow> alloc_result" where
  "memblock_virt_alloc_try_nid_nopanic kernel_end slab sz align min_addr max_addr nid mb m =
     memblock_virt_alloc_internal kernel_end slab sz align min_addr max_addr nid mb m"

definition memblock_virt_alloc_try_nid ::
  "phys_addr_t \<Rightarrow> SLAB_STATES \<Rightarrow> phys_addr_t \<Rightarrow> phys_addr_t \<Rightarrow> phys_addr_t \<Rightarrow> phys_addr_t \<Rightarrow> int
     \<Rightarrow> memblock \<Rightarrow> mem \<Rightarrow> alloc_result" where
  "memblock_virt_alloc_try_nid kernel_end slab sz align min_addr max_addr nid mb m =
     kbind (memblock_virt_alloc_internal kernel_end slab sz align min_addr max_addr nid mb m)
       (\<lambda>(ptr, mb, m). if ptr \<noteq> 0 then Inr (ptr, mb, m) else Inl Panic)"

definition memblock_virt_alloc_nopanic ::
  "phys_addr_t \<Rightarrow> SLAB_STATES \<Rightarrow> phys_addr_t \<Rightarrow> phys_addr_t \<Rightarrow> memblock \<Rightarrow> mem \<Rightarrow> alloc_result" where
  "memblock_virt_alloc_nopanic kernel_end slab sz align mb m =
     memblock_virt_alloc_try_nid_nopanic kernel_end slab sz align 0 0 NUMA_NO_NODE mb m"

definition memblock_virt_alloc_node_nopanic ::
  "phys_addr_t \<Rightarrow> SLAB_STATES \<Rightarrow> phys_addr_t \<Rightarrow> int \<Rightarrow> memblock \<Rightarrow> mem \<Rightarrow> alloc_result" where
  "memblock_virt_alloc_node_nopanic kernel_end slab sz nid mb m =
     memblock_virt_alloc_try_nid_nopanic kernel_end slab sz 0 0 0 nid mb m"

section \<open>bootmem\_memblk.c\<close>

definition free_bootmem_node :: "phys_addr_t \<Rightarrow> phys_addr_t \<Rightarrow> memblock \<Rightarrow> (int \<times> memblock) kres" where
  "free_bootmem_node physaddr sz mb = memblock_free physaddr sz mb"

definition free_bootmem :: "phys_addr_t \<Rightarrow> phys_addr_t \<Rightarrow> memblock \<Rightarrow> (int \<times> memblock) kres" where
  "free_bootmem physaddr sz mb = memblock_free physaddr sz mb"

text \<open>
  The \<^verbatim>\<open>u64\<close> arguments hold \<^verbatim>\<open>unsigned long\<close> values and are narrowed to \<^verbatim>\<open>phys_addr_t\<close> without loss.
\<close>

definition alloc_memory_core_early ::
  "phys_addr_t \<Rightarrow> int \<Rightarrow> ulong \<Rightarrow> ulong \<Rightarrow> ulong \<Rightarrow> ulong \<Rightarrow> memblock \<Rightarrow> mem \<Rightarrow> alloc_result" where
  "alloc_memory_core_early kernel_end nid sz align goal limit0 mb m =
     (let flags = choose_memblock_flags;
          limit = (if limit0 > current_limit mb then current_limit mb else limit0) in
      kbind (memblock_find_in_range_node kernel_end mb sz align goal limit nid flags) (\<lambda>addr.
      kbind (if addr = 0 \<and> flags AND MEMBLOCK_MIRROR \<noteq> 0
             then memblock_find_in_range_node kernel_end mb sz align goal limit nid
                    (flags AND NOT MEMBLOCK_MIRROR)
             else Inr addr) (\<lambda>addr.
        if addr = 0 then Inr (0, mb, m)
        else kbind (memblock_reserve addr sz mb) (\<lambda>(ret, mb).
               if ret \<noteq> 0 then Inr (0, mb, m)
               else (let ptr = phys_to_virt addr in Inr (ptr, mb, snd (memset m ptr 0 sz)))))))"

text \<open>Trying one allocation and, when it returns \<^verbatim>\<open>NULL\<close>, another on the state it left.\<close>

definition alloc_or_else ::
  "(memblock \<Rightarrow> mem \<Rightarrow> alloc_result) \<Rightarrow> (memblock \<Rightarrow> mem \<Rightarrow> alloc_result) \<Rightarrow> memblock \<Rightarrow> mem \<Rightarrow> alloc_result" where
  "alloc_or_else f g mb m =
     kbind (f mb m) (\<lambda>(ptr, mb, m). if ptr \<noteq> 0 then Inr (ptr, mb, m) else g mb m)"

definition alloc_fail :: "memblock \<Rightarrow> mem \<Rightarrow> alloc_result" where
  "alloc_fail mb m = Inr (0, mb, m)"

definition alloc_panic :: "memblock \<Rightarrow> mem \<Rightarrow> alloc_result" where
  "alloc_panic mb m = Inl Panic"

definition alloc_bootmem_nopanic3 ::
  "phys_addr_t \<Rightarrow> ulong \<Rightarrow> ulong \<Rightarrow> ulong \<Rightarrow> ulong \<Rightarrow> memblock \<Rightarrow> mem \<Rightarrow> alloc_result" where
  "alloc_bootmem_nopanic3 kernel_end sz align goal limit =
     alloc_or_else (alloc_memory_core_early kernel_end NUMA_NO_NODE sz align goal limit)
       (if goal \<noteq> 0
        then alloc_or_else (alloc_memory_core_early kernel_end NUMA_NO_NODE sz align 0 limit) alloc_fail
        else alloc_fail)"

definition alloc_bootmem_nopanic :: "phys_addr_t \<Rightarrow> ulong \<Rightarrow> ulong \<Rightarrow> ulong \<Rightarrow> memblock \<Rightarrow> mem \<Rightarrow> alloc_result" where
  "alloc_bootmem_nopanic kernel_end sz align goal =
     alloc_bootmem_nopanic3 kernel_end sz align goal (- 1)"

definition alloc_bootmem3 ::
  "phys_addr_t \<Rightarrow> ulong \<Rightarrow> ulong \<Rightarrow> ulong \<Rightarrow> ulong \<Rightarrow> memblock \<Rightarrow> mem \<Rightarrow> alloc_result" where
  "alloc_bootmem3 kernel_end sz align goal limit =
     alloc_or_else (alloc_bootmem_nopanic3 kernel_end sz align goal limit) alloc_panic"

definition alloc_bootmem :: "phys_addr_t \<Rightarrow> ulong \<Rightarrow> ulong \<Rightarrow> ulong \<Rightarrow> memblock \<Rightarrow> mem \<Rightarrow> alloc_result" where
  "alloc_bootmem kernel_end sz align goal = alloc_bootmem3 kernel_end sz align goal (- 1)"

definition alloc_bootmem_node_round ::
  "phys_addr_t \<Rightarrow> int \<Rightarrow> ulong \<Rightarrow> ulong \<Rightarrow> ulong \<Rightarrow> ulong \<Rightarrow> (memblock \<Rightarrow> mem \<Rightarrow> alloc_result)
     \<Rightarrow> memblock \<Rightarrow> mem \<Rightarrow> alloc_result" where
  "alloc_bootmem_node_round kernel_end node_id sz align goal limit other =
     alloc_or_else (alloc_memory_core_early kernel_end node_id sz align goal limit)
       (alloc_or_else (alloc_memory_core_early kernel_end NUMA_NO_NODE sz align goal limit) other)"

definition alloc_bootmem_node_nopanic3 ::
  "phys_addr_t \<Rightarrow> int \<Rightarrow> ulong \<Rightarrow> ulong \<Rightarrow> ulong \<Rightarrow> ulong \<Rightarrow> memblock \<Rightarrow> mem \<Rightarrow> alloc_result" where
  "alloc_bootmem_node_nopanic3 kernel_end node_id sz align goal limit =
     alloc_bootmem_node_round kernel_end node_id sz align goal limit
       (if goal \<noteq> 0 then alloc_bootmem_node_round kernel_end node_id sz align 0 limit alloc_fail
        else alloc_fail)"

definition alloc_bootmem_node_nopanic ::
  "phys_addr_t \<Rightarrow> SLAB_STATES \<Rightarrow> int \<Rightarrow> ulong \<Rightarrow> ulong \<Rightarrow> ulong \<Rightarrow> memblock \<Rightarrow> mem \<Rightarrow> alloc_result" where
  "alloc_bootmem_node_nopanic kernel_end slab node_id sz align goal mb m =
     (if slab_is_available slab then Inl BugOn
      else alloc_bootmem_node_nopanic3 kernel_end node_id sz align goal 0 mb m)"

definition alloc_bootmem_node3 ::
  "phys_addr_t \<Rightarrow> int \<Rightarrow> ulong \<Rightarrow> ulong \<Rightarrow> ulong \<Rightarrow> ulong \<Rightarrow> memblock \<Rightarrow> mem \<Rightarrow> alloc_result" where
  "alloc_bootmem_node3 kernel_end node_id sz align goal limit =
     alloc_or_else (alloc_bootmem_node_nopanic3 kernel_end node_id sz align goal limit) alloc_panic"

definition alloc_bootmem_node ::
  "phys_addr_t \<Rightarrow> SLAB_STATES \<Rightarrow> int \<Rightarrow> ulong \<Rightarrow> ulong \<Rightarrow> ulong \<Rightarrow> memblock \<Rightarrow> mem \<Rightarrow> alloc_result" where
  "alloc_bootmem_node kernel_end slab node_id sz align goal mb m =
     (if slab_is_available slab then Inl BugOn
      else alloc_bootmem_node3 kernel_end node_id sz align goal 0 mb m)"

section \<open>What an allocation grants\<close>

text \<open>
  The block was free memory, is aligned and below the limit, is reserved afterwards, and its bytes
  are 0; nothing else changes.
\<close>

definition granted :: "memblock \<Rightarrow> mem \<Rightarrow> ulong \<Rightarrow> nat \<Rightarrow> ulong \<Rightarrow> memblock \<Rightarrow> mem \<Rightarrow> bool" where
  "granted mb m sz k p mb' m' \<longleftrightarrow>
     (\<exists>a. p = phys_to_virt a \<and> free_block mb NUMA_NO_NODE MEMBLOCK_NONE (unat a) (unat sz) \<and>
        2 ^ k dvd unat a \<and> unat PAGE_SIZE \<le> unat a \<and> unat a + unat sz \<le> unat (current_limit mb) \<and>
        covered (mb_reserved mb') = covered (mb_reserved mb) \<union> {unat a..<unat a + unat sz} \<and>
        mb_memory mb' = mb_memory mb \<and> current_limit mb' = current_limit mb \<and>
        m' = (\<lambda>x. if unat (x - p) < unat sz then 0 else m x))"

definition array_full :: "memblock_type \<Rightarrow> bool" where
  "array_full t \<longleftrightarrow> mt_max t < 2 * nr_regions t + 1"

lemma mb_wf_small:
  assumes "mb_wf mb"
  shows "nr_regions (mb_memory mb) < 2 ^ 31" "nr_regions (mb_reserved mb) < 2 ^ 31"
  using assms by (auto simp: mb_wf_def shape_wf_def array_wf_def INIT_MEMBLOCK_REGIONS_def)

lemma reserve_law:
  assumes "mb_wf mb"
  shows "\<exists>ret mb'. memblock_reserve b n mb = Inr (ret, mb') \<and> mb_wf mb' \<and>
     (ret = 0 \<and> covered (mb_reserved mb') = covered (mb_reserved mb) \<union> {unat b..<range_end b n} \<and>
        mb_memory mb' = mb_memory mb \<and> current_limit mb' = current_limit mb
      \<or> ret \<noteq> 0 \<and> mb' = mb \<and> array_full (mb_reserved mb))"
proof -
  have "shape_wf (mb_reserved mb)" using assms by (simp add: mb_wf_def)
  from add_range_live [OF this, of b n MAX_NR_NODES 0] assms show ?thesis
    by (auto simp: memblock_reserve_def mb_wf_def array_full_def covered_def covered_fill ENOMEM_def)
qed

lemma free_block_any_node:
  "free_block mb nid fl c n \<Longrightarrow> free_block mb NUMA_NO_NODE fl c n"
  by (auto simp: free_block_def skip_region_def fix_nid_def NUMA_NO_NODE_def MAX_NR_NODES_def)

lemma free_block_top:
  assumes "mb_wf mb" "free_block mb nid fl c n"
  shows "c + n \<le> 2 ^ 32 - 1"
proof -
  obtain i where "i < nr_regions (mb_memory mb)" "c + n \<le> hi_at (mb_memory mb) i"
    using assms(2) by (auto simp: free_block_def)
  moreover have "shape_wf (mb_memory mb)" using assms(1) by (simp add: mb_wf_def)
  ultimately show ?thesis using shape_region(2) by (meson order_trans)
qed

text \<open>Reserving and clearing a block that the search has found.\<close>

lemma grant_found:
  assumes wf: "mb_wf mb" and a: "unat a \<in> search_set mb sz k start0 end0 nid MEMBLOCK_NONE"
    and lim: "unat (search_end mb start0 end0) \<le> unat (c_max (c_max start0 PAGE_SIZE) (current_limit mb))"
    and n: "0 < sz" and res: "memblock_reserve a sz mb = Inr (0, mb')"
  shows "mb_wf mb'" "granted mb m sz k (phys_to_virt a) mb' (snd (memset m (phys_to_virt a) 0 sz))"
proof -
  have fb: "free_block mb nid MEMBLOCK_NONE (unat a) (unat sz)" "unat PAGE_SIZE \<le> unat a"
    "unat a + unat sz \<le> unat (search_end mb start0 end0)" "2 ^ k dvd unat a" "unat start0 \<le> unat a"
    using a by (auto simp: search_set_def unat_c_max)
  note top = free_block_top [OF wf fb(1)]
  have n': "0 < unat sz" using n by (simp add: word_less_nat_alt)
  have lim': "unat a + unat sz \<le> unat (current_limit mb)"
    using fb(2,3,5) lim n' by (auto simp: unat_c_max)
  have r: "range_end a sz = unat a + unat sz" using top by (simp add: range_end_def)
  from reserve_law [OF wf, of a sz] res r have R: "mb_wf mb'"
    "covered (mb_reserved mb') = covered (mb_reserved mb) \<union> {unat a..<unat a + unat sz}"
    "mb_memory mb' = mb_memory mb" "current_limit mb' = current_limit mb" by auto
  show "mb_wf mb'" by (rule R)
  have "snd (memset m (phys_to_virt a) 0 sz) = (\<lambda>x. if unat (x - phys_to_virt a) < unat sz then 0 else m x)"
    using unat_lt32 [of sz] by (simp add: memset_def memset_loop_spec)
  with R fb lim' free_block_any_node [OF fb(1)]
  show "granted mb m sz k (phys_to_virt a) mb' (snd (memset m (phys_to_virt a) 0 sz))"
    unfolding granted_def by blast
qed

lemma granted_not_null:
  assumes "granted mb m sz k p mb' m'" "current_limit mb \<le> 0x40000000" "0 < sz"
  shows "p \<noteq> 0"
proof -
  from assms(1) obtain a where a: "p = phys_to_virt a" "unat a + unat sz \<le> unat (current_limit mb)"
    unfolding granted_def by blast
  have "unat (current_limit mb) \<le> 0x40000000" "0 < unat sz" using assms(2,3) by (simp_all add: word_le_nat_alt word_less_nat_alt)
  with a(2) have "unat a + unat PAGE_OFFSET < 2 ^ 32" "unat PAGE_OFFSET \<noteq> 0"
    by (simp_all add: PAGE_OFFSET_def)
  then have "unat p \<noteq> 0" using a(1) by (simp add: phys_to_virt_def unat_add_no_wrap)
  then show ?thesis by auto
qed

lemma search_end_limit:
  "unat (search_end mb start0 (if l > current_limit mb then current_limit mb else l))
     \<le> unat (c_max (c_max start0 PAGE_SIZE) (current_limit mb))"
  by (auto simp: search_end_def nat_word MEMBLOCK_ALLOC_ACCESSIBLE_def)

lemma best_ofD:
  "best_of S res \<Longrightarrow> \<exists>a. res = Inr a \<and> (if S = {} then a = 0 else unat a \<in> S)"
  unfolding best_of_def by (elim exE conjE) (rule exI, auto split: if_splits)

definition clip :: "memblock \<Rightarrow> ulong \<Rightarrow> ulong" where
  "clip mb l = (if l > current_limit mb then current_limit mb else l)"

text \<open>The outcome of an allocation that gives up when a search set is empty.\<close>

definition alloc_outcome ::
  "memblock \<Rightarrow> mem \<Rightarrow> ulong \<Rightarrow> nat \<Rightarrow> nat set \<Rightarrow> alloc_result \<Rightarrow> bool" where
  "alloc_outcome mb m sz k S res \<longleftrightarrow>
     (\<exists>p mb' m'. res = Inr (p, mb', m') \<and> mb_wf mb' \<and>
        (if p = 0 then mb' = mb \<and> m' = m \<and> (S = {} \<or> array_full (mb_reserved mb))
         else granted mb m sz k p mb' m'))"

lemma core_early_outcome:
  assumes wf: "mb_wf mb" and n: "0 < sz" and cl: "current_limit mb \<le> 0x40000000"
  shows "alloc_outcome mb m sz k (search_set mb sz k goal (clip mb limit) nid MEMBLOCK_NONE)
           (alloc_memory_core_early kernel_end nid sz (2 ^ k) goal limit mb m)"
proof -
  let ?S = "search_set mb sz k goal (clip mb limit) nid MEMBLOCK_NONE"
  have sh: "shape_wf (mb_memory mb)" "shape_wf (mb_reserved mb)" using wf by (simp_all add: mb_wf_def)
  from best_ofD [OF find_in_range_node_best [OF sh mb_wf_small [OF wf] n, of k goal "clip mb limit" nid MEMBLOCK_NONE kernel_end]]
  obtain a where a: "memblock_find_in_range_node kernel_end mb sz (2 ^ k) goal (clip mb limit) nid MEMBLOCK_NONE = Inr a"
    "if ?S = {} then a = 0 else unat a \<in> ?S" by blast
  have core: "alloc_memory_core_early kernel_end nid sz (2 ^ k) goal limit mb m =
     (if a = 0 then Inr (0, mb, m)
      else kbind (memblock_reserve a sz mb) (\<lambda>(ret, mb). if ret \<noteq> 0 then Inr (0, mb, m)
             else Inr (phys_to_virt a, mb, snd (memset m (phys_to_virt a) 0 sz))))"
    using a(1) by (simp add: alloc_memory_core_early_def Let_def clip_def choose_memblock_flags_def MEMBLOCK_NONE_def
        cong: if_cong)
  show ?thesis
  proof (cases "?S = {}")
    case True
    with a(2) core wf show ?thesis by (simp add: alloc_outcome_def)
  next
    case False
    then have mem: "unat a \<in> ?S" using a(2) by simp
    then have "a \<noteq> 0" by (auto simp: search_set_def unat_c_max PAGE_SIZE_def)
    from reserve_law [OF wf, of a sz] obtain ret mb' where r: "memblock_reserve a sz mb = Inr (ret, mb')"
      "ret \<noteq> 0 \<Longrightarrow> mb' = mb \<and> array_full (mb_reserved mb)" by blast
    show ?thesis
    proof (cases "ret = 0")
      case True
      have lim: "unat (search_end mb goal (clip mb limit)) \<le> unat (c_max (c_max goal PAGE_SIZE) (current_limit mb))"
        unfolding clip_def by (rule search_end_limit)
      note g = grant_found [OF wf mem lim n r(1) [unfolded True]]
      with True core \<open>a \<noteq> 0\<close> r granted_not_null [OF g(2) cl n] show ?thesis by (simp add: alloc_outcome_def)
    next
      case False
      with r core \<open>a \<noteq> 0\<close> wf show ?thesis by (simp add: alloc_outcome_def)
    qed
  qed
qed

lemma alloc_or_else_outcome:
  assumes f: "alloc_outcome mb m sz k S (f mb m)" and g: "alloc_outcome mb m sz k T (g mb m)"
  shows "alloc_outcome mb m sz k T (alloc_or_else f g mb m)"
proof -
  from f obtain p mb' m' where p: "f mb m = Inr (p, mb', m')" "mb_wf mb'"
    "if p = 0 then mb' = mb \<and> m' = m \<and> (S = {} \<or> array_full (mb_reserved mb)) else granted mb m sz k p mb' m'"
    by (auto simp: alloc_outcome_def)
  show ?thesis
  proof (cases "p = 0")
    case True
    with p g show ?thesis by (simp add: alloc_or_else_def)
  next
    case False
    with p show ?thesis by (simp add: alloc_or_else_def alloc_outcome_def)
  qed
qed

lemma alloc_or_else_fail:
  assumes "alloc_outcome mb m sz k S (f mb m)"
  shows "alloc_outcome mb m sz k S (alloc_or_else f alloc_fail mb m)"
  using assms by (fastforce simp: alloc_outcome_def alloc_or_else_def alloc_fail_def split: if_splits)

lemma bootmem_nopanic_outcome:
  assumes "mb_wf mb" "0 < sz" "current_limit mb \<le> 0x40000000"
  shows "alloc_outcome mb m sz k (search_set mb sz k 0 (clip mb limit) NUMA_NO_NODE MEMBLOCK_NONE)
           (alloc_bootmem_nopanic3 kernel_end sz (2 ^ k) goal limit mb m)"
proof (cases "goal = 0")
  case True
  then show ?thesis unfolding alloc_bootmem_nopanic3_def
    using alloc_or_else_fail [where f = "alloc_memory_core_early kernel_end NUMA_NO_NODE sz (2 ^ k) 0 limit"]
      core_early_outcome [OF assms] by simp
next
  case False
  let ?f = "\<lambda>g. alloc_memory_core_early kernel_end NUMA_NO_NODE sz (2 ^ k) g limit"
  have core: "alloc_outcome mb m sz k (search_set mb sz k g (clip mb limit) NUMA_NO_NODE MEMBLOCK_NONE) (?f g mb m)"
    for g by (rule core_early_outcome [OF assms])
  from False alloc_or_else_outcome [where f = "?f goal" and g = "alloc_or_else (?f 0) alloc_fail", OF core alloc_or_else_fail [where f = "?f 0", OF core]]
  show ?thesis unfolding alloc_bootmem_nopanic3_def by simp
qed

text \<open>\<^verbatim>\<open>memblock_virt_alloc_internal\<close>, when the reserved array has room for the block.\<close>

lemma virt_alloc_search_best:
  assumes wf: "mb_wf mb" and n: "0 < sz"
  shows "\<exists>a nid'. virt_alloc_search kernel_end mb sz (2 ^ k) lo hi nid MEMBLOCK_NONE = Inr a \<and>
    (if a = 0 then search_set mb sz k lo hi NUMA_NO_NODE MEMBLOCK_NONE = {}
     else unat a \<in> search_set mb sz k lo hi nid' MEMBLOCK_NONE)"
proof -
  have sh: "shape_wf (mb_memory mb)" "shape_wf (mb_reserved mb)" using wf by (simp_all add: mb_wf_def)
  note best = best_ofD [OF find_in_range_node_best [OF sh mb_wf_small [OF wf] n, of k lo hi _ MEMBLOCK_NONE kernel_end]]
  have zero: "unat (0::ulong) \<notin> search_set mb sz k lo hi i MEMBLOCK_NONE" for i
    by (auto simp: search_set_def unat_c_max PAGE_SIZE_def)
  from best [of nid] obtain a where a: "memblock_find_in_range_node kernel_end mb sz (2 ^ k) lo hi nid MEMBLOCK_NONE = Inr a"
    "if search_set mb sz k lo hi nid MEMBLOCK_NONE = {} then a = 0 else unat a \<in> search_set mb sz k lo hi nid MEMBLOCK_NONE"
    by blast
  from best [of NUMA_NO_NODE] obtain b where b: "memblock_find_in_range_node kernel_end mb sz (2 ^ k) lo hi NUMA_NO_NODE MEMBLOCK_NONE = Inr b"
    "if search_set mb sz k lo hi NUMA_NO_NODE MEMBLOCK_NONE = {} then b = 0 else unat b \<in> search_set mb sz k lo hi NUMA_NO_NODE MEMBLOCK_NONE"
    by blast
  show ?thesis
  proof (cases "a \<noteq> 0 \<or> nid = NUMA_NO_NODE")
    case True
    with a zero [of nid] show ?thesis
      by (auto simp: virt_alloc_search_def split: if_splits)
  next
    case False
    with a b zero [of NUMA_NO_NODE] show ?thesis
      by (auto simp: virt_alloc_search_def split: if_splits)
  qed
qed

lemma virt_alloc_outcome:
  assumes wf: "mb_wf mb" and n: "0 < sz" and room: "\<not> array_full (mb_reserved mb)"
    and slab: "\<not> slab_is_available slab" and al: "k < 32" "align = 2 ^ k \<or> align = 0 \<and> k = 6"
  shows "\<exists>p mb' m'. memblock_virt_alloc_internal kernel_end slab sz align min_addr max_addr nid mb m
      = Inr (p, mb', m') \<and> mb_wf mb' \<and>
    (granted mb m sz k p mb' m' \<or>
     p = 0 \<and> mb' = mb \<and> m' = m \<and>
       search_set mb sz k 0 (clip mb max_addr) NUMA_NO_NODE MEMBLOCK_NONE = {})"
proof -
  let ?hi = "clip mb max_addr" and ?nid = "if nid = MAX_NR_NODES then NUMA_NO_NODE else nid"
  have al': "(if align = 0 then L1_CACHE_BYTES else align) = 2 ^ k"
    using al by (auto simp: L1_CACHE_BYTES_def)
  have "\<exists>a lo nid'. kbind (virt_alloc_search kernel_end mb sz (2 ^ k) min_addr ?hi ?nid MEMBLOCK_NONE) (\<lambda>alloc.
      if alloc = 0 \<and> min_addr \<noteq> 0 then virt_alloc_search kernel_end mb sz (2 ^ k) 0 ?hi ?nid MEMBLOCK_NONE
      else Inr alloc) = Inr a \<and>
    (if a = 0 then search_set mb sz k 0 ?hi NUMA_NO_NODE MEMBLOCK_NONE = {}
     else unat a \<in> search_set mb sz k lo ?hi nid' MEMBLOCK_NONE)"
  proof -
    from virt_alloc_search_best [OF wf n, of kernel_end k min_addr ?hi ?nid] obtain a nid1 where
      a: "virt_alloc_search kernel_end mb sz (2 ^ k) min_addr ?hi ?nid MEMBLOCK_NONE = Inr a"
      "if a = 0 then search_set mb sz k min_addr ?hi NUMA_NO_NODE MEMBLOCK_NONE = {}
       else unat a \<in> search_set mb sz k min_addr ?hi nid1 MEMBLOCK_NONE" by blast
    from virt_alloc_search_best [OF wf n, of kernel_end k 0 ?hi ?nid] obtain b nid2 where
      b: "virt_alloc_search kernel_end mb sz (2 ^ k) 0 ?hi ?nid MEMBLOCK_NONE = Inr b"
      "if b = 0 then search_set mb sz k 0 ?hi NUMA_NO_NODE MEMBLOCK_NONE = {}
       else unat b \<in> search_set mb sz k 0 ?hi nid2 MEMBLOCK_NONE" by blast
    show ?thesis
    proof (cases "a = 0 \<and> min_addr \<noteq> 0")
      case True
      with a b show ?thesis by (intro exI [of _ b] exI [of _ 0] exI [of _ nid2]) simp
    next
      case False
      with a show ?thesis by (intro exI [of _ a] exI [of _ min_addr] exI [of _ nid1]) auto
    qed
  qed
  then obtain a lo nid' where a: "kbind (virt_alloc_search kernel_end mb sz (2 ^ k) min_addr ?hi ?nid MEMBLOCK_NONE) (\<lambda>alloc.
      if alloc = 0 \<and> min_addr \<noteq> 0 then virt_alloc_search kernel_end mb sz (2 ^ k) 0 ?hi ?nid MEMBLOCK_NONE
      else Inr alloc) = Inr a"
    "if a = 0 then search_set mb sz k 0 ?hi NUMA_NO_NODE MEMBLOCK_NONE = {}
     else unat a \<in> search_set mb sz k lo ?hi nid' MEMBLOCK_NONE" by blast
  let ?K = "\<lambda>alloc. if alloc = 0 then Inr (0, mb, m)
      else kbind (memblock_reserve alloc sz mb) (\<lambda>(_, mb).
             Inr (phys_to_virt alloc, mb, snd (memset m (phys_to_virt alloc) 0 sz)))"
  have "memblock_virt_alloc_internal kernel_end slab sz align min_addr max_addr nid mb m =
      kbind (kbind (virt_alloc_search kernel_end mb sz (2 ^ k) min_addr ?hi ?nid MEMBLOCK_NONE) (\<lambda>alloc.
        if alloc = 0 \<and> min_addr \<noteq> 0 then virt_alloc_search kernel_end mb sz (2 ^ k) 0 ?hi ?nid MEMBLOCK_NONE
        else Inr alloc)) ?K"
    by (simp only: memblock_virt_alloc_internal_def Let_def al' choose_memblock_flags_def slab if_False
        kbind_assoc clip_def [symmetric])
  then have "memblock_virt_alloc_internal kernel_end slab sz align min_addr max_addr nid mb m = ?K a"
    by (simp only: a(1) kbind_Inr)
  moreover from reserve_law [OF wf, of a sz] room obtain mb' where r: "memblock_reserve a sz mb = Inr (0, mb')" by blast
  moreover have "mb_wf mb'" "granted mb m sz k (phys_to_virt a) mb' (snd (memset m (phys_to_virt a) 0 sz))" if "a \<noteq> 0"
  proof -
    from that a(2) have "unat a \<in> search_set mb sz k lo ?hi nid' MEMBLOCK_NONE" by simp
    from grant_found [OF wf this _ n r] show "mb_wf mb'"
      "granted mb m sz k (phys_to_virt a) mb' (snd (memset m (phys_to_virt a) 0 sz))"
      unfolding clip_def using search_end_limit by blast+
  qed
  ultimately show ?thesis using a(2) wf by (cases "a = 0") auto
qed

section \<open>Properties\<close>

text \<open>
  C1: \<^verbatim>\<open>__alloc_bootmem\<close> either returns a block or panics.  A returned block was free memory, is
  aligned, is now reserved and zeroed, and nothing else has changed.  It panics only when no
  free aligned block of the size lies below the limit, or when the reserved array may be too full
  to record it.
\<close>

theorem alloc_bootmem_correct:
  assumes "mb_wf mb" and "0 < sz" and "current_limit mb \<le> 0x40000000"
  shows "(\<exists>p mb' m'. alloc_bootmem kernel_end sz (2 ^ k) goal mb m = Inr (p, mb', m') \<and> p \<noteq> 0 \<and>
             mb_wf mb' \<and> granted mb m sz k p mb' m') \<or>
    alloc_bootmem kernel_end sz (2 ^ k) goal mb m = Inl Panic \<and>
      (search_set mb sz k 0 (current_limit mb) NUMA_NO_NODE MEMBLOCK_NONE = {} \<or> array_full (mb_reserved mb))"
proof -
  have clip: "clip mb (- 1) = current_limit mb"
    using word_order.not_eq_extremum [of "current_limit mb"] by (auto simp: clip_def)
  from bootmem_nopanic_outcome [OF assms, of m k "- 1" kernel_end goal] show ?thesis
    unfolding clip alloc_outcome_def alloc_bootmem_def alloc_bootmem3_def alloc_or_else_def alloc_panic_def
    by (auto split: if_splits)
qed

theorem alloc_bootmem_correct_witness:
  "(\<exists>p mb' m'. alloc_bootmem 0 0x800 (2 ^ 6) 0 demo_memblock (\<lambda>_. 1) = Inr (p, mb', m') \<and> p \<noteq> 0 \<and>
             mb_wf mb' \<and> granted demo_memblock (\<lambda>_. 1) 0x800 6 p mb' m') \<or>
    alloc_bootmem 0 0x800 (2 ^ 6) 0 demo_memblock (\<lambda>_. 1) = Inl Panic \<and>
      (search_set demo_memblock 0x800 6 0 (current_limit demo_memblock) NUMA_NO_NODE MEMBLOCK_NONE = {} \<or>
       array_full (mb_reserved demo_memblock))"
  by (rule alloc_bootmem_correct [OF mb_wf_demo]) (simp_all add: demo_memblock_def)

text \<open>
  C11: \<^verbatim>\<open>memblock_virt_alloc_internal\<close> before the slab allocator is up, with room in the reserved
  array, returns \<^verbatim>\<open>NULL\<close> with the state unchanged only when no free block exists even below
  \<^verbatim>\<open>min_addr\<close>; otherwise it reserves and clears a free aligned block and returns its address.
\<close>

theorem virt_alloc_correct:
  assumes "mb_wf mb" and "0 < sz" and "\<not> array_full (mb_reserved mb)" and "\<not> slab_is_available slab"
    and "k < 32" and "align = 2 ^ k \<or> align = 0 \<and> k = 6"
  shows "\<exists>p mb' m'. memblock_virt_alloc_internal kernel_end slab sz align min_addr max_addr nid mb m
      = Inr (p, mb', m') \<and> mb_wf mb' \<and>
    (granted mb m sz k p mb' m' \<or>
     p = 0 \<and> mb' = mb \<and> m' = m \<and>
       search_set mb sz k 0 (clip mb max_addr) NUMA_NO_NODE MEMBLOCK_NONE = {})"
  using assms by (rule virt_alloc_outcome)

theorem virt_alloc_correct_witness:
  "\<exists>p mb' m'. memblock_virt_alloc_internal 0 SLAB_DOWN 0x800 0 0 0 0 demo_memblock (\<lambda>_. 1)
      = Inr (p, mb', m') \<and> mb_wf mb'"
proof -
  have "\<not> array_full (mb_reserved demo_memblock)"
    by (simp add: array_full_def demo_memblock_def init_memblock_def init_memblock_type_def INIT_MEMBLOCK_REGIONS_def)
  from virt_alloc_correct [OF mb_wf_demo _ this, of "0x800" SLAB_DOWN 6 0 0 0 0 0 "\<lambda>_. 1"] show ?thesis
    by (auto simp: slab_is_available_def)
qed

end
