(* ===== verification/Page_Alloc.thy ===== *)
theory Page_Alloc
  imports Memblock_Alloc
begin

text \<open>
  The zone tables of \<^verbatim>\<open>mm/page_alloc.c\<close>, the structures of \<^verbatim>\<open>include/sandix/mm_zone.h\<close> and \<^verbatim>\<open>zone_init\<close> of
  \<^verbatim>\<open>arch/x86/mm/init.c\<close>.  The configuration has one node and the zones DMA, Normal, HighMem and Movable, with the flat
  memory model.  The state is the static variables of \<^verbatim>\<open>page_alloc.c\<close>, the node, memblock and the byte memory; the fields
  of a zone that nothing writes are left out, and so is \<^verbatim>\<open>zone_pgdata\<close>, which points to the one node.
  Messages have no effect in the model.
\<close>

section \<open>Structures\<close>

definition ZONE_DMA :: nat where "ZONE_DMA = 0"
definition ZONE_NORMAL :: nat where "ZONE_NORMAL = 1"
definition ZONE_HIGHMEM :: nat where "ZONE_HIGHMEM = 2"
definition ZONE_MOVABLE :: nat where "ZONE_MOVABLE = 3"
definition MAX_NR_ZONES :: nat where "MAX_NR_ZONES = 4"

definition zone_names :: "string list" where
  "zone_names = [''DMA'', ''Normal'', ''HighMem'', ''Movable'']"

definition MAX_ORDER_NR_PAGES :: ulong where "MAX_ORDER_NR_PAGES = push_bit 10 1"

definition MAX_DMA_PFN :: ulong where "MAX_DMA_PFN = drop_bit PAGE_SHIFT (16 * 1024 * 1024)"

text \<open>\<^verbatim>\<open>struct page\<close> is one \<^verbatim>\<open>unsigned long\<close>.\<close>

definition sizeof_page :: ulong where "sizeof_page = 4"

record zone =
  zone_start_pfn :: ulong
  managed_pages :: ulong
  spanned_pages :: ulong
  present_pages :: ulong
  zone_name :: string

record pglist_data =
  node_zones :: "zone list"
  node_mem_map :: ulong
  node_start_pfn :: ulong
  node_present_pages :: ulong
  node_spanned_pages :: ulong
  node_id :: int

record zone_vars =
  nr_kernel_pages :: ulong
  nr_all_pages :: ulong
  dma_reserve :: ulong
  arch_zone_lowest_possible_pfn :: "ulong list"
  arch_zone_highest_possible_pfn :: "ulong list"
  mem_map :: ulong

definition zone_end_pfn :: "zone \<Rightarrow> ulong" where
  "zone_end_pfn z = zone_start_pfn z + spanned_pages z"

definition zone_spans_pfn :: "zone \<Rightarrow> ulong \<Rightarrow> bool" where
  "zone_spans_pfn z pfn \<longleftrightarrow> zone_start_pfn z \<le> pfn \<and> pfn < zone_end_pfn z"

definition zone_is_empty :: "zone \<Rightarrow> bool" where
  "zone_is_empty z \<longleftrightarrow> spanned_pages z = 0"

definition pgdata_end_pfn :: "pglist_data \<Rightarrow> ulong" where
  "pgdata_end_pfn pg = node_start_pfn pg + node_spanned_pages pg"

definition pgdata_is_empty :: "pglist_data \<Rightarrow> bool" where
  "pgdata_is_empty pg \<longleftrightarrow> node_start_pfn pg = 0 \<and> node_spanned_pages pg = 0"

text \<open>The page structure of a page frame: an array element at \<open>mem_map\<close>.\<close>

definition pfn_to_page :: "zone_vars \<Rightarrow> ulong \<Rightarrow> ulong" where
  "pfn_to_page v pfn = mem_map v + sizeof_page * pfn"

section \<open>Sizes of zones\<close>

definition find_min_pfn_for_node :: "int \<Rightarrow> memblock_type \<Rightarrow> ulong" where
  "find_min_pfn_for_node nid t =
     (let min_pfn = fold (\<lambda>(start_pfn, _, _) min_pfn. c_min min_pfn start_pfn) (mem_pfn_ranges 0 nid t) ULONG_MAX in
      if min_pfn = ULONG_MAX then 0 else min_pfn)"

definition find_min_pfn_with_active_regions :: "memblock_type \<Rightarrow> ulong" where
  "find_min_pfn_with_active_regions t = find_min_pfn_for_node MAX_NR_NODES t"

text \<open>The result has the two bounds written through the pointers, when they are written.\<close>

definition zone_spanned_pages_in_node :: "zone_vars \<Rightarrow> nat \<Rightarrow> ulong \<Rightarrow> ulong \<Rightarrow> ulong \<times> (ulong \<times> ulong) option" where
  "zone_spanned_pages_in_node v zone_type node_start node_end =
     (if node_start = 0 \<and> node_end = 0 then (0, None)
      else (let start_pfn = arch_zone_lowest_possible_pfn v ! zone_type;
                end_pfn = arch_zone_highest_possible_pfn v ! zone_type in
            if end_pfn < node_start \<or> start_pfn > node_end then (0, Some (start_pfn, end_pfn))
            else (let end_pfn = c_min end_pfn node_end;
                      start_pfn = c_max start_pfn node_start in
                  (end_pfn - start_pfn, Some (start_pfn, end_pfn)))))"

definition absent_pages_in_range_nid :: "memblock_type \<Rightarrow> int \<Rightarrow> ulong \<Rightarrow> ulong \<Rightarrow> ulong" where
  "absent_pages_in_range_nid t nid range_start_pfn range_end_pfn =
     fold (\<lambda>(start_pfn, end_pfn, _) nr_absent.
             nr_absent - (clamp end_pfn range_start_pfn range_end_pfn - clamp start_pfn range_start_pfn range_end_pfn))
       (mem_pfn_ranges 0 nid t) (range_end_pfn - range_start_pfn)"

definition absent_pages_in_range :: "memblock_type \<Rightarrow> ulong \<Rightarrow> ulong \<Rightarrow> ulong" where
  "absent_pages_in_range t start_pfn end_pfn = absent_pages_in_range_nid t MAX_NR_NODES start_pfn end_pfn"

definition zone_absent_pages_in_node :: "zone_vars \<Rightarrow> memblock_type \<Rightarrow> int \<Rightarrow> nat \<Rightarrow> ulong \<Rightarrow> ulong \<Rightarrow> ulong" where
  "zone_absent_pages_in_node v t nid zone_type node_start node_end =
     (if node_start = 0 \<and> node_end = 0 then 0
      else (let zone_low = arch_zone_lowest_possible_pfn v ! zone_type;
                zone_high = arch_zone_highest_possible_pfn v ! zone_type in
            absent_pages_in_range_nid t nid (clamp node_start zone_low zone_high) (clamp node_end zone_low zone_high)))"

text \<open>One turn of the loop: the node, \<^verbatim>\<open>totalpages\<close> and \<^verbatim>\<open>realtotalpages\<close>.\<close>

definition totalpages_step ::
  "zone_vars \<Rightarrow> memblock_type \<Rightarrow> ulong \<Rightarrow> ulong \<Rightarrow> nat \<Rightarrow> pglist_data \<times> ulong \<times> ulong \<Rightarrow> pglist_data \<times> ulong \<times> ulong" where
  "totalpages_step v t node_start node_end i = (\<lambda>(pg, totalpages, realtotalpages).
     (let (sz, bounds) = zone_spanned_pages_in_node v i node_start node_end;
          real_size = sz - zone_absent_pages_in_node v t (node_id pg) i node_start node_end;
          z = (node_zones pg ! i)
            \<lparr>zone_start_pfn := (case bounds of Some (start_pfn, _) \<Rightarrow> if sz \<noteq> 0 then start_pfn else 0 | None \<Rightarrow> 0),
             spanned_pages := sz, present_pages := real_size\<rparr> in
      (pg\<lparr>node_zones := (node_zones pg)[i := z]\<rparr>, totalpages + sz, realtotalpages + real_size)))"

definition calculate_node_totalpages :: "zone_vars \<Rightarrow> memblock_type \<Rightarrow> pglist_data \<Rightarrow> ulong \<Rightarrow> ulong \<Rightarrow> pglist_data" where
  "calculate_node_totalpages v t pg node_start node_end =
     (case fold (totalpages_step v t node_start node_end) [0..<MAX_NR_ZONES] (pg, 0, 0) of
        (pg, totalpages, realtotalpages) \<Rightarrow>
          pg\<lparr>node_spanned_pages := totalpages, node_present_pages := realtotalpages\<rparr>)"

definition get_pfn_range_for_nid :: "int \<Rightarrow> memblock_type \<Rightarrow> ulong \<times> ulong" where
  "get_pfn_range_for_nid nid t =
     (case fold (\<lambda>(this_start, this_end, _) (start_pfn, end_pfn). (c_min start_pfn this_start, c_max end_pfn this_end))
             (mem_pfn_ranges 0 nid t) (- 1, 0) of
        (start_pfn, end_pfn) \<Rightarrow> (if start_pfn = - 1 then 0 else start_pfn, end_pfn))"

section \<open>Initialisation\<close>

definition IS_HIGHMEM_IDX :: "nat \<Rightarrow> bool" where
  "IS_HIGHMEM_IDX idx \<longleftrightarrow> idx = ZONE_HIGHMEM"

definition init_core_step :: "nat \<Rightarrow> zone_vars \<times> pglist_data \<Rightarrow> zone_vars \<times> pglist_data" where
  "init_core_step i = (\<lambda>(v, pg).
     (let z = node_zones pg ! i;
          realsize = present_pages z;
          memmap_pages = drop_bit PAGE_SHIFT (PAGE_ALIGN (spanned_pages z * sizeof_page));
          freesize = (if \<not> IS_HIGHMEM_IDX i \<and> realsize \<ge> memmap_pages then realsize - memmap_pages else realsize);
          freesize = (if i = 0 \<and> freesize > dma_reserve v then freesize - dma_reserve v else freesize);
          kernel = (if \<not> IS_HIGHMEM_IDX i then nr_kernel_pages v + freesize
                    else if nr_kernel_pages v > memmap_pages * 2 then nr_kernel_pages v - memmap_pages
                    else nr_kernel_pages v);
          z = z\<lparr>managed_pages := (if IS_HIGHMEM_IDX i then realsize else freesize), zone_name := zone_names ! i\<rparr> in
      (v\<lparr>nr_kernel_pages := kernel, nr_all_pages := nr_all_pages v + freesize\<rparr>,
       pg\<lparr>node_zones := (node_zones pg)[i := z]\<rparr>)))"

definition free_area_init_core :: "zone_vars \<Rightarrow> pglist_data \<Rightarrow> zone_vars \<times> pglist_data" where
  "free_area_init_core v pg = fold init_core_step [0..<MAX_NR_ZONES] (v, pg)"

text \<open>
  \<^verbatim>\<open>page_to_pfn(mem_map)\<close> is \<^verbatim>\<open>mem_map - mem_map\<close>, which is 0; the node is always node 0.
\<close>

definition alloc_node_mem_map ::
  "phys_addr_t \<Rightarrow> SLAB_STATES \<Rightarrow> zone_vars \<Rightarrow> pglist_data \<Rightarrow> memblock \<Rightarrow> mem \<Rightarrow> (zone_vars \<times> pglist_data \<times> memblock \<times> mem) kres" where
  "alloc_node_mem_map kernel_end slab v pg mb m =
     (if node_spanned_pages pg = 0 then Inr (v, pg, mb, m)
      else
        (let start = node_start_pfn pg AND NOT (MAX_ORDER_NR_PAGES - 1);
             off = node_start_pfn pg - start in
         kbind (if node_mem_map pg = 0
                then (let end_pfn = ALIGN (pgdata_end_pfn pg) MAX_ORDER_NR_PAGES;
                          sz = (end_pfn - start) * sizeof_page in
                      kbind (memblock_virt_alloc_node_nopanic kernel_end slab sz (node_id pg) mb m) (\<lambda>(map, mb, m).
                        Inr (pg\<lparr>node_mem_map := map + off * sizeof_page\<rparr>, mb, m)))
                else Inr (pg, mb, m)) (\<lambda>(pg, mb, m).
           Inr (v\<lparr>mem_map := (if 0 \<noteq> node_start_pfn pg then node_mem_map pg - off * sizeof_page else node_mem_map pg)\<rparr>,
                pg, mb, m))))"

definition free_area_init_node ::
  "phys_addr_t \<Rightarrow> SLAB_STATES \<Rightarrow> int \<Rightarrow> ulong \<Rightarrow> zone_vars \<Rightarrow> pglist_data \<Rightarrow> memblock \<Rightarrow> mem
     \<Rightarrow> (zone_vars \<times> pglist_data \<times> memblock \<times> mem) kres" where
  "free_area_init_node kernel_end slab nid start v pg mb m =
     (let pg = pg\<lparr>node_id := nid, node_start_pfn := start\<rparr>;
          (start_pfn, end_pfn) = get_pfn_range_for_nid nid (mb_memory mb);
          pg = calculate_node_totalpages v (mb_memory mb) pg start_pfn end_pfn in
      kbind (alloc_node_mem_map kernel_end slab v pg mb m) (\<lambda>(v, pg, mb, m).
        let (v, pg) = free_area_init_core v pg in Inr (v, pg, mb, m)))"

text \<open>The limits of the zones: the loop over the zones behind the first.\<close>

definition zone_limits_step :: "ulong list \<Rightarrow> nat \<Rightarrow> ulong list \<times> ulong list \<Rightarrow> ulong list \<times> ulong list" where
  "zone_limits_step zone_max_pfns i = (\<lambda>(lowest, highest).
     if i = ZONE_MOVABLE then (lowest, highest)
     else (let lowest = lowest[i := highest ! (i - 1)] in
           (lowest, highest[i := c_max (zone_max_pfns ! i) (lowest ! i)])))"

definition zone_limits :: "ulong list \<Rightarrow> ulong \<Rightarrow> ulong list \<times> ulong list" where
  "zone_limits zone_max_pfns min_pfn =
     (let lowest = (replicate MAX_NR_ZONES 0)[0 := min_pfn];
          highest = (replicate MAX_NR_ZONES 0)[0 := zone_max_pfns ! 0];
          (lowest, highest) = fold (zone_limits_step zone_max_pfns) [1..<MAX_NR_ZONES] (lowest, highest) in
      (lowest[ZONE_MOVABLE := 0], highest[ZONE_MOVABLE := 0]))"

definition free_area_init_nodes ::
  "phys_addr_t \<Rightarrow> SLAB_STATES \<Rightarrow> ulong list \<Rightarrow> zone_vars \<Rightarrow> pglist_data \<Rightarrow> memblock \<Rightarrow> mem
     \<Rightarrow> (zone_vars \<times> pglist_data \<times> memblock \<times> mem) kres" where
  "free_area_init_nodes kernel_end slab zone_max_pfns v pg mb m =
     (let (lowest, highest) = zone_limits zone_max_pfns (find_min_pfn_with_active_regions (mb_memory mb));
          v = v\<lparr>arch_zone_lowest_possible_pfn := lowest, arch_zone_highest_possible_pfn := highest\<rparr> in
      free_area_init_node kernel_end slab 0 (find_min_pfn_for_node 0 (mb_memory mb)) v pg mb m)"

definition zone_init ::
  "phys_addr_t \<Rightarrow> SLAB_STATES \<Rightarrow> ulong \<Rightarrow> ulong \<Rightarrow> zone_vars \<Rightarrow> pglist_data \<Rightarrow> memblock \<Rightarrow> mem
     \<Rightarrow> (zone_vars \<times> pglist_data \<times> memblock \<times> mem) kres" where
  "zone_init kernel_end slab max_low_pfn max_pfn =
     free_area_init_nodes kernel_end slab
       ((replicate MAX_NR_ZONES 0)
          [ZONE_DMA := c_min MAX_DMA_PFN max_low_pfn, ZONE_NORMAL := max_low_pfn, ZONE_HIGHMEM := max_pfn])"

end
