(* ===== verification/Early_Ioremap.thy ===== *)
theory Early_Ioremap
  imports Sandix_Prelude
begin

text \<open>
  The boot-time mappings of device memory: \<^verbatim>\<open>mm/early_ioremap.c\<close>, \<^verbatim>\<open>arch/x86/mm/ioremap.c\<close>, \<^verbatim>\<open>__set_fixmap\<close> of
  \<^verbatim>\<open>arch/x86/mm/pgtable.c\<close> with \<^verbatim>\<open>set_pte_vaddr\<close> of \<^verbatim>\<open>pgtable_32.c\<close>, and the fixed addresses of
  \<^verbatim>\<open>arch/x86/include/asm/fixmap.h\<close>.  The page table of the fixed addresses is the array \<^verbatim>\<open>bm_pte\<close>;
  \<^verbatim>\<open>pmd_populated\<close> says whether the page directory entry of their 4 MiB points to it.  Flushing the TLB and
  messages have no effect in the model.
\<close>

section \<open>Fixed addresses\<close>

definition MAX_IO_APICS :: nat where "MAX_IO_APICS = 64"
definition NR_CPUS :: nat where "NR_CPUS = 8"
definition KM_TYPE_NR :: nat where "KM_TYPE_NR = 20"
definition NR_FIX_BTMAPS :: nat where "NR_FIX_BTMAPS = 64"
definition FIX_BTMAPS_SLOTS :: nat where "FIX_BTMAPS_SLOTS = 8"
definition TOTAL_FIX_BTMAPS :: nat where "TOTAL_FIX_BTMAPS = NR_FIX_BTMAPS * FIX_BTMAPS_SLOTS"

definition FIX_HOLE :: nat where "FIX_HOLE = 0"
definition FIX_APIC_BASE :: nat where "FIX_APIC_BASE = FIX_HOLE + 1"
definition FIX_IO_APIC_BASE_0 :: nat where "FIX_IO_APIC_BASE_0 = FIX_APIC_BASE + 1"
definition FIX_IO_APIC_BASE_END :: nat where "FIX_IO_APIC_BASE_END = FIX_IO_APIC_BASE_0 + MAX_IO_APICS - 1"
definition FIX_KMAP_BEGIN :: nat where "FIX_KMAP_BEGIN = FIX_IO_APIC_BASE_END + 1"
definition FIX_KMAP_END :: nat where "FIX_KMAP_END = FIX_KMAP_BEGIN + KM_TYPE_NR * NR_CPUS - 1"
definition end_of_permanent_fixed_addresses :: nat where "end_of_permanent_fixed_addresses = FIX_KMAP_END + 1"

text \<open>The boot mappings must not cross a page table of \<^verbatim>\<open>PTRS_PER_PTE\<close> entries.\<close>

definition FIX_BTMAP_END :: nat where
  "FIX_BTMAP_END =
     (let e = end_of_permanent_fixed_addresses in
      if ((of_nat e :: ulong) XOR of_nat (e + TOTAL_FIX_BTMAPS - 1)) AND (- 1024) \<noteq> 0
      then e + TOTAL_FIX_BTMAPS - unat ((of_nat e :: ulong) AND of_nat (TOTAL_FIX_BTMAPS - 1))
      else e)"

definition FIX_BTMAP_BEGIN :: nat where "FIX_BTMAP_BEGIN = FIX_BTMAP_END + TOTAL_FIX_BTMAPS - 1"
definition end_of_fixed_addresses :: nat where "end_of_fixed_addresses = FIX_BTMAP_BEGIN + 1"

definition FIXADDR_TOP :: ulong where "FIXADDR_TOP = 0xfffff000"

definition fix_to_virt :: "nat \<Rightarrow> ulong" where
  "fix_to_virt x = FIXADDR_TOP - push_bit PAGE_SHIFT (of_nat x)"

section \<open>Page table entries\<close>

definition PAGE_PRESENT :: ulong where "PAGE_PRESENT = push_bit 0 1"
definition PAGE_RW :: ulong where "PAGE_RW = push_bit 1 1"
definition PAGE_ACCESSED :: ulong where "PAGE_ACCESSED = push_bit 5 1"
definition PAGE_DIRTY :: ulong where "PAGE_DIRTY = push_bit 6 1"
definition PAGE_GLOBAL :: ulong where "PAGE_GLOBAL = push_bit 8 1"

text \<open>\<^verbatim>\<open>__PAGE_NX\<close> is 0 without PAE.\<close>

definition PAGE_KERNEL :: ulong where
  "PAGE_KERNEL = PAGE_PRESENT OR PAGE_RW OR PAGE_DIRTY OR PAGE_ACCESSED OR PAGE_GLOBAL"

definition FIXMAP_PAGE_NORMAL :: ulong where "FIXMAP_PAGE_NORMAL = PAGE_KERNEL"
definition FIXMAP_PAGE_IO :: ulong where "FIXMAP_PAGE_IO = PAGE_KERNEL"
definition FIXMAP_PAGE_CLEAR :: ulong where "FIXMAP_PAGE_CLEAR = 0"

definition PTRS_PER_PTE :: nat where "PTRS_PER_PTE = 1024"

definition pte_index :: "ulong \<Rightarrow> nat" where
  "pte_index address = unat (drop_bit PAGE_SHIFT address AND (of_nat PTRS_PER_PTE - 1))"

definition massage_pgprot :: "ulong \<Rightarrow> ulong \<Rightarrow> ulong" where
  "massage_pgprot supported protval = (if protval AND PAGE_PRESENT \<noteq> 0 then protval AND supported else protval)"

definition pfn_pte :: "ulong \<Rightarrow> ulong \<Rightarrow> ulong \<Rightarrow> ulong" where
  "pfn_pte supported page_nr pgprot = push_bit PAGE_SHIFT page_nr OR massage_pgprot supported pgprot"

section \<open>State\<close>

record ioremap =
  after_paging_init :: bool
  prev_map :: "ulong list"
  prev_size :: "ulong list"
  slot_virt :: "ulong list"
  bm_pte :: "ulong list"
  pmd_populated :: bool
  fixmaps_set :: int
  supported_pte_mask :: ulong

definition early_set_fixmap :: "nat \<Rightarrow> phys_addr_t \<Rightarrow> ulong \<Rightarrow> ioremap \<Rightarrow> ioremap kres" where
  "early_set_fixmap idx phys flags s =
     (let vaddr = fix_to_virt idx in
      if idx \<ge> end_of_fixed_addresses then Inl BugOn
      else Inr (s\<lparr>bm_pte := (bm_pte s)[pte_index vaddr :=
                  (if flags \<noteq> 0 then pfn_pte (supported_pte_mask s) (drop_bit PAGE_SHIFT phys) flags else 0)]\<rparr>))"

text \<open>
  \<^verbatim>\<open>set_pte_vaddr\<close> for a fixed address: without the page directory entry it is a bug; both of its branches store the value, as
  clearing happens only for the value 0.
\<close>

definition set_pte_vaddr :: "ulong \<Rightarrow> ulong \<Rightarrow> ioremap \<Rightarrow> ioremap kres" where
  "set_pte_vaddr vaddr pteval s =
     (if \<not> pmd_populated s then Inl BugOn
      else Inr (s\<lparr>bm_pte := (bm_pte s)[pte_index vaddr := (if pteval \<noteq> 0 then pteval else 0)]\<rparr>))"

definition set_fixmap :: "nat \<Rightarrow> phys_addr_t \<Rightarrow> ulong \<Rightarrow> ioremap \<Rightarrow> ioremap kres" where
  "set_fixmap idx phys flags s =
     (let address = fix_to_virt idx; pte = pfn_pte (supported_pte_mask s) (drop_bit PAGE_SHIFT phys) flags in
      if idx \<ge> end_of_fixed_addresses then Inl BugOn
      else kbind (set_pte_vaddr address pte s) (\<lambda>s. Inr (s\<lparr>fixmaps_set := fixmaps_set s + 1\<rparr>)))"

definition late_set_fixmap :: "nat \<Rightarrow> phys_addr_t \<Rightarrow> ulong \<Rightarrow> ioremap \<Rightarrow> ioremap kres" where
  "late_set_fixmap idx phys flags = set_fixmap idx phys flags"

definition late_clear_fixmap :: "nat \<Rightarrow> ioremap \<Rightarrow> ioremap kres" where
  "late_clear_fixmap idx = set_fixmap idx 0 0"

section \<open>Setup\<close>

definition early_ioremap_setup :: "ioremap \<Rightarrow> ioremap" where
  "early_ioremap_setup s =
     s\<lparr>slot_virt := map (\<lambda>i. fix_to_virt (FIX_BTMAP_BEGIN - i * NR_FIX_BTMAPS)) [0..<FIX_BTMAPS_SLOTS]\<rparr>"

definition early_ioremap_init :: "ioremap \<Rightarrow> ioremap" where
  "early_ioremap_init s = (early_ioremap_setup s)\<lparr>bm_pte := replicate PTRS_PER_PTE 0, pmd_populated := True\<rparr>"

definition early_ioremap_reset :: "ioremap \<Rightarrow> ioremap" where
  "early_ioremap_reset s = s\<lparr>after_paging_init := True\<rparr>"

section \<open>Mapping and unmapping\<close>

fun find_slot :: "ulong \<Rightarrow> ulong list \<Rightarrow> nat \<Rightarrow> nat option" where
  "find_slot p [] i = None"
| "find_slot p (m # ms) i = (if m = p then Some i else find_slot p ms (i + 1))"

fun map_loop :: "nat \<Rightarrow> nat \<Rightarrow> phys_addr_t \<Rightarrow> ulong \<Rightarrow> ioremap \<Rightarrow> ioremap kres" where
  "map_loop 0 idx phys prot s = Inr s"
| "map_loop (Suc n) idx phys prot s =
     kbind (if after_paging_init s then late_set_fixmap idx phys prot s else early_set_fixmap idx phys prot s)
       (map_loop n (idx - 1) (phys + PAGE_SIZE) prot)"

fun unmap_loop :: "nat \<Rightarrow> nat \<Rightarrow> ioremap \<Rightarrow> ioremap kres" where
  "unmap_loop 0 idx s = Inr s"
| "unmap_loop (Suc n) idx s =
     kbind (if after_paging_init s then late_clear_fixmap idx s else early_set_fixmap idx 0 FIXMAP_PAGE_CLEAR s)
       (unmap_loop n (idx - 1))"

text \<open>\<^verbatim>\<open>__early_ioremap\<close>; 0 is \<^verbatim>\<open>NULL\<close>.\<close>

definition early_ioremap_prot :: "phys_addr_t \<Rightarrow> ulong \<Rightarrow> ulong \<Rightarrow> ioremap \<Rightarrow> (ulong \<times> ioremap) kres" where
  "early_ioremap_prot phys_addr sz prot s =
     (case find_slot 0 (prev_map s) 0 of
        None \<Rightarrow> Inr (0, s)
      | Some slot \<Rightarrow>
          (let last_addr = phys_addr + sz - 1 in
           if sz = 0 \<or> last_addr < phys_addr then Inr (0, s)
           else
             (let s = s\<lparr>prev_size := (prev_size s)[slot := sz]\<rparr>;
                  off = offset_in_page phys_addr;
                  phys_addr = phys_addr AND PAGE_MASK;
                  sz = PAGE_ALIGN (last_addr + 1) - phys_addr;
                  nrpages = unat (drop_bit PAGE_SHIFT sz) in
              if nrpages > NR_FIX_BTMAPS then Inr (0, s)
              else kbind (map_loop nrpages (FIX_BTMAP_BEGIN - NR_FIX_BTMAPS * slot) phys_addr prot s) (\<lambda>s.
                     let s = s\<lparr>prev_map := (prev_map s)[slot := off + slot_virt s ! slot]\<rparr> in
                     Inr (prev_map s ! slot, s)))))"

definition early_iounmap :: "ulong \<Rightarrow> ulong \<Rightarrow> ioremap \<Rightarrow> ioremap kres" where
  "early_iounmap addr sz s =
     (case find_slot addr (prev_map s) 0 of
        None \<Rightarrow> Inr s
      | Some slot \<Rightarrow>
          if prev_size s ! slot \<noteq> sz then Inr s
          else if addr < fix_to_virt FIX_BTMAP_BEGIN then Inr s
          else
            (let nrpages = unat (drop_bit PAGE_SHIFT (PAGE_ALIGN (offset_in_page addr + sz))) in
             kbind (unmap_loop nrpages (FIX_BTMAP_BEGIN - NR_FIX_BTMAPS * slot) s) (\<lambda>s.
               Inr (s\<lparr>prev_map := (prev_map s)[slot := 0]\<rparr>))))"

definition early_ioremap :: "phys_addr_t \<Rightarrow> ulong \<Rightarrow> ioremap \<Rightarrow> (ulong \<times> ioremap) kres" where
  "early_ioremap phys_addr sz = early_ioremap_prot phys_addr sz FIXMAP_PAGE_IO"

definition early_memremap :: "phys_addr_t \<Rightarrow> ulong \<Rightarrow> ioremap \<Rightarrow> (ulong \<times> ioremap) kres" where
  "early_memremap phys_addr sz = early_ioremap_prot phys_addr sz FIXMAP_PAGE_NORMAL"

definition early_memunmap :: "ulong \<Rightarrow> ulong \<Rightarrow> ioremap \<Rightarrow> ioremap kres" where
  "early_memunmap addr sz = early_iounmap addr sz"

end
