(* ===== verification/Direct_Map.thy ===== *)
theory Direct_Map
  imports Page_Alloc Early_Ioremap
begin

text \<open>
  The direct mapping of physical memory: \<^verbatim>\<open>arch/x86/mm/init.c\<close>, the page tables of \<^verbatim>\<open>arch/x86/mm/init_32.c\<close>,
  \<^verbatim>\<open>extend_brk\<close> and \<^verbatim>\<open>memblock_reserve_brk\<close> of \<^verbatim>\<open>arch/x86/kernel/setup.c\<close> and \<^verbatim>\<open>pageattr.c\<close>.  Page tables are
  arrays of 32-bit entries in the byte memory; the page middle directory is folded into the page directory, so
  \<^verbatim>\<open>one_md_table_init\<close> is the identity and a page directory has one entry per 4 MiB.  What the linker and the processor
  provide is the parameter \<open>boot_env\<close>.  Loading \<^verbatim>\<open>cr3\<close>, flushing the TLB and messages have no effect in the model.
\<close>

section \<open>Words in memory\<close>

definition load32 :: "mem \<Rightarrow> ulong \<Rightarrow> ulong" where
  "load32 m a =
     ucast (m a) OR push_bit 8 (ucast (m (a + 1))) OR push_bit 16 (ucast (m (a + 2))) OR push_bit 24 (ucast (m (a + 3)))"

definition store32 :: "mem \<Rightarrow> ulong \<Rightarrow> ulong \<Rightarrow> mem" where
  "store32 m a v =
     m(a := ucast v, a + 1 := ucast (drop_bit 8 v), a + 2 := ucast (drop_bit 16 v), a + 3 := ucast (drop_bit 24 v))"

section \<open>Page table macros\<close>

definition PGDIR_SHIFT :: nat where "PGDIR_SHIFT = 22"
definition PTRS_PER_PGD :: nat where "PTRS_PER_PGD = 1024"
definition PMD_SHIFT :: nat where "PMD_SHIFT = PGDIR_SHIFT"
definition PTRS_PER_PMD :: nat where "PTRS_PER_PMD = 1"
definition PMD_SIZE :: ulong where "PMD_SIZE = push_bit PMD_SHIFT 1"
definition PMD_MASK :: ulong where "PMD_MASK = NOT (PMD_SIZE - 1)"
definition PAGE_USER :: ulong where "PAGE_USER = push_bit 2 1"
definition PAGE_PSE :: ulong where "PAGE_PSE = push_bit 7 1"

definition PAGE_TABLE :: ulong where
  "PAGE_TABLE = PAGE_PRESENT OR PAGE_RW OR PAGE_USER OR PAGE_ACCESSED OR PAGE_DIRTY"

definition PAGE_KERNEL_EXEC :: ulong where
  "PAGE_KERNEL_EXEC = PAGE_PRESENT OR PAGE_RW OR PAGE_DIRTY OR PAGE_ACCESSED OR PAGE_GLOBAL"

definition PAGE_KERNEL_LARGE :: ulong where "PAGE_KERNEL_LARGE = PAGE_KERNEL OR PAGE_PSE"
definition PAGE_KERNEL_LARGE_EXEC :: ulong where "PAGE_KERNEL_LARGE_EXEC = PAGE_KERNEL_EXEC OR PAGE_PSE"
definition PTE_IDENT_ATTR :: ulong where "PTE_IDENT_ATTR = 0x003"

text \<open>\<^verbatim>\<open>enum pg_level\<close>.\<close>

definition PG_LEVEL_4K :: nat where "PG_LEVEL_4K = 1"
definition PG_LEVEL_2M :: nat where "PG_LEVEL_2M = 2"
definition PG_LEVEL_1G :: nat where "PG_LEVEL_1G = 3"
definition PG_LEVEL_NUM :: nat where "PG_LEVEL_NUM = 4"

text \<open>\<^verbatim>\<open>__PHYSICAL_MASK\<close> has all 32 bits.\<close>

definition PTE_PFN_MASK :: ulong where "PTE_PFN_MASK = PAGE_MASK"
definition PHYSICAL_PMD_PAGE_MASK :: ulong where "PHYSICAL_PMD_PAGE_MASK = NOT (push_bit PMD_SHIFT 1 - 1)"

definition phys_addr :: "ulong \<Rightarrow> phys_addr_t" where
  "phys_addr x = x - PAGE_OFFSET"

definition pgd_index :: "ulong \<Rightarrow> nat" where
  "pgd_index address = unat (drop_bit PGDIR_SHIFT address AND (of_nat PTRS_PER_PGD - 1))"

definition pmd_index :: "ulong \<Rightarrow> nat" where
  "pmd_index address = unat (drop_bit PMD_SHIFT address AND (of_nat PTRS_PER_PMD - 1))"

definition pfn_pmd :: "ulong \<Rightarrow> ulong \<Rightarrow> ulong \<Rightarrow> ulong" where
  "pfn_pmd supported page_nr pgprot = push_bit PAGE_SHIFT page_nr OR massage_pgprot supported pgprot"

definition pmd_pfn_mask :: "ulong \<Rightarrow> ulong" where
  "pmd_pfn_mask pmd = (if pmd AND PAGE_PSE \<noteq> 0 then PHYSICAL_PMD_PAGE_MASK else PTE_PFN_MASK)"

definition pmd_page_vaddr :: "ulong \<Rightarrow> ulong" where
  "pmd_page_vaddr pmd = phys_to_virt (pmd AND pmd_pfn_mask pmd)"

text \<open>A pointer to the page table entry of \<open>address\<close> below the directory entry at \<open>pmd\<close>.\<close>

definition pte_offset_kernel :: "mem \<Rightarrow> ulong \<Rightarrow> ulong \<Rightarrow> ulong" where
  "pte_offset_kernel m pmd address = pmd_page_vaddr (load32 m pmd) + 4 * of_nat (pte_index address)"

section \<open>State\<close>

record boot_env =
  initial_page_table :: ulong
  text_start :: ulong
  init_end :: ulong
  kend :: phys_addr_t
  brk_limit :: ulong
  cpu_has_pse :: bool
  cpu_has_pge :: bool
  cpu_has_gbpages :: bool

record direct_map =
  dm_mem :: mem
  dm_mb :: memblock
  brk_start :: ulong
  brk_end :: ulong
  pgt_buf_start :: ulong
  pgt_buf_end :: ulong
  pgt_buf_top :: ulong
  can_use_brk_pgt :: bool
  min_pfn_mapped :: ulong
  max_pfn_mapped :: ulong
  max_low_pfn_mapped :: ulong
  page_size_mask :: ulong
  pte_mask :: ulong
  direct_page_counts :: "ulong list"

section \<open>Pages for page tables\<close>

definition extend_brk :: "boot_env \<Rightarrow> ulong \<Rightarrow> ulong \<Rightarrow> direct_map \<Rightarrow> (ulong \<times> direct_map) kres" where
  "extend_brk env sz align s =
     (let m = align - 1 in
      if brk_start s = 0 then Inl BugOn
      else if align AND m \<noteq> 0 then Inl BugOn
      else
        (let e = (brk_end s + m) AND NOT m in
         if e + sz > brk_limit env then Inl BugOn
         else Inr (e, s\<lparr>brk_end := e + sz, dm_mem := snd (memset (dm_mem s) e 0 sz)\<rparr>)))"

definition memblock_reserve_brk :: "direct_map \<Rightarrow> direct_map kres" where
  "memblock_reserve_brk s =
     kbind (if brk_end s > brk_start s
            then kbind (memblock_reserve (phys_addr (brk_start s)) (brk_end s - brk_start s) (dm_mb s)) (\<lambda>(_, mb). Inr (s\<lparr>dm_mb := mb\<rparr>))
            else Inr s)
       (\<lambda>s. Inr (s\<lparr>brk_start := 0\<rparr>))"

definition INIT_PGT_BUF_SIZE :: ulong where "INIT_PGT_BUF_SIZE = 6 * PAGE_SIZE"

definition early_alloc_pgt_buf :: "boot_env \<Rightarrow> direct_map \<Rightarrow> direct_map kres" where
  "early_alloc_pgt_buf env s =
     (let tables = INIT_PGT_BUF_SIZE in
      kbind (extend_brk env tables PAGE_SIZE s) (\<lambda>(p, s).
        let base = phys_addr p; start = drop_bit PAGE_SHIFT base in
        Inr (s\<lparr>pgt_buf_start := start, pgt_buf_end := start, pgt_buf_top := start + drop_bit PAGE_SHIFT tables\<rparr>)))"

definition clear_pages :: "ulong \<Rightarrow> ulong \<Rightarrow> mem \<Rightarrow> mem" where
  "clear_pages pfn num m =
     fold (\<lambda>i m. snd (memset m (phys_to_virt (push_bit PAGE_SHIFT (pfn + of_nat i))) 0 PAGE_SIZE)) [0..<unat num] m"

definition alloc_low_pages :: "boot_env \<Rightarrow> ulong \<Rightarrow> direct_map \<Rightarrow> (ulong \<times> direct_map) kres" where
  "alloc_low_pages env num s =
     kbind
       (if pgt_buf_end s + num > pgt_buf_top s \<or> \<not> can_use_brk_pgt s
        then
          if min_pfn_mapped s \<ge> max_pfn_mapped s then Inl Panic
          else kbind (memblock_find_in_range (kend env) (dm_mb s) (push_bit PAGE_SHIFT (min_pfn_mapped s))
                 (push_bit PAGE_SHIFT (max_pfn_mapped s)) (PAGE_SIZE * num) PAGE_SIZE) (\<lambda>ret.
                 if ret = 0 then Inl Panic
                 else kbind (memblock_reserve ret (PAGE_SIZE * num) (dm_mb s)) (\<lambda>(_, mb).
                        Inr (drop_bit PAGE_SHIFT ret, s\<lparr>dm_mb := mb\<rparr>)))
        else Inr (pgt_buf_end s, s\<lparr>pgt_buf_end := pgt_buf_end s + num\<rparr>))
       (\<lambda>(pfn, s). Inr (phys_to_virt (push_bit PAGE_SHIFT pfn), s\<lparr>dm_mem := clear_pages pfn num (dm_mem s)\<rparr>))"

section \<open>Page tables\<close>

definition is_kernel_text :: "boot_env \<Rightarrow> ulong \<Rightarrow> bool" where
  "is_kernel_text env addr \<longleftrightarrow> addr \<ge> text_start env \<and> addr \<le> init_end env"

definition one_page_table_init :: "boot_env \<Rightarrow> ulong \<Rightarrow> direct_map \<Rightarrow> (ulong \<times> direct_map) kres" where
  "one_page_table_init env pmd s =
     (if load32 (dm_mem s) pmd AND PAGE_PRESENT = 0
      then kbind (alloc_low_pages env 1 s) (\<lambda>(page_table, s).
             let m = store32 (dm_mem s) pmd (phys_addr page_table OR PAGE_TABLE) in
             if page_table \<noteq> pte_offset_kernel m pmd 0 then Inl BugOn
             else Inr (pte_offset_kernel m pmd 0, s\<lparr>dm_mem := m\<rparr>))
      else Inr (pte_offset_kernel (dm_mem s) pmd 0, s))"

text \<open>The innermost loop: page table entries from index \<open>pte_idx\<close>, at address \<open>pte\<close>.  It returns the
  page frame behind the last, \<^verbatim>\<open>pages_4k\<close>, \<^verbatim>\<open>last_map_paddr\<close> and the memory.\<close>

function pte_loop ::
  "boot_env \<Rightarrow> ulong \<Rightarrow> nat \<Rightarrow> nat \<Rightarrow> ulong \<Rightarrow> ulong \<Rightarrow> ulong \<Rightarrow> ulong \<Rightarrow> ulong \<Rightarrow> ulong \<Rightarrow> mem \<Rightarrow> ulong \<times> ulong \<times> ulong \<times> mem" where
  "pte_loop env supported mapping_iter pte_idx pte pfn end_pfn addr pages_4k last_map_paddr m =
     (if pte_idx < PTRS_PER_PTE \<and> pfn < end_pfn then
        (let init_prot = PTE_IDENT_ATTR;
             prot = (if is_kernel_text env addr then PAGE_KERNEL_EXEC else PAGE_KERNEL);
             m = store32 m pte (pfn_pte supported pfn (if mapping_iter = 1 then init_prot else prot));
             last_map_paddr = (if mapping_iter = 1 then push_bit PAGE_SHIFT pfn + PAGE_SIZE else last_map_paddr) in
         pte_loop env supported mapping_iter (pte_idx + 1) (pte + 4) (pfn + 1) end_pfn (addr + PAGE_SIZE) (pages_4k + 1) last_map_paddr m)
      else (pfn, pages_4k, last_map_paddr, m))"
  by auto
termination by (relation "measure (\<lambda>(_, _, _, pte_idx, _). PTRS_PER_PTE - pte_idx)") auto

declare pte_loop.simps [simp del]

text \<open>The variables that the loops over the directory update.\<close>

record map_vars =
  mv_pfn :: ulong
  mv_last :: ulong
  pages_2m :: ulong
  pages_4k :: ulong

text \<open>One entry of the directory.\<close>

definition pmd_turn ::
  "boot_env \<Rightarrow> bool \<Rightarrow> nat \<Rightarrow> ulong \<Rightarrow> ulong \<Rightarrow> map_vars \<Rightarrow> direct_map \<Rightarrow> (map_vars \<times> direct_map) kres" where
  "pmd_turn env use_pse mapping_iter pmd end_pfn v s =
     (let addr = mv_pfn v * PAGE_SIZE + PAGE_OFFSET in
      if use_pse then
        (let init_prot = PTE_IDENT_ATTR OR PAGE_PSE;
             pfn = mv_pfn v AND drop_bit PAGE_SHIFT PMD_MASK;
             addr2 = (pfn + of_nat PTRS_PER_PTE - 1) * PAGE_SIZE + PAGE_OFFSET + PAGE_SIZE - 1;
             prot = (if is_kernel_text env addr \<or> is_kernel_text env addr2 then PAGE_KERNEL_LARGE_EXEC else PAGE_KERNEL_LARGE);
             m = store32 (dm_mem s) pmd (pfn_pmd (pte_mask s) pfn (if mapping_iter = 1 then init_prot else prot)) in
         Inr (v\<lparr>mv_pfn := pfn + of_nat PTRS_PER_PTE, pages_2m := pages_2m v + 1\<rparr>, s\<lparr>dm_mem := m\<rparr>))
      else
        kbind (one_page_table_init env pmd s) (\<lambda>(pte, s).
          let pte_idx = pte_index (push_bit PAGE_SHIFT (mv_pfn v) + PAGE_OFFSET);
              (pfn, p4k, last, m) = pte_loop env (pte_mask s) mapping_iter pte_idx (pte + 4 * of_nat pte_idx) (mv_pfn v) end_pfn addr
                (pages_4k v) (mv_last v) (dm_mem s) in
          Inr (v\<lparr>mv_pfn := pfn, mv_last := last, pages_4k := p4k\<rparr>, s\<lparr>dm_mem := m\<rparr>)))"

text \<open>The loop over the directory; the folded middle directory has one entry.\<close>

function pgd_loop ::
  "boot_env \<Rightarrow> bool \<Rightarrow> nat \<Rightarrow> nat \<Rightarrow> ulong \<Rightarrow> map_vars \<Rightarrow> direct_map \<Rightarrow> (map_vars \<times> direct_map) kres" where
  "pgd_loop env use_pse mapping_iter pgd_idx end_pfn v s =
     (if pgd_idx < PTRS_PER_PGD then
        if mv_pfn v \<ge> end_pfn then pgd_loop env use_pse mapping_iter (pgd_idx + 1) end_pfn v s
        else kbind (pmd_turn env use_pse mapping_iter (initial_page_table env + 4 * of_nat pgd_idx) end_pfn v s)
               (\<lambda>(v, s). pgd_loop env use_pse mapping_iter (pgd_idx + 1) end_pfn v s)
      else Inr (v, s))"
  by auto
termination by (relation "measure (\<lambda>(_, _, _, pgd_idx, _). PTRS_PER_PGD - pgd_idx)") auto

declare pgd_loop.simps [simp del]

definition mapping_pass ::
  "boot_env \<Rightarrow> bool \<Rightarrow> nat \<Rightarrow> ulong \<Rightarrow> ulong \<Rightarrow> ulong \<Rightarrow> direct_map \<Rightarrow> (map_vars \<times> direct_map) kres" where
  "mapping_pass env use_pse mapping_iter start_pfn end_pfn last_map_paddr s =
     pgd_loop env use_pse mapping_iter (pgd_index (push_bit PAGE_SHIFT start_pfn + PAGE_OFFSET)) end_pfn
       \<lparr>mv_pfn = start_pfn, mv_last = last_map_paddr, pages_2m = 0, pages_4k = 0\<rparr> s"

definition update_page_count :: "nat \<Rightarrow> ulong \<Rightarrow> direct_map \<Rightarrow> direct_map kres" where
  "update_page_count level pages s =
     (if level \<ge> PG_LEVEL_NUM then Inl BugOn
      else Inr (s\<lparr>direct_page_counts := (direct_page_counts s)[level := direct_page_counts s ! level + pages]\<rparr>))"

definition kernel_physical_mapping_init ::
  "boot_env \<Rightarrow> ulong \<Rightarrow> ulong \<Rightarrow> ulong \<Rightarrow> direct_map \<Rightarrow> (ulong \<times> direct_map) kres" where
  "kernel_physical_mapping_init env start end_addr size_mask s =
     (let use_pse = (size_mask = push_bit PG_LEVEL_2M 1 \<and> cpu_has_pse env);
          start_pfn = drop_bit PAGE_SHIFT start;
          end_pfn = drop_bit PAGE_SHIFT end_addr in
      kbind (mapping_pass env use_pse 1 start_pfn end_pfn end_addr s) (\<lambda>(v, s).
      kbind (update_page_count PG_LEVEL_2M (pages_2m v) s) (\<lambda>s.
      kbind (update_page_count PG_LEVEL_4K (pages_4k v) s) (\<lambda>s.
      kbind (mapping_pass env use_pse 2 start_pfn end_pfn (mv_last v) s) (\<lambda>(v, s).
      Inr (mv_last v, s))))))"

section \<open>Ranges\<close>

definition NR_MR_RANGE :: nat where "NR_MR_RANGE = 3"

record map_range =
  mr_start :: ulong
  mr_end :: ulong
  mr_mask :: ulong

definition save_mr :: "map_range list \<Rightarrow> nat \<Rightarrow> ulong \<Rightarrow> ulong \<Rightarrow> ulong \<Rightarrow> (map_range list \<times> nat) kres" where
  "save_mr mr nr_range start_pfn end_pfn size_mask =
     (if start_pfn < end_pfn
      then if nr_range \<ge> NR_MR_RANGE then Inl Panic
           else Inr (mr[nr_range := \<lparr>mr_start = push_bit PAGE_SHIFT start_pfn, mr_end = push_bit PAGE_SHIFT end_pfn, mr_mask = size_mask\<rparr>],
                     nr_range + 1)
      else Inr (mr, nr_range))"

definition split_mem_range :: "map_range list \<Rightarrow> nat \<Rightarrow> ulong \<Rightarrow> ulong \<Rightarrow> (map_range list \<times> nat) kres" where
  "split_mem_range mr nr_range start end_addr = save_mr mr nr_range (PFN_DOWN start) (PFN_UP end_addr) 0"

definition add_pfn_range_mapped :: "ulong \<Rightarrow> ulong \<Rightarrow> direct_map \<Rightarrow> direct_map" where
  "add_pfn_range_mapped start_pfn end_pfn s =
     s\<lparr>max_pfn_mapped := c_max (max_pfn_mapped s) end_pfn,
       max_low_pfn_mapped :=
         (if start_pfn < push_bit (32 - PAGE_SHIFT) 1
          then c_max (max_low_pfn_mapped s) (c_min end_pfn (push_bit (32 - PAGE_SHIFT) 1)) else max_low_pfn_mapped s)\<rparr>"

fun map_ranges :: "boot_env \<Rightarrow> map_range list \<Rightarrow> ulong \<Rightarrow> direct_map \<Rightarrow> (ulong \<times> direct_map) kres" where
  "map_ranges env [] ret s = Inr (ret, s)"
| "map_ranges env (r # rs) ret s =
     kbind (kernel_physical_mapping_init env (mr_start r) (mr_end r) (mr_mask r) s) (\<lambda>(ret, s). map_ranges env rs ret s)"

definition init_memory_mapping :: "boot_env \<Rightarrow> ulong \<Rightarrow> ulong \<Rightarrow> direct_map \<Rightarrow> (ulong \<times> direct_map) kres" where
  "init_memory_mapping env start end_addr s =
     (let mr = replicate NR_MR_RANGE \<lparr>mr_start = 0, mr_end = 0, mr_mask = 0\<rparr> in
      kbind (split_mem_range mr 0 start end_addr) (\<lambda>(mr, nr_range).
      kbind (map_ranges env (take nr_range mr) 0 s) (\<lambda>(ret, s).
        Inr (drop_bit PAGE_SHIFT ret, add_pfn_range_mapped (drop_bit PAGE_SHIFT start) (drop_bit PAGE_SHIFT ret) s))))"

section \<open>Mapping the memory\<close>

definition PFN_PHYS :: "ulong \<Rightarrow> phys_addr_t" where
  "PFN_PHYS x = push_bit PAGE_SHIFT x"

text \<open>
  The loop of \<^verbatim>\<open>init_range_memory_mapping\<close> over the ranges of page frames of memory, which mapping does not change.
  \<^verbatim>\<open>start\<close> and \<^verbatim>\<open>end\<close> are 64 bits wide in the code and hold 32-bit values; the buffer's bounds are compared
  in 64 bits.
\<close>

fun range_mapping_loop ::
  "boot_env \<Rightarrow> ulong \<Rightarrow> ulong \<Rightarrow> (ulong \<times> ulong \<times> int) list \<Rightarrow> ulong \<Rightarrow> direct_map \<Rightarrow> (ulong \<times> direct_map) kres" where
  "range_mapping_loop env r_start r_end [] mapped_ram_size s = Inr (mapped_ram_size, s)"
| "range_mapping_loop env r_start r_end ((start_pfn, end_pfn, _) # rs) mapped_ram_size s =
     (let start = clamp (PFN_PHYS start_pfn) r_start r_end;
          end_addr = clamp (PFN_PHYS end_pfn) r_start r_end in
      if start \<ge> end_addr then range_mapping_loop env r_start r_end rs mapped_ram_size s
      else
        (let s = s\<lparr>can_use_brk_pgt :=
                     c_max (ucast start :: u64) (push_bit PAGE_SHIFT (ucast (pgt_buf_end s)))
                       \<ge> c_min (ucast end_addr) (push_bit PAGE_SHIFT (ucast (pgt_buf_top s)))\<rparr> in
         kbind (init_memory_mapping env start end_addr s) (\<lambda>(_, s).
           range_mapping_loop env r_start r_end rs (mapped_ram_size + (end_addr - start)) (s\<lparr>can_use_brk_pgt := True\<rparr>))))"

definition init_range_memory_mapping :: "boot_env \<Rightarrow> ulong \<Rightarrow> ulong \<Rightarrow> direct_map \<Rightarrow> (ulong \<times> direct_map) kres" where
  "init_range_memory_mapping env r_start r_end s =
     range_mapping_loop env r_start r_end (mem_pfn_ranges 0 MAX_NR_NODES (mb_memory (dm_mb s))) 0 s"

definition get_new_step_size :: "ulong \<Rightarrow> ulong" where
  "get_new_step_size step_size = push_bit (PMD_SHIFT - PAGE_SHIFT - 1) step_size"

text \<open>The start of the next step down.\<close>

definition step_down :: "ulong \<Rightarrow> ulong \<Rightarrow> ulong \<Rightarrow> ulong" where
  "step_down map_start last_start step_size =
     (if last_start > step_size
      then (let start = round_down (last_start - 1) step_size in if start < map_start then map_start else start)
      else map_start)"

lemma step_down_less: "map_start < last_start \<Longrightarrow> step_down map_start last_start step_size < last_start"
proof -
  assume m: "map_start < last_start"
  have "round_down (last_start - 1) step_size \<le> last_start - 1" unfolding round_down_def by (rule word_and_le2)
  moreover have "last_start \<noteq> 0" using m by auto
  then have "last_start - 1 < last_start" by (simp add: word_less_nat_alt unat_minus_one unat_gt_0)
  ultimately show ?thesis using m by (auto simp: step_down_def Let_def)
qed

function top_down_loop :: "boot_env \<Rightarrow> ulong \<Rightarrow> ulong \<Rightarrow> ulong \<Rightarrow> ulong \<Rightarrow> direct_map \<Rightarrow> direct_map kres" where
  "top_down_loop env map_start last_start step_size mapped_ram_size s =
     (if last_start > map_start then
        (let start = step_down map_start last_start step_size in
         kbind (init_range_memory_mapping env start last_start s) (\<lambda>(n, s).
           let mapped_ram_size = mapped_ram_size + n;
               s = s\<lparr>min_pfn_mapped := drop_bit PAGE_SHIFT start\<rparr>;
               step_size = (if mapped_ram_size \<ge> step_size then get_new_step_size step_size else step_size) in
           top_down_loop env map_start start step_size mapped_ram_size s))
      else Inr s)"
  by auto
termination
  by (relation "measure (\<lambda>(_, _, last_start, _). unat last_start)") (auto intro!: unat_mono step_down_less)

declare top_down_loop.simps [simp del]

definition memory_map_top_down :: "boot_env \<Rightarrow> ulong \<Rightarrow> ulong \<Rightarrow> direct_map \<Rightarrow> direct_map kres" where
  "memory_map_top_down env map_start map_end s =
     kbind (memblock_find_in_range (kend env) (dm_mb s) map_start map_end PMD_SIZE PMD_SIZE) (\<lambda>addr.
       let real_end = addr + PMD_SIZE;
           s = s\<lparr>max_pfn_mapped := 0, min_pfn_mapped := drop_bit PAGE_SHIFT real_end\<rparr> in
       kbind (top_down_loop env map_start real_end PMD_SIZE 0 s) (\<lambda>s.
         if real_end < map_end
         then kbind (init_range_memory_mapping env real_end map_end s) (\<lambda>(_, s). Inr s)
         else Inr s))"

text \<open>The start of the next step up.\<close>

definition step_up :: "ulong \<Rightarrow> ulong \<Rightarrow> ulong \<Rightarrow> ulong" where
  "step_up start map_end step_size =
     (if step_size \<noteq> 0 \<and> map_end - start > step_size
      then (let nxt = round_up (start + 1) step_size in if nxt > map_end then map_end else nxt)
      else map_end)"

lemma unat_or_and: "unat (x OR y) + unat (x AND y) = unat x + unat y" for x y :: ulong
proof -
  have "uint (x AND y) + uint (x OR y) = uint x + uint y" by (simp only: uint_and uint_or plus_and_or)
  then have "int (unat (x AND y) + unat (x OR y)) = int (unat x + unat y)" by (simp only: uint_nat of_nat_add)
  then show ?thesis by (simp only: of_nat_eq_iff add.commute)
qed

lemma step_up_greater:
  assumes "start < map_end"
  shows "start < step_up start map_end step_size"
proof (cases "step_size \<noteq> 0 \<and> map_end - start > step_size")
  case True
  then have z: "0 < unat step_size" by (simp add: unat_gt_0)
  let ?o = "start OR (step_size - 1)"
  have "unat (map_end - start) = unat map_end - unat start" using assms by (simp add: unat_sub_no_wrap word_le_nat_alt word_less_nat_alt)
  moreover have "unat step_size < unat (map_end - start)" using True by (simp add: word_less_nat_alt)
  ultimately have b: "unat start + unat step_size < unat map_end" by linarith
  have "unat (step_size - 1) = unat step_size - 1" using True by (simp add: unat_minus_one)
  moreover have "unat ?o + unat (start AND (step_size - 1)) = unat start + unat (step_size - 1)" by (rule unat_or_and)
  ultimately have u: "unat ?o < unat map_end - 1" using b z by linarith
  have "unat start \<le> unat ?o" using word_le_nat_alt le_word_or2 by blast
  moreover have "unat (?o + 1) = unat ?o + 1" using u unat_lt32 [of map_end] by (subst unat_add_no_wrap) simp_all
  ultimately show ?thesis using True assms by (auto simp: step_up_def round_up_def round_mask_def word_less_nat_alt Let_def)
qed (use assms in \<open>auto simp: step_up_def\<close>)

lemma step_up_measure:
  assumes "start < map_end"
  shows "unat map_end - unat (step_up start map_end step_size) < unat map_end - unat start"
  using step_up_greater [OF assms, of step_size] assms unfolding word_less_nat_alt by (rule diff_less_mono2)

function bottom_up_loop :: "boot_env \<Rightarrow> ulong \<Rightarrow> ulong \<Rightarrow> ulong \<Rightarrow> ulong \<Rightarrow> direct_map \<Rightarrow> direct_map kres" where
  "bottom_up_loop env start map_end step_size mapped_ram_size s =
     (if start < map_end then
        (let nxt = step_up start map_end step_size in
         kbind (init_range_memory_mapping env start nxt s) (\<lambda>(n, s).
           let mapped_ram_size = mapped_ram_size + n;
               step_size = (if mapped_ram_size \<ge> step_size then get_new_step_size step_size else step_size) in
           bottom_up_loop env nxt map_end step_size mapped_ram_size s))
      else Inr s)"
  by auto
termination
  by (relation "measure (\<lambda>(_, start, map_end, _). unat map_end - unat start)")
    (auto intro: step_up_measure)

declare bottom_up_loop.simps [simp del]

definition memory_map_bottom_up :: "boot_env \<Rightarrow> ulong \<Rightarrow> ulong \<Rightarrow> direct_map \<Rightarrow> direct_map kres" where
  "memory_map_bottom_up env map_start map_end s =
     bottom_up_loop env map_start map_end PMD_SIZE 0 (s\<lparr>min_pfn_mapped := drop_bit PAGE_SHIFT map_start\<rparr>)"

definition probe_page_size_mask :: "boot_env \<Rightarrow> direct_map \<Rightarrow> direct_map" where
  "probe_page_size_mask env s =
     (let sm = (if cpu_has_pse env then page_size_mask s OR push_bit PG_LEVEL_2M 1 else page_size_mask s);
          sm = (if cpu_has_gbpages env then sm OR push_bit PG_LEVEL_1G 1 else sm) in
      s\<lparr>page_size_mask := sm,
        pte_mask := (if cpu_has_pge env then pte_mask s OR PAGE_GLOBAL else pte_mask s AND NOT PAGE_GLOBAL)\<rparr>)"

section \<open>Page tables of the fixed addresses\<close>

definition FIXADDR_SIZE :: ulong where "FIXADDR_SIZE = push_bit PAGE_SHIFT (of_nat end_of_permanent_fixed_addresses)"
definition FIXADDR_START :: ulong where "FIXADDR_START = FIXADDR_TOP - FIXADDR_SIZE"

definition pmd_idx_kmap_begin :: nat where "pmd_idx_kmap_begin = unat (drop_bit PMD_SHIFT (fix_to_virt FIX_KMAP_END))"
definition pmd_idx_kmap_end :: nat where "pmd_idx_kmap_end = unat (drop_bit PMD_SHIFT (fix_to_virt FIX_KMAP_BEGIN))"

text \<open>The loop of \<^verbatim>\<open>page_table_range_init_count\<close>; the folded middle directory has one entry, at index 0.\<close>

function count_loop :: "nat \<Rightarrow> ulong \<Rightarrow> ulong \<Rightarrow> ulong \<Rightarrow> ulong" where
  "count_loop pgd_idx vaddr end_addr count =
     (if pgd_idx < PTRS_PER_PGD \<and> vaddr \<noteq> end_addr then
        (let i = unat (drop_bit PMD_SHIFT vaddr) in
         count_loop (pgd_idx + 1) (vaddr + PMD_SIZE) end_addr
           (if pmd_idx_kmap_begin \<le> i \<and> i \<le> pmd_idx_kmap_end then count + 1 else count))
      else count)"
  by auto
termination by (relation "measure (\<lambda>(pgd_idx, _). PTRS_PER_PGD - pgd_idx)") auto

declare count_loop.simps [simp del]

definition page_table_range_init_count :: "ulong \<Rightarrow> ulong \<Rightarrow> ulong" where
  "page_table_range_init_count start end_addr =
     (if pmd_idx_kmap_begin = pmd_idx_kmap_end then 0 else count_loop (pgd_index start) start end_addr 0)"

text \<open>\<^verbatim>\<open>page_table_kmap_check\<close>: the page table pointer and \<^verbatim>\<open>*adr\<close>; 0 is \<^verbatim>\<open>NULL\<close>.\<close>

definition page_table_kmap_check ::
  "ulong \<Rightarrow> ulong \<Rightarrow> ulong \<Rightarrow> ulong \<Rightarrow> ulong \<Rightarrow> direct_map \<Rightarrow> (ulong \<times> ulong \<times> direct_map) kres" where
  "page_table_kmap_check pte pmd vaddr lastpte adr s =
     (let i = unat (drop_bit PMD_SHIFT vaddr) in
      kbind
        (if pmd_idx_kmap_begin \<noteq> pmd_idx_kmap_end \<and> i \<ge> pmd_idx_kmap_begin \<and> i \<le> pmd_idx_kmap_end
         then
           (let newpte = adr;
                m = fold (\<lambda>k m. store32 m (newpte + 4 * of_nat k) (load32 m (pte + 4 * of_nat k))) [0..<PTRS_PER_PTE] (dm_mem s);
                m = store32 m pmd (phys_addr newpte OR PAGE_TABLE) in
            if newpte \<noteq> pte_offset_kernel m pmd 0 then Inl BugOn
            else Inr (newpte, adr + PAGE_SIZE, s\<lparr>dm_mem := m\<rparr>))
         else Inr (pte, adr, s))
        (\<lambda>(pte, adr, s).
           if vaddr < fix_to_virt (FIX_KMAP_BEGIN - 1) \<and> vaddr > fix_to_virt FIX_KMAP_END \<and> lastpte \<noteq> 0 \<and>
              lastpte + 4 * of_nat PTRS_PER_PTE \<noteq> pte
           then Inl BugOn else Inr (pte, adr, s)))"

function range_init_loop ::
  "boot_env \<Rightarrow> nat \<Rightarrow> ulong \<Rightarrow> ulong \<Rightarrow> ulong \<Rightarrow> ulong \<Rightarrow> direct_map \<Rightarrow> direct_map kres" where
  "range_init_loop env pgd_idx vaddr end_addr pte adr s =
     (if pgd_idx < PTRS_PER_PGD \<and> vaddr \<noteq> end_addr then
        (let pmd = initial_page_table env + 4 * of_nat pgd_idx in
         kbind (one_page_table_init env pmd s) (\<lambda>(p, s).
         kbind (page_table_kmap_check p pmd vaddr pte adr s) (\<lambda>(pte, adr, s).
           range_init_loop env (pgd_idx + 1) (vaddr + PMD_SIZE) end_addr pte adr s)))
      else Inr s)"
  by auto
termination by (relation "measure (\<lambda>(_, pgd_idx, _). PTRS_PER_PGD - pgd_idx)") auto

declare range_init_loop.simps [simp del]

definition page_table_range_init :: "boot_env \<Rightarrow> ulong \<Rightarrow> ulong \<Rightarrow> direct_map \<Rightarrow> direct_map kres" where
  "page_table_range_init env start end_addr s =
     (let count = page_table_range_init_count start end_addr in
      kbind (if count \<noteq> 0 then alloc_low_pages env count s else Inr (0, s)) (\<lambda>(adr, s).
        range_init_loop env (pgd_index start) start end_addr 0 adr s))"

text \<open>The last step switches the early mappings to the late functions.\<close>

definition early_ioremap_page_table_range_init :: "boot_env \<Rightarrow> direct_map \<Rightarrow> ioremap \<Rightarrow> (direct_map \<times> ioremap) kres" where
  "early_ioremap_page_table_range_init env s ior =
     (let vaddr = fix_to_virt (end_of_fixed_addresses - 1) AND PMD_MASK;
          end_addr = (FIXADDR_TOP + PMD_SIZE - 1) AND PMD_MASK in
      kbind (page_table_range_init env vaddr end_addr s) (\<lambda>s. Inr (s, early_ioremap_reset ior)))"

section \<open>The whole mapping\<close>

definition ISA_END_ADDRESS :: ulong where "ISA_END_ADDRESS = 0x100000"

definition init_mem_mapping :: "boot_env \<Rightarrow> ulong \<Rightarrow> direct_map \<Rightarrow> ioremap \<Rightarrow> (direct_map \<times> ioremap) kres" where
  "init_mem_mapping env max_low_pfn s ior =
     (let s = probe_page_size_mask env s;
          end_addr = push_bit PAGE_SHIFT max_low_pfn in
      kbind (init_memory_mapping env 0 ISA_END_ADDRESS s) (\<lambda>(_, s).
      kbind (if memblock_bottom_up (dm_mb s)
             then kbind (memory_map_bottom_up env (kend env) end_addr s) (memory_map_bottom_up env ISA_END_ADDRESS (kend env))
             else memory_map_top_down env ISA_END_ADDRESS end_addr s) (\<lambda>s.
        early_ioremap_page_table_range_init env s ior)))"

section \<open>Low and high memory\<close>

definition LAST_PKMAP :: ulong where "LAST_PKMAP = 1024"
definition PKMAP_BASE :: ulong where "PKMAP_BASE = (FIXADDR_START - PAGE_SIZE * (LAST_PKMAP + 1)) AND PMD_MASK"
definition VMALLOC_END :: ulong where "VMALLOC_END = PKMAP_BASE - 2 * PAGE_SIZE"
definition VMALLOC_RESERVE :: ulong where "VMALLOC_RESERVE = push_bit 20 128"
definition MAXMEM :: ulong where "MAXMEM = VMALLOC_END - PAGE_OFFSET - VMALLOC_RESERVE"
definition MAXMEM_PFN :: ulong where "MAXMEM_PFN = PFN_DOWN MAXMEM"
definition MAX_NONPAE_PFN :: ulong where "MAX_NONPAE_PFN = push_bit 20 1"

text \<open>With \<^verbatim>\<open>CONFIG_HIGHMEM\<close> and without \<^verbatim>\<open>CONFIG_HIGHMEM64G\<close>.  \<^verbatim>\<open>find_low_pfn_range\<close> returns
  \<^verbatim>\<open>max_pfn\<close> and \<^verbatim>\<open>max_low_pfn\<close>.\<close>

definition check_highmem_config :: "ulong \<Rightarrow> ulong" where
  "check_highmem_config max_pfn = (if max_pfn > MAX_NONPAE_PFN then MAX_NONPAE_PFN else max_pfn)"

definition find_low_pfn_range :: "ulong \<Rightarrow> ulong \<times> ulong" where
  "find_low_pfn_range max_pfn =
     (if max_pfn \<le> MAXMEM_PFN then (max_pfn, max_pfn) else (check_highmem_config max_pfn, MAXMEM_PFN))"

end
