(* ===== verification/Sort.thy ===== *)
theory Sort
  imports String_Spec "HOL-Library.Multiset"
begin

text \<open>
  The heapsort of \<^verbatim>\<open>lib/sort.c\<close>.  The array is a list of elements; the counters \<^verbatim>\<open>i\<close>, \<^verbatim>\<open>n\<close>, \<^verbatim>\<open>c\<close> and \<^verbatim>\<open>r\<close> are 32-bit
  words, byte offsets that are multiples of the element size.  The contract of the comparison function is a locale; sorting
  is proved correct in it for arrays of at most 2^30 bytes, in which no counter overflows.
\<close>

section \<open>The program\<close>

definition at_offset :: "u32 \<Rightarrow> 'a list \<Rightarrow> u32 \<Rightarrow> 'a" where
  "at_offset sz base off = base ! (unat off div unat sz)"

definition swap_offset :: "u32 \<Rightarrow> 'a list \<Rightarrow> u32 \<Rightarrow> u32 \<Rightarrow> 'a list" where
  "swap_offset sz base a b =
     base[unat a div unat sz := at_offset sz base b, unat b div unat sz := at_offset sz base a]"

text \<open>
  The inner loop \<^verbatim>\<open>for (r = ...; r * 2 + size < n; r = c)\<close>, which both phases share.  \<^verbatim>\<open>size\<close> is a \<^verbatim>\<open>size_t\<close>, so both
  comparisons are unsigned.  Nothing in the code keeps the loops from running forever (with size 0 the first one does), so
  they are partial.
\<close>

partial_function (option) sift_down :: "('a \<Rightarrow> 'a \<Rightarrow> int) \<Rightarrow> u32 \<Rightarrow> u32 \<Rightarrow> u32 \<Rightarrow> 'a list \<Rightarrow> 'a list option" where
  "sift_down cmp_func sz n r base =
     (if r * 2 + sz < n then
        (let c0 = r * 2 + sz;
             c = (if c0 < n - sz \<and> cmp_func (at_offset sz base c0) (at_offset sz base (c0 + sz)) < 0
                  then c0 + sz else c0) in
         if cmp_func (at_offset sz base r) (at_offset sz base c) \<ge> 0 then Some base
         else sift_down cmp_func sz n c (swap_offset sz base r c))
      else Some base)"

text \<open>\<^verbatim>\<open>for ( ; i >= 0; i -= size)\<close>, where \<^verbatim>\<open>i\<close> is compared as a signed number.\<close>

partial_function (option) heapify_loop :: "('a \<Rightarrow> 'a \<Rightarrow> int) \<Rightarrow> u32 \<Rightarrow> u32 \<Rightarrow> u32 \<Rightarrow> 'a list \<Rightarrow> 'a list option" where
  "heapify_loop cmp_func sz n i base =
     (if 0 \<le> sint i
      then Option.bind (sift_down cmp_func sz n i base) (\<lambda>base. heapify_loop cmp_func sz n (i - sz) base)
      else Some base)"

text \<open>\<^verbatim>\<open>for (i = n - size; i > 0; i -= size)\<close>.\<close>

partial_function (option) sort_loop :: "('a \<Rightarrow> 'a \<Rightarrow> int) \<Rightarrow> u32 \<Rightarrow> u32 \<Rightarrow> 'a list \<Rightarrow> 'a list option" where
  "sort_loop cmp_func sz i base =
     (if 0 < sint i
      then Option.bind (sift_down cmp_func sz i 0 (swap_offset sz base 0 i)) (\<lambda>base. sort_loop cmp_func sz (i - sz) base)
      else Some base)"

definition sort_array :: "('a \<Rightarrow> 'a \<Rightarrow> int) \<Rightarrow> u32 \<Rightarrow> u32 \<Rightarrow> 'a list \<Rightarrow> 'a list option" where
  "sort_array cmp_func num sz base =
     (let i = (num div 2 - 1) * sz; n = num * sz in
      Option.bind (heapify_loop cmp_func sz n i base) (\<lambda>base. sort_loop cmp_func sz (n - sz) base))"

declare sift_down.simps [code] heapify_loop.simps [code] sort_loop.simps [code]

text \<open>The byte-wise swap, a \<^verbatim>\<open>do\<close> loop that runs \<open>size\<close> times for a positive size.\<close>

primrec generic_swap_loop :: "nat \<Rightarrow> mem \<Rightarrow> ulong \<Rightarrow> ulong \<Rightarrow> mem" where
  "generic_swap_loop 0 m a b = m"
| "generic_swap_loop (Suc sz) m a b = generic_swap_loop sz (m(a := m b, b := m a)) (a + 1) (b + 1)"

definition generic_swap :: "mem \<Rightarrow> ulong \<Rightarrow> ulong \<Rightarrow> int \<Rightarrow> mem" where
  "generic_swap m a b sz = generic_swap_loop (if sz > 0 then nat sz else 1) m a b"

text \<open>
  A \<^verbatim>\<open>u32\<close> or \<^verbatim>\<open>u64\<close> read from memory is kept as its bytes.  \<open>default_swap\<close> is the choice \<open>sort\<close> makes
  when it is called with no \<^verbatim>\<open>swap_func\<close>.
\<close>

definition store_bytes :: "mem \<Rightarrow> ulong \<Rightarrow> u8 list \<Rightarrow> mem" where
  "store_bytes m a bs = (\<lambda>x. if unat (x - a) < length bs then bs ! unat (x - a) else m x)"

definition alignment_ok :: "ulong \<Rightarrow> ulong \<Rightarrow> bool" where
  "alignment_ok base align \<longleftrightarrow> base AND (align - 1) = 0"

definition u32_swap :: "mem \<Rightarrow> ulong \<Rightarrow> ulong \<Rightarrow> int \<Rightarrow> mem" where
  "u32_swap m a b sz = (let t = bytes m a 4; m = store_bytes m a (bytes m b 4) in store_bytes m b t)"

definition u64_swap :: "mem \<Rightarrow> ulong \<Rightarrow> ulong \<Rightarrow> int \<Rightarrow> mem" where
  "u64_swap m a b sz = (let t = bytes m a 8; m = store_bytes m a (bytes m b 8) in store_bytes m b t)"

definition default_swap :: "ulong \<Rightarrow> ulong \<Rightarrow> mem \<Rightarrow> ulong \<Rightarrow> ulong \<Rightarrow> int \<Rightarrow> mem" where
  "default_swap base sz =
     (if sz = 4 \<and> alignment_ok base 4 then u32_swap
      else if sz = 8 \<and> alignment_ok base 8 then u64_swap
      else generic_swap)"

section \<open>Offsets are indices\<close>

definition swap :: "'a list \<Rightarrow> nat \<Rightarrow> nat \<Rightarrow> 'a list" where
  "swap xs i j = xs[i := xs ! j, j := xs ! i]"

function sift :: "('a \<Rightarrow> 'a \<Rightarrow> int) \<Rightarrow> nat \<Rightarrow> nat \<Rightarrow> 'a list \<Rightarrow> 'a list" where
  "sift cmp n r xs =
     (if 2 * r + 1 < n then
        (let c = (if 2 * r + 2 < n \<and> cmp (xs ! (2 * r + 1)) (xs ! (2 * r + 2)) < 0 then 2 * r + 2 else 2 * r + 1) in
         if cmp (xs ! r) (xs ! c) \<ge> 0 then xs else sift cmp n c (swap xs r c))
      else xs)"
  by pat_completeness auto
termination
  by (relation "measure (\<lambda>(cmp, n, r, xs). n - r)") (auto simp: Let_def)

declare sift.simps [simp del]

lemma length_swap [simp]: "length (swap xs i j) = length xs"
  by (simp add: swap_def)

primrec heapify :: "('a \<Rightarrow> 'a \<Rightarrow> int) \<Rightarrow> nat \<Rightarrow> nat \<Rightarrow> 'a list \<Rightarrow> 'a list" where
  "heapify cmp n 0 xs = xs"
| "heapify cmp n (Suc k) xs = heapify cmp n k (sift cmp n k xs)"

primrec sort_rounds :: "('a \<Rightarrow> 'a \<Rightarrow> int) \<Rightarrow> nat \<Rightarrow> 'a list \<Rightarrow> 'a list" where
  "sort_rounds cmp 0 xs = xs"
| "sort_rounds cmp (Suc k) xs = sort_rounds cmp k (sift cmp (Suc k) 0 (swap xs 0 (Suc k)))"

lemma of_nat_word_less: "a < 2 ^ 32 \<Longrightarrow> b < 2 ^ 32 \<Longrightarrow> (of_nat a :: u32) < of_nat b \<longleftrightarrow> a < b"
  by (simp add: word_less_nat_alt unat_of_nat32)

lemma offset_index:
  assumes "0 < sz" "sz < 2 ^ 32" "k * sz < 2 ^ 32"
  shows "unat (of_nat (k * sz) :: u32) div unat (of_nat sz :: u32) = k"
  unfolding unat_of_nat32 [OF assms(2)] unat_of_nat32 [OF assms(3)] using assms(1) by simp

lemma offset_at:
  assumes "0 < sz" "sz < 2 ^ 32" "k * sz < 2 ^ 32"
  shows "at_offset (of_nat sz) xs (of_nat (k * sz)) = xs ! k"
  unfolding at_offset_def offset_index [OF assms] ..

lemma offset_swap:
  assumes "0 < sz" "sz < 2 ^ 32" "i * sz < 2 ^ 32" "j * sz < 2 ^ 32"
  shows "swap_offset (of_nat sz) xs (of_nat (i * sz)) (of_nat (j * sz)) = swap xs i j"
  unfolding swap_offset_def offset_at [OF assms(1,2,3)] offset_at [OF assms(1,2,4)] offset_index [OF assms(1,2,3)]
    offset_index [OF assms(1,2,4)] swap_def ..

text \<open>The words of the inner loop as multiples of the size.\<close>

lemma scaled_words:
  assumes "0 < sz" "n * sz \<le> 2 ^ 30" "r < n"
  shows "of_nat (r * sz) * 2 + of_nat sz = (of_nat ((2 * r + 1) * sz) :: u32)"
    "of_nat ((2 * r + 1) * sz) + of_nat sz = (of_nat ((2 * r + 2) * sz) :: u32)"
    "(of_nat ((2 * r + 1) * sz) :: u32) < of_nat (n * sz) \<longleftrightarrow> 2 * r + 1 < n"
    "(of_nat ((2 * r + 1) * sz) :: u32) < of_nat (n * sz) - of_nat sz \<longleftrightarrow> 2 * r + 2 < n"
proof -
  show "of_nat (r * sz) * 2 + of_nat sz = (of_nat ((2 * r + 1) * sz) :: u32)"
    "of_nat ((2 * r + 1) * sz) + of_nat sz = (of_nat ((2 * r + 2) * sz) :: u32)"
    by (simp_all add: algebra_simps)
  have "(2 * r + 1) * sz \<le> 2 * n * sz" using assms(3) by (intro mult_le_mono1) simp
  then have c: "(2 * r + 1) * sz < 2 ^ 32" "n * sz < 2 ^ 32" "(n - 1) * sz < 2 ^ 32" using assms(2) by (auto simp: diff_mult_distrib)
  show "(of_nat ((2 * r + 1) * sz) :: u32) < of_nat (n * sz) \<longleftrightarrow> 2 * r + 1 < n"
    unfolding of_nat_word_less [OF c(1,2)] using assms(1) by (simp only: mult_less_cancel2 simp_thms)
  have e: "of_nat (n * sz) - of_nat sz = (of_nat ((n - 1) * sz) :: u32)"
    using assms(3) by (cases n) (simp_all add: algebra_simps)
  have "2 * r + 1 < n - 1 \<longleftrightarrow> 2 * r + 2 < n" by linarith
  then show "(of_nat ((2 * r + 1) * sz) :: u32) < of_nat (n * sz) - of_nat sz \<longleftrightarrow> 2 * r + 2 < n"
    unfolding e of_nat_word_less [OF c(1,3)] using assms(1) by (simp only: mult_less_cancel2 simp_thms)
qed

lemma scaled_bound: "0 < n \<Longrightarrow> n * sz \<le> 2 ^ 30 \<Longrightarrow> sz \<le> (2 ^ 30 :: nat)"
  by (rule le_trans [of sz "n * sz"]) simp_all

lemma scaled_le: "k \<le> a * n \<Longrightarrow> n * sz \<le> 2 ^ 30 \<Longrightarrow> k * sz \<le> a * (2 ^ 30 :: nat)"
  by (metis mult.assoc mult_le_mono mult_le_mono1 le_refl le_trans)

lemma sift_down_scaled:
  "0 < sz \<Longrightarrow> n * sz \<le> 2 ^ 30 \<Longrightarrow> r < n \<Longrightarrow>
   sift_down cmp (of_nat sz) (of_nat (n * sz)) (of_nat (r * sz)) xs = Some (sift cmp n r xs)"
proof (induction cmp n r xs rule: sift.induct)
  case (1 cmp n r xs)
  let ?c = "if 2 * r + 2 < n \<and> cmp (xs ! (2 * r + 1)) (xs ! (2 * r + 2)) < 0 then 2 * r + 2 else 2 * r + 1"
  note sw = scaled_words [OF 1(2-4)]
  have s: "sz < 2 ^ 32" using scaled_bound [OF _ 1(3)] 1(4) by simp
  have k: "k * sz < 2 ^ 32" if "k \<le> 2 * n" for k
    using scaled_le [OF that 1(3)] by simp
  note at = offset_at [OF 1(2) s k]
  have le: "r \<le> 2 * n" "2 * r + 1 \<le> 2 * n" "2 * r + 2 \<le> 2 * n" "?c \<le> 2 * n" using 1(4) by auto
  have c: "\<And>P a b. (if P then of_nat (a * sz) else of_nat (b * sz)) = (of_nat ((if P then a else b) * sz) :: u32)" by simp
  have step: "sift_down cmp (of_nat sz) (of_nat (n * sz)) (of_nat (r * sz)) xs =
      (if 2 * r + 1 < n then
         if cmp (xs ! r) (xs ! ?c) \<ge> 0 then Some xs
         else sift_down cmp (of_nat sz) (of_nat (n * sz)) (of_nat (?c * sz)) (swap xs r ?c)
       else Some xs)"
    by (subst sift_down.simps)
      (simp only: Let_def sw at [OF le(1)] at [OF le(2)] at [OF le(3)] at [OF le(4)] c offset_swap [OF 1(2) s k [OF le(1)] k [OF le(4)]])
  have IH: "2 * r + 1 < n \<Longrightarrow> \<not> 0 \<le> cmp (xs ! r) (xs ! ?c) \<Longrightarrow>
      sift_down cmp (of_nat sz) (of_nat (n * sz)) (of_nat (?c * sz)) (swap xs r ?c) = Some (sift cmp n ?c (swap xs r ?c))"
    by (rule 1(1) [OF _ refl _ 1(2,3)]) auto
  show ?case
    unfolding step sift.simps [of cmp n r xs] Let_def
    using IH by (cases "2 * r + 1 < n"; cases "0 \<le> cmp (xs ! r) (xs ! ?c)") (simp_all only: if_True if_False simp_thms)
qed

lemma sint_offset: "a < 2 ^ 31 \<Longrightarrow> sint (of_nat a :: u32) = int a"
  by (simp add: signed_of_nat signed_take_bit_int_eq_self)

lemma sint_neg_offset: "0 < a \<Longrightarrow> a < 2 ^ 31 \<Longrightarrow> sint (- of_nat a :: u32) = - int a"
proof -
  assume a: "0 < a" "a < 2 ^ 31"
  have "sint (word_of_int (- int a) :: u32) = signed_take_bit 31 (- int a)" by (subst sint_sbintrunc') simp
  with a show ?thesis by (simp add: signed_take_bit_int_eq_self)
qed

lemma heapify_loop_scaled:
  assumes sz: "0 < sz" and n: "n * sz \<le> 2 ^ 30" "0 < n"
  shows "k < n \<Longrightarrow> heapify_loop cmp (of_nat sz) (of_nat (n * sz)) (of_nat (k * sz) - of_nat sz) xs = Some (heapify cmp n k xs)"
proof (induction k arbitrary: xs)
  case 0
  have "sz < 2 ^ 31" using scaled_bound [OF n(2,1)] by simp
  then have "sint (- of_nat sz :: u32) < 0" using sint_neg_offset [OF sz] sz by simp
  then show ?case by (subst heapify_loop.simps) simp
next
  case (Suc k)
  have s: "sint (of_nat (k * sz) :: u32) = int (k * sz)"
    using scaled_le [of k 1 n sz] Suc.prems n(1) by (intro sint_offset) simp
  have e: "of_nat (Suc k * sz) - of_nat sz = (of_nat (k * sz) :: u32)" by simp
  show ?case
    unfolding e by (subst heapify_loop.simps) (use Suc s sift_down_scaled [OF sz n(1), of k cmp xs] in simp)
qed

lemma sort_loop_scaled:
  assumes sz: "0 < sz"
  shows "Suc k * sz \<le> 2 ^ 30 \<Longrightarrow> sort_loop cmp (of_nat sz) (of_nat (k * sz)) xs = Some (sort_rounds cmp k xs)"
proof (induction k arbitrary: xs)
  case 0
  show ?case by (subst sort_loop.simps) simp
next
  case (Suc k)
  have b: "Suc k * sz < 2 ^ 31" "sz < 2 ^ 32" "Suc k * sz < 2 ^ 32" "Suc k * sz \<le> 2 ^ 30" using Suc.prems by simp_all
  have s: "sint (of_nat (Suc k * sz) :: u32) = int (Suc k * sz)" by (rule sint_offset [OF b(1)])
  have "0 < Suc k * sz" using sz by simp
  then have p: "0 < sint (of_nat (Suc k * sz) :: u32)" unfolding s by linarith
  have e: "of_nat (Suc k * sz) - of_nat sz = (of_nat (k * sz) :: u32)" by simp
  have w: "swap_offset (of_nat sz) xs 0 (of_nat (Suc k * sz)) = swap xs 0 (Suc k)"
    using offset_swap [OF sz b(2) _ b(3), of 0 xs] by simp
  have d: "sift_down cmp (of_nat sz) (of_nat (Suc k * sz)) 0 ys = Some (sift cmp (Suc k) 0 ys)" for ys
    using sift_down_scaled [OF sz b(4), of 0 cmp ys] by simp
  show ?case
    by (subst sort_loop.simps) (simp only: p if_True w d e bind.simps Suc.IH [OF b(4)] sort_rounds.simps)
qed

lemma sort_array_scaled:
  assumes "0 < sz" "sz < 2 ^ 31" "length xs * sz \<le> 2 ^ 30"
  shows "sort_array cmp (of_nat (length xs)) (of_nat sz) xs =
    Some (sort_rounds cmp (length xs - 1) (heapify cmp (length xs) (length xs div 2) xs))"
proof (cases "length xs")
  case 0
  have "sint (- of_nat sz :: u32) < 0" using sint_neg_offset [OF assms(1,2)] assms(1) by simp
  with 0 show ?thesis by (simp add: sort_array_def Let_def heapify_loop.simps [of _ _ _ "- of_nat sz"] sort_loop.simps [of _ _ "- of_nat sz"])
next
  case (Suc m)
  let ?n = "length xs"
  have n: "0 < ?n" "?n * sz \<le> 2 ^ 30" "Suc m * sz \<le> 2 ^ 30" using Suc assms(3) by simp_all
  have "?n < 2 ^ 32" using scaled_bound [OF assms(1), of ?n] n(2) by (simp add: mult.commute)
  then have "of_nat ?n div 2 = (of_nat (?n div 2) :: u32)"
    by (simp add: word_unat_eq_iff unat_div unat_of_nat32 less_mult_imp_div_less)
  then have i: "(of_nat ?n div 2 - 1) * of_nat sz = (of_nat (?n div 2 * sz) - of_nat sz :: u32)" by (simp add: algebra_simps)
  have m: "of_nat ?n * of_nat sz = (of_nat (?n * sz) :: u32)" "of_nat (?n * sz) - of_nat sz = (of_nat (m * sz) :: u32)"
    using Suc by (simp_all add: algebra_simps)
  have "?n div 2 < ?n" using n(1) by simp
  note h = heapify_loop_scaled [OF assms(1) n(2,1) this]
  show ?thesis
    unfolding sort_array_def Let_def i m h bind.simps sort_loop_scaled [OF assms(1) n(3)] by (simp only: Suc diff_Suc_1)
qed

section \<open>The contract of a comparison function\<close>

locale comparison =
  fixes cmp :: "'a \<Rightarrow> 'a \<Rightarrow> int"
  assumes cmp_swap: "cmp x y < 0 \<longleftrightarrow> cmp y x > 0"
    and cmp_trans: "cmp x y \<le> 0 \<Longrightarrow> cmp y z \<le> 0 \<Longrightarrow> cmp x z \<le> 0"
begin

lemma cmp_refl: "cmp x x = 0"
  using cmp_swap [of x x] by linarith

lemma cmp_ge: "cmp x y \<ge> 0 \<longleftrightarrow> cmp y x \<le> 0"
  using cmp_swap [of x y] by linarith

lemma cmp_total: "cmp x y \<le> 0 \<or> cmp y x \<le> 0"
  using cmp_swap [of y x] by linarith

text \<open>Every node from \<open>lo\<close> on is at least its children below \<open>n\<close>.\<close>

definition heap_from :: "nat \<Rightarrow> nat \<Rightarrow> 'a list \<Rightarrow> bool" where
  "heap_from lo n xs \<longleftrightarrow> (\<forall>i c. lo \<le> i \<and> c < n \<and> (c = 2 * i + 1 \<or> c = 2 * i + 2) \<longrightarrow> cmp (xs ! c) (xs ! i) \<le> 0)"

text \<open>The same except at \<open>r\<close>, whose children are still at most its parent.\<close>

definition hole_at :: "nat \<Rightarrow> nat \<Rightarrow> nat \<Rightarrow> 'a list \<Rightarrow> bool" where
  "hole_at r lo n xs \<longleftrightarrow>
     (\<forall>i c. lo \<le> i \<and> i \<noteq> r \<and> c < n \<and> (c = 2 * i + 1 \<or> c = 2 * i + 2) \<longrightarrow> cmp (xs ! c) (xs ! i) \<le> 0) \<and>
     (\<forall>p c. lo \<le> p \<and> (r = 2 * p + 1 \<or> r = 2 * p + 2) \<and> c < n \<and> (c = 2 * r + 1 \<or> c = 2 * r + 2) \<longrightarrow>
        cmp (xs ! c) (xs ! p) \<le> 0)"

definition rearranged :: "nat \<Rightarrow> 'a list \<Rightarrow> 'a list \<Rightarrow> bool" where
  "rearranged n xs ys \<longleftrightarrow> length ys = length xs \<and> mset (take n ys) = mset (take n xs) \<and> drop n ys = drop n xs"

lemma rearranged_refl: "rearranged n xs xs"
  by (simp add: rearranged_def)

lemma rearranged_trans: "rearranged n xs ys \<Longrightarrow> rearranged n ys zs \<Longrightarrow> rearranged n xs zs"
  by (simp add: rearranged_def)

lemma rearranged_swap:
  assumes "i < n" "j < n" "n \<le> length xs"
  shows "rearranged n xs (swap xs i j)"
proof -
  have "take n (swap xs i j) = (take n xs)[i := take n xs ! j, j := take n xs ! i]"
    using assms by (simp add: swap_def take_update_swap)
  moreover have "mset ((take n xs)[i := take n xs ! j, j := take n xs ! i]) = mset (take n xs)"
    using assms by (intro mset_swap) simp_all
  moreover have "drop n (swap xs i j) = drop n xs" using assms by (simp add: swap_def)
  ultimately show ?thesis by (simp add: rearranged_def)
qed

lemma sift_heap:
  assumes "hole_at r lo n xs" "lo \<le> r" "n \<le> length xs"
  shows "heap_from lo n (sift cmp n r xs) \<and> rearranged n xs (sift cmp n r xs)"
  using assms
proof (induction "n - r" arbitrary: r xs rule: less_induct)
  case less
  define ch where "ch = (if 2 * r + 2 < n \<and> cmp (xs ! (2 * r + 1)) (xs ! (2 * r + 2)) < 0 then 2 * r + 2 else 2 * r + 1)"
  note hole = less.prems(1) [unfolded hole_at_def]
  show ?case
  proof (cases "2 * r + 1 < n")
    case False
    then have "sift cmp n r xs = xs" by (subst sift.simps) simp
    moreover have "heap_from lo n xs" unfolding heap_from_def
    proof (intro allI impI)
      fix i c assume c: "lo \<le> i \<and> c < n \<and> (c = 2 * i + 1 \<or> c = 2 * i + 2)"
      with False have "i \<noteq> r" by auto
      with c hole show "cmp (xs ! c) (xs ! i) \<le> 0" by blast
    qed
    ultimately show ?thesis using rearranged_refl by simp
  next
    case True
    have c: "ch < n" "ch = 2 * r + 1 \<or> ch = 2 * r + 2" "r < n" using True by (auto simp: ch_def)
    have larger: "cmp (xs ! d) (xs ! ch) \<le> 0" if "d < n" "d = 2 * r + 1 \<or> d = 2 * r + 2" for d
      using that cmp_refl [of "xs ! d"] cmp_swap [of "xs ! (2 * r + 1)" "xs ! (2 * r + 2)"]
        cmp_ge [of "xs ! (2 * r + 1)" "xs ! (2 * r + 2)"] by (auto simp: ch_def split: if_splits)
    show ?thesis
    proof (cases "cmp (xs ! r) (xs ! ch) \<ge> 0")
      case ge: True
      then have eq: "sift cmp n r xs = xs" using True by (subst sift.simps) (simp only: Let_def if_True ch_def)
      have up: "cmp (xs ! ch) (xs ! r) \<le> 0" using ge cmp_ge by simp
      have "heap_from lo n xs" unfolding heap_from_def
      proof (intro allI impI)
        fix i d assume d: "lo \<le> i \<and> d < n \<and> (d = 2 * i + 1 \<or> d = 2 * i + 2)"
        show "cmp (xs ! d) (xs ! i) \<le> 0"
        proof (cases "i = r")
          case True
          with d larger [of d] have "cmp (xs ! d) (xs ! ch) \<le> 0" by blast
          from cmp_trans [OF this up] True show ?thesis by simp
        next
          case False
          with d show ?thesis using hole by simp
        qed
      qed
      then show ?thesis using eq rearranged_refl by simp
    next
      case lt: False
      let ?ys = "swap xs r ch"
      have eq: "sift cmp n r xs = sift cmp n ch ?ys"
        using True lt by (subst sift.simps) (simp only: Let_def if_True if_False ch_def)
      have len: "r < length xs" "ch < length xs" "r \<noteq> ch" using c less.prems(3) by auto
      have at: "?ys ! r = xs ! ch" "?ys ! ch = xs ! r" "\<And>i. i \<noteq> r \<Longrightarrow> i \<noteq> ch \<Longrightarrow> ?ys ! i = xs ! i"
        using len by (simp_all add: swap_def nth_list_update)
      have rc: "cmp (xs ! r) (xs ! ch) \<le> 0" using lt by simp
      have "hole_at ch lo n ?ys"
        unfolding hole_at_def
      proof (intro conjI allI impI)
        fix i d assume d: "lo \<le> i \<and> i \<noteq> ch \<and> d < n \<and> (d = 2 * i + 1 \<or> d = 2 * i + 2)"
        show "cmp (?ys ! d) (?ys ! i) \<le> 0"
        proof (cases "i = r")
          case True
          then show ?thesis using at rc larger [of d] d by (cases "d = ch") auto
        next
          case i: False
          then have d_c: "d \<noteq> ch" using c(2) d by auto
          show ?thesis
          proof (cases "d = r")
            case True
            with d hole c have "cmp (xs ! ch) (xs ! i) \<le> 0" by blast
            with True at i d show ?thesis by simp
          next
            case False
            with d hole i d_c at show ?thesis by simp
          qed
        qed
      next
        fix p d assume d: "lo \<le> p \<and> (ch = 2 * p + 1 \<or> ch = 2 * p + 2) \<and> d < n \<and> (d = 2 * ch + 1 \<or> d = 2 * ch + 2)"
        then have "p = r" using c(2) by presburger
        moreover have "d \<noteq> r" "d \<noteq> ch" using d c(2) by auto
        moreover have "cmp (xs ! d) (xs ! ch) \<le> 0"
        proof -
          have "lo \<le> ch" "ch \<noteq> r" using c(2) less.prems(2) by linarith+
          with d have "lo \<le> ch \<and> ch \<noteq> r \<and> d < n \<and> (d = 2 * ch + 1 \<or> d = 2 * ch + 2)"
            by (simp only: simp_thms)
          then show ?thesis by (rule hole [THEN conjunct1, rule_format])
        qed
        ultimately show "cmp (?ys ! d) (?ys ! p) \<le> 0" using at by simp
      qed
      moreover have "n - ch < n - r" "lo \<le> ch" "n \<le> length ?ys" using c less.prems by auto
      ultimately have "heap_from lo n (sift cmp n ch ?ys) \<and> rearranged n ?ys (sift cmp n ch ?ys)"
        using less.hyps by blast
      with rearranged_swap [OF c(3,1) less.prems(3)] eq rearranged_trans show ?thesis by metis
    qed
  qed
qed

lemma heap_from_hole: "heap_from (Suc k) n xs \<Longrightarrow> hole_at k k n xs"
  by (auto simp: heap_from_def hole_at_def)

lemma heap_from_half: "heap_from (n div 2) n xs"
  unfolding heap_from_def by (intro allI impI, elim conjE) linarith

lemma heapify_heap:
  "heap_from k n xs \<Longrightarrow> n \<le> length xs \<Longrightarrow> heap_from 0 n (heapify cmp n k xs) \<and> rearranged n xs (heapify cmp n k xs)"
proof (induction k arbitrary: xs)
  case 0
  then show ?case by (simp add: rearranged_refl)
next
  case (Suc k)
  note s = sift_heap [OF heap_from_hole [OF Suc.prems(1)] le_refl Suc.prems(2)]
  moreover have "n \<le> length (sift cmp n k xs)" using s Suc.prems(2) by (simp add: rearranged_def)
  ultimately show ?case using Suc.IH [of "sift cmp n k xs"] rearranged_trans by simp blast
qed

lemma heap_root: "heap_from 0 n xs \<Longrightarrow> i < n \<Longrightarrow> cmp (xs ! i) (xs ! 0) \<le> 0"
proof (induction i rule: less_induct)
  case (less i)
  show ?case
  proof (cases "i = 0")
    case True
    then show ?thesis by (simp add: cmp_refl)
  next
    case False
    let ?p = "(i - 1) div 2"
    have p: "i = 2 * ?p + 1 \<or> i = 2 * ?p + 2" "?p < i" using False by presburger+
    then have "cmp (xs ! i) (xs ! ?p) \<le> 0" using less.prems unfolding heap_from_def by blast
    moreover have "cmp (xs ! ?p) (xs ! 0) \<le> 0" using less p(2) by simp
    ultimately show ?thesis by (rule cmp_trans)
  qed
qed

text \<open>The state between two rounds of the second phase: a heap, then the largest elements in order.\<close>

definition sort_inv :: "nat \<Rightarrow> 'a list \<Rightarrow> bool" where
  "sort_inv n xs \<longleftrightarrow> n \<le> length xs \<and> heap_from 0 n xs \<and> sorted_wrt (\<lambda>x y. cmp x y \<le> 0) (drop n xs) \<and>
     (\<forall>x \<in> set (take n xs). \<forall>y \<in> set (drop n xs). cmp x y \<le> 0)"

lemma sort_inv_step:
  assumes inv: "sort_inv (Suc (Suc k)) xs"
  defines "zs \<equiv> sift cmp (Suc k) 0 (swap xs 0 (Suc k))"
  shows "sort_inv (Suc k) zs \<and> mset zs = mset xs"
proof -
  let ?ys = "swap xs 0 (Suc k)"
  have len: "Suc (Suc k) \<le> length xs" and heap: "heap_from 0 (Suc (Suc k)) xs" using inv by (auto simp: sort_inv_def)
  have at: "?ys ! i = xs ! i" if "i \<noteq> 0" "i < Suc k" for i using that by (simp add: swap_def nth_list_update)
  have "hole_at 0 0 (Suc k) ?ys" unfolding hole_at_def
  proof (intro conjI allI impI)
    fix i c assume c: "0 \<le> i \<and> i \<noteq> 0 \<and> c < Suc k \<and> (c = 2 * i + 1 \<or> c = 2 * i + 2)"
    then have "cmp (xs ! c) (xs ! i) \<le> 0" using heap by (simp add: heap_from_def)
    moreover have "i < Suc k" "c \<noteq> 0" using c by linarith+
    ultimately show "cmp (?ys ! c) (?ys ! i) \<le> 0" using at c by simp
  qed simp
  then have z: "heap_from 0 (Suc k) zs" "rearranged (Suc k) ?ys zs"
    using sift_heap [of 0 0 "Suc k" ?ys] len unfolding zs_def by simp_all
  have y: "rearranged (Suc (Suc k)) xs ?ys" using len by (intro rearranged_swap) auto
  have "drop (Suc k) ?ys = ?ys ! Suc k # drop (Suc (Suc k)) ?ys" using len by (simp add: Cons_nth_drop_Suc)
  also have "?ys ! Suc k = xs ! 0" using len by (simp add: swap_def)
  finally have tl: "drop (Suc k) zs = xs ! 0 # drop (Suc (Suc k)) xs"
    using z(2) y by (simp add: rearranged_def)
  have "set (take (Suc k) zs) = set (take (Suc k) ?ys)" using z(2) unfolding rearranged_def by (metis mset_eq_setD)
  also have "\<dots> \<subseteq> set (take (Suc (Suc k)) ?ys)" by (rule set_take_subset_set_take) simp
  also have "\<dots> = set (take (Suc (Suc k)) xs)" using y unfolding rearranged_def by (metis mset_eq_setD)
  finally have sub: "set (take (Suc k) zs) \<subseteq> set (take (Suc (Suc k)) xs)" .
  have root: "cmp x (xs ! 0) \<le> 0" if "x \<in> set (take (Suc (Suc k)) xs)" for x
    using that len heap_root [OF heap] by (auto simp: in_set_conv_nth)
  have hd: "xs ! 0 \<in> set (take (Suc (Suc k)) xs)" using len by (cases xs) auto
  have mset: "mset zs = mset xs"
    using z(2) y unfolding rearranged_def by (metis append_take_drop_id mset_append)
  have "sort_inv (Suc k) zs"
    unfolding sort_inv_def tl using inv z(2) z(1) len sub root hd
    by (auto simp: sort_inv_def rearranged_def)
  with mset show ?thesis by simp
qed

lemma sort_rounds_sorted:
  "sort_inv (Suc k) xs \<Longrightarrow> sorted_wrt (\<lambda>x y. cmp x y \<le> 0) (sort_rounds cmp k xs) \<and> mset (sort_rounds cmp k xs) = mset xs"
proof (induction k arbitrary: xs)
  case 0
  have "xs = take 1 xs @ drop 1 xs" by simp
  moreover have "sorted_wrt (\<lambda>x y. cmp x y \<le> 0) (take 1 xs @ drop 1 xs)"
    using 0 unfolding sorted_wrt_append by (cases xs) (auto simp: sort_inv_def)
  ultimately show ?case by simp
next
  case (Suc k)
  with sort_inv_step [OF Suc.prems] show ?case by simp
qed

lemma sort_array_sorts:
  assumes "0 < sz" "sz < 2 ^ 31" "length xs * sz \<le> 2 ^ 30"
  shows "\<exists>ys. sort_array cmp (of_nat (length xs)) (of_nat sz) xs = Some ys \<and> sorted_wrt (\<lambda>x y. cmp x y \<le> 0) ys \<and> mset ys = mset xs"
proof -
  let ?h = "heapify cmp (length xs) (length xs div 2) xs"
  have h: "heap_from 0 (length xs) ?h" "mset ?h = mset xs" "length ?h = length xs"
    using heapify_heap [OF heap_from_half le_refl, of xs] by (auto simp: rearranged_def)
  show ?thesis
  proof (cases "length xs")
    case 0
    then show ?thesis using sort_array_scaled [OF assms, of cmp] by simp
  next
    case (Suc k)
    then have "sort_inv (Suc k) ?h" using h by (simp add: sort_inv_def)
    from sort_rounds_sorted [OF this] h(2) Suc sort_array_scaled [OF assms, of cmp] show ?thesis by simp
  qed
qed

end

section \<open>The swap functions\<close>

definition swap_mem :: "mem \<Rightarrow> ulong \<Rightarrow> ulong \<Rightarrow> nat \<Rightarrow> mem" where
  "swap_mem m a b n = (\<lambda>x. if unat (x - a) < n then m (b + (x - a))
     else if unat (x - b) < n then m (a + (x - b)) else m x)"

definition apart :: "ulong \<Rightarrow> ulong \<Rightarrow> nat \<Rightarrow> bool" where
  "apart a b n \<longleftrightarrow> n \<le> unat (a - b) \<and> n \<le> unat (b - a)"

lemma generic_swap_loop_spec:
  "n < 2 ^ 32 \<Longrightarrow> apart a b n \<Longrightarrow> generic_swap_loop n m a b = swap_mem m a b n"
proof (induction n arbitrary: m a b)
  case 0
  then show ?case by (simp add: swap_mem_def)
next
  case (Suc n)
  let ?m = "m(a := m b, b := m a)"
  have ne: "a \<noteq> b" and ap: "apart (a + 1) (b + 1) n" using Suc.prems(2) by (auto simp: apart_def)
  have far: "\<not> unat (a - (b + 1)) < n" "\<not> unat (b - (a + 1)) < n"
    using Suc.prems(2) ne offset_Suc [of a b] offset_Suc [of b a] by (auto simp: apart_def)
  have n: "n < 2 ^ 32" using Suc.prems(1) by simp
  have "swap_mem ?m (a + 1) (b + 1) n x = swap_mem m a b (Suc n) x" for x
  proof -
    have sh: "b + 1 + (x - (a + 1)) = b + (x - a)" "a + 1 + (x - (b + 1)) = a + (x - b)" by simp_all
    have in_a: "?m (b + (x - a)) = m (b + (x - a))" if "x \<noteq> a" "unat (x - a) < Suc n"
    proof -
      have "b + (x - a) \<noteq> a"
      proof
        assume "b + (x - a) = a"
        then have "x - a = a - b" by (simp add: algebra_simps)
        with that Suc.prems(2) show False by (simp add: apart_def)
      qed
      with that show ?thesis by simp
    qed
    have in_b: "?m (a + (x - b)) = m (a + (x - b))" if "x \<noteq> b" "unat (x - b) < Suc n"
    proof -
      have "a + (x - b) \<noteq> b"
      proof
        assume "a + (x - b) = b"
        then have "x - b = b - a" by (simp add: algebra_simps)
        with that Suc.prems(2) show False by (simp add: apart_def)
      qed
      with that show ?thesis by simp
    qed
    consider "x = a" | "x = b" | "x \<noteq> a" "x \<noteq> b" by blast
    then show ?thesis
    proof cases
      case 1
      with far n ne offset_self [OF n, of a] show ?thesis by (simp add: swap_mem_def)
    next
      case 2
      have "\<not> unat (b - a) < Suc n" using Suc.prems(2) by (simp add: apart_def)
      with 2 far n offset_self [OF n, of b] show ?thesis by (simp add: swap_mem_def)
    next
      case 3
      with in_a in_b offset_Suc [of x a] offset_Suc [of x b] show ?thesis unfolding swap_mem_def sh by auto
    qed
  qed
  then have "swap_mem ?m (a + 1) (b + 1) n = swap_mem m a b (Suc n)" by (rule ext)
  with Suc.IH [OF n ap, of ?m] show ?case unfolding generic_swap_loop.simps by (rule trans)
qed

lemma apart_disjoint:
  assumes "apart a b n" "unat (x - a) < n"
  shows "\<not> unat (x - b) < n"
proof
  assume near: "unat (x - b) < n"
  have "a - b = (x - b) - (x - a)" "b - a = (x - a) - (x - b)" by simp_all
  then have "unat (a - b) = unat (x - b) - unat (x - a) \<or> unat (b - a) = unat (x - a) - unat (x - b)"
    using unat_sub_no_wrap [of "x - a" "x - b"] unat_sub_no_wrap [of "x - b" "x - a"] nat_le_linear by metis
  with near assms show False by (auto simp: apart_def)
qed

lemma word_swap_spec:
  assumes "n < 2 ^ 32" "apart a b n"
  shows "store_bytes (store_bytes m a (bytes m b n)) b (bytes m a n) = swap_mem m a b n"
proof
  fix x
  have "bytes m p n ! unat (x - q) = m (p + (x - q))" if "unat (x - q) < n" for p q
    using that by (simp add: bytes_def)
  moreover have "\<not> (unat (x - a) < n \<and> unat (x - b) < n)" using apart_disjoint [OF assms(2)] by blast
  ultimately show "store_bytes (store_bytes m a (bytes m b n)) b (bytes m a n) x = swap_mem m a b n x"
    by (auto simp: store_bytes_def swap_mem_def bytes_def)
qed

text \<open>The elements of an array of \<open>num\<close> elements of \<open>sz\<close> bytes.\<close>

definition elements :: "mem \<Rightarrow> ulong \<Rightarrow> nat \<Rightarrow> nat \<Rightarrow> u8 list list" where
  "elements m base sz num = map (\<lambda>k. bytes m (base + of_nat (k * sz)) sz) [0..<num]"

lemma default_swap_spec:
  assumes "0 < sz" "sz < 2 ^ 31" "apart a b sz"
  shows "default_swap base (of_nat sz) m a b (int sz) = swap_mem m a b sz"
proof -
  have eq: "of_nat sz = (4 :: ulong) \<longleftrightarrow> sz = 4" "of_nat sz = (8 :: ulong) \<longleftrightarrow> sz = 8"
    using assms(2) unat_of_nat32 [of sz] by (auto simp: word_eq_iff_unsigned)
  show ?thesis
    using assms word_swap_spec [of sz a b m] generic_swap_loop_spec [of sz a b m]
    unfolding default_swap_def eq u32_swap_def u64_swap_def generic_swap_def Let_def by auto
qed

lemma unat_minus_ulong: "x \<noteq> 0 \<Longrightarrow> unat (- x :: ulong) = 2 ^ 32 - unat x"
proof -
  assume x: "x \<noteq> 0"
  have m1: "unat (- 1 :: ulong) = 2 ^ 32 - 1" by (simp add: unsigned_minus_1_eq_mask mask_eq_exp_minus_1)
  have "unat (- 1 - x) = 2 ^ 32 - 1 - unat x"
    using unat_sub_no_wrap [of x "- 1"] unat_lt32 [of x] m1 by simp
  then have "unat ((- 1 - x) + 1) = 2 ^ 32 - unat x"
    using x unat_lt32 [of x] unat_gt_0 [of x] unat_add_no_wrap [of "- 1 - x" 1] by simp
  then show ?thesis by simp
qed

lemma offset_diff:
  assumes "y \<le> x" "x < 2 ^ 32"
  shows "unat (base + of_nat x - (base + of_nat y) :: ulong) = x - y"
    "x \<noteq> y \<Longrightarrow> unat (base + of_nat y - (base + of_nat x) :: ulong) = 2 ^ 32 - (x - y)"
proof -
  have "base + of_nat x - (base + of_nat y) = (of_nat (x - y) :: ulong)" using assms by (simp add: of_nat_diff)
  then show 1: "unat (base + of_nat x - (base + of_nat y) :: ulong) = x - y"
    using assms unat_of_nat32 [of "x - y"] by simp
  assume "x \<noteq> y"
  then have ne: "base + of_nat x - (base + of_nat y) \<noteq> (0 :: ulong)" using 1 assms by auto
  have "base + of_nat y - (base + of_nat x) = - (base + of_nat x - (base + of_nat y) :: ulong)" by simp
  then have "unat (base + of_nat y - (base + of_nat x) :: ulong) = 2 ^ 32 - unat (base + of_nat x - (base + of_nat y) :: ulong)"
    using ne unat_minus_ulong by metis
  with 1 show "unat (base + of_nat y - (base + of_nat x) :: ulong) = 2 ^ 32 - (x - y)" by simp
qed

lemma elements_apart:
  assumes "i < num" "k < num" "i \<noteq> k" "num * sz < 2 ^ 31" "0 < sz"
  shows "apart (base + of_nat (i * sz)) (base + of_nat (k * sz)) sz"
proof -
  have main: "apart (base + of_nat (i * sz)) (base + of_nat (k * sz)) sz \<and>
      apart (base + of_nat (k * sz)) (base + of_nat (i * sz)) sz" if "k < i" "i < num" for i k
  proof -
    have le: "Suc k * sz \<le> i * sz" "Suc i * sz \<le> num * sz" using that by (intro mult_le_mono1; simp)+
    then have "sz \<le> i * sz - k * sz" "i * sz - k * sz < 2 ^ 31" "sz < 2 ^ 31" "k * sz \<le> i * sz" "i * sz \<noteq> k * sz"
      using assms(4,5) unfolding mult_Suc by linarith+
    with offset_diff [of "k * sz" "i * sz" base] assms(4) le show ?thesis by (simp add: apart_def)
  qed
  from assms(1-3) show ?thesis by (cases "k < i") (use main in auto)
qed

lemma bytes_swap_mem:
  assumes "sz < 2 ^ 32" "apart a b sz"
  shows "bytes (swap_mem m a b sz) a sz = bytes m b sz" "bytes (swap_mem m a b sz) b sz = bytes m a sz"
    "apart c a sz \<Longrightarrow> apart c b sz \<Longrightarrow> bytes (swap_mem m a b sz) c sz = bytes m c sz"
proof -
  have at: "unat (p + of_nat i - p :: ulong) < sz" if "i < sz" for i p
    using that assms(1) unat_of_nat32 [of i] by simp
  show "bytes (swap_mem m a b sz) a sz = bytes m b sz"
    using at [of _ a] by (simp add: bytes_def swap_mem_def)
  have "\<not> unat (b + of_nat i - a) < sz" if "i < sz" for i
    using at [OF that, of b] apart_disjoint [OF assms(2)] by blast
  then show "bytes (swap_mem m a b sz) b sz = bytes m a sz"
    using at [of _ b] by (simp add: bytes_def swap_mem_def)
  assume c: "apart c a sz" "apart c b sz"
  have "\<not> unat (c + of_nat i - a) < sz" "\<not> unat (c + of_nat i - b) < sz" if "i < sz" for i
    using at [OF that, of c] apart_disjoint [OF c(1)] apart_disjoint [OF c(2)] by blast+
  then show "bytes (swap_mem m a b sz) c sz = bytes m c sz" by (simp add: bytes_def swap_mem_def)
qed

lemma swap_mem_elements:
  assumes ij: "i < num" "j < num" "i \<noteq> j" and fits: "num * sz < 2 ^ 31" and "0 < sz"
  shows "elements (swap_mem m (base + of_nat (i * sz)) (base + of_nat (j * sz)) sz) base sz num =
      swap (elements m base sz num) i j"
proof (rule nth_equalityI)
  have "Suc i * sz \<le> num * sz" using ij(1) by (intro mult_le_mono1) simp
  then have sz: "sz < 2 ^ 32" using fits by simp
  fix k assume "k < length (elements (swap_mem m (base + of_nat (i * sz)) (base + of_nat (j * sz)) sz) base sz num)"
  then have k: "k < num" by (simp add: elements_def)
  note ap = elements_apart [OF _ _ _ fits \<open>0 < sz\<close>, of _ _ base]
  note sw = bytes_swap_mem [OF sz ap [OF ij]]
  have "bytes (swap_mem m (base + of_nat (i * sz)) (base + of_nat (j * sz)) sz) (base + of_nat (k * sz)) sz =
      (if k = i then bytes m (base + of_nat (j * sz)) sz else if k = j then bytes m (base + of_nat (i * sz)) sz
       else bytes m (base + of_nat (k * sz)) sz)"
    using sw(1,2) sw(3) [OF ap [OF k ij(1)] ap [OF k ij(2)]] by (cases "k = i"; cases "k = j") simp_all
  then show "elements (swap_mem m (base + of_nat (i * sz)) (base + of_nat (j * sz)) sz) base sz num ! k =
      swap (elements m base sz num) i j ! k"
    using ij k by (simp add: elements_def swap_def nth_list_update)
qed (simp add: elements_def)

section \<open>Properties\<close>

text \<open>
  C20: for every comparison function that is antisymmetric and transitive, \<open>sort\<close> returns and leaves the elements it was
  given in ascending order.  The whole array has at most 2^30 bytes, so that no \<^verbatim>\<open>int\<close> counter of the code overflows.
\<close>

theorem sort_array_correct:
  assumes "comparison cmp" "0 < sz" "sz < 2 ^ 31" "length base * sz \<le> 2 ^ 30"
  shows "\<exists>ys. sort_array cmp (of_nat (length base)) (of_nat sz) base = Some ys \<and>
    sorted_wrt (\<lambda>x y. cmp x y \<le> 0) ys \<and> mset ys = mset base"
  using comparison.sort_array_sorts [OF assms] .

theorem sort_array_correct_witness:
  "\<exists>ys. sort_array (-) 3 4 [3, 1, 2 :: int] = Some ys \<and> sorted_wrt (\<lambda>x y. x - y \<le> 0) ys \<and> mset ys = {#3, 1, 2#}"
proof -
  have "comparison ((-) :: int \<Rightarrow> int \<Rightarrow> int)" by unfold_locales simp_all
  from sort_array_correct [OF this, of 4 "[3, 1, 2]"] show ?thesis by simp
qed

text \<open>
  The bound is needed: with an array of 2^31 bytes or more the second loop, whose counter is negative, does not run at all.
\<close>

lemma sort_loop_overflow: "sint (num * sz - sz) < 0 \<Longrightarrow> sort_loop cmp sz (num * sz - sz) base = Some base"
  by (subst sort_loop.simps) simp

text \<open>With elements of size zero the first loop never ends.\<close>

lemma sort_size_zero: "sort_array cmp num 0 base = None"
proof -
  have False if "heapify_loop cmp 0 0 0 base = Some ys" for ys
  proof -
    have "\<not> ((0 :: u32) = 0 \<and> (0 :: u32) = 0 \<and> (0 :: u32) = 0)"
    proof (rule heapify_loop.raw_induct [where P = "\<lambda>cmp sz n i base ys. \<not> (sz = 0 \<and> n = 0 \<and> i = 0)", OF _ that], goal_cases)
      case (1 f cmp sz n i base ys)
      from 1(2) show ?case by (auto simp: bind_eq_Some_conv dest!: 1(1))
    qed
    then show False by simp
  qed
  then have "heapify_loop cmp 0 0 0 base = None" by (cases "heapify_loop cmp 0 0 0 base") auto
  then show ?thesis by (simp add: sort_array_def Let_def)
qed

text \<open>
  the swap function that \<open>sort\<close> chooses when the caller passes none exchanges two elements of the array
  and leaves the other elements alone, for every element size and alignment.
\<close>

theorem default_swap_correct:
  assumes "i < num" "j < num" "i \<noteq> j" "0 < sz" "num * sz < 2 ^ 31"
  shows "elements (default_swap base (of_nat sz) m (base + of_nat (i * sz)) (base + of_nat (j * sz)) (int sz)) base sz num =
      swap (elements m base sz num) i j"
proof -
  have "Suc i * sz \<le> num * sz" using assms(1) by (intro mult_le_mono1) simp
  then have "sz < 2 ^ 31" using assms(5) by simp
  with default_swap_spec [OF assms(4) _ elements_apart [OF assms(1-3,5,4)]] show ?thesis
    by (simp only: swap_mem_elements [OF assms(1-3,5,4)])
qed

theorem default_swap_correct_witness:
  "elements (default_swap 0x1000 (of_nat 4) hello (0x1000 + of_nat (0 * 4)) (0x1000 + of_nat (1 * 4)) (int 4)) 0x1000 4 2 =
      swap (elements hello 0x1000 4 2) 0 1"
  by (rule default_swap_correct) simp_all

end
