(* ===== verification/E820.thy ===== *)
theory E820
  imports Sort Memblock_Store
begin

text \<open>
  The BIOS memory map of \<^verbatim>\<open>arch/x86/kernel/e820.c\<close>: the clean-up of overlapping entries, the kernel's
  own copy of the map, the highest page frame, and the hand-over to memblock.  A pointer into the
  BIOS map (\<^verbatim>\<open>pbios\<close>) is the index of the entry.
\<close>

section \<open>Data\<close>

definition E820MAX :: nat where "E820MAX = 128"

definition E820_RAM :: u32 where "E820_RAM = 1"
definition E820_RESERVED :: u32 where "E820_RESERVED = 2"
definition E820_ACPI :: u32 where "E820_ACPI = 3"
definition E820_NVS :: u32 where "E820_NVS = 4"
definition E820_UNUSABLE :: u32 where "E820_UNUSABLE = 5"
definition E820_PMEM :: u32 where "E820_PMEM = 7"
definition E820_PRAM :: u32 where "E820_PRAM = 12"
definition E820_RESERVED_KERN :: u32 where "E820_RESERVED_KERN = 128"

record e820entry =
  e_addr :: u64
  e_size :: u64
  e_type :: u32

record e820map =
  nr_entries :: u32
  e_map :: "e820entry list"

definition mk_entry :: "u64 \<Rightarrow> u64 \<Rightarrow> u32 \<Rightarrow> e820entry" where
  "mk_entry addr sz type = \<lparr>e_addr = addr, e_size = sz, e_type = type\<rparr>"

definition MAX_ARCH_PFN :: u64 where
  "MAX_ARCH_PFN = push_bit (32 - PAGE_SHIFT) 1"

section \<open>The highest page frame\<close>

fun e820_end_pfn_loop :: "ulong \<Rightarrow> e820entry list \<Rightarrow> ulong \<Rightarrow> ulong" where
  "e820_end_pfn_loop limit_pfn [] last_pfn = last_pfn"
| "e820_end_pfn_loop limit_pfn (ei # es) last_pfn =
     (if e_type ei \<noteq> E820_RAM \<and> e_type ei \<noteq> E820_PRAM then e820_end_pfn_loop limit_pfn es last_pfn
      else (let start_pfn = ucast (drop_bit PAGE_SHIFT (e_addr ei)) :: ulong;
                end_pfn = ucast (drop_bit PAGE_SHIFT (e_addr ei + e_size ei)) :: ulong in
            if start_pfn > limit_pfn then e820_end_pfn_loop limit_pfn es last_pfn
            else if end_pfn > limit_pfn then limit_pfn
            else e820_end_pfn_loop limit_pfn es (if end_pfn > last_pfn then end_pfn else last_pfn)))"

definition e820_end_pfn :: "e820map \<Rightarrow> ulong \<Rightarrow> ulong" where
  "e820_end_pfn e820 limit_pfn =
     (let max_arch_pfn = ucast MAX_ARCH_PFN :: ulong;
          last_pfn = e820_end_pfn_loop limit_pfn (take (unat (nr_entries e820)) (e_map e820)) 0 in
      if last_pfn > max_arch_pfn then max_arch_pfn else last_pfn)"

definition e820_end_of_ram_pfn :: "e820map \<Rightarrow> ulong" where
  "e820_end_of_ram_pfn e820 = e820_end_pfn e820 (ucast MAX_ARCH_PFN)"

definition e820_end_of_low_ram_pfn :: "e820map \<Rightarrow> ulong" where
  "e820_end_of_low_ram_pfn e820 = e820_end_pfn e820 (push_bit (32 - PAGE_SHIFT) 1)"

definition e820_type_to_string :: "u32 \<Rightarrow> string" where
  "e820_type_to_string e820_type =
     (if e820_type = E820_RESERVED_KERN \<or> e820_type = E820_RAM then ''System RAM''
      else if e820_type = E820_ACPI then ''ACPI Tables''
      else if e820_type = E820_NVS then ''ACPI Non-volatile Storage''
      else if e820_type = E820_UNUSABLE then ''Unusable memory''
      else if e820_type = E820_PRAM then ''Persistent Memory (legacy)''
      else if e820_type = E820_PMEM then ''Persistent Memory''
      else ''Reserved'')"

section \<open>Sanitizing the BIOS map\<close>

record change_member =
  pbios :: nat
  cp_addr :: u64

definition mk_change :: "nat \<Rightarrow> u64 \<Rightarrow> change_member" where
  "mk_change i a = \<lparr>pbios = i, cp_addr = a\<rparr>"

definition cpcompare :: "e820entry list \<Rightarrow> change_member \<Rightarrow> change_member \<Rightarrow> int" where
  "cpcompare biosmap ap bp =
     (if cp_addr ap \<noteq> cp_addr bp then (if cp_addr ap > cp_addr bp then 1 else - 1)
      else of_bool (cp_addr ap \<noteq> e_addr (biosmap ! pbios ap)) - of_bool (cp_addr bp \<noteq> e_addr (biosmap ! pbios bp)))"

text \<open>The change points of entry \<open>i\<close> of the map; an empty entry has none.\<close>

definition entry_changes :: "e820entry list \<Rightarrow> nat \<Rightarrow> change_member list" where
  "entry_changes biosmap i =
     (if e_size (biosmap ! i) \<noteq> 0
      then [mk_change i (e_addr (biosmap ! i)), mk_change i (e_addr (biosmap ! i) + e_size (biosmap ! i))]
      else [])"

definition change_points :: "e820entry list \<Rightarrow> nat \<Rightarrow> change_member list" where
  "change_points biosmap old_nr = concat (map (entry_changes biosmap) [0..<old_nr])"

text \<open>
  The variables of the sweep.  \<open>overlap_list\<close> holds the first \<^verbatim>\<open>overlap_entries\<close> elements of the array;
  \<open>new_bios\<close> is the whole array.
\<close>

record sweep =
  overlap_list :: "nat list"
  new_bios :: "e820entry list"
  new_bios_entry :: nat
  last_type :: ulong
  last_addr :: u64

text \<open>Removing an entry: every slot that holds it gets the last slot's content, and the count drops.\<close>

definition overlap_remove :: "nat \<Rightarrow> nat list \<Rightarrow> nat list" where
  "overlap_remove p ol = butlast (map (\<lambda>q. if q = p then last ol else q) ol)"

definition overlap_update :: "e820entry list \<Rightarrow> change_member \<Rightarrow> nat list \<Rightarrow> nat list" where
  "overlap_update biosmap cp ol =
     (if cp_addr cp = e_addr (biosmap ! pbios cp) then ol @ [pbios cp] else overlap_remove (pbios cp) ol)"

definition overlap_type :: "e820entry list \<Rightarrow> nat list \<Rightarrow> ulong" where
  "overlap_type biosmap ol =
     fold (\<lambda>i current_type. if e_type (biosmap ! i) > current_type then e_type (biosmap ! i) else current_type) ol 0"

text \<open>
  Closing the entry under construction gives it its size and moves on to the next slot unless it is
  empty; opening one writes its address and type.
\<close>

definition close_entry :: "u64 \<Rightarrow> sweep \<Rightarrow> sweep" where
  "close_entry addr s =
     (if last_type s \<noteq> 0 then
        (let k = new_bios_entry s;
             s = s\<lparr>new_bios := (new_bios s)[k := (new_bios s ! k)\<lparr>e_size := addr - last_addr s\<rparr>]\<rparr> in
         if e_size (new_bios s ! k) \<noteq> 0 then s\<lparr>new_bios_entry := Suc k\<rparr> else s)
      else s)"

definition open_entry :: "u64 \<Rightarrow> ulong \<Rightarrow> sweep \<Rightarrow> sweep" where
  "open_entry addr current_type s =
     (if current_type \<noteq> 0 then
        (let k = new_bios_entry s in
         s\<lparr>new_bios := (new_bios s)[k := (new_bios s ! k)\<lparr>e_addr := addr, e_type := current_type\<rparr>],
           last_addr := addr\<rparr>)
      else s)"

text \<open>
  One turn of the loop over the change points; the flag tells that the loop ends with
  \<^verbatim>\<open>break\<close> because the new map is full.
\<close>

definition sweep_step :: "e820entry list \<Rightarrow> nat \<Rightarrow> change_member \<Rightarrow> sweep \<Rightarrow> bool \<times> sweep" where
  "sweep_step biosmap max_nr_map cp s =
     (let s = s\<lparr>overlap_list := overlap_update biosmap cp (overlap_list s)\<rparr>;
          current_type = overlap_type biosmap (overlap_list s) in
      if current_type \<noteq> last_type s \<or> current_type = E820_PRAM then
        (let s' = close_entry (cp_addr cp) s in
         if new_bios_entry s' \<noteq> new_bios_entry s \<and> new_bios_entry s' \<ge> max_nr_map then (True, s')
         else (False, (open_entry (cp_addr cp) current_type s')\<lparr>last_type := current_type\<rparr>))
      else (False, s))"

fun sweep_loop :: "e820entry list \<Rightarrow> nat \<Rightarrow> change_member list \<Rightarrow> sweep \<Rightarrow> sweep" where
  "sweep_loop biosmap max_nr_map [] s = s"
| "sweep_loop biosmap max_nr_map (cp # cps) s =
     (case sweep_step biosmap max_nr_map cp s of
        (True, s) \<Rightarrow> s
      | (False, s) \<Rightarrow> sweep_loop biosmap max_nr_map cps s)"

definition sweep_init :: sweep where
  "sweep_init = \<lparr>overlap_list = [], new_bios = replicate E820MAX (mk_entry 0 0 0), new_bios_entry = 0,
     last_type = 0, last_addr = 0\<rparr>"

text \<open>
  \<^verbatim>\<open>sizeof *change_point\<close> is the size of a pointer, 4.  The result is the return value, the array and
  \<^verbatim>\<open>*pnr_map\<close>.
\<close>

definition sanitize_e820_map :: "e820entry list \<Rightarrow> int \<Rightarrow> u32 \<Rightarrow> (int \<times> e820entry list \<times> u32) kres" where
  "sanitize_e820_map biosmap max_nr_map nr_map =
     (if nr_map < 2 then Inr (- 1, biosmap, nr_map)
      else (let old_nr = sint nr_map in
        if old_nr > max_nr_map then Inl BugOn
        else if list_ex (\<lambda>e. e_addr e + e_size e < e_addr e) (take (nat old_nr) biosmap) then Inr (- 1, biosmap, nr_map)
        else (let change_point = change_points biosmap (nat old_nr) in
          case sort_array (cpcompare biosmap) (of_nat (length change_point)) 4 change_point of
            None \<Rightarrow> Inl Diverged
          | Some change_point \<Rightarrow>
             (let s = sweep_loop biosmap (nat max_nr_map) change_point sweep_init;
                  new_nr = new_bios_entry s in
              Inr (0, take new_nr (new_bios s) @ drop new_nr biosmap, of_nat new_nr)))))"

section \<open>The kernel's map\<close>

text \<open>The globals: \<^verbatim>\<open>boot_params.e820_map\<close> with its count, \<^verbatim>\<open>e820\<close> and \<^verbatim>\<open>e820_bios\<close>.\<close>

record e820_state =
  bp_map :: "e820entry list"
  bp_nr :: u32
  e820 :: e820map
  e820_bios :: e820map

definition e820_add_region_raw :: "e820map \<Rightarrow> u64 \<Rightarrow> u64 \<Rightarrow> u32 \<Rightarrow> e820map" where
  "e820_add_region_raw e820x start sz type =
     (let x = sint (nr_entries e820x) in
      if (of_int x :: u32) \<ge> of_nat E820MAX then e820x
      else e820x\<lparr>e_map := (e_map e820x)[nat x := mk_entry start sz type], nr_entries := nr_entries e820x + 1\<rparr>)"

definition e820_add_region :: "u64 \<Rightarrow> u64 \<Rightarrow> u32 \<Rightarrow> e820_state \<Rightarrow> e820_state" where
  "e820_add_region start sz type st = st\<lparr>e820 := e820_add_region_raw (e820 st) start sz type\<rparr>"

fun append_e820_map_raw :: "e820entry list \<Rightarrow> e820_state \<Rightarrow> int \<times> e820_state" where
  "append_e820_map_raw [] st = (0, st)"
| "append_e820_map_raw (b # biosmap) st =
     (if e_addr b > e_addr b + e_size b then (- 1, st)
      else append_e820_map_raw biosmap (e820_add_region (e_addr b) (e_size b) (e_type b) st))"

definition append_e820_map :: "e820entry list \<Rightarrow> int \<Rightarrow> e820_state \<Rightarrow> int \<times> e820_state" where
  "append_e820_map biosmap nr_map st =
     (if nr_map < 2 then (- 1, st) else append_e820_map_raw (take (nat nr_map) biosmap) st)"

text \<open>The printing of the map at the end of \<^verbatim>\<open>setup_memory_map\<close> is left out.\<close>

definition setup_memory_map :: "e820_state \<Rightarrow> e820_state kres" where
  "setup_memory_map st =
     kbind (sanitize_e820_map (bp_map st) (int E820MAX) (bp_nr st)) (\<lambda>(ret, biosmap, new_nr).
       let st = st\<lparr>bp_map := biosmap, bp_nr := new_nr\<rparr> in
       case append_e820_map (bp_map st) (sint (bp_nr st)) st of (ret, st) \<Rightarrow>
         if ret < 0 then Inl Panic else Inr (st\<lparr>e820_bios := e820 st\<rparr>))"

fun memblock_x86_fill_loop :: "e820entry list \<Rightarrow> memblock \<Rightarrow> memblock kres" where
  "memblock_x86_fill_loop [] mb = Inr mb"
| "memblock_x86_fill_loop (ei # es) mb =
     (let end_addr = e_addr ei + e_size ei in
      if end_addr \<noteq> ucast (ucast end_addr :: phys_addr_t) then memblock_x86_fill_loop es mb
      else if e_type ei \<noteq> E820_RAM then memblock_x86_fill_loop es mb
      else kbind (memblock_add (ucast (e_addr ei)) (ucast (e_size ei)) mb) (\<lambda>(ret, mb). memblock_x86_fill_loop es mb))"

definition memblock_x86_fill :: "e820_state \<Rightarrow> memblock \<Rightarrow> memblock kres" where
  "memblock_x86_fill st mb =
     kbind (memblock_x86_fill_loop (take (unat (nr_entries (e820 st))) (e_map (e820 st))) mb)
       (memblock_trim_memory PAGE_SIZE)"

end
