(* ===== verification/Resource.thy ===== *)
theory Resource
  imports Sandix_Prelude
begin

text \<open>
  The tree of I/O port and memory ranges of \<^verbatim>\<open>kernel/resource.c\<close>.  Nodes live in a heap addressed by
  pointers, with 0 for \<^verbatim>\<open>NULL\<close>; siblings are linked in address order.  A \<^verbatim>\<open>struct resource **\<close> is a
  slot: the child field or the sibling field of a node.  The loops follow pointers and are partial; the lemmas
  show that they return on well-formed trees.  The spin lock around the operations is left out.
\<close>

section \<open>Data\<close>

type_synonym resource_size_t = "32 word"

record resource =
  res_start :: resource_size_t
  res_end :: resource_size_t
  res_name :: string
  res_flags :: ulong
  parent :: ulong
  sibling :: ulong
  child :: ulong

type_synonym heap = "ulong \<Rightarrow> resource"

definition IORESOURCE_IO :: ulong where "IORESOURCE_IO = 0x100"
definition IORESOURCE_MEM :: ulong where "IORESOURCE_MEM = 0x200"
definition IORESOURCE_IRQ :: ulong where "IORESOURCE_IRQ = 0x400"
definition IORESOURCE_DMA :: ulong where "IORESOURCE_DMA = 0x800"
definition IORESOURCE_BUS :: ulong where "IORESOURCE_BUS = 0x1000"
definition IORESOURCE_PREFETCH :: ulong where "IORESOURCE_PREFETCH = 0x2000"
definition IORESOURCE_MEM_64 :: ulong where "IORESOURCE_MEM_64 = 0x100000"
definition IORESOURCE_WINDOW :: ulong where "IORESOURCE_WINDOW = 0x200000"
definition IORESOURCE_DISABLED :: ulong where "IORESOURCE_DISABLED = 0x10000000"
definition IORESOURCE_UNSET :: ulong where "IORESOURCE_UNSET = 0x20000000"
definition IO_SPACE_LIMIT :: resource_size_t where "IO_SPACE_LIMIT = 0xffff"

definition ioport_resource :: resource where
  "ioport_resource = \<lparr>res_start = 0, res_end = IO_SPACE_LIMIT, res_name = ''PCI IO'', res_flags = IORESOURCE_IO,
     parent = 0, sibling = 0, child = 0\<rparr>"

definition iomem_resource :: resource where
  "iomem_resource = \<lparr>res_start = 0, res_end = - 1, res_name = ''PCI memory'', res_flags = IORESOURCE_MEM,
     parent = 0, sibling = 0, child = 0\<rparr>"

definition resource_size :: "resource \<Rightarrow> resource_size_t" where
  "resource_size res = res_end res - res_start res + 1"

datatype slot = ChildOf ulong | SiblingOf ulong

fun read_slot :: "heap \<Rightarrow> slot \<Rightarrow> ulong" where
  "read_slot h (ChildOf x) = child (h x)"
| "read_slot h (SiblingOf x) = sibling (h x)"

fun write_slot :: "heap \<Rightarrow> slot \<Rightarrow> ulong \<Rightarrow> heap" where
  "write_slot h (ChildOf x) v = h(x := (h x)\<lparr>child := v\<rparr>)"
| "write_slot h (SiblingOf x) v = h(x := (h x)\<lparr>sibling := v\<rparr>)"

definition set_sibling :: "heap \<Rightarrow> ulong \<Rightarrow> ulong \<Rightarrow> heap" where
  "set_sibling h x v = h(x := (h x)\<lparr>sibling := v\<rparr>)"

definition set_parent :: "heap \<Rightarrow> ulong \<Rightarrow> ulong \<Rightarrow> heap" where
  "set_parent h x v = h(x := (h x)\<lparr>parent := v\<rparr>)"

definition set_child :: "heap \<Rightarrow> ulong \<Rightarrow> ulong \<Rightarrow> heap" where
  "set_child h x v = h(x := (h x)\<lparr>child := v\<rparr>)"

definition returned :: "'a option \<Rightarrow> 'a kres" where
  "returned r = (case r of None \<Rightarrow> Inl Diverged | Some x \<Rightarrow> Inr x)"

section \<open>Requesting\<close>

partial_function (option) request_loop :: "heap \<Rightarrow> ulong \<Rightarrow> ulong \<Rightarrow> slot \<Rightarrow> (ulong \<times> heap) option" where
  "request_loop h root new p =
     (let tmp = read_slot h p in
      if tmp = 0 \<or> res_start (h tmp) > res_end (h new)
      then Some (0, set_parent (write_slot (set_sibling h new tmp) p new) new root)
      else if res_end (h tmp) < res_start (h new) then request_loop h root new (SiblingOf tmp)
      else Some (tmp, h))"

definition request_resource_raw :: "heap \<Rightarrow> ulong \<Rightarrow> ulong \<Rightarrow> (ulong \<times> heap) option" where
  "request_resource_raw h root new =
     (if res_end (h new) < res_start (h new) then Some (root, h)
      else if res_start (h new) < res_start (h root) then Some (root, h)
      else if res_end (h new) > res_end (h root) then Some (root, h)
      else request_loop h root new (ChildOf root))"

definition request_resource_conflict :: "heap \<Rightarrow> ulong \<Rightarrow> ulong \<Rightarrow> (ulong \<times> heap) kres" where
  "request_resource_conflict h root new = returned (request_resource_raw h root new)"

definition request_resource :: "heap \<Rightarrow> ulong \<Rightarrow> ulong \<Rightarrow> (int \<times> heap) kres" where
  "request_resource h root new =
     kbind (request_resource_conflict h root new) (\<lambda>(conflict, h). Inr (if conflict \<noteq> 0 then - EBUSY else 0, h))"

section \<open>Releasing\<close>

text \<open>Hand the children of \<open>tmp\<close> to its parent; the result is the last child.\<close>

partial_function (option) reparent_loop :: "heap \<Rightarrow> ulong \<Rightarrow> ulong \<Rightarrow> (ulong \<times> heap) option" where
  "reparent_loop h tmp chd =
     (let h = set_parent h chd (parent (h tmp)) in
      if sibling (h chd) = 0 then Some (chd, h) else reparent_loop h tmp (sibling (h chd)))"

partial_function (option) release_loop :: "heap \<Rightarrow> ulong \<Rightarrow> bool \<Rightarrow> slot \<Rightarrow> (int \<times> heap) option" where
  "release_loop h old release_child p =
     (let tmp = read_slot h p in
      if tmp = 0 then Some (- EINVAL, h)
      else if tmp = old then
        (if release_child \<or> child (h tmp) = 0
         then Some (0, set_parent (write_slot h p (sibling (h tmp))) old 0)
         else Option.bind (reparent_loop h tmp (child (h tmp))) (\<lambda>(chd, h).
           let h = write_slot h p (child (h tmp)); h = set_sibling h chd (sibling (h tmp)) in
           Some (0, set_parent h old 0)))
      else release_loop h old release_child (SiblingOf tmp))"

definition release_resource_raw :: "heap \<Rightarrow> ulong \<Rightarrow> bool \<Rightarrow> (int \<times> heap) kres" where
  "release_resource_raw h old release_child =
     (if parent (h old) = 0 then Inl NullDeref
      else returned (release_loop h old release_child (ChildOf (parent (h old)))))"

definition release_resource :: "heap \<Rightarrow> ulong \<Rightarrow> (int \<times> heap) kres" where
  "release_resource h old = release_resource_raw h old True"

section \<open>Inserting\<close>

text \<open>
  The first loop of \<^verbatim>\<open>__insert_resource\<close> descends to the innermost node that contains the new range.  It
  either returns from the function or goes on with the parent and the first conflict.
\<close>

datatype descent = Return ulong heap | GoOn ulong ulong heap

partial_function (option) insert_descend :: "heap \<Rightarrow> ulong \<Rightarrow> ulong \<Rightarrow> descent option" where
  "insert_descend h par new =
     Option.bind (request_resource_raw h par new) (\<lambda>(first, h).
       if first = 0 then Some (Return first h)
       else if first = par then Some (Return first h)
       else if first = new then Some (Return first h)
       else if res_start (h first) > res_start (h new) \<or> res_end (h first) < res_end (h new) then Some (GoOn par first h)
       else if res_start (h first) = res_start (h new) \<and> res_end (h first) = res_end (h new) then Some (GoOn par first h)
       else insert_descend h first new)"

text \<open>The last of the conflicting siblings (\<open>Inr\<close>), or the one that overlaps only in part (\<open>Inl\<close>).\<close>

partial_function (option) overlap_loop :: "heap \<Rightarrow> ulong \<Rightarrow> ulong \<Rightarrow> (ulong + ulong) option" where
  "overlap_loop h new nxt =
     (if res_start (h nxt) < res_start (h new) \<or> res_end (h nxt) > res_end (h new) then Some (Inl nxt)
      else if sibling (h nxt) = 0 then Some (Inr nxt)
      else if res_start (h (sibling (h nxt))) > res_end (h new) then Some (Inr nxt)
      else overlap_loop h new (sibling (h nxt)))"

partial_function (option) adopt_loop :: "heap \<Rightarrow> ulong \<Rightarrow> ulong \<Rightarrow> heap option" where
  "adopt_loop h new nxt =
     (if nxt = 0 then Some h
      else (let h = set_parent h nxt new in adopt_loop h new (sibling (h nxt))))"

partial_function (option) before_loop :: "heap \<Rightarrow> ulong \<Rightarrow> ulong \<Rightarrow> ulong kres option" where
  "before_loop h first nxt =
     (if nxt = 0 then Some (Inl NullDeref)
      else if sibling (h nxt) \<noteq> first then before_loop h first (sibling (h nxt))
      else Some (Inr nxt))"

definition insert_replace :: "heap \<Rightarrow> ulong \<Rightarrow> ulong \<Rightarrow> ulong \<Rightarrow> (ulong \<times> heap) kres" where
  "insert_replace h par new first =
     kbind (returned (overlap_loop h new first)) (\<lambda>r. case r of
       Inl nxt \<Rightarrow> Inr (nxt, h)
     | Inr nxt \<Rightarrow>
         (let h = set_parent h new par;
              h = set_sibling h new (sibling (h nxt));
              h = set_child h new first;
              h = set_sibling h nxt 0 in
          kbind (returned (adopt_loop h new first)) (\<lambda>h.
            if child (h par) = first then Inr (0, set_child h par new)
            else kbind (returned (before_loop h first (child (h par)))) (\<lambda>r.
              kbind r (\<lambda>nxt. Inr (0, set_sibling h nxt new))))))"

definition insert_resource_raw :: "heap \<Rightarrow> ulong \<Rightarrow> ulong \<Rightarrow> (ulong \<times> heap) kres" where
  "insert_resource_raw h par new =
     kbind (returned (insert_descend h par new)) (\<lambda>d. case d of
       Return r h \<Rightarrow> Inr (r, h)
     | GoOn par first h \<Rightarrow> insert_replace h par new first)"

definition insert_resource_conflict :: "heap \<Rightarrow> ulong \<Rightarrow> ulong \<Rightarrow> (ulong \<times> heap) kres" where
  "insert_resource_conflict h par new = insert_resource_raw h par new"

definition insert_resource :: "heap \<Rightarrow> ulong \<Rightarrow> ulong \<Rightarrow> (int \<times> heap) kres" where
  "insert_resource h par new =
     kbind (insert_resource_conflict h par new) (\<lambda>(conflict, h). Inr (if conflict \<noteq> 0 then - EBUSY else 0, h))"

section \<open>Sibling lists\<close>

text \<open>The nodes linked from \<open>p\<close> through their sibling fields up to \<open>q\<close>.\<close>

fun seg :: "heap \<Rightarrow> ulong \<Rightarrow> ulong list \<Rightarrow> ulong \<Rightarrow> bool" where
  "seg h p [] q \<longleftrightarrow> p = q"
| "seg h p (x # xs) q \<longleftrightarrow> p = x \<and> x \<noteq> 0 \<and> seg h (sibling (h x)) xs q"

lemma seg_append [simp]: "seg h p (xs @ ys) q \<longleftrightarrow> (\<exists>r. seg h p xs r \<and> seg h r ys q)"
  by (induction xs arbitrary: p) auto

lemma seg_frame: "(\<And>x. x \<in> set xs \<Longrightarrow> sibling (h' x) = sibling (h x)) \<Longrightarrow> seg h' p xs q = seg h p xs q"
  by (induction xs arbitrary: p) auto

lemma seg_unique: "seg h p xs q \<Longrightarrow> seg h p xs r \<Longrightarrow> q = r"
  by (induction xs arbitrary: p) auto

lemma seg_null: "seg h p xs q \<Longrightarrow> 0 \<notin> set xs"
  by (induction xs arbitrary: p) auto

definition slot_after :: "ulong \<Rightarrow> ulong list \<Rightarrow> slot" where
  "slot_after root xs = (if xs = [] then ChildOf root else SiblingOf (last xs))"

lemma slot_after_simps [simp]: "slot_after root [] = ChildOf root" "slot_after root (xs @ [x]) = SiblingOf x"
  by (simp_all add: slot_after_def)

lemma read_slot_after: "seg h (child (h root)) xs q \<Longrightarrow> read_slot h (slot_after root xs) = q"
  by (cases xs rule: rev_cases) auto

lemma write_slot_sel [simp]:
  "res_start (write_slot h p v x) = res_start (h x)" "res_end (write_slot h p v x) = res_end (h x)"
  "parent (write_slot h p v x) = parent (h x)"
  by (cases p; simp)+

lemma set_sel [simp]:
  "res_start (set_sibling h y v x) = res_start (h x)" "res_end (set_sibling h y v x) = res_end (h x)"
  "parent (set_sibling h y v x) = parent (h x)" "child (set_sibling h y v x) = child (h x)"
  "sibling (set_sibling h y v x) = (if x = y then v else sibling (h x))"
  "res_start (set_parent h y v x) = res_start (h x)" "res_end (set_parent h y v x) = res_end (h x)"
  "parent (set_parent h y v x) = (if x = y then v else parent (h x))" "child (set_parent h y v x) = child (h x)"
  "sibling (set_parent h y v x) = sibling (h x)"
  "res_start (set_child h y v x) = res_start (h x)" "res_end (set_child h y v x) = res_end (h x)"
  "parent (set_child h y v x) = parent (h x)" "child (set_child h y v x) = (if x = y then v else child (h x))"
  "sibling (set_child h y v x) = sibling (h x)"
  by (simp_all add: set_sibling_def set_parent_def set_child_def)

lemma write_slot_seg:
  assumes "seg h (child (h root)) xs q" "distinct xs" "root \<notin> set xs"
  shows "seg (write_slot h (slot_after root xs) v) (child (write_slot h (slot_after root xs) v root)) xs v"
proof (cases xs rule: rev_cases)
  case Nil
  then show ?thesis by simp
next
  case (snoc ys y)
  have "seg (h(y := (h y)\<lparr>sibling := v\<rparr>)) (child (h root)) ys y"
    using assms snoc by (subst seg_frame [of _ _ h]) auto
  moreover have "y \<noteq> 0" using assms(1) snoc by auto
  ultimately show ?thesis using assms(3) snoc by auto
qed

lemma write_slot_other:
  "x \<notin> set xs \<Longrightarrow> sibling (write_slot h (slot_after root xs) v x) = sibling (h x)"
  "x \<noteq> root \<Longrightarrow> child (write_slot h (slot_after root xs) v x) = child (h x)"
  "x \<notin> set xs \<Longrightarrow> x \<noteq> root \<Longrightarrow> write_slot h (slot_after root xs) v x = h x"
  by (cases xs rule: rev_cases; auto)+

end
