(* ===== verification/Kernel_Setup.thy ===== *)
theory Kernel_Setup
  imports Direct_Map E820 Resource
begin

text \<open>
  The memory part of \<^verbatim>\<open>arch_setup\<close> in \<^verbatim>\<open>arch/x86/kernel/setup.c\<close>, which puts the BIOS memory map, memblock, the direct
  mapping and the zones together, with the functions of \<^verbatim>\<open>arch/x86/mm/init_32.c\<close> it calls, and the reservation of the
  standard I/O ports.  In the flat memory model \<^verbatim>\<open>sparse_init\<close> and the loop of \<^verbatim>\<open>sparse_memory_present_with_active_regions\<close>
  do nothing; \<^verbatim>\<open>find_smp_config\<close> is empty and messages have no effect.
\<close>

section \<open>Entry flags\<close>

definition pmd_flags :: "ulong \<Rightarrow> ulong" where
  "pmd_flags pmd = pmd AND NOT (pmd_pfn_mask pmd)"

definition pte_flags :: "ulong \<Rightarrow> ulong" where
  "pte_flags pte = pte AND NOT PTE_PFN_MASK"

definition pte_present :: "ulong \<Rightarrow> ulong" where
  "pte_present a = pte_flags a AND PAGE_PSE"

definition pmd_present :: "ulong \<Rightarrow> ulong" where
  "pmd_present pmd = pmd_flags pmd AND PAGE_PRESENT"

definition pmd_large :: "ulong \<Rightarrow> ulong" where
  "pmd_large pmd = pmd_flags pmd AND PAGE_PSE"

section \<open>State\<close>

record setup_state =
  su_e820 :: e820_state
  su_dm :: direct_map
  su_ior :: ioremap
  su_max_pfn :: ulong
  su_max_low_pfn :: ulong
  highstart_pfn :: ulong
  highend_pfn :: ulong
  high_memory :: ulong
  pkmap_pte :: ulong
  kmap_pte :: ulong
  su_zones :: zone_vars
  su_node :: pglist_data

section \<open>Page tables of the boot code\<close>

text \<open>The loop of \<^verbatim>\<open>native_pagetable_init\<close>; with two levels the directory entry is the middle entry.\<close>

function past_end_loop :: "boot_env \<Rightarrow> ulong \<Rightarrow> direct_map \<Rightarrow> direct_map kres" where
  "past_end_loop env pfn s =
     (if pfn < push_bit (32 - PAGE_SHIFT) 1 then
        (let va = PAGE_OFFSET + push_bit PAGE_SHIFT pfn;
             pmd = initial_page_table env + 4 * of_nat (pgd_index va);
             e = load32 (dm_mem s) pmd in
         if pmd_present e = 0 then Inr s
         else if pmd_large e \<noteq> 0 then Inl BugOn
         else
           (let pte = pte_offset_kernel (dm_mem s) pmd va in
            if pte_present (load32 (dm_mem s) pte) = 0 then Inr s
            else past_end_loop env (pfn + 1) (s\<lparr>dm_mem := store32 (dm_mem s) pte 0\<rparr>)))
      else Inr s)"
  by auto
termination
proof (relation "measure (\<lambda>(_, pfn, _). 2 ^ 20 - unat pfn)")
  fix pfn :: ulong assume "pfn < push_bit (32 - PAGE_SHIFT) 1"
  then have u: "unat pfn < 2 ^ 20" by (simp add: word_less_nat_alt PAGE_SHIFT_def)
  then have "unat (pfn + 1) = unat pfn + 1" by (subst unat_add_no_wrap) simp_all
  then show "((env, pfn + 1, t), env, pfn, s) \<in> measure (\<lambda>(_, pfn, _). 2 ^ 20 - unat pfn)" for env t s using u by simp
qed simp

declare past_end_loop.simps [simp del]

definition permanent_kmap_init :: "boot_env \<Rightarrow> direct_map \<Rightarrow> (ulong \<times> direct_map) kres" where
  "permanent_kmap_init env s =
     (let vaddr = PKMAP_BASE in
      kbind (page_table_range_init env vaddr (vaddr + PAGE_SIZE * LAST_PKMAP) s) (\<lambda>s.
        Inr (pte_offset_kernel (dm_mem s) (initial_page_table env + 4 * of_nat (pgd_index vaddr)) vaddr, s)))"

definition kmap_init :: "boot_env \<Rightarrow> direct_map \<Rightarrow> ulong" where
  "kmap_init env s =
     (let kmap_vstart = fix_to_virt FIX_KMAP_BEGIN in
      pte_offset_kernel (dm_mem s) (initial_page_table env + 4 * of_nat (pgd_index kmap_vstart)) kmap_vstart)"

definition paging_init :: "boot_env \<Rightarrow> SLAB_STATES \<Rightarrow> setup_state \<Rightarrow> setup_state kres" where
  "paging_init env slab st =
     kbind (permanent_kmap_init env (su_dm st)) (\<lambda>(pkmap, s).
     kbind (zone_init (kend env) slab (su_max_low_pfn st) (su_max_pfn st) (su_zones st) (su_node st) (dm_mb s) (dm_mem s))
       (\<lambda>(zones, node, mb, m).
        Inr (st\<lparr>su_dm := s\<lparr>dm_mb := mb, dm_mem := m\<rparr>, pkmap_pte := pkmap, kmap_pte := kmap_init env s, su_zones := zones, su_node := node\<rparr>)))"

definition native_pagetable_init :: "boot_env \<Rightarrow> SLAB_STATES \<Rightarrow> setup_state \<Rightarrow> setup_state kres" where
  "native_pagetable_init env slab st =
     kbind (past_end_loop env (su_max_low_pfn st) (su_dm st)) (\<lambda>s. paging_init env slab (st\<lparr>su_dm := s\<rparr>))"

section \<open>High memory\<close>

text \<open>With \<^verbatim>\<open>CONFIG_HIGHMEM\<close>.  \<^verbatim>\<open>mem_init\<close> prints the layout of the kernel's addresses.\<close>

definition init_mem_init :: "setup_state \<Rightarrow> setup_state kres" where
  "init_mem_init st =
     (let highstart = (if su_max_pfn st > su_max_low_pfn st then su_max_low_pfn st else su_max_pfn st);
          s = su_dm st in
      kbind (memblock_set_node 0 (- 1) (mb_memory (dm_mb s)) 0) (\<lambda>(_, t).
        Inr (st\<lparr>highend_pfn := su_max_pfn st, highstart_pfn := highstart, high_memory := phys_to_virt (highstart * PAGE_SIZE - 1) + 1,
              su_dm := s\<lparr>dm_mb := (dm_mb s)\<lparr>mb_memory := t\<rparr>\<rparr>\<rparr>)))"

section \<open>Setting up memory\<close>

text \<open>From the end of RAM to the direct mapping and memblock's limit.\<close>

definition setup_low_memory :: "boot_env \<Rightarrow> setup_state \<Rightarrow> setup_state kres" where
  "setup_low_memory env st =
     (case find_low_pfn_range (e820_end_of_ram_pfn (e820 (su_e820 st))) of (max_pfn, max_low_pfn) \<Rightarrow>
      kbind (early_alloc_pgt_buf env (su_dm st)) (\<lambda>s.
      kbind (memblock_reserve_brk s) (\<lambda>s.
      kbind (memblock_x86_fill (su_e820 st) (dm_mb s)) (\<lambda>mb.
      kbind (init_mem_mapping env max_low_pfn (s\<lparr>dm_mb := mb\<rparr>) (su_ior st)) (\<lambda>(s, ior).
        Inr (st\<lparr>su_max_pfn := max_pfn, su_max_low_pfn := max_low_pfn, su_ior := ior,
              su_dm := s\<lparr>dm_mb := memblock_set_current_limit (push_bit PAGE_SHIFT (max_pfn_mapped s)) (dm_mb s)\<rparr>\<rparr>))))))"

definition setup_memory :: "boot_env \<Rightarrow> SLAB_STATES \<Rightarrow> setup_state \<Rightarrow> setup_state kres" where
  "setup_memory env slab st =
     kbind (setup_low_memory env st) (\<lambda>st. kbind (init_mem_init st) (native_pagetable_init env slab))"

section \<open>I/O ports\<close>

definition IORESOURCE_BUSY :: ulong where "IORESOURCE_BUSY = 0x80000000"

definition io_range :: "string \<Rightarrow> resource_size_t \<Rightarrow> resource_size_t \<Rightarrow> resource" where
  "io_range nm a b = \<lparr>res_start = a, res_end = b, res_name = nm, res_flags = IORESOURCE_BUSY OR IORESOURCE_IO, parent = 0, sibling = 0, child = 0\<rparr>"

definition standard_io_resources :: "resource list" where
  "standard_io_resources =
     [io_range ''dma1'' 0x00 0x1f, io_range ''pci1'' 0x20 0x21, io_range ''timer0'' 0x40 0x43, io_range ''timer1'' 0x50 0x53,
      io_range ''keyboard'' 0x60 0x60, io_range ''keyboard'' 0x64 0x64, io_range ''dma page reg'' 0x80 0x8f, io_range ''pic2'' 0xa0 0xa1,
      io_range ''dma2'' 0xc0 0xdf, io_range ''fpu'' 0xf0 0xff]"

text \<open>The array is at \<open>base\<close>; a \<^verbatim>\<open>struct resource\<close> has 28 bytes.\<close>

fun reserve_loop :: "ulong \<Rightarrow> ulong list \<Rightarrow> heap \<Rightarrow> heap kres" where
  "reserve_loop root [] h = Inr h"
| "reserve_loop root (p # ps) h = kbind (request_resource h root p) (\<lambda>(ret, h). if ret \<noteq> 0 then Inl BugOn else reserve_loop root ps h)"

definition reserve_standard_io_resources :: "ulong \<Rightarrow> ulong \<Rightarrow> heap \<Rightarrow> heap kres" where
  "reserve_standard_io_resources root base h = reserve_loop root (map (\<lambda>i. base + 28 * of_nat i) [0..<length standard_io_resources]) h"

text \<open>\<^verbatim>\<open>code_resource\<close>, \<^verbatim>\<open>data_resource\<close> and \<^verbatim>\<open>bss_resource\<close>, with the bounds that the linker gives; the results are ignored.\<close>

record sections =
  sec_text :: "ulong \<times> ulong"
  sec_data :: "ulong \<times> ulong"
  sec_bss :: "ulong \<times> ulong"

definition section_range :: "ulong \<times> ulong \<Rightarrow> resource \<Rightarrow> resource" where
  "section_range b r = r\<lparr>res_start := phys_addr (fst b), res_end := phys_addr (snd b) - 1\<rparr>"

definition insert_kernel_resources :: "sections \<Rightarrow> ulong \<Rightarrow> ulong \<Rightarrow> ulong \<Rightarrow> ulong \<Rightarrow> heap \<Rightarrow> heap kres" where
  "insert_kernel_resources sec iomem code data bss h =
     (let h = h(code := section_range (sec_text sec) (h code));
          h = h(data := section_range (sec_data sec) (h data));
          h = h(bss := section_range (sec_bss sec) (h bss)) in
      kbind (insert_resource h iomem code) (\<lambda>(_, h).
      kbind (insert_resource h iomem data) (\<lambda>(_, h).
      kbind (insert_resource h iomem bss) (\<lambda>(_, h). Inr h))))"

end
