(* ===== verification/Page_Spec.thy ===== *)
theory Page_Spec
  imports Page_Alloc
begin

text \<open>
  The zone tables count the page frames of memory: the frames that lie in one region of the memory array of memblock.
\<close>

section \<open>Page frames\<close>

definition frames :: "memblock_region \<Rightarrow> nat set" where
  "frames r = {p. r_lo r \<le> 4096 * p \<and> 4096 * p + 4096 \<le> r_hi r}"

definition node_regs :: "int \<Rightarrow> memblock_type \<Rightarrow> memblock_region list" where
  "node_regs nid t = filter (\<lambda>r. nid = MAX_NR_NODES \<or> nid = mr_nid r) (type_regs t)"

definition page_frames :: "int \<Rightarrow> memblock_type \<Rightarrow> nat set" where
  "page_frames nid t = (\<Union>r\<in>set (node_regs nid t). frames r)"

text \<open>No region starts in the last page below 4 GiB, where \<^verbatim>\<open>PFN_UP\<close> wraps to 0.\<close>

definition below_last_page :: "memblock_region \<Rightarrow> bool" where
  "below_last_page r \<longleftrightarrow> mr_base r \<le> 0xFFFFF000"

definition pages_ok :: "memblock_type \<Rightarrow> bool" where
  "pages_ok t \<longleftrightarrow> shape_wf t \<and> list_all below_last_page (type_regs t)"

lemma unat_PFN:
  "below_last_page r \<Longrightarrow> unat (PFN_UP (mr_base r)) = (r_lo r + 4095) div 4096"
  "region_ok r \<Longrightarrow> unat (PFN_DOWN (mr_base r + mr_size r)) = r_hi r div 4096"
proof -
  show "unat (PFN_UP (mr_base r)) = (r_lo r + 4095) div 4096" if "below_last_page r"
  proof -
    have "unat (mr_base r) \<le> 0xFFFFF000" using that by (simp add: below_last_page_def word_le_nat_alt)
    then have "unat (mr_base r + 4095) = r_lo r + 4095" by (simp add: unat_add_no_wrap r_lo_def)
    then show ?thesis by (simp add: PFN_UP_def PAGE_SHIFT_def PAGE_SIZE_def unat_drop_bit algebra_simps)
  qed
  show "unat (PFN_DOWN (mr_base r + mr_size r)) = r_hi r div 4096" if "region_ok r"
    using unat_region_end [OF that] by (simp add: PFN_DOWN_def PAGE_SHIFT_def unat_drop_bit region_end_def)
qed

lemma frames_interval:
  assumes "region_ok r" "below_last_page r"
  shows "frames r = {unat (PFN_UP (mr_base r))..<unat (PFN_DOWN (mr_base r + mr_size r))}"
  unfolding frames_def unat_PFN(1) [OF assms(2)] unat_PFN(2) [OF assms(1)] by (auto; presburger)

lemma frames_empty: "region_ok r \<Longrightarrow> below_last_page r \<Longrightarrow> \<not> whole_pages r \<Longrightarrow> frames r = {}"
  by (simp add: frames_interval whole_pages_def not_less word_le_nat_alt)

lemma frames_bound: "region_ok r \<Longrightarrow> p \<in> frames r \<Longrightarrow> p < 2 ^ 20"
  by (auto simp: frames_def region_ok_def)

lemma finite_frames [simp]: "region_ok r \<Longrightarrow> finite (frames r)"
  by (rule finite_subset [of _ "{..<2 ^ 20}"]) (auto dest: frames_bound)

lemma frames_apart: "r_hi r \<le> r_lo s \<Longrightarrow> frames r \<inter> frames s = {}"
  by (auto simp: frames_def)

lemma node_regs_wf:
  assumes "pages_ok t"
  shows "regs_wf (node_regs nid t)" "list_all below_last_page (node_regs nid t)"
proof -
  have "regs_wf (type_regs t)" using assms by (simp add: pages_ok_def shape_wf_def)
  then show "regs_wf (node_regs nid t)" by (auto simp: regs_wf_def node_regs_def list_all_iff intro: sorted_wrt_filter)
  show "list_all below_last_page (node_regs nid t)" using assms by (auto simp: pages_ok_def node_regs_def list_all_iff)
qed

lemma mem_pfn_ranges_node:
  assumes "shape_wf t"
  shows "mem_pfn_ranges 0 nid t = map pfn_range (filter whole_pages (node_regs nid t))"
proof -
  have "filter (pfn_wanted nid) (live t) = filter whole_pages (node_regs nid t)"
    using assms
  proof (cases rule: shape_wf_cases)
    case (empty r)
    then show ?thesis by (simp add: pfn_wanted_def whole_pages_def PFN_UP_def PFN_DOWN_def node_regs_def PAGE_SHIFT_def PAGE_SIZE_def)
  next
    case used
    then show ?thesis by (auto simp: node_regs_def pfn_wanted_def intro: filter_cong)
  qed
  then show ?thesis using mem_pfn_ranges_live [of t "[]" "live t"] shape_wf_array [OF assms] by simp
qed

section \<open>Holes\<close>

lemma clamp_count:
  fixes s e lo hi :: ulong
  assumes "s \<le> e" "lo \<le> hi"
  shows "unat (clamp e lo hi - clamp s lo hi) = card ({unat s..<unat e} \<inter> {unat lo..<unat hi})"
proof -
  have "unat (clamp s lo hi) \<le> unat (clamp e lo hi)" using assms by (simp add: nat_word)
  moreover have "{unat s..<unat e} \<inter> {unat lo..<unat hi} = {max (unat s) (unat lo)..<min (unat e) (unat hi)}" by auto
  ultimately show ?thesis using assms by (simp add: unat_sub_no_wrap) (auto simp: nat_word min_def max_def)
qed

lemma absent_fold:
  assumes "regs_wf rs" "list_all below_last_page rs" "lo \<le> hi"
    and "card ((\<Union>r\<in>set rs. frames r) \<inter> {unat lo..<unat hi}) \<le> unat n"
  shows "unat (fold (\<lambda>(s, e, _) n. n - (clamp e lo hi - clamp s lo hi)) (map pfn_range (filter whole_pages rs)) n) =
    unat n - card ((\<Union>r\<in>set rs. frames r) \<inter> {unat lo..<unat hi})"
  using assms
proof (induction rs arbitrary: n)
  case (Cons r rs)
  let ?I = "{unat lo..<unat hi}" and ?F = "\<Union>r\<in>set rs. frames r"
  have ok: "region_ok r" "below_last_page r" "regs_wf rs" "list_all below_last_page rs" "\<forall>s\<in>set rs. r_hi r \<le> r_lo s"
    using Cons.prems by (simp_all add: regs_wf_Cons)
  have fin: "finite ?F" using ok(3) by (auto intro: finite_frames regs_wf_ok)
  have "frames r \<inter> ?F = {}" using ok(5) frames_apart by blast
  then have "(frames r \<inter> ?I) \<inter> (?F \<inter> ?I) = {}" by blast
  then have c: "card ((frames r \<union> ?F) \<inter> ?I) = card (frames r \<inter> ?I) + card (?F \<inter> ?I)"
    using ok(1) fin by (simp add: card_Un_disjoint Int_Un_distrib2)
  show ?case
  proof (cases "whole_pages r")
    case True
    let ?d = "clamp (PFN_DOWN (mr_base r + mr_size r)) lo hi - clamp (PFN_UP (mr_base r)) lo hi"
    have "unat ?d = card (frames r \<inter> ?I)"
      using True Cons.prems(3) by (simp add: clamp_count whole_pages_def frames_interval [OF ok(1,2)])
    moreover have "unat ?d \<le> unat n" using calculation Cons.prems(4) c by simp
    ultimately have d: "unat (n - ?d) = unat n - card (frames r \<inter> ?I)" by (simp add: unat_sub_no_wrap)
    then have "card (?F \<inter> ?I) \<le> unat (n - ?d)" using Cons.prems(4) c by simp
    from Cons.IH [OF ok(3,4) Cons.prems(3) this] True d c show ?thesis by (simp add: pfn_range_def)
  next
    case False
    then have "frames r = {}" using ok by (simp add: frames_empty)
    with False Cons.IH [OF ok(3,4) Cons.prems(3)] Cons.prems(4) show ?thesis by simp
  qed
qed simp

lemma absent_pages:
  assumes "pages_ok t" "lo \<le> hi"
  shows "unat (absent_pages_in_range_nid t nid lo hi) = unat hi - unat lo - card (page_frames nid t \<inter> {unat lo..<unat hi})"
    "card (page_frames nid t \<inter> {unat lo..<unat hi}) \<le> unat hi - unat lo"
proof -
  have "card (page_frames nid t \<inter> {unat lo..<unat hi}) \<le> card {unat lo..<unat hi}" by (intro card_mono) auto
  then show c: "card (page_frames nid t \<inter> {unat lo..<unat hi}) \<le> unat hi - unat lo" by simp
  have n: "unat (hi - lo) = unat hi - unat lo" using assms(2) by (simp add: unat_sub_no_wrap word_le_nat_alt)
  show "unat (absent_pages_in_range_nid t nid lo hi) = unat hi - unat lo - card (page_frames nid t \<inter> {unat lo..<unat hi})"
    using absent_fold [OF node_regs_wf [OF assms(1)] assms(2), of nid "hi - lo"] c assms(1)
    by (simp add: absent_pages_in_range_nid_def mem_pfn_ranges_node pages_ok_def n page_frames_def)
qed

section \<open>The range of a node\<close>

lemma fold_c_min:
  "(\<forall>x\<in>set xs. unat (fold (\<lambda>(s, _, _) m. c_min m s) xs a) \<le> unat (fst x)) \<and>
   unat (fold (\<lambda>(s, _, _) m. c_min m s) xs a) \<le> unat a"
proof (induction xs arbitrary: a)
  case (Cons x xs)
  obtain s e n where x: "x = (s, e, n)" by (cases x)
  from Cons.IH [of "c_min a s"] show ?case unfolding x by (fastforce simp: unat_c_min)
qed simp

lemma fold_c_max:
  "(\<forall>x\<in>set xs. unat (fst (snd x)) \<le> unat (fold (\<lambda>(_, e, _) m. c_max m e) xs a)) \<and>
   unat a \<le> unat (fold (\<lambda>(_, e, _) m. c_max m e) xs a)"
proof (induction xs arbitrary: a)
  case (Cons x xs)
  obtain s e n where x: "x = (s, e, n)" by (cases x)
  from Cons.IH [of "c_max a e"] show ?case unfolding x by (fastforce simp: unat_c_max)
qed simp

lemma get_pfn_range_folds:
  "get_pfn_range_for_nid nid t =
     (find_min_pfn_for_node nid t, fold (\<lambda>(_, e, _) m. c_max m e) (mem_pfn_ranges 0 nid t) 0)"
proof -
  have "fold (\<lambda>(s, e, _) (a, b). (c_min a s, c_max b e)) xs (a, b) =
      (fold (\<lambda>(s, _, _) m. c_min m s) xs a, fold (\<lambda>(_, e, _) m. c_max m e) xs b)" for xs :: "(ulong \<times> ulong \<times> int) list" and a b
    by (induction xs arbitrary: a b) auto
  then show ?thesis by (simp add: get_pfn_range_for_nid_def find_min_pfn_for_node_def ULONG_MAX_def Let_def)
qed

lemma node_range:
  assumes "pages_ok t" "get_pfn_range_for_nid nid t = (s, e)"
  shows "page_frames nid t \<subseteq> {unat s..<unat e}" "s \<le> e" "unat e \<le> 2 ^ 20"
proof -
  let ?R = "filter whole_pages (node_regs nid t)"
  let ?m = "fold (\<lambda>(s, _, _) m. c_min m s) (map pfn_range ?R) ULONG_MAX"
  have wf: "\<forall>r\<in>set (node_regs nid t). region_ok r \<and> below_last_page r"
    using node_regs_wf [OF assms(1), of nid] by (auto simp: list_all_iff intro: regs_wf_ok)
  have "shape_wf t" using assms(1) by (simp add: pages_ok_def)
  then have se: "s = (if ?m = ULONG_MAX then 0 else ?m)" "e = fold (\<lambda>(_, e, _) m. c_max m e) (map pfn_range ?R) 0"
    using assms(2) by (simp_all add: get_pfn_range_folds find_min_pfn_for_node_def mem_pfn_ranges_node Let_def)
  have s: "unat s \<le> unat (PFN_UP (mr_base r))" if "r \<in> set ?R" for r
    using that fold_c_min [of "map pfn_range ?R" ULONG_MAX] se(1) by (auto simp: pfn_range_def)
  have e: "unat (PFN_DOWN (mr_base r + mr_size r)) \<le> unat e" if "r \<in> set ?R" for r
    using that fold_c_max [of "map pfn_range ?R" 0] se(2) by (auto simp: pfn_range_def)
  have f: "frames r \<subseteq> {unat s..<unat e}" if r: "r \<in> set (node_regs nid t)" for r
  proof (cases "whole_pages r")
    case True
    with r s [of r] e [of r] wf show ?thesis by (auto simp: frames_interval)
  next
    case False
    with r wf show ?thesis by (simp add: frames_empty)
  qed
  then show "page_frames nid t \<subseteq> {unat s..<unat e}" by (auto simp: page_frames_def)
  show "s \<le> e"
  proof (cases "?R = []")
    case True
    then show ?thesis using se by simp
  next
    case False
    then obtain r where r: "r \<in> set ?R" by (metis list.set_intros(1) neq_Nil_conv)
    then have "unat (PFN_UP (mr_base r)) < unat (PFN_DOWN (mr_base r + mr_size r))"
      by (simp add: whole_pages_def word_less_nat_alt)
    with s [OF r] e [OF r] show ?thesis by (simp add: word_le_nat_alt)
  qed
  have "unat (fold (\<lambda>(_, e, _) m. c_max m e) (map pfn_range rs) a) \<le> 2 ^ 20"
    if "\<forall>r\<in>set rs. region_ok r" "unat a \<le> 2 ^ 20" for rs a
    using that
  proof (induction rs arbitrary: a)
    case (Cons r rs)
    then have "r_hi r < 2 ^ 32" "region_ok r" by (simp_all add: region_ok_def)
    then have "unat (PFN_DOWN (mr_base r + mr_size r)) \<le> 2 ^ 20" unfolding unat_PFN(2) [OF \<open>region_ok r\<close>] by simp
    with Cons show ?case by (simp add: pfn_range_def unat_c_max)
  qed simp
  from this [of ?R 0] wf show "unat e \<le> 2 ^ 20" using se(2) by simp
qed

lemma fold_c_min_in: "fold (\<lambda>(s, _, _) m. c_min m s) xs a = a \<or> fold (\<lambda>(s, _, _) m. c_min m s) xs a \<in> fst ` set xs"
proof (induction xs arbitrary: a)
  case (Cons x xs)
  obtain s e n where x: "x = (s, e, n)" by (cases x)
  from Cons.IH [of "c_min a s"] show ?case unfolding x by (cases "a < s") (auto simp: c_min_def)
qed simp

lemma min_pfn_all_nodes:
  assumes "pages_ok t" "get_pfn_range_for_nid nid t = (s, e)"
  shows "find_min_pfn_for_node MAX_NR_NODES t \<le> s \<or> s = 0 \<and> e = 0"
proof -
  let ?f = "\<lambda>(s, _, _) m. c_min m s"
  let ?X = "map pfn_range (filter whole_pages (node_regs nid t))"
  let ?Y = "map pfn_range (filter whole_pages (node_regs MAX_NR_NODES t))"
  have "shape_wf t" using assms(1) by (simp add: pages_ok_def)
  note m = mem_pfn_ranges_node [OF this]
  have s: "s = find_min_pfn_for_node nid t" "e = fold (\<lambda>(_, e, _) m. c_max m e) ?X 0"
    using assms(2) by (simp_all add: get_pfn_range_folds m)
  show ?thesis
  proof (cases "fold ?f ?X ULONG_MAX = ULONG_MAX")
    case True
    have "?X = []"
    proof (rule ccontr)
      assume "?X \<noteq> []"
      then obtain r where r: "r \<in> set (filter whole_pages (node_regs nid t))" by (metis hd_in_set list.map_disc_iff)
      then have "region_ok r" "below_last_page r"
        using node_regs_wf [OF assms(1), of nid] by (auto simp: list_all_iff intro: regs_wf_ok)
      moreover have "unat (fold ?f ?X ULONG_MAX) \<le> unat (PFN_UP (mr_base r))"
        using r fold_c_min [of ?X ULONG_MAX] by (auto simp: pfn_range_def)
      moreover have "r_lo r < 2 ^ 32" using unat_lt32 [of "mr_base r"] by (simp add: r_lo_def)
      ultimately show False unfolding True by (simp add: unat_PFN ULONG_MAX_def unsigned_minus_1_eq_mask mask_eq_exp_minus_1)
    qed
    then show ?thesis using s m True by (simp add: find_min_pfn_for_node_def)
  next
    case False
    then have "fold ?f ?X ULONG_MAX \<in> fst ` set ?X" using fold_c_min_in [of ?X ULONG_MAX] by blast
    then obtain x where x: "x \<in> set ?X" "fold ?f ?X ULONG_MAX = fst x" by (rule imageE) simp
    moreover have "set ?X \<subseteq> set ?Y" by (auto simp: node_regs_def)
    ultimately have "x \<in> set ?Y" by blast
    then have "unat (fold ?f ?Y ULONG_MAX) \<le> unat (fst x)" using fold_c_min [of ?Y ULONG_MAX] by blast
    then have "unat (fold ?f ?Y ULONG_MAX) \<le> unat (fold ?f ?X ULONG_MAX)" unfolding x(2) .
    moreover have "s = fold ?f ?X ULONG_MAX" using s(1) False by (simp add: find_min_pfn_for_node_def m)
    ultimately show ?thesis by (simp add: find_min_pfn_for_node_def m word_le_nat_alt Let_def)
  qed
qed

section \<open>One zone\<close>

lemma zone_pages:
  assumes t: "pages_ok t" and nr: "get_pfn_range_for_nid nid t = (ns, ne)"
    and sp: "zone_spanned_pages_in_node v i ns ne = (sz, b)"
    and lim: "arch_zone_lowest_possible_pfn v ! i = zl" "arch_zone_highest_possible_pfn v ! i = zh" "zl \<le> zh \<or> zh < ns \<or> ns = 0 \<and> ne = 0"
  shows "unat (sz - zone_absent_pages_in_node v t nid i ns ne) = card (page_frames nid t \<inter> {unat zl..<unat zh})"
    "unat sz = card ({unat ns..<unat ne} \<inter> {unat zl..<unat zh})"
    "sz \<noteq> 0 \<Longrightarrow> b = Some (c_max zl ns, c_min zh ne)"
proof -
  let ?F = "page_frames nid t"
  note n = node_range [OF t nr]
  have goal: "unat (sz - zone_absent_pages_in_node v t nid i ns ne) = card (?F \<inter> {unat zl..<unat zh}) \<and>
    unat sz = card ({unat ns..<unat ne} \<inter> {unat zl..<unat zh}) \<and> (sz \<noteq> 0 \<longrightarrow> b = Some (c_max zl ns, c_min zh ne))"
  proof (cases "ns = 0 \<and> ne = 0")
    case True
    with n sp show ?thesis by (auto simp: zone_spanned_pages_in_node_def zone_absent_pages_in_node_def)
  next
    case node: False
    let ?lo = "clamp ns zl zh" and ?hi = "clamp ne zl zh"
    have lh: "?lo \<le> ?hi" using n(2) by (simp add: nat_word)
    have ab: "zone_absent_pages_in_node v t nid i ns ne = absent_pages_in_range_nid t nid ?lo ?hi"
      unfolding zone_absent_pages_in_node_def Let_def lim(1,2) by (rule if_not_P [OF node])
    note a = absent_pages [OF t lh, of nid]
    show ?thesis
    proof (cases "zh < ns \<or> zl > ne")
      case True
      have "sz = 0" using sp node True lim by (auto simp: zone_spanned_pages_in_node_def Let_def split: if_splits)
      moreover have "unat ?lo = unat ?hi" using True n(2) by (auto simp: nat_word)
      ultimately have "unat (sz - zone_absent_pages_in_node v t nid i ns ne) = 0" using ab a(1) by (simp add: unat_eq_zero)
      moreover have e: "{unat ns..<unat ne} \<inter> {unat zl..<unat zh} = {}" using True by (auto simp: nat_word)
      moreover have f: "?F \<inter> {unat zl..<unat zh} = {}" using e n(1) by blast
      ultimately show ?thesis using \<open>sz = 0\<close> by (simp only: e f card.empty) simp
    next
      case False
      have sz: "sz = c_min zh ne - c_max zl ns" "b = Some (c_max zl ns, c_min zh ne)"
        using sp node False lim by (auto simp: zone_spanned_pages_in_node_def Let_def split: if_splits)
      have le: "unat zl \<le> unat zh" "unat zl \<le> unat ne" "unat ns \<le> unat zh" "unat ns \<le> unat ne"
        using False node lim(3) n(2) by (auto simp: nat_word)
      have lohi: "unat ?lo = unat (c_max zl ns)" "unat ?hi = unat (c_min zh ne)" using le by (auto simp: nat_word)
      have usz: "unat sz = unat ?hi - unat ?lo" unfolding sz(1) lohi using le by (intro unat_sub_no_wrap) (simp add: nat_word)
      have int: "{unat ?lo..<unat ?hi} = {unat ns..<unat ne} \<inter> {unat zl..<unat zh}" unfolding lohi by (auto simp: nat_word)
      have f: "?F \<inter> {unat ?lo..<unat ?hi} = ?F \<inter> {unat zl..<unat zh}" unfolding int using n(1) by blast
      have c: "unat sz = card ({unat ns..<unat ne} \<inter> {unat zl..<unat zh})" unfolding usz int [symmetric] by simp
      have "unat (absent_pages_in_range_nid t nid ?lo ?hi) \<le> unat sz" using usz a(1) by simp
      from unat_sub_no_wrap [OF this] have "unat (sz - absent_pages_in_range_nid t nid ?lo ?hi) = card (?F \<inter> {unat zl..<unat zh})"
        using a unfolding f usz by linarith
      with c sz(2) show ?thesis unfolding ab by simp
    qed
  qed
  then show "unat (sz - zone_absent_pages_in_node v t nid i ns ne) = card (?F \<inter> {unat zl..<unat zh})"
    "unat sz = card ({unat ns..<unat ne} \<inter> {unat zl..<unat zh})"
    "sz \<noteq> 0 \<Longrightarrow> b = Some (c_max zl ns, c_min zh ne)" by simp_all
qed

section \<open>All zones\<close>

abbreviation zone_span :: "zone_vars \<Rightarrow> ulong \<Rightarrow> ulong \<Rightarrow> nat \<Rightarrow> ulong" where
  "zone_span v ns ne i \<equiv> fst (zone_spanned_pages_in_node v i ns ne)"

abbreviation zone_real :: "zone_vars \<Rightarrow> memblock_type \<Rightarrow> int \<Rightarrow> ulong \<Rightarrow> ulong \<Rightarrow> nat \<Rightarrow> ulong" where
  "zone_real v t nid ns ne i \<equiv> zone_span v ns ne i - zone_absent_pages_in_node v t nid i ns ne"

lemma four_zones:
  assumes "length zs = MAX_NR_ZONES"
  obtains a b c d where "zs = [a, b, c, d]"
  using assms by (auto simp: MAX_NR_ZONES_def eval_nat_numeral length_Suc_conv)

lemma zone_indices: "[0..<MAX_NR_ZONES] = [0, 1, 2, 3]" "[1..<MAX_NR_ZONES] = [1, 2, 3]"
  by (simp_all add: MAX_NR_ZONES_def upt_rec)

lemma calculate_zones:
  fixes v t ns ne pg
  assumes "length (node_zones pg) = MAX_NR_ZONES"
  defines "pg' \<equiv> calculate_node_totalpages v t pg ns ne"
  shows "map spanned_pages (node_zones pg') = map (zone_span v ns ne) [0, 1, 2, 3]"
    "map present_pages (node_zones pg') = map (zone_real v t (node_id pg) ns ne) [0, 1, 2, 3]"
    "node_spanned_pages pg' = sum_list (map (zone_span v ns ne) [0, 1, 2, 3])"
    "node_present_pages pg' = sum_list (map (zone_real v t (node_id pg) ns ne) [0, 1, 2, 3])"
    "node_id pg' = node_id pg" "node_start_pfn pg' = node_start_pfn pg" "node_mem_map pg' = node_mem_map pg"
    "length (node_zones pg') = MAX_NR_ZONES"
proof -
  obtain a b c d where z: "node_zones pg = [a, b, c, d]" using four_zones [OF assms(1)] .
  show "map spanned_pages (node_zones pg') = map (zone_span v ns ne) [0, 1, 2, 3]"
    "map present_pages (node_zones pg') = map (zone_real v t (node_id pg) ns ne) [0, 1, 2, 3]"
    "node_spanned_pages pg' = sum_list (map (zone_span v ns ne) [0, 1, 2, 3])"
    "node_present_pages pg' = sum_list (map (zone_real v t (node_id pg) ns ne) [0, 1, 2, 3])"
    "node_id pg' = node_id pg" "node_start_pfn pg' = node_start_pfn pg" "node_mem_map pg' = node_mem_map pg"
    "length (node_zones pg') = MAX_NR_ZONES"
    unfolding pg'_def
    by (simp_all add: calculate_node_totalpages_def zone_indices totalpages_step_def z case_prod_beta Let_def MAX_NR_ZONES_def
        eval_nat_numeral add.assoc)
qed

lemma zone_limits_value:
  "zone_limits [z0, z1, z2, z3] p = ([p, z0, c_max z1 z0, 0], [z0, c_max z1 z0, c_max z2 (c_max z1 z0), 0])"
  unfolding zone_limits_def zone_indices by (simp add: zone_limits_step_def MAX_NR_ZONES_def ZONE_MOVABLE_def eval_nat_numeral)

text \<open>Accounting keeps the spans and the present pages, and manages no page that is not present.\<close>

definition accounted :: "nat \<Rightarrow> zone \<Rightarrow> zone \<Rightarrow> bool" where
  "accounted i z z' \<longleftrightarrow> present_pages z' = present_pages z \<and> spanned_pages z' = spanned_pages z \<and>
     zone_start_pfn z' = zone_start_pfn z \<and> zone_name z' = zone_names ! i \<and> managed_pages z' \<le> present_pages z"

lemma init_core_step_zone:
  "\<exists>v' z'. init_core_step i (v, pg) = (v', pg\<lparr>node_zones := (node_zones pg)[i := z']\<rparr>) \<and> accounted i (node_zones pg ! i) z' \<and>
     nr_all_pages v' = nr_all_pages v + managed_pages z' \<and> mem_map v' = mem_map v"
proof -
  define z where "z = node_zones pg ! i"
  define mp where "mp = drop_bit PAGE_SHIFT (PAGE_ALIGN (spanned_pages z * sizeof_page))"
  define f1 where "f1 = (if \<not> IS_HIGHMEM_IDX i \<and> present_pages z \<ge> mp then present_pages z - mp else present_pages z)"
  define f2 where "f2 = (if i = 0 \<and> f1 > dma_reserve v then f1 - dma_reserve v else f1)"
  have le: "x - y \<le> x" if "y \<le> x" for x y :: ulong using that by (metis word_sub_le)
  have "f1 \<le> present_pages z" unfolding f1_def using le by simp
  moreover have "f2 \<le> f1" unfolding f2_def using le [of "dma_reserve v" f1] by (auto intro: order_less_imp_le)
  ultimately have f: "f2 \<le> present_pages z" by simp
  have hi: "f2 = present_pages z" if "IS_HIGHMEM_IDX i"
    using that by (simp add: f2_def f1_def IS_HIGHMEM_IDX_def ZONE_HIGHMEM_def)
  let ?z = "z\<lparr>managed_pages := (if IS_HIGHMEM_IDX i then present_pages z else f2), zone_name := zone_names ! i\<rparr>"
  let ?k = "if \<not> IS_HIGHMEM_IDX i then nr_kernel_pages v + f2
      else if nr_kernel_pages v > mp * 2 then nr_kernel_pages v - mp else nr_kernel_pages v"
  let ?v = "v\<lparr>nr_kernel_pages := ?k, nr_all_pages := nr_all_pages v + f2\<rparr>"
  show ?thesis unfolding z_def [symmetric]
  proof (intro exI [of _ ?v] exI [of _ ?z] conjI)
    show "init_core_step i (v, pg) = (?v, pg\<lparr>node_zones := (node_zones pg)[i := ?z]\<rparr>)"
      unfolding init_core_step_def prod.case Let_def z_def [symmetric] mp_def [symmetric] f1_def [symmetric] f2_def [symmetric] ..
    show "accounted i z ?z" using f by (simp add: accounted_def)
    show "nr_all_pages ?v = nr_all_pages v + managed_pages ?z" using hi by simp
  qed simp
qed

lemma init_core_zones:
  assumes "node_zones pg = [z0, z1, z2, z3]" "free_area_init_core v pg = (v', pg')"
  shows "\<exists>w0 w1 w2 w3. pg' = pg\<lparr>node_zones := [w0, w1, w2, w3]\<rparr> \<and> accounted 0 z0 w0 \<and> accounted 1 z1 w1 \<and> accounted 2 z2 w2 \<and>
    accounted 3 z3 w3 \<and> nr_all_pages v' = nr_all_pages v + sum_list (map managed_pages [w0, w1, w2, w3]) \<and> mem_map v' = mem_map v"
proof -
  let ?p = "\<lambda>zs. pg\<lparr>node_zones := zs\<rparr>"
  have p0: "pg = ?p [z0, z1, z2, z3]" using assms(1) by simp
  from init_core_step_zone [of 0 v pg] assms(1) obtain va w0 where
    a: "init_core_step 0 (v, pg) = (va, ?p [w0, z1, z2, z3])" "accounted 0 z0 w0"
    "nr_all_pages va = nr_all_pages v + managed_pages w0" "mem_map va = mem_map v" by auto
  from init_core_step_zone [of 1 va "?p [w0, z1, z2, z3]"] obtain vb w1 where
    b: "init_core_step 1 (va, ?p [w0, z1, z2, z3]) = (vb, ?p [w0, w1, z2, z3])" "accounted 1 z1 w1"
    "nr_all_pages vb = nr_all_pages va + managed_pages w1" "mem_map vb = mem_map va" by auto
  from init_core_step_zone [of 2 vb "?p [w0, w1, z2, z3]"] obtain vc w2 where
    c: "init_core_step 2 (vb, ?p [w0, w1, z2, z3]) = (vc, ?p [w0, w1, w2, z3])" "accounted 2 z2 w2"
    "nr_all_pages vc = nr_all_pages vb + managed_pages w2" "mem_map vc = mem_map vb" by (auto simp: eval_nat_numeral)
  from init_core_step_zone [of 3 vc "?p [w0, w1, w2, z3]"] obtain vd w3 where
    d: "init_core_step 3 (vc, ?p [w0, w1, w2, z3]) = (vd, ?p [w0, w1, w2, w3])" "accounted 3 z3 w3"
    "nr_all_pages vd = nr_all_pages vc + managed_pages w3" "mem_map vd = mem_map vc" by (auto simp: eval_nat_numeral)
  have "v' = vd" "pg' = ?p [w0, w1, w2, w3]"
    using assms(2) unfolding free_area_init_core_def zone_indices by (simp_all only: fold_simps a b c d prod.inject)
  with a b c d show ?thesis by (intro exI [of _ w0] exI [of _ w1] exI [of _ w2] exI [of _ w3]) (simp add: add.assoc)
qed

section \<open>The page array\<close>

lemma unat_align_order:
  assumes "unat e \<le> 2 ^ 21"
  shows "unat e \<le> unat (ALIGN e MAX_ORDER_NR_PAGES)" "unat (ALIGN e MAX_ORDER_NR_PAGES) < unat e + 1024"
proof -
  have "ALIGN e MAX_ORDER_NR_PAGES = round_down (e + 1023) (2 ^ 10)"
    by (simp add: ALIGN_def ALIGN_MASK_def MAX_ORDER_NR_PAGES_def round_down_def round_mask_def)
  moreover have "unat (e + 1023) = unat e + 1023" using assms by (simp add: unat_add_no_wrap)
  ultimately show "unat e \<le> unat (ALIGN e MAX_ORDER_NR_PAGES)" "unat (ALIGN e MAX_ORDER_NR_PAGES) < unat e + 1024"
    using round_down_bounds [where x = "e + 1023" and k = 10] by simp_all
qed

lemma order_start:
  fixes n :: ulong
  shows "unat (n AND NOT (MAX_ORDER_NR_PAGES - 1)) \<le> unat n" "n < 1024 \<Longrightarrow> n AND NOT (MAX_ORDER_NR_PAGES - 1) = 0"
proof -
  have r: "n AND NOT (MAX_ORDER_NR_PAGES - 1) = round_down n (2 ^ 10)"
    by (simp add: MAX_ORDER_NR_PAGES_def round_down_def round_mask_def)
  show "unat (n AND NOT (MAX_ORDER_NR_PAGES - 1)) \<le> unat n" unfolding r by (rule round_down_bounds)
  show "n AND NOT (MAX_ORDER_NR_PAGES - 1) = 0" if "n < 1024"
  proof -
    have "unat n < 1024" using that by (simp add: word_less_nat_alt)
    then have "unat (round_down n (2 ^ 10)) = 0" unfolding unat_round_down by simp
    then show ?thesis unfolding r by (simp only: unat_eq_zero)
  qed
qed

text \<open>The array of page structures is what memblock grants, or \<^verbatim>\<open>NULL\<close> when it has no room for it.\<close>

definition mem_map_size :: "pglist_data \<Rightarrow> ulong" where
  "mem_map_size pg = (ALIGN (pgdata_end_pfn pg) MAX_ORDER_NR_PAGES - (node_start_pfn pg AND NOT (MAX_ORDER_NR_PAGES - 1))) * sizeof_page"

lemma mem_map_outcome:
  assumes "mb_wf mb" "\<not> array_full (mb_reserved mb)" "\<not> slab_is_available slab" "node_mem_map pg = 0"
    and "node_spanned_pages pg \<noteq> 0" "0 < mem_map_size pg"
  shows "\<exists>p q mb' m'. alloc_node_mem_map kernel_end slab v pg mb m = Inr (v\<lparr>mem_map := p\<rparr>, pg\<lparr>node_mem_map := q\<rparr>, mb', m') \<and>
    mb_wf mb' \<and> (granted mb m (mem_map_size pg) 6 p mb' m' \<or>
      p = 0 \<and> mb' = mb \<and> m' = m \<and> search_set mb (mem_map_size pg) 6 0 0 NUMA_NO_NODE MEMBLOCK_NONE = {})"
proof -
  let ?start = "node_start_pfn pg AND NOT (MAX_ORDER_NR_PAGES - 1)"
  let ?off = "node_start_pfn pg - ?start"
  have z: "clip mb 0 = 0" by (simp add: clip_def)
  from virt_alloc_outcome [OF assms(1,6,2,3), of 6 0 kernel_end 0 0 "node_id pg" m] obtain p mb' m' where
    a: "memblock_virt_alloc_node_nopanic kernel_end slab (mem_map_size pg) (node_id pg) mb m = Inr (p, mb', m')" "mb_wf mb'"
    "granted mb m (mem_map_size pg) 6 p mb' m' \<or>
      p = 0 \<and> mb' = mb \<and> m' = m \<and> search_set mb (mem_map_size pg) 6 0 0 NUMA_NO_NODE MEMBLOCK_NONE = {}"
    unfolding z by (auto simp: memblock_virt_alloc_node_nopanic_def memblock_virt_alloc_try_nid_nopanic_def)
  have "alloc_node_mem_map kernel_end slab v pg mb m =
      Inr (v\<lparr>mem_map := p\<rparr>, pg\<lparr>node_mem_map := p + ?off * sizeof_page\<rparr>, mb', m')"
    using a(1) assms(4,5) by (simp add: alloc_node_mem_map_def Let_def mem_map_size_def)
  with a(2,3) show ?thesis by blast
qed

lemma mem_map_size_covers:
  assumes "node_start_pfn pg < 1024" "unat (pgdata_end_pfn pg) \<le> 2 ^ 21" "q < unat (pgdata_end_pfn pg)"
  shows "4 * q + 4 \<le> unat (mem_map_size pg)"
proof -
  let ?e = "ALIGN (pgdata_end_pfn pg) MAX_ORDER_NR_PAGES"
  have "unat ?e < 2 ^ 22" using unat_align_order [OF assms(2)] assms(2) by simp
  then have "unat (?e * sizeof_page) = unat ?e * 4" by (simp add: sizeof_page_def unat_word_ariths)
  then show ?thesis using order_start(2) [OF assms(1)] unat_align_order [OF assms(2)] assms(3) by (simp add: mem_map_size_def)
qed

section \<open>The whole initialisation\<close>

lemma card_three_parts:
  fixes A :: "nat set"
  assumes "finite A" "a \<le> b" "b \<le> c"
  shows "card (A \<inter> {..<a}) + card (A \<inter> {a..<b}) + card (A \<inter> {b..<c}) = card (A \<inter> {..<c})"
proof -
  have "A \<inter> {..<c} = (A \<inter> {..<a} \<union> A \<inter> {a..<b}) \<union> A \<inter> {b..<c}" using assms(2,3) by auto
  moreover have "card ((A \<inter> {..<a} \<union> A \<inter> {a..<b}) \<union> A \<inter> {b..<c}) = card (A \<inter> {..<a} \<union> A \<inter> {a..<b}) + card (A \<inter> {b..<c})"
    using assms by (intro card_Un_disjoint) auto
  moreover have "card (A \<inter> {..<a} \<union> A \<inter> {a..<b}) = card (A \<inter> {..<a}) + card (A \<inter> {a..<b})"
    using assms by (intro card_Un_disjoint) auto
  ultimately show ?thesis by simp
qed

lemma unat_sum4:
  fixes a b c d :: ulong
  assumes "unat a + unat b + unat c + unat d < 2 ^ 32"
  shows "unat (sum_list [a, b, c, d]) = unat a + unat b + unat c + unat d"
proof -
  have "unat (c + d) = unat c + unat d" using assms by (simp add: unat_add_no_wrap)
  moreover from this have "unat (b + (c + d)) = unat b + (unat c + unat d)" using assms by (simp add: unat_add_no_wrap)
  ultimately show ?thesis using assms by (simp add: unat_add_no_wrap)
qed

definition zone_counts :: "nat set \<Rightarrow> ulong \<Rightarrow> ulong \<Rightarrow> nat list" where
  "zone_counts A max_low_pfn max_pfn =
     (let d = min 4096 (unat max_low_pfn) in
      [card (A \<inter> {..<d}), card (A \<inter> {d..<unat max_low_pfn}), card (A \<inter> {unat max_low_pfn..<unat max_pfn}), 0])"

lemma sum_zone_counts:
  assumes "finite A" "max_low_pfn \<le> max_pfn"
  shows "sum_list (zone_counts A max_low_pfn max_pfn) = card (A \<inter> {..<unat max_pfn})"
  using card_three_parts [OF assms(1), of "min 4096 (unat max_low_pfn)" "unat max_low_pfn" "unat max_pfn"] assms(2)
  by (simp add: zone_counts_def Let_def word_le_nat_alt)

lemma node_totals:
  fixes v t pg ns ne
  assumes t: "pages_ok t" and nr: "get_pfn_range_for_nid (node_id pg) t = (ns, ne)" and len: "length (node_zones pg) = MAX_NR_ZONES"
    and le: "max_low_pfn \<le> max_pfn"
    and lims: "arch_zone_lowest_possible_pfn v = [find_min_pfn_for_node MAX_NR_NODES t, c_min MAX_DMA_PFN max_low_pfn, max_low_pfn, 0]"
      "arch_zone_highest_possible_pfn v = [c_min MAX_DMA_PFN max_low_pfn, max_low_pfn, max_pfn, 0]"
  defines "pg' \<equiv> calculate_node_totalpages v t pg ns ne" and "F \<equiv> page_frames (node_id pg) t"
  shows "map (unat \<circ> present_pages) (node_zones pg') = zone_counts F max_low_pfn max_pfn"
    "map (unat \<circ> spanned_pages) (node_zones pg') = zone_counts {unat ns..<unat ne} max_low_pfn max_pfn"
    "unat (node_present_pages pg') = card (F \<inter> {..<unat max_pfn})"
    "unat (node_spanned_pages pg') = card ({unat ns..<unat ne} \<inter> {..<unat max_pfn})"
proof -
  let ?I = "{unat ns..<unat ne}" and ?mn = "find_min_pfn_for_node MAX_NR_NODES t" and ?z = "c_min MAX_DMA_PFN max_low_pfn"
  note n = node_range [OF t nr]
  have mn: "?mn \<le> ns \<or> ns = 0 \<and> ne = 0" by (rule min_pfn_all_nodes [OF t nr])
  have z: "unat ?z = min 4096 (unat max_low_pfn)" "?z \<le> max_low_pfn"
    by (auto simp: nat_word MAX_DMA_PFN_def PAGE_SHIFT_def)
  have low: "A \<inter> {unat ?mn..<unat ?z} = A \<inter> {..<unat ?z}" if "A \<subseteq> ?I" for A using mn that by (auto simp: word_le_nat_alt)
  have FI: "F \<subseteq> ?I" unfolding F_def by (rule n)
  have fin: "finite F" "finite ?I" using FI finite_subset by auto
  note zp = zone_pages [OF t nr prod.collapse [symmetric]]
  have l0: "arch_zone_lowest_possible_pfn v ! 0 = ?mn" "arch_zone_highest_possible_pfn v ! 0 = ?z" using lims by simp_all
  have "?mn \<le> ?z \<or> ?z < ns \<or> ns = 0 \<and> ne = 0" using mn by (auto simp: not_le intro: order_less_le_trans)
  note p0 = zp [OF l0 this]
  have z0: "unat (zone_real v t (node_id pg) ns ne 0) = card (F \<inter> {..<unat ?z})" "unat (zone_span v ns ne 0) = card (?I \<inter> {..<unat ?z})"
    using p0(1,2) unfolding F_def [symmetric] low [OF FI] low [OF subset_refl] .
  have z1: "unat (zone_real v t (node_id pg) ns ne 1) = card (F \<inter> {unat ?z..<unat max_low_pfn})"
    "unat (zone_span v ns ne 1) = card (?I \<inter> {unat ?z..<unat max_low_pfn})"
    using zp [of v 1 ?z max_low_pfn] lims z(2) unfolding F_def by simp_all
  have z2: "unat (zone_real v t (node_id pg) ns ne 2) = card (F \<inter> {unat max_low_pfn..<unat max_pfn})"
    "unat (zone_span v ns ne 2) = card (?I \<inter> {unat max_low_pfn..<unat max_pfn})"
    using zp [of v 2 max_low_pfn max_pfn] lims le unfolding F_def by simp_all
  have z3: "unat (zone_real v t (node_id pg) ns ne 3) = 0" "unat (zone_span v ns ne 3) = 0"
    using zp [of v 3 0 0] lims by (simp_all add: eval_nat_numeral)
  note c = calculate_zones [OF len, of v t ns ne, folded pg'_def]
  show "map (unat \<circ> present_pages) (node_zones pg') = zone_counts F max_low_pfn max_pfn"
    using z0 z1 z2 z3 z(1) by (simp only: map_map [symmetric] c(1,2) zone_counts_def Let_def list.map) 
  show "map (unat \<circ> spanned_pages) (node_zones pg') = zone_counts ?I max_low_pfn max_pfn"
    using z0 z1 z2 z3 z(1) by (simp only: map_map [symmetric] c(1,2) zone_counts_def Let_def list.map)
  have cards: "card (A \<inter> {..<unat ?z}) + card (A \<inter> {unat ?z..<unat max_low_pfn}) + card (A \<inter> {unat max_low_pfn..<unat max_pfn}) =
      card (A \<inter> {..<unat max_pfn})" "card (A \<inter> {..<unat max_pfn}) < 2 ^ 32" if "A \<subseteq> ?I" for A
  proof -
    have "finite A" using that finite_subset by auto
    with z(2) le show "card (A \<inter> {..<unat ?z}) + card (A \<inter> {unat ?z..<unat max_low_pfn}) + card (A \<inter> {unat max_low_pfn..<unat max_pfn}) =
      card (A \<inter> {..<unat max_pfn})" by (intro card_three_parts) (simp_all add: word_le_nat_alt)
    have "card (A \<inter> {..<unat max_pfn}) \<le> card ?I" using that by (intro card_mono) auto
    then show "card (A \<inter> {..<unat max_pfn}) < 2 ^ 32" using unat_lt32 [of ne] by simp
  qed
  show "unat (node_present_pages pg') = card (F \<inter> {..<unat max_pfn})"
    unfolding c(4) list.map using cards [OF FI] z0(1) z1(1) z2(1) z3(1) by (subst unat_sum4) simp_all
  show "unat (node_spanned_pages pg') = card (?I \<inter> {..<unat max_pfn})"
    unfolding c(3) list.map using cards [of ?I] z0(2) z1(2) z2(2) z3(2) by (subst unat_sum4) simp_all
qed

lemma mem_map_size_pos:
  assumes "unat (pgdata_end_pfn pg) \<le> 2 ^ 21" "unat (node_start_pfn pg) < unat (pgdata_end_pfn pg)"
  shows "0 < mem_map_size pg"
proof -
  let ?e = "ALIGN (pgdata_end_pfn pg) MAX_ORDER_NR_PAGES" and ?s = "node_start_pfn pg AND NOT (MAX_ORDER_NR_PAGES - 1)"
  have b: "unat ?e < 2 ^ 22" using unat_align_order(2) [OF assms(1)] assms(1) by simp
  have "unat ?s < unat ?e" using unat_align_order(1) [OF assms(1)] assms(2) order_start(1) [of "node_start_pfn pg"] by linarith
  note b = b this
  then have "unat (?e - ?s) = unat ?e - unat ?s" by (intro unat_sub_no_wrap) simp
  moreover have "unat (d * 4) = unat d * 4" if "unat d < 2 ^ 22" for d :: ulong using that by (simp add: unat_word_ariths)
  moreover have "unat (?e - ?s) < 2 ^ 22" using calculation(1) b(1) by linarith
  ultimately have "unat (mem_map_size pg) = (unat ?e - unat ?s) * 4" unfolding mem_map_size_def sizeof_page_def by (simp only:)
  with b show ?thesis by (simp add: word_less_nat_alt)
qed

text \<open>What \<open>zone_init\<close> leaves behind: the counts, and the array of page structures.\<close>

definition mem_map_placed :: "memblock \<Rightarrow> mem \<Rightarrow> nat set \<Rightarrow> zone_vars \<Rightarrow> pglist_data \<Rightarrow> memblock \<Rightarrow> mem \<Rightarrow> bool" where
  "mem_map_placed mb m A v' pg' mb' m' \<longleftrightarrow>
     granted mb m (mem_map_size pg') 6 (mem_map v') mb' m' \<and>
       (node_start_pfn pg' < 1024 \<longrightarrow> (\<forall>q\<in>A. 4 * q + 4 \<le> unat (mem_map_size pg'))) \<or>
     mb' = mb \<and> m' = m \<and>
       (A = {} \<or> mem_map v' = 0 \<and> search_set mb (mem_map_size pg') 6 0 0 NUMA_NO_NODE MEMBLOCK_NONE = {})"

lemma mem_map_stage:
  assumes wf: "mb_wf mb" and room: "\<not> array_full (mb_reserved mb)" "\<not> slab_is_available slab"
    and pg: "node_mem_map pg = 0" "unat (node_spanned_pages pg) = card ({unat (node_start_pfn pg)..<e} \<inter> {..<l})"
    and A: "A \<subseteq> {unat (node_start_pfn pg)..<e} \<inter> {..<l}" and e: "e \<le> 2 ^ 20"
  shows "\<exists>v' pg' mb' m' q. alloc_node_mem_map kernel_end slab v pg mb m = Inr (v', pg', mb', m') \<and> mb_wf mb' \<and>
    nr_all_pages v' = nr_all_pages v \<and> pg' = pg\<lparr>node_mem_map := q\<rparr> \<and> mem_map_placed mb m A v' pg mb' m'"
proof (cases "node_spanned_pages pg = 0")
  case True
  then have "A = {}" using pg(2) A by (simp add: card_eq_0_iff)
  moreover have "pg = pg\<lparr>node_mem_map := 0\<rparr>" using pg(1) by simp
  ultimately show ?thesis using True wf by (auto simp: alloc_node_mem_map_def mem_map_placed_def)
next
  case False
  let ?s = "unat (node_start_pfn pg)"
  have "{?s..<e} \<inter> {..<l} = {?s..<min e l}" by auto
  then have sp: "unat (node_spanned_pages pg) = min e l - ?s" using pg(2) by simp
  moreover have "unat (node_spanned_pages pg) \<noteq> 0" using False unat_eq_zero by blast
  ultimately have lt: "?s < min e l" by linarith
  then have pe: "unat (pgdata_end_pfn pg) = min e l" using e sp unfolding pgdata_end_pfn_def by (subst unat_add_no_wrap) simp_all
  then have b: "unat (pgdata_end_pfn pg) \<le> 2 ^ 21" "?s < unat (pgdata_end_pfn pg)" using e lt by simp_all
  from mem_map_outcome [OF wf room pg(1) False mem_map_size_pos [OF b], of kernel_end v m]
  obtain p q mb' m' where o: "alloc_node_mem_map kernel_end slab v pg mb m = Inr (v\<lparr>mem_map := p\<rparr>, pg\<lparr>node_mem_map := q\<rparr>, mb', m')"
    "mb_wf mb'" "granted mb m (mem_map_size pg) 6 p mb' m' \<or>
    p = 0 \<and> mb' = mb \<and> m' = m \<and> search_set mb (mem_map_size pg) 6 0 0 NUMA_NO_NODE MEMBLOCK_NONE = {}" by blast
  have "4 * x + 4 \<le> unat (mem_map_size pg)" if "node_start_pfn pg < 1024" "x \<in> A" for x
    using that A pe by (intro mem_map_size_covers [OF that(1) b(1)]) auto
  with o(3) have "mem_map_placed mb m A (v\<lparr>mem_map := p\<rparr>) pg mb' m'" by (auto simp: mem_map_placed_def)
  with o show ?thesis by auto
qed

lemma zone_init_stages:
  fixes v :: zone_vars and pg :: pglist_data
  assumes le: "max_low_pfn \<le> max_pfn" and nr: "get_pfn_range_for_nid 0 (mb_memory mb) = (ns, ne)"
  defines "v0 \<equiv> v\<lparr>arch_zone_lowest_possible_pfn :=
        [find_min_pfn_for_node MAX_NR_NODES (mb_memory mb), c_min MAX_DMA_PFN max_low_pfn, max_low_pfn, 0],
      arch_zone_highest_possible_pfn := [c_min MAX_DMA_PFN max_low_pfn, max_low_pfn, max_pfn, 0]\<rparr>"
    and "pg0 \<equiv> pg\<lparr>node_id := 0, node_start_pfn := ns\<rparr>"
  shows "zone_init kernel_end slab max_low_pfn max_pfn v pg mb m =
    kbind (alloc_node_mem_map kernel_end slab v0 (calculate_node_totalpages v0 (mb_memory mb) pg0 ns ne) mb m)
      (\<lambda>(v, pg, mb, m). let (v, pg) = free_area_init_core v pg in Inr (v, pg, mb, m))"
proof -
  let ?z = "c_min MAX_DMA_PFN max_low_pfn"
  have ns: "find_min_pfn_for_node 0 (mb_memory mb) = ns" using nr by (simp add: get_pfn_range_folds)
  have "c_max max_low_pfn ?z = max_low_pfn" "c_max max_pfn max_low_pfn = max_pfn" using le by (auto simp: c_min_def c_max_def)
  then have lim: "zone_limits [?z, max_low_pfn, max_pfn, 0] (find_min_pfn_with_active_regions (mb_memory mb)) =
      (arch_zone_lowest_possible_pfn v0, arch_zone_highest_possible_pfn v0)"
    by (simp add: zone_limits_value v0_def find_min_pfn_with_active_regions_def)
  have "(replicate MAX_NR_ZONES 0)[ZONE_DMA := ?z, ZONE_NORMAL := max_low_pfn, ZONE_HIGHMEM := max_pfn] = [?z, max_low_pfn, max_pfn, 0]"
    by (simp add: MAX_NR_ZONES_def ZONE_DMA_def ZONE_NORMAL_def ZONE_HIGHMEM_def eval_nat_numeral)
  then show ?thesis
    using nr ns lim by (simp add: zone_init_def free_area_init_nodes_def free_area_init_node_def pg0_def v0_def Let_def)
qed

lemma zone_init_outcome:
  assumes wf: "mb_wf mb" "list_all below_last_page (type_regs (mb_memory mb))" and le: "max_low_pfn \<le> max_pfn"
    and pg: "length (node_zones pg) = MAX_NR_ZONES" "node_mem_map pg = 0"
    and room: "\<not> array_full (mb_reserved mb)" "\<not> slab_is_available slab"
  defines "F \<equiv> page_frames 0 (mb_memory mb)"
  shows "\<exists>v' pg' mb' m'. zone_init kernel_end slab max_low_pfn max_pfn v pg mb m = Inr (v', pg', mb', m') \<and> mb_wf mb' \<and>
    map (unat \<circ> present_pages) (node_zones pg') = zone_counts F max_low_pfn max_pfn \<and>
    unat (node_present_pages pg') = card (F \<inter> {..<unat max_pfn}) \<and>
    list_all (\<lambda>z. managed_pages z \<le> present_pages z) (node_zones pg') \<and>
    nr_all_pages v' = nr_all_pages v + sum_list (map managed_pages (node_zones pg')) \<and>
    node_start_pfn pg' = find_min_pfn_for_node 0 (mb_memory mb) \<and>
    mem_map_placed mb m (F \<inter> {..<unat max_pfn}) v' pg' mb' m'"
proof -
  let ?t = "mb_memory mb" and ?z = "c_min MAX_DMA_PFN max_low_pfn"
  obtain ns ne where nr: "get_pfn_range_for_nid 0 ?t = (ns, ne)" by fastforce
  have t: "pages_ok ?t" using wf by (simp add: pages_ok_def mb_wf_def)
  note n = node_range [OF t nr]
  define pg0 where "pg0 = pg\<lparr>node_id := 0, node_start_pfn := ns\<rparr>"
  define v0 where "v0 = v\<lparr>arch_zone_lowest_possible_pfn := [find_min_pfn_for_node MAX_NR_NODES ?t, ?z, max_low_pfn, 0],
    arch_zone_highest_possible_pfn := [?z, max_low_pfn, max_pfn, 0]\<rparr>"
  define pg1 where "pg1 = calculate_node_totalpages v0 ?t pg0 ns ne"
  note init = zone_init_stages [OF le nr, of kernel_end slab v pg m, folded v0_def pg0_def, folded pg1_def]
  have len: "length (node_zones pg0) = MAX_NR_ZONES" using pg(1) by (simp add: pg0_def)
  note c = calculate_zones [OF len, of v0 ?t ns ne, folded pg1_def]
  have F0: "page_frames (node_id pg0) ?t = F" "get_pfn_range_for_nid (node_id pg0) ?t = (ns, ne)" using nr by (simp_all add: pg0_def F_def)
  have "arch_zone_lowest_possible_pfn v0 = [find_min_pfn_for_node MAX_NR_NODES ?t, ?z, max_low_pfn, 0]"
    "arch_zone_highest_possible_pfn v0 = [?z, max_low_pfn, max_pfn, 0]" by (simp_all add: v0_def)
  note tot = node_totals [OF t F0(2) len le this, folded pg1_def, unfolded F0(1)]
  have s1: "node_start_pfn pg1 = ns" "node_mem_map pg1 = 0" using c pg(2) by (simp_all add: pg0_def)
  have FI: "F \<inter> {..<unat max_pfn} \<subseteq> {unat ns..<unat ne} \<inter> {..<unat max_pfn}" using n(1) by (auto simp: F_def)
  from mem_map_stage [OF wf(1) room s1(2) tot(4) [folded s1(1)] FI [folded s1(1)] n(3), of kernel_end v0 m]
  obtain v1 pg2 mb' m' q where al: "alloc_node_mem_map kernel_end slab v0 pg1 mb m = Inr (v1, pg2, mb', m')" "mb_wf mb'"
    "nr_all_pages v1 = nr_all_pages v0" "pg2 = pg1\<lparr>node_mem_map := q\<rparr>" "mem_map_placed mb m (F \<inter> {..<unat max_pfn}) v1 pg1 mb' m'" by blast
  obtain z0 z1 z2 z3 where z: "node_zones pg1 = [z0, z1, z2, z3]" using c(8) four_zones by blast
  then have z2: "node_zones pg2 = [z0, z1, z2, z3]" using al(4) by simp
  obtain v2 pg3 where core: "free_area_init_core v1 pg2 = (v2, pg3)" by fastforce
  from init_core_zones [OF z2 core] obtain w0 w1 w2 w3 where w: "pg3 = pg2\<lparr>node_zones := [w0, w1, w2, w3]\<rparr>"
    "accounted 0 z0 w0" "accounted 1 z1 w1" "accounted 2 z2 w2" "accounted 3 z3 w3"
    "nr_all_pages v2 = nr_all_pages v1 + sum_list (map managed_pages [w0, w1, w2, w3])" "mem_map v2 = mem_map v1" by blast
  have "map (unat \<circ> present_pages) (node_zones pg3) = zone_counts F max_low_pfn max_pfn"
    "list_all (\<lambda>z. managed_pages z \<le> present_pages z) (node_zones pg3)"
    using tot(1) w z by (simp_all add: accounted_def)
  moreover have "nr_all_pages v2 = nr_all_pages v + sum_list (map managed_pages (node_zones pg3))"
    "unat (node_present_pages pg3) = card (F \<inter> {..<unat max_pfn})" "node_start_pfn pg3 = find_min_pfn_for_node 0 (mb_memory mb)"
    using w(1,6) al(3,4) tot(3) s1(1) nr by (simp_all add: v0_def get_pfn_range_folds)
  moreover have "mem_map_placed mb m (F \<inter> {..<unat max_pfn}) v2 pg3 mb' m'"
    using al(4,5) w(1,7) by (simp add: mem_map_placed_def mem_map_size_def pgdata_end_pfn_def)
  moreover have "zone_init kernel_end slab max_low_pfn max_pfn v pg mb m = Inr (v2, pg3, mb', m')"
    unfolding init al(1) by (simp add: core)
  ultimately show ?thesis using al(2) by blast
qed

section \<open>Deviations\<close>

text \<open>A region that starts in the last page below 4 GiB is reported as every page from 0 on: \<^verbatim>\<open>PFN_UP\<close> wraps.\<close>

lemma last_page_region_wraps:
  assumes "region_ok r" "0xFFFFF000 < mr_base r"
  shows "pfn_range r = (0, 0xFFFFF, mr_nid r)" "frames r = {}"
proof -
  have b: "0xFFFFF000 < unat (mr_base r)" "unat (mr_base r) < 2 ^ 32" using assms(2) unat_lt32 [of "mr_base r"] by (simp_all add: word_less_nat_alt)
  then have "unat (mr_base r + 4095) = unat (mr_base r) + 4095 - 2 ^ 32" by (simp add: unat_word_ariths mod_if)
  then have "unat (mr_base r + 4095) < 4096" using b by linarith
  then have "unat (PFN_UP (mr_base r)) = 0" by (simp add: PFN_UP_def PAGE_SHIFT_def PAGE_SIZE_def unat_drop_bit algebra_simps)
  then have up: "PFN_UP (mr_base r) = 0" by (simp only: unat_eq_zero)
  have hi: "0xFFFFF000 < r_hi r" "r_hi r < 2 ^ 32" using b assms(1) by (simp_all add: r_hi_def region_ok_def)
  then have "unat (PFN_DOWN (mr_base r + mr_size r)) = unat (0xFFFFF :: ulong)" unfolding unat_PFN(2) [OF assms(1)] by simp
  then show "pfn_range r = (0, 0xFFFFF, mr_nid r)" unfolding pfn_range_def up unsigned_word_eqI by (simp add: word_unat_eq_iff)
  show "frames r = {}" using b hi by (auto simp: frames_def r_lo_def)
qed

section \<open>Properties\<close>

definition demo_node_type :: memblock_type where
  "demo_node_type = init_memblock_type\<lparr>total_size := 0x4000, regions := (regions init_memblock_type)[0 := mk_region 0x800 0x4000 0 0]\<rparr>"

definition demo_node_memblock :: memblock where
  "demo_node_memblock = init_memblock\<lparr>current_limit := 0x30000000, mb_memory := demo_node_type\<rparr>"

definition demo_zone_vars :: zone_vars where
  "demo_zone_vars = \<lparr>nr_kernel_pages = 0, nr_all_pages = 0, dma_reserve = 0, arch_zone_lowest_possible_pfn = [],
     arch_zone_highest_possible_pfn = [], mem_map = 0\<rparr>"

definition demo_pgdata :: pglist_data where
  "demo_pgdata = \<lparr>node_zones = replicate 4 \<lparr>zone_start_pfn = 0, managed_pages = 0, spanned_pages = 0, present_pages = 0, zone_name = []\<rparr>,
     node_mem_map = 0, node_start_pfn = 0, node_present_pages = 0, node_spanned_pages = 0, node_id = 0\<rparr>"

lemma demo_node_facts:
  "mb_wf demo_node_memblock" "list_all below_last_page (type_regs (mb_memory demo_node_memblock))"
  "page_frames 0 (mb_memory demo_node_memblock) = {1..<4}" "\<not> array_full (mb_reserved demo_node_memblock)"
  "length (node_zones demo_pgdata) = MAX_NR_ZONES" "node_mem_map demo_pgdata = 0" "\<not> slab_is_available SLAB_DOWN"
  "find_min_pfn_for_node 0 (mb_memory demo_node_memblock) = 1"
proof -
  let ?r = "mk_region 0x800 0x4000 0 0"
  have l: "live demo_node_type = [?r]" and a: "array_wf demo_node_type"
    by (simp_all add: demo_node_type_def init_memblock_type_def live_def array_wf_def INIT_MEMBLOCK_REGIONS_def eval_nat_numeral)
  have "regs_wf [?r]" by (simp add: regs_wf_Cons region_ok_def r_hi_def)
  note t = type_regs_wf [OF a l this]
  have mx: "mt_max demo_node_type = INIT_MEMBLOCK_REGIONS" by (simp add: demo_node_type_def init_memblock_type_def)
  show "mb_wf demo_node_memblock" using mb_wf_init t(2) mx by (simp add: mb_wf_def demo_node_memblock_def)
  show "list_all below_last_page (type_regs (mb_memory demo_node_memblock))"
    by (simp add: demo_node_memblock_def t below_last_page_def)
  have "frames ?r = {1..<4}" by (auto simp: frames_def r_lo_def r_hi_def)
  then show "page_frames 0 (mb_memory demo_node_memblock) = {1..<4}"
    by (simp add: page_frames_def node_regs_def demo_node_memblock_def t)
  show "\<not> array_full (mb_reserved demo_node_memblock)"
    by (simp add: array_full_def demo_node_memblock_def init_memblock_def init_memblock_type_def INIT_MEMBLOCK_REGIONS_def)
  show "find_min_pfn_for_node 0 (mb_memory demo_node_memblock) = 1"
    using t by (simp add: find_min_pfn_for_node_def mem_pfn_ranges_node demo_node_memblock_def node_regs_def whole_pages_def pfn_range_def
        PFN_UP_def PFN_DOWN_def PAGE_SHIFT_def PAGE_SIZE_def ULONG_MAX_def c_min_def)
qed (simp_all add: demo_pgdata_def MAX_NR_ZONES_def slab_is_available_def)

text \<open>
  C18: \<^verbatim>\<open>zone_init\<close> returns, and counts the page frames of memory: the pages present in the DMA, Normal and HighMem zones are
  the numbers of page frames that lie in one region of node 0 below 16 MiB, below \<^verbatim>\<open>max_low_pfn\<close> and below
  \<^verbatim>\<open>max_pfn\<close>; Movable is empty; the pages of the node are their sum; no zone manages a page that is not present.
\<close>

theorem zone_init_counts_pages:
  assumes "mb_wf mb" "list_all below_last_page (type_regs (mb_memory mb))" "max_low_pfn \<le> max_pfn"
    and "length (node_zones pg) = MAX_NR_ZONES" "node_mem_map pg = 0"
    and "\<not> array_full (mb_reserved mb)" "\<not> slab_is_available slab"
  shows "\<exists>v' pg' mb' m'. zone_init kernel_end slab max_low_pfn max_pfn v pg mb m = Inr (v', pg', mb', m') \<and> mb_wf mb' \<and>
    map (unat \<circ> present_pages) (node_zones pg') = zone_counts (page_frames 0 (mb_memory mb)) max_low_pfn max_pfn \<and>
    unat (node_present_pages pg') = card (page_frames 0 (mb_memory mb) \<inter> {..<unat max_pfn}) \<and>
    list_all (\<lambda>z. managed_pages z \<le> present_pages z) (node_zones pg') \<and>
    nr_all_pages v' = nr_all_pages v + sum_list (map managed_pages (node_zones pg'))"
  using zone_init_outcome [OF assms, of kernel_end v m] by blast

theorem zone_init_counts_pages_witness:
  "\<exists>v' pg' mb' m'. zone_init 0 SLAB_DOWN 0x100 0x100 demo_zone_vars demo_pgdata demo_node_memblock (\<lambda>_. 1) = Inr (v', pg', mb', m') \<and>
     map (unat \<circ> present_pages) (node_zones pg') = [3, 0, 0, 0] \<and> unat (node_present_pages pg') = 3"
proof -
  have "{1..<4} \<inter> {..<256} = {1..<4 :: nat}" by auto
  then have "zone_counts {1..<4} 0x100 0x100 = [3, 0, 0, 0]" "card ({1..<4} \<inter> {..<unat (0x100 :: ulong)}) = 3"
    by (simp_all add: zone_counts_def)
  note c = this
  from zone_init_counts_pages [OF demo_node_facts(1,2) order_refl demo_node_facts(5,6,4,7), of 0 "0x100" demo_zone_vars "\<lambda>_. 1",
    unfolded demo_node_facts(3) c] show ?thesis by (elim exE conjE) (intro exI conjI)
qed

text \<open>
  C27: When the memory of the node starts in the first 4 MiB, \<^verbatim>\<open>zone_init\<close> places the array of page structures in a
  block that memblock grants, large enough for the page structure of every page frame of the node that it counts; or it
  leaves \<^verbatim>\<open>mem_map\<close> at \<^verbatim>\<open>NULL\<close> and memory unchanged because there is no free block of that size; or there is no
  page frame.
\<close>

theorem zone_init_places_mem_map:
  assumes "mb_wf mb" "list_all below_last_page (type_regs (mb_memory mb))" "max_low_pfn \<le> max_pfn"
    and "length (node_zones pg) = MAX_NR_ZONES" "node_mem_map pg = 0"
    and "\<not> array_full (mb_reserved mb)" "\<not> slab_is_available slab"
    and "zone_init kernel_end slab max_low_pfn max_pfn v pg mb m = Inr (v', pg', mb', m')" "find_min_pfn_for_node 0 (mb_memory mb) < 1024"
  shows "granted mb m (mem_map_size pg') 6 (mem_map v') mb' m' \<and>
      (\<forall>pfn. unat pfn \<in> page_frames 0 (mb_memory mb) \<and> pfn < max_pfn \<longrightarrow>
         unat (pfn_to_page v' pfn - mem_map v') + 4 \<le> unat (mem_map_size pg')) \<or>
    mb' = mb \<and> m' = m \<and> (page_frames 0 (mb_memory mb) \<inter> {..<unat max_pfn} = {} \<or>
      mem_map v' = 0 \<and> search_set mb (mem_map_size pg') 6 0 0 NUMA_NO_NODE MEMBLOCK_NONE = {})"
proof -
  let ?A = "page_frames 0 (mb_memory mb) \<inter> {..<unat max_pfn}"
  have t: "pages_ok (mb_memory mb)" using assms(1,2) by (simp add: pages_ok_def mb_wf_def)
  have "mem_map_placed mb m ?A v' pg' mb' m' \<and> node_start_pfn pg' = find_min_pfn_for_node 0 (mb_memory mb)" using zone_init_outcome [OF assms(1-7), of kernel_end v m] assms(8) by auto
  moreover have "unat (pfn_to_page v' pfn - mem_map v') = 4 * unat pfn" if "unat pfn \<in> page_frames 0 (mb_memory mb)" for pfn
  proof -
    obtain ns ne where nr: "get_pfn_range_for_nid 0 (mb_memory mb) = (ns, ne)" by fastforce
    have "unat pfn < 2 ^ 20" using node_range [OF t nr] that by auto
    then show ?thesis by (simp add: pfn_to_page_def sizeof_page_def unat_word_ariths)
  qed
  ultimately show ?thesis using assms(9) unfolding mem_map_placed_def by (auto simp: word_less_nat_alt)
qed

theorem zone_init_places_mem_map_witness:
  "case zone_init 0 SLAB_DOWN 0x100 0x100 demo_zone_vars demo_pgdata demo_node_memblock (\<lambda>_. 1) of
     Inl e \<Rightarrow> False
   | Inr (v', pg', mb', m') \<Rightarrow>
       granted demo_node_memblock (\<lambda>_. 1) (mem_map_size pg') 6 (mem_map v') mb' m' \<and> 16 \<le> unat (mem_map_size pg') \<or>
       mb' = demo_node_memblock"
proof -
  note h = demo_node_facts(1,2) order_refl demo_node_facts(5,6,4,7)
  from zone_init_outcome [OF h, of 0 "0x100" demo_zone_vars "\<lambda>_. 1"] obtain v' pg' mb' m' where
    z: "zone_init 0 SLAB_DOWN 0x100 0x100 demo_zone_vars demo_pgdata demo_node_memblock (\<lambda>_. 1) = Inr (v', pg', mb', m')" by blast
  have "find_min_pfn_for_node 0 (mb_memory demo_node_memblock) < 1024" by (simp add: demo_node_facts(8))
  note p = zone_init_places_mem_map [OF h z this]
  have "unat (pfn_to_page v' 3 - mem_map v') = 12" by (simp add: pfn_to_page_def sizeof_page_def)
  moreover have "unat (3 :: ulong) \<in> page_frames 0 (mb_memory demo_node_memblock)" unfolding demo_node_facts(3) by simp
  ultimately show ?thesis using p unfolding z by (auto dest: spec [of _ 3])
qed

end
