(* ===== verification/Ioremap_Spec.thy ===== *)
theory Ioremap_Spec
  imports Early_Ioremap
begin

text \<open>
  The boot-time mappings through the page table: a mapping translates every byte of the requested range, the slots do
  not touch each other, and unmapping undoes mapping.
\<close>

section \<open>Pages and rounding\<close>

lemma unat_page_align: "unat (PAGE_ALIGN x) = 4096 * ((unat x + 4095) div 4096 mod 2 ^ 20)"
proof -
  have "PAGE_ALIGN x = round_down (x + 4095) (2 ^ 12)"
    by (simp add: PAGE_ALIGN_def ALIGN_def ALIGN_MASK_def PAGE_SIZE_def round_down_def round_mask_def)
  then have "unat (PAGE_ALIGN x) = unat (x + 4095) - unat (x + 4095) mod 4096" by (simp only: unat_round_down) simp
  moreover have "unat (x + 4095) = (unat x + 4095) mod (4096 * 2 ^ 20)" by (simp add: unat_word_ariths)
  ultimately show ?thesis by (simp only: mod_mult2_eq) simp
qed

lemma unat_page_mask: "unat (x AND PAGE_MASK) = 4096 * (unat x div 4096)"
proof -
  have "x AND PAGE_MASK = round_down x (2 ^ 12)" by (simp add: PAGE_MASK_def PAGE_SIZE_def round_down_def round_mask_def)
  then have "unat (x AND PAGE_MASK) = unat x - unat x mod 4096" by (simp only: unat_round_down) simp
  then show ?thesis by (simp add: minus_mod_eq_mult_div)
qed

lemma unat_offset_in_page: "unat (offset_in_page x) = unat x mod 4096"
proof -
  have "offset_in_page x = take_bit 12 x" by (simp add: offset_in_page_def PAGE_MASK_def PAGE_SIZE_def take_bit_eq_mask mask_numeral)
  then show ?thesis by (simp only: unat_take_bit) simp
qed

definition pages_needed :: "ulong \<Rightarrow> ulong \<Rightarrow> nat" where
  "pages_needed phys sz = (unat phys mod 4096 + unat sz + 4095) div 4096"

lemma nrpages:
  assumes "unat phys + unat sz \<le> 2 ^ 32" "sz \<noteq> 0"
  shows "unat (drop_bit PAGE_SHIFT (PAGE_ALIGN (phys + sz - 1 + 1) - (phys AND PAGE_MASK))) = pages_needed phys sz mod 2 ^ 20"
    "pages_needed phys sz \<le> 2 ^ 20" "0 < pages_needed phys sz"
proof -
  let ?p = "unat phys div 4096" and ?o = "unat phys mod 4096" and ?T = "unat phys + unat sz"
  let ?a = "(?T + 4095) div 4096"
  have T: "?T + 4095 = 4096 * ?p + (?o + unat sz + 4095)" by simp
  have a: "?a = ?p + pages_needed phys sz" unfolding pages_needed_def T by (simp only: div_mult_self3 [of 4096] add.commute)
  have "0 < unat sz" using assms(2) by (simp add: unat_gt_0)
  then show "0 < pages_needed phys sz" by (simp add: pages_needed_def div_greater_zero_iff)
  have "?a \<le> (2 ^ 32 + 4095) div 4096" using assms(1) by (intro div_le_mono) simp
  then have a20: "?a \<le> 2 ^ 20" by simp
  then show le: "pages_needed phys sz \<le> 2 ^ 20" using a by linarith
  have "unat (phys + sz) = ?T mod 2 ^ 32" by (simp add: unat_word_ariths)
  moreover have "(?T mod 2 ^ 32 + 4095) div 4096 mod 2 ^ 20 = ?a mod 2 ^ 20" using assms(1) by (cases "?T = 2 ^ 32") simp_all
  ultimately have A: "unat (PAGE_ALIGN (phys + sz)) = 4096 * (?a mod 2 ^ 20)" by (simp only: unat_page_align)
  have p: "?p < 2 ^ 20" using unat_lt32 [of phys] by simp
  show "unat (drop_bit PAGE_SHIFT (PAGE_ALIGN (phys + sz - 1 + 1) - (phys AND PAGE_MASK))) = pages_needed phys sz mod 2 ^ 20"
  proof (cases "?a < 2 ^ 20")
    case True
    then have "unat (PAGE_ALIGN (phys + sz) - (phys AND PAGE_MASK)) = 4096 * ?a - 4096 * ?p"
      using A a by (subst unat_sub_no_wrap) (simp_all add: unat_page_mask)
    then show ?thesis using True a by (simp add: unat_drop_bit PAGE_SHIFT_def)
  next
    case False
    then have a20: "?a = 2 ^ 20" using a20 by linarith
    then have "unat (PAGE_ALIGN (phys + sz)) = 0" using A by simp
    then have z: "PAGE_ALIGN (phys + sz) = 0" by (simp only: unat_eq_zero)
    let ?y = "phys AND PAGE_MASK"
    have "(unat (- ?y) + unat ?y) mod 2 ^ 32 = unat (- ?y + ?y)" by (simp only: unat_word_ariths) simp
    then have "(unat (- ?y) + 4096 * ?p) mod (4096 * 2 ^ 20) = 0" by (simp add: unat_page_mask)
    then have "(unat (- ?y) + 4096 * ?p) div 4096 mod 2 ^ 20 = 0" by (simp only: mod_mult2_eq)
    then have "(unat (- ?y) div 4096 + ?p) mod 2 ^ 20 = 0" by (simp add: add.commute)
    moreover have "unat (- ?y) div 4096 < 2 ^ 20" using unat_lt32 [of "- ?y"] by simp
    ultimately have "unat (- ?y) div 4096 = (2 ^ 20 - ?p) mod 2 ^ 20" using p by (cases "?p = 0") (auto simp: mod_if split: if_splits)
    moreover have "2 ^ 20 - ?p = pages_needed phys sz" using a a20 by linarith
    ultimately show ?thesis using z by (simp add: unat_drop_bit PAGE_SHIFT_def)
  qed
qed

section \<open>Slots\<close>

lemma fix_values: "FIX_BTMAP_BEGIN = 737" "end_of_fixed_addresses = 738" "NR_FIX_BTMAPS = 64" "FIX_BTMAPS_SLOTS = 8" "FIX_BTMAP_END = 226"
proof -
  have e: "end_of_permanent_fixed_addresses = 226"
    by (simp add: end_of_permanent_fixed_addresses_def FIX_KMAP_END_def FIX_KMAP_BEGIN_def FIX_IO_APIC_BASE_END_def
        FIX_IO_APIC_BASE_0_def FIX_APIC_BASE_def FIX_HOLE_def MAX_IO_APICS_def KM_TYPE_NR_def NR_CPUS_def)
  show f: "FIX_BTMAP_END = 226" unfolding FIX_BTMAP_END_def e TOTAL_FIX_BTMAPS_def NR_FIX_BTMAPS_def FIX_BTMAPS_SLOTS_def Let_def by simp
  show "FIX_BTMAP_BEGIN = 737" "end_of_fixed_addresses = 738" "NR_FIX_BTMAPS = 64" "FIX_BTMAPS_SLOTS = 8"
    by (simp_all add: FIX_BTMAP_BEGIN_def end_of_fixed_addresses_def f TOTAL_FIX_BTMAPS_def NR_FIX_BTMAPS_def FIX_BTMAPS_SLOTS_def)
qed

lemma unat_fix_to_virt: "x \<le> 738 \<Longrightarrow> unat (fix_to_virt x) = 0xFFFFF000 - 4096 * x"
proof -
  assume x: "x \<le> 738"
  have "unat (of_nat x :: ulong) = x" using x by (simp add: unat_of_nat take_bit_nat_eq_self)
  then have "unat (push_bit PAGE_SHIFT (of_nat x) :: ulong) = 4096 * x" using x by (simp add: push_bit_eq_mult PAGE_SHIFT_def unat_word_ariths)
  then show ?thesis using x unfolding fix_to_virt_def by (subst unat_sub_no_wrap) (simp_all add: FIXADDR_TOP_def)
qed

lemma pte_index_nat: "pte_index a = unat a div 4096 mod 1024"
proof -
  have "drop_bit PAGE_SHIFT a AND (of_nat PTRS_PER_PTE - 1) = take_bit 10 (drop_bit 12 a)"
    by (simp add: PTRS_PER_PTE_def PAGE_SHIFT_def take_bit_eq_mask mask_numeral)
  then show ?thesis unfolding pte_index_def by (simp only: unat_take_bit unat_drop_bit) simp
qed

text \<open>Slot \<open>i\<close> uses the page table entries from \<open>slot_base i\<close> on.\<close>

definition slot_base :: "nat \<Rightarrow> nat" where
  "slot_base i = 286 + 64 * i"

lemma slot_index:
  assumes "i < 8" "k < 64"
  shows "pte_index (fix_to_virt (737 - 64 * i - k)) = slot_base i + k"
proof -
  have "unat (fix_to_virt (737 - 64 * i - k)) = 4096 * (0xFFFFF - (737 - 64 * i - k))"
    using unat_fix_to_virt [of "737 - 64 * i - k"] by simp
  then have "pte_index (fix_to_virt (737 - 64 * i - k)) = (0xFFFFF - (737 - 64 * i - k)) mod 1024" by (simp add: pte_index_nat)
  also have "0xFFFFF - (737 - 64 * i - k) = 1024 * 1023 + (slot_base i + k)" using assms by (simp add: slot_base_def)
  finally show ?thesis using assms by (simp only: mod_mult_self4) (simp add: slot_base_def)
qed

section \<open>The invariant\<close>

text \<open>
  \<open>slot_pages s i\<close> is the number of entries the mapping in slot \<open>i\<close> has set.  A slot in use holds an address in its
  first page; behind the pages of a slot its entries are clear, so a free slot has none set.
\<close>

definition slot_pages :: "ioremap \<Rightarrow> nat \<Rightarrow> nat" where
  "slot_pages s i = (if prev_map s ! i = 0 then 0 else pages_needed (prev_map s ! i) (prev_size s ! i) mod 2 ^ 20)"

definition slot_ok :: "ioremap \<Rightarrow> nat \<Rightarrow> bool" where
  "slot_ok s i \<longleftrightarrow>
     (prev_map s ! i \<noteq> 0 \<longrightarrow>
        unat (prev_map s ! i) div 4096 = unat (fix_to_virt (737 - 64 * i)) div 4096 \<and>
        unat (prev_map s ! i) mod 4096 + unat (prev_size s ! i) \<le> 2 ^ 32) \<and>
     slot_pages s i \<le> 64 \<and> (\<forall>k < 64. slot_pages s i \<le> k \<longrightarrow> bm_pte s ! (slot_base i + k) = 0)"

definition ioremap_ok :: "ioremap \<Rightarrow> bool" where
  "ioremap_ok s \<longleftrightarrow>
     length (prev_map s) = 8 \<and> length (prev_size s) = 8 \<and> length (bm_pte s) = 1024 \<and> pmd_populated s \<and>
     slot_virt s = map (\<lambda>i. fix_to_virt (737 - 64 * i)) [0..<8] \<and>
     supported_pte_mask s AND PAGE_PRESENT \<noteq> 0 \<and> (\<forall>i < 8. slot_ok s i)"

definition set_ptes :: "(nat \<Rightarrow> ulong) \<Rightarrow> nat \<Rightarrow> nat \<Rightarrow> ulong list \<Rightarrow> ulong list" where
  "set_ptes f b n ptes = map (\<lambda>j. if b \<le> j \<and> j < b + n then f (j - b) else ptes ! j) [0..<length ptes]"

lemma set_ptes_0: "set_ptes f b 0 ptes = ptes"
  by (rule nth_equalityI) (auto simp: set_ptes_def)

lemma set_ptes_Suc:
  "b < length ptes \<Longrightarrow> set_ptes (\<lambda>k. f (Suc k)) (b + 1) n (ptes[b := f 0]) = set_ptes f b (Suc n) ptes"
  by (auto simp: set_ptes_def nth_list_update Suc_diff_Suc less_Suc_eq_le intro!: map_cong arg_cong [of _ _ f])

lemma length_set_ptes [simp]: "length (set_ptes f b n ptes) = length ptes"
  by (simp add: set_ptes_def)

lemma nth_set_ptes: "j < length ptes \<Longrightarrow> set_ptes f b n ptes ! j = (if b \<le> j \<and> j < b + n then f (j - b) else ptes ! j)"
  by (simp add: set_ptes_def)

lemma set_ptes_clear:
  assumes "\<forall>k < n. ptes ! (b + k) = 0"
  shows "set_ptes (\<lambda>_. 0) b n (set_ptes f b n ptes) = ptes"
proof (rule nth_equalityI)
  fix j assume j: "j < length (set_ptes (\<lambda>_. 0) b n (set_ptes f b n ptes))"
  show "set_ptes (\<lambda>_. 0) b n (set_ptes f b n ptes) ! j = ptes ! j"
  proof (cases "b \<le> j \<and> j < b + n")
    case True
    then have "j - b < n" "b + (j - b) = j" by linarith+
    then have "ptes ! j = 0" using assms by metis
    then show ?thesis using True j by (simp add: nth_set_ptes)
  qed (use j in \<open>auto simp: nth_set_ptes\<close>)
qed simp

lemma pfn_pte_0: "pfn_pte supported 0 0 = 0"
  by (simp add: pfn_pte_def massage_pgprot_def)

text \<open>The early and the late way to set an entry differ in a counter only.\<close>

lemma set_one:
  assumes "i < 8" "k < 64" "pmd_populated s" "prot \<noteq> 0 \<or> phys = 0"
  shows "\<exists>c. (if after_paging_init s then late_set_fixmap (737 - 64 * i - k) phys prot s else early_set_fixmap (737 - 64 * i - k) phys prot s) =
    Inr (s\<lparr>bm_pte := (bm_pte s)[slot_base i + k := pfn_pte (supported_pte_mask s) (drop_bit PAGE_SHIFT phys) prot], fixmaps_set := c\<rparr>)"
proof -
  define idx where "idx = 737 - 64 * i - k"
  have f: "\<not> end_of_fixed_addresses \<le> idx" by (simp add: idx_def fix_values)
  note ix = slot_index [OF assms(1,2), folded idx_def]
  have p: "(if prot \<noteq> 0 then pfn_pte (supported_pte_mask s) (drop_bit PAGE_SHIFT phys) prot else 0) =
      pfn_pte (supported_pte_mask s) (drop_bit PAGE_SHIFT phys) prot" using assms(4) by (auto simp: pfn_pte_0)
  have "\<exists>c. (if after_paging_init s then late_set_fixmap idx phys prot s else early_set_fixmap idx phys prot s) =
    Inr (s\<lparr>bm_pte := (bm_pte s)[slot_base i + k := pfn_pte (supported_pte_mask s) (drop_bit PAGE_SHIFT phys) prot], fixmaps_set := c\<rparr>)"
  proof (cases "after_paging_init s")
    case True
    then show ?thesis using f assms(3) by (auto simp: late_set_fixmap_def set_fixmap_def set_pte_vaddr_def ix Let_def)
  next
    case False
    then have "early_set_fixmap idx phys prot s =
        Inr (s\<lparr>bm_pte := (bm_pte s)[slot_base i + k := pfn_pte (supported_pte_mask s) (drop_bit PAGE_SHIFT phys) prot], fixmaps_set := fixmaps_set s\<rparr>)"
      using f by (simp add: early_set_fixmap_def ix Let_def p)
    with False show ?thesis by (intro exI [of _ "fixmaps_set s"]) simp
  qed
  then show ?thesis by (simp only: idx_def)
qed

lemma map_loop_ptes:
  assumes "i < 8" "k + n \<le> 64" "pmd_populated s" "prot \<noteq> 0" "length (bm_pte s) = 1024"
  shows "\<exists>c. map_loop n (737 - 64 * i - k) phys prot s =
    Inr (s\<lparr>bm_pte := set_ptes (\<lambda>q. pfn_pte (supported_pte_mask s) (drop_bit PAGE_SHIFT (phys + of_nat q * PAGE_SIZE)) prot) (slot_base i + k) n (bm_pte s),
           fixmaps_set := c\<rparr>)"
  using assms
proof (induction n arbitrary: k phys s)
  case 0
  then show ?case by (auto simp: set_ptes_0 intro!: exI [of _ "fixmaps_set s"])
next
  case (Suc n)
  let ?f = "\<lambda>phys q. pfn_pte (supported_pte_mask s) (drop_bit PAGE_SHIFT (phys + of_nat q * PAGE_SIZE)) prot"
  from set_one [of i k s prot phys] Suc.prems obtain c where
    one: "(if after_paging_init s then late_set_fixmap (737 - 64 * i - k) phys prot s else early_set_fixmap (737 - 64 * i - k) phys prot s) =
      Inr (s\<lparr>bm_pte := (bm_pte s)[slot_base i + k := ?f phys 0], fixmaps_set := c\<rparr>)" by auto
  let ?s = "s\<lparr>bm_pte := (bm_pte s)[slot_base i + k := ?f phys 0], fixmaps_set := c\<rparr>"
  have b: "slot_base i + k < length (bm_pte s)" using Suc.prems by (simp add: slot_base_def)
  have g: "?f (phys + PAGE_SIZE) = (\<lambda>q. ?f phys (Suc q))" by (simp add: fun_eq_iff algebra_simps)
  have "\<exists>c. map_loop n (737 - 64 * i - Suc k) (phys + PAGE_SIZE) prot ?s =
      Inr (?s\<lparr>bm_pte := set_ptes (?f (phys + PAGE_SIZE)) (slot_base i + Suc k) n (bm_pte ?s), fixmaps_set := c\<rparr>)"
    using Suc.IH [of "Suc k" ?s "phys + PAGE_SIZE"] Suc.prems by simp
  then show ?case using one set_ptes_Suc [OF b, of "?f phys" n] unfolding g by auto
qed

lemma unmap_loop_ptes:
  assumes "i < 8" "k + n \<le> 64" "pmd_populated s" "length (bm_pte s) = 1024"
  shows "\<exists>c. unmap_loop n (737 - 64 * i - k) s = Inr (s\<lparr>bm_pte := set_ptes (\<lambda>_. 0) (slot_base i + k) n (bm_pte s), fixmaps_set := c\<rparr>)"
  using assms
proof (induction n arbitrary: k s)
  case 0
  then show ?case by (auto simp: set_ptes_0 intro!: exI [of _ "fixmaps_set s"])
next
  case (Suc n)
  have "(if after_paging_init s then late_clear_fixmap idx s else early_set_fixmap idx 0 FIXMAP_PAGE_CLEAR s) =
      (if after_paging_init s then late_set_fixmap idx 0 0 s else early_set_fixmap idx 0 0 s)" for idx
    by (simp add: late_clear_fixmap_def late_set_fixmap_def FIXMAP_PAGE_CLEAR_def)
  with set_one [of i k s 0 0] Suc.prems obtain c where
    one: "(if after_paging_init s then late_clear_fixmap (737 - 64 * i - k) s else early_set_fixmap (737 - 64 * i - k) 0 FIXMAP_PAGE_CLEAR s) =
      Inr (s\<lparr>bm_pte := (bm_pte s)[slot_base i + k := 0], fixmaps_set := c\<rparr>)"
    by (auto simp: pfn_pte_0)
  let ?s = "s\<lparr>bm_pte := (bm_pte s)[slot_base i + k := 0], fixmaps_set := c\<rparr>"
  have b: "slot_base i + k < length (bm_pte s)" using Suc.prems by (simp add: slot_base_def)
  have "\<exists>c. unmap_loop n (737 - 64 * i - Suc k) ?s = Inr (?s\<lparr>bm_pte := set_ptes (\<lambda>_. 0) (slot_base i + Suc k) n (bm_pte ?s), fixmaps_set := c\<rparr>)"
    using Suc.IH [of "Suc k" ?s] Suc.prems by simp
  then show ?case using one set_ptes_Suc [OF b, of "\<lambda>_. 0" n] by auto
qed

section \<open>Finding a slot\<close>

lemma find_slot_Some: "find_slot p ms j = Some i \<Longrightarrow> j \<le> i \<and> i < j + length ms \<and> ms ! (i - j) = p"
  by (induction p ms j rule: find_slot.induct) (auto split: if_splits simp: nth_Cons')

lemma find_slot_None: "find_slot p ms j = None \<longleftrightarrow> p \<notin> set ms"
  by (induction p ms j rule: find_slot.induct) auto

lemma find_slot_unique:
  assumes "i < length ms" "ms ! i = p" "\<And>k. k < length ms \<Longrightarrow> ms ! k = p \<Longrightarrow> k = i"
  shows "find_slot p ms 0 = Some i"
proof (cases "find_slot p ms 0")
  case None
  then show ?thesis using assms(1,2) by (auto simp: find_slot_None)
next
  case (Some k)
  then show ?thesis using find_slot_Some [OF Some] assms(3) [of k] by simp
qed

lemma slot_address:
  assumes "i < 8" "unat off < 4096"
  shows "unat (off + fix_to_virt (737 - 64 * i)) = unat off + 4096 * (1047838 + 64 * i)"
    "unat (off + fix_to_virt (737 - 64 * i)) div 4096 = 1047838 + 64 * i" "off + fix_to_virt (737 - 64 * i) \<noteq> 0"
    "unat (off + fix_to_virt (737 - 64 * i)) mod 4096 = unat off"
proof -
  have f: "unat (fix_to_virt (737 - 64 * i)) = 4096 * (1047838 + 64 * i)" using assms(1) by (subst unat_fix_to_virt) simp_all
  then show u: "unat (off + fix_to_virt (737 - 64 * i)) = unat off + 4096 * (1047838 + 64 * i)"
    using assms by (subst unat_add_no_wrap) simp_all
  show "unat (off + fix_to_virt (737 - 64 * i)) div 4096 = 1047838 + 64 * i" unfolding u using assms(2) by simp
  show "unat (off + fix_to_virt (737 - 64 * i)) mod 4096 = unat off"
    unfolding u using assms(2) by (simp only: mod_mult_self2) simp
  have "unat (off + fix_to_virt (737 - 64 * i)) \<noteq> 0" unfolding u by simp
  then show "off + fix_to_virt (737 - 64 * i) \<noteq> 0" by auto
qed

lemma wrap_iff:
  fixes phys sz :: ulong
  shows "(sz = 0 \<or> phys + sz - 1 < phys) \<longleftrightarrow> sz = 0 \<or> 2 ^ 32 < unat phys + unat sz"
proof (cases "sz = 0")
  case False
  then have z: "unat (sz - 1) = unat sz - 1" "0 < unat sz" by (simp_all add: unat_minus_one unat_gt_0)
  have "(phys + (sz - 1) < phys) = (2 ^ 32 \<le> unat phys + unat (sz - 1))"
    using unat_lt32 [of phys] unat_lt32 [of "sz - 1"]
    by (auto simp: word_less_nat_alt unat_word_ariths mod_if)
  then show ?thesis using False z by (simp add: add_diff_eq) linarith
qed simp

section \<open>The operations\<close>

definition map_entry :: "ulong \<Rightarrow> ulong \<Rightarrow> ulong \<Rightarrow> nat \<Rightarrow> ulong" where
  "map_entry supported phys prot q = pfn_pte supported (drop_bit PAGE_SHIFT ((phys AND PAGE_MASK) + of_nat q * PAGE_SIZE)) prot"

text \<open>A state with a mapping in slot \<open>i\<close>.\<close>

definition mapped :: "nat \<Rightarrow> ulong \<Rightarrow> ulong \<Rightarrow> ulong \<Rightarrow> ioremap \<Rightarrow> ioremap" where
  "mapped i phys sz prot s =
     s\<lparr>prev_size := (prev_size s)[i := sz], prev_map := (prev_map s)[i := offset_in_page phys + fix_to_virt (737 - 64 * i)],
       bm_pte := set_ptes (map_entry (supported_pte_mask s) phys prot) (slot_base i) (pages_needed phys sz mod 2 ^ 20) (bm_pte s)\<rparr>"

definition unmapped :: "nat \<Rightarrow> ioremap \<Rightarrow> ioremap" where
  "unmapped i s = s\<lparr>prev_map := (prev_map s)[i := 0], bm_pte := set_ptes (\<lambda>_. 0) (slot_base i) (slot_pages s i) (bm_pte s)\<rparr>"

definition map_refused :: "ulong \<Rightarrow> ulong \<Rightarrow> ioremap \<Rightarrow> bool" where
  "map_refused phys sz s \<longleftrightarrow>
     0 \<notin> set (prev_map s) \<or> sz = 0 \<or> 2 ^ 32 < unat phys + unat sz \<or> 64 < pages_needed phys sz mod 2 ^ 20"

lemma early_ioremap_accepts:
  assumes "ioremap_ok s" "\<not> map_refused phys sz s" "prot \<noteq> 0"
  obtains i c where "i < 8" "prev_map s ! i = 0" "find_slot 0 (prev_map s) 0 = Some i"
    "early_ioremap_prot phys sz prot s =
       Inr (offset_in_page phys + fix_to_virt (737 - 64 * i), (mapped i phys sz prot s)\<lparr>fixmaps_set := c\<rparr>)"
proof -
  let ?n = "pages_needed phys sz mod 2 ^ 20"
  from assms(2) have r: "sz \<noteq> 0" "unat phys + unat sz \<le> 2 ^ 32" "?n \<le> 64" and z: "0 \<in> set (prev_map s)"
    by (auto simp: map_refused_def)
  from z obtain i where f: "find_slot 0 (prev_map s) 0 = Some i" by (metis find_slot_None not_Some_eq)
  have i: "i < 8" "prev_map s ! i = 0" using find_slot_Some [OF f] assms(1) by (simp_all add: ioremap_ok_def)
  have w: "\<not> (sz = 0 \<or> phys + sz - 1 < phys)" unfolding wrap_iff using r by simp
  let ?s = "s\<lparr>prev_size := (prev_size s)[i := sz]\<rparr>"
  obtain c where c: "map_loop ?n (737 - 64 * i - 0) (phys AND PAGE_MASK) prot ?s =
      Inr (?s\<lparr>bm_pte := set_ptes (\<lambda>q. pfn_pte (supported_pte_mask ?s) (drop_bit PAGE_SHIFT ((phys AND PAGE_MASK) + of_nat q * PAGE_SIZE)) prot)
        (slot_base i + 0) ?n (bm_pte ?s), fixmaps_set := c\<rparr>)"
    using map_loop_ptes [of i 0 ?n ?s prot "phys AND PAGE_MASK"] i r(3) assms(1,3) by (auto simp: ioremap_ok_def)
  have m: "map_entry (supported_pte_mask s) phys prot =
      (\<lambda>q. pfn_pte (supported_pte_mask s) (drop_bit PAGE_SHIFT ((phys AND PAGE_MASK) + of_nat q * PAGE_SIZE)) prot)"
    by (simp add: fun_eq_iff map_entry_def)
  have "early_ioremap_prot phys sz prot s =
       Inr (offset_in_page phys + fix_to_virt (737 - 64 * i), (mapped i phys sz prot s)\<lparr>fixmaps_set := c\<rparr>)"
    unfolding early_ioremap_prot_def f option.case Let_def if_not_P [OF w] nrpages(1) [OF r(2,1)] fix_values
    using r(3) c i assms(1) by (simp add: mapped_def m ioremap_ok_def)
  with i f show ?thesis by (rule that)
qed

lemma early_ioremap_refuses:
  assumes "ioremap_ok s" "map_refused phys sz s"
  obtains t where "early_ioremap_prot phys sz prot s = Inr (0, t)" "t = s \<or> (\<exists>i < 8. prev_map s ! i = 0 \<and> t = s\<lparr>prev_size := (prev_size s)[i := sz]\<rparr>)"
proof (cases "find_slot 0 (prev_map s) 0")
  case None
  then show ?thesis by (intro that) (auto simp: early_ioremap_prot_def)
next
  case (Some i)
  then have z: "0 \<in> set (prev_map s)" by (metis find_slot_None option.discI)
  have i: "i < 8" "prev_map s ! i = 0" using find_slot_Some [OF Some] assms(1) by (simp_all add: ioremap_ok_def)
  show ?thesis
  proof (cases "sz = 0 \<or> 2 ^ 32 < unat phys + unat sz")
    case True
    then have "sz = 0 \<or> phys + sz - 1 < phys" by (simp only: wrap_iff)
    then show ?thesis by (intro that [of s]) (simp_all add: early_ioremap_prot_def Some Let_def)
  next
    case False
    then have r: "unat phys + unat sz \<le> 2 ^ 32" "sz \<noteq> 0" by simp_all
    from False have w: "\<not> (sz = 0 \<or> phys + sz - 1 < phys)" by (simp only: wrap_iff) simp
    have n: "64 < pages_needed phys sz mod 2 ^ 20" using assms(2) z False by (auto simp: map_refused_def)
    show ?thesis
    proof (rule that)
      show "early_ioremap_prot phys sz prot s = Inr (0, s\<lparr>prev_size := (prev_size s)[i := sz]\<rparr>)"
        unfolding early_ioremap_prot_def Some option.case Let_def if_not_P [OF w] nrpages(1) [OF r] fix_values if_P [OF n] ..
    qed (use i in auto)
  qed
qed

lemma slot_in_use:
  assumes "ioremap_ok s" "i < 8" "prev_map s ! i \<noteq> 0"
  shows "unat (prev_map s ! i) div 4096 = 1047838 + 64 * i"
proof -
  have "slot_ok s i" using assms(1,2) by (simp add: ioremap_ok_def)
  then show ?thesis using assms(2,3) slot_address(2) [of i 0] by (simp add: slot_ok_def)
qed

lemma in_use_unique:
  assumes "ioremap_ok s" "i < 8" "j < 8" "prev_map s ! i = prev_map s ! j" "prev_map s ! i \<noteq> 0"
  shows "i = j"
proof -
  have "unat (prev_map s ! i) div 4096 = 1047838 + 64 * j" unfolding assms(4) by (rule slot_in_use [OF assms(1,3)]) (use assms(4,5) in argo)
  then have "1047838 + 64 * i = 1047838 + 64 * j" by (simp only: slot_in_use [OF assms(1,2,5)])
  then show ?thesis by simp
qed

text \<open>\<^verbatim>\<open>early_iounmap\<close> either clears the slot of the mapping with this address and size or changes nothing.\<close>

definition unmap_slot :: "ulong \<Rightarrow> ulong \<Rightarrow> ioremap \<Rightarrow> nat option" where
  "unmap_slot addr sz s =
     (if addr = 0 then None
      else case find_slot addr (prev_map s) 0 of None \<Rightarrow> None | Some i \<Rightarrow> if prev_size s ! i = sz then Some i else None)"

lemma early_iounmap_effect:
  assumes "ioremap_ok s"
  shows "\<exists>c. early_iounmap addr sz s =
    Inr (case unmap_slot addr sz s of None \<Rightarrow> s | Some i \<Rightarrow> (unmapped i s)\<lparr>fixmaps_set := c\<rparr>)"
proof (cases "find_slot addr (prev_map s) 0")
  case None
  then show ?thesis by (simp add: early_iounmap_def unmap_slot_def)
next
  case (Some i)
  have i: "i < 8" "prev_map s ! i = addr" using find_slot_Some [OF Some] assms by (auto simp: ioremap_ok_def)
  have f: "unat (fix_to_virt 737) = 4096 * 1047838" by (subst unat_fix_to_virt) simp_all
  consider "prev_size s ! i \<noteq> sz" | "prev_size s ! i = sz" "addr = 0" | "prev_size s ! i = sz" "addr \<noteq> 0" by blast
  then show ?thesis
  proof cases
    case 1
    then show ?thesis by (simp add: early_iounmap_def unmap_slot_def Some)
  next
    case 2
    have "(0::ulong) < fix_to_virt 737" using f by (simp add: word_less_nat_alt)
    then show ?thesis using 2 Some by (simp add: early_iounmap_def unmap_slot_def fix_values)
  next
    case 3
    have "slot_ok s i" using assms i(1) by (simp add: ioremap_ok_def)
    then have ok: "unat addr div 4096 = 1047838 + 64 * i" "unat addr mod 4096 + unat sz \<le> 2 ^ 32" "slot_pages s i \<le> 64"
      using slot_in_use [OF assms i(1)] i(2) 3 by (simp_all add: slot_ok_def)
    then have "\<not> addr < fix_to_virt 737" using f by (simp add: word_less_nat_alt)
    let ?T = "unat addr mod 4096 + unat sz"
    have "unat (offset_in_page addr + sz) = ?T mod 2 ^ 32" by (simp add: unat_word_ariths unat_offset_in_page)
    moreover have "(?T mod 2 ^ 32 + 4095) div 4096 mod 2 ^ 20 = (?T + 4095) div 4096 mod 2 ^ 20"
      using ok(2) by (cases "?T = 2 ^ 32") simp_all
    ultimately have n: "unat (drop_bit PAGE_SHIFT (PAGE_ALIGN (offset_in_page addr + sz))) = slot_pages s i"
      using 3 i by (simp add: unat_drop_bit PAGE_SHIFT_def unat_page_align slot_pages_def pages_needed_def)
    obtain c where "unmap_loop (slot_pages s i) (737 - 64 * i - 0) s =
        Inr (s\<lparr>bm_pte := set_ptes (\<lambda>_. 0) (slot_base i + 0) (slot_pages s i) (bm_pte s), fixmaps_set := c\<rparr>)"
      using unmap_loop_ptes [of i 0 "slot_pages s i" s] i ok(3) assms by (auto simp: ioremap_ok_def)
    then have "early_iounmap addr sz s = Inr ((unmapped i s)\<lparr>fixmaps_set := c\<rparr>)"
      using \<open>\<not> addr < fix_to_virt 737\<close> n 3 by (simp add: early_iounmap_def Some fix_values unmapped_def)
    then show ?thesis using 3 Some by (intro exI [of _ c]) (simp add: unmap_slot_def)
  qed
qed

lemma slots_apart: "i < 8 \<Longrightarrow> j < 8 \<Longrightarrow> i \<noteq> j \<Longrightarrow> k < 64 \<Longrightarrow> n \<le> 64 \<Longrightarrow> \<not> (slot_base i \<le> slot_base j + k \<and> slot_base j + k < slot_base i + n)"
  by (auto simp: slot_base_def)

lemma slot_ok_fixmaps_set [simp]: "slot_ok (s\<lparr>fixmaps_set := c\<rparr>) j = slot_ok s j"
  by (simp add: slot_ok_def slot_pages_def)

lemma ioremap_ok_fixmaps_set [simp]: "ioremap_ok (s\<lparr>fixmaps_set := c\<rparr>) = ioremap_ok s"
  by (simp add: ioremap_ok_def)

lemma other_slot_entries:
  assumes "i < 8" "j < 8" "i \<noteq> j" "k < 64" "n \<le> 64" "length ptes = 1024"
  shows "set_ptes f (slot_base i) n ptes ! (slot_base j + k) = ptes ! (slot_base j + k)"
proof -
  have "slot_base j + k < length ptes" using assms(2,4,6) by (simp add: slot_base_def)
  then show ?thesis using slots_apart [OF assms(1-5)] by (auto simp: nth_set_ptes)
qed

lemma slot_ok_cong:
  assumes "prev_map t ! j = prev_map s ! j" "prev_size t ! j = prev_size s ! j"
    "\<And>k. k < 64 \<Longrightarrow> bm_pte t ! (slot_base j + k) = bm_pte s ! (slot_base j + k)"
  shows "slot_ok t j = slot_ok s j"
  using assms(3) by (auto simp: slot_ok_def slot_pages_def assms(1,2))

lemma ioremap_ok_mapped:
  assumes "ioremap_ok s" "\<not> map_refused phys sz s" "i < 8" "prev_map s ! i = 0"
  shows "ioremap_ok (mapped i phys sz prot s)"
proof -
  let ?n = "pages_needed phys sz mod 2 ^ 20" and ?s = "mapped i phys sz prot s"
  have n: "?n \<le> 64" and w: "unat phys + unat sz \<le> 2 ^ 32" using assms(2) by (auto simp: map_refused_def)
  have len: "length (prev_map s) = 8" "length (prev_size s) = 8" "length (bm_pte s) = 1024" using assms(1) by (simp_all add: ioremap_ok_def)
  have o: "unat (offset_in_page phys) = unat phys mod 4096" by (rule unat_offset_in_page)
  note a = slot_address [OF assms(3), of "offset_in_page phys", unfolded o, simplified]
  have "slot_ok ?s j" if j: "j < 8" for j
  proof (cases "j = i")
    case True
    have m: "prev_map ?s ! i = offset_in_page phys + fix_to_virt (737 - 64 * i)" "prev_size ?s ! i = sz"
      using len assms(3) by (simp_all add: mapped_def)
    then have p: "slot_pages ?s i = ?n" using a(3,4) by (simp add: slot_pages_def pages_needed_def)
    have "unat phys mod 4096 + unat sz \<le> 2 ^ 32" using w mod_less_eq_dividend [of "unat phys" 4096] by linarith
    moreover have "bm_pte ?s ! (slot_base i + k) = 0" if "k < 64" "?n \<le> k" for k
    proof -
      have "bm_pte s ! (slot_base i + k) = 0" using assms(1,3,4) that(1) by (simp add: ioremap_ok_def slot_ok_def slot_pages_def)
      then show ?thesis using that assms(3) len by (simp add: mapped_def nth_set_ptes slot_base_def)
    qed
    moreover have "unat (prev_map ?s ! i) div 4096 = unat (fix_to_virt (737 - 64 * i)) div 4096"
      using a(2) slot_address(2) [OF assms(3), of 0] by (simp add: m)
    ultimately show ?thesis unfolding True slot_ok_def p using n a(4) by (simp add: m)
  next
    case False
    have "slot_ok s j" using assms(1) j by (simp add: ioremap_ok_def)
    moreover have "slot_ok ?s j = slot_ok s j"
      using False other_slot_entries [OF assms(3) j _ _ n len(3)] by (intro slot_ok_cong) (simp_all add: mapped_def)
    ultimately show ?thesis by simp
  qed
  then show ?thesis using assms(1) by (simp add: ioremap_ok_def mapped_def)
qed

lemma ioremap_ok_unmapped:
  assumes "ioremap_ok s" "i < 8"
  shows "ioremap_ok (unmapped i s)"
proof -
  have n: "slot_pages s i \<le> 64" and len: "length (prev_map s) = 8" "length (bm_pte s) = 1024"
    using assms by (simp_all add: ioremap_ok_def slot_ok_def)
  have "slot_ok (unmapped i s) j" if j: "j < 8" for j
  proof (cases "j = i")
    case True
    have "bm_pte s ! (slot_base i + k) = 0" if "slot_pages s i \<le> k" "k < 64" for k
      using assms that by (simp add: ioremap_ok_def slot_ok_def)
    then show ?thesis using True assms(2) len by (auto simp: slot_ok_def unmapped_def slot_pages_def nth_set_ptes slot_base_def)
  next
    case False
    have "slot_ok s j" using assms(1) j by (simp add: ioremap_ok_def)
    moreover have "slot_ok (unmapped i s) j = slot_ok s j"
      using False other_slot_entries [OF assms(2) j _ _ n len(2)] by (intro slot_ok_cong) (simp_all add: unmapped_def)
    ultimately show ?thesis by simp
  qed
  then show ?thesis using assms(1) by (simp add: ioremap_ok_def unmapped_def)
qed

section \<open>Reachable states\<close>

text \<open>Setup from the zeroed slots, then any sequence of mappings, unmappings and the switch to the late entries.\<close>

inductive ioremap_reach :: "ioremap \<Rightarrow> bool" where
  reach_init: "prev_map s = replicate 8 0 \<Longrightarrow> prev_size s = replicate 8 0 \<Longrightarrow> supported_pte_mask s AND PAGE_PRESENT \<noteq> 0 \<Longrightarrow>
    ioremap_reach (early_ioremap_init s)"
| reach_ioremap: "ioremap_reach s \<Longrightarrow> early_ioremap phys sz s = Inr (v, t) \<Longrightarrow> ioremap_reach t"
| reach_memremap: "ioremap_reach s \<Longrightarrow> early_memremap phys sz s = Inr (v, t) \<Longrightarrow> ioremap_reach t"
| reach_iounmap: "ioremap_reach s \<Longrightarrow> early_iounmap v sz s = Inr t \<Longrightarrow> ioremap_reach t"
| reach_reset: "ioremap_reach s \<Longrightarrow> ioremap_reach (early_ioremap_reset s)"

lemma page_kernel_value: "PAGE_KERNEL = 0x163"
  by (simp add: PAGE_KERNEL_def PAGE_PRESENT_def PAGE_RW_def PAGE_DIRTY_def PAGE_ACCESSED_def PAGE_GLOBAL_def)

lemma page_kernel_neq_0: "PAGE_KERNEL \<noteq> 0"
  by (simp add: page_kernel_value)

lemma memremap_is_ioremap: "early_memremap = early_ioremap"
  by (simp add: early_memremap_def early_ioremap_def fun_eq_iff FIXMAP_PAGE_NORMAL_def FIXMAP_PAGE_IO_def)

lemma ioremap_ok_prev_size:
  assumes "ioremap_ok s" "prev_map s ! i = 0"
  shows "ioremap_ok (s\<lparr>prev_size := (prev_size s)[i := sz]\<rparr>)"
proof -
  have "slot_ok (s\<lparr>prev_size := (prev_size s)[i := sz]\<rparr>) j = slot_ok s j" for j
    using assms(2) by (cases "i = j") (simp_all add: slot_ok_def slot_pages_def)
  then show ?thesis using assms(1) by (simp add: ioremap_ok_def)
qed

lemma ioremap_ok_early_ioremap:
  assumes "ioremap_ok s" "early_ioremap phys sz s = Inr (v, t)"
  shows "ioremap_ok t"
proof (cases "map_refused phys sz s")
  case True
  from early_ioremap_refuses [OF assms(1) True] show ?thesis
    using assms ioremap_ok_prev_size [OF assms(1)] by (metis early_ioremap_def Inr_inject Pair_inject)
next
  case False
  from early_ioremap_accepts [OF assms(1) False page_kernel_neq_0] show ?thesis
    using assms ioremap_ok_mapped [OF assms(1) False] by (metis early_ioremap_def FIXMAP_PAGE_IO_def Inr_inject Pair_inject ioremap_ok_fixmaps_set)
qed

lemma ioremap_ok_early_iounmap:
  assumes "ioremap_ok s" "early_iounmap addr sz s = Inr t"
  shows "ioremap_ok t"
proof (cases "unmap_slot addr sz s")
  case None
  then show ?thesis using early_iounmap_effect [OF assms(1), of addr sz] assms by simp
next
  case (Some i)
  then have "i < 8" using assms(1) by (auto simp: unmap_slot_def ioremap_ok_def dest: find_slot_Some split: if_splits option.splits)
  with Some show ?thesis using early_iounmap_effect [OF assms(1), of addr sz] assms ioremap_ok_unmapped [OF assms(1)] by auto
qed

lemma ioremap_ok_init:
  assumes "prev_map s = replicate 8 0" "prev_size s = replicate 8 0" "supported_pte_mask s AND PAGE_PRESENT \<noteq> 0"
  shows "ioremap_ok (early_ioremap_init s)"
proof -
  have "slot_ok (early_ioremap_init s) i" if "i < 8" for i
    using that assms by (simp add: slot_ok_def slot_pages_def early_ioremap_init_def early_ioremap_setup_def slot_base_def PTRS_PER_PTE_def)
  then show ?thesis using assms
    by (simp add: ioremap_ok_def early_ioremap_init_def early_ioremap_setup_def PTRS_PER_PTE_def fix_values mult.commute)
qed

lemma ioremap_reach_ok: "ioremap_reach s \<Longrightarrow> ioremap_ok s"
proof (induction rule: ioremap_reach.induct)
  case (reach_reset s)
  have "slot_ok (early_ioremap_reset s) i = slot_ok s i" for i
    by (rule slot_ok_cong) (simp_all add: early_ioremap_reset_def)
  with reach_reset.IH show ?case by (simp add: ioremap_ok_def) (simp add: early_ioremap_reset_def)
qed (auto simp: memremap_is_ioremap intro: ioremap_ok_init ioremap_ok_early_ioremap ioremap_ok_early_iounmap)

section \<open>Translation\<close>

text \<open>The address the processor reaches through the page table of the fixed addresses.\<close>

definition translate :: "ioremap \<Rightarrow> ulong \<Rightarrow> ulong option" where
  "translate s va =
     (let e = bm_pte s ! pte_index va in
      if e AND PAGE_PRESENT \<noteq> 0 then Some ((e AND PAGE_MASK) OR offset_in_page va) else None)"

lemma page_frame_mask: "push_bit PAGE_SHIFT (drop_bit PAGE_SHIFT a) = a AND PAGE_MASK" for a :: ulong
proof -
  have "4096 * (unat a div 4096) < 2 ^ 32" using unat_lt32 [of a] by simp
  then show ?thesis
    by (simp add: word_unat_eq_iff unat_page_mask push_bit_eq_mult PAGE_SHIFT_def unat_word_ariths unat_drop_bit)
qed

lemma map_entry_parts:
  assumes "supported AND PAGE_PRESENT \<noteq> 0"
  shows "map_entry supported phys PAGE_KERNEL q AND PAGE_PRESENT \<noteq> 0"
    "map_entry supported phys PAGE_KERNEL q AND PAGE_MASK = ((phys AND PAGE_MASK) + of_nat q * PAGE_SIZE) AND PAGE_MASK"
proof -
  let ?a = "(phys AND PAGE_MASK) + of_nat q * PAGE_SIZE"
  have m: "massage_pgprot supported PAGE_KERNEL = 0x163 AND supported"
    by (simp add: massage_pgprot_def page_kernel_value PAGE_PRESENT_def)
  have e: "map_entry supported phys PAGE_KERNEL q = (?a AND PAGE_MASK) OR (0x163 AND supported)"
    unfolding map_entry_def pfn_pte_def m page_frame_mask ..
  have "odd supported" using assms by (simp add: PAGE_PRESENT_def and_one_eq mod_2_eq_odd)
  then have "odd (map_entry supported phys PAGE_KERNEL q)" by (simp add: e even_or_iff even_and_iff)
  then show "map_entry supported phys PAGE_KERNEL q AND PAGE_PRESENT \<noteq> 0" by (simp add: PAGE_PRESENT_def and_one_eq mod_2_eq_odd)
  have "(0x163 AND supported) AND PAGE_MASK = (0x163 AND PAGE_MASK) AND supported" by (simp only: ac_simps)
  also have "\<dots> = 0" by (simp add: PAGE_MASK_def PAGE_SIZE_def)
  finally show "map_entry supported phys PAGE_KERNEL q AND PAGE_MASK = ?a AND PAGE_MASK"
    unfolding e by (simp only: bit.conj_disj_distrib2) (simp add: and.assoc)
qed

lemma unat_page_or: "unat ((a AND PAGE_MASK) OR offset_in_page b) = 4096 * (unat a div 4096) + unat b mod 4096"
proof -
  have "(a AND PAGE_MASK) AND offset_in_page b = (a AND b) AND (PAGE_MASK AND NOT PAGE_MASK)"
    unfolding offset_in_page_def by (simp only: ac_simps)
  then have "(a AND PAGE_MASK) AND offset_in_page b = 0" by simp
  then have "(a AND PAGE_MASK) OR offset_in_page b = (a AND PAGE_MASK) + offset_in_page b" by (rule disjunctive_add_eq_or [symmetric])
  moreover have "4096 * (unat a div 4096) + unat b mod 4096 < 2 ^ 32"
  proof -
    have "unat a div 4096 < 2 ^ 20" using unat_lt32 [of a] by simp
    then have "4096 * (unat a div 4096) + 4096 \<le> 2 ^ 32" by simp
    moreover have "unat b mod 4096 < 4096" by simp
    ultimately show ?thesis by linarith
  qed
  ultimately show ?thesis by (simp add: unat_word_ariths unat_page_mask unat_offset_in_page)
qed

lemma translate_mapped:
  assumes "ioremap_ok s" "i < 8" "unat phys + unat sz \<le> 2 ^ 32" "pages_needed phys sz \<le> 64" "k < unat sz"
  shows "translate (mapped i phys sz PAGE_KERNEL s) (offset_in_page phys + fix_to_virt (737 - 64 * i) + of_nat k) = Some (phys + of_nat k)"
proof -
  let ?va = "offset_in_page phys + fix_to_virt (737 - 64 * i) + of_nat k" and ?s = "mapped i phys sz PAGE_KERNEL s"
  define r where "r = unat phys mod 4096"
  define q where "q = (r + k) div 4096"
  let ?a = "(phys AND PAGE_MASK) + of_nat q * PAGE_SIZE"
  have P: "unat phys = 4096 * (unat phys div 4096) + r" by (simp add: r_def)
  have Q: "r + k = 4096 * q + (r + k) mod 4096" by (simp add: q_def)
  have "r + k + 4096 \<le> r + unat sz + 4095" using assms(5) by simp
  then have "q + 1 \<le> pages_needed phys sz" unfolding pages_needed_def q_def r_def [symmetric]
    using div_le_mono [of "r + k + 4096" "r + unat sz + 4095" 4096] by simp
  then have q: "q < pages_needed phys sz" "q < 64" using assms(4) by simp_all
  have k: "unat (of_nat k :: ulong) = k" using assms(5) unat_lt32 [of sz] by (simp add: unat_of_nat take_bit_nat_eq_self)
  have r: "unat (offset_in_page phys) = r" by (simp add: r_def unat_offset_in_page)
  have "r + k < 4096 * 64" using q(2) Q by linarith
  then have va: "unat ?va = 4096 * (1047838 + 64 * i) + (r + k)"
    using assms(2) k slot_address(1) [OF assms(2), of "offset_in_page phys"] r by (subst unat_add_no_wrap) (simp_all add: r_def)
  then have "unat ?va = 4096 * (1047838 + 64 * i + q) + (r + k) mod 4096" using Q by simp
  then have vd: "unat ?va div 4096 = 1024 * 1023 + (286 + 64 * i + q)" and vm: "unat ?va mod 4096 = (r + k) mod 4096"
    by (simp, simp only: mod_mult_self4 mod_mod_trivial)
  have ix: "pte_index ?va = slot_base i + q"
    unfolding pte_index_nat vd using q(2) assms(2) by (simp only: mod_mult_self4) (simp add: slot_base_def)
  have "unat (of_nat q :: ulong) = q" using q(2) by (simp add: unat_of_nat take_bit_nat_eq_self)
  then have "unat (of_nat q * PAGE_SIZE :: ulong) = 4096 * q" using q(2) by (simp add: unat_word_ariths PAGE_SIZE_def)
  moreover have "4096 * (unat phys div 4096) + 4096 * q < 2 ^ 32" using P Q assms(3,5) by linarith
  ultimately have a: "unat ?a = 4096 * (unat phys div 4096 + q)" by (subst unat_add_no_wrap) (simp_all add: unat_page_mask)
  have sup: "supported_pte_mask s AND PAGE_PRESENT \<noteq> 0" and len: "length (bm_pte s) = 1024" using assms(1) by (simp_all add: ioremap_ok_def)
  have n: "pages_needed phys sz mod 2 ^ 20 = pages_needed phys sz" using assms(4) by simp
  have e: "bm_pte ?s ! pte_index ?va = map_entry (supported_pte_mask s) phys PAGE_KERNEL q"
    unfolding ix mapped_def n using q assms(2) len by (simp add: nth_set_ptes slot_base_def)
  have "unat ((?a AND PAGE_MASK) OR offset_in_page ?va) = unat phys + k"
    unfolding unat_page_or vm a using P Q by simp
  also have "\<dots> = unat (phys + of_nat k)" using assms(3,5) k by (subst unat_add_no_wrap) simp_all
  finally have "(?a AND PAGE_MASK) OR offset_in_page ?va = phys + of_nat k" by (simp only: word_unat_eq_iff)
  then show ?thesis unfolding translate_def Let_def e using map_entry_parts [OF sup] by simp
qed

lemma translate_kept:
  assumes "ioremap_ok s" "i < 8" "prev_map s ! i = 0" "pages_needed phys sz mod 2 ^ 20 \<le> 64" "translate s va \<noteq> None"
  shows "translate (mapped i phys sz prot s) va = translate s va"
proof -
  let ?j = "pte_index va" and ?n = "pages_needed phys sz mod 2 ^ 20"
  have len: "length (bm_pte s) = 1024" using assms(1) by (simp add: ioremap_ok_def)
  have j: "?j < 1024" by (simp add: pte_index_nat)
  have "bm_pte s ! ?j \<noteq> 0" using assms(5) by (auto simp: translate_def)
  moreover have "\<forall>k < 64. bm_pte s ! (slot_base i + k) = 0" using assms(1-3) by (simp add: ioremap_ok_def slot_ok_def slot_pages_def)
  ultimately have "\<not> (slot_base i \<le> ?j \<and> ?j < slot_base i + ?n)"
    using assms(4) by (metis add_less_cancel_left le_add_diff_inverse less_le_trans)
  then have "bm_pte (mapped i phys sz prot s) ! ?j = bm_pte s ! ?j" using j len by (auto simp: mapped_def nth_set_ptes)
  then show ?thesis by (simp add: translate_def)
qed

lemma translate_fixmaps_set [simp]: "translate (s\<lparr>fixmaps_set := c\<rparr>) va = translate s va"
  by (simp add: translate_def)

lemma early_ioremap_success:
  assumes "ioremap_ok s" "early_ioremap phys sz s = Inr (v, t)" "v \<noteq> 0"
  obtains i c where "i < 8" "prev_map s ! i = 0" "\<not> map_refused phys sz s" "v = offset_in_page phys + fix_to_virt (737 - 64 * i)"
    "t = (mapped i phys sz PAGE_KERNEL s)\<lparr>fixmaps_set := c\<rparr>"
proof (cases "map_refused phys sz s")
  case True
  from early_ioremap_refuses [OF assms(1) True] assms(2,3) show ?thesis by (metis early_ioremap_def Inr_inject Pair_inject)
next
  case False
  from early_ioremap_accepts [OF assms(1) False page_kernel_neq_0] obtain i c where i: "i < 8" "prev_map s ! i = 0"
    and e: "early_ioremap_prot phys sz PAGE_KERNEL s =
      Inr (offset_in_page phys + fix_to_virt (737 - 64 * i), (mapped i phys sz PAGE_KERNEL s)\<lparr>fixmaps_set := c\<rparr>)" .
  have "v = offset_in_page phys + fix_to_virt (737 - 64 * i)" "t = (mapped i phys sz PAGE_KERNEL s)\<lparr>fixmaps_set := c\<rparr>"
    using e assms(2) unfolding early_ioremap_def FIXMAP_PAGE_IO_def by (simp_all only: sum.inject prod.inject)
  with i False show ?thesis by (intro that)
qed

lemma early_ioremap_returns:
  assumes "ioremap_reach s"
  shows "\<exists>v t. early_ioremap phys sz s = Inr (v, t) \<and>
    (v = 0 \<longleftrightarrow> 0 \<notin> set (prev_map s) \<or> sz = 0 \<or> 2 ^ 32 < unat phys + unat sz \<or>
       64 < pages_needed phys sz \<and> pages_needed phys sz \<noteq> 2 ^ 20)"
proof -
  note ok = ioremap_reach_ok [OF assms]
  have iff: "map_refused phys sz s \<longleftrightarrow> 0 \<notin> set (prev_map s) \<or> sz = 0 \<or> 2 ^ 32 < unat phys + unat sz \<or>
       64 < pages_needed phys sz \<and> pages_needed phys sz \<noteq> 2 ^ 20"
  proof (cases "sz = 0 \<or> 2 ^ 32 < unat phys + unat sz")
    case False
    then have "pages_needed phys sz \<le> 2 ^ 20" by (intro nrpages(2)) simp_all
    then show ?thesis unfolding map_refused_def by (cases "pages_needed phys sz = 2 ^ 20") simp_all
  qed (auto simp: map_refused_def)
  show ?thesis
  proof (cases "map_refused phys sz s")
    case True
    from early_ioremap_refuses [OF ok True] show ?thesis using True unfolding iff [symmetric] early_ioremap_def by blast
  next
    case False
    from early_ioremap_accepts [OF ok False page_kernel_neq_0] obtain i c where "i < 8"
      "early_ioremap phys sz s = Inr (offset_in_page phys + fix_to_virt (737 - 64 * i), (mapped i phys sz PAGE_KERNEL s)\<lparr>fixmaps_set := c\<rparr>)"
      by (metis early_ioremap_def FIXMAP_PAGE_IO_def)
    moreover have "offset_in_page phys + fix_to_virt (737 - 64 * i) \<noteq> 0"
      using \<open>i < 8\<close> by (rule slot_address(3)) (simp add: unat_offset_in_page)
    ultimately show ?thesis using False unfolding iff [symmetric] by blast
  qed
qed

lemma early_ioremap_granted:
  assumes "ioremap_reach s" "0 \<in> set (prev_map s)" "sz \<noteq> 0" "unat phys + unat sz \<le> 2 ^ 32" "pages_needed phys sz \<le> 64 \<or> pages_needed phys sz = 2 ^ 20"
  shows "\<exists>v t. early_ioremap phys sz s = Inr (v, t) \<and> v \<noteq> 0"
proof -
  from early_ioremap_returns [OF assms(1), of phys sz] obtain v t where "early_ioremap phys sz s = Inr (v, t)"
    "v = 0 \<longleftrightarrow> 0 \<notin> set (prev_map s) \<or> sz = 0 \<or> 2 ^ 32 < unat phys + unat sz \<or> 64 < pages_needed phys sz \<and> pages_needed phys sz \<noteq> 2 ^ 20"
    by (elim exE conjE)
  then show ?thesis using assms by (intro exI [of _ v] exI [of _ t]) auto
qed

section \<open>Properties\<close>

text \<open>
  C19: A mapping of at most the 256 KiB of a slot that \<^verbatim>\<open>early_ioremap\<close> grants takes every byte of the requested range to its
  physical address, and every address that was mapped before keeps its translation.
\<close>

theorem early_ioremap_translates:
  assumes "ioremap_reach s" "early_ioremap phys sz s = Inr (v, t)" "v \<noteq> 0" "unat sz \<le> 0x40000"
  shows "(\<forall>k < unat sz. translate t (v + of_nat k) = Some (phys + of_nat k)) \<and>
    (\<forall>va. translate s va \<noteq> None \<longrightarrow> translate t va = translate s va)"
proof -
  note ok = ioremap_reach_ok [OF assms(1)]
  from early_ioremap_success [OF ok assms(2,3)] obtain i c where
    i: "i < 8" "prev_map s ! i = 0" and r: "\<not> map_refused phys sz s" and v: "v = offset_in_page phys + fix_to_virt (737 - 64 * i)"
    and t: "t = (mapped i phys sz PAGE_KERNEL s)\<lparr>fixmaps_set := c\<rparr>" .
  have w: "unat phys + unat sz \<le> 2 ^ 32" and n: "pages_needed phys sz mod 2 ^ 20 \<le> 64" using r by (auto simp: map_refused_def)
  have "unat phys mod 4096 < 4096" by simp
  then have "pages_needed phys sz \<le> (0x40000 + 2 * 4096) div 4096" unfolding pages_needed_def using assms(4) by (intro div_le_mono) linarith
  then have "pages_needed phys sz < 2 ^ 20" by simp
  then have "pages_needed phys sz \<le> 64" using n by simp
  then show ?thesis unfolding t v using translate_mapped [OF ok i(1) w] translate_kept [OF ok i n] by simp
qed

text \<open>C28: \<^verbatim>\<open>early_iounmap\<close> of a granted mapping undoes it: the slots and the page table are what they were before.\<close>

theorem early_iounmap_undoes:
  assumes "ioremap_reach s" "early_ioremap phys sz s = Inr (v, t)" "v \<noteq> 0"
  shows "\<exists>u. early_iounmap v sz t = Inr u \<and> prev_map u = prev_map s \<and> bm_pte u = bm_pte s"
proof -
  note ok = ioremap_reach_ok [OF assms(1)]
  from early_ioremap_success [OF ok assms(2,3)] obtain i c where
    i: "i < 8" "prev_map s ! i = 0" and r: "\<not> map_refused phys sz s" and v: "v = offset_in_page phys + fix_to_virt (737 - 64 * i)"
    and t: "t = (mapped i phys sz PAGE_KERNEL s)\<lparr>fixmaps_set := c\<rparr>" .
  have okt: "ioremap_ok t" unfolding t using ioremap_ok_mapped [OF ok r i] by simp
  have len: "length (prev_map s) = 8" "length (prev_size s) = 8" "length (bm_pte s) = 1024" "length (prev_map t) = 8"
    using ok okt by (simp_all add: ioremap_ok_def)
  have ti: "prev_map t ! i = v" "prev_size t ! i = sz" using len i by (simp_all add: t v mapped_def)
  have "find_slot v (prev_map t) 0 = Some i"
  proof (rule find_slot_unique)
    fix k assume k: "k < length (prev_map t)" "prev_map t ! k = v"
    then show "k = i" using in_use_unique [OF okt _ i(1), of k] assms(3) len(4) ti(1) by simp
  qed (use len(4) i(1) ti(1) in simp_all)
  then have "unmap_slot v sz t = Some i" using assms(3) ti by (simp add: unmap_slot_def)
  with early_iounmap_effect [OF okt, of v sz] obtain c' where u: "early_iounmap v sz t = Inr ((unmapped i t)\<lparr>fixmaps_set := c'\<rparr>)" by auto
  have "slot_pages t i = pages_needed phys sz mod 2 ^ 20"
    using ti assms(3) slot_address(4) [OF i(1), of "offset_in_page phys"] by (simp add: slot_pages_def v pages_needed_def unat_offset_in_page)
  moreover have "pages_needed phys sz mod 2 ^ 20 \<le> 64" using r by (auto simp: map_refused_def)
  moreover have "\<forall>k < 64. bm_pte s ! (slot_base i + k) = 0" using ok i by (simp add: ioremap_ok_def slot_ok_def slot_pages_def)
  ultimately have "bm_pte (unmapped i t) = bm_pte s"
    using set_ptes_clear [of "pages_needed phys sz mod 2 ^ 20" "bm_pte s" "slot_base i"] by (simp add: unmapped_def) (simp add: t mapped_def)
  moreover have "prev_map (unmapped i t) = prev_map s" using i(2) by (simp add: unmapped_def t mapped_def) (metis list_update_id)
  ultimately show ?thesis using u by simp
qed

text \<open>
  \<^verbatim>\<open>early_ioremap\<close> always returns, and it returns \<^verbatim>\<open>NULL\<close> exactly if no slot is free, the size is 0, the range
  passes the end of the address space, or it needs more than the 64 pages of a slot; the one exception is a request that needs all
  $2^{20}$ pages, which is granted.
\<close>

theorem early_ioremap_null:
  assumes "ioremap_reach s"
  shows "\<exists>v t. early_ioremap phys sz s = Inr (v, t) \<and>
    (v = 0 \<longleftrightarrow> 0 \<notin> set (prev_map s) \<or> sz = 0 \<or> 2 ^ 32 < unat phys + unat sz \<or>
       64 < pages_needed phys sz \<and> pages_needed phys sz \<noteq> 2 ^ 20)"
  by (rule early_ioremap_returns [OF assms])

text \<open>The state after setup at boot.\<close>

definition boot_ioremap :: ioremap where
  "boot_ioremap = early_ioremap_init
     \<lparr>after_paging_init = False, prev_map = replicate 8 0, prev_size = replicate 8 0, slot_virt = replicate 8 0, bm_pte = [],
      pmd_populated = False, fixmaps_set = 0, supported_pte_mask = - 1\<rparr>"

lemma boot_ioremap_reach: "ioremap_reach boot_ioremap"
  unfolding boot_ioremap_def by (rule reach_init) (simp_all add: PAGE_PRESENT_def)

lemma boot_free_slot: "0 \<in> set (prev_map boot_ioremap)"
  by (simp add: boot_ioremap_def early_ioremap_init_def early_ioremap_setup_def)

lemma boot_ioremap_grants: "\<exists>v t. early_ioremap 0xA0010 0x1000 boot_ioremap = Inr (v, t) \<and> v \<noteq> 0"
  by (rule early_ioremap_granted [OF boot_ioremap_reach boot_free_slot]) (simp_all add: pages_needed_def)

theorem early_ioremap_null_witness:
  "ioremap_reach boot_ioremap \<and> (\<exists>v t. early_ioremap 0xA0010 0x1000 boot_ioremap = Inr (v, t) \<and> v \<noteq> 0)"
  using boot_ioremap_reach early_ioremap_null [OF boot_ioremap_reach, of "0xA0010" "0x1000"] boot_free_slot
  by (simp add: pages_needed_def)

theorem early_ioremap_translates_witness:
  "\<exists>v t. early_ioremap 0xA0010 0x1000 boot_ioremap = Inr (v, t) \<and> v \<noteq> 0 \<and> translate t (v + of_nat 0xFFF) = Some (0xA0010 + of_nat 0xFFF)"
proof -
  obtain v t where e: "early_ioremap 0xA0010 0x1000 boot_ioremap = Inr (v, t)" "v \<noteq> 0"
    using boot_ioremap_grants by blast
  have z: "unat (0x1000 :: ulong) \<le> 0x40000" "0xFFF < unat (0x1000 :: ulong)" by simp_all
  have "translate t (v + of_nat 0xFFF) = Some (0xA0010 + of_nat 0xFFF)"
    using early_ioremap_translates [OF boot_ioremap_reach e z(1)] z(2) by blast
  with e show ?thesis by blast
qed

theorem early_iounmap_undoes_witness:
  "\<exists>v t u. early_ioremap 0xA0010 0x1000 boot_ioremap = Inr (v, t) \<and> v \<noteq> 0 \<and> early_iounmap v 0x1000 t = Inr u \<and> bm_pte u = replicate 1024 0"
proof -
  obtain v t where e: "early_ioremap 0xA0010 0x1000 boot_ioremap = Inr (v, t)" "v \<noteq> 0"
    using boot_ioremap_grants by blast
  have "bm_pte boot_ioremap = replicate 1024 0" by (simp add: boot_ioremap_def early_ioremap_init_def PTRS_PER_PTE_def)
  with e early_iounmap_undoes [OF boot_ioremap_reach e] show ?thesis by metis
qed

section \<open>Deviations\<close>

text \<open>
  The page count wraps for a request of the whole address space: \<^verbatim>\<open>PAGE_ALIGN\<close> of its end is 0 and the request is
  granted although nothing is mapped.
\<close>

lemma whole_space_not_mapped:
  assumes "ioremap_reach s" "0 \<in> set (prev_map s)"
  shows "\<exists>v t. early_ioremap 0 0xFFFFFFFF s = Inr (v, t) \<and> v \<noteq> 0 \<and> bm_pte t = bm_pte s"
proof -
  note ok = ioremap_reach_ok [OF assms(1)]
  have p: "pages_needed 0 0xFFFFFFFF = 2 ^ 20" by (simp add: pages_needed_def)
  obtain v t where e: "early_ioremap 0 0xFFFFFFFF s = Inr (v, t)" "v \<noteq> 0"
    using early_ioremap_granted [OF assms, of "0xFFFFFFFF" 0] p by auto
  from early_ioremap_success [OF ok e] obtain i c where "t = (mapped i 0 0xFFFFFFFF PAGE_KERNEL s)\<lparr>fixmaps_set := c\<rparr>" .
  then have "bm_pte t = bm_pte s" by (simp add: mapped_def p set_ptes_0)
  with e show ?thesis by blast
qed

end
