(* ===== verification/Page_Table.thy ===== *)
theory Page_Table
  imports Direct_Map Page_Spec Ioremap_Spec
begin

text \<open>
  Page tables in the byte memory: the memory is seen as one array of 1024 entries per page frame, and the page tables behind the
  directory as a partial map from page numbers to entries.
\<close>

section \<open>Entries\<close>

text \<open>The address of entry \<open>i\<close> of page frame \<open>f\<close>.\<close>

definition slot_addr :: "nat \<Rightarrow> nat \<Rightarrow> ulong" where
  "slot_addr f i = phys_to_virt (of_nat (4096 * f + 4 * i))"

definition entry :: "mem \<Rightarrow> nat \<Rightarrow> nat \<Rightarrow> ulong" where
  "entry m f i = load32 m (slot_addr f i)"

lemma slot_addr_add: "slot_addr f i + 4 * of_nat k = slot_addr f (i + k)"
  by (simp add: slot_addr_def phys_to_virt_def algebra_simps)

lemma slot_offset:
  assumes "f < 2 ^ 20" "i < 1024" "k < 4"
  shows "unat (slot_addr f i + of_nat k - PAGE_OFFSET) = 4096 * f + 4 * i + k"
proof -
  have "slot_addr f i + of_nat k - PAGE_OFFSET = of_nat (4096 * f + 4 * i + k)" by (simp add: slot_addr_def phys_to_virt_def)
  moreover have "4096 * f + 4 * i + k < 2 ^ 32" using assms by simp
  ultimately show ?thesis by (simp only: unat_of_nat32)
qed

lemma load32_store32: "load32 (store32 m a v) a = v"
  using bytes_word [of v] by (simp add: load32_def store32_def)

lemma load32_cong:
  assumes "\<And>k. k < 4 \<Longrightarrow> m (a + of_nat k) = m' (a + of_nat k)"
  shows "load32 m a = load32 m' a"
  using assms [of 0] assms [of 1] assms [of 2] assms [of 3] by (simp add: load32_def)

lemma store32_other:
  assumes "\<And>k. k < 4 \<Longrightarrow> x \<noteq> a + of_nat k"
  shows "store32 m a v x = m x"
  using assms [of 0] assms [of 1] assms [of 2] assms [of 3] by (simp add: store32_def)

lemma entry_store:
  assumes "f < 2 ^ 20" "i < 1024" "g < 2 ^ 20" "j < 1024"
  shows "entry (store32 m (slot_addr f i) v) g j = (if f = g \<and> i = j then v else entry m g j)"
proof (cases "f = g \<and> i = j")
  case True
  then show ?thesis by (simp add: entry_def load32_store32)
next
  case False
  have "slot_addr g j + of_nat k \<noteq> slot_addr f i + of_nat l" if "k < 4" "l < 4" for k l
  proof
    assume "slot_addr g j + of_nat k = slot_addr f i + of_nat l"
    then have "4096 * g + 4 * j + k = 4096 * f + 4 * i + l"
      using slot_offset [OF assms(3,4) that(1)] slot_offset [OF assms(1,2) that(2)] by simp
    moreover have "(4096 * g + 4 * j + k) div 4096 = g" "(4096 * f + 4 * i + l) div 4096 = f" using assms(2,4) that by simp_all
    ultimately have "g = f" "4 * j + k = 4 * i + l" by simp_all
    then show False using False that by simp
  qed
  then have "load32 (store32 m (slot_addr f i) v) (slot_addr g j) = load32 m (slot_addr g j)"
    by (intro load32_cong store32_other) blast
  then show ?thesis using False by (auto simp: entry_def)
qed

text \<open>Clearing a page.\<close>

definition clear_frame :: "nat \<Rightarrow> mem \<Rightarrow> mem" where
  "clear_frame f m = (\<lambda>x. if unat (x - PAGE_OFFSET) div 4096 = f then 0 else m x)"

lemma entry_clear:
  assumes "g < 2 ^ 20" "j < 1024"
  shows "entry (clear_frame f m) g j = (if f = g then 0 else entry m g j)"
proof -
  have d: "unat (slot_addr g j + of_nat k - PAGE_OFFSET) div 4096 = g" if "k < 4" for k
    using slot_offset [OF assms that] assms(2) that by simp
  have "load32 (clear_frame f m) (slot_addr g j) = load32 (\<lambda>x. if f = g then 0 else m x) (slot_addr g j)"
    by (rule load32_cong) (auto simp: clear_frame_def d)
  then show ?thesis by (simp add: entry_def load32_def)
qed

lemma clear_pages_1:
  assumes "pfn < 2 ^ 20"
  shows "clear_pages pfn 1 m = clear_frame (unat pfn) m"
proof -
  have p: "unat pfn < 2 ^ 20" using assms by (simp add: word_less_nat_alt)
  have "unat (x - phys_to_virt (push_bit 12 pfn)) < 4096 \<longleftrightarrow> unat (x - PAGE_OFFSET) div 4096 = unat pfn" for x
  proof -
    have pu: "unat (push_bit 12 pfn) = 4096 * unat pfn" using p by (simp add: push_bit_eq_mult unat_word_ariths)
    let ?y = "x - PAGE_OFFSET"
    have "x - phys_to_virt (push_bit 12 pfn) = ?y - push_bit 12 pfn" by (simp add: phys_to_virt_def)
    moreover have "unat (?y - push_bit 12 pfn) < 4096 \<longleftrightarrow> unat ?y div 4096 = unat pfn"
      unfolding unat_sub_if' pu using p unat_lt32 [of ?y] by (auto simp: not_le) 
    ultimately show ?thesis by (simp only:)
  qed
  then show ?thesis
    by (simp add: clear_pages_def memset_def memset_loop_spec PAGE_SIZE_def PAGE_SHIFT_def clear_frame_def fun_eq_iff)
qed

section \<open>Reserving a free block\<close>

lemma new_count_free:
  assumes "regs_wf rs" "b < e" "\<And>r. r \<in> set rs \<Longrightarrow> r_hi r \<le> unat b \<or> unat e \<le> r_lo r"
  shows "new_count e nid fl b rs = 1"
  using assms
proof (induction rs)
  case (Cons r rs)
  have ok: "region_ok r" "regs_wf rs" using Cons.prems(1) by (simp_all add: regs_wf_Cons)
  have "new_count e nid fl b rs = 1" using Cons.IH [OF ok(2) Cons.prems(2)] Cons.prems(3) by simp
  moreover have "region_end r \<le> b \<or> e \<le> mr_base r"
    using Cons.prems(3) [of r] unat_region_end [OF ok(1)] by (simp add: word_le_nat_alt r_lo_def)
  ultimately show ?case using Cons.prems(2) by auto
qed simp

definition no_room :: "memblock \<Rightarrow> bool" where
  "no_room mb \<longleftrightarrow> nr_regions (mb_reserved mb) = mt_max (mb_reserved mb)"

lemma reserve_free:
  assumes wf: "mb_wf mb" and n: "n \<noteq> 0" "unat b + unat n < 2 ^ 32"
    and free: "\<And>a. unat b \<le> a \<Longrightarrow> a < unat b + unat n \<Longrightarrow> type_map (mb_reserved mb) a = None"
  shows "\<exists>ret mb'. memblock_reserve b n mb = Inr (ret, mb') \<and> mb_wf mb' \<and> mb_memory mb' = mb_memory mb \<and> current_limit mb' = current_limit mb \<and>
    (if no_room mb then mb' = mb else covered (mb_reserved mb') = covered (mb_reserved mb) \<union> {unat b..<unat b + unat n})"
proof -
  let ?t = "mb_reserved mb"
  have t: "shape_wf ?t" "mt_max ?t = INIT_MEMBLOCK_REGIONS" using wf by (simp_all add: mb_wf_def)
  note aw = shape_wf_array [OF t(1)]
  have n0: "0 < unat n" using n(1) by (simp add: unat_gt_0)
  have re: "range_end b n = unat b + unat n" using n(2) by (simp add: range_end_def)
  then have sz: "memblock_cap_size b n \<noteq> 0" using n0 by (simp add: cap_size_zero)
  note be = cap_end_less [OF sz]
  from reserve_law [OF wf, of b n, unfolded re] obtain ret mb' where
    r: "memblock_reserve b n mb = Inr (ret, mb')" "mb_wf mb'"
      "ret = 0 \<and> covered (mb_reserved mb') = covered ?t \<union> {unat b..<unat b + unat n} \<and> mb_memory mb' = mb_memory mb \<and> current_limit mb' = current_limit mb
       \<or> ret \<noteq> 0 \<and> mb' = mb \<and> array_full ?t" by blast
  have "ret \<noteq> 0 \<longleftrightarrow> no_room mb" using t(1)
  proof (cases rule: shape_wf_cases)
    case (empty x)
    then have "\<not> no_room mb" using t(2) by (simp add: no_room_def INIT_MEMBLOCK_REGIONS_def)
    moreover have "ret = 0" using r(1) empty(2,6) sz by (simp add: memblock_reserve_def memblock_add_range_def Let_def)
    ultimately show ?thesis by simp
  next
    case used
    have "r_hi x \<le> unat b \<or> unat (b + memblock_cap_size b n) \<le> r_lo x" if x: "x \<in> set (live ?t)" for x
    proof (rule ccontr)
      assume c: "\<not> ?thesis"
      define a where "a = max (unat b) (r_lo x)"
      have "r_lo x < r_hi x" using regs_wf_ok [OF used(2) x] by (rule region_ok_less)
      then have a: "r_lo x \<le> a" "a < r_hi x" "unat b \<le> a" "a < unat b + unat n" using c n0 unfolding unat_cap_end re by (auto simp: a_def)
      have "type_map ?t a = None" by (rule free) (use a in simp_all)
      then show False using a x used(3) by (auto simp: type_map_def attrs_None_iff)
    qed
    from new_count_free [OF used(2) be this] have "new_count (b + memblock_cap_size b n) MAX_NR_NODES 0 b (live ?t) = 1" .
    with add_round_live [OF aw, where b = b and e = "b + memblock_cap_size b n" and nid = MAX_NR_NODES and fl = 0]
    have rounds: "memblock_add_round False b (b + memblock_cap_size b n) MAX_NR_NODES 0 ?t = Inr (1, ?t)" by simp
    show ?thesis
    proof (cases "no_room mb")
      case True
      then have "ret = - ENOMEM" using r(1) used(1) sz rounds
        by (simp add: memblock_reserve_def memblock_add_range_def Let_def no_room_def)
      then show ?thesis using True by (simp add: ENOMEM_def)
    next
      case False
      then have "nr_regions ?t + 1 \<le> mt_max ?t" using aw by (auto simp: no_room_def array_wf_def)
      then have "ret = 0" using r(1) used(1) sz rounds
        by (auto simp: memblock_reserve_def memblock_add_range_def Let_def kbind_eq_Inr)
      then show ?thesis using False by simp
    qed
  qed
  then show ?thesis using r by auto
qed

section \<open>Pages for page tables\<close>

definition free_frame :: "memblock \<Rightarrow> nat \<Rightarrow> bool" where
  "free_frame mb f \<longleftrightarrow> free_block mb NUMA_NO_NODE MEMBLOCK_NONE (4096 * f) 4096"

text \<open>The page frames \<^verbatim>\<open>alloc_low_pages\<close> may still hand out: the rest of the buffer and free memory.\<close>

definition avail :: "direct_map \<Rightarrow> nat set" where
  "avail s = {unat (pgt_buf_end s)..<unat (pgt_buf_top s)} \<union> {f. free_frame (dm_mb s) f}"

definition buf_ok :: "direct_map \<Rightarrow> bool" where
  "buf_ok s \<longleftrightarrow> mb_wf (dm_mb s) \<and> pgt_buf_end s \<le> pgt_buf_top s \<and> unat (pgt_buf_top s) \<le> 2 ^ 20 \<and>
     {4096 * unat (pgt_buf_end s)..<4096 * unat (pgt_buf_top s)} \<subseteq> covered (mb_reserved (dm_mb s))"

lemma free_frame_bound: "mb_wf mb \<Longrightarrow> free_frame mb f \<Longrightarrow> f < 2 ^ 20"
  using free_block_top [of mb NUMA_NO_NODE MEMBLOCK_NONE "4096 * f" 4096] by (simp add: free_frame_def)

lemma free_frame_start: "free_frame mb f \<Longrightarrow> 4096 * f \<notin> covered (mb_reserved mb)"
  by (auto simp: free_frame_def free_block_def covered_def domIff)

lemma free_frame_shrinks:
  assumes "mb_memory mb' = mb_memory mb" "covered (mb_reserved mb) \<subseteq> covered (mb_reserved mb')" "free_frame mb' f"
  shows "free_frame mb f"
  using assms unfolding free_frame_def free_block_def covered_def by (auto simp: domIff)

lemma find_frame:
  assumes "mb_wf mb" "memblock_find_in_range ke mb lo hi PAGE_SIZE PAGE_SIZE = Inr ret" "ret \<noteq> 0"
  shows "free_frame mb (unat ret div 4096)" "unat ret = 4096 * (unat ret div 4096)" "unat lo \<le> unat ret" "lo \<le> hi \<Longrightarrow> 4096 \<le> unat hi \<Longrightarrow> unat ret + 4096 \<le> unat hi"
proof -
  let ?S = "search_set mb PAGE_SIZE 12 lo hi NUMA_NO_NODE 0"
  have sh: "shape_wf (mb_memory mb)" "shape_wf (mb_reserved mb)" using assms(1) by (simp_all add: mb_wf_def)
  have "memblock_find_in_range ke mb lo hi PAGE_SIZE PAGE_SIZE =
      kbind (memblock_find_in_range_node ke mb PAGE_SIZE (2 ^ 12) lo hi NUMA_NO_NODE 0) Inr"
    by (simp add: memblock_find_in_range_def Let_def PAGE_SIZE_def)
  moreover have "best_of ?S (memblock_find_in_range_node ke mb PAGE_SIZE (2 ^ 12) lo hi NUMA_NO_NODE 0)"
    by (rule find_in_range_node_best [OF sh mb_wf_small [OF assms(1)]]) (simp add: PAGE_SIZE_def)
  ultimately have "unat ret \<in> ?S" using assms(2,3) by (auto dest!: best_ofD split: if_splits)
  then have r: "free_block mb NUMA_NO_NODE 0 (unat ret) 4096" "2 ^ 12 dvd unat ret" "unat (c_max lo PAGE_SIZE) \<le> unat ret"
    "unat ret + 4096 \<le> unat (search_end mb lo hi)"
    by (simp_all add: search_set_def PAGE_SIZE_def)
  show u: "unat ret = 4096 * (unat ret div 4096)" using r(2) by (simp add: dvd_mult_div_cancel)
  show "free_frame mb (unat ret div 4096)" unfolding free_frame_def u [symmetric] using r(1) by (simp add: MEMBLOCK_NONE_def)
  show "unat lo \<le> unat ret" using r(3) by (simp add: unat_c_max)
  show "unat ret + 4096 \<le> unat hi" if "lo \<le> hi" "4096 \<le> unat hi"
  proof -
    have "hi \<noteq> MEMBLOCK_ALLOC_ACCESSIBLE" using that(2) by (auto simp: MEMBLOCK_ALLOC_ACCESSIBLE_def)
    then show ?thesis using r(4) that by (auto simp: search_end_def unat_c_max word_le_nat_alt PAGE_SIZE_def)
  qed
qed

lemma find_returns:
  assumes "mb_wf mb"
  shows "\<exists>ret. memblock_find_in_range ke mb lo hi PAGE_SIZE PAGE_SIZE = Inr ret"
proof -
  have sh: "shape_wf (mb_memory mb)" "shape_wf (mb_reserved mb)" using assms by (simp_all add: mb_wf_def)
  have "0 < PAGE_SIZE" by (simp add: PAGE_SIZE_def)
  from best_ofD [OF find_in_range_node_best [OF sh mb_wf_small [OF assms] this, of 12 lo hi NUMA_NO_NODE 0 ke]]
  show ?thesis by (auto simp: memblock_find_in_range_def Let_def PAGE_SIZE_def)
qed

lemma pfn_slot: "phys_to_virt (push_bit PAGE_SHIFT pfn) = slot_addr (unat pfn) 0" for pfn :: ulong
  by (simp add: slot_addr_def push_bit_eq_mult PAGE_SHIFT_def mult.commute)

text \<open>
  A page taken: the page frame, and the state behind it.  When the reserved array has no room the reservation fails and the
  page frame stays available, which \<^verbatim>\<open>alloc_low_pages\<close> does not notice.
\<close>

definition took_page :: "nat \<Rightarrow> direct_map \<Rightarrow> direct_map \<Rightarrow> bool" where
  "took_page f s s' \<longleftrightarrow> f \<in> avail s \<and> f < 2 ^ 20 \<and> buf_ok s' \<and> (\<not> no_room (dm_mb s) \<longrightarrow> avail s' \<subseteq> avail s - {f}) \<and>
     (no_room (dm_mb s) \<longrightarrow> no_room (dm_mb s')) \<and> mb_memory (dm_mb s') = mb_memory (dm_mb s) \<and>
     (\<exists>mb e. s' = s\<lparr>dm_mb := mb, pgt_buf_end := e, dm_mem := clear_frame f (dm_mem s)\<rparr>)"

lemma took_buffer_page:
  assumes "buf_ok s" "pgt_buf_end s + 1 \<le> pgt_buf_top s" "can_use_brk_pgt s"
  shows "took_page (unat (pgt_buf_end s)) s (s\<lparr>pgt_buf_end := pgt_buf_end s + 1, dm_mem := clear_frame (unat (pgt_buf_end s)) (dm_mem s)\<rparr>)"
    "alloc_low_pages env 1 s =
      Inr (slot_addr (unat (pgt_buf_end s)) 0, s\<lparr>pgt_buf_end := pgt_buf_end s + 1, dm_mem := clear_frame (unat (pgt_buf_end s)) (dm_mem s)\<rparr>)"
proof -
  let ?e = "unat (pgt_buf_end s)" and ?t = "unat (pgt_buf_top s)"
  have b: "?e \<le> ?t" "?t \<le> 2 ^ 20" and cov: "{4096 * ?e..<4096 * ?t} \<subseteq> covered (mb_reserved (dm_mb s))"
    using assms(1) by (simp_all add: buf_ok_def word_le_nat_alt)
  have e1: "unat (pgt_buf_end s + 1) = ?e + 1" using b by (subst unat_add_no_wrap) simp_all
  have lt: "?e < ?t" using assms(2) e1 by (simp add: word_le_nat_alt)
  have f20: "pgt_buf_end s < 2 ^ 20" using lt b by (simp add: word_less_nat_alt)
  have nf: "\<not> free_frame (dm_mb s) ?e"
  proof
    assume "free_frame (dm_mb s) ?e"
    from free_frame_start [OF this] have "4096 * ?e \<notin> covered (mb_reserved (dm_mb s))" .
    moreover have "4096 * ?e \<in> {4096 * ?e..<4096 * ?t}" using lt by simp
    ultimately show False using cov by blast
  qed
  show "took_page ?e s (s\<lparr>pgt_buf_end := pgt_buf_end s + 1, dm_mem := clear_frame ?e (dm_mem s)\<rparr>)"
    unfolding took_page_def
  proof (intro conjI exI)
    show "?e \<in> avail s" using lt by (simp add: avail_def)
    show "?e < 2 ^ 20" using lt b by simp
    show "buf_ok (s\<lparr>pgt_buf_end := pgt_buf_end s + 1, dm_mem := clear_frame ?e (dm_mem s)\<rparr>)"
      using assms(1,2) e1 cov by (auto simp: buf_ok_def)
    show "\<not> no_room (dm_mb s) \<longrightarrow> avail (s\<lparr>pgt_buf_end := pgt_buf_end s + 1, dm_mem := clear_frame ?e (dm_mem s)\<rparr>) \<subseteq> avail s - {?e}"
      using nf e1 by (auto simp: avail_def)
    show "s\<lparr>pgt_buf_end := pgt_buf_end s + 1, dm_mem := clear_frame ?e (dm_mem s)\<rparr> =
      s\<lparr>dm_mb := dm_mb s, pgt_buf_end := pgt_buf_end s + 1, dm_mem := clear_frame ?e (dm_mem s)\<rparr>" by simp
  qed simp_all
  show "alloc_low_pages env 1 s =
      Inr (slot_addr ?e 0, s\<lparr>pgt_buf_end := pgt_buf_end s + 1, dm_mem := clear_frame ?e (dm_mem s)\<rparr>)"
  proof -
    have "\<not> (pgt_buf_end s + 1 > pgt_buf_top s \<or> \<not> can_use_brk_pgt s)" using assms(2,3) by (simp add: not_less)
    then show ?thesis unfolding alloc_low_pages_def by (simp only: if_False) (simp add: pfn_slot clear_pages_1 [OF f20])
  qed
qed

lemma took_memory_page:
  assumes ok: "buf_ok s" and find: "memblock_find_in_range (kend env) (dm_mb s) lo hi PAGE_SIZE PAGE_SIZE = Inr ret" "ret \<noteq> 0"
  shows "\<exists>r mb. memblock_reserve ret PAGE_SIZE (dm_mb s) = Inr (r, mb) \<and>
    took_page (unat ret div 4096) s (s\<lparr>dm_mb := mb, dm_mem := clear_frame (unat ret div 4096) (dm_mem s)\<rparr>)"
proof -
  let ?f = "unat ret div 4096"
  have wf: "mb_wf (dm_mb s)" using ok by (simp add: buf_ok_def)
  note ff = find_frame [OF wf find]
  have top: "4096 * ?f + 4096 < 2 ^ 32" using free_block_top [OF wf] ff(1) by (fastforce simp: free_frame_def)
  have free: "type_map (mb_reserved (dm_mb s)) a = None" if "unat ret \<le> a" "a < unat ret + unat PAGE_SIZE" for a
    using ff(1) that unfolding free_frame_def free_block_def ff(2) [symmetric] by (simp add: PAGE_SIZE_def)
  have "unat ret + unat PAGE_SIZE < 2 ^ 32" using top ff(2) by (simp add: PAGE_SIZE_def)
  from reserve_free [OF wf _ this free] obtain r mb where
    r: "memblock_reserve ret PAGE_SIZE (dm_mb s) = Inr (r, mb)" "mb_wf mb" "mb_memory mb = mb_memory (dm_mb s)"
      "if no_room (dm_mb s) then mb = dm_mb s
       else covered (mb_reserved mb) = covered (mb_reserved (dm_mb s)) \<union> {4096 * ?f..<4096 * ?f + 4096}"
    unfolding ff(2) [symmetric] by (auto simp: PAGE_SIZE_def)
  let ?s = "s\<lparr>dm_mb := mb, dm_mem := clear_frame ?f (dm_mem s)\<rparr>"
  have cov: "covered (mb_reserved (dm_mb s)) \<subseteq> covered (mb_reserved mb)" using r(4) by (auto split: if_splits)
  have "took_page ?f s ?s" unfolding took_page_def
  proof (intro conjI impI exI)
    show "?f \<in> avail s" using ff(1) by (simp add: avail_def)
    show "?f < 2 ^ 20" using free_frame_bound [OF wf ff(1)] .
    show "buf_ok ?s" using ok r(2) cov by (auto simp: buf_ok_def)
    show "avail ?s \<subseteq> avail s - {?f}" if "\<not> no_room (dm_mb s)"
    proof -
      have "4096 * ?f \<in> covered (mb_reserved mb)" using r(4) that by simp
      then have "\<not> free_frame mb ?f" using free_frame_start [of mb ?f] by blast
      moreover have "\<not> (unat (pgt_buf_end s) \<le> ?f \<and> ?f < unat (pgt_buf_top s))"
      proof
        assume "unat (pgt_buf_end s) \<le> ?f \<and> ?f < unat (pgt_buf_top s)"
        then have "4096 * ?f \<in> covered (mb_reserved (dm_mb s))" using ok by (auto simp: buf_ok_def)
        then show False using free_frame_start [OF ff(1)] by blast
      qed
      ultimately show ?thesis using free_frame_shrinks [OF r(3) cov] by (auto simp: avail_def)
    qed
    show "no_room (dm_mb ?s)" if "no_room (dm_mb s)" using that r(4) by simp
    show "mb_memory (dm_mb ?s) = mb_memory (dm_mb s)" using r(3) by simp
    show "?s = s\<lparr>dm_mb := mb, pgt_buf_end := pgt_buf_end s, dm_mem := clear_frame ?f (dm_mem s)\<rparr>" by simp
  qed
  with r(1) show ?thesis by blast
qed

lemma alloc_low_page:
  assumes "buf_ok s"
  shows "alloc_low_pages env 1 s = Inl Panic \<or> (\<exists>f s'. alloc_low_pages env 1 s = Inr (slot_addr f 0, s') \<and> took_page f s s')"
proof (cases "pgt_buf_end s + 1 > pgt_buf_top s \<or> \<not> can_use_brk_pgt s")
  case False
  then show ?thesis using took_buffer_page [OF assms] by (auto simp: not_less)
next
  case True
  have wf: "mb_wf (dm_mb s)" using assms by (simp add: buf_ok_def)
  let ?find = "memblock_find_in_range (kend env) (dm_mb s) (push_bit PAGE_SHIFT (min_pfn_mapped s)) (push_bit PAGE_SHIFT (max_pfn_mapped s)) PAGE_SIZE PAGE_SIZE"
  obtain ret where find: "?find = Inr ret" using find_returns [OF wf] by blast
  show ?thesis
  proof (cases "min_pfn_mapped s \<ge> max_pfn_mapped s \<or> ret = 0")
    case True
    then show ?thesis using \<open>pgt_buf_end s + 1 > pgt_buf_top s \<or> \<not> can_use_brk_pgt s\<close> find by (auto simp: alloc_low_pages_def)
  next
    case False
    with took_memory_page [OF assms find] obtain r mb where
      r: "memblock_reserve ret PAGE_SIZE (dm_mb s) = Inr (r, mb)"
        "took_page (unat ret div 4096) s (s\<lparr>dm_mb := mb, dm_mem := clear_frame (unat ret div 4096) (dm_mem s)\<rparr>)" by blast
    have p: "unat (drop_bit PAGE_SHIFT ret) = unat ret div 4096" by (simp add: unat_drop_bit PAGE_SHIFT_def)
    then have "drop_bit PAGE_SHIFT ret < 2 ^ 20" using unat_lt32 [of ret] by (simp add: word_less_nat_alt)
    note c = clear_pages_1 [OF this, unfolded p]
    have "alloc_low_pages env 1 s =
        Inr (slot_addr (unat ret div 4096) 0, s\<lparr>dm_mb := mb, dm_mem := clear_frame (unat ret div 4096) (dm_mem s)\<rparr>)"
      using True False find r(1) by (simp add: alloc_low_pages_def pfn_slot p c)
    with r(2) show ?thesis by blast
  qed
qed

section \<open>Properties\<close>

text \<open>Page tables taken one after another.\<close>

fun take_pages :: "boot_env \<Rightarrow> nat \<Rightarrow> direct_map \<Rightarrow> (ulong list \<times> direct_map) kres" where
  "take_pages env 0 s = Inr ([], s)"
| "take_pages env (Suc n) s =
     kbind (alloc_low_pages env 1 s) (\<lambda>(p, s). kbind (take_pages env n s) (\<lambda>(ps, s). Inr (p # ps, s)))"

definition taken_pages :: "nat list \<Rightarrow> direct_map \<Rightarrow> direct_map \<Rightarrow> bool" where
  "taken_pages fs s s' \<longleftrightarrow> distinct fs \<and> set fs \<subseteq> avail s - avail s' \<and> avail s' \<subseteq> avail s \<and>
     (\<forall>x. dm_mem s' x = (if unat (x - PAGE_OFFSET) div 4096 \<in> set fs then 0 else dm_mem s x))"

lemma taken_pages_Cons:
  assumes "took_page f s t" "\<not> no_room (dm_mb s)" "taken_pages fs t u"
  shows "taken_pages (f # fs) s u"
proof -
  have "avail t \<subseteq> avail s - {f}" "f \<in> avail s" "dm_mem t = clear_frame f (dm_mem s)" using assms(1,2) by (auto simp: took_page_def)
  then show ?thesis using assms(3) by (auto simp: taken_pages_def clear_frame_def)
qed

lemma take_pages_spec:
  assumes "buf_ok s"
  shows "take_pages env n s = Inl Panic \<or>
    (\<exists>fs s'. take_pages env n s = Inr (map (\<lambda>f. slot_addr f 0) fs, s') \<and> length fs = n \<and> buf_ok s' \<and>
       (no_room (dm_mb s) \<longrightarrow> no_room (dm_mb s')) \<and> (no_room (dm_mb s') \<or> taken_pages fs s s'))"
  using assms
proof (induction n arbitrary: s)
  case (Suc n)
  from alloc_low_page [OF Suc.prems, of env] show ?case
  proof (elim disjE exE conjE)
    fix f s1 assume a: "alloc_low_pages env 1 s = Inr (slot_addr f 0, s1)" and t: "took_page f s s1"
    have b: "buf_ok s1" "no_room (dm_mb s) \<Longrightarrow> no_room (dm_mb s1)" using t by (simp_all add: took_page_def)
    from Suc.IH [OF b(1)] have "take_pages env n s1 = Inl Panic \<or>
      (\<exists>fs s'. take_pages env n s1 = Inr (map (\<lambda>f. slot_addr f 0) fs, s') \<and> length fs = n \<and> buf_ok s' \<and>
         (no_room (dm_mb s1) \<longrightarrow> no_room (dm_mb s')) \<and> (no_room (dm_mb s') \<or> taken_pages fs s1 s'))" .
    then show ?thesis
    proof (elim disjE [where P = "take_pages env n s1 = Inl Panic"] exE conjE)
      fix fs s' assume r: "take_pages env n s1 = Inr (map (\<lambda>f. slot_addr f 0) fs, s')" "length fs = n" "buf_ok s'"
        and n: "no_room (dm_mb s1) \<longrightarrow> no_room (dm_mb s')" and k: "no_room (dm_mb s') \<or> taken_pages fs s1 s'"
      have "take_pages env (Suc n) s = Inr (map (\<lambda>f. slot_addr f 0) (f # fs), s')" using a r(1) by simp
      moreover have "no_room (dm_mb s') \<or> taken_pages (f # fs) s s'" using k n b(2) taken_pages_Cons [OF t] by blast
      ultimately show ?thesis using r n b(2) by (intro disjI2 exI [of _ "f # fs"] exI [of _ s']) simp
    qed (use a in simp)
  qed simp
qed (simp add: taken_pages_def)

text \<open>
  C26: The pages that \<^verbatim>\<open>alloc_low_pages\<close> hands out one after another are distinct page frames of the buffer or of free memory,
  filled with zeros, and not available any more; the rest of the memory is as before.  This holds as long as memblock's reserved
  array has room; the only other outcome is a panic.
\<close>

theorem alloc_low_pages_fresh:
  assumes "buf_ok s"
  shows "take_pages env n s = Inl Panic \<or>
    (\<exists>fs s'. take_pages env n s = Inr (map (\<lambda>f. phys_to_virt (of_nat (4096 * f))) fs, s') \<and> length fs = n \<and> buf_ok s' \<and>
       (no_room (dm_mb s') \<or> distinct fs \<and> set fs \<subseteq> avail s - avail s' \<and> avail s' \<subseteq> avail s \<and>
          (\<forall>x. dm_mem s' x = (if unat (x - PAGE_OFFSET) div 4096 \<in> set fs then 0 else dm_mem s x))))"
proof -
  have "(\<lambda>f. slot_addr f 0) = (\<lambda>f. phys_to_virt (of_nat (4096 * f)))" by (simp add: fun_eq_iff slot_addr_def)
  with take_pages_spec [OF assms, of env n] show ?thesis unfolding taken_pages_def by auto
qed

text \<open>A buffer of two pages at 12 KiB, and no memory behind it.\<close>

definition demo_map_env :: boot_env where
  "demo_map_env = \<lparr>initial_page_table = 0xC0002000, text_start = 0xC0100000, init_end = 0xC0200000, kend = 0x300000, brk_limit = 0xC1410000,
     cpu_has_pse = True, cpu_has_pge = True, cpu_has_gbpages = False\<rparr>"

definition demo_buffer :: direct_map where
  "demo_buffer = \<lparr>dm_mem = \<lambda>_. 7, dm_mb = snd (projr (memblock_reserve 0x3000 0x2000 init_memblock)), brk_start = 0, brk_end = 0, pgt_buf_start = 3,
     pgt_buf_end = 3, pgt_buf_top = 5, can_use_brk_pgt = True, min_pfn_mapped = 0, max_pfn_mapped = 0, max_low_pfn_mapped = 0,
     page_size_mask = 0, pte_mask = - 1, direct_page_counts = replicate 4 0\<rparr>"

lemma demo_reserved:
  "memblock_reserve 0x3000 0x2000 init_memblock = Inr (0, init_memblock\<lparr>mb_reserved := init_memblock_type
     \<lparr>total_size := 0x2000, regions := (regions init_memblock_type)[0 := mk_region 0x3000 0x2000 MAX_NR_NODES 0]\<rparr>\<rparr>)"
  by (simp add: memblock_reserve_def memblock_add_range_def Let_def init_memblock_def init_memblock_type_def memblock_cap_size_def region_at_def
      set_region_def memblock_set_region_node_def mk_region_def c_min_def zero_region_def INIT_MEMBLOCK_REGIONS_def)

lemma demo_buffer_ok: "buf_ok demo_buffer" "\<not> no_room (dm_mb demo_buffer)"
proof -
  let ?mb = "dm_mb demo_buffer"
  have mb: "?mb = snd (projr (memblock_reserve 0x3000 0x2000 init_memblock))" by (simp add: demo_buffer_def)
  have "range_end 0x3000 0x2000 = 0x5000" by (simp add: range_end_def)
  with reserve_law [OF mb_wf_init, of "0x3000" "0x2000"]
  have "mb_wf ?mb" "covered (mb_reserved ?mb) = covered (mb_reserved init_memblock) \<union> {0x3000..<0x5000}"
    unfolding mb using demo_reserved by auto
  then show "buf_ok demo_buffer" by (simp add: buf_ok_def) (simp add: demo_buffer_def)
  show "\<not> no_room ?mb" unfolding mb demo_reserved by (simp add: no_room_def init_memblock_type_def INIT_MEMBLOCK_REGIONS_def)
qed

lemma demo_buffer_pages: "\<exists>ps s'. take_pages env 2 demo_buffer = Inr (ps, s') \<and> dm_mb s' = dm_mb demo_buffer"
proof -
  let ?s = "demo_buffer\<lparr>pgt_buf_end := 4, dm_mem := clear_frame 3 (dm_mem demo_buffer)\<rparr>"
  have f: "pgt_buf_end demo_buffer = 3" "pgt_buf_top demo_buffer = 5" "can_use_brk_pgt demo_buffer" by (simp_all add: demo_buffer_def)
  note one = took_buffer_page [OF demo_buffer_ok(1), unfolded f(1), simplified f, simplified]
  have "buf_ok ?s" using one(1) by (simp add: took_page_def)
  note two = took_buffer_page(2) [OF this, of env, simplified f, simplified]
  show ?thesis using one(2) [of env] two f by (simp add: eval_nat_numeral)
qed

theorem alloc_low_pages_fresh_witness:
  "\<exists>fs s'. take_pages demo_map_env 2 demo_buffer = Inr (map (\<lambda>f. phys_to_virt (of_nat (4096 * f))) fs, s') \<and> length fs = 2 \<and> distinct fs \<and>
     set fs \<subseteq> avail demo_buffer - avail s'"
  using alloc_low_pages_fresh [OF demo_buffer_ok(1), of demo_map_env 2] demo_buffer_pages [of demo_map_env] demo_buffer_ok(2) by auto

end
