(* ===== verification/Direct_Map_Spec.thy ===== *)
theory Direct_Map_Spec
  imports Page_Table
begin

text \<open>
  The direct mapping as a partial map from page numbers to page table entries: \<^verbatim>\<open>kernel_physical_mapping_init\<close> updates it
  at exactly the pages of its range, and everything built on it maps the memory at its physical addresses.
\<close>

section \<open>The mapping\<close>

definition present :: "ulong \<Rightarrow> bool" where
  "present e \<longleftrightarrow> e AND PAGE_PRESENT \<noteq> 0"

definition frame_of :: "ulong \<Rightarrow> nat" where
  "frame_of e = unat e div 4096"

definition dir_frame :: "boot_env \<Rightarrow> nat" where
  "dir_frame env = unat (phys_addr (initial_page_table env)) div 4096"

definition dir :: "boot_env \<Rightarrow> mem \<Rightarrow> nat \<Rightarrow> ulong" where
  "dir env m i = entry m (dir_frame env) i"

text \<open>The entry of page \<open>q\<close> above \<^verbatim>\<open>PAGE_OFFSET\<close>, when the page is mapped.\<close>

definition lookup :: "boot_env \<Rightarrow> mem \<Rightarrow> nat \<Rightarrow> ulong option" where
  "lookup env m q =
     (let e = dir env m (768 + q div 1024) in
      if present e then (let p = entry m (frame_of e) (q mod 1024) in if present p then Some p else None) else None)"

definition env_ok :: "boot_env \<Rightarrow> bool" where
  "env_ok env \<longleftrightarrow> offset_in_page (initial_page_table env) = 0"

text \<open>
  The invariant: the tables of the kernel's part of the directory are distinct pages that \<^verbatim>\<open>alloc_low_pages\<close> will not hand out
  again.
\<close>

definition tables_ok :: "boot_env \<Rightarrow> mem \<Rightarrow> nat set \<Rightarrow> bool" where
  "tables_ok env m A \<longleftrightarrow> dir_frame env \<notin> A \<and>
     (\<forall>i. 768 \<le> i \<and> i < 1024 \<and> present (dir env m i) \<longrightarrow>
        dir env m i AND PAGE_PSE = 0 \<and> frame_of (dir env m i) \<noteq> dir_frame env \<and> frame_of (dir env m i) \<notin> A) \<and>
     (\<forall>i j. 768 \<le> i \<and> i < 1024 \<and> 768 \<le> j \<and> j < 1024 \<and> present (dir env m i) \<and> present (dir env m j) \<and>
        frame_of (dir env m i) = frame_of (dir env m j) \<longrightarrow> i = j)"

definition pt_inv :: "boot_env \<Rightarrow> direct_map \<Rightarrow> bool" where
  "pt_inv env s \<longleftrightarrow> env_ok env \<and> buf_ok s \<and> tables_ok env (dm_mem s) (avail s)"

lemma frame_of_less [simp]: "frame_of e < 1048576"
  using unat_lt32 [of e] by (simp add: frame_of_def)

lemma dir_frame_less [simp]: "dir_frame env < 1048576"
  using unat_lt32 [of "phys_addr (initial_page_table env)"] by (simp add: dir_frame_def)

lemma dir_addr:
  assumes "env_ok env"
  shows "initial_page_table env + 4 * of_nat i = slot_addr (dir_frame env) i"
proof -
  have "unat (initial_page_table env) mod 4096 = 0" using assms unat_offset_in_page [of "initial_page_table env"] by (simp add: env_ok_def)
  then obtain k where k: "unat (initial_page_table env) = 4096 * k" by auto
  have "unat (phys_addr (initial_page_table env)) mod 4096 = 0"
    using k unat_lt32 [of "initial_page_table env"] unfolding phys_addr_def PAGE_OFFSET_def unat_sub_if' by (auto simp: mod_simps)
  then have "unat (phys_addr (initial_page_table env)) = 4096 * dir_frame env" by (auto simp: dir_frame_def)
  then have "of_nat (unat (phys_addr (initial_page_table env))) = (of_nat (4096 * dir_frame env) :: ulong)" by simp
  then have "phys_addr (initial_page_table env) = of_nat (4096 * dir_frame env)" by simp
  then have "initial_page_table env = slot_addr (dir_frame env) 0" by (simp add: slot_addr_def phys_to_virt_def phys_addr_def algebra_simps)
  then show ?thesis by (simp add: slot_addr_add)
qed

lemma page_indices:
  assumes "p < 2 ^ 18"
  shows "pte_index (push_bit PAGE_SHIFT (of_nat p) + PAGE_OFFSET) = p mod 1024"
    "pgd_index (push_bit PAGE_SHIFT (of_nat p) + PAGE_OFFSET) = 768 + p div 1024"
proof -
  have "push_bit PAGE_SHIFT (of_nat p) = (of_nat (4096 * p) :: ulong)" by (simp add: push_bit_eq_mult PAGE_SHIFT_def)
  then have u: "unat (push_bit PAGE_SHIFT (of_nat p) + PAGE_OFFSET) = 4096 * (786432 + p)"
    using assms by (subst unat_add_no_wrap) (simp_all add: PAGE_OFFSET_def unat_of_nat32 del: of_nat_mult)
  have "unat (push_bit PAGE_SHIFT (of_nat p) + PAGE_OFFSET) div 4096 = 1024 * 768 + p" by (simp only: u) simp
  then show "pte_index (push_bit PAGE_SHIFT (of_nat p) + PAGE_OFFSET) = p mod 1024" by (simp only: pte_index_nat mod_mult_self4)
  let ?x = "push_bit PAGE_SHIFT (of_nat p) + PAGE_OFFSET"
  have "drop_bit PGDIR_SHIFT ?x AND (of_nat PTRS_PER_PGD - 1) = take_bit 10 (drop_bit 22 ?x)"
    by (simp add: PTRS_PER_PGD_def PGDIR_SHIFT_def take_bit_eq_mask mask_numeral)
  then have "pgd_index ?x = unat ?x div 4194304 mod 1024" unfolding pgd_index_def by (simp only: unat_take_bit unat_drop_bit) simp
  also have "unat ?x div 4194304 = (4096 * (1024 * 768 + p)) div (4096 * 1024)" unfolding u by simp
  also have "\<dots> = (1024 * 768 + p) div 1024" by (simp only: div_mult_mult1)
  also have "\<dots> = 768 + p div 1024" by simp
  finally show "pgd_index ?x = 768 + p div 1024" using assms by simp
qed

section \<open>One page table\<close>

text \<open>What the operations keep.\<close>

definition kept :: "direct_map \<Rightarrow> direct_map \<Rightarrow> bool" where
  "kept s s' \<longleftrightarrow> pte_mask s' = pte_mask s \<and> pgt_buf_top s' = pgt_buf_top s \<and> mb_memory (dm_mb s') = mb_memory (dm_mb s) \<and>
     (no_room (dm_mb s) \<longrightarrow> no_room (dm_mb s'))"

lemma kept_refl: "kept s s"
  by (simp add: kept_def)

lemma kept_trans: "kept s t \<Longrightarrow> kept t u \<Longrightarrow> kept s u"
  by (simp add: kept_def)

lemma kept_mem: "kept s t \<Longrightarrow> kept s (t\<lparr>dm_mem := m\<rparr>)"
  by (simp add: kept_def)

lemma kept_fields:
  assumes "kept s s'"
  shows "pte_mask s' = pte_mask s" "mb_memory (dm_mb s') = mb_memory (dm_mb s)" "no_room (dm_mb s) \<Longrightarrow> no_room (dm_mb s')"
  using assms by (simp_all add: kept_def)

lemma took_page_kept: "took_page f s s' \<Longrightarrow> kept s s'"
  by (auto simp: took_page_def kept_def)

lemma entry_parts:
  assumes "f < 2 ^ 20"
  shows "frame_of (phys_addr (slot_addr f 0) OR PAGE_TABLE) = f" "present (phys_addr (slot_addr f 0) OR PAGE_TABLE)"
    "(phys_addr (slot_addr f 0) OR PAGE_TABLE) AND PAGE_PSE = 0"
proof -
  have pt: "PAGE_TABLE = 0x67"
    by (simp add: PAGE_TABLE_def PAGE_PRESENT_def PAGE_RW_def PAGE_USER_def PAGE_ACCESSED_def PAGE_DIRTY_def)
  have a: "phys_addr (slot_addr f 0) = of_nat (4096 * f)" by (simp add: slot_addr_def phys_addr_def phys_to_virt_def)
  have u: "unat (of_nat (4096 * f) :: ulong) = 4096 * f" using assms by (subst unat_of_nat32) simp_all
  have "of_nat (4096 * f) AND PAGE_MASK = (of_nat (4096 * f) :: ulong)" by (rule word_unat_eq_iff [THEN iffD2]) (simp only: unat_page_mask u, simp)
  moreover have "offset_in_page 0x67 = 0x67" by (simp add: offset_in_page_def PAGE_MASK_def PAGE_SIZE_def)
  ultimately have "unat (phys_addr (slot_addr f 0) OR PAGE_TABLE) = 4096 * f + 0x67"
    using unat_page_or [of "of_nat (4096 * f)" "0x67"] u unfolding a pt by simp
  then show "frame_of (phys_addr (slot_addr f 0) OR PAGE_TABLE) = f" by (simp add: frame_of_def)
  show "present (phys_addr (slot_addr f 0) OR PAGE_TABLE)" by (simp add: present_def PAGE_PRESENT_def pt and_one_eq mod_2_eq_odd even_or_iff)
  have "of_nat (4096 * f) AND PAGE_PSE = (of_nat (4096 * f) AND PAGE_MASK) AND PAGE_PSE" using \<open>of_nat (4096 * f) AND PAGE_MASK = _\<close> by simp
  also have "\<dots> = of_nat (4096 * f) AND (PAGE_MASK AND PAGE_PSE)" by (simp only: and.assoc)
  also have "\<dots> = 0" by (simp add: PAGE_MASK_def PAGE_SIZE_def PAGE_PSE_def)
  finally have "of_nat (4096 * f) AND PAGE_PSE = (0 :: ulong)" .
  moreover have "0x67 AND PAGE_PSE = 0" by (simp add: PAGE_PSE_def)
  ultimately show "(phys_addr (slot_addr f 0) OR PAGE_TABLE) AND PAGE_PSE = 0" unfolding a pt by (simp only: bit.conj_disj_distrib2) simp
qed

lemma table_slot:
  assumes "e AND PAGE_PSE = 0"
  shows "pmd_page_vaddr e = slot_addr (frame_of e) 0"
proof -
  have "unat (e AND PAGE_MASK) = unat (of_nat (4096 * frame_of e) :: ulong)"
    using frame_of_less [of e] unat_lt32 [of e] unfolding unat_page_mask by (subst unat_of_nat32) (simp_all add: frame_of_def)
  then have "e AND PAGE_MASK = of_nat (4096 * frame_of e)" by (simp only: word_unat_eq_iff)
  then show ?thesis using assms by (simp add: pmd_page_vaddr_def pmd_pfn_mask_def PTE_PFN_MASK_def slot_addr_def)
qed

definition dirs_kept :: "boot_env \<Rightarrow> mem \<Rightarrow> mem \<Rightarrow> bool" where
  "dirs_kept env m m' \<longleftrightarrow> (\<forall>j. 768 \<le> j \<and> j < 1024 \<and> present (dir env m j) \<longrightarrow> present (dir env m' j))"

lemma dirs_kept_refl: "dirs_kept env m m"
  by (simp add: dirs_kept_def)

lemma dirs_kept_trans: "dirs_kept env m m' \<Longrightarrow> dirs_kept env m' m'' \<Longrightarrow> dirs_kept env m m''"
  by (auto simp: dirs_kept_def)

lemma tables_okD:
  assumes "tables_ok env m A" "768 \<le> i" "i < 1024" "present (dir env m i)"
  shows "dir env m i AND PAGE_PSE = 0" "frame_of (dir env m i) \<noteq> dir_frame env" "frame_of (dir env m i) \<notin> A"
    "\<And>j. 768 \<le> j \<Longrightarrow> j < 1024 \<Longrightarrow> present (dir env m j) \<Longrightarrow> frame_of (dir env m i) = frame_of (dir env m j) \<Longrightarrow> i = j"
  using assms unfolding tables_ok_def by blast+

text \<open>A fresh table below a directory entry that was not present changes no translation.\<close>

lemma new_table:
  fixes env s s1 i f
  assumes inv: "pt_inv env s" and took: "took_page f s s1" and room: "\<not> no_room (dm_mb s)"
    and i: "768 \<le> i" "i < 1024" "\<not> present (dir env (dm_mem s) i)"
  defines "e \<equiv> phys_addr (slot_addr f 0) OR PAGE_TABLE"
  defines "m \<equiv> store32 (dm_mem s1) (slot_addr (dir_frame env) i) e"
  shows "dir env m i = e" "pt_inv env (s1\<lparr>dm_mem := m\<rparr>)" "q < 2 ^ 18 \<Longrightarrow> lookup env m q = lookup env (dm_mem s) q"
    "dirs_kept env (dm_mem s) m"
proof -
  let ?d = "dir_frame env" and ?M = "dm_mem s"
  have T: "tables_ok env ?M (avail s)" and eo: "env_ok env" using inv by (simp_all add: pt_inv_def)
  have f: "f \<in> avail s" "f < 2 ^ 20" "buf_ok s1" "avail s1 \<subseteq> avail s - {f}" "dm_mem s1 = clear_frame f ?M"
    using took room by (auto simp: took_page_def)
  have fd: "f \<noteq> ?d" using f(1) T by (auto simp: tables_ok_def)
  have ent: "entry m g j = (if g = ?d \<and> j = i then e else if g = f then 0 else entry ?M g j)" if "g < 2 ^ 20" "j < 1024" for g j
    using that i(2) by (auto simp: m_def f(5) entry_store entry_clear)
  have d: "dir env m j = (if j = i then e else dir env ?M j)" if "j < 1024" for j
    using ent [of ?d j] that fd by (simp add: dir_def)
  then show di: "dir env m i = e" using i by simp
  note ep = entry_parts [OF f(2), folded e_def]
  have ff: "frame_of (dir env ?M j) \<noteq> f" if "768 \<le> j" "j < 1024" "present (dir env ?M j)" for j
    using tables_okD(3) [OF T that] f(1) by auto
  have "tables_ok env m (avail s1)"
    unfolding tables_ok_def
  proof (intro conjI allI impI; (elim conjE)?)
    show "?d \<notin> avail s1" using T f(4) by (auto simp: tables_ok_def)
  next
    fix j assume j: "768 \<le> j" "j < 1024" "present (dir env m j)"
    show "dir env m j AND PAGE_PSE = 0" using j d [of j] ep tables_okD(1) [OF T, of j] by (auto split: if_splits)
    show "frame_of (dir env m j) \<noteq> ?d" using j d [of j] ep fd tables_okD(2) [OF T, of j] by (auto split: if_splits)
    show "frame_of (dir env m j) \<notin> avail s1" using j d [of j] ep f(4) tables_okD(3) [OF T, of j] by (auto split: if_splits)
  next
    fix j k assume jk: "768 \<le> j" "j < 1024" "768 \<le> k" "k < 1024" "present (dir env m j)" "present (dir env m k)"
      "frame_of (dir env m j) = frame_of (dir env m k)"
    consider "j = i" "k = i" | "j = i" "k \<noteq> i" | "j \<noteq> i" "k = i" | "j \<noteq> i" "k \<noteq> i" by blast
    then show "j = k"
    proof cases
      case 2
      then show ?thesis using jk d ep(1) ff [of k] by simp
    next
      case 3
      then show ?thesis using jk d ep(1) ff [of j] by simp
    next
      case 4
      then have "dir env m j = dir env ?M j" "dir env m k = dir env ?M k" using d jk by simp_all
      then show ?thesis using jk tables_okD(4) [OF T, of j k] by (simp only:)
    qed simp
  qed
  moreover have "avail (s1\<lparr>dm_mem := m\<rparr>) = avail s1" "buf_ok (s1\<lparr>dm_mem := m\<rparr>)" using f(3) by (simp_all add: avail_def buf_ok_def)
  ultimately show "pt_inv env (s1\<lparr>dm_mem := m\<rparr>)" using eo by (simp add: pt_inv_def)
  show "dirs_kept env ?M m" using d ep by (auto simp: dirs_kept_def)
  assume q: "q < 2 ^ 18"
  have k: "768 + q div 1024 < 1024" using q by simp
  show "lookup env m q = lookup env ?M q"
  proof (cases "768 + q div 1024 = i")
    case True
    have "entry m f (q mod 1024) = 0" using ent [of f "q mod 1024"] f(2) fd by simp
    then show ?thesis using True di i(3) ep by (simp add: lookup_def Let_def) (simp add: present_def)
  next
    case False
    then have dd: "dir env m (768 + q div 1024) = dir env ?M (768 + q div 1024)" using d k by simp
    show ?thesis
    proof (cases "present (dir env ?M (768 + q div 1024))")
      case True
      note ff [OF _ k True, simplified] tables_okD(2) [OF T _ k True, simplified]
      then show ?thesis using dd ent [of "frame_of (dir env ?M (768 + q div 1024))" "q mod 1024"] by (simp add: lookup_def Let_def)
    next
      case False
      then show ?thesis using dd by (simp add: lookup_def)
    qed
  qed
qed

lemma one_page_table_init_spec:
  assumes inv: "pt_inv env s" and i: "768 \<le> i" "i < 1024"
  shows "one_page_table_init env (slot_addr (dir_frame env) i) s = Inl Panic \<and> \<not> present (dir env (dm_mem s) i) \<or>
    (\<exists>s'. one_page_table_init env (slot_addr (dir_frame env) i) s = Inr (slot_addr (frame_of (dir env (dm_mem s') i)) 0, s') \<and> kept s s' \<and>
       (present (dir env (dm_mem s) i) \<longrightarrow> dm_mb s' = dm_mb s) \<and>
       (\<not> no_room (dm_mb s) \<longrightarrow> pt_inv env s' \<and> present (dir env (dm_mem s') i) \<and> (\<forall>q < 2 ^ 18. lookup env (dm_mem s') q = lookup env (dm_mem s) q) \<and>
          dirs_kept env (dm_mem s) (dm_mem s')))"
proof (cases "present (dir env (dm_mem s) i)")
  case True
  have "dir env (dm_mem s) i AND PAGE_PSE = 0" using inv tables_okD(1) [OF _ i True] by (auto simp: pt_inv_def)
  then have "pte_offset_kernel (dm_mem s) (slot_addr (dir_frame env) i) 0 = slot_addr (frame_of (dir env (dm_mem s) i)) 0"
    using table_slot by (simp add: pte_offset_kernel_def dir_def entry_def pte_index_def)
  then have "one_page_table_init env (slot_addr (dir_frame env) i) s = Inr (slot_addr (frame_of (dir env (dm_mem s) i)) 0, s)"
    using True by (simp add: one_page_table_init_def present_def dir_def entry_def)
  then show ?thesis using kept_refl inv True dirs_kept_refl by blast
next
  case False
  let ?a = "slot_addr (dir_frame env) i"
  have np: "load32 (dm_mem s) ?a AND PAGE_PRESENT = 0" using False by (simp add: present_def dir_def entry_def)
  have "buf_ok s" using inv by (simp add: pt_inv_def)
  from alloc_low_page [OF this, of env] show ?thesis
  proof (elim disjE exE conjE)
    assume "alloc_low_pages env 1 s = Inl Panic"
    then show ?thesis using np False by (simp add: one_page_table_init_def)
  next
    fix f s1 assume al: "alloc_low_pages env 1 s = Inr (slot_addr f 0, s1)" and took: "took_page f s s1"
    let ?e = "phys_addr (slot_addr f 0) OR PAGE_TABLE"
    let ?m = "store32 (dm_mem s1) ?a ?e" and ?s = "s1\<lparr>dm_mem := store32 (dm_mem s1) ?a ?e\<rparr>"
    have f: "f < 2 ^ 20" using took by (simp add: took_page_def)
    note ep = entry_parts [OF f]
    have di: "dir env ?m i = ?e" using i by (simp add: dir_def entry_def load32_store32)
    have off: "pte_offset_kernel ?m ?a 0 = slot_addr f 0"
      using table_slot [OF ep(3)] ep(1) by (simp add: pte_offset_kernel_def load32_store32 pte_index_def)
    have "one_page_table_init env ?a s = Inr (slot_addr f 0, ?s)"
      using np al off by (simp add: one_page_table_init_def)
    moreover have "kept s ?s" using took_page_kept [OF took] by (rule kept_mem)
    ultimately show ?thesis using new_table [OF inv took _ i False] di ep False by simp
  qed
qed

section \<open>The entries of a table\<close>

definition prot_of :: "boot_env \<Rightarrow> nat \<Rightarrow> nat \<Rightarrow> ulong" where
  "prot_of env mapping_iter p =
     (if mapping_iter = 1 then PTE_IDENT_ATTR
      else if is_kernel_text env (of_nat (4096 * p) + PAGE_OFFSET) then PAGE_KERNEL_EXEC else PAGE_KERNEL)"

definition pte_value :: "boot_env \<Rightarrow> ulong \<Rightarrow> nat \<Rightarrow> nat \<Rightarrow> ulong" where
  "pte_value env supported mapping_iter p = pfn_pte supported (of_nat p) (prot_of env mapping_iter p)"

lemma of_nat_less32: "a < 2 ^ 32 \<Longrightarrow> b < 2 ^ 32 \<Longrightarrow> (of_nat a < (of_nat b :: ulong)) = (a < b)"
  by (simp add: word_less_nat_alt unat_of_nat32)

lemma pte_loop_spec:
  assumes "t < 2 ^ 20" "i \<le> 1024" "p < 2 ^ 20" "e < 2 ^ 20"
  shows "\<exists>m'. pte_loop env msk iter i (slot_addr t i) (of_nat p) (of_nat e) (of_nat (4096 * p) + PAGE_OFFSET) c l m =
      (of_nat (p + min (1024 - i) (e - p)), c + of_nat (min (1024 - i) (e - p)),
       if iter = 1 \<and> 0 < min (1024 - i) (e - p) then of_nat (4096 * (p + min (1024 - i) (e - p))) else l, m') \<and>
    (\<forall>f < 2 ^ 20. \<forall>j < 1024. entry m' f j =
       (if f = t \<and> i \<le> j \<and> j < i + min (1024 - i) (e - p) then pte_value env msk iter (p + (j - i)) else entry m f j))"
  using assms(2,3)
proof (induction "1024 - i" arbitrary: i p c l m)
  case 0
  then show ?case by (subst pte_loop.simps) (simp add: PTRS_PER_PTE_def)
next
  case (Suc k)
  have i: "i < 1024" "k = 1024 - (i + 1)" using Suc.hyps(2) by simp_all
  have lt: "(of_nat p < (of_nat e :: ulong)) = (p < e)" using Suc.prems(2) assms(4) by (intro of_nat_less32) simp_all
  show ?case
  proof (cases "p < e")
    case False
    then show ?thesis using lt by (subst pte_loop.simps) auto
  next
    case True
    let ?v = "pte_value env msk iter p"
    let ?l = "if iter = 1 then of_nat (4096 * (p + 1)) else l"
    have n: "min (1024 - i) (e - p) = Suc (min (1024 - (i + 1)) (e - (p + 1)))" using True i by simp
    have step: "pte_loop env msk iter i (slot_addr t i) (of_nat p) (of_nat e) (of_nat (4096 * p) + PAGE_OFFSET) c l m =
        pte_loop env msk iter (i + 1) (slot_addr t (i + 1)) (of_nat (p + 1)) (of_nat e) (of_nat (4096 * (p + 1)) + PAGE_OFFSET) (c + 1) ?l
          (store32 m (slot_addr t i) ?v)"
      using True i(1) lt slot_addr_add [of t i 1]
      by (subst pte_loop.simps)
        (simp add: PTRS_PER_PTE_def pte_value_def prot_of_def PAGE_SIZE_def PAGE_SHIFT_def push_bit_eq_mult algebra_simps)
    have "p + 1 < 2 ^ 20" using True assms(4) by simp
    from Suc.hyps(1) [OF i(2) _ this, of "c + 1" ?l "store32 m (slot_addr t i) ?v"] i(1) obtain m' where
      m': "pte_loop env msk iter i (slot_addr t i) (of_nat p) (of_nat e) (of_nat (4096 * p) + PAGE_OFFSET) c l m =
        (of_nat (p + 1 + min (1024 - (i + 1)) (e - (p + 1))), c + 1 + of_nat (min (1024 - (i + 1)) (e - (p + 1))),
         if iter = 1 \<and> 0 < min (1024 - (i + 1)) (e - (p + 1)) then of_nat (4096 * (p + 1 + min (1024 - (i + 1)) (e - (p + 1)))) else ?l, m')"
      and ent: "\<And>f j. f < 2 ^ 20 \<Longrightarrow> j < 1024 \<Longrightarrow> entry m' f j =
        (if f = t \<and> i + 1 \<le> j \<and> j < i + 1 + min (1024 - (i + 1)) (e - (p + 1)) then pte_value env msk iter (p + 1 + (j - (i + 1)))
         else entry (store32 m (slot_addr t i) ?v) f j)"
      unfolding step by auto
    have "entry m' f j = (if f = t \<and> i \<le> j \<and> j < i + min (1024 - i) (e - p) then pte_value env msk iter (p + (j - i)) else entry m f j)"
      if "f < 2 ^ 20" "j < 1024" for f j
    proof (cases "f = t \<and> j = i")
      case True
      then show ?thesis using ent [OF that] n i(1) entry_store [OF assms(1) i(1) that] by simp
    next
      case False
      then have "entry (store32 m (slot_addr t i) ?v) f j = entry m f j" using entry_store [OF assms(1) i(1) that] by auto
      moreover have "p + 1 + (j - (i + 1)) = p + (j - i)" if "i + 1 \<le> j" using that by simp
      ultimately show ?thesis using ent [OF that] n False by auto
    qed
    then show ?thesis unfolding m' n by (intro exI [of _ m']) (auto simp: algebra_simps)
  qed
qed

lemma table_written:
  assumes inv: "pt_inv env s" and i: "768 \<le> i" "i < 1024" "present (dir env (dm_mem s) i)"
    and ent0: "\<forall>f < 2 ^ 20. \<forall>j < 1024.
      entry m' f j = (if f = frame_of (dir env (dm_mem s) i) \<and> j \<in> J then g j else entry (dm_mem s) f j)"
    and g: "\<forall>j. present (g j)"
  shows "pt_inv env (s\<lparr>dm_mem := m'\<rparr>)" "dirs_kept env (dm_mem s) m'"
    "q < 2 ^ 18 \<Longrightarrow> lookup env m' q = (if 768 + q div 1024 = i \<and> q mod 1024 \<in> J then Some (g (q mod 1024)) else lookup env (dm_mem s) q)"
proof -
  let ?m = "dm_mem s"
  note ent = ent0 [rule_format]
  have T: "tables_ok env ?m (avail s)" using inv by (simp add: pt_inv_def)
  have d: "dir env m' j = dir env ?m j" if "j < 1024" for j
    using ent [of "dir_frame env" j] that tables_okD(2) [OF T i] by (simp add: dir_def)
  then show "dirs_kept env ?m m'" by (simp add: dirs_kept_def)
  have "avail (s\<lparr>dm_mem := m'\<rparr>) = avail s" "buf_ok (s\<lparr>dm_mem := m'\<rparr>) = buf_ok s" by (simp_all add: avail_def buf_ok_def)
  moreover have "tables_ok env m' (avail s)" using T d unfolding tables_ok_def by (simp cong: conj_cong)
  ultimately show "pt_inv env (s\<lparr>dm_mem := m'\<rparr>)" using inv by (simp add: pt_inv_def)
  assume q: "q < 2 ^ 18"
  have k: "768 + q div 1024 < 1024" using q by simp
  show "lookup env m' q = (if 768 + q div 1024 = i \<and> q mod 1024 \<in> J then Some (g (q mod 1024)) else lookup env ?m q)"
  proof (cases "768 + q div 1024 = i")
    case True
    then show ?thesis using d [OF k] i(3) ent [of "frame_of (dir env ?m i)" "q mod 1024"] g by (simp add: lookup_def Let_def)
  next
    case False
    show ?thesis
    proof (cases "present (dir env ?m (768 + q div 1024))")
      case True
      have "frame_of (dir env ?m (768 + q div 1024)) \<noteq> frame_of (dir env ?m i)"
        using tables_okD(4) [OF T _ k True i(1,2,3)] False by auto
      then show ?thesis using False d [OF k] ent [of "frame_of (dir env ?m (768 + q div 1024))" "q mod 1024"] by (simp add: lookup_def Let_def)
    next
      case False
      then show ?thesis using \<open>768 + q div 1024 \<noteq> i\<close> d [OF k] by (simp add: lookup_def)
    qed
  qed
qed

lemma present_pte_value:
  assumes "present msk"
  shows "present (pte_value env msk iter p)"
proof -
  have o: "present x \<longleftrightarrow> odd x" for x by (simp add: present_def PAGE_PRESENT_def and_one_eq mod_2_eq_odd)
  have "odd (prot_of env iter p)"
    by (simp add: prot_of_def PTE_IDENT_ATTR_def PAGE_KERNEL_EXEC_def PAGE_KERNEL_def PAGE_PRESENT_def even_or_iff)
  then show ?thesis
    using assms unfolding o by (simp add: pte_value_def pfn_pte_def massage_pgprot_def even_or_iff even_and_iff PAGE_PRESENT_def and_one_eq mod_2_eq_odd)
qed

section \<open>The loops over the directory\<close>

text \<open>
  The effect of mapping the pages from \<open>p\<close> to \<open>p'\<close>, unless the reserved array has run out of room, which it does not
  leave again.
\<close>

definition maps_range :: "boot_env \<Rightarrow> nat \<Rightarrow> nat \<Rightarrow> nat \<Rightarrow> direct_map \<Rightarrow> direct_map \<Rightarrow> bool" where
  "maps_range env iter p p' s s' \<longleftrightarrow> kept s s' \<and>
     (\<not> no_room (dm_mb s') \<longrightarrow> pt_inv env s' \<and> dirs_kept env (dm_mem s) (dm_mem s') \<and>
        (\<forall>q < 2 ^ 18. lookup env (dm_mem s') q =
           (if p \<le> q \<and> q < p' then Some (pte_value env (pte_mask s) iter q) else lookup env (dm_mem s) q)))"

text \<open>A panic happens only when a table is missing.\<close>

definition tables_missing :: "boot_env \<Rightarrow> nat \<Rightarrow> nat \<Rightarrow> direct_map \<Rightarrow> bool" where
  "tables_missing env p p' s \<longleftrightarrow> (\<exists>q. p \<le> q \<and> q < p' \<and> \<not> present (dir env (dm_mem s) (768 + q div 1024)))"

lemma page_in_table:
  fixes p q p' :: nat
  assumes "p < p'" "p' \<le> 1024 * (p div 1024) + 1024"
  shows "q div 1024 = p div 1024 \<and> p mod 1024 \<le> q mod 1024 \<and> q mod 1024 < p mod 1024 + (p' - p) \<longleftrightarrow> p \<le> q \<and> q < p'"
proof -
  define a b c d where abcd: "a = p div 1024" "b = p mod 1024" "c = q div 1024" "d = q mod 1024"
  have pq: "p = 1024 * a + b" "q = 1024 * c + d" "b < 1024" "d < 1024" by (simp_all add: abcd)
  have "c = a" if "p \<le> q" "q < p'"
  proof -
    have "p' \<le> 1024 * a + 1024" using assms(2) by (simp add: abcd)
    then have "1024 * c < 1024 * (a + 1)" "1024 * a < 1024 * (c + 1)" using that pq by simp_all
    then have "c < a + 1" "a < c + 1" by simp_all
    then show ?thesis by simp
  qed
  moreover have "c = a \<Longrightarrow> (b \<le> d \<and> d < b + (p' - p)) = (p \<le> q \<and> q < p')" using pq assms(1) by auto
  ultimately show ?thesis unfolding abcd(1-4) [symmetric] by blast
qed

lemma pmd_turn_spec:
  assumes inv: "pt_inv env s" and p: "p < e" "e \<le> 2 ^ 18" "mv_pfn v = of_nat p" and msk: "present (pte_mask s)"
  defines "p' \<equiv> min e (1024 * (p div 1024) + 1024)"
  shows "pmd_turn env False iter (initial_page_table env + 4 * of_nat (768 + p div 1024)) (of_nat e) v s = Inl Panic \<and>
      \<not> present (dir env (dm_mem s) (768 + p div 1024)) \<or>
    (\<exists>s'. pmd_turn env False iter (initial_page_table env + 4 * of_nat (768 + p div 1024)) (of_nat e) v s =
       Inr (v\<lparr>mv_pfn := of_nat p', mv_last := (if iter = 1 then of_nat (4096 * p') else mv_last v), pages_4k := pages_4k v + of_nat (p' - p)\<rparr>, s') \<and>
       maps_range env iter p p' s s' \<and> (present (dir env (dm_mem s) (768 + p div 1024)) \<longrightarrow> dm_mb s' = dm_mb s))"
proof -
  let ?i = "768 + p div 1024"
  have eo: "env_ok env" using inv by (simp add: pt_inv_def)
  have p18: "p < 2 ^ 18" using p by simp
  then have i: "768 \<le> ?i" "?i < 1024" by simp_all
  have n: "min (1024 - p mod 1024) (e - p) = p' - p" "0 < p' - p" "p + (p' - p) = p'"
    using p(1) mult_div_mod_eq [of 1024 p] mod_less_divisor [of 1024 p] unfolding p'_def by linarith+
  from one_page_table_init_spec [OF inv i] show ?thesis
  proof (elim disjE exE conjE)
    assume "one_page_table_init env (slot_addr (dir_frame env) ?i) s = Inl Panic" "\<not> present (dir env (dm_mem s) ?i)"
    then show ?thesis by (simp add: pmd_turn_def dir_addr [OF eo] del: of_nat_add)
  next
    fix s1 assume one: "one_page_table_init env (slot_addr (dir_frame env) ?i) s = Inr (slot_addr (frame_of (dir env (dm_mem s1) ?i)) 0, s1)"
      and k: "kept s s1" and mb: "present (dir env (dm_mem s) ?i) \<longrightarrow> dm_mb s1 = dm_mb s"
      and S: "\<not> no_room (dm_mb s) \<longrightarrow> pt_inv env s1 \<and> present (dir env (dm_mem s1) ?i) \<and> (\<forall>q < 2 ^ 18. lookup env (dm_mem s1) q = lookup env (dm_mem s) q) \<and>
        dirs_kept env (dm_mem s) (dm_mem s1)"
    let ?t = "frame_of (dir env (dm_mem s1) ?i)" and ?j = "p mod 1024" and ?w = "pte_value env (pte_mask s) iter"
    have "?t < 2 ^ 20" "?j \<le> 1024" "p < 2 ^ 20" "e < 2 ^ 20" using p18 p(2) by simp_all
    from pte_loop_spec [OF this, of env "pte_mask s1" iter "pages_4k v" "mv_last v" "dm_mem s1", unfolded n(1,3)] obtain m' where
      loop: "pte_loop env (pte_mask s1) iter ?j (slot_addr ?t ?j) (of_nat p) (of_nat e) (of_nat (4096 * p) + PAGE_OFFSET) (pages_4k v) (mv_last v) (dm_mem s1) =
        (of_nat p', pages_4k v + of_nat (p' - p), if iter = 1 \<and> 0 < p' - p then of_nat (4096 * p') else mv_last v, m')"
      and ent: "\<And>f j. f < 2 ^ 20 \<Longrightarrow> j < 1024 \<Longrightarrow> entry m' f j =
        (if f = ?t \<and> ?j \<le> j \<and> j < ?j + (p' - p) then pte_value env (pte_mask s1) iter (p + (j - ?j)) else entry (dm_mem s1) f j)" by blast
    have pm: "pte_mask s1 = pte_mask s" using kept_fields [OF k] by simp
    have ad: "of_nat p * PAGE_SIZE + PAGE_OFFSET = of_nat (4096 * p) + PAGE_OFFSET" by (simp add: PAGE_SIZE_def)
    note pi = page_indices(1) [OF p18]
    have sl: "slot_addr ?t 0 + 4 * of_nat ?j = slot_addr ?t ?j" using slot_addr_add [of ?t 0 ?j] by simp
    let ?s = "s1\<lparr>dm_mem := m'\<rparr>"
    have res: "pmd_turn env False iter (initial_page_table env + 4 * of_nat ?i) (of_nat e) v s =
       Inr (v\<lparr>mv_pfn := of_nat p', mv_last := (if iter = 1 then of_nat (4096 * p') else mv_last v), pages_4k := pages_4k v + of_nat (p' - p)\<rparr>, ?s)"
      unfolding pmd_turn_def dir_addr [OF eo] Let_def ad if_False one kbind_Inr prod.case pi sl p(3) loop using n(2) by simp
    have "maps_range env iter p p' s ?s"
      unfolding maps_range_def
    proof (intro conjI impI allI)
      show "kept s ?s" using k by (rule kept_mem)
      assume "\<not> no_room (dm_mb ?s)"
      then have "\<not> no_room (dm_mb s)" using kept_fields(3) [OF k] by auto
      with S have s1: "pt_inv env s1" "present (dir env (dm_mem s1) ?i)" "\<And>q. q < 2 ^ 18 \<Longrightarrow> lookup env (dm_mem s1) q = lookup env (dm_mem s) q"
        "dirs_kept env (dm_mem s) (dm_mem s1)" by blast+
      have e': "\<forall>f < 2 ^ 20. \<forall>j < 1024. entry m' f j = (if f = ?t \<and> j \<in> {?j..<?j + (p' - p)} then ?w (p + (j - ?j)) else entry (dm_mem s1) f j)"
        using ent by (simp add: pm)
      have "\<forall>j. present (?w (p + (j - ?j)))" using present_pte_value [OF msk] by blast
      note W = table_written [OF s1(1) i s1(2) e' this]
      show "pt_inv env ?s" by (rule W(1))
      show "dirs_kept env (dm_mem s) (dm_mem ?s)" using dirs_kept_trans [OF s1(4) W(2)] by simp
      fix q :: nat assume q: "q < 2 ^ 18"
      have "768 + q div 1024 = ?i \<and> q mod 1024 \<in> {?j..<?j + (p' - p)} \<longleftrightarrow> p \<le> q \<and> q < p'"
        using page_in_table [of p p' q] n(2) by (auto simp: p'_def)
      moreover have "p + (q mod 1024 - ?j) = q" if "768 + q div 1024 = ?i" "?j \<le> q mod 1024"
        using that mult_div_mod_eq [of 1024 p] mult_div_mod_eq [of 1024 q] by linarith
      ultimately show "lookup env (dm_mem ?s) q = (if p \<le> q \<and> q < p' then Some (?w q) else lookup env (dm_mem s) q)"
        using W(3) [OF q] s1(3) [OF q] by auto
    qed
    with res mb show ?thesis by auto
  qed
qed

lemma took_page_buf_ok: "took_page f s s' \<Longrightarrow> buf_ok s'"
  by (simp add: took_page_def)

lemma buf_ok_mem [simp]: "buf_ok (s\<lparr>dm_mem := m\<rparr>) = buf_ok s"
  by (simp add: buf_ok_def)

text \<open>Whatever the tables hold, the loops return or panic, and keep memblock and the buffer well-formed.\<close>

lemma one_page_table_init_total:
  assumes "buf_ok s"
  shows "one_page_table_init env pmd s = Inl Panic \<or> (\<exists>pte s'. one_page_table_init env pmd s = Inr (pte, s') \<and> kept s s' \<and> buf_ok s')"
  using alloc_low_page [OF assms, of env]
proof (elim disjE exE conjE)
  fix f s1 assume a: "alloc_low_pages env 1 s = Inr (slot_addr f 0, s1)" and t: "took_page f s s1"
  let ?m = "store32 (dm_mem s1) pmd (phys_addr (slot_addr f 0) OR PAGE_TABLE)"
  have "f < 2 ^ 20" using t by (simp add: took_page_def)
  note ep = entry_parts [OF this]
  have "pte_offset_kernel ?m pmd 0 = slot_addr f 0"
    using table_slot [OF ep(3)] ep(1) by (simp add: pte_offset_kernel_def load32_store32 pte_index_def)
  then have "one_page_table_init env pmd s = (if load32 (dm_mem s) pmd AND PAGE_PRESENT = 0 then Inr (slot_addr f 0, s1\<lparr>dm_mem := ?m\<rparr>)
      else Inr (pte_offset_kernel (dm_mem s) pmd 0, s))"
    using a by (simp add: one_page_table_init_def)
  moreover have "kept s (s1\<lparr>dm_mem := ?m\<rparr>)" "buf_ok (s1\<lparr>dm_mem := ?m\<rparr>)"
    using kept_mem [OF took_page_kept [OF t]] took_page_buf_ok [OF t] by simp_all
  ultimately show ?thesis using assms kept_refl by auto
qed (use assms kept_refl in \<open>auto simp: one_page_table_init_def\<close>)

lemma pmd_turn_total:
  assumes "buf_ok s"
  shows "pmd_turn env pse iter pmd e v s = Inl Panic \<or> (\<exists>v' s'. pmd_turn env pse iter pmd e v s = Inr (v', s') \<and> kept s s' \<and> buf_ok s')"
proof (cases pse)
  case True
  then show ?thesis using assms by (simp add: pmd_turn_def Let_def kept_mem kept_refl)
next
  case False
  from one_page_table_init_total [OF assms, of env pmd] show ?thesis
  proof (elim disjE exE conjE)
    fix pte s1 assume "one_page_table_init env pmd s = Inr (pte, s1)" "kept s s1" "buf_ok s1"
    then show ?thesis using False by (auto simp: pmd_turn_def Let_def kept_mem split: prod.splits)
  qed (use False in \<open>simp add: pmd_turn_def\<close>)
qed

lemma pgd_loop_total:
  assumes "buf_ok s"
  shows "pgd_loop env pse iter i e v s = Inl Panic \<or> (\<exists>v' s'. pgd_loop env pse iter i e v s = Inr (v', s') \<and> kept s s' \<and> buf_ok s')"
  using assms
proof (induction "1024 - i" arbitrary: i v s)
  case 0
  then show ?case using kept_refl by (subst pgd_loop.simps) (auto simp: PTRS_PER_PGD_def)
next
  case (Suc k)
  have i: "i < PTRS_PER_PGD" "k = 1024 - (i + 1)" using Suc.hyps(2) by (simp_all add: PTRS_PER_PGD_def)
  note IH = Suc.hyps(1) [OF i(2)]
  show ?case
  proof (cases "mv_pfn v \<ge> e")
    case True
    then show ?thesis using IH [OF Suc.prems, of v] i(1) by (subst (1 2) pgd_loop.simps) simp
  next
    case False
    from pmd_turn_total [OF Suc.prems, of env pse iter "initial_page_table env + 4 * of_nat i" e v] show ?thesis
    proof (elim disjE exE conjE)
      fix v1 s1 assume t: "pmd_turn env pse iter (initial_page_table env + 4 * of_nat i) e v s = Inr (v1, s1)" "kept s s1" "buf_ok s1"
      then show ?thesis using IH [OF t(3), of v1] i(1) False kept_trans [OF t(2)] by (subst (1 2) pgd_loop.simps) auto
    qed (use i False in \<open>subst (1 2) pgd_loop.simps, simp\<close>)
  qed
qed

lemma pgd_loop_done: "mv_pfn v \<ge> e \<Longrightarrow> pgd_loop env pse iter i e v s = Inr (v, s)"
  by (induction "1024 - i" arbitrary: i) (subst pgd_loop.simps, simp add: PTRS_PER_PGD_def)+

lemma maps_range_empty: "pt_inv env s \<Longrightarrow> maps_range env iter e e s s"
  by (auto simp: maps_range_def kept_refl dirs_kept_refl)

lemma maps_range_trans:
  assumes "maps_range env iter p p' s t" "maps_range env iter p' e t u" "p \<le> p'" "p' \<le> e"
  shows "maps_range env iter p e s u"
proof -
  have k: "kept s t" "kept t u" using assms(1,2) by (simp_all add: maps_range_def)
  have "pt_inv env u \<and> dirs_kept env (dm_mem s) (dm_mem u) \<and> (\<forall>q < 2 ^ 18. lookup env (dm_mem u) q =
      (if p \<le> q \<and> q < e then Some (pte_value env (pte_mask s) iter q) else lookup env (dm_mem s) q))" if r: "\<not> no_room (dm_mb u)"
  proof -
    have r': "\<not> no_room (dm_mb t)" using r kept_fields(3) [OF k(2)] by blast
    have "dirs_kept env (dm_mem s) (dm_mem u)" using assms(1,2) r r' unfolding maps_range_def by (blast intro: dirs_kept_trans)
    then show ?thesis using assms r r' kept_fields(1) [OF k(1)] unfolding maps_range_def by auto
  qed
  then show ?thesis using kept_trans [OF k] by (simp add: maps_range_def)
qed

lemma tables_missing_mono:
  assumes "tables_missing env p' e s'" "p \<le> p'" "dirs_kept env (dm_mem s) (dm_mem s')" "e \<le> 2 ^ 18"
  shows "tables_missing env p e s"
proof -
  obtain q where q: "p' \<le> q" "q < e" "\<not> present (dir env (dm_mem s') (768 + q div 1024))" using assms(1) by (auto simp: tables_missing_def)
  then have "768 + q div 1024 < 1024" using assms(4) by simp
  then have "\<not> present (dir env (dm_mem s) (768 + q div 1024))" using assms(3) q(3) by (auto simp: dirs_kept_def)
  moreover have "p \<le> q" using q(1) assms(2) by simp
  ultimately show ?thesis using q(2) unfolding tables_missing_def by blast
qed

text \<open>The whole loop maps the range, or panics for want of a table.\<close>

definition vars_after :: "nat \<Rightarrow> nat \<Rightarrow> nat \<Rightarrow> map_vars \<Rightarrow> map_vars" where
  "vars_after iter p e v = v\<lparr>mv_pfn := of_nat e, mv_last := (if iter = 1 \<and> p < e then of_nat (4096 * e) else mv_last v),
     pages_4k := pages_4k v + of_nat (e - p)\<rparr>"

definition loop_ok :: "boot_env \<Rightarrow> nat \<Rightarrow> nat \<Rightarrow> nat \<Rightarrow> map_vars \<Rightarrow> direct_map \<Rightarrow> (map_vars \<times> direct_map) kres \<Rightarrow> bool" where
  "loop_ok env iter p e v s r \<longleftrightarrow>
     (case r of Inl x \<Rightarrow> x = Panic \<and> (no_room (dm_mb s) \<or> tables_missing env p e s)
      | Inr (v', s') \<Rightarrow> maps_range env iter p e s s' \<and> buf_ok s' \<and> (no_room (dm_mb s') \<or> v' = vars_after iter p e v) \<and>
          (tables_missing env p e s \<or> no_room (dm_mb s) \<or> dm_mb s' = dm_mb s))"

lemma vars_after_trans: "p \<le> q \<Longrightarrow> q \<le> e \<Longrightarrow> vars_after iter q e (vars_after iter p q v) = vars_after iter p e v"
  by (auto simp: vars_after_def simp flip: of_nat_add)

text \<open>A first part, and the rest.\<close>

lemma loop_ok_step:
  assumes mr: "maps_range env iter p q s s1" and pq: "p \<le> q" "q \<le> e" "e \<le> 2 ^ 18"
    and mb: "tables_missing env p e s \<or> dm_mb s1 = dm_mb s"
    and rest: "if no_room (dm_mb s1) then r = Inl Panic \<or> (\<exists>v' s'. r = Inr (v', s') \<and> kept s1 s' \<and> buf_ok s')
      else loop_ok env iter q e (vars_after iter p q v) s1 r"
  shows "loop_ok env iter p e v s r"
proof (cases "no_room (dm_mb s1)")
  case True
  have k: "kept s s1" using mr by (simp add: maps_range_def)
  have "maps_range env iter p e s u" "no_room (dm_mb u)" if "kept s1 u" for u
    using kept_trans [OF k that] kept_fields(3) [OF that True] by (simp_all add: maps_range_def)
  then show ?thesis using rest mb True by (auto simp: loop_ok_def)
next
  case r: False
  then have s1: "dirs_kept env (dm_mem s) (dm_mem s1)" using mr by (simp add: maps_range_def)
  have m1: "tables_missing env q e s1 \<Longrightarrow> tables_missing env p e s" using tables_missing_mono [OF _ pq(1) s1 pq(3)] .
  have ok: "loop_ok env iter q e (vars_after iter p q v) s1 r" using rest r by simp
  show ?thesis
  proof (cases r)
    case (Inl x)
    then show ?thesis using ok m1 r by (auto simp: loop_ok_def)
  next
    case (Inr y)
    obtain v' s' where y: "y = (v', s')" by (cases y)
    then have "maps_range env iter p e s s'" using ok Inr maps_range_trans [OF mr _ pq(1,2)] by (simp add: loop_ok_def)
    then show ?thesis using ok Inr y m1 mb r vars_after_trans [OF pq(1,2)] by (auto simp: loop_ok_def)
  qed
qed

lemma pgd_loop_maps:
  assumes "pt_inv env s" "p \<le> e" "e \<le> 2 ^ 18" "mv_pfn v = of_nat p" "present (pte_mask s)"
  shows "loop_ok env iter p e v s (pgd_loop env False iter (768 + p div 1024) (of_nat e) v s)"
  using assms
proof (induction "e - p" arbitrary: p v s rule: less_induct)
  case less
  have b: "buf_ok s" using less.prems(1) by (simp add: pt_inv_def)
  show ?case
  proof (cases "p = e")
    case True
    then have "pgd_loop env False iter (768 + p div 1024) (of_nat e) v s = Inr (v, s)" using less.prems by (simp add: pgd_loop_done)
    moreover have "v = vars_after iter e e v" using less.prems(4) True by (simp add: vars_after_def)
    ultimately show ?thesis using True maps_range_empty [OF less.prems(1)] b by (simp add: loop_ok_def)
  next
    case False
    then have p: "p < e" using less.prems(2) by simp
    let ?i = "768 + p div 1024" and ?q = "min e (1024 * (p div 1024) + 1024)"
    have i: "?i < PTRS_PER_PGD" using p less.prems(3) by (simp add: PTRS_PER_PGD_def)
    have ne: "\<not> mv_pfn v \<ge> of_nat e" using p less.prems(3,4) by (simp add: word_le_nat_alt unat_of_nat32)
    have q: "p < ?q" "?q \<le> e" "e - ?q < e - p" using p mult_div_mod_eq [of 1024 p] mod_less_divisor [of 1024 p] by linarith+
    let ?turn = "pmd_turn env False iter (initial_page_table env + 4 * of_nat ?i) (of_nat e) v s" and ?v = "vars_after iter p ?q v"
    have step: "pgd_loop env False iter ?i (of_nat e) v s = kbind ?turn (\<lambda>(v, s). pgd_loop env False iter (?i + 1) (of_nat e) v s)"
      using i ne by (subst pgd_loop.simps) (simp del: of_nat_add)
    have vq: "mv_pfn ?v = of_nat ?q" by (simp add: vars_after_def)
    have nxt: "pgd_loop env False iter (?i + 1) (of_nat e) ?v s1 = pgd_loop env False iter (768 + ?q div 1024) (of_nat e) ?v s1" for s1
    proof (cases "?q = e")
      case True
      then show ?thesis using vq by (simp add: pgd_loop_done)
    next
      case False
      then have "?q = 1024 * (p div 1024) + 1024" by simp
      then have "?q div 1024 = p div 1024 + 1" by simp
      then show ?thesis by simp
    qed
    from pmd_turn_spec [OF less.prems(1) p less.prems(3,4,5), of iter] show ?thesis
    proof (elim disjE exE conjE)
      assume "?turn = Inl Panic" "\<not> present (dir env (dm_mem s) ?i)"
      then show ?thesis using step p by (auto simp: tables_missing_def loop_ok_def)
    next
      fix s1 assume t: "?turn = Inr (v\<lparr>mv_pfn := of_nat ?q, mv_last := if iter = 1 then of_nat (4096 * ?q) else mv_last v,
          pages_4k := pages_4k v + of_nat (?q - p)\<rparr>, s1)" and mr: "maps_range env iter p ?q s s1"
        and mb: "present (dir env (dm_mem s) ?i) \<longrightarrow> dm_mb s1 = dm_mb s"
      have t: "?turn = Inr (?v, s1)" using t q(1) by (simp add: vars_after_def)
      have st: "pgd_loop env False iter ?i (of_nat e) v s = pgd_loop env False iter (768 + ?q div 1024) (of_nat e) ?v s1"
        unfolding step t kbind_Inr prod.case by (rule nxt)
      have b1: "buf_ok s1" using pmd_turn_total [OF b, of env False iter "initial_page_table env + 4 * of_nat ?i" "of_nat e" v] t
        by (auto simp del: of_nat_add)
      have pm: "present (pte_mask s1)" using mr less.prems(5) kept_fields(1) [of s s1] by (simp add: maps_range_def)
      show ?thesis unfolding st
      proof (rule loop_ok_step [OF mr _ q(2) less.prems(3)])
        show "p \<le> ?q" using q(1) by simp
        show "tables_missing env p e s \<or> dm_mb s1 = dm_mb s" using mb p by (auto simp: tables_missing_def)
        have "loop_ok env iter ?q e ?v s1 (pgd_loop env False iter (768 + ?q div 1024) (of_nat e) ?v s1)" if "\<not> no_room (dm_mb s1)"
          using less.hyps [OF q(3) _ q(2) less.prems(3) vq pm] mr that by (simp add: maps_range_def)
        then show "if no_room (dm_mb s1)
          then pgd_loop env False iter (768 + ?q div 1024) (of_nat e) ?v s1 = Inl Panic \<or>
            (\<exists>v' s'. pgd_loop env False iter (768 + ?q div 1024) (of_nat e) ?v s1 = Inr (v', s') \<and> kept s1 s' \<and> buf_ok s')
          else loop_ok env iter ?q e ?v s1 (pgd_loop env False iter (768 + ?q div 1024) (of_nat e) ?v s1)"
          using pgd_loop_total [OF b1, of env False iter "768 + ?q div 1024" "of_nat e" ?v] by (cases "no_room (dm_mb s1)") simp_all
      qed
    qed
  qed
qed

end
