(* ===== verification/Direct_Map_Boot.thy ===== *)
theory Direct_Map_Boot
  imports Direct_Map_Spec
begin

text \<open>
  The direct mapping at boot: \<^verbatim>\<open>kernel_physical_mapping_init\<close> maps its range in two passes, and \<^verbatim>\<open>init_mem_mapping\<close>, built on it,
  maps the page frames of low memory.  Every function either panics or returns with the mapping extended by a set of pages, and
  these sets add up as the functions are composed.
\<close>

section \<open>Extending the mapping by a set of pages\<close>

text \<open>When every table of the kernel's part is there, no page is needed: nothing panics and memblock is left alone.\<close>

definition stocked :: "boot_env \<Rightarrow> direct_map \<Rightarrow> bool" where
  "stocked env s \<longleftrightarrow> pt_inv env s \<and> present (pte_mask s) \<and> \<not> no_room (dm_mb s) \<and> (\<forall>i. 768 \<le> i \<and> i < 1024 \<longrightarrow> present (dir env (dm_mem s) i))"

definition mapped_pages :: "boot_env \<Rightarrow> nat set \<Rightarrow> direct_map \<Rightarrow> direct_map \<Rightarrow> bool" where
  "mapped_pages env A s s' \<longleftrightarrow> kept s s' \<and> buf_ok s' \<and> (stocked env s \<longrightarrow> dm_mb s' = dm_mb s) \<and>
     (pt_inv env s \<and> present (pte_mask s) \<and> \<not> no_room (dm_mb s') \<longrightarrow> pt_inv env s' \<and> dirs_kept env (dm_mem s) (dm_mem s') \<and>
        (\<forall>q < 2 ^ 18. lookup env (dm_mem s') q = (if q \<in> A then Some (pte_value env (pte_mask s) 2 q) else lookup env (dm_mem s) q)))"

definition mapping_ok :: "boot_env \<Rightarrow> nat set \<Rightarrow> direct_map \<Rightarrow> ('a \<Rightarrow> direct_map) \<Rightarrow> 'a kres \<Rightarrow> bool" where
  "mapping_ok env A s st r \<longleftrightarrow> (case r of Inl x \<Rightarrow> x = Panic \<and> \<not> stocked env s | Inr y \<Rightarrow> mapped_pages env A s (st y))"

lemma mapping_ok_simps [simp]:
  "mapping_ok env A s st (Inl x) \<longleftrightarrow> x = Panic \<and> \<not> stocked env s"
  "mapping_ok env A s st (Inr y) \<longleftrightarrow> mapped_pages env A s (st y)"
  by (simp_all add: mapping_ok_def)

lemma stocked_kept:
  assumes "stocked env s" "mapped_pages env A s t"
  shows "stocked env t" "dm_mb t = dm_mb s"
proof -
  show e: "dm_mb t = dm_mb s" using assms by (simp add: mapped_pages_def)
  have "pt_inv env s" "present (pte_mask s)" "\<not> no_room (dm_mb t)" using assms(1) e by (simp_all add: stocked_def)
  with assms have "pt_inv env t" "dirs_kept env (dm_mem s) (dm_mem t)" "pte_mask t = pte_mask s"
    using kept_fields(1) [of s t] by (simp_all add: mapped_pages_def)
  then show "stocked env t" using assms(1) \<open>\<not> no_room (dm_mb t)\<close> by (simp add: stocked_def dirs_kept_def)
qed

lemma mapped_pages_trans:
  assumes "mapped_pages env A s t" "mapped_pages env B t u"
  shows "mapped_pages env (A \<union> B) s u"
proof -
  have k: "kept s t" "kept t u" using assms by (simp_all add: mapped_pages_def)
  have "pt_inv env u \<and> dirs_kept env (dm_mem s) (dm_mem u) \<and> (\<forall>q < 2 ^ 18. lookup env (dm_mem u) q =
      (if q \<in> A \<union> B then Some (pte_value env (pte_mask s) 2 q) else lookup env (dm_mem s) q))"
    if "pt_inv env s" "present (pte_mask s)" and r: "\<not> no_room (dm_mb u)"
  proof -
    have r': "\<not> no_room (dm_mb t)" using r kept_fields(3) [OF k(2)] by blast
    have m: "pte_mask t = pte_mask s" using kept_fields(1) [OF k(1)] .
    then have "dirs_kept env (dm_mem s) (dm_mem u)" using assms that r' unfolding mapped_pages_def by (auto intro: dirs_kept_trans)
    then show ?thesis using assms that r' m unfolding mapped_pages_def by auto
  qed
  moreover have "dm_mb u = dm_mb s" if "stocked env s"
    using stocked_kept [OF that assms(1)] stocked_kept(2) [OF _ assms(2)] by simp
  ultimately show ?thesis using kept_trans [OF k] assms(2) by (simp add: mapped_pages_def)
qed

lemma mapping_ok_bind:
  assumes "mapping_ok env A s st r" "\<And>y. r = Inr y \<Longrightarrow> mapped_pages env A s (st y) \<Longrightarrow> buf_ok (st y) \<Longrightarrow> mapping_ok env B (st y) st' (f y)"
  shows "mapping_ok env (A \<union> B) s st' (kbind r f)"
proof (cases r)
  case (Inr y)
  have a: "mapped_pages env A s (st y)" using assms(1) Inr by simp
  then have "mapping_ok env B (st y) st' (f y)" using assms(2) [OF Inr] by (simp add: mapped_pages_def)
  then show ?thesis using Inr mapped_pages_trans [OF a] stocked_kept(1) [OF _ a] by (cases "f y") auto
qed (use assms(1) in simp)

text \<open>Fields that neither the page tables nor their pages depend on may change.\<close>

definition same_tables :: "direct_map \<Rightarrow> direct_map \<Rightarrow> bool" where
  "same_tables s t \<longleftrightarrow> dm_mem t = dm_mem s \<and> dm_mb t = dm_mb s \<and> pgt_buf_end t = pgt_buf_end s \<and> pgt_buf_top t = pgt_buf_top s \<and>
     pte_mask t = pte_mask s"

lemma same_tablesD:
  assumes "same_tables s t"
  shows "kept s t" "buf_ok t = buf_ok s" "pt_inv env t = pt_inv env s"
proof -
  have "avail t = avail s" "buf_ok t = buf_ok s" using assms by (simp_all add: same_tables_def avail_def buf_ok_def)
  then show "kept s t" "buf_ok t = buf_ok s" "pt_inv env t = pt_inv env s" using assms by (simp_all add: same_tables_def kept_def pt_inv_def)
qed

lemma same_tables_mapped: "same_tables s t \<Longrightarrow> buf_ok s \<Longrightarrow> mapped_pages env {} s t"
  using same_tablesD(1,2) [of s t] same_tablesD(3) [of s t env] by (simp add: mapped_pages_def dirs_kept_refl same_tables_def)

lemma same_tables_after: "mapped_pages env A s t \<Longrightarrow> same_tables t u \<Longrightarrow> mapped_pages env A s u"
  using mapped_pages_trans [of env A s t "{}" u] same_tables_mapped [of t u env] by (simp add: mapped_pages_def)

lemma same_tables_before:
  "same_tables s t \<Longrightarrow> buf_ok s \<Longrightarrow> mapping_ok env A t st r \<Longrightarrow> mapping_ok env A s st r"
  using mapped_pages_trans [of env "{}" s t A] same_tables_mapped [of s t env] stocked_kept(1) [of env s "{}" t] by (cases r) auto

section \<open>Two passes\<close>

lemma mapping_pass_maps:
  assumes "pt_inv env s" "present (pte_mask s)" "unat a \<le> unat b" "unat b \<le> 2 ^ 18"
  shows "loop_ok env iter (unat a) (unat b) \<lparr>mv_pfn = a, mv_last = l, pages_2m = 0, pages_4k = 0\<rparr> s (mapping_pass env False iter a b l s)"
proof (cases "unat a = 2 ^ 18")
  case True
  then have "a = b" "b = 2 ^ 18" using assms(3,4) by (simp_all add: word_unat_eq_iff)
  then show ?thesis using assms(1) by (simp add: mapping_pass_def pgd_loop_done loop_ok_def maps_range_empty vars_after_def pt_inv_def)
next
  case False
  then have "unat a < 2 ^ 18" using assms(3,4) by simp
  note pi = page_indices(2) [OF this]
  show ?thesis
    using pgd_loop_maps [OF assms(1,3,4) _ assms(2), of "\<lparr>mv_pfn = a, mv_last = l, pages_2m = 0, pages_4k = 0\<rparr>" iter] pi
    by (simp add: mapping_pass_def)
qed

lemma mapping_pass_total:
  assumes "buf_ok s"
  shows "mapping_pass env pse iter a b l s = Inl Panic \<or> (\<exists>v' s'. mapping_pass env pse iter a b l s = Inr (v', s') \<and> kept s s' \<and> buf_ok s')"
  unfolding mapping_pass_def by (rule pgd_loop_total [OF assms])

lemma maps_range_no_missing:
  assumes "maps_range env iter p e s s'" "\<not> no_room (dm_mb s')" "e \<le> 2 ^ 18"
  shows "\<not> tables_missing env p e s'"
proof
  assume "tables_missing env p e s'"
  then obtain q where q: "p \<le> q" "q < e" "\<not> present (dir env (dm_mem s') (768 + q div 1024))" by (auto simp: tables_missing_def)
  then have "lookup env (dm_mem s') q = None" by (simp add: lookup_def)
  then show False using assms q(1,2) by (simp add: maps_range_def)
qed

definition count_pages :: "map_vars \<Rightarrow> direct_map \<Rightarrow> direct_map" where
  "count_pages v s = s\<lparr>direct_page_counts := (direct_page_counts s)[2 := direct_page_counts s ! 2 + pages_2m v,
     1 := (direct_page_counts s)[2 := direct_page_counts s ! 2 + pages_2m v] ! 1 + pages_4k v]\<rparr>"

lemma kernel_physical_mapping_init_passes:
  "kernel_physical_mapping_init env start e 0 s =
     kbind (mapping_pass env False 1 (drop_bit PAGE_SHIFT start) (drop_bit PAGE_SHIFT e) e s) (\<lambda>(v, s).
     kbind (mapping_pass env False 2 (drop_bit PAGE_SHIFT start) (drop_bit PAGE_SHIFT e) (mv_last v) (count_pages v s)) (\<lambda>(v, s). Inr (mv_last v, s)))"
  by (simp add: kernel_physical_mapping_init_def PG_LEVEL_2M_def PG_LEVEL_4K_def PG_LEVEL_NUM_def update_page_count_def count_pages_def
      Let_def)

lemma same_tables_count: "same_tables s (count_pages v s)"
  by (simp add: same_tables_def count_pages_def)

lemma stocked_tables: "stocked env s \<Longrightarrow> e \<le> 2 ^ 18 \<Longrightarrow> \<not> tables_missing env p e s \<and> \<not> no_room (dm_mb s)"
  by (auto simp: stocked_def tables_missing_def)

lemma maps_range_twice:
  assumes "maps_range env 1 p e s s1" "same_tables s1 t" "maps_range env 2 p e t s'" "buf_ok s'" "stocked env s \<longrightarrow> dm_mb s' = dm_mb s"
  shows "mapped_pages env {p..<e} s s'"
proof -
  have k: "kept s s1" "kept s1 t" "kept t s'" using assms same_tablesD(1) by (auto simp: maps_range_def)
  have "pt_inv env s' \<and> dirs_kept env (dm_mem s) (dm_mem s') \<and> (\<forall>q < 2 ^ 18. lookup env (dm_mem s') q =
      (if q \<in> {p..<e} then Some (pte_value env (pte_mask s) 2 q) else lookup env (dm_mem s) q))" if r: "\<not> no_room (dm_mb s')"
  proof -
    have t: "dm_mem t = dm_mem s1" "dm_mb t = dm_mb s1" "pte_mask t = pte_mask s" using assms(2) kept_fields(1) [OF k(1)] by (simp_all add: same_tables_def)
    have r': "\<not> no_room (dm_mb s1)" using r t(2) kept_fields(3) [OF k(3)] by auto
    then have "dirs_kept env (dm_mem s) (dm_mem s')"
      using assms(1,3) r t unfolding maps_range_def by (auto intro: dirs_kept_trans)
    then show ?thesis using assms(1,3) r r' t unfolding maps_range_def by auto
  qed
  then show ?thesis using assms(4,5) kept_trans [OF kept_trans [OF k(1,2)] k(3)] by (simp add: mapped_pages_def)
qed

text \<open>One range: either a table is missing and no page can be had for it, or the range is mapped.\<close>

lemma kernel_physical_mapping_init_maps:
  assumes inv: "pt_inv env s" and msk: "present (pte_mask s)" and ab: "start \<le> e" "unat e \<le> 2 ^ 30"
  defines "p \<equiv> unat start div 4096" and "n \<equiv> unat e div 4096"
  shows "kernel_physical_mapping_init env start e 0 s = Inl Panic \<and> (no_room (dm_mb s) \<or> tables_missing env p n s) \<or>
    (\<exists>last s'. kernel_physical_mapping_init env start e 0 s = Inr (last, s') \<and> mapped_pages env {p..<n} s s' \<and>
       (no_room (dm_mb s') \<or> last = (if p < n then of_nat (4096 * n) else e)))"
proof -
  let ?a = "drop_bit PAGE_SHIFT start" and ?b = "drop_bit PAGE_SHIFT e"
  let ?v = "\<lambda>l. \<lparr>mv_pfn = ?a, mv_last = l, pages_2m = 0, pages_4k = 0\<rparr>"
  have u: "unat ?a = p" "unat ?b = n" by (simp_all add: unat_drop_bit PAGE_SHIFT_def p_def n_def)
  have pn: "p \<le> n" "n \<le> 2 ^ 18" using ab by (auto simp: p_def n_def word_le_nat_alt intro: div_le_mono)
  note pass = mapping_pass_maps [where a = ?a and b = ?b, unfolded u, OF _ _ pn]
  note kpm = kernel_physical_mapping_init_passes [of env start e s]
  show ?thesis
  proof (cases "mapping_pass env False 1 ?a ?b e s")
    case (Inl x)
    then show ?thesis using pass [OF inv msk, of 1 e] kpm by (simp add: loop_ok_def)
  next
    case (Inr y)
    obtain v1 s1 where y: "y = (v1, s1)" by (cases y)
    have one: "maps_range env 1 p n s s1" "buf_ok s1" "no_room (dm_mb s1) \<or> v1 = vars_after 1 p n (?v e)"
      "tables_missing env p n s \<or> no_room (dm_mb s) \<or> dm_mb s1 = dm_mb s" using pass [OF inv msk, of 1 e] Inr y by (simp_all add: loop_ok_def)
    let ?t = "count_pages v1 s1"
    note same = same_tables_count [of s1 v1]
    have t: "dm_mb ?t = dm_mb s1" "dm_mem ?t = dm_mem s1" "pte_mask ?t = pte_mask s" "buf_ok ?t"
      using same one kept_fields(1) [of s s1] same_tablesD(2) [OF same] by (simp_all add: same_tables_def maps_range_def)
    have kpm: "kernel_physical_mapping_init env start e 0 s = kbind (mapping_pass env False 2 ?a ?b (mv_last v1) ?t) (\<lambda>(v, s). Inr (mv_last v, s))"
      using kpm Inr y by simp
    show ?thesis
    proof (cases "no_room (dm_mb s1)")
      case True
      have tm: "tables_missing env p n s \<or> no_room (dm_mb s)" using one(4) True by auto
      then have "\<not> stocked env s" using stocked_tables [OF _ pn(2)] by blast
      then have "mapped_pages env {p..<n} s u" "no_room (dm_mb u)" if "kept ?t u" "buf_ok u" for u
        using that one(1) same_tablesD(1) [OF same] kept_fields(3) [OF that(1)] True t(1)
        by (auto simp: mapped_pages_def maps_range_def intro: kept_trans)
      then show ?thesis
        using tm mapping_pass_total [OF t(4), of env False 2 ?a ?b "mv_last v1"] kpm by (elim disjE exE conjE) auto
    next
      case False
      then have inv1: "pt_inv env ?t" using one(1) same_tablesD(3) [OF same, of env] by (simp add: maps_range_def)
      have nm: "\<not> tables_missing env p n ?t"
        using maps_range_no_missing [OF one(1) False pn(2)] t(2) by (simp add: tables_missing_def)
      have ok: "loop_ok env 2 p n (?v (mv_last v1)) ?t (mapping_pass env False 2 ?a ?b (mv_last v1) ?t)"
        using pass [OF inv1] msk t(3) by simp
      then obtain v2 s2 where two: "mapping_pass env False 2 ?a ?b (mv_last v1) ?t = Inr (v2, s2)"
        using nm False t(1) by (auto simp: loop_ok_def split: sum.splits)
      with ok have m2: "maps_range env 2 p n ?t s2" "buf_ok s2" "no_room (dm_mb s2) \<or> v2 = vars_after 2 p n (?v (mv_last v1))"
        by (simp_all add: loop_ok_def)
      have "dm_mb s2 = dm_mb s1" using ok two nm False t(1) by (simp add: loop_ok_def)
      then have "stocked env s \<longrightarrow> dm_mb s2 = dm_mb s" using one(4) stocked_tables [OF _ pn(2)] by auto
      then have "mapped_pages env {p..<n} s s2" using maps_range_twice [OF one(1) same m2(1,2)] by blast
      moreover have "no_room (dm_mb s2) \<or> mv_last v2 = (if p < n then of_nat (4096 * n) else e)"
        using m2(3) one(3) False by (auto simp: vars_after_def)
      ultimately show ?thesis using kpm two by auto
    qed
  qed
qed

lemma kernel_physical_mapping_init_ok:
  assumes "buf_ok s" "start \<le> e" "unat e \<le> 2 ^ 30"
  shows "mapping_ok env {unat start div 4096..<unat e div 4096} s snd (kernel_physical_mapping_init env start e 0 s)"
proof (cases "pt_inv env s \<and> present (pte_mask s)")
  case True
  have "unat e div 4096 \<le> 2 ^ 18" using assms(3) by simp
  then show ?thesis using True kernel_physical_mapping_init_maps [of env s start e] assms stocked_tables [of env s "unat e div 4096"] by auto
next
  case False
  have "mapped_pages env A s s'" if "kept s s'" "buf_ok s'" for s' A using False that by (auto simp: mapped_pages_def stocked_def)
  moreover have "kernel_physical_mapping_init env start e 0 s = Inl Panic \<or>
    (\<exists>last s'. kernel_physical_mapping_init env start e 0 s = Inr (last, s') \<and> kept s s' \<and> buf_ok s')"
    using mapping_pass_total [OF assms(1), of env False 1 "drop_bit PAGE_SHIFT start" "drop_bit PAGE_SHIFT e" e]
  proof (elim disjE exE conjE)
    fix v1 s1 assume one: "mapping_pass env False 1 (drop_bit PAGE_SHIFT start) (drop_bit PAGE_SHIFT e) e s = Inr (v1, s1)" "kept s s1" "buf_ok s1"
    note same = same_tables_count [of s1 v1]
    have "buf_ok (count_pages v1 s1)" using same_tablesD(2) [OF same] one(3) by simp
    from mapping_pass_total [OF this, of env False 2 "drop_bit PAGE_SHIFT start" "drop_bit PAGE_SHIFT e" "mv_last v1"] show ?thesis
      using one same_tablesD(1) [OF same] unfolding kernel_physical_mapping_init_passes by (elim disjE exE conjE) (auto intro: kept_trans)
  qed (simp add: kernel_physical_mapping_init_passes)
  ultimately show ?thesis using False by (auto simp: stocked_def)
qed

section \<open>Ranges of memory\<close>

lemma unat_PFN_DOWN: "unat (PFN_DOWN x) = unat x div 4096"
  by (simp add: PFN_DOWN_def PAGE_SHIFT_def unat_drop_bit)

lemma unat_PFN_UP: "unat x \<le> 2 ^ 30 \<Longrightarrow> unat (PFN_UP x) = (unat x + 4095) div 4096"
proof -
  assume "unat x \<le> 2 ^ 30"
  then have "unat (x + 4095) = unat x + 4095" by (subst unat_add_no_wrap) simp_all
  then show ?thesis by (simp add: PFN_UP_def PAGE_SHIFT_def PAGE_SIZE_def unat_drop_bit add.commute)
qed

lemma unat_page_addr: "unat p < 2 ^ 20 \<Longrightarrow> unat (push_bit PAGE_SHIFT p) = 4096 * unat p" for p :: ulong
  by (simp add: PAGE_SHIFT_def push_bit_eq_mult unat_word_ariths)

lemma init_memory_mapping_ok:
  assumes "buf_ok s" "start < e" "unat e \<le> 2 ^ 30"
  shows "mapping_ok env {unat start div 4096..<(unat e + 4095) div 4096} s snd (init_memory_mapping env start e s)"
proof -
  let ?a = "push_bit PAGE_SHIFT (PFN_DOWN start)" and ?b = "push_bit PAGE_SHIFT (PFN_UP e)"
  have se: "unat start < unat e" using assms(2) by (simp add: word_less_nat_alt)
  have "unat e + 4095 = unat e - 1 + 4096" using se by simp
  then have "(unat e + 4095) div 4096 = (unat e - 1) div 4096 + 1" by (simp only: div_add_self2)
  moreover have "unat start div 4096 \<le> (unat e - 1) div 4096" using se by (intro div_le_mono) simp
  ultimately have lt: "unat start div 4096 < (unat e + 4095) div 4096" by simp
  have b18: "(unat e + 4095) div 4096 \<le> 2 ^ 18" using assms(3) by simp
  note u = unat_PFN_DOWN [of start] unat_PFN_UP [OF assms(3)]
  have a: "unat ?a = 4096 * (unat start div 4096)" "unat ?b = 4096 * ((unat e + 4095) div 4096)"
    using lt b18 u by (simp_all add: unat_page_addr)
  have ab: "unat ?a div 4096 = unat start div 4096" "unat ?b div 4096 = (unat e + 4095) div 4096" "?a \<le> ?b" "unat ?b \<le> 2 ^ 30"
    unfolding word_le_nat_alt a using lt b18 by simp_all
  have "PFN_DOWN start < PFN_UP e" using lt u by (simp add: word_less_nat_alt)
  then have i: "init_memory_mapping env start e s = kbind (kernel_physical_mapping_init env ?a ?b 0 s) (\<lambda>(ret, s).
      Inr (drop_bit PAGE_SHIFT ret, add_pfn_range_mapped (drop_bit PAGE_SHIFT start) (drop_bit PAGE_SHIFT ret) s))"
    by (simp add: init_memory_mapping_def split_mem_range_def save_mr_def NR_MR_RANGE_def kbind_assoc case_prod_unfold eval_nat_numeral)
  note k = kernel_physical_mapping_init_ok [OF assms(1) ab(3,4), of env, unfolded ab(1,2)]
  have "mapped_pages env A s (add_pfn_range_mapped c d t)" if "mapped_pages env A s t" for A c d t
    using that by (rule same_tables_after) (simp add: same_tables_def add_pfn_range_mapped_def)
  with k show ?thesis unfolding i by (cases "kernel_physical_mapping_init env ?a ?b 0 s") (auto simp: case_prod_unfold)
qed

text \<open>The pages that a range of addresses touches.\<close>

definition touched :: "nat \<Rightarrow> nat \<Rightarrow> nat set" where
  "touched a b = {q. a < 4096 * q + 4096 \<and> 4096 * q < b}"

lemma touched_split: "a \<le> b \<Longrightarrow> b \<le> c \<Longrightarrow> touched a b \<union> touched b c = touched a c"
  by (auto simp: touched_def)

lemma touched_aligned: "touched (4096 * a) (4096 * b) = {a..<b}"
  by (auto simp: touched_def)

lemma clamped_pages:
  fixes sp ep a b :: nat
  assumes "sp < ep" "a < b"
  defines "lo \<equiv> min (max (4096 * sp) a) b" and "hi \<equiv> min (max (4096 * ep) a) b"
  shows "lo < hi \<Longrightarrow> {lo div 4096..<(hi + 4095) div 4096} = {sp..<ep} \<inter> touched a b"
    "\<not> lo < hi \<Longrightarrow> {sp..<ep} \<inter> touched a b = {}"
proof -
  have i: "q \<in> {lo div 4096..<(hi + 4095) div 4096} \<longleftrightarrow> lo < 4096 * q + 4096 \<and> 4096 * q < hi" for q
  proof -
    have "lo div 4096 \<le> q \<longleftrightarrow> lo < (q + 1) * 4096" using div_less_iff_less_mult [of 4096 lo "q + 1"] by (simp add: less_Suc_eq_le)
    moreover have "q < (hi + 4095) div 4096 \<longleftrightarrow> (q + 1) * 4096 \<le> hi + 4095" using less_eq_div_iff_mult_less_eq [of 4096 "q + 1" "hi + 4095"] by (simp add: Suc_le_eq)
    ultimately show ?thesis by auto
  qed
  have "lo < hi \<Longrightarrow> lo < 4096 * q + 4096 \<and> 4096 * q < hi \<longleftrightarrow> q \<in> {sp..<ep} \<inter> touched a b" for q
    using assms by (auto simp: touched_def lo_def hi_def min_def max_def split: if_splits)
  then show "lo < hi \<Longrightarrow> {lo div 4096..<(hi + 4095) div 4096} = {sp..<ep} \<inter> touched a b" using i by blast
  show "\<not> lo < hi \<Longrightarrow> {sp..<ep} \<inter> touched a b = {}"
    using assms by (auto simp: touched_def lo_def hi_def min_def max_def split: if_splits)
qed

lemma range_mapping_loop_ok:
  assumes "buf_ok s" "a < b" "unat b \<le> 2 ^ 30" "\<forall>(p, e, n) \<in> set rs. p < e \<and> unat e < 2 ^ 20"
  shows "mapping_ok env ((\<Union>(p, e, n) \<in> set rs. {unat p..<unat e}) \<inter> touched (unat a) (unat b)) s snd (range_mapping_loop env a b rs ram s)"
  using assms(1,4)
proof (induction rs arbitrary: ram s)
  case Nil
  then show ?case using same_tables_mapped [of s s env] by (simp add: same_tables_def)
next
  case (Cons r rs)
  obtain p e n where r: "r = (p, e, n)" by (cases r)
  have pe: "p < e" "unat e < 2 ^ 20" "unat p < unat e" using Cons.prems(2) r by (auto simp: word_less_nat_alt)
  have IH: "\<And>ram s. buf_ok s \<Longrightarrow> mapping_ok env ((\<Union>(p, e, n) \<in> set rs. {unat p..<unat e}) \<inter> touched (unat a) (unat b)) s snd (range_mapping_loop env a b rs ram s)"
    using Cons.IH Cons.prems(2) by simp
  let ?lo = "clamp (PFN_PHYS p) a b" and ?hi = "clamp (PFN_PHYS e) a b"
  have u: "unat ?lo = min (max (4096 * unat p) (unat a)) (unat b)" "unat ?hi = min (max (4096 * unat e) (unat a)) (unat b)"
    using pe by (simp_all add: unat_clamp PFN_PHYS_def unat_page_addr)
  have ab: "unat a < unat b" using assms(2) by (simp add: word_less_nat_alt)
  note cp = clamped_pages [OF pe(3) ab, folded u]
  show ?case
  proof (cases "?lo < ?hi")
    case False
    then have "{unat p..<unat e} \<inter> touched (unat a) (unat b) = {}" using cp(2) by (simp add: word_less_nat_alt)
    then show ?thesis using False IH [OF Cons.prems(1)] by (simp add: r Let_def not_less Int_Un_distrib2)
  next
    case True
    then have A: "{unat ?lo div 4096..<(unat ?hi + 4095) div 4096} = {unat p..<unat e} \<inter> touched (unat a) (unat b)"
      using cp(1) by (simp add: word_less_nat_alt)
    have h: "unat ?hi \<le> 2 ^ 30" using u(2) assms(3) by simp
    define t where "t = s\<lparr>can_use_brk_pgt :=
       c_max (ucast ?lo :: u64) (push_bit PAGE_SHIFT (ucast (pgt_buf_end s))) \<ge> c_min (ucast ?hi) (push_bit PAGE_SHIFT (ucast (pgt_buf_top s)))\<rparr>"
    have st: "same_tables s t" by (simp add: same_tables_def t_def)
    have bt: "buf_ok t" using same_tablesD(2) [OF st] Cons.prems(1) by simp
    have step: "range_mapping_loop env a b (r # rs) ram s = kbind (init_memory_mapping env ?lo ?hi t) (\<lambda>(_, s).
        range_mapping_loop env a b rs (ram + (?hi - ?lo)) (s\<lparr>can_use_brk_pgt := True\<rparr>))"
    proof -
      have "\<not> ?hi \<le> ?lo" using True by simp
      then show ?thesis by (simp only: r range_mapping_loop.simps Let_def t_def if_False)
    qed
    have "mapping_ok env ({unat p..<unat e} \<inter> touched (unat a) (unat b) \<union> (\<Union>(p, e, n) \<in> set rs. {unat p..<unat e}) \<inter> touched (unat a) (unat b))
        t snd (range_mapping_loop env a b (r # rs) ram s)"
      unfolding step
    proof (rule mapping_ok_bind [OF init_memory_mapping_ok [OF bt True h, of env, unfolded A]])
      fix y assume b: "buf_ok (snd y)"
      have sy: "same_tables (snd y) ((snd y)\<lparr>can_use_brk_pgt := True\<rparr>)" by (simp add: same_tables_def)
      have "buf_ok ((snd y)\<lparr>can_use_brk_pgt := True\<rparr>)" using same_tablesD(2) [OF sy] b by simp
      from same_tables_before [OF sy b IH [OF this]]
      show "mapping_ok env ((\<Union>(p, e, n) \<in> set rs. {unat p..<unat e}) \<inter> touched (unat a) (unat b)) (snd y) snd
          (case y of (_, s) \<Rightarrow> range_mapping_loop env a b rs (ram + (?hi - ?lo)) (s\<lparr>can_use_brk_pgt := True\<rparr>))"
        by (cases y) (simp only: snd_conv prod.case)
    qed
    then show ?thesis using same_tables_before [OF st Cons.prems(1)] by (simp add: r Int_Un_distrib2)
  qed
qed

lemma init_range_memory_mapping_ok:
  assumes "buf_ok s" "pages_ok (mb_memory (dm_mb s))" "a < b" "unat b \<le> 2 ^ 30"
  shows "mapping_ok env (page_frames MAX_NR_NODES (mb_memory (dm_mb s)) \<inter> touched (unat a) (unat b)) s snd (init_range_memory_mapping env a b s)"
proof -
  let ?t = "mb_memory (dm_mb s)"
  let ?rs = "filter whole_pages (node_regs MAX_NR_NODES ?t)"
  note nr = node_regs_wf [OF assms(2), of MAX_NR_NODES]
  have sh: "shape_wf ?t" using assms(2) by (simp add: pages_ok_def)
  have reg: "region_ok r" "below_last_page r" if "r \<in> set (node_regs MAX_NR_NODES ?t)" for r
    using nr that by (auto simp: list_all_iff intro: regs_wf_ok)
  have "unat (PFN_DOWN (mr_base r + mr_size r)) < 2 ^ 20" if "r \<in> set ?rs" for r
    using unat_PFN_DOWN [of "mr_base r + mr_size r"] unat_lt32 [of "mr_base r + mr_size r"] by simp
  then have ok: "\<forall>(p, e, n) \<in> set (map pfn_range ?rs). p < e \<and> unat e < 2 ^ 20" by (auto simp: pfn_range_def whole_pages_def)
  have "(\<Union>(p, e, n) \<in> set (map pfn_range ?rs). {unat p..<unat e}) = (\<Union>r \<in> set ?rs. frames r)"
    using reg by (auto simp: pfn_range_def frames_interval)
  also have "\<dots> = page_frames MAX_NR_NODES ?t"
  proof -
    have "whole_pages r" if "r \<in> set (node_regs MAX_NR_NODES ?t)" "q \<in> frames r" for r q
      using frames_empty [OF reg [OF that(1)]] that(2) by blast
    then show ?thesis by (auto simp: page_frames_def)
  qed
  finally show ?thesis
    using range_mapping_loop_ok [OF assms(1,3,4) ok, of env 0] by (simp add: init_range_memory_mapping_def mem_pfn_ranges_node [OF sh])
qed

section \<open>Top down\<close>

text \<open>The memory below a step and above it make up the memory of both.\<close>

lemma top_down_loop_ok:
  assumes "buf_ok s" "pages_ok (mb_memory (dm_mb s))" "unat b \<le> 2 ^ 30" "a < b"
  shows "mapping_ok env (page_frames MAX_NR_NODES (mb_memory (dm_mb s)) \<inter> touched (unat a) (unat b)) s id (top_down_loop env a b step ram s)"
  using assms
proof (induction "unat b" arbitrary: b step ram s rule: less_induct)
  case less
  let ?c = "step_down a b step" and ?F = "page_frames MAX_NR_NODES (mb_memory (dm_mb s))"
  have c: "?c < b" "a \<le> ?c" using step_down_less [OF less.prems(4)] by (auto simp: step_down_def Let_def)
  show ?case
  proof -
    let ?f = "\<lambda>(n, s). let ram = ram + n; s = s\<lparr>min_pfn_mapped := drop_bit PAGE_SHIFT ?c\<rparr>;
        step = (if ram \<ge> step then get_new_step_size step else step) in top_down_loop env a ?c step ram s"
    have eq: "top_down_loop env a b step ram s = kbind (init_range_memory_mapping env ?c b s) ?f"
      using less.prems(4) by (subst top_down_loop.simps) (simp only: if_True Let_def)
    have "mapping_ok env (?F \<inter> touched (unat ?c) (unat b) \<union> (if a < ?c then ?F \<inter> touched (unat a) (unat ?c) else {})) s id
        (kbind (init_range_memory_mapping env ?c b s) ?f)"
    proof (rule mapping_ok_bind [OF init_range_memory_mapping_ok [OF less.prems(1,2) c(1) less.prems(3)]])
      fix y :: "ulong \<times> direct_map" assume m: "mapped_pages env (?F \<inter> touched (unat ?c) (unat b)) s (snd y)" and b: "buf_ok (snd y)"
      obtain n :: ulong and t where y: "y = (n, t)" by (cases y)
      let ?t = "t\<lparr>min_pfn_mapped := drop_bit PAGE_SHIFT ?c\<rparr>"
      have st: "same_tables t ?t" by (simp add: same_tables_def)
      have F: "mb_memory (dm_mb ?t) = mb_memory (dm_mb s)" using m kept_fields(2) [of s t] y by (simp add: mapped_pages_def)
      have bt: "buf_ok ?t" using same_tablesD(2) [OF st] b y by simp
      let ?st = "if ram + n \<ge> step then get_new_step_size step else step"
      have "mapping_ok env (if a < ?c then ?F \<inter> touched (unat a) (unat ?c) else {}) ?t id (top_down_loop env a ?c ?st (ram + n) ?t)"
      proof (cases "a < ?c")
        case True
        have "unat ?c < unat b" using c(1) by (simp add: word_less_nat_alt)
        with less.hyps [OF this bt, of ?st "ram + n"] True F less.prems(2,3) show ?thesis by simp
      next
        case False
        then have "top_down_loop env a ?c ?st (ram + n) ?t = Inr ?t" by (subst top_down_loop.simps) simp
        then show ?thesis using False same_tables_mapped [of ?t ?t env] bt by (simp add: same_tables_def)
      qed
      then show "mapping_ok env (if a < ?c then ?F \<inter> touched (unat a) (unat ?c) else {}) (snd y) id (?f y)"
        using same_tables_before [OF st] b unfolding y Let_def prod.case snd_conv by blast
    qed
    moreover have "?F \<inter> touched (unat ?c) (unat b) \<union> (if a < ?c then ?F \<inter> touched (unat a) (unat ?c) else {}) = ?F \<inter> touched (unat a) (unat b)"
    proof (cases "a < ?c")
      case True
      then have "touched (unat a) (unat ?c) \<union> touched (unat ?c) (unat b) = touched (unat a) (unat b)"
        using c by (intro touched_split) (simp_all add: word_le_nat_alt word_less_nat_alt)
      then show ?thesis using True by auto
    next
      case False
      then show ?thesis using c(2) by simp
    qed
    ultimately show ?thesis using eq by simp
  qed
qed

lemma find_large:
  assumes "mb_wf mb" "lo \<le> hi" "2 ^ 22 \<le> unat hi"
  obtains addr where "memblock_find_in_range ke mb lo hi PMD_SIZE PMD_SIZE = Inr addr" "unat addr + 2 ^ 22 \<le> unat hi" "addr = 0 \<or> unat lo \<le> unat addr"
proof -
  let ?S = "search_set mb PMD_SIZE 22 lo hi NUMA_NO_NODE 0"
  have sh: "shape_wf (mb_memory mb)" "shape_wf (mb_reserved mb)" using assms(1) by (simp_all add: mb_wf_def)
  have f: "memblock_find_in_range ke mb lo hi PMD_SIZE PMD_SIZE =
      kbind (memblock_find_in_range_node ke mb PMD_SIZE (2 ^ 22) lo hi NUMA_NO_NODE 0) Inr"
    by (simp add: memblock_find_in_range_def Let_def PMD_SIZE_def PMD_SHIFT_def PGDIR_SHIFT_def)
  have "best_of ?S (memblock_find_in_range_node ke mb PMD_SIZE (2 ^ 22) lo hi NUMA_NO_NODE 0)"
    by (rule find_in_range_node_best [OF sh mb_wf_small [OF assms(1)]]) (simp add: PMD_SIZE_def PMD_SHIFT_def PGDIR_SHIFT_def)
  then obtain addr where a: "memblock_find_in_range ke mb lo hi PMD_SIZE PMD_SIZE = Inr addr" "addr = 0 \<or> unat addr \<in> ?S"
    unfolding f by (auto dest!: best_ofD split: if_splits)
  have "hi \<noteq> MEMBLOCK_ALLOC_ACCESSIBLE" using assms(3) by (auto simp: MEMBLOCK_ALLOC_ACCESSIBLE_def)
  then have "unat (search_end mb lo hi) = unat hi" using assms(2,3) by (auto simp: search_end_def unat_c_max word_le_nat_alt PAGE_SIZE_def)
  then have "unat addr + 2 ^ 22 \<le> unat hi" "addr = 0 \<or> unat lo \<le> unat addr"
    using a(2) assms(3) by (auto simp: search_set_def PMD_SIZE_def PMD_SHIFT_def PGDIR_SHIFT_def unat_c_max)
  with a(1) show ?thesis by (rule that)
qed

text \<open>
  All of the range is mapped, whether or not a free block of 4 MiB was found to begin with; a range that begins within the first
  4 MiB is not skipped when none was.
\<close>

lemma memory_map_top_down_ok:
  assumes "buf_ok s" "pages_ok (mb_memory (dm_mb s))" "unat b \<le> 2 ^ 30" "unat a < 2 ^ 22" "2 ^ 22 \<le> unat b"
  shows "mapping_ok env (page_frames MAX_NR_NODES (mb_memory (dm_mb s)) \<inter> touched (unat a) (unat b)) s id (memory_map_top_down env a b s)"
proof -
  let ?F = "page_frames MAX_NR_NODES (mb_memory (dm_mb s))"
  have wf: "mb_wf (dm_mb s)" using assms(1) by (simp add: buf_ok_def)
  have "a \<le> b" using assms(4,5) by (simp add: word_le_nat_alt)
  from find_large [OF wf this assms(5), where ke = "kend env"] obtain addr where
    f: "memblock_find_in_range (kend env) (dm_mb s) a b PMD_SIZE PMD_SIZE = Inr addr" "unat addr + 2 ^ 22 \<le> unat b" "addr = 0 \<or> unat a \<le> unat addr"
    by metis
  let ?r = "addr + PMD_SIZE" let ?t = "s\<lparr>max_pfn_mapped := 0, min_pfn_mapped := drop_bit PAGE_SHIFT ?r\<rparr>"
  have r: "unat ?r = unat addr + 2 ^ 22" using f(2) assms(3)
    by (subst unat_add_no_wrap) (simp_all add: PMD_SIZE_def PMD_SHIFT_def PGDIR_SHIFT_def)
  then have rb: "a < ?r" "unat ?r \<le> unat b" "unat ?r \<le> 2 ^ 30" using f(2,3) assms(3,4) by (auto simp: word_less_nat_alt)
  have st: "same_tables s ?t" by (simp add: same_tables_def)
  have bt: "buf_ok ?t" using same_tablesD(2) [OF st] assms(1) by simp
  let ?g = "\<lambda>s. if ?r < b then kbind (init_range_memory_mapping env ?r b s) (\<lambda>(_, s). Inr s) else Inr s"
  have "mapping_ok env (?F \<inter> touched (unat a) (unat ?r) \<union> (if ?r < b then ?F \<inter> touched (unat ?r) (unat b) else {})) ?t id
      (kbind (top_down_loop env a ?r PMD_SIZE 0 ?t) ?g)"
  proof (rule mapping_ok_bind)
    show "mapping_ok env (?F \<inter> touched (unat a) (unat ?r)) ?t id (top_down_loop env a ?r PMD_SIZE 0 ?t)"
      using top_down_loop_ok [OF bt _ rb(3,1)] assms(2) by simp
    fix y assume m: "mapped_pages env (?F \<inter> touched (unat a) (unat ?r)) ?t (id y)" and b: "buf_ok (id y)"
    have F: "mb_memory (dm_mb y) = mb_memory (dm_mb s)" using m kept_fields(2) [of ?t y] by (simp add: mapped_pages_def)
    show "mapping_ok env (if ?r < b then ?F \<inter> touched (unat ?r) (unat b) else {}) (id y) id (?g y)"
    proof (cases "?r < b")
      case True
      have "mapping_ok env (?F \<inter> touched (unat ?r) (unat b)) y snd (init_range_memory_mapping env ?r b y)"
        using init_range_memory_mapping_ok [OF _ _ True assms(3), of y env] b F assms(2) by simp
      then show ?thesis using True by (cases "init_range_memory_mapping env ?r b y") (auto simp: case_prod_unfold)
    next
      case False
      then show ?thesis using same_tables_mapped [of y y env] b by (simp add: same_tables_def)
    qed
  qed
  moreover have "?F \<inter> touched (unat a) (unat ?r) \<union> (if ?r < b then ?F \<inter> touched (unat ?r) (unat b) else {}) = ?F \<inter> touched (unat a) (unat b)"
  proof (cases "?r < b")
    case True
    then show ?thesis using touched_split [of "unat a" "unat ?r" "unat b"] rb by (auto simp: word_less_nat_alt)
  next
    case False
    then have "unat ?r = unat b" using rb(2) by (simp add: word_less_nat_alt)
    then show ?thesis using False by simp
  qed
  ultimately have "mapping_ok env (?F \<inter> touched (unat a) (unat b)) ?t id (memory_map_top_down env a b s)"
    unfolding memory_map_top_down_def f(1) kbind_Inr Let_def by simp
  then show ?thesis by (rule same_tables_before [OF st assms(1)])
qed

section \<open>The table of the fixed addresses\<close>

lemma fixmap_table:
  "fix_to_virt (end_of_fixed_addresses - 1) AND PMD_MASK = 0xFFC00000" "(FIXADDR_TOP + PMD_SIZE - 1) AND PMD_MASK = 0"
  "pmd_idx_kmap_begin = 1023" "pmd_idx_kmap_end = 1023" "pgd_index 0xFFC00000 = 1023" "\<not> 0xFFC00000 > fix_to_virt FIX_KMAP_END"
  by code_simp+

lemma one_page_table_init_ok:
  assumes "buf_ok s" "768 \<le> i" "i < 1024"
  shows "mapping_ok env {} s snd (one_page_table_init env (initial_page_table env + 4 * of_nat i) s)"
proof (cases "pt_inv env s")
  case False
  then show ?thesis using one_page_table_init_total [OF assms(1), of env "initial_page_table env + 4 * of_nat i"]
    by (auto simp: mapped_pages_def stocked_def)
next
  case inv: True
  then have "env_ok env" by (simp add: pt_inv_def)
  note da = dir_addr [OF this, of i]
  have t: "buf_ok s'" if "one_page_table_init env (slot_addr (dir_frame env) i) s = Inr (x, s')" for x s'
    using one_page_table_init_total [OF assms(1), of env "slot_addr (dir_frame env) i"] that by auto
  from one_page_table_init_spec [OF inv assms(2,3)] show ?thesis unfolding da
  proof (elim disjE exE conjE)
    assume "one_page_table_init env (slot_addr (dir_frame env) i) s = Inl Panic" "\<not> present (dir env (dm_mem s) i)"
    then show "mapping_ok env {} s snd (one_page_table_init env (slot_addr (dir_frame env) i) s)" using assms(2,3) by (auto simp: stocked_def)
  next
    fix s' assume o: "one_page_table_init env (slot_addr (dir_frame env) i) s = Inr (slot_addr (frame_of (dir env (dm_mem s') i)) 0, s')"
      "kept s s'" "present (dir env (dm_mem s) i) \<longrightarrow> dm_mb s' = dm_mb s"
      "\<not> no_room (dm_mb s) \<longrightarrow> pt_inv env s' \<and> present (dir env (dm_mem s') i) \<and> (\<forall>q < 2 ^ 18. lookup env (dm_mem s') q = lookup env (dm_mem s) q) \<and>
          dirs_kept env (dm_mem s) (dm_mem s')"
    then show "mapping_ok env {} s snd (one_page_table_init env (slot_addr (dir_frame env) i) s)"
      using t [OF o(1)] kept_fields(3) [OF o(2)] assms(2,3) by (auto simp: mapped_pages_def stocked_def)
  qed
qed

text \<open>A range of 4 MiB below one directory entry; the fixed addresses and the permanent kmap area are such ranges.\<close>

lemma range_init_one:
  assumes "pgd_index v = i" "i < 1024" "\<not> v > fix_to_virt FIX_KMAP_END" "v + PMD_SIZE = e"
  shows "page_table_range_init env v e s = kbind (one_page_table_init env (initial_page_table env + 4 * of_nat i) s) (\<lambda>(_, s). Inr s)"
proof -
  have check: "page_table_kmap_check p pmd v l adr t = Inr (p, adr, t)" for p pmd l adr t
    using fixmap_table(3,4) assms(3) by (simp add: page_table_kmap_check_def Let_def)
  have "v \<noteq> e" using assms(4) by (auto simp: PMD_SIZE_def PMD_SHIFT_def PGDIR_SHIFT_def)
  moreover have "range_init_loop env (i + 1) e e p adr t = Inr t" for p adr t by (subst range_init_loop.simps) simp
  ultimately have "range_init_loop env i v e p adr t = kbind (one_page_table_init env (initial_page_table env + 4 * of_nat i) t) (\<lambda>(_, s). Inr s)" for p adr t
    using assms(2,4) by (subst range_init_loop.simps) (simp add: PTRS_PER_PGD_def Let_def check case_prod_unfold)
  then show ?thesis
    using fixmap_table(3,4) assms(1) by (simp add: page_table_range_init_def Let_def page_table_range_init_count_def case_prod_unfold)
qed

lemma page_table_range_init_ok:
  assumes "buf_ok s"
  shows "mapping_ok env {} s fst (early_ioremap_page_table_range_init env s ior)"
proof -
  let ?one = "one_page_table_init env (initial_page_table env + 4 * of_nat 1023) s"
  have "0xFFC00000 + PMD_SIZE = 0" by (simp add: PMD_SIZE_def PMD_SHIFT_def PGDIR_SHIFT_def)
  from range_init_one [OF fixmap_table(5) _ fixmap_table(6) this, of env s]
  have "early_ioremap_page_table_range_init env s ior = kbind ?one (\<lambda>(_, s). Inr (s, early_ioremap_reset ior))"
    using fixmap_table(1,2) by (simp add: early_ioremap_page_table_range_init_def Let_def kbind_assoc case_prod_unfold)
  moreover have "mapping_ok env {} s snd ?one" using one_page_table_init_ok [OF assms, of 1023 env] by simp
  ultimately show ?thesis by (cases ?one) (auto simp: case_prod_unfold)
qed

section \<open>The whole mapping\<close>

lemma probe_page_size_mask_keeps:
  assumes "present (pte_mask s)"
  shows "present (pte_mask (probe_page_size_mask env s))"
proof -
  have "present x \<longleftrightarrow> bit x 0" for x by (simp add: present_def PAGE_PRESENT_def bit_0 and_one_eq mod_2_eq_odd)
  then show ?thesis using assms by (simp add: probe_page_size_mask_def Let_def bit_or_iff bit_and_iff bit_not_iff PAGE_GLOBAL_def bit_push_bit_iff)
qed

lemma probe_page_size_mask_same:
  "dm_mem (probe_page_size_mask env s) = dm_mem s" "dm_mb (probe_page_size_mask env s) = dm_mb s"
  "buf_ok (probe_page_size_mask env s) = buf_ok s" "pt_inv env (probe_page_size_mask env s) = pt_inv env s"
  by (simp_all add: probe_page_size_mask_def Let_def buf_ok_def pt_inv_def avail_def)

lemma low_pfn_bound: "unat (snd (find_low_pfn_range max_pfn)) < 2 ^ 18"
proof -
  have "MAXMEM_PFN = 0x377FE" by code_simp
  then have "snd (find_low_pfn_range max_pfn) \<le> 0x377FE" by (simp add: find_low_pfn_range_def)
  then show ?thesis by (simp add: word_le_nat_alt)
qed

lemma init_mem_mapping_ok:
  fixes env :: boot_env
  assumes "buf_ok s" "pages_ok (mb_memory (dm_mb s))" "1024 \<le> unat max_low" "unat max_low < 2 ^ 18"
  defines "s0 \<equiv> probe_page_size_mask env s"
  shows "mapping_ok env ({..<256} \<union> page_frames MAX_NR_NODES (mb_memory (dm_mb s)) \<inter> {..<unat max_low}) s0 fst (init_mem_mapping env max_low s ior)"
proof -
  let ?F = "page_frames MAX_NR_NODES (mb_memory (dm_mb s))" and ?e = "push_bit PAGE_SHIFT max_low"
  have ue: "unat ?e = 4096 * unat max_low" using assms(4) by (intro unat_page_addr) simp
  have isa: "unat ISA_END_ADDRESS = 4096 * 256" by (simp add: ISA_END_ADDRESS_def)
  have b0: "buf_ok s0" using assms(1) by (simp add: s0_def probe_page_size_mask_same)
  have eq: "init_mem_mapping env max_low s ior = kbind (init_memory_mapping env 0 ISA_END_ADDRESS s0) (\<lambda>(_, s).
      kbind (memory_map_top_down env ISA_END_ADDRESS ?e s) (\<lambda>s. early_ioremap_page_table_range_init env s ior))"
    by (simp add: init_mem_mapping_def memblock_bottom_up_def s0_def Let_def)
  have "mapping_ok env ({..<256} \<union> (?F \<inter> {256..<unat max_low} \<union> {})) s0 fst (init_mem_mapping env max_low s ior)" unfolding eq
  proof (rule mapping_ok_bind [where st = snd])
    show "mapping_ok env {..<256} s0 snd (init_memory_mapping env 0 ISA_END_ADDRESS s0)"
      using init_memory_mapping_ok [OF b0, of 0 ISA_END_ADDRESS env] isa by (simp add: ISA_END_ADDRESS_def lessThan_atLeast0)
    fix y assume m: "mapped_pages env {..<256} s0 (snd y)" and b: "buf_ok (snd y)"
    have F: "mb_memory (dm_mb (snd y)) = mb_memory (dm_mb s)"
      using m kept_fields(2) [of s0 "snd y"] by (simp add: mapped_pages_def s0_def probe_page_size_mask_same)
    have "mapping_ok env (?F \<inter> touched (unat ISA_END_ADDRESS) (unat ?e)) (snd y) id (memory_map_top_down env ISA_END_ADDRESS ?e (snd y))"
      using memory_map_top_down_ok [OF b, of ?e ISA_END_ADDRESS env] F assms(2-4) isa ue by simp
    then have "mapping_ok env (?F \<inter> {256..<unat max_low}) (snd y) id (memory_map_top_down env ISA_END_ADDRESS ?e (snd y))"
      by (simp only: isa ue touched_aligned)
    then have "mapping_ok env (?F \<inter> {256..<unat max_low} \<union> {}) (snd y) fst
      (kbind (memory_map_top_down env ISA_END_ADDRESS ?e (snd y)) (\<lambda>s. early_ioremap_page_table_range_init env s ior))"
      by (rule mapping_ok_bind) (simp add: page_table_range_init_ok)
    then show "mapping_ok env (?F \<inter> {256..<unat max_low} \<union> {}) (snd y) fst
      (case y of (_, s) \<Rightarrow> kbind (memory_map_top_down env ISA_END_ADDRESS ?e s) (\<lambda>s. early_ioremap_page_table_range_init env s ior))"
      by (simp add: case_prod_unfold)
  qed
  moreover have "{..<256} \<union> (?F \<inter> {256..<unat max_low} \<union> {}) = {..<256} \<union> ?F \<inter> {..<unat max_low}" by auto
  ultimately show ?thesis by simp
qed

section \<open>Translation\<close>

text \<open>The address the processor reaches through the page directory.\<close>

definition page_walk :: "boot_env \<Rightarrow> mem \<Rightarrow> ulong \<Rightarrow> ulong option" where
  "page_walk env m va =
     (let e = load32 m (initial_page_table env + 4 * of_nat (pgd_index va)) in
      if e AND PAGE_PRESENT = 0 then None
      else if e AND PAGE_PSE \<noteq> 0 then Some ((e AND PHYSICAL_PMD_PAGE_MASK) OR (va AND NOT PMD_MASK))
      else
        (let p = load32 m (phys_to_virt (e AND PTE_PFN_MASK) + 4 * of_nat (pte_index va)) in
         if p AND PAGE_PRESENT = 0 then None else Some ((p AND PTE_PFN_MASK) OR offset_in_page va)))"

lemma direct_address:
  assumes "unat pa < 2 ^ 30"
  shows "pgd_index (phys_to_virt pa) = 768 + unat pa div 4096 div 1024" "pte_index (phys_to_virt pa) = unat pa div 4096 mod 1024"
    "offset_in_page (phys_to_virt pa) = offset_in_page pa"
proof -
  have u: "unat (phys_to_virt pa) = unat pa + 0xC0000000" unfolding phys_to_virt_def PAGE_OFFSET_def
    using assms by (subst unat_add_no_wrap) simp_all
  let ?x = "phys_to_virt pa"
  have "drop_bit PGDIR_SHIFT ?x AND (of_nat PTRS_PER_PGD - 1) = take_bit 10 (drop_bit 22 ?x)"
    by (simp add: PTRS_PER_PGD_def PGDIR_SHIFT_def take_bit_eq_mask mask_numeral)
  then have "pgd_index ?x = unat ?x div 4194304 mod 1024" unfolding pgd_index_def by (simp only: unat_take_bit unat_drop_bit) simp
  also have "unat ?x div 4194304 = (unat pa + 768 * 4194304) div 4194304" unfolding u by simp
  also have "\<dots> = 768 + unat pa div 4194304" by simp
  also have "unat pa div 4194304 = unat pa div 4096 div 1024" by (simp add: div_mult2_eq [symmetric])
  finally show "pgd_index ?x = 768 + unat pa div 4096 div 1024" using assms by simp
  have "unat pa + 0xC0000000 = unat pa + (768 * 1024) * 4096" by simp
  then have "unat ?x div 4096 = unat pa div 4096 + 768 * 1024" "unat ?x mod 4096 = unat pa mod 4096" by (simp_all only: u div_mult_self1 mod_mult_self1)
  then show "pte_index ?x = unat pa div 4096 mod 1024" "offset_in_page ?x = offset_in_page pa"
    by (simp_all only: pte_index_nat mod_mult_self1 word_unat_eq_iff unat_offset_in_page)
qed

lemma page_walk_tables:
  assumes eo: "env_ok env" and T: "tables_ok env m A" and pa: "unat pa < 2 ^ 30"
  shows "page_walk env m (phys_to_virt pa) = map_option (\<lambda>e. (e AND PTE_PFN_MASK) OR offset_in_page pa) (lookup env m (unat pa div 4096))"
proof -
  let ?m = m and ?q = "unat pa div 4096"
  let ?i = "768 + ?q div 1024"
  have i: "768 \<le> ?i" "?i < 1024" using pa by simp_all
  note ad = direct_address [OF pa]
  have e: "load32 ?m (initial_page_table env + 4 * of_nat (pgd_index (phys_to_virt pa))) = dir env ?m ?i"
    unfolding ad dir_addr [OF eo] by (simp add: dir_def entry_def)
  have "load32 ?m (phys_to_virt (dir env ?m ?i AND PTE_PFN_MASK) + 4 * of_nat (?q mod 1024)) = entry ?m (frame_of (dir env ?m ?i)) (?q mod 1024)"
    and "dir env ?m ?i AND PAGE_PSE = 0" if p: "present (dir env ?m ?i)"
  proof -
    show pse: "dir env ?m ?i AND PAGE_PSE = 0" by (rule tables_okD(1) [OF T i p])
    have "phys_to_virt (dir env ?m ?i AND PTE_PFN_MASK) = slot_addr (frame_of (dir env ?m ?i)) 0"
      using table_slot [OF pse] pse by (simp add: pmd_page_vaddr_def pmd_pfn_mask_def)
    then show "load32 ?m (phys_to_virt (dir env ?m ?i AND PTE_PFN_MASK) + 4 * of_nat (?q mod 1024)) = entry ?m (frame_of (dir env ?m ?i)) (?q mod 1024)"
      using slot_addr_add [of "frame_of (dir env ?m ?i)" 0 "?q mod 1024"] by (simp add: entry_def)
  qed
  then show ?thesis unfolding page_walk_def e ad(2,3) lookup_def Let_def by (auto simp: present_def)
qed

lemma page_walk_lookup:
  assumes "pt_inv env s" "unat pa < 2 ^ 30"
  shows "page_walk env (dm_mem s) (phys_to_virt pa) =
    map_option (\<lambda>e. (e AND PTE_PFN_MASK) OR offset_in_page pa) (lookup env (dm_mem s) (unat pa div 4096))"
  using page_walk_tables [OF _ _ assms(2)] assms(1) by (auto simp: pt_inv_def)

lemma pte_value_frame:
  assumes "q < 2 ^ 20"
  shows "pte_value env msk 2 q AND PTE_PFN_MASK = of_nat (4096 * q)"
proof -
  let ?p = "prot_of env 2 q AND msk"
  have m: "massage_pgprot msk (prot_of env 2 q) = ?p"
    by (simp add: massage_pgprot_def prot_of_def PAGE_KERNEL_EXEC_def PAGE_KERNEL_def PAGE_PRESENT_def PAGE_RW_def PAGE_DIRTY_def PAGE_ACCESSED_def PAGE_GLOBAL_def)
  have "prot_of env 2 q AND PAGE_MASK = 0"
    by (simp add: prot_of_def PAGE_KERNEL_EXEC_def PAGE_KERNEL_def PAGE_PRESENT_def PAGE_RW_def PAGE_DIRTY_def PAGE_ACCESSED_def PAGE_GLOBAL_def
        PAGE_MASK_def PAGE_SIZE_def)
  then have z: "?p AND PAGE_MASK = 0" by (metis and.commute and.left_commute and_zero_eq)
  have "push_bit PAGE_SHIFT (of_nat q) = (of_nat (4096 * q) :: ulong)" by (simp add: push_bit_eq_mult PAGE_SHIFT_def)
  moreover have "unat (of_nat (4096 * q) AND PAGE_MASK) = 4096 * q"
    using assms by (simp only: unat_page_mask, subst unat_of_nat32) simp_all
  then have "of_nat (4096 * q) AND PAGE_MASK = (of_nat (4096 * q) :: ulong)"
    using assms by (simp add: word_unat_eq_iff unat_of_nat32 del: of_nat_mult)
  ultimately show ?thesis unfolding pte_value_def pfn_pte_def m PTE_PFN_MASK_def by (simp only: bit.conj_disj_distrib2 z) simp
qed

lemma page_walk_mapped:
  assumes "unat pa < 2 ^ 30"
  shows "(pte_value env msk 2 (unat pa div 4096) AND PTE_PFN_MASK) OR offset_in_page pa = pa"
proof -
  have "unat pa div 4096 < 2 ^ 20" using assms by simp
  note pf = pte_value_frame [OF this, of env msk]
  have "of_nat (4096 * (unat pa div 4096)) = pa AND PAGE_MASK"
    using assms by (simp add: word_unat_eq_iff unat_page_mask unat_of_nat32 del: of_nat_mult)
  then show ?thesis using unat_page_or [of pa pa] unfolding pf by (simp only:) (simp add: word_unat_eq_iff)
qed

lemma mapped_pages_walk:
  assumes "mapped_pages env A s s'" "pt_inv env s" "present (pte_mask s)" "\<not> no_room (dm_mb s')" "unat pa < 2 ^ 30"
  shows "page_walk env (dm_mem s') (phys_to_virt pa) = (if unat pa div 4096 \<in> A then Some pa else page_walk env (dm_mem s) (phys_to_virt pa))"
proof -
  have i: "pt_inv env s'" using assms(1-4) by (simp add: mapped_pages_def)
  have "unat pa div 4096 < 2 ^ 18" using assms(5) by simp
  then have "lookup env (dm_mem s') (unat pa div 4096) =
      (if unat pa div 4096 \<in> A then Some (pte_value env (pte_mask s) 2 (unat pa div 4096)) else lookup env (dm_mem s) (unat pa div 4096))"
    using assms(1-4) by (simp add: mapped_pages_def)
  then show ?thesis unfolding page_walk_lookup [OF i assms(5)] page_walk_lookup [OF assms(2,5)] using page_walk_mapped [OF assms(5)] by simp
qed

lemma init_mem_mapping_outcome:
  assumes "pt_inv env s" "present (pte_mask s)" "pages_ok (mb_memory (dm_mb s))" "1024 \<le> unat (snd (find_low_pfn_range max_pfn))"
  shows "init_mem_mapping env (snd (find_low_pfn_range max_pfn)) s ior = Inl Panic \<and>
      (no_room (dm_mb s) \<or> (\<exists>i. 768 \<le> i \<and> i < 1024 \<and> \<not> present (dir env (dm_mem s) i))) \<or>
    (\<exists>s' ior'. init_mem_mapping env (snd (find_low_pfn_range max_pfn)) s ior = Inr (s', ior') \<and>
       mb_memory (dm_mb s') = mb_memory (dm_mb s) \<and> (no_room (dm_mb s') \<or> pt_inv env s' \<and>
          (\<forall>pa. unat pa < 2 ^ 30 \<longrightarrow> page_walk env (dm_mem s') (phys_to_virt pa) =
             (if unat pa < 2 ^ 20 \<or>
                 unat pa div 4096 \<in> page_frames MAX_NR_NODES (mb_memory (dm_mb s)) \<and> unat pa div 4096 < unat (snd (find_low_pfn_range max_pfn))
              then Some pa else page_walk env (dm_mem s) (phys_to_virt pa)))))"
proof -
  let ?low = "snd (find_low_pfn_range max_pfn)" and ?s = "probe_page_size_mask env s" and ?F = "page_frames MAX_NR_NODES (mb_memory (dm_mb s))"
  have b: "buf_ok s" using assms(1) by (simp add: pt_inv_def)
  note ok = init_mem_mapping_ok [OF b assms(3,4) low_pfn_bound, of env ior]
  have s0: "pt_inv env ?s" "present (pte_mask ?s)" using assms(1,2) by (simp_all add: probe_page_size_mask_same probe_page_size_mask_keeps)
  show ?thesis
  proof (cases "init_mem_mapping env ?low s ior")
    case (Inl x)
    then show ?thesis using ok s0 by (auto simp: stocked_def probe_page_size_mask_same)
  next
    case (Inr y)
    have m: "mapped_pages env ({..<256} \<union> ?F \<inter> {..<unat ?low}) ?s (fst y)" using ok Inr by simp
    have "pt_inv env (fst y)" if "\<not> no_room (dm_mb (fst y))" using m s0 that by (simp add: mapped_pages_def)
    moreover have "page_walk env (dm_mem (fst y)) (phys_to_virt pa) =
        (if unat pa < 2 ^ 20 \<or> unat pa div 4096 \<in> ?F \<and> unat pa div 4096 < unat ?low then Some pa else page_walk env (dm_mem s) (phys_to_virt pa))"
      if "\<not> no_room (dm_mb (fst y))" "unat pa < 2 ^ 30" for pa
    proof -
      have "unat pa div 4096 < 256 \<longleftrightarrow> unat pa < 2 ^ 20" by (simp add: div_less_iff_less_mult)
      then show ?thesis using mapped_pages_walk [OF m s0 that] by (simp add: probe_page_size_mask_same)
    qed
    moreover have "mb_memory (dm_mb (fst y)) = mb_memory (dm_mb s)"
      using m kept_fields(2) [of ?s "fst y"] by (simp add: mapped_pages_def probe_page_size_mask_same)
    ultimately show ?thesis using Inr by (intro disjI2 exI [of _ "fst y"] exI [of _ "snd y"]) auto
  qed
qed

section \<open>Properties\<close>

text \<open>A directory at 8 KiB whose kernel part has all its tables, and memory from 1 MiB to 8 MiB.\<close>

definition demo_table :: "nat \<Rightarrow> ulong" where
  "demo_table i = phys_addr (slot_addr (4096 + i) 0) OR PAGE_TABLE"

definition demo_map_type :: memblock_type where
  "demo_map_type = init_memblock_type\<lparr>total_size := 0x700000, regions := (regions init_memblock_type)[0 := mk_region 0x100000 0x700000 0 0]\<rparr>"

definition demo_map_mem :: mem where
  "demo_map_mem = fold (\<lambda>i m. store32 m (slot_addr 2 i) (demo_table i)) [768..<1024] (\<lambda>_. 0)"

definition demo_map :: direct_map where
  "demo_map = \<lparr>dm_mem = demo_map_mem,
     dm_mb = init_memblock\<lparr>current_limit := 0x30000000, mb_memory := demo_map_type\<rparr>, brk_start = 0, brk_end = 0, pgt_buf_start = 0,
     pgt_buf_end = 0, pgt_buf_top = 0, can_use_brk_pgt = True, min_pfn_mapped = 0, max_pfn_mapped = 0, max_low_pfn_mapped = 0,
     page_size_mask = 0, pte_mask = - 1, direct_page_counts = replicate 4 0\<rparr>"

lemma entry_fold_store:
  assumes "f < 2 ^ 20" "set is \<subseteq> {..<1024}" "j < 1024"
  shows "entry (fold (\<lambda>i m. store32 m (slot_addr f i) (g i)) is m) f j = (if j \<in> set is then g j else entry m f j)"
  using assms(2) by (induction "is" arbitrary: m) (auto simp: entry_store [OF assms(1) _ assms(1,3)])

lemma demo_map_type_facts:
  "shape_wf demo_map_type" "type_regs demo_map_type = [mk_region 0x100000 0x700000 0 0]" "mt_max demo_map_type = INIT_MEMBLOCK_REGIONS"
  "page_frames MAX_NR_NODES demo_map_type = {256..<2048}" "pages_ok demo_map_type"
proof -
  let ?r = "mk_region 0x100000 0x700000 0 0"
  have l: "live demo_map_type = [?r]" and a: "array_wf demo_map_type"
    by (simp_all add: demo_map_type_def init_memblock_type_def live_def array_wf_def INIT_MEMBLOCK_REGIONS_def eval_nat_numeral)
  have "regs_wf [?r]" by (simp add: regs_wf_Cons region_ok_def r_hi_def)
  note t = type_regs_wf [OF a l this]
  show "shape_wf demo_map_type" "type_regs demo_map_type = [?r]" using t by simp_all
  show "mt_max demo_map_type = INIT_MEMBLOCK_REGIONS" by (simp add: demo_map_type_def init_memblock_type_def)
  have "frames ?r = {256..<2048}" by (auto simp: frames_def r_lo_def r_hi_def)
  then show "page_frames MAX_NR_NODES demo_map_type = {256..<2048}" by (simp add: page_frames_def node_regs_def t)
  show "pages_ok demo_map_type" using t by (simp add: pages_ok_def below_last_page_def)
qed

lemma demo_map_dir: "dir_frame demo_map_env = 2" "768 \<le> i \<Longrightarrow> i < 1024 \<Longrightarrow> dir demo_map_env (dm_mem demo_map) i = demo_table i"
  "env_ok demo_map_env"
proof -
  show df: "dir_frame demo_map_env = 2" by (simp add: dir_frame_def demo_map_env_def phys_addr_def PAGE_OFFSET_def)
  show "env_ok demo_map_env" by (simp add: env_ok_def demo_map_env_def offset_in_page_def PAGE_MASK_def PAGE_SIZE_def)
  assume i: "768 \<le> i" "i < 1024"
  have "set [768..<1024] \<subseteq> {..<1024 :: nat}" by (simp only: set_upt) auto
  from entry_fold_store [OF _ this i(2), of 2 demo_table "\<lambda>_. 0"] i
  have "entry demo_map_mem 2 i = demo_table i" unfolding demo_map_mem_def by (simp only: set_upt atLeastLessThan_iff) simp
  then show "dir demo_map_env (dm_mem demo_map) i = demo_table i" by (simp add: dir_def df demo_map_def)
qed

lemma demo_tables:
  assumes "i < 1024"
  shows "frame_of (demo_table i) = 4096 + i" "present (demo_table i)" "demo_table i AND PAGE_PSE = 0"
  using entry_parts [of "4096 + i"] assms unfolding demo_table_def by simp_all

lemma demo_tables_ok:
  assumes "2 \<notin> A" "A \<inter> {4864..<5120} = {}"
  shows "tables_ok demo_map_env (dm_mem demo_map) A"
  using assms demo_map_dir demo_tables by (auto simp: tables_ok_def)

lemma demo_map_facts:
  "stocked demo_map_env demo_map" "pages_ok (mb_memory (dm_mb demo_map))" "page_frames MAX_NR_NODES (mb_memory (dm_mb demo_map)) = {256..<2048}"
proof -
  let ?mb = "dm_mb demo_map"
  have mem: "mb_memory ?mb = demo_map_type" by (simp add: demo_map_def)
  show "pages_ok (mb_memory ?mb)" "page_frames MAX_NR_NODES (mb_memory ?mb) = {256..<2048}" by (simp_all only: mem demo_map_type_facts)
  have wf: "mb_wf ?mb" using mb_wf_init demo_map_type_facts(1,3) by (simp add: mb_wf_def demo_map_def)
  then have buf: "buf_ok demo_map" by (simp add: buf_ok_def) (simp add: demo_map_def)
  have avail: "avail demo_map \<subseteq> {256..<2048}"
  proof
    fix f assume "f \<in> avail demo_map"
    then have "free_frame ?mb f" by (simp add: avail_def) (simp add: demo_map_def)
    then obtain i where i: "i < nr_regions demo_map_type" "lo_at demo_map_type i \<le> 4096 * f" "4096 * f + 4096 \<le> hi_at demo_map_type i"
      by (auto simp: free_frame_def free_block_def mem)
    have "i = 0" using i(1) by (simp add: demo_map_type_def init_memblock_type_def)
    then have "r_lo (mk_region 0x100000 0x700000 0 0) \<le> 4096 * f" "4096 * f + 4096 \<le> r_hi (mk_region 0x100000 0x700000 0 0)"
      using i(2,3) by (simp_all add: region_at_def demo_map_type_def init_memblock_type_def INIT_MEMBLOCK_REGIONS_def)
    then show "f \<in> {256..<2048}" by (simp add: r_lo_def r_hi_def)
  qed
  have "tables_ok demo_map_env (dm_mem demo_map) (avail demo_map)" using avail by (intro demo_tables_ok) auto
  then have "pt_inv demo_map_env demo_map" using buf demo_map_dir(3) by (simp add: pt_inv_def)
  moreover have "\<not> no_room ?mb" by (simp add: no_room_def demo_map_def init_memblock_def init_memblock_type_def INIT_MEMBLOCK_REGIONS_def)
  moreover have "present (pte_mask demo_map)" by (simp add: demo_map_def present_def PAGE_PRESENT_def)
  ultimately show "stocked demo_map_env demo_map" using demo_map_dir(2) demo_tables(2) by (simp add: stocked_def)
qed

text \<open>
  C17: \<^verbatim>\<open>kernel_physical_mapping_init\<close> with 4 KiB pages maps the pages of its range at their physical addresses and changes no
  other translation above \<^verbatim>\<open>PAGE_OFFSET\<close>; it returns the end of the range.  It panics only when a page table is missing, and the
  page tables stay disjoint as long as memblock's reserved array does not fill up.
\<close>

theorem kernel_physical_mapping_init_translates:
  assumes "pt_inv env s" "present (pte_mask s)" "start \<le> e" "unat e \<le> 2 ^ 30"
  shows "kernel_physical_mapping_init env start e 0 s = Inl Panic \<and>
      (no_room (dm_mb s) \<or> tables_missing env (unat start div 4096) (unat e div 4096) s) \<or>
    (\<exists>last s'. kernel_physical_mapping_init env start e 0 s = Inr (last, s') \<and>
       (no_room (dm_mb s') \<or> pt_inv env s' \<and> last = (if unat start div 4096 < unat e div 4096 then e AND PAGE_MASK else e) \<and>
          (\<forall>pa. unat pa < 2 ^ 30 \<longrightarrow> page_walk env (dm_mem s') (phys_to_virt pa) =
             (if unat start div 4096 \<le> unat pa div 4096 \<and> unat pa div 4096 < unat e div 4096 then Some pa
              else page_walk env (dm_mem s) (phys_to_virt pa)))))"
proof -
  have "unat (e AND PAGE_MASK) = unat (of_nat (4096 * (unat e div 4096)) :: ulong)"
    using assms(4) by (simp only: unat_page_mask) (subst unat_of_nat32, simp_all)
  then have l: "of_nat (4096 * (unat e div 4096)) = e AND PAGE_MASK" by (simp only: word_unat_eq_iff)
  from kernel_physical_mapping_init_maps [OF assms, unfolded l] show ?thesis
  proof (elim disjE exE conjE)
    fix last s' assume k: "kernel_physical_mapping_init env start e 0 s = Inr (last, s')"
      "mapped_pages env {unat start div 4096..<unat e div 4096} s s'" "last = (if unat start div 4096 < unat e div 4096 then e AND PAGE_MASK else e)"
    then show ?thesis using mapped_pages_walk [OF k(2) assms(1,2)] assms(1,2) by (auto simp: mapped_pages_def)
  qed blast+
qed

theorem kernel_physical_mapping_init_translates_witness:
  "\<exists>last s'. kernel_physical_mapping_init demo_map_env 0x1234 0x9000 0 demo_map = Inr (last, s') \<and>
     (no_room (dm_mb s') \<or> last = 0x9000 \<and> page_walk demo_map_env (dm_mem s') 0xC0008765 = Some 0x8765)"
proof -
  note st = demo_map_facts(1)
  have "\<not> tables_missing demo_map_env (unat (0x1234 :: ulong) div 4096) (unat (0x9000 :: ulong) div 4096) demo_map" "\<not> no_room (dm_mb demo_map)"
    using stocked_tables [OF st, of "unat (0x9000 :: ulong) div 4096"] by simp_all
  moreover have "pt_inv demo_map_env demo_map" "present (pte_mask demo_map)" using st by (simp_all add: stocked_def)
  moreover have "(0x9000 :: ulong) AND PAGE_MASK = 0x9000" by (simp add: PAGE_MASK_def PAGE_SIZE_def)
  ultimately obtain last s' where
    k: "kernel_physical_mapping_init demo_map_env 0x1234 0x9000 0 demo_map = Inr (last, s')"
      "no_room (dm_mb s') \<or> last = 0x9000 \<and> (\<forall>pa. unat pa < 2 ^ 30 \<longrightarrow> page_walk demo_map_env (dm_mem s') (phys_to_virt pa) =
         (if 1 \<le> unat pa div 4096 \<and> unat pa div 4096 < 9 then Some pa else page_walk demo_map_env (dm_mem demo_map) (phys_to_virt pa)))"
    using kernel_physical_mapping_init_translates [of demo_map_env demo_map "0x1234" "0x9000"] by auto
  then have "no_room (dm_mb s') \<or> last = 0x9000 \<and> page_walk demo_map_env (dm_mem s') (phys_to_virt 0x8765) = Some 0x8765" by auto
  then show ?thesis using k(1) by (simp add: phys_to_virt_def PAGE_OFFSET_def)
qed

text \<open>
  C9: \<^verbatim>\<open>init_mem_mapping\<close> up to the \<^verbatim>\<open>max_low_pfn\<close> of \<^verbatim>\<open>find_low_pfn_range\<close>: unless it panics for want of a
  page table, or memblock's reserved array fills up, every address below 1 MiB and every address in a page frame of low memory is
  mapped at \<^verbatim>\<open>PAGE_OFFSET\<close> above it, the other translations of the kernel's part are as before, and the page tables are disjoint
  pages that memblock will not hand out.
\<close>

theorem init_mem_mapping_translates:
  assumes "pt_inv env s" "present (pte_mask s)" "pages_ok (mb_memory (dm_mb s))" "1024 \<le> unat (snd (find_low_pfn_range max_pfn))"
  shows "init_mem_mapping env (snd (find_low_pfn_range max_pfn)) s ior = Inl Panic \<and>
      (no_room (dm_mb s) \<or> (\<exists>i. 768 \<le> i \<and> i < 1024 \<and> \<not> present (dir env (dm_mem s) i))) \<or>
    (\<exists>s' ior'. init_mem_mapping env (snd (find_low_pfn_range max_pfn)) s ior = Inr (s', ior') \<and>
       (no_room (dm_mb s') \<or> pt_inv env s' \<and>
          (\<forall>pa. unat pa < 2 ^ 30 \<longrightarrow> page_walk env (dm_mem s') (phys_to_virt pa) =
             (if unat pa < 2 ^ 20 \<or>
                 unat pa div 4096 \<in> page_frames MAX_NR_NODES (mb_memory (dm_mb s)) \<and> unat pa div 4096 < unat (snd (find_low_pfn_range max_pfn))
              then Some pa else page_walk env (dm_mem s) (phys_to_virt pa)))))"
  using init_mem_mapping_outcome [OF assms, of ior] by blast

lemma demo_low: "snd (find_low_pfn_range 0x1000) = 0x1000"
  by code_simp

lemma demo_map_room:
  assumes "init_mem_mapping demo_map_env 0x1000 demo_map ior = Inr (s', ior')"
  shows "\<not> no_room (dm_mb s')"
proof -
  note st = demo_map_facts(1)
  have "stocked demo_map_env (probe_page_size_mask demo_map_env demo_map)"
    using st by (simp add: stocked_def probe_page_size_mask_same probe_page_size_mask_keeps)
  moreover have "buf_ok demo_map" using st by (simp add: stocked_def pt_inv_def)
  note init_mem_mapping_ok [OF this demo_map_facts(2), of "0x1000" demo_map_env ior]
  ultimately have "dm_mb s' = dm_mb demo_map" using assms by (simp add: mapped_pages_def probe_page_size_mask_same)
  then show ?thesis using st by (simp add: stocked_def)
qed

theorem init_mem_mapping_translates_witness:
  "\<exists>s' ior'. init_mem_mapping demo_map_env (snd (find_low_pfn_range 0x1000)) demo_map boot_ioremap = Inr (s', ior') \<and>
     page_walk demo_map_env (dm_mem s') 0xC07FFFFF = Some 0x7FFFFF"
proof -
  note st = demo_map_facts(1) [unfolded stocked_def]
  from init_mem_mapping_translates [of demo_map_env demo_map "0x1000" boot_ioremap, unfolded demo_low demo_map_facts(3)] st demo_map_facts(2)
  obtain s' ior' where k: "init_mem_mapping demo_map_env 0x1000 demo_map boot_ioremap = Inr (s', ior')"
    "no_room (dm_mb s') \<or> (\<forall>pa. unat pa < 2 ^ 30 \<longrightarrow> page_walk demo_map_env (dm_mem s') (phys_to_virt pa) =
       (if unat pa < 2 ^ 20 \<or> unat pa div 4096 \<in> {256..<2048} \<and> unat pa div 4096 < unat (0x1000 :: ulong)
        then Some pa else page_walk demo_map_env (dm_mem demo_map) (phys_to_virt pa)))"
    by auto
  have "page_walk demo_map_env (dm_mem s') (phys_to_virt 0x7FFFFF) = Some 0x7FFFFF" using k(2) demo_map_room [OF k(1)] by simp
  then show ?thesis using k(1) unfolding demo_low by (simp add: phys_to_virt_def PAGE_OFFSET_def)
qed

end
