(* ===== verification/E820_Spec.thy ===== *)
theory E820_Spec
  imports E820
begin

text \<open>
  Sanitizing keeps the memory map: the new map has no overlaps, and at every address it has the
  highest type of the entries that cover the address.  Then the kernel's copy and what memblock is
  given.
\<close>

section \<open>What a map says about an address\<close>

definition covers :: "e820entry \<Rightarrow> u64 \<Rightarrow> bool" where
  "covers e a \<longleftrightarrow> e_addr e \<le> a \<and> a < e_addr e + e_size e"

definition type_at :: "e820entry list \<Rightarrow> u64 \<Rightarrow> u32" where
  "type_at es a = Max (set (0 # map e_type (filter (\<lambda>e. covers e a) es)))"

definition no_wrap :: "e820entry \<Rightarrow> bool" where
  "no_wrap e \<longleftrightarrow> e_addr e \<le> e_addr e + e_size e"

text \<open>Entries in address order, none of them empty, of type 0 or overlapping, all below a limit.\<close>

definition ordered_map :: "u64 \<Rightarrow> e820entry list \<Rightarrow> bool" where
  "ordered_map lim es \<longleftrightarrow> sorted_wrt (\<lambda>x y. e_addr x + e_size x \<le> e_addr y) es \<and>
     (\<forall>e \<in> set es. e_addr e < e_addr e + e_size e \<and> e_type e \<noteq> 0 \<and> e_addr e + e_size e \<le> lim)"

lemma type_at_Nil [simp]: "type_at [] a = 0"
  by (simp add: type_at_def)

lemma type_at_zero: "(\<And>e. e \<in> set es \<Longrightarrow> \<not> covers e a) \<Longrightarrow> type_at es a = 0"
  by (simp add: type_at_def filter_empty_conv)

lemma type_at_above: "ordered_map lim es \<Longrightarrow> lim \<le> a \<Longrightarrow> type_at es a = 0"
  by (rule type_at_zero) (force simp: ordered_map_def covers_def)

lemma type_at_snoc:
  "type_at (es @ [e]) a = (if covers e a then max (e_type e) (type_at es a) else type_at es a)"
  by (simp add: type_at_def insert_commute [of 0])

lemma nonempty_end: "no_wrap e \<Longrightarrow> e_size e \<noteq> 0 \<Longrightarrow> e_addr e < e_addr e + e_size e"
  by (simp add: no_wrap_def order_less_le)

section \<open>Change points\<close>

definition start_pt :: "e820entry list \<Rightarrow> nat \<Rightarrow> change_member" where
  "start_pt b i = mk_change i (e_addr (b ! i))"

definition end_pt :: "e820entry list \<Rightarrow> nat \<Rightarrow> change_member" where
  "end_pt b i = mk_change i (e_addr (b ! i) + e_size (b ! i))"

definition points :: "e820entry list \<Rightarrow> nat \<Rightarrow> change_member list \<Rightarrow> bool" where
  "points b n cps \<longleftrightarrow> distinct cps \<and> sorted_wrt (\<lambda>x y. cp_addr x \<le> cp_addr y) cps \<and>
     set cps = (\<Union>i\<in>{i. i < n \<and> e_size (b ! i) \<noteq> 0}. {start_pt b i, end_pt b i})"

lemma pt_sel [simp]:
  "pbios (start_pt b i) = i" "pbios (end_pt b i) = i" "cp_addr (start_pt b i) = e_addr (b ! i)"
  "cp_addr (end_pt b i) = e_addr (b ! i) + e_size (b ! i)"
  "pbios (mk_change i a) = i" "cp_addr (mk_change i a) = a"
  by (simp_all add: start_pt_def end_pt_def mk_change_def)

lemma pt_eq [simp]:
  "start_pt b i = start_pt b j \<longleftrightarrow> i = j" "end_pt b i = end_pt b j \<longleftrightarrow> i = j"
  "start_pt b i = end_pt b j \<longleftrightarrow> i = j \<and> e_size (b ! i) = 0"
  "end_pt b i = start_pt b j \<longleftrightarrow> i = j \<and> e_size (b ! i) = 0"
  by (auto simp: start_pt_def end_pt_def mk_change_def)

interpretation cpcompare: comparison "cpcompare b"
proof
  fix x y z
  show "cpcompare b x y < 0 \<longleftrightarrow> cpcompare b y x > 0" by (auto simp: cpcompare_def)
  show "cpcompare b x y \<le> 0 \<Longrightarrow> cpcompare b y z \<le> 0 \<Longrightarrow> cpcompare b x z \<le> 0"
    by (auto simp: cpcompare_def split: if_splits)
qed

lemma cpcompare_addr: "cpcompare b x y \<le> 0 \<Longrightarrow> cp_addr x \<le> cp_addr y"
  by (auto simp: cpcompare_def split: if_splits)

lemma set_change_points:
  "set (change_points b n) = (\<Union>i\<in>{i. i < n \<and> e_size (b ! i) \<noteq> 0}. {start_pt b i, end_pt b i})"
  by (auto simp: change_points_def entry_changes_def start_pt_def end_pt_def)

lemma distinct_change_points: "distinct (change_points b n)"
proof (induction n)
  case (Suc n)
  have "distinct (entry_changes b n)" by (auto simp: entry_changes_def mk_change_def)
  moreover have "set (change_points b n) \<inter> set (entry_changes b n) = {}"
    unfolding set_change_points by (auto simp: entry_changes_def start_pt_def end_pt_def mk_change_def)
  ultimately show ?case using Suc by (simp add: change_points_def)
qed (simp add: change_points_def)

lemma length_change_points: "length (change_points b n) \<le> 2 * n"
  by (induction n) (simp_all add: change_points_def entry_changes_def)

lemma sorted_points:
  fixes b :: "e820entry list"
  assumes "n \<le> E820MAX"
  defines "cps \<equiv> change_points b n"
  shows "\<exists>ys. sort_array (cpcompare b) (of_nat (length cps)) 4 cps = Some ys \<and> points b n ys"
proof -
  have "length cps * 4 \<le> 2 ^ 30" using length_change_points [of b n] assms(1) by (simp add: cps_def E820MAX_def)
  from cpcompare.sort_array_sorts [of 4 cps, OF _ _ this] obtain ys where ys: "sort_array (cpcompare b) (of_nat (length cps)) 4 cps = Some ys"
    "sorted_wrt (\<lambda>x y. cpcompare b x y \<le> 0) ys" "mset ys = mset cps" by auto
  from ys(2) have "sorted_wrt (\<lambda>x y. cp_addr x \<le> cp_addr y) ys" by (rule sorted_wrt_mono_rel [rotated]) (rule cpcompare_addr)
  with ys(3) distinct_change_points [of b n] set_change_points [of b n] have "points b n ys"
    unfolding points_def cps_def by (metis mset_eq_setD mset_eq_imp_distinct_iff)
  with ys(1) show ?thesis by blast
qed

section \<open>The entries open at a point of the sweep\<close>

definition active :: "e820entry list \<Rightarrow> nat \<Rightarrow> change_member list \<Rightarrow> nat set" where
  "active b n pre = {i. i < n \<and> e_size (b ! i) \<noteq> 0 \<and> start_pt b i \<in> set pre \<and> end_pt b i \<notin> set pre}"

definition act_type :: "e820entry list \<Rightarrow> nat \<Rightarrow> change_member list \<Rightarrow> u32" where
  "act_type b n pre = Max (insert 0 ((\<lambda>i. e_type (b ! i)) ` active b n pre))"

lemma finite_active [simp]: "finite (active b n pre)"
  by (simp add: active_def)

lemma overlap_type_Max: "overlap_type b ol = Max (insert 0 ((\<lambda>i. e_type (b ! i)) ` set ol))"
proof -
  have "fold (\<lambda>i t. if f i > t then f i else t) ol z = Max (insert z (f ` set ol))" for f :: "nat \<Rightarrow> u32" and z
  proof (induction ol arbitrary: z)
    case (Cons i ol)
    have "(if f i > z then f i else z) = max z (f i)" by (auto simp: max_def)
    with Cons show ?case by (cases "ol = []") (simp_all add: max.assoc max.commute max.left_commute)
  qed simp
  from this [of "\<lambda>i. e_type (b ! i)" 0] show ?thesis unfolding overlap_type_def .
qed

lemma overlap_remove_set:
  assumes "distinct ol" "p \<in> set ol"
  shows "distinct (overlap_remove p ol) \<and> set (overlap_remove p ol) = set ol - {p}"
proof -
  obtain xs l where ol: "ol = xs @ [l]" using assms(2) by (cases ol rule: rev_cases) auto
  have eq: "overlap_remove p ol = map (\<lambda>q. if q = p then l else q) xs" by (simp add: overlap_remove_def ol)
  show ?thesis
    using assms unfolding eq unfolding ol by (auto simp: distinct_map inj_on_def)
qed

lemma points_split:
  assumes "points b n (pre @ cp # rest)"
  shows "cp \<notin> set pre" "cp \<notin> set rest" "\<And>p. p \<in> set pre \<Longrightarrow> cp_addr p \<le> cp_addr cp"
    "\<And>p. p \<in> set rest \<Longrightarrow> cp_addr cp \<le> cp_addr p"
    "\<exists>i<n. e_size (b ! i) \<noteq> 0 \<and> (cp = start_pt b i \<or> cp = end_pt b i)"
proof -
  have "cp \<in> set (pre @ cp # rest)" by simp
  then show "\<exists>i<n. e_size (b ! i) \<noteq> 0 \<and> (cp = start_pt b i \<or> cp = end_pt b i)"
    using assms unfolding points_def by blast
qed (use assms in \<open>auto simp: points_def sorted_wrt_append\<close>)

lemma points_mem:
  assumes "points b n cps" "i < n" "e_size (b ! i) \<noteq> 0"
  shows "start_pt b i \<in> set cps" "end_pt b i \<in> set cps"
  using assms by (auto simp: points_def)

lemma overlap_update_active:
  assumes pts: "points b n (pre @ cp # rest)" and nw: "\<And>i. i < n \<Longrightarrow> no_wrap (b ! i)"
    and ol: "distinct ol" "set ol = active b n pre"
  shows "distinct (overlap_update b cp ol) \<and> set (overlap_update b cp ol) = active b n (pre @ [cp])"
proof -
  note sp = points_split [OF pts]
  obtain i where i: "i < n" "e_size (b ! i) \<noteq> 0" "cp = start_pt b i \<or> cp = end_pt b i" using sp(5) by blast
  have lt: "e_addr (b ! i) < e_addr (b ! i) + e_size (b ! i)" using nonempty_end [OF nw [OF i(1)] i(2)] .
  note mem = points_mem [OF pts i(1,2)]
  from i(3) show ?thesis
  proof
    assume cp: "cp = start_pt b i"
    have "end_pt b i \<notin> set pre" using sp(3) [of "end_pt b i"] cp lt by auto
    then have "active b n (pre @ [cp]) = insert i (active b n pre)" using cp i by (auto simp: active_def)
    moreover have "i \<notin> active b n pre" using sp(1) cp by (simp add: active_def)
    ultimately show ?thesis using cp ol by (simp add: overlap_update_def)
  next
    assume cp: "cp = end_pt b i"
    have "start_pt b i \<in> set pre" using mem(1) sp(4) [of "start_pt b i"] cp lt i(2) by auto
    then have "i \<in> active b n pre" using sp(1) cp i by (simp add: active_def)
    moreover have "active b n (pre @ [cp]) = active b n pre - {i}" using cp i by (auto simp: active_def)
    ultimately show ?thesis using cp i(2) overlap_remove_set [of ol i] ol by (simp add: overlap_update_def)
  qed
qed

text \<open>Between two change points the active entries are the ones that cover the address.\<close>

lemma active_covers:
  assumes pts: "points b n (pre @ rest)" and nw: "\<And>i. i < n \<Longrightarrow> no_wrap (b ! i)"
    and a: "\<And>p. p \<in> set pre \<Longrightarrow> cp_addr p \<le> a" "\<And>p. p \<in> set rest \<Longrightarrow> a < cp_addr p"
  shows "active b n pre = {i. i < n \<and> covers (b ! i) a}"
proof -
  have "(i \<in> active b n pre) = covers (b ! i) a" if i: "i < n" for i
  proof (cases "e_size (b ! i) = 0")
    case True
    then show ?thesis by (auto simp: active_def covers_def)
  next
    case False
    note mem = points_mem [OF pts i False]
    show ?thesis
      using i False mem a(1) [of "start_pt b i"] a(1) [of "end_pt b i"] a(2) [of "start_pt b i"] a(2) [of "end_pt b i"]
      by (auto simp: active_def covers_def not_le)
  qed
  then show ?thesis by (auto simp: active_def)
qed

lemma act_type_at:
  assumes "points b n (pre @ rest)" "\<And>i. i < n \<Longrightarrow> no_wrap (b ! i)" "n \<le> length b"
    and "\<And>p. p \<in> set pre \<Longrightarrow> cp_addr p \<le> a" "\<And>p. p \<in> set rest \<Longrightarrow> a < cp_addr p"
  shows "type_at (take n b) a = act_type b n pre"
proof -
  have "(\<lambda>i. e_type (b ! i)) ` {i. i < n \<and> covers (b ! i) a} = e_type ` {e \<in> set (take n b). covers e a}"
    using assms(3) by (auto simp: in_set_conv_nth image_iff) (metis nth_take)+
  with active_covers [OF assms(1,2,4,5)] show ?thesis by (simp add: act_type_def type_at_def)
qed

section \<open>The sweep\<close>

definition done_map :: "sweep \<Rightarrow> e820entry list" where
  "done_map s = take (new_bios_entry s) (new_bios s)"

text \<open>The type the new map gives an address, the entry under construction included.\<close>

definition sweep_view :: "sweep \<Rightarrow> u64 \<Rightarrow> u32" where
  "sweep_view s a = (if last_type s \<noteq> 0 \<and> last_addr s \<le> a then last_type s else type_at (done_map s) a)"

definition sweep_ok :: "nat \<Rightarrow> u64 \<Rightarrow> sweep \<Rightarrow> bool" where
  "sweep_ok mx f s \<longleftrightarrow> length (new_bios s) = E820MAX \<and> new_bios_entry s < mx \<and> ordered_map f (done_map s) \<and>
     (last_type s \<noteq> 0 \<longrightarrow> last_addr s \<le> f \<and> e_addr (new_bios s ! new_bios_entry s) = last_addr s \<and>
        e_type (new_bios s ! new_bios_entry s) = last_type s \<and> ordered_map (last_addr s) (done_map s))"

lemma ordered_map_mono: "ordered_map f es \<Longrightarrow> f \<le> g \<Longrightarrow> ordered_map g es"
  by (auto simp: ordered_map_def)

lemma ordered_map_snoc:
  "ordered_map (e_addr e) es \<Longrightarrow> e_addr e < e_addr e + e_size e \<Longrightarrow> e_type e \<noteq> 0 \<Longrightarrow>
   ordered_map (e_addr e + e_size e) (es @ [e])"
  by (auto simp: ordered_map_def sorted_wrt_append intro: order_trans less_imp_le)

lemma close_entry_ok:
  assumes ok: "sweep_ok mx f s" and mx: "mx \<le> E820MAX" and fg: "f \<le> g"
  defines "s' \<equiv> close_entry g s"
  shows "length (new_bios s') = E820MAX \<and> new_bios_entry s' \<le> mx \<and>
    (new_bios_entry s' \<noteq> new_bios_entry s \<or> new_bios_entry s' < mx) \<and>
    ordered_map g (done_map s') \<and> (\<forall>a<g. type_at (done_map s') a = sweep_view s a)"
proof -
  let ?k = "new_bios_entry s"
  have k: "?k < mx" "?k < length (new_bios s)" "length (new_bios s) = E820MAX" using ok mx by (auto simp: sweep_ok_def)
  consider (none) "last_type s = 0" | (empty) "last_type s \<noteq> 0" "last_addr s = g"
    | (size) "last_type s \<noteq> 0" "last_addr s \<noteq> g" by blast
  then show ?thesis
  proof cases
    case none
    with ok fg k show ?thesis unfolding s'_def
      by (auto simp: close_entry_def sweep_ok_def sweep_view_def intro: ordered_map_mono)
  next
    case empty
    with k have s': "new_bios_entry s' = ?k" "done_map s' = done_map s" "length (new_bios s') = E820MAX"
      by (simp_all add: s'_def close_entry_def Let_def done_map_def)
    with ok k empty fg show ?thesis by (auto simp: sweep_ok_def sweep_view_def)
  next
    case size
    let ?e = "(new_bios s ! ?k)\<lparr>e_size := g - last_addr s\<rparr>"
    have s': "new_bios_entry s' = Suc ?k" "length (new_bios s') = E820MAX"
      "new_bios s' = (new_bios s)[?k := ?e]"
      using size k by (simp_all add: s'_def close_entry_def Let_def)
    have d: "done_map s' = done_map s @ [?e]"
      using k by (simp add: done_map_def s' take_Suc_conv_app_nth)
    have la: "last_addr s \<le> f" "e_addr ?e = last_addr s" "e_type ?e = last_type s"
      "ordered_map (last_addr s) (done_map s)" using ok size by (auto simp: sweep_ok_def)
    have lt: "last_addr s < g" using la(1) fg size by simp
    have "ordered_map g (done_map s')"
      using ordered_map_snoc [of ?e "done_map s"] la lt size by (simp add: d)
    moreover have "type_at (done_map s') a = sweep_view s a" if "a < g" for a
      using that type_at_above [OF la(4), of a] la(2,3) size unfolding d type_at_snoc
      by (auto simp: covers_def sweep_view_def)
    ultimately show ?thesis using s' k by simp
  qed
qed

text \<open>
  The invariant: what was processed has frontier \<open>f\<close>, and below it the new map is already right.
\<close>

definition sweep_inv :: "e820entry list \<Rightarrow> nat \<Rightarrow> nat \<Rightarrow> change_member list \<Rightarrow> u64 \<Rightarrow> sweep \<Rightarrow> bool" where
  "sweep_inv b n mx pre f s \<longleftrightarrow> sweep_ok mx f s \<and> (\<forall>p \<in> set pre. cp_addr p \<le> f) \<and>
     distinct (overlap_list s) \<and> set (overlap_list s) = active b n pre \<and> last_type s = act_type b n pre \<and>
     (\<forall>a<f. sweep_view s a = type_at (take n b) a)"

definition bios_ok :: "e820entry list \<Rightarrow> nat \<Rightarrow> bool" where
  "bios_ok b n \<longleftrightarrow> n \<le> length b \<and> (\<forall>i<n. no_wrap (b ! i))"

lemma sweep_advance:
  assumes inv: "sweep_inv b n mx pre f s" and ok: "bios_ok b n" and pts: "points b n (pre @ rest)"
    and a: "\<And>p. p \<in> set rest \<Longrightarrow> a < cp_addr p"
  shows "sweep_view s a = type_at (take n b) a"
proof (cases "a < f")
  case True
  with inv show ?thesis by (simp add: sweep_inv_def)
next
  case False
  then have "type_at (take n b) a = act_type b n pre"
    using inv ok by (intro act_type_at [OF pts _ _ _ a]) (force simp: sweep_inv_def bios_ok_def)+
  moreover have "sweep_view s a = last_type s"
    using inv False type_at_above [of f "done_map s" a] by (auto simp: sweep_inv_def sweep_ok_def sweep_view_def)
  ultimately show ?thesis using inv by (simp add: sweep_inv_def)
qed

lemma open_entry_ok:
  assumes "length (new_bios s) = E820MAX" "new_bios_entry s < mx" "mx \<le> E820MAX" "ordered_map g (done_map s)"
  shows "sweep_ok mx g ((open_entry g t s)\<lparr>last_type := t\<rparr>)"
    "a < g \<Longrightarrow> sweep_view ((open_entry g t s)\<lparr>last_type := t\<rparr>) a = type_at (done_map s) a"
    "overlap_list (open_entry g t s) = overlap_list s"
  using assms by (auto simp: open_entry_def sweep_ok_def sweep_view_def done_map_def Let_def)

lemma close_entry_sel [simp]:
  "overlap_list (close_entry g s) = overlap_list s"
  by (simp add: close_entry_def Let_def)

definition sweep_stop :: "e820entry list \<Rightarrow> nat \<Rightarrow> nat \<Rightarrow> sweep \<Rightarrow> bool" where
  "sweep_stop b n mx s \<longleftrightarrow> new_bios_entry s \<le> mx \<and> new_bios_entry s \<le> length (new_bios s) \<and>
     (\<exists>lim. ordered_map lim (done_map s) \<and> (\<forall>a<lim. type_at (done_map s) a = type_at (take n b) a) \<and>
        (new_bios_entry s < mx \<longrightarrow> (\<forall>a\<ge>lim. type_at (take n b) a = 0)))"

lemma sweep_step_inv:
  assumes inv: "sweep_inv b n mx pre f s" and ok: "bios_ok b n" and pts: "points b n (pre @ cp # rest)"
    and f: "f \<le> cp_addr cp" and mx: "mx \<le> E820MAX"
  shows "case sweep_step b mx cp s of (stop, s') \<Rightarrow>
    if stop then sweep_stop b n mx s' \<and> new_bios_entry s' = mx else sweep_inv b n mx (pre @ [cp]) (cp_addr cp) s'"
proof -
  let ?g = "cp_addr cp"
  let ?s = "s\<lparr>overlap_list := overlap_update b cp (overlap_list s)\<rparr>"
  let ?t = "overlap_type b (overlap_list ?s)"
  let ?c = "close_entry ?g ?s"
  let ?o = "(open_entry ?g ?t ?c)\<lparr>last_type := ?t\<rparr>"
  have ol: "distinct (overlap_list ?s) \<and> set (overlap_list ?s) = active b n (pre @ [cp])"
    using overlap_update_active [OF pts, of "overlap_list s"] inv ok by (simp add: sweep_inv_def bios_ok_def)
  then have t: "?t = act_type b n (pre @ [cp])" by (simp add: overlap_type_Max act_type_def)
  have ok1: "sweep_ok mx f ?s" and same: "sweep_view ?s = sweep_view s" "last_type ?s = last_type s"
    using inv by (auto simp: sweep_inv_def sweep_ok_def sweep_view_def done_map_def fun_eq_iff)
  have up: "sweep_view s a = type_at (take n b) a" if "a < ?g" for a
    using that points_split(4) [OF pts] by (intro sweep_advance [OF inv ok pts]) (auto intro: order_less_le_trans)
  have pre: "\<forall>p \<in> set (pre @ [cp]). cp_addr p \<le> ?g" using points_split(3) [OF pts] by auto
  note c = close_entry_ok [OF ok1 mx f, unfolded same(1)]
  show ?thesis
  proof (cases "?t \<noteq> last_type s \<or> ?t = E820_PRAM")
    case True
    show ?thesis
    proof (cases "new_bios_entry ?c \<noteq> new_bios_entry ?s \<and> new_bios_entry ?c \<ge> mx")
      case stop: True
      then have "sweep_step b mx cp s = (True, ?c)" using True by (simp add: sweep_step_def Let_def)
      moreover have "sweep_stop b n mx ?c \<and> new_bios_entry ?c = mx"
        unfolding sweep_stop_def using c up stop mx by (intro conjI exI [of _ ?g]) auto
      ultimately show ?thesis by simp
    next
      case False
      then have eq: "sweep_step b mx cp s = (False, ?o)" using True by (simp add: sweep_step_def Let_def)
      have "length (new_bios ?c) = E820MAX" "new_bios_entry ?c < mx" "ordered_map ?g (done_map ?c)"
        using c False by auto
      note o = open_entry_ok [OF this(1,2) mx this(3), where t = ?t]
      have "sweep_inv b n mx (pre @ [cp]) ?g ?o"
        unfolding sweep_inv_def using o c up pre ol t by simp
      then show ?thesis by (simp add: eq)
    qed
  next
    case False
    then have eq: "sweep_step b mx cp s = (False, ?s)" by (simp add: sweep_step_def Let_def)
    have "sweep_ok mx ?g ?s" using ok1 f unfolding sweep_ok_def by (auto intro: ordered_map_mono)
    then have "sweep_inv b n mx (pre @ [cp]) ?g ?s"
      unfolding sweep_inv_def same using pre ol t up False by simp
    then show ?thesis by (simp add: eq)
  qed
qed

lemma sweep_loop_stop:
  assumes "sweep_inv b n mx pre f s" "bios_ok b n" "points b n (pre @ cps)" "mx \<le> E820MAX"
    "\<And>p. p \<in> set cps \<Longrightarrow> f \<le> cp_addr p"
  shows "sweep_stop b n mx (sweep_loop b mx cps s)"
  using assms
proof (induction cps arbitrary: pre f s)
  case Nil
  have "active b n pre = {}"
    using Nil.prems(3) points_mem(2) [of b n pre] by (auto simp: active_def)
  then have lt: "last_type s = 0" using Nil.prems(1) by (simp add: sweep_inv_def act_type_def)
  have all: "sweep_view s a = type_at (take n b) a" for a
    by (rule sweep_advance [OF Nil.prems(1,2), of "[]"]) (use Nil.prems(3) in auto)
  have "ordered_map f (done_map s)" "new_bios_entry s < mx" "length (new_bios s) = E820MAX"
    using Nil.prems(1) by (auto simp: sweep_inv_def sweep_ok_def)
  moreover have "type_at (done_map s) a = type_at (take n b) a" for a
    using all [of a] lt by (simp add: sweep_view_def)
  moreover have "type_at (take n b) a = 0" if "f \<le> a" for a
    using that type_at_above [OF calculation(1)] calculation(4) by simp
  ultimately show ?case
    using Nil.prems(4) unfolding sweep_stop_def by (intro conjI exI [of _ f]) auto
next
  case (Cons cp cps)
  note sp = points_split [OF Cons.prems(3)]
  note step = sweep_step_inv [OF Cons.prems(1-3) Cons.prems(5) [of cp] Cons.prems(4)]
  obtain stop s' where eq: "sweep_step b mx cp s = (stop, s')" by fastforce
  show ?case
  proof (cases stop)
    case True
    with step eq show ?thesis by simp
  next
    case False
    with step eq have "sweep_inv b n mx (pre @ [cp]) (cp_addr cp) s'" by simp
    from Cons.IH [OF this Cons.prems(2) _ Cons.prems(4)] Cons.prems(3) sp(4) False eq show ?thesis by simp
  qed
qed

lemma sweep_inv_init: "0 < mx \<Longrightarrow> sweep_inv b n mx [] 0 sweep_init"
  by (simp add: sweep_inv_def sweep_ok_def sweep_init_def active_def act_type_def done_map_def ordered_map_def)

lemma sanitize_map:
  assumes nr: "2 \<le> unat nr" "unat nr \<le> length b" "int (unat nr) \<le> mx" and mx: "mx \<le> int E820MAX"
    and nw: "\<And>i. i < unat nr \<Longrightarrow> no_wrap (b ! i)"
  shows "\<exists>new lim. sanitize_e820_map b mx nr = Inr (0, new @ drop (length new) b, of_nat (length new)) \<and>
    int (length new) \<le> mx \<and> ordered_map lim new \<and> (\<forall>a<lim. type_at new a = type_at (take (unat nr) b) a) \<and>
    (int (length new) < mx \<longrightarrow> type_at new = type_at (take (unat nr) b))"
proof -
  let ?n = "unat nr"
  let ?cps0 = "change_points b ?n"
  have "int (unat nr) \<le> int E820MAX" using nr(3) mx by (rule order_trans)
  then have le: "unat nr \<le> E820MAX" by (simp only: of_nat_le_iff)
  from sorted_points [OF le] obtain cps where
    cps: "sort_array (cpcompare b) (of_nat (length ?cps0)) 4 ?cps0 = Some cps" "points b ?n cps" by blast
  let ?s = "sweep_loop b (nat mx) cps sweep_init"
  from le have "unat nr < 2 ^ 31" by (simp add: E820MAX_def)
  then have si: "sint nr = int ?n" by (rule sint32_small)
  have "\<not> list_ex (\<lambda>e. e_addr e + e_size e < e_addr e) (take ?n b)"
    using nw nr(2) by (auto simp: list_ex_iff in_set_conv_nth no_wrap_def not_less)
  then have eq: "sanitize_e820_map b mx nr =
      Inr (0, take (new_bios_entry ?s) (new_bios ?s) @ drop (new_bios_entry ?s) b, of_nat (new_bios_entry ?s))"
    using nr si by (simp add: sanitize_e820_map_def Let_def word_less_nat_alt cps(1))
  have pos: "0 < nat mx" using nr(1,3) by linarith
  have "sweep_stop b ?n (nat mx) ?s"
    by (rule sweep_loop_stop [where pre = "[]" and f = 0])
      (use nr nw mx cps(2) sweep_inv_init [OF pos] in \<open>auto simp: bios_ok_def\<close>)
  then obtain lim where st: "new_bios_entry ?s \<le> nat mx" "new_bios_entry ?s \<le> length (new_bios ?s)"
    "ordered_map lim (done_map ?s)" "\<forall>a<lim. type_at (done_map ?s) a = type_at (take ?n b) a"
    "new_bios_entry ?s < nat mx \<longrightarrow> (\<forall>a\<ge>lim. type_at (take ?n b) a = 0)" unfolding sweep_stop_def by blast
  have len: "length (done_map ?s) = new_bios_entry ?s" using st(2) by (simp add: done_map_def)
  have "type_at (done_map ?s) a = type_at (take ?n b) a" if "new_bios_entry ?s < nat mx" for a
    using that st(4,5) type_at_above [OF st(3), of a] by (cases "a < lim") auto
  then have "type_at (done_map ?s) = type_at (take ?n b)" if "new_bios_entry ?s < nat mx" using that by blast
  moreover have "int (new_bios_entry ?s) \<le> mx" "int (new_bios_entry ?s) < mx \<longrightarrow> new_bios_entry ?s < nat mx"
    using st(1) pos by linarith+
  ultimately show ?thesis
    using eq st(3,4) len by (intro exI [of _ "done_map ?s"] exI [of _ lim] conjI) (simp_all add: done_map_def)
qed

section \<open>The kernel's copy\<close>

definition live_map :: "e820map \<Rightarrow> e820entry list" where
  "live_map m = take (unat (nr_entries m)) (e_map m)"

definition map_wf :: "e820map \<Rightarrow> bool" where
  "map_wf m \<longleftrightarrow> length (e_map m) = E820MAX \<and> unat (nr_entries m) \<le> E820MAX"

lemma add_region_live:
  assumes "map_wf m"
  shows "map_wf (e820_add_region_raw m start sz type)"
    "live_map (e820_add_region_raw m start sz type) =
       (if unat (nr_entries m) < E820MAX then live_map m @ [mk_entry start sz type] else live_map m)"
proof -
  have x: "(of_int (sint (nr_entries m)) :: u32) = nr_entries m" by simp
  have big: "nr_entries m \<ge> of_nat E820MAX \<longleftrightarrow> \<not> unat (nr_entries m) < E820MAX"
    by (simp add: word_le_nat_alt E820MAX_def not_less)
  have nat: "nat (sint (nr_entries m)) = unat (nr_entries m)" "unat (nr_entries m + 1) = Suc (unat (nr_entries m))"
    if "unat (nr_entries m) < E820MAX"
    using that unat_add_no_wrap [of "nr_entries m" 1] sint32_small [of "nr_entries m"]
    by (simp_all add: E820MAX_def)
  show "map_wf (e820_add_region_raw m start sz type)"
    using assms nat unfolding e820_add_region_raw_def Let_def x big map_wf_def by auto
  show "live_map (e820_add_region_raw m start sz type) =
       (if unat (nr_entries m) < E820MAX then live_map m @ [mk_entry start sz type] else live_map m)"
    using assms nat unfolding e820_add_region_raw_def Let_def x big map_wf_def live_map_def
    by (auto simp: take_Suc_conv_app_nth)
qed

lemma append_raw_live:
  assumes "map_wf (e820 st)" "length (live_map (e820 st)) + length es \<le> E820MAX" "\<And>e. e \<in> set es \<Longrightarrow> no_wrap e"
  shows "\<exists>m. append_e820_map_raw es st = (0, st\<lparr>e820 := m\<rparr>) \<and> map_wf m \<and> live_map m = live_map (e820 st) @ es"
  using assms
proof (induction es arbitrary: st)
  case Nil
  then show ?case by (auto intro: exI [of _ "e820 st"])
next
  case (Cons e es)
  let ?st = "e820_add_region (e_addr e) (e_size e) (e_type e) st"
  have "unat (nr_entries (e820 st)) < E820MAX" using Cons.prems(1,2) by (simp add: live_map_def map_wf_def)
  then have live: "map_wf (e820 ?st)" "live_map (e820 ?st) = live_map (e820 st) @ [e]"
    using add_region_live [OF Cons.prems(1), of "e_addr e" "e_size e" "e_type e"]
    by (simp_all add: e820_add_region_def mk_entry_def)
  have "\<exists>m. append_e820_map_raw es ?st = (0, ?st\<lparr>e820 := m\<rparr>) \<and> map_wf m \<and> live_map m = live_map (e820 ?st) @ es"
    by (rule Cons.IH) (use live Cons.prems in auto)
  moreover have "\<not> e_addr e > e_addr e + e_size e" using Cons.prems(3) [of e] by (simp add: no_wrap_def)
  ultimately obtain m where "append_e820_map_raw (e # es) st = (0, st\<lparr>e820 := m\<rparr>)" "map_wf m"
    "live_map m = live_map (e820 ?st) @ es" by (auto simp: e820_add_region_def)
  then show ?case by (intro exI [of _ m]) (simp add: live)
qed

definition boot_ok :: "e820_state \<Rightarrow> bool" where
  "boot_ok st \<longleftrightarrow> length (bp_map st) = E820MAX \<and> 2 \<le> unat (bp_nr st) \<and> unat (bp_nr st) \<le> E820MAX \<and>
     (\<forall>i<unat (bp_nr st). no_wrap (bp_map st ! i)) \<and> map_wf (e820 st) \<and> nr_entries (e820 st) = 0"

definition bios_map :: "e820_state \<Rightarrow> e820entry list" where
  "bios_map st = take (unat (bp_nr st)) (bp_map st)"

lemma ordered_no_wrap: "ordered_map lim es \<Longrightarrow> e \<in> set es \<Longrightarrow> no_wrap e"
  by (auto simp: ordered_map_def no_wrap_def)

lemma setup_map:
  assumes "boot_ok st"
  shows "\<exists>new lim. ordered_map lim new \<and> length new \<le> E820MAX \<and>
    (\<forall>a<lim. type_at new a = type_at (bios_map st) a) \<and>
    (length new < E820MAX \<longrightarrow> type_at new = type_at (bios_map st)) \<and>
    (if length new < 2 then setup_memory_map st = Inl Panic
     else \<exists>st'. setup_memory_map st = Inr st' \<and> live_map (e820 st') = new \<and> map_wf (e820 st') \<and>
       e820_bios st' = e820 st')"
proof -
  note ok = assms [unfolded boot_ok_def]
  have le: "int (unat (bp_nr st)) \<le> int E820MAX" using ok by (simp only: of_nat_le_iff)
  obtain new lim where san: "sanitize_e820_map (bp_map st) (int E820MAX) (bp_nr st) =
      Inr (0, new @ drop (length new) (bp_map st), of_nat (length new))"
    and new: "length new \<le> E820MAX" "ordered_map lim new" "\<forall>a<lim. type_at new a = type_at (bios_map st) a"
      "length new < E820MAX \<longrightarrow> type_at new = type_at (bios_map st)"
    using sanitize_map [OF _ _ le, of "bp_map st"] ok by (auto simp: bios_map_def)
  let ?st = "st\<lparr>bp_map := new @ drop (length new) (bp_map st), bp_nr := of_nat (length new)\<rparr>"
  have un: "unat (of_nat (length new) :: u32) = length new"
    using new(1) unat_of_nat32 [of "length new"] by (simp add: E820MAX_def)
  then have si: "sint (of_nat (length new) :: u32) = int (length new)"
    using new(1) sint32_small [of "of_nat (length new)"] by (simp add: E820MAX_def)
  have eq: "setup_memory_map st = (case append_e820_map (bp_map ?st) (int (length new)) ?st of (ret, st) \<Rightarrow>
      if ret < 0 then Inl Panic else Inr (st\<lparr>e820_bios := e820 st\<rparr>))"
    by (simp add: setup_memory_map_def san si Let_def)
  have "if length new < 2 then setup_memory_map st = Inl Panic
     else \<exists>st'. setup_memory_map st = Inr st' \<and> live_map (e820 st') = new \<and> map_wf (e820 st') \<and> e820_bios st' = e820 st'"
  proof (cases "length new < 2")
    case True
    then show ?thesis by (simp add: eq append_e820_map_def)
  next
    case False
    have live0: "live_map (e820 ?st) = []" using ok by (simp add: live_map_def)
    obtain m where "append_e820_map_raw new ?st = (0, ?st\<lparr>e820 := m\<rparr>)" "map_wf m" "live_map m = new"
      using append_raw_live [of ?st new] ok new(1) live0 ordered_no_wrap [OF new(2)] by auto
    with False show ?thesis by (simp add: eq append_e820_map_def)
  qed
  with new show ?thesis by blast
qed

section \<open>Filling memblock\<close>

text \<open>An entry \<^verbatim>\<open>memblock_x86_fill\<close> hands over: RAM that ends below 4 GiB.\<close>

definition usable :: "e820entry \<Rightarrow> bool" where
  "usable e \<longleftrightarrow> e_type e = E820_RAM \<and> unat (e_addr e + e_size e) < 2 ^ 32"

lemma end_fits: "x = ucast (ucast x :: phys_addr_t) \<longleftrightarrow> unat (x :: u64) < 2 ^ 32"
proof -
  have "unat (ucast (ucast x :: phys_addr_t) :: u64) = unat x mod 2 ^ 32"
    by (simp add: unsigned_ucast_eq take_bit_eq_mod unat_mod)
  then show ?thesis by (metis mod_less mod_less_divisor unsigned_word_eqI zero_less_numeral zero_less_power)
qed

lemma no_wrap_unat: "no_wrap e \<longleftrightarrow> unat (e_addr e + e_size e) = unat (e_addr e) + unat (e_size e)"
  using unat_lt64 [of "e_size e"] by (auto simp: no_wrap_def word_le_nat_alt unat_plus_if' split: if_splits)

lemma usable_range:
  assumes "usable e" "no_wrap e"
  shows "{unat (ucast (e_addr e) :: phys_addr_t)..<range_end (ucast (e_addr e)) (ucast (e_size e))} =
    {unat (e_addr e)..<unat (e_addr e + e_size e)}"
  using assms by (auto simp: usable_def no_wrap_unat range_end_def unat_ucast32)

lemma fill_loop_covers:
  assumes "mb_wf mb" "\<And>e. e \<in> set es \<Longrightarrow> no_wrap e"
  shows "\<exists>mb'. memblock_x86_fill_loop es mb = Inr mb' \<and> mb_wf mb' \<and> mb_reserved mb' = mb_reserved mb \<and>
    covered (mb_memory mb) \<subseteq> covered (mb_memory mb') \<and>
    covered (mb_memory mb') \<subseteq> covered (mb_memory mb) \<union>
      (\<Union>e \<in> {e \<in> set es. usable e}. {unat (e_addr e)..<unat (e_addr e + e_size e)})"
  using assms
proof (induction es arbitrary: mb)
  case (Cons e es)
  note IH = Cons.IH [OF _ Cons.prems(2) [OF list.set_intros(2)]]
  let ?U = "\<lambda>es. \<Union>e \<in> {e \<in> set es. usable e}. {unat (e_addr e)..<unat (e_addr e + e_size e)}"
  show ?case
  proof (cases "usable e")
    case True
    let ?b = "ucast (e_addr e) :: phys_addr_t" and ?n = "ucast (e_size e) :: phys_addr_t"
    from memory_store.add_law [OF Cons.prems(1), of ?b ?n] obtain ret mb1 where
      mb1: "memblock_add ?b ?n mb = Inr (ret, mb1)" "mb_wf mb1" "mb_reserved mb1 = mb_reserved mb"
      "covered (mb_memory mb) \<subseteq> covered (mb_memory mb1)"
      "covered (mb_memory mb1) \<subseteq> covered (mb_memory mb) \<union> {unat (e_addr e)..<unat (e_addr e + e_size e)}"
      unfolding usable_range [OF True Cons.prems(2) [of e, simplified]] by auto
    have "memblock_x86_fill_loop (e # es) mb = memblock_x86_fill_loop es mb1"
      using True mb1(1) end_fits [of "e_addr e + e_size e"] by (simp add: usable_def Let_def)
    moreover obtain mb2 where mb2: "memblock_x86_fill_loop es mb1 = Inr mb2" "mb_wf mb2" "mb_reserved mb2 = mb_reserved mb1"
      "covered (mb_memory mb1) \<subseteq> covered (mb_memory mb2)" "covered (mb_memory mb2) \<subseteq> covered (mb_memory mb1) \<union> ?U es"
      using IH [OF mb1(2)] by auto
    moreover have "?U (e # es) = {unat (e_addr e)..<unat (e_addr e + e_size e)} \<union> ?U es" using True by auto
    ultimately show ?thesis using mb1(3-5) by (intro exI [of _ mb2]) auto
  next
    case False
    then have "memblock_x86_fill_loop (e # es) mb = memblock_x86_fill_loop es mb"
      using end_fits [of "e_addr e + e_size e"] by (auto simp: usable_def Let_def)
    moreover have "?U (e # es) = ?U es" using False by auto
    ultimately show ?thesis using IH [OF Cons.prems(1)] by simp
  qed
qed auto

lemma region_in_cover:
  assumes "shape_wf t" "r \<in> set (type_regs t)"
  shows "{r_lo r..<r_hi r} \<subseteq> covered t" "r_lo r < r_hi r"
proof -
  show "{r_lo r..<r_hi r} \<subseteq> covered t"
    using assms(2) by (auto simp: covered_def type_map_def dom_attrs region_cover_def)
  have "regs_wf (type_regs t)" using assms(1) by (simp add: shape_wf_def)
  then show "r_lo r < r_hi r" using assms(2) by (intro region_ok_less) (rule regs_wf_ok)
qed

lemma trim_loop_max: "memblock_trim_loop n align i t = Inr u \<Longrightarrow> mt_max u = mt_max t"
proof (induction n arbitrary: i t)
  case (Suc n)
  have "mt_max (memblock_remove_region t i) = mt_max t" "mt_max (set_region t i r) = mt_max t" for r
    by (simp_all add: memblock_remove_region_def set_region_def Let_def)
  with Suc show ?case by (auto simp: Let_def split: if_splits)
qed simp

text \<open>After trimming, every page with a covered address was covered as a whole.\<close>

lemma trim_pages:
  assumes wf: "mb_wf mb" and low: "\<And>a. a \<in> covered (mb_memory mb) \<Longrightarrow> a < 2 ^ 32 - 2 ^ 12"
  shows "\<exists>mb'. memblock_trim_memory PAGE_SIZE mb = Inr mb' \<and> mb_wf mb' \<and> mb_reserved mb' = mb_reserved mb \<and>
    (\<forall>a \<in> covered (mb_memory mb'). \<forall>x. x div 2 ^ 12 = a div 2 ^ 12 \<longrightarrow> x \<in> covered (mb_memory mb))"
proof -
  let ?rs = "type_regs (mb_memory mb)"
  have sh: "shape_wf (mb_memory mb)" using wf by (simp add: mb_wf_def)
  have "trimmable 12 ?rs" unfolding trimmable_def
  proof
    fix r assume "r \<in> set ?rs"
    with region_in_cover [OF sh this] low [of "r_lo r"] show "r_lo r \<le> 2 ^ 32 - 2 ^ 12" by force
  qed
  from trim_memory_live [OF sh _ this] obtain t where
    t: "memblock_trim_memory PAGE_SIZE mb = Inr (mb\<lparr>mb_memory := t\<rparr>)" "shape_wf t"
      "type_map t = keep_blocks 12 ?rs (type_map (mb_memory mb))"
    by (auto simp: PAGE_SIZE_def)
  have "x \<in> covered (mb_memory mb)" if "a \<in> covered t" and x: "x div 2 ^ 12 = a div 2 ^ 12" for a x
  proof -
    from that(1) t(3) obtain r where r: "r \<in> set ?rs" "block_inside 12 a r"
      by (auto simp: covered_def keep_blocks_def dom_def split: if_splits)
    have "a - a mod 2 ^ 12 \<le> x \<and> x < a - a mod 2 ^ 12 + 2 ^ 12"
      unfolding minus_mod_eq_div_mult x [symmetric]
      using div_mult_mod_eq [of x "2 ^ 12"] mod_less_divisor [of "2 ^ 12" x] by simp_all
    with r(2) have "x \<in> {r_lo r..<r_hi r}" by (auto simp: block_inside_def)
    with region_in_cover(1) [OF sh r(1)] show ?thesis by blast
  qed
  moreover have "mt_max t = mt_max (mb_memory mb)"
  proof -
    obtain u where u: "memblock_trim_loop (nr_regions (mb_memory mb) + 2) PAGE_SIZE 0 (mb_memory mb) = Inr u"
      "mb\<lparr>mb_memory := u\<rparr> = mb\<lparr>mb_memory := t\<rparr>" using t(1) unfolding memblock_trim_memory_def kbind_eq_Inr by blast
    have "u = t" using arg_cong [OF u(2), of mb_memory] by simp
    then show ?thesis using trim_loop_max [OF u(1)] by simp
  qed
  then have "mb_wf (mb\<lparr>mb_memory := t\<rparr>)" using wf t(2) by (simp add: mb_wf_def)
  ultimately show ?thesis using t(1) by (intro exI [of _ "mb\<lparr>mb_memory := t\<rparr>"]) auto
qed

lemma x86_fill_ram:
  assumes "mb_wf mb" "covered (mb_memory mb) = {}" "\<And>e. e \<in> set (live_map (e820 st)) \<Longrightarrow> no_wrap e"
    and "\<And>e. e \<in> set (live_map (e820 st)) \<Longrightarrow> usable e \<Longrightarrow> unat (e_addr e + e_size e) \<le> 2 ^ 32 - 2 ^ 12"
  shows "\<exists>mb'. memblock_x86_fill st mb = Inr mb' \<and> mb_wf mb' \<and> mb_reserved mb' = mb_reserved mb \<and>
    (\<forall>a \<in> covered (mb_memory mb'). \<forall>x. x div 2 ^ 12 = a div 2 ^ 12 \<longrightarrow>
       (\<exists>e \<in> set (live_map (e820 st)). usable e \<and> unat (e_addr e) \<le> x \<and> x < unat (e_addr e + e_size e)))"
proof -
  obtain mb1 where mb1: "memblock_x86_fill_loop (live_map (e820 st)) mb = Inr mb1" "mb_wf mb1" "mb_reserved mb1 = mb_reserved mb"
    "covered (mb_memory mb1) \<subseteq>
       (\<Union>e \<in> {e \<in> set (live_map (e820 st)). usable e}. {unat (e_addr e)..<unat (e_addr e + e_size e)})"
    using fill_loop_covers [OF assms(1,3), of "live_map (e820 st)", unfolded assms(2) Un_empty_left] by blast
  have ram: "\<exists>e \<in> set (live_map (e820 st)). usable e \<and> unat (e_addr e) \<le> x \<and> x < unat (e_addr e + e_size e)"
    if "x \<in> covered (mb_memory mb1)" for x
    using subsetD [OF mb1(4) that] by (simp only: UN_iff mem_Collect_eq atLeastLessThan_iff) blast
  have "a < 2 ^ 32 - 2 ^ 12" if "a \<in> covered (mb_memory mb1)" for a
    using ram [OF that] assms(4) by (meson order_less_le_trans)
  from trim_pages [OF mb1(2) this] obtain mb2 where mb2: "memblock_trim_memory PAGE_SIZE mb1 = Inr mb2"
    "mb_wf mb2" "mb_reserved mb2 = mb_reserved mb1"
    "\<forall>a \<in> covered (mb_memory mb2). \<forall>x. x div 2 ^ 12 = a div 2 ^ 12 \<longrightarrow> x \<in> covered (mb_memory mb1)" by blast
  have "memblock_x86_fill st mb = Inr mb2"
    using mb1(1) mb2(1) by (simp add: memblock_x86_fill_def live_map_def)
  moreover have "\<forall>a \<in> covered (mb_memory mb2). \<forall>x. x div 2 ^ 12 = a div 2 ^ 12 \<longrightarrow>
       (\<exists>e \<in> set (live_map (e820 st)). usable e \<and> unat (e_addr e) \<le> x \<and> x < unat (e_addr e + e_size e))"
    using mb2(4) ram by blast
  ultimately show ?thesis using mb2(2,3) mb1(3) by (intro exI [of _ mb2]) (simp only: simp_thms)
qed

section \<open>The highest page frame\<close>

definition ram_entry :: "e820entry \<Rightarrow> bool" where
  "ram_entry e \<longleftrightarrow> e_type e = E820_RAM \<or> e_type e = E820_PRAM"

definition pfn_of :: "u64 \<Rightarrow> nat" where
  "pfn_of a = unat a div 2 ^ 12"

text \<open>What the loop computes: the largest end below the limit, or the limit itself.\<close>

definition end_pfn_spec :: "nat \<Rightarrow> e820entry list \<Rightarrow> nat" where
  "end_pfn_spec limit es =
     Max (insert 0 ((\<lambda>e. min limit (pfn_of (e_addr e + e_size e))) ` {e \<in> set es. ram_entry e \<and> pfn_of (e_addr e) \<le> limit}))"

lemma unat_pfn: "unat a < 2 ^ 44 \<Longrightarrow> unat (ucast (drop_bit PAGE_SHIFT (a :: u64)) :: ulong) = pfn_of a"
  by (simp add: unat_ucast32 PAGE_SHIFT_def pfn_of_def drop_bit_eq_div unat_div less_mult_imp_div_less)

lemma end_pfn_loop_spec:
  assumes "\<And>e. e \<in> set es \<Longrightarrow> unat (e_addr e) < 2 ^ 44 \<and> unat (e_addr e + e_size e) < 2 ^ 44" "last_pfn \<le> limit"
  shows "unat (e820_end_pfn_loop limit es last_pfn) = max (unat last_pfn) (end_pfn_spec (unat limit) es)"
  using assms
proof (induction es arbitrary: last_pfn)
  case Nil
  then show ?case by (simp add: end_pfn_spec_def)
next
  case (Cons e es)
  let ?L = "unat limit" and ?S = "pfn_of (e_addr e)" and ?E = "pfn_of (e_addr e + e_size e)"
  let ?A = "\<lambda>es. (\<lambda>e. min ?L (pfn_of (e_addr e + e_size e))) ` {e \<in> set es. ram_entry e \<and> pfn_of (e_addr e) \<le> ?L}"
  have pf: "unat (ucast (drop_bit PAGE_SHIFT (e_addr e)) :: ulong) = ?S"
    "unat (ucast (drop_bit PAGE_SHIFT (e_addr e + e_size e)) :: ulong) = ?E"
    using Cons.prems(1) [of e] by (simp_all add: unat_pfn)
  have bound: "end_pfn_spec ?L es \<le> ?L" by (auto simp: end_pfn_spec_def)
  have spec: "end_pfn_spec ?L (e # es) =
      (if ram_entry e \<and> ?S \<le> ?L then max (min ?L ?E) (end_pfn_spec ?L es) else end_pfn_spec ?L es)"
  proof (cases "ram_entry e \<and> ?S \<le> ?L")
    case True
    then have "?A (e # es) = insert (min ?L ?E) (?A es)" by auto
    with True show ?thesis unfolding end_pfn_spec_def by (simp add: insert_commute [of 0])
  next
    case False
    then have "?A (e # es) = ?A es" by auto
    then have "end_pfn_spec ?L (e # es) = end_pfn_spec ?L es" unfolding end_pfn_spec_def by (rule arg_cong)
    with False show ?thesis by (simp only: if_False)
  qed
  note IH = Cons.IH [OF Cons.prems(1) [OF list.set_intros(2)]]
  show ?case
    using IH Cons.prems(2) bound spec
    by (auto simp: Let_def ram_entry_def word_less_nat_alt word_le_nat_alt pf max_def min_def)
qed

section \<open>Properties\<close>

definition demo_bios :: "e820entry list" where
  "demo_bios = mk_entry 0 0x9fc00 E820_RAM # mk_entry 0x100000 0x7ef0000 E820_RAM # mk_entry 0x9f000 0x1000 E820_RESERVED #
     replicate 125 (mk_entry 0 0 0)"

definition demo_boot :: e820_state where
  "demo_boot = \<lparr>bp_map = demo_bios, bp_nr = 3, e820 = \<lparr>nr_entries = 0, e_map = replicate E820MAX (mk_entry 0 0 0)\<rparr>,
     e820_bios = \<lparr>nr_entries = 0, e_map = replicate E820MAX (mk_entry 0 0 0)\<rparr>\<rparr>"

lemma demo_bios_no_wrap: "i < 3 \<Longrightarrow> no_wrap (demo_bios ! i)"
proof -
  assume "i < 3"
  then have "i = 0 \<or> i = 1 \<or> i = 2" by linarith
  then show ?thesis by (auto simp: demo_bios_def no_wrap_def mk_entry_def)
qed

lemma boot_ok_demo: "boot_ok demo_boot"
  using demo_bios_no_wrap
  by (simp add: boot_ok_def demo_boot_def map_wf_def E820MAX_def) (simp add: demo_bios_def)

text \<open>
  C5: \<open>sanitize_e820_map\<close> of at least two entries, none of which wraps, succeeds.  The new map is in
  address order without overlaps or empty entries and fits the array.  Up to a limit it gives every
  address the highest type of the entries that covered it, and when the array did not fill up it
  does so at every address.
\<close>

theorem sanitize_correct:
  assumes "2 \<le> unat nr" "unat nr \<le> length biosmap" "int (unat nr) \<le> max_nr_map" "max_nr_map \<le> int E820MAX"
    and "\<And>i. i < unat nr \<Longrightarrow> no_wrap (biosmap ! i)"
  shows "\<exists>new lim. sanitize_e820_map biosmap max_nr_map nr = Inr (0, new @ drop (length new) biosmap, of_nat (length new)) \<and>
    int (length new) \<le> max_nr_map \<and> ordered_map lim new \<and>
    (\<forall>a<lim. type_at new a = type_at (take (unat nr) biosmap) a) \<and>
    (int (length new) < max_nr_map \<longrightarrow> type_at new = type_at (take (unat nr) biosmap))"
  using assms by (rule sanitize_map)

theorem sanitize_correct_witness:
  "\<exists>new lim. sanitize_e820_map demo_bios 128 3 = Inr (0, new @ drop (length new) demo_bios, of_nat (length new)) \<and>
    int (length new) \<le> 128 \<and> ordered_map lim new \<and> (\<forall>a<lim. type_at new a = type_at (take 3 demo_bios) a)"
  using sanitize_correct [of 3 demo_bios 128] demo_bios_no_wrap
  by (simp add: E820MAX_def) (auto simp: demo_bios_def)

text \<open>
  the other branches of \<open>sanitize_e820_map\<close>: with fewer than two entries, or an entry that wraps around
  the 64-bit address space, it returns -1 and changes nothing; more entries than the array holds is a
  \<^verbatim>\<open>BUG\<close>.
\<close>

theorem sanitize_refuses:
  "(sanitize_e820_map biosmap max_nr_map nr = Inr (- 1, biosmap', nr') \<longleftrightarrow>
     biosmap' = biosmap \<and> nr' = nr \<and>
     (nr < 2 \<or> sint nr \<le> max_nr_map \<and> (\<exists>e. e \<in> set (take (nat (sint nr)) biosmap) \<and> \<not> no_wrap e))) \<and>
   (sanitize_e820_map biosmap max_nr_map nr = Inl BugOn \<longleftrightarrow> \<not> nr < 2 \<and> max_nr_map < sint nr)"
  by (auto simp: sanitize_e820_map_def Let_def list_ex_iff no_wrap_def not_le split: option.splits)

text \<open>
  \<open>setup_memory_map\<close> on a sane BIOS table either panics, exactly when sanitizing leaves fewer than two
  entries, or leaves the sanitized table in \<^verbatim>\<open>e820\<close> and a copy in \<^verbatim>\<open>e820_bios\<close>: ordered, without
  overlaps, and with the type of every address when the table did not fill up.
\<close>

theorem setup_memory_map_correct:
  assumes "boot_ok st"
  shows "\<exists>new lim. ordered_map lim new \<and> length new \<le> E820MAX \<and>
    (\<forall>a<lim. type_at new a = type_at (bios_map st) a) \<and>
    (length new < E820MAX \<longrightarrow> type_at new = type_at (bios_map st)) \<and>
    (if length new < 2 then setup_memory_map st = Inl Panic
     else \<exists>st'. setup_memory_map st = Inr st' \<and> live_map (e820 st') = new \<and> map_wf (e820 st') \<and>
       e820_bios st' = e820 st')"
  using assms by (rule setup_map)

theorem setup_memory_map_correct_witness:
  "\<exists>new lim. ordered_map lim new \<and> (\<forall>a<lim. type_at new a = type_at (bios_map demo_boot) a) \<and>
    (if length new < 2 then setup_memory_map demo_boot = Inl Panic
     else \<exists>st'. setup_memory_map demo_boot = Inr st' \<and> live_map (e820 st') = new)"
  using setup_memory_map_correct [OF boot_ok_demo] by (metis (full_types))

text \<open>
  filling an empty memblock from the kernel's map hands over RAM only: \<open>memblock_x86_fill\<close> returns, the
  reserved array is untouched, and every page that ends up in the memory array lies wholly in RAM
  entries that end below 4 GiB.
\<close>

theorem x86_fill_only_ram:
  assumes "mb_wf mb" "covered (mb_memory mb) = {}" "\<And>e. e \<in> set (live_map (e820 st)) \<Longrightarrow> no_wrap e"
    and "\<And>e. e \<in> set (live_map (e820 st)) \<Longrightarrow> usable e \<Longrightarrow> unat (e_addr e + e_size e) \<le> 2 ^ 32 - 2 ^ 12"
  shows "\<exists>mb'. memblock_x86_fill st mb = Inr mb' \<and> shape_wf (mb_memory mb') \<and> mb_reserved mb' = mb_reserved mb \<and>
    (\<forall>a \<in> covered (mb_memory mb'). \<forall>x. x div 2 ^ 12 = a div 2 ^ 12 \<longrightarrow>
       (\<exists>e \<in> set (live_map (e820 st)). usable e \<and> unat (e_addr e) \<le> x \<and> x < unat (e_addr e + e_size e)))"
  using x86_fill_ram [OF assms] unfolding mb_wf_def by blast

definition demo_kernel_map :: e820_state where
  "demo_kernel_map = demo_boot\<lparr>e820 := \<lparr>nr_entries = 1, e_map = [mk_entry 0x100000 0x7ef0000 E820_RAM]\<rparr>\<rparr>"

theorem x86_fill_only_ram_witness:
  "\<exists>mb'. memblock_x86_fill demo_kernel_map init_memblock = Inr mb' \<and> shape_wf (mb_memory mb')"
proof -
  have "covered (mb_memory init_memblock) = {}"
    by (simp add: covered_def type_map_def type_regs_def init_memblock_def init_memblock_type_def region_at_def
        INIT_MEMBLOCK_REGIONS_def zero_region_def)
  moreover have "live_map (e820 demo_kernel_map) = [mk_entry 0x100000 0x7ef0000 E820_RAM]"
    by (simp add: live_map_def demo_kernel_map_def)
  ultimately show ?thesis
    using x86_fill_only_ram [OF mb_wf_init, of demo_kernel_map] by (auto simp: no_wrap_def mk_entry_def)
qed

text \<open>
  \<open>e820_end_pfn\<close> returns the largest end of RAM at or below the limit, or the limit itself when RAM
  crosses it, whatever the order of the entries.
\<close>

theorem e820_end_pfn_correct:
  assumes "\<And>e. e \<in> set (live_map m) \<Longrightarrow> unat (e_addr e) < 2 ^ 44 \<and> unat (e_addr e + e_size e) < 2 ^ 44"
  shows "unat (e820_end_pfn m limit) = min (2 ^ 20) (end_pfn_spec (unat limit) (live_map m))"
  using end_pfn_loop_spec [OF assms, where last_pfn = 0 and limit = limit]
  by (auto simp: e820_end_pfn_def Let_def live_map_def [symmetric] MAX_ARCH_PFN_def PAGE_SHIFT_def word_less_nat_alt)

theorem e820_end_pfn_correct_witness:
  "unat (e820_end_pfn (e820 demo_kernel_map) 0x100000) = min (2 ^ 20) (end_pfn_spec 0x100000 (live_map (e820 demo_kernel_map)))"
  using e820_end_pfn_correct [of "e820 demo_kernel_map" "0x100000"]
  by (simp add: live_map_def demo_kernel_map_def mk_entry_def)

text \<open>
  a table of two adjacent RAM entries is not empty, yet it panics: sanitizing merges them into one and
  \<open>append_e820_map\<close> refuses a single entry.
\<close>

definition adjacent_boot :: e820_state where
  "adjacent_boot = demo_boot\<lparr>bp_map := mk_entry 0 0x1000 E820_RAM # mk_entry 0x1000 0x1000 E820_RAM # drop 2 demo_bios, bp_nr := 2\<rparr>"

theorem adjacent_entries_panic: "setup_memory_map adjacent_boot = Inl Panic"
  by code_simp

end
