(* ===== verification/Resource_Spec.thy ===== *)
theory Resource_Spec
  imports Resource
begin

text \<open>
  What the resource tree operations do to the ordered list of children of a node: requesting inserts a
  disjoint range in place, releasing takes it out again or splices its children in, and inserting
  makes the ranges it covers its children.
\<close>

section \<open>The children of a node\<close>

definition in_range :: "heap \<Rightarrow> ulong \<Rightarrow> ulong \<Rightarrow> bool" where
  "in_range h root x \<longleftrightarrow> res_start (h x) \<le> res_end (h x) \<and> res_start (h root) \<le> res_start (h x) \<and>
     res_end (h x) \<le> res_end (h root)"

definition overlaps :: "heap \<Rightarrow> ulong \<Rightarrow> ulong \<Rightarrow> bool" where
  "overlaps h x y \<longleftrightarrow> res_start (h x) \<le> res_end (h y) \<and> res_start (h y) \<le> res_end (h x)"

definition before :: "heap \<Rightarrow> ulong \<Rightarrow> ulong \<Rightarrow> bool" where
  "before h x y \<longleftrightarrow> res_end (h x) < res_start (h y)"

definition children_ok :: "heap \<Rightarrow> ulong \<Rightarrow> ulong list \<Rightarrow> bool" where
  "children_ok h root xs \<longleftrightarrow> seg h (child (h root)) xs 0 \<and> distinct xs \<and> root \<notin> set xs \<and>
     sorted_wrt (before h) xs \<and> (\<forall>x \<in> set xs. parent (h x) = root \<and> in_range h root x)"

definition same_ranges :: "heap \<Rightarrow> heap \<Rightarrow> bool" where
  "same_ranges h h' \<longleftrightarrow> (\<forall>x. res_start (h' x) = res_start (h x) \<and> res_end (h' x) = res_end (h x))"

lemma same_ranges_preds:
  "same_ranges h h' \<Longrightarrow> in_range h' = in_range h" "same_ranges h h' \<Longrightarrow> before h' = before h"
  "same_ranges h h' \<Longrightarrow> overlaps h' = overlaps h"
  by (simp_all add: same_ranges_def in_range_def before_def overlaps_def fun_eq_iff)

lemma children_unique: "children_ok h root xs \<Longrightarrow> children_ok h root ys \<Longrightarrow> xs = ys"
proof -
  have "seg h p xs 0 \<Longrightarrow> seg h p ys 0 \<Longrightarrow> xs = ys" for p
  proof (induction xs arbitrary: p ys)
    case Nil
    then show ?case by (cases ys) auto
  next
    case (Cons x xs)
    then show ?case by (cases ys) auto
  qed
  then show "children_ok h root xs \<Longrightarrow> children_ok h root ys \<Longrightarrow> xs = ys" by (auto simp: children_ok_def)
qed

section \<open>Requesting\<close>

definition link :: "heap \<Rightarrow> ulong \<Rightarrow> ulong \<Rightarrow> ulong list \<Rightarrow> ulong \<Rightarrow> heap" where
  "link h root new pre nxt = set_parent (write_slot (set_sibling h new nxt) (slot_after root pre) new) new root"

definition first_of :: "ulong list \<Rightarrow> ulong" where
  "first_of xs = (case xs of [] \<Rightarrow> 0 | x # _ \<Rightarrow> x)"

lemma first_of_simps [simp]: "first_of [] = 0" "first_of (x # xs) = x"
  by (simp_all add: first_of_def)

lemma seg_first: "seg h p xs 0 \<Longrightarrow> p = first_of xs"
  by (cases xs) auto

lemma request_loop_list:
  assumes "seg h (child (h root)) (pre @ bef @ rest) 0" "res_start (h new) \<le> res_end (h new)"
    "\<forall>x \<in> set bef. before h x new \<and> res_start (h x) \<le> res_end (h x)" "rest \<noteq> [] \<Longrightarrow> \<not> before h (hd rest) new"
  shows "request_loop h root new (slot_after root pre) =
    (if rest = [] \<or> before h new (hd rest) then Some (0, link h root new (pre @ bef) (first_of rest)) else Some (hd rest, h))"
  using assms
proof (induction bef arbitrary: pre)
  case Nil
  then have "read_slot h (slot_after root pre) = first_of rest"
    by (auto simp: read_slot_after dest: seg_first)
  moreover have "first_of rest = 0 \<longleftrightarrow> rest = []" using Nil.prems(1) by (cases rest) auto
  ultimately show ?case
    using Nil.prems(4) by (subst request_loop.simps) (cases rest; simp add: link_def before_def)
next
  case (Cons y bef)
  have y: "read_slot h (slot_after root pre) = y" "y \<noteq> 0"
    using Cons.prems(1) by (auto simp: read_slot_after)
  have sy: "res_start (h y) \<le> res_end (h y)" "res_end (h y) < res_start (h new)"
    using Cons.prems(3) by (simp_all add: before_def)
  then have "\<not> res_start (h y) > res_end (h new)" using Cons.prems(2) by auto
  then have "request_loop h root new (slot_after root pre) = request_loop h root new (slot_after root (pre @ [y]))"
    using sy y by (subst request_loop.simps) simp
  with Cons.IH [of "pre @ [y]"] Cons.prems show ?case by simp
qed

lemma link_frame:
  "same_ranges h (link h root new pre nxt)"
  "x \<noteq> new \<Longrightarrow> x \<noteq> root \<Longrightarrow> x \<notin> set pre \<Longrightarrow> link h root new pre nxt x = h x"
  "root \<noteq> new \<Longrightarrow> child (link h root new pre nxt new) = child (h new)"
  by (auto simp: link_def same_ranges_def write_slot_other set_sibling_def set_parent_def)

lemma link_children:
  assumes ok: "children_ok h root (pre @ post)" and new: "new \<noteq> 0" "new \<noteq> root" "new \<notin> set (pre @ post)"
    and r: "in_range h root new" "\<forall>x \<in> set pre. before h x new" "\<forall>x \<in> set post. before h new x"
  shows "children_ok (link h root new pre (first_of post)) root (pre @ new # post)"
proof -
  let ?q = "first_of post"
  let ?h1 = "set_sibling h new ?q" and ?h = "link h root new pre ?q"
  obtain q where q: "seg h (child (h root)) pre q" "seg h q post 0" using ok by (auto simp: children_ok_def)
  have qq: "q = ?q" using q(2) by (rule seg_first)
  have d: "distinct pre" "root \<notin> set pre" "distinct post" "root \<notin> set post" "set pre \<inter> set post = {}"
    using ok by (auto simp: children_ok_def)
  have "seg ?h1 (child (?h1 root)) pre q" using q(1) new(3) by (subst seg_frame [of _ _ h]) auto
  from write_slot_seg [OF this d(1,2), of new]
  have "seg ?h (child (?h root)) pre new" unfolding link_def
    by (subst seg_frame [of _ _ "write_slot ?h1 (slot_after root pre) new"]) (auto simp del: fun_upd_apply)
  moreover have "seg ?h q post 0"
  proof (subst seg_frame [of _ _ h])
    fix x assume "x \<in> set post"
    then have "x \<notin> set pre" "x \<noteq> new" using d(5) new(3) by auto
    then show "sibling (?h x) = sibling (h x)" by (simp add: link_def write_slot_other)
  qed (rule q(2))
  moreover have "sibling (?h new) = q" using new(3) qq by (simp add: link_def write_slot_other)
  ultimately have sg: "seg ?h (child (?h root)) (pre @ new # post) 0" using new(1) by auto
  note sr = same_ranges_preds [OF link_frame(1) [of h root new pre ?q]]
  have "parent (?h x) = (if x = new then root else parent (h x))" for x by (simp add: link_def)
  with sg show ?thesis
    unfolding children_ok_def sr using ok new r by (auto simp: children_ok_def sorted_wrt_append)
qed

text \<open>In an ordered list the nodes before, overlapping and after a range are three consecutive parts.\<close>

lemma sorted_parts:
  assumes "sorted_wrt (before h) xs" "\<forall>x \<in> set xs. res_start (h x) \<le> res_end (h x)" "res_start (h new) \<le> res_end (h new)"
  shows "xs = filter (\<lambda>x. before h x new) xs @ filter (overlaps h new) xs @ filter (before h new) xs"
  using assms
proof (induction xs)
  case (Cons x xs)
  have IH: "xs = filter (\<lambda>x. before h x new) xs @ filter (overlaps h new) xs @ filter (before h new) xs"
    using Cons by simp
  have le: "res_end (h x) < res_start (h y) \<and> res_start (h y) \<le> res_end (h y)" if "y \<in> set xs" for y
    using Cons.prems that by (simp add: before_def)
  have excl: "overlaps h new x \<longleftrightarrow> \<not> before h x new \<and> \<not> before h new x" "\<not> (before h x new \<and> before h new x)"
    using Cons.prems(2,3) by (auto simp: overlaps_def before_def not_less)
  have x: "res_start (h x) \<le> res_end (h x)" using Cons.prems(2) by simp
  consider "before h x new" | "overlaps h new x" "\<not> before h x new" | "before h new x" "\<not> before h x new" using excl by blast
  then show ?case
  proof cases
    case 1
    then show ?thesis using IH excl by simp
  next
    case 2
    have "\<not> before h y new" if "y \<in> set xs" for y using le [OF that] 2(2) unfolding before_def by (elim conjE) order
    then have "filter (\<lambda>x. before h x new) xs = []" by (simp add: filter_empty_conv)
    with IH 2 excl show ?thesis by simp
  next
    case 3
    have "\<not> before h y new \<and> \<not> overlaps h new y" if "y \<in> set xs" for y
    proof -
      have "res_end (h new) < res_start (h y)" "\<not> res_end (h y) < res_start (h new)"
        using le [OF that] 3 x Cons.prems(3) unfolding before_def by (elim conjE, order)+
      then show ?thesis by (simp add: before_def overlaps_def not_le)
    qed
    then have "filter (\<lambda>x. before h x new) xs = [] \<and> filter (overlaps h new) xs = []" by (simp add: filter_empty_conv)
    with IH 3 excl show ?thesis by simp
  qed
qed simp

definition fresh :: "heap \<Rightarrow> ulong \<Rightarrow> ulong list \<Rightarrow> ulong \<Rightarrow> bool" where
  "fresh h root xs new \<longleftrightarrow> new \<noteq> 0 \<and> root \<noteq> 0 \<and> new \<noteq> root \<and> new \<notin> set xs"

lemma request_raw_list:
  assumes ok: "children_ok h root xs" and fr: "fresh h root xs new"
  defines "bef \<equiv> filter (\<lambda>x. before h x new) xs" and "aft \<equiv> filter (before h new) xs"
  shows "request_resource_raw h root new =
    (if \<not> in_range h root new then Some (root, h)
     else if filter (overlaps h new) xs \<noteq> [] then Some (hd (filter (overlaps h new) xs), h)
     else Some (0, link h root new bef (first_of aft)))"
    and "in_range h root new \<Longrightarrow> filter (overlaps h new) xs = [] \<Longrightarrow>
      children_ok (link h root new bef (first_of aft)) root (bef @ new # aft)"
proof -
  let ?ov = "filter (overlaps h new) xs"
  have valid: "\<forall>x \<in> set xs. res_start (h x) \<le> res_end (h x)" and srt: "sorted_wrt (before h) xs"
    and sg: "seg h (child (h root)) xs 0"
    using ok by (auto simp: children_ok_def in_range_def)
  show "request_resource_raw h root new =
    (if \<not> in_range h root new then Some (root, h)
     else if ?ov \<noteq> [] then Some (hd ?ov, h) else Some (0, link h root new bef (first_of aft)))"
  proof (cases "in_range h root new")
    case True
    then have le: "res_start (h new) \<le> res_end (h new)" by (simp add: in_range_def)
    have parts: "xs = bef @ (?ov @ aft)" using sorted_parts [OF srt valid le] by (simp add: bef_def aft_def)
    have hd: "\<not> before h (hd (?ov @ aft)) new \<and> (before h new (hd (?ov @ aft)) \<longleftrightarrow> ?ov = [])" if "?ov @ aft \<noteq> []"
    proof (cases "?ov")
      case Nil
      with that have "hd aft \<in> set aft" by simp
      then have "before h new (hd aft)" "res_start (h (hd aft)) \<le> res_end (h (hd aft))" using valid by (auto simp: aft_def)
      with le Nil show ?thesis by (auto simp: before_def)
    next
      case (Cons y ys)
      then have "y \<in> set ?ov" by (simp only: list.set_intros)
      then have "overlaps h new y" by simp
      with Cons show ?thesis by (auto simp: overlaps_def before_def)
    qed
    have raw: "request_resource_raw h root new = request_loop h root new (slot_after root [])"
      using True unfolding request_resource_raw_def in_range_def not_less [symmetric] by simp
    have "request_loop h root new (slot_after root []) =
      (if ?ov @ aft = [] \<or> before h new (hd (?ov @ aft)) then Some (0, link h root new ([] @ bef) (first_of (?ov @ aft)))
       else Some (hd (?ov @ aft), h))"
      by (rule request_loop_list) (use sg le hd valid parts in \<open>auto simp: bef_def\<close>)
    with raw True hd show ?thesis by (cases "?ov"; cases aft) auto
  qed (auto simp: request_resource_raw_def in_range_def)
  show "in_range h root new \<Longrightarrow> ?ov = [] \<Longrightarrow> children_ok (link h root new bef (first_of aft)) root (bef @ new # aft)"
  proof -
    assume r: "in_range h root new" and none: "?ov = []"
    then have "xs = bef @ aft" using sorted_parts [OF srt valid, of new] by (simp add: bef_def aft_def in_range_def)
    then have ok': "children_ok h root (bef @ aft)" using ok by (rule subst)
    show ?thesis by (rule link_children [OF ok' _ _ _ r]) (use fr in \<open>auto simp: fresh_def bef_def aft_def\<close>)
  qed
qed

section \<open>Releasing\<close>

definition unlink :: "heap \<Rightarrow> ulong \<Rightarrow> ulong \<Rightarrow> ulong list \<Rightarrow> heap" where
  "unlink h root old pre = set_parent (write_slot h (slot_after root pre) (sibling (h old))) old 0"

lemma release_loop_found:
  assumes "seg h (child (h root)) (pre @ mid @ old # post) 0" "old \<notin> set mid"
  shows "release_loop h old True (slot_after root pre) = Some (0, unlink h root old (pre @ mid))"
  using assms
proof (induction mid arbitrary: pre)
  case Nil
  then have "read_slot h (slot_after root pre) = old" "old \<noteq> 0" by (auto simp: read_slot_after)
  then show ?case by (subst release_loop.simps) (simp add: unlink_def)
next
  case (Cons y mid)
  then have "read_slot h (slot_after root pre) = y" "y \<noteq> 0" "y \<noteq> old" by (auto simp: read_slot_after)
  with Cons.IH [of "pre @ [y]"] Cons.prems show ?case by (subst release_loop.simps) simp
qed

lemma release_loop_missing:
  assumes "seg h (child (h root)) (pre @ mid) 0" "old \<notin> set mid"
  shows "release_loop h old rc (slot_after root pre) = Some (- EINVAL, h)"
  using assms
proof (induction mid arbitrary: pre)
  case Nil
  then have "read_slot h (slot_after root pre) = 0" by (auto simp: read_slot_after)
  then show ?case by (subst release_loop.simps) simp
next
  case (Cons y mid)
  then have "read_slot h (slot_after root pre) = y" "y \<noteq> 0" "y \<noteq> old" by (auto simp: read_slot_after)
  with Cons.IH [of "pre @ [y]"] Cons.prems show ?case by (subst release_loop.simps) simp
qed

lemma unlink_children:
  assumes ok: "children_ok h root (pre @ old # post)"
  shows "children_ok (unlink h root old pre) root (pre @ post)" "same_ranges h (unlink h root old pre)"
    "parent (unlink h root old pre old) = 0"
proof -
  let ?h = "unlink h root old pre"
  show sr: "same_ranges h ?h" by (simp add: unlink_def same_ranges_def)
  show "parent (?h old) = 0" by (simp add: unlink_def)
  have sg: "seg h (child (h root)) pre old" "seg h (sibling (h old)) post 0"
    and d: "distinct pre" "root \<notin> set pre" "set pre \<inter> set post = {}" "old \<notin> set pre" "old \<notin> set post"
    using ok by (auto simp: children_ok_def)
  from write_slot_seg [OF sg(1) d(1,2), of "sibling (h old)"]
  have "seg ?h (child (?h root)) pre (sibling (h old))" unfolding unlink_def
    by (subst seg_frame [of _ _ "write_slot h (slot_after root pre) (sibling (h old))"]) simp_all
  moreover have "seg ?h (sibling (h old)) post 0"
  proof (subst seg_frame [of _ _ h])
    fix x assume "x \<in> set post"
    then have "x \<notin> set pre" using d(3) by auto
    then show "sibling (?h x) = sibling (h x)" by (simp add: unlink_def write_slot_other)
  qed (rule sg(2))
  ultimately have "seg ?h (child (?h root)) (pre @ post) 0" by auto
  moreover have "\<forall>x \<in> set (pre @ post). parent (?h x) = root"
    using ok d(4,5) by (auto simp: unlink_def children_ok_def)
  ultimately show "children_ok ?h root (pre @ post)"
    unfolding children_ok_def same_ranges_preds [OF sr] using ok d
    by (auto simp: children_ok_def sorted_wrt_append)
qed

lemma release_list:
  assumes ok: "children_ok h root xs" and "root \<noteq> 0" "old \<in> set xs"
  shows "\<exists>h'. release_resource h old = Inr (0, h') \<and> children_ok h' root (remove1 old xs) \<and> same_ranges h h' \<and> parent (h' old) = 0"
proof -
  obtain pre post where xs: "xs = pre @ old # post" "old \<notin> set pre" using assms(3) by (meson split_list_first)
  have "parent (h old) = root" using ok assms(3) by (simp add: children_ok_def)
  then have "release_resource h old = Inr (0, unlink h root old pre)"
    using release_loop_found [of h root "[]" pre old post] ok xs assms(2)
    by (simp add: release_resource_def release_resource_raw_def returned_def children_ok_def)
  with unlink_children [of h root pre old post] ok xs show ?thesis by (auto simp: remove1_append)
qed

section \<open>Inserting\<close>

definition contains :: "heap \<Rightarrow> ulong \<Rightarrow> ulong \<Rightarrow> bool" where
  "contains h x y \<longleftrightarrow> res_start (h x) \<le> res_start (h y) \<and> res_end (h y) \<le> res_end (h x)"

definition same_range :: "heap \<Rightarrow> ulong \<Rightarrow> ulong \<Rightarrow> bool" where
  "same_range h x y \<longleftrightarrow> res_start (h x) = res_start (h y) \<and> res_end (h x) = res_end (h y)"

lemma descend_list:
  assumes ok: "children_ok h par xs" "fresh h par xs new" and r: "in_range h par new"
    and ov: "filter (overlaps h new) xs = c # cs"
  shows "insert_descend h par new =
    (if contains h c new \<and> \<not> same_range h c new then insert_descend h c new else Some (GoOn par c h))"
proof -
  have "c \<in> set xs" using ov by (metis filter_is_subset list.set_intros(1) subsetD)
  then have c: "c \<noteq> 0" "c \<noteq> par" "c \<noteq> new" using ok seg_null [of h "child (h par)" xs] by (auto simp: children_ok_def fresh_def)
  have "request_resource_raw h par new = Some (c, h)" using request_raw_list(1) [OF ok] r ov by simp
  then show ?thesis
    by (subst insert_descend.simps) (auto simp: c contains_def same_range_def not_less [symmetric])
qed

lemma overlap_loop_list:
  assumes "seg h p mid (first_of post)" "mid \<noteq> []" "\<forall>x \<in> set mid. contains h new x \<and> res_start (h x) \<le> res_end (h new)"
    "post \<noteq> [] \<Longrightarrow> hd post \<noteq> 0 \<and> res_end (h new) < res_start (h (hd post))"
  shows "overlap_loop h new p = Some (Inr (last mid))"
  using assms
proof (induction mid arbitrary: p)
  case (Cons x mid)
  have p: "p = x" using Cons.prems(1) by simp
  have inside: "\<not> res_start (h x) < res_start (h new)" "\<not> res_end (h x) > res_end (h new)"
    using Cons.prems(3) by (auto simp: contains_def not_less)
  show ?case
  proof (cases mid)
    case Nil
    then have sib: "sibling (h x) = first_of post" using Cons.prems(1) by simp
    show ?thesis
      using inside sib Nil Cons.prems(4) unfolding p by (subst overlap_loop.simps) (cases post; simp)
  next
    case (Cons y ys)
    then have sib: "sibling (h x) = y" "y \<noteq> 0" "\<not> res_end (h new) < res_start (h y)"
      using Cons.prems by (auto simp: not_less)
    have "overlap_loop h new x = overlap_loop h new y"
      using inside sib by (subst overlap_loop.simps) simp
    moreover have "overlap_loop h new y = Some (Inr (last mid))"
      using Cons.IH [of y] Cons.prems Cons sib by simp
    ultimately show ?thesis using p Cons by simp
  qed
qed simp

definition adopted :: "heap \<Rightarrow> ulong \<Rightarrow> ulong list \<Rightarrow> heap" where
  "adopted h new xs = (\<lambda>x. if x \<in> set xs then (h x)\<lparr>parent := new\<rparr> else h x)"

lemma adopted_sel [simp]:
  "res_start (adopted h new xs x) = res_start (h x)" "res_end (adopted h new xs x) = res_end (h x)"
  "sibling (adopted h new xs x) = sibling (h x)" "child (adopted h new xs x) = child (h x)"
  "parent (adopted h new xs x) = (if x \<in> set xs then new else parent (h x))"
  by (simp_all add: adopted_def)

lemma adopt_loop_list:
  "seg h p xs 0 \<Longrightarrow> adopt_loop h new p = Some (adopted h new xs)"
proof (induction xs arbitrary: h p)
  case Nil
  then show ?case by (subst adopt_loop.simps) (simp add: adopted_def)
next
  case (Cons x xs)
  then have p: "p = x" "x \<noteq> 0" and sg: "seg (set_parent h x new) (sibling (h x)) xs 0"
    by (auto simp: seg_frame [of _ "set_parent h x new" h])
  have "adopt_loop h new p = adopt_loop (set_parent h x new) new (sibling (h x))"
    using p by (subst adopt_loop.simps) simp
  also have "\<dots> = Some (adopted (set_parent h x new) new xs)" by (rule Cons.IH [OF sg])
  also have "adopted (set_parent h x new) new xs = adopted h new (x # xs)"
    by (auto simp: adopted_def set_parent_def fun_eq_iff)
  finally show ?case .
qed

lemma before_loop_list:
  "seg h p xs first \<Longrightarrow> first \<notin> set xs \<Longrightarrow> xs \<noteq> [] \<Longrightarrow> before_loop h first p = Some (Inr (last xs))"
proof (induction xs arbitrary: p)
  case (Cons x xs)
  show ?case
  proof (cases xs)
    case Nil
    with Cons.prems show ?thesis by (subst before_loop.simps) auto
  next
    case (Cons y ys)
    then have "sibling (h x) = y" "y \<noteq> first" "p = x" "x \<noteq> 0" using Cons.prems by auto
    then have "before_loop h first p = before_loop h first (sibling (h x))" by (subst before_loop.simps) simp
    with Cons.IH [of "sibling (h x)"] Cons.prems Cons show ?thesis by simp
  qed
qed simp

text \<open>The heap after the new node took over the run \<open>mid\<close> of siblings, before it is linked itself.\<close>

definition taken :: "heap \<Rightarrow> ulong \<Rightarrow> ulong \<Rightarrow> ulong list \<Rightarrow> heap" where
  "taken h par new mid = adopted (set_sibling (set_child (set_sibling (set_parent h new par) new (sibling (h (last mid))))
     new (hd mid)) (last mid) 0) new mid"

lemma taken_sel:
  "sibling (taken h par new mid x) = (if x = last mid then 0 else if x = new then sibling (h (last mid)) else sibling (h x))"
  "child (taken h par new mid x) = (if x = new then hd mid else child (h x))"
  "parent (taken h par new mid x) = (if x \<in> set mid then new else if x = new then par else parent (h x))"
  "res_start (taken h par new mid x) = res_start (h x)" "res_end (taken h par new mid x) = res_end (h x)"
  by (simp_all add: taken_def)

lemma insert_replace_eq:
  assumes sg: "seg h (child (h par)) pre (hd mid)" "seg h (hd mid) mid (first_of post)" and m: "mid \<noteq> []"
    and d: "distinct mid" "set pre \<inter> set mid = {}" "new \<notin> set pre" "new \<notin> set mid" "new \<noteq> par"
    and c: "\<forall>x \<in> set mid. contains h new x \<and> res_start (h x) \<le> res_end (h x)"
    and post: "post \<noteq> [] \<Longrightarrow> hd post \<noteq> 0 \<and> before h new (hd post)"
  shows "insert_replace h par new (hd mid) = Inr (0, write_slot (taken h par new mid) (slot_after par pre) new)"
    "seg (taken h par new mid) (child (taken h par new mid par)) pre (hd mid)"
    "seg (taken h par new mid) (hd mid) mid 0"
proof -
  let ?l = "last mid"
  let ?h4 = "set_sibling (set_child (set_sibling (set_parent h new par) new (sibling (h ?l))) new (hd mid)) ?l 0"
  have l: "?l \<in> set mid" "?l \<noteq> new" "?l \<notin> set pre" "hd mid \<in> set mid" using m d by auto
  obtain ms where ms: "mid = ms @ [?l]" "?l \<notin> set ms" "set ms \<subseteq> set mid"
    using m d(1) by (metis append_butlast_last_id distinct_append not_distinct_conv_prefix set_append Un_upper1
        disjoint_insert(1) list.simps(15) distinct_append)
  have "seg h (hd mid) (ms @ [?l]) (first_of post)" using sg(2) ms(1) by metis
  then have "seg h (hd mid) ms ?l" "?l \<noteq> 0" by auto
  then have "seg ?h4 (hd mid) ms ?l" using ms d(4) by (subst seg_frame [of _ _ h]) auto
  then have "seg ?h4 (hd mid) (ms @ [?l]) 0" using \<open>?l \<noteq> 0\<close> by auto
  then have s4: "seg ?h4 (hd mid) mid 0" using ms(1) by simp
  then show "seg (taken h par new mid) (hd mid) mid 0"
    unfolding taken_def by (subst seg_frame [of _ _ ?h4]) simp_all
  show sp: "seg (taken h par new mid) (child (taken h par new mid par)) pre (hd mid)"
    using sg(1) d l by (subst seg_frame [of _ _ h]) (auto simp: taken_sel)
  have "overlap_loop h new (hd mid) = Some (Inr ?l)"
  proof (rule overlap_loop_list [OF sg(2) m])
    show "\<forall>x \<in> set mid. contains h new x \<and> res_start (h x) \<le> res_end (h new)"
      using c by (auto simp: contains_def intro: order_trans)
  qed (use post in \<open>auto simp: before_def\<close>)
  moreover have "set_sibling (set_child (set_sibling (set_parent h new par) new (sibling (set_parent h new par ?l))) new (hd mid)) ?l 0 = ?h4"
    by simp
  ultimately have eq: "insert_replace h par new (hd mid) =
      (if child (taken h par new mid par) = hd mid then Inr (0, set_child (taken h par new mid) par new)
       else kbind (returned (before_loop (taken h par new mid) (hd mid) (child (taken h par new mid par)))) (\<lambda>r.
              kbind r (\<lambda>nxt. Inr (0, set_sibling (taken h par new mid) nxt new))))"
    using adopt_loop_list [OF s4, of new] unfolding insert_replace_def taken_def
    by (simp only: returned_def option.case sum.case kbind_Inr Let_def)
  show "insert_replace h par new (hd mid) = Inr (0, write_slot (taken h par new mid) (slot_after par pre) new)"
  proof (cases pre rule: rev_cases)
    case Nil
    then have "child (taken h par new mid par) = hd mid" using sp by simp
    then show ?thesis using Nil unfolding eq by (simp add: set_child_def)
  next
    case (snoc ps y)
    then have "pre \<noteq> []" by simp
    then have "child (taken h par new mid par) \<in> set pre" using sp by (cases pre) simp_all
    then have ne: "child (taken h par new mid par) \<noteq> hd mid" using d(2) l(4) by auto
    have "hd mid \<notin> set pre" using d(2) l(4) by auto
    with before_loop_list [OF sp] snoc
    have bl: "before_loop (taken h par new mid) (hd mid) (child (taken h par new mid par)) = Some (Inr y)" by simp
    from ne show ?thesis unfolding eq bl by (simp add: returned_def snoc set_sibling_def)
  qed
qed

lemma insert_replace_children:
  assumes ok: "children_ok h par (pre @ mid @ post)" and m: "mid \<noteq> []" and fr: "fresh h par (pre @ mid @ post) new"
    and r: "in_range h par new" "\<forall>x \<in> set pre. before h x new" "\<forall>x \<in> set post. before h new x" "\<forall>x \<in> set mid. contains h new x"
  shows "\<exists>h'. insert_replace h par new (hd mid) = Inr (0, h') \<and> children_ok h' par (pre @ new # post) \<and>
    children_ok h' new mid \<and> same_ranges h h'"
proof -
  let ?t = "taken h par new mid" and ?l = "last mid"
  let ?h = "write_slot ?t (slot_after par pre) new"
  obtain p where p: "seg h (child (h par)) pre p" "seg h p (mid @ post) 0" using ok by (auto simp: children_ok_def)
  have pm: "p = hd mid" using p(2) m by (cases mid) auto
  obtain q where q: "seg h (hd mid) mid q" "seg h q post 0" using p(2) pm by auto
  have qp: "q = first_of post" using q(2) by (rule seg_first)
  have lm: "?l \<in> set mid" "seg h (hd mid) (butlast mid @ [?l]) q" using m q(1) by simp_all
  then have lq: "sibling (h ?l) = q" by auto
  have d: "distinct pre" "distinct mid" "set pre \<inter> set mid = {}" "set pre \<inter> set post = {}" "set mid \<inter> set post = {}"
    "par \<notin> set pre" "new \<notin> set pre" "new \<notin> set mid" "new \<notin> set post" "new \<noteq> par" "new \<noteq> 0" "par \<notin> set mid" "par \<notin> set post"
    using ok fr by (auto simp: children_ok_def fresh_def)
  have valid: "\<forall>x \<in> set mid. contains h new x \<and> res_start (h x) \<le> res_end (h x)"
    using ok r(4) by (auto simp: children_ok_def in_range_def)
  have post: "hd post \<noteq> 0 \<and> before h new (hd post)" if "post \<noteq> []"
    using that seg_null [OF q(2)] r(3) by (metis list.set_sel(1))
  note eq = insert_replace_eq [OF p(1) [unfolded pm] q(1) [unfolded qp] m d(2,3,7,8,10) valid post]
  have sr: "same_ranges h ?h" by (simp add: same_ranges_def taken_sel)
  have sib: "sibling (?h x) = sibling (?t x)" if "x \<notin> set pre" for x using that by (rule write_slot_other(1))
  have s1: "seg ?h (child (?h par)) pre new" by (rule write_slot_seg [OF eq(2) d(1,6)])
  have s2: "seg ?h q post 0"
  proof (subst seg_frame [of _ _ h])
    fix x assume "x \<in> set post"
    then have "x \<notin> set pre" "x \<noteq> ?l" "x \<noteq> new" using d lm(1) by auto
    then show "sibling (?h x) = sibling (h x)" by (simp add: sib taken_sel)
  qed (rule q(2))
  have "sibling (?h new) = q" using sib [OF d(7)] d(8) lm(1) lq by (auto simp: taken_sel)
  with s1 s2 d(11) have sg: "seg ?h (child (?h par)) (pre @ new # post) 0" by auto
  have s3: "seg ?h (hd mid) mid 0"
  proof (subst seg_frame [of _ _ ?t])
    fix x assume "x \<in> set mid"
    then have "x \<notin> set pre" using d(3) by auto
    then show "sibling (?h x) = sibling (?t x)" by (rule sib)
  qed (rule eq(3))
  have cn: "child (?h new) = hd mid" using d(10) by (simp add: write_slot_other(2) taken_sel)
  have pn: "parent (?h x) = (if x \<in> set mid then new else if x = new then par else parent (h x))" for x
    by (simp add: taken_sel)
  have "children_ok ?h par (pre @ new # post)"
    unfolding children_ok_def same_ranges_preds [OF sr] using sg ok d r pn
    by (auto simp: children_ok_def sorted_wrt_append)
  moreover have "children_ok ?h new mid"
    unfolding children_ok_def same_ranges_preds [OF sr] cn using s3 ok d valid
    by (auto simp: children_ok_def sorted_wrt_append taken_sel in_range_def contains_def)
  ultimately show ?thesis using eq(1) sr by blast
qed

lemma insert_raw_adopts:
  assumes ok: "children_ok h par xs" and fr: "fresh h par xs new" and r: "in_range h par new"
    and ov: "filter (overlaps h new) xs \<noteq> []" "\<forall>x \<in> set xs. overlaps h new x \<longrightarrow> contains h new x"
  shows "\<exists>h'. insert_resource_raw h par new = Inr (0, h') \<and> same_ranges h h' \<and>
    children_ok h' par (filter (\<lambda>x. before h x new) xs @ new # filter (before h new) xs) \<and>
    children_ok h' new (filter (overlaps h new) xs)"
proof -
  let ?pre = "filter (\<lambda>x. before h x new) xs" and ?mid = "filter (overlaps h new) xs" and ?post = "filter (before h new) xs"
  have parts: "xs = ?pre @ ?mid @ ?post"
    by (rule sorted_parts) (use ok r in \<open>auto simp: children_ok_def in_range_def\<close>)
  obtain c cs where mid: "?mid = c # cs" using ov(1) by (cases ?mid) auto
  have "c \<in> set ?mid" unfolding mid by simp
  then have "contains h new c" using ov(2) by auto
  then have "\<not> (contains h c new \<and> \<not> same_range h c new)" by (auto simp: contains_def same_range_def)
  then have "insert_descend h par new = Some (GoOn par c h)" using descend_list [OF ok fr r mid] by (simp only: if_False)
  then have "insert_resource_raw h par new = insert_replace h par new (hd ?mid)"
    by (simp add: insert_resource_raw_def returned_def mid)
  moreover have "\<exists>h'. insert_replace h par new (hd ?mid) = Inr (0, h') \<and> children_ok h' par (?pre @ new # ?post) \<and>
    children_ok h' new ?mid \<and> same_ranges h h'"
    by (rule insert_replace_children) (use ok fr r ov in \<open>auto simp flip: parts\<close>)
  ultimately show ?thesis by auto
qed

lemma request_outcome:
  assumes "children_ok h root xs" "fresh h root xs new"
  shows "\<exists>ret h'. request_resource h root new = Inr (ret, h') \<and> same_ranges h h' \<and>
    (if in_range h root new \<and> filter (overlaps h new) xs = []
     then ret = 0 \<and> children_ok h' root (filter (\<lambda>x. before h x new) xs @ new # filter (before h new) xs)
     else ret = - EBUSY \<and> h' = h)"
proof (cases "in_range h root new \<and> filter (overlaps h new) xs = []")
  case True
  with request_raw_list [OF assms] link_frame(1) show ?thesis
    by (auto simp: request_resource_def request_resource_conflict_def returned_def)
next
  case False
  let ?c = "if in_range h root new then hd (filter (overlaps h new) xs) else root"
  have "?c \<noteq> 0"
  proof (cases "in_range h root new")
    case True
    with False have "?c \<in> set (filter (overlaps h new) xs)" by (metis list.set_sel(1))
    then have "?c \<in> set xs" by simp
    then show ?thesis using assms(1) seg_null by (metis children_ok_def)
  qed (use assms(2) in \<open>simp add: fresh_def\<close>)
  moreover have "request_resource_raw h root new = Some (?c, h)" using request_raw_list(1) [OF assms] False by auto
  ultimately have "request_resource h root new = Inr (- EBUSY, h)"
    by (simp add: request_resource_def request_resource_conflict_def returned_def)
  with False show ?thesis by (auto simp: same_ranges_def)
qed

section \<open>Properties\<close>

definition demo_heap :: heap where
  "demo_heap = (\<lambda>x. ioport_resource)(1 := ioport_resource\<lparr>child := 2\<rparr>,
     2 := ioport_resource\<lparr>res_start := 0x20, res_end := 0x3f, parent := 1\<rparr>,
     3 := ioport_resource\<lparr>res_start := 0x60, res_end := 0x6f\<rparr>,
     4 := ioport_resource\<lparr>res_start := 0x10, res_end := 0x4f\<rparr>)"

lemma demo_heap_ok: "children_ok demo_heap 1 [2]" "fresh demo_heap 1 [2] 3" "fresh demo_heap 1 [2] 4"
  by (simp_all add: children_ok_def demo_heap_def in_range_def fresh_def ioport_resource_def IO_SPACE_LIMIT_def)

text \<open>
  C14: \<open>request_resource\<close> on a well-formed node always returns.  It answers 0 exactly when the new range lies
  inside the node and overlaps none of its children; then the new node is linked into the
  children in address order and the other children stay.  Otherwise it answers \<^verbatim>\<open>-EBUSY\<close> and
  changes nothing.
\<close>

theorem request_resource_correct:
  assumes "children_ok h root xs" "fresh h root xs new"
  shows "\<exists>ret h'. request_resource h root new = Inr (ret, h') \<and> same_ranges h h' \<and>
    (if in_range h root new \<and> filter (overlaps h new) xs = []
     then ret = 0 \<and> children_ok h' root (filter (\<lambda>x. before h x new) xs @ new # filter (before h new) xs)
     else ret = - EBUSY \<and> h' = h)"
  using assms by (rule request_outcome)

theorem request_resource_correct_witness:
  "\<exists>ret h'. request_resource demo_heap 1 3 = Inr (ret, h') \<and> same_ranges demo_heap h'"
  using request_resource_correct [OF demo_heap_ok(1,2)] by auto

text \<open>
  C32: a request that succeeded is undone by \<open>release_resource\<close>: both return 0, the children of the node are
  again those it had, and the released node has no parent.
\<close>

theorem request_release_roundtrip:
  assumes "children_ok h root xs" "fresh h root xs new" "in_range h root new" "filter (overlaps h new) xs = []"
  shows "\<exists>h1 h2. request_resource h root new = Inr (0, h1) \<and> release_resource h1 new = Inr (0, h2) \<and>
    children_ok h2 root xs \<and> parent (h2 new) = 0"
proof -
  let ?bef = "filter (\<lambda>x. before h x new) xs" and ?aft = "filter (before h new) xs"
  let ?h1 = "link h root new ?bef (first_of ?aft)"
  have h1: "request_resource h root new = Inr (0, ?h1)" and ok1: "children_ok ?h1 root (?bef @ new # ?aft)"
    using request_raw_list [OF assms(1,2)] assms(3,4)
    by (simp_all add: request_resource_def request_resource_conflict_def returned_def)
  have xs: "xs = ?bef @ ?aft"
    using sorted_parts [of h xs new] assms by (simp add: children_ok_def in_range_def)
  have "new \<notin> set ?bef" using assms(2) by (simp add: fresh_def)
  then have "remove1 new (?bef @ new # ?aft) = ?bef @ ?aft" by (simp only: remove1_append remove1.simps if_False if_True simp_thms)
  then have eq: "remove1 new (?bef @ new # ?aft) = xs" using xs by (rule trans [OF _ sym])
  have "root \<noteq> 0" using assms(2) by (simp add: fresh_def)
  from release_list [OF ok1 this, of new] eq obtain h2 where "release_resource ?h1 new = Inr (0, h2)"
    "children_ok h2 root xs" "parent (h2 new) = 0" by auto
  with h1 show ?thesis by blast
qed

theorem request_release_roundtrip_witness:
  "\<exists>h1 h2. request_resource demo_heap 1 3 = Inr (0, h1) \<and> release_resource h1 3 = Inr (0, h2) \<and>
    children_ok h2 1 [2] \<and> parent (h2 3) = 0"
  by (rule request_release_roundtrip [OF demo_heap_ok(1,2)])
    (simp_all add: in_range_def overlaps_def demo_heap_def ioport_resource_def IO_SPACE_LIMIT_def)

text \<open>
  C33: \<open>insert_resource\<close> of a range that contains every child it overlaps succeeds: the new node takes the
  place of those children, which become its own children in the same order.
\<close>

theorem insert_resource_adopts:
  assumes "children_ok h par xs" "fresh h par xs new" "in_range h par new" "filter (overlaps h new) xs \<noteq> []"
    and "\<forall>x \<in> set xs. overlaps h new x \<longrightarrow> contains h new x"
  shows "\<exists>h'. insert_resource h par new = Inr (0, h') \<and> same_ranges h h' \<and>
    children_ok h' par (filter (\<lambda>x. before h x new) xs @ new # filter (before h new) xs) \<and>
    children_ok h' new (filter (overlaps h new) xs)"
  using insert_raw_adopts [OF assms] by (auto simp: insert_resource_def insert_resource_conflict_def)

theorem insert_resource_adopts_witness:
  "\<exists>h'. insert_resource demo_heap 1 4 = Inr (0, h') \<and> children_ok h' 4 [2]"
proof -
  have "filter (overlaps demo_heap 4) [2] = [2]"
    by (simp add: overlaps_def demo_heap_def ioport_resource_def)
  moreover have "in_range demo_heap 1 4" "contains demo_heap 4 2"
    by (simp_all add: in_range_def contains_def demo_heap_def ioport_resource_def IO_SPACE_LIMIT_def)
  ultimately show ?thesis using insert_resource_adopts [OF demo_heap_ok(1,3)] by auto
qed

text \<open>
  C34: \<open>release_resource\<close> of a node that is not among the children of its parent answers \<^verbatim>\<open>-EINVAL\<close> and changes
  nothing; of a node with no parent it dereferences a null pointer.
\<close>

theorem release_resource_errors:
  assumes "children_ok h (parent (h old)) xs" "old \<notin> set xs"
  shows "release_resource h old = (if parent (h old) = 0 then Inl NullDeref else Inr (- EINVAL, h))"
  using release_loop_missing [of h "parent (h old)" "[]" xs old True] assms
  by (simp add: release_resource_def release_resource_raw_def returned_def children_ok_def)

theorem release_resource_errors_witness: "release_resource (demo_heap(3 := (demo_heap 3)\<lparr>parent := 1\<rparr>)) 3 =
    Inr (- EINVAL, demo_heap(3 := (demo_heap 3)\<lparr>parent := 1\<rparr>))"
proof -
  have "children_ok (demo_heap(3 := (demo_heap 3)\<lparr>parent := 1\<rparr>)) 1 [2]"
    by (simp add: children_ok_def demo_heap_def in_range_def ioport_resource_def IO_SPACE_LIMIT_def)
  then show ?thesis using release_resource_errors [of "demo_heap(3 := (demo_heap 3)\<lparr>parent := 1\<rparr>)" 3 "[2]"] by simp
qed

end
