(* ===== verification/Setup_Spec.thy ===== *)
theory Setup_Spec
  imports Kernel_Setup Direct_Map_Boot E820_Spec Resource_Spec
begin

text \<open>
  What \<^verbatim>\<open>arch_setup\<close> achieves: the standard I/O ports are reserved, and the memory the BIOS reports as RAM goes through memblock
  into the direct mapping.
\<close>

section \<open>I/O ports\<close>

lemma request_children:
  assumes "children_ok h root xs" "fresh h root xs p" "in_range h root p"
  shows "if \<exists>x \<in> set xs. overlaps h p x then request_resource h root p = Inr (- EBUSY, h)
    else \<exists>h' ys. request_resource h root p = Inr (0, h') \<and> same_ranges h h' \<and> children_ok h' root ys \<and> set ys = insert p (set xs)"
proof -
  let ?ys = "filter (\<lambda>x. before h x p) xs @ p # filter (before h p) xs"
  have "set ?ys = insert p (set xs)" if none: "filter (overlaps h p) xs = []"
  proof -
    have "sorted_wrt (before h) xs" "\<forall>x \<in> set xs. res_start (h x) \<le> res_end (h x)" "res_start (h p) \<le> res_end (h p)"
      using assms(1,3) by (simp_all add: children_ok_def in_range_def)
    from sorted_parts [OF this] have "set xs = set (filter (\<lambda>x. before h x p) xs @ filter (overlaps h p) xs @ filter (before h p) xs)" by simp
    then show ?thesis using none by auto
  qed
  moreover have "(\<exists>x \<in> set xs. overlaps h p x) \<longleftrightarrow> filter (overlaps h p) xs \<noteq> []" by (simp add: filter_empty_conv)
  ultimately show ?thesis using request_outcome [OF assms(1,2)] assms(3) by (auto simp del: set_append)
qed

text \<open>Requesting disjoint ranges one after another.\<close>

lemma reserve_loop_outcome:
  assumes "children_ok h root xs" "root \<noteq> 0" "distinct ps" "set ps \<inter> insert 0 (insert root (set xs)) = {}"
    "\<forall>p \<in> set ps. in_range h root p" "\<forall>p \<in> set ps. \<forall>q \<in> set ps. p \<noteq> q \<longrightarrow> \<not> overlaps h p q"
  shows "if \<exists>p \<in> set ps. \<exists>x \<in> set xs. overlaps h p x then reserve_loop root ps h = Inl BugOn
    else \<exists>h' ys. reserve_loop root ps h = Inr h' \<and> same_ranges h h' \<and> children_ok h' root ys \<and> set ys = set xs \<union> set ps"
  using assms
proof (induction ps arbitrary: h xs)
  case Nil
  then show ?case by (auto simp: same_ranges_def)
next
  case (Cons p ps)
  have fr: "fresh h root xs p" "in_range h root p" using Cons.prems by (auto simp: fresh_def)
  show ?case
  proof (cases "\<exists>x \<in> set xs. overlaps h p x")
    case True
    then have "request_resource h root p = Inr (- EBUSY, h)" using request_children [OF Cons.prems(1) fr] by simp
    then show ?thesis using True by (auto simp: EBUSY_def)
  next
    case False
    with request_children [OF Cons.prems(1) fr] obtain h1 ys where
      h1: "request_resource h root p = Inr (0, h1)" "same_ranges h h1" "children_ok h1 root ys" "set ys = insert p (set xs)" by auto
    note sr = same_ranges_preds [OF h1(2)]
    have none: "\<not> overlaps h q p" if "q \<in> set ps" for q using Cons.prems(3,6) that by auto
    then have ov: "(\<exists>q \<in> set ps. \<exists>x \<in> set ys. overlaps h1 q x) \<longleftrightarrow> (\<exists>q \<in> set (p # ps). \<exists>x \<in> set xs. overlaps h q x)"
      using False h1(4) sr(3) by auto
    have "set ps \<inter> insert 0 (insert root (set ys)) = {}" using Cons.prems(3,4) h1(4) by auto
    with Cons.IH [OF h1(3) Cons.prems(2) _ this] Cons.prems(3,5,6) sr
    have "if \<exists>q \<in> set ps. \<exists>x \<in> set ys. overlaps h1 q x then reserve_loop root ps h1 = Inl BugOn
      else \<exists>h' zs. reserve_loop root ps h1 = Inr h' \<and> same_ranges h1 h' \<and> children_ok h' root zs \<and> set zs = set ys \<union> set ps" by simp
    moreover have "reserve_loop root (p # ps) h = reserve_loop root ps h1" using h1(1) by simp
    moreover have "same_ranges h h'" if "same_ranges h1 h'" for h' using h1(2) that by (simp add: same_ranges_def)
    ultimately show ?thesis unfolding ov using h1(4) by (auto split: if_splits)
  qed
qed

definition io_slots :: "ulong \<Rightarrow> ulong list" where
  "io_slots base = map (\<lambda>i. base + 28 * of_nat i) [0..<length standard_io_resources]"

text \<open>The array as the compiler lays it out.\<close>

definition io_array :: "heap \<Rightarrow> ulong \<Rightarrow> bool" where
  "io_array h base \<longleftrightarrow> (\<forall>i < length standard_io_resources.
     res_start (h (io_slots base ! i)) = res_start (standard_io_resources ! i) \<and> res_end (h (io_slots base ! i)) = res_end (standard_io_resources ! i))"

lemma length_standard_io [simp]: "length standard_io_resources = 10"
  by (simp add: standard_io_resources_def)

lemma standard_io_sorted:
  "sorted_wrt (\<lambda>a b. res_end a < res_start b) standard_io_resources"
  "\<forall>r \<in> set standard_io_resources. res_start r \<le> res_end r \<and> res_end r \<le> IO_SPACE_LIMIT"
  by (simp_all add: standard_io_resources_def io_range_def IO_SPACE_LIMIT_def)

lemma io_slots_nth: "length (io_slots base) = 10" "i < 10 \<Longrightarrow> io_slots base ! i = base + 28 * of_nat i"
  by (simp_all add: io_slots_def)

lemma io_slots_distinct: "distinct (io_slots base)"
proof -
  have "i = j" if "i < 10" "j < 10" "base + 28 * of_nat i = base + 28 * (of_nat j :: ulong)" for i j
  proof -
    have "(of_nat (28 * i) :: ulong) = of_nat (28 * j)" using that(3) by simp
    then have "unat (of_nat (28 * i) :: ulong) = unat (of_nat (28 * j) :: ulong)" by (rule arg_cong)
    then show ?thesis using that by (simp add: unat_of_nat32 del: of_nat_mult)
  qed
  then show ?thesis unfolding distinct_conv_nth by (auto simp: io_slots_nth)
qed

lemma io_array_ranges:
  assumes "io_array h base" "res_start (h root) = 0" "res_end (h root) = IO_SPACE_LIMIT"
  shows "\<forall>p \<in> set (io_slots base). in_range h root p"
    "\<forall>p \<in> set (io_slots base). \<forall>q \<in> set (io_slots base). p \<noteq> q \<longrightarrow> \<not> overlaps h p q"
proof -
  have rng: "res_start (h (io_slots base ! i)) = res_start (standard_io_resources ! i)" "res_end (h (io_slots base ! i)) = res_end (standard_io_resources ! i)"
    "res_start (standard_io_resources ! i) \<le> res_end (standard_io_resources ! i)" "res_end (standard_io_resources ! i) \<le> IO_SPACE_LIMIT" if "i < 10" for i
    using assms(1) that standard_io_sorted(2) by (simp_all add: io_array_def)
  then show "\<forall>p \<in> set (io_slots base). in_range h root p" using assms(2,3) by (auto simp: in_set_conv_nth io_slots_nth(1) in_range_def)
  have "\<not> overlaps h (io_slots base ! i) (io_slots base ! j) \<and> \<not> overlaps h (io_slots base ! j) (io_slots base ! i)" if "i < j" "j < 10" for i j
  proof -
    have "res_end (standard_io_resources ! i) < res_start (standard_io_resources ! j)"
      using standard_io_sorted(1) that by (simp add: sorted_wrt_iff_nth_less)
    then show ?thesis using that rng [of i] rng [of j] by (auto simp: overlaps_def)
  qed
  then show "\<forall>p \<in> set (io_slots base). \<forall>q \<in> set (io_slots base). p \<noteq> q \<longrightarrow> \<not> overlaps h p q"
    by (auto simp: in_set_conv_nth io_slots_nth(1)) (metis nat_neq_iff)
qed

text \<open>
  C40: \<^verbatim>\<open>reserve_standard_io_resources\<close> on the tree of I/O ports: it stops at a \<^verbatim>\<open>BUG_ON\<close> exactly when one of the standard
  ranges overlaps a range already requested; otherwise the ten nodes of the array are children of the root afterwards, next to the
  earlier ones, in address order and without overlaps.
\<close>

theorem reserve_standard_io_correct:
  assumes "children_ok h root xs" "root \<noteq> 0" "res_start (h root) = 0" "res_end (h root) = IO_SPACE_LIMIT" "io_array h base"
    and "set (io_slots base) \<inter> insert 0 (insert root (set xs)) = {}"
  shows "if \<exists>p \<in> set (io_slots base). \<exists>x \<in> set xs. overlaps h p x then reserve_standard_io_resources root base h = Inl BugOn
    else \<exists>h' ys. reserve_standard_io_resources root base h = Inr h' \<and> same_ranges h h' \<and> children_ok h' root ys \<and>
      set ys = set xs \<union> set (io_slots base)"
  using reserve_loop_outcome [OF assms(1,2) io_slots_distinct assms(6) io_array_ranges [OF assms(5,3,4)]]
  by (simp only: reserve_standard_io_resources_def io_slots_def [symmetric])

definition demo_ports :: heap where
  "demo_ports x = (if x = 1 then ioport_resource else standard_io_resources ! (unat (x - 0x1000) div 28))"

theorem reserve_standard_io_correct_witness:
  "\<exists>h' ys. reserve_standard_io_resources 1 0x1000 demo_ports = Inr h' \<and> children_ok h' 1 ys \<and> set ys = set (io_slots 0x1000)"
proof -
  have slots: "io_slots 0x1000 = [0x1000, 0x101C, 0x1038, 0x1054, 0x1070, 0x108C, 0x10A8, 0x10C4, 0x10E0, 0x10FC]" by code_simp
  have "io_array demo_ports 0x1000" by code_simp
  moreover have "children_ok demo_ports 1 []" by (simp add: children_ok_def demo_ports_def ioport_resource_def)
  ultimately show ?thesis
    using reserve_standard_io_correct [of demo_ports 1 "[]" "0x1000"] by (auto simp: slots demo_ports_def ioport_resource_def)
qed

section \<open>The page table buffer\<close>

text \<open>
  The first page frame of the buffer that \<^verbatim>\<open>early_alloc_pgt_buf\<close> takes from the \<^verbatim>\<open>brk\<close> area, and the page frames that may be
  handed out for page tables from then on, as far as is known before memblock has its memory.
\<close>

definition buf_frame :: "direct_map \<Rightarrow> nat" where
  "buf_frame s = (unat (phys_addr (brk_end s)) + 4095) div 4096"

definition boot_avail :: "direct_map \<Rightarrow> nat set" where
  "boot_avail s = {f. buf_frame s \<le> f \<and> f < buf_frame s + 6 \<or>
     4096 * f \<notin> covered (mb_reserved (dm_mb s)) \<union> {unat (phys_addr (brk_start s))..<unat (phys_addr (brk_end s))}}"

definition brk_ok :: "boot_env \<Rightarrow> direct_map \<Rightarrow> bool" where
  "brk_ok env s \<longleftrightarrow> PAGE_OFFSET \<le> brk_start s \<and> brk_start s \<le> brk_end s \<and> unat (brk_end s) + 0x7000 \<le> unat (brk_limit env)"

lemma unat_phys_addr: "PAGE_OFFSET \<le> a \<Longrightarrow> unat (phys_addr a) = unat a - 0xC0000000"
  by (simp add: phys_addr_def PAGE_OFFSET_def unat_sub_no_wrap word_le_nat_alt)

text \<open>The state behind \<^verbatim>\<open>early_alloc_pgt_buf\<close>.\<close>

definition with_buffer :: "direct_map \<Rightarrow> direct_map" where
  "with_buffer s = s\<lparr>dm_mem := \<lambda>x. if unat (x - phys_to_virt (of_nat (4096 * buf_frame s))) < 0x6000 then 0 else dm_mem s x,
     brk_end := phys_to_virt (of_nat (4096 * (buf_frame s + 6))), pgt_buf_start := of_nat (buf_frame s), pgt_buf_end := of_nat (buf_frame s),
     pgt_buf_top := of_nat (buf_frame s + 6)\<rparr>"

lemma buf_frame_bounds:
  assumes "brk_ok env s"
  shows "unat (phys_addr (brk_start s)) \<le> unat (phys_addr (brk_end s))" "unat (phys_addr (brk_end s)) \<le> 4096 * buf_frame s"
    "4096 * buf_frame s + 0xC0006000 \<le> unat (brk_limit env)" "buf_frame s + 6 < 2 ^ 18"
proof -
  have b: "0xC0000000 \<le> unat (brk_start s)" "unat (brk_start s) \<le> unat (brk_end s)" "unat (brk_end s) + 0x7000 \<le> unat (brk_limit env)"
    using assms by (simp_all add: brk_ok_def word_le_nat_alt PAGE_OFFSET_def)
  then have u: "unat (phys_addr (brk_start s)) = unat (brk_start s) - 0xC0000000" "unat (phys_addr (brk_end s)) = unat (brk_end s) - 0xC0000000"
    by (simp_all add: unat_phys_addr word_le_nat_alt PAGE_OFFSET_def)
  show "unat (phys_addr (brk_start s)) \<le> unat (phys_addr (brk_end s))" using u b by simp
  show "unat (phys_addr (brk_end s)) \<le> 4096 * buf_frame s" unfolding buf_frame_def using mult_div_mod_eq [of 4096 "unat (phys_addr (brk_end s)) + 4095"]
      mod_less_divisor [of 4096 "unat (phys_addr (brk_end s)) + 4095"] by linarith
  have "4096 * buf_frame s \<le> unat (phys_addr (brk_end s)) + 4095" unfolding buf_frame_def by simp
  then show l: "4096 * buf_frame s + 0xC0006000 \<le> unat (brk_limit env)" using u b by linarith
  show "buf_frame s + 6 < 2 ^ 18" using l unat_lt32 [of "brk_limit env"] by simp
qed

lemma early_alloc_pgt_buf_ok:
  assumes "brk_ok env s"
  shows "early_alloc_pgt_buf env s = Inr (with_buffer s)"
proof -
  note bb = buf_frame_bounds [OF assms]
  let ?e = "phys_to_virt (of_nat (4096 * buf_frame s))"
  have po: "PAGE_OFFSET \<le> brk_end s" using assms by (auto simp: brk_ok_def)
  have ue: "unat ?e = 4096 * buf_frame s + 0xC0000000"
    using bb(4) unfolding phys_to_virt_def PAGE_OFFSET_def by (subst unat_add_no_wrap) (simp_all add: unat_of_nat32 del: of_nat_mult)
  have "unat (brk_end s) = unat (phys_addr (brk_end s)) + 0xC0000000" using unat_phys_addr [OF po] po by (simp add: word_le_nat_alt PAGE_OFFSET_def)
  then have "unat (brk_end s + 4095) = unat (phys_addr (brk_end s)) + 4095 + 786432 * 4096"
    using bb(2,4) by (subst unat_add_no_wrap) simp_all
  then have "unat (brk_end s + 4095) div 4096 = buf_frame s + 786432" by (simp only: buf_frame_def div_mult_self1)
  then have "unat ((brk_end s + 4095) AND PAGE_MASK) = unat ?e" unfolding unat_page_mask ue by simp
  then have e: "(brk_end s + 4095) AND PAGE_MASK = ?e" by (simp only: word_unat_eq_iff)
  have "unat (?e + 0x6000) = unat ?e + 0x6000" using ue bb(4) by (subst unat_add_no_wrap) simp_all
  then have lim: "\<not> ?e + 0x6000 > brk_limit env" using bb(3) ue by (simp add: word_less_nat_alt)
  have z: "brk_start s \<noteq> 0" using assms by (auto simp: brk_ok_def PAGE_OFFSET_def word_le_nat_alt)
  have m: "snd (memset (dm_mem s) ?e 0 0x6000) = (\<lambda>x. if unat (x - ?e) < 0x6000 then 0 else dm_mem s x)"
    by (simp add: memset_def memset_loop_spec fun_eq_iff)
  have x: "extend_brk env 0x6000 4096 s = Inr (?e, s\<lparr>brk_end := ?e + 0x6000, dm_mem := snd (memset (dm_mem s) ?e 0 0x6000)\<rparr>)"
    using z lim e by (simp add: extend_brk_def Let_def PAGE_MASK_def PAGE_SIZE_def)
  have p: "drop_bit 12 (phys_addr ?e) = of_nat (buf_frame s)"
  proof -
    have "phys_addr ?e = of_nat (4096 * buf_frame s)" by (simp add: phys_addr_def phys_to_virt_def)
    then have "unat (drop_bit 12 (phys_addr ?e)) = unat (of_nat (buf_frame s) :: ulong)"
      using bb(4) by (simp add: unat_drop_bit unat_of_nat32 del: of_nat_mult)
    then show ?thesis by (simp only: word_unat_eq_iff)
  qed
  have "?e + 0x6000 = phys_to_virt (of_nat (4096 * (buf_frame s + 6)))" by (simp add: phys_to_virt_def)
  then show ?thesis
    using x p m by (simp add: early_alloc_pgt_buf_def INIT_PGT_BUF_SIZE_def PAGE_SIZE_def PAGE_SHIFT_def Let_def with_buffer_def)
qed

lemma reserve_brk_ok:
  assumes "brk_ok env s" "mb_wf (dm_mb s)" "\<not> array_full (mb_reserved (dm_mb s))"
  obtains mb where "memblock_reserve_brk (with_buffer s) = Inr ((with_buffer s)\<lparr>dm_mb := mb, brk_start := 0\<rparr>)" "mb_wf mb"
    "mb_memory mb = mb_memory (dm_mb s)"
    "covered (mb_reserved mb) = covered (mb_reserved (dm_mb s)) \<union> {unat (phys_addr (brk_start s))..<4096 * (buf_frame s + 6)}"
proof -
  note bb = buf_frame_bounds [OF assms(1)]
  let ?b = "phys_addr (brk_start s)" and ?e = "phys_to_virt (of_nat (4096 * (buf_frame s + 6)))"
  have po: "0xC0000000 \<le> unat (brk_start s)" using assms(1) by (simp add: brk_ok_def word_le_nat_alt PAGE_OFFSET_def)
  have ue: "unat ?e = 4096 * (buf_frame s + 6) + 0xC0000000"
    using bb(4) unfolding phys_to_virt_def PAGE_OFFSET_def by (subst unat_add_no_wrap) (simp_all add: unat_of_nat32 del: of_nat_mult of_nat_add)
  have ub: "unat (brk_start s) = unat ?b + 0xC0000000" using po unat_phys_addr [of "brk_start s"] by (simp add: word_le_nat_alt PAGE_OFFSET_def)
  have lt: "unat (brk_start s) < unat ?e" using ue ub bb(1,2) by simp
  have "unat (?e - brk_start s) = unat ?e - unat (brk_start s)" using lt by (simp add: unat_sub_no_wrap word_le_nat_alt)
  then have re: "range_end ?b (?e - brk_start s) = 4096 * (buf_frame s + 6)" using ue ub lt bb(4) by (simp add: range_end_def)
  have w: "brk_start (with_buffer s) = brk_start s" "brk_end (with_buffer s) = ?e" "dm_mb (with_buffer s) = dm_mb s" by (simp_all add: with_buffer_def)
  from reserve_law [OF assms(2), of ?b "?e - brk_start s"] assms(3) re obtain mb where
    r: "memblock_reserve ?b (?e - brk_start s) (dm_mb s) = Inr (0, mb)" "mb_wf mb" "mb_memory mb = mb_memory (dm_mb s)"
      "covered (mb_reserved mb) = covered (mb_reserved (dm_mb s)) \<union> {unat ?b..<4096 * (buf_frame s + 6)}" by auto
  have "memblock_reserve_brk (with_buffer s) = Inr ((with_buffer s)\<lparr>dm_mb := mb, brk_start := 0\<rparr>)"
    using lt r(1) unfolding memblock_reserve_brk_def w by (simp add: word_less_nat_alt)
  with r(2-4) show ?thesis using that by blast
qed

lemma entry_with_buffer:
  assumes "brk_ok env s" "f < 2 ^ 20" "i < 1024" "\<not> (buf_frame s \<le> f \<and> f < buf_frame s + 6)"
  shows "entry (dm_mem (with_buffer s)) f i = entry (dm_mem s) f i"
proof -
  note bb = buf_frame_bounds [OF assms(1)]
  let ?e = "phys_to_virt (of_nat (4096 * buf_frame s))"
  have "\<not> unat (slot_addr f i + of_nat k - ?e) < 0x6000" if "k < 4" for k
  proof -
    let ?y = "slot_addr f i + of_nat k - PAGE_OFFSET"
    have y: "unat ?y = 4096 * f + 4 * i + k" using slot_offset [OF assms(2,3) that] .
    have e: "slot_addr f i + of_nat k - ?e = ?y - of_nat (4096 * buf_frame s)" by (simp add: phys_to_virt_def)
    have b: "unat (of_nat (4096 * buf_frame s) :: ulong) = 4096 * buf_frame s" using bb(4) by (intro unat_of_nat32) simp
    show ?thesis
    proof (cases "f < buf_frame s")
      case True
      then have "\<not> 4096 * buf_frame s \<le> unat ?y" using y assms(3) that by simp
      then show ?thesis unfolding e unat_sub_if' b using bb(4) y by auto
    next
      case False
      then have "4096 * buf_frame s + 0x6000 \<le> unat ?y" using y assms(4) by simp
      then show ?thesis unfolding e unat_sub_if' b by auto
    qed
  qed
  then show ?thesis unfolding entry_def by (intro load32_cong) (simp add: with_buffer_def)
qed

text \<open>The tables of the boot code stay as they are and outside what is handed out.\<close>

lemma boot_tables:
  assumes "brk_ok env s" "tables_ok env (dm_mem s) (boot_avail s)" "A \<subseteq> boot_avail s"
  shows "tables_ok env (dm_mem (with_buffer s)) A" "q < 2 ^ 18 \<Longrightarrow> lookup env (dm_mem (with_buffer s)) q = lookup env (dm_mem s) q"
    "i < 1024 \<Longrightarrow> dir env (dm_mem (with_buffer s)) i = dir env (dm_mem s) i"
proof -
  let ?m = "dm_mem (with_buffer s)"
  have buf: "\<not> (buf_frame s \<le> f \<and> f < buf_frame s + 6)" if "f \<notin> boot_avail s" for f using that by (auto simp: boot_avail_def)
  have "dir_frame env \<notin> boot_avail s" using assms(2) by (simp add: tables_ok_def)
  then show d: "dir env ?m i = dir env (dm_mem s) i" if "i < 1024" for i
    using entry_with_buffer [OF assms(1) _ that buf] by (simp add: dir_def)
  show "tables_ok env ?m A" using assms(2,3) d unfolding tables_ok_def by (auto cong: conj_cong)
  assume q: "q < 2 ^ 18"
  have k: "768 \<le> 768 + q div 1024" "768 + q div 1024 < 1024" using q by simp_all
  show "lookup env ?m q = lookup env (dm_mem s) q"
  proof (cases "present (dir env (dm_mem s) (768 + q div 1024))")
    case True
    from tables_okD(3) [OF assms(2) k True] have "frame_of (dir env (dm_mem s) (768 + q div 1024)) \<notin> boot_avail s" .
    from entry_with_buffer [OF assms(1) _ _ buf [OF this], of "q mod 1024"] show ?thesis using d [OF k(2)] by (simp add: lookup_def Let_def)
  qed (use d [OF k(2)] in \<open>simp add: lookup_def\<close>)
qed

section \<open>Low memory\<close>

lemma frames_in_memory:
  assumes "shape_wf t" "q \<in> page_frames MAX_NR_NODES t"
  shows "4096 * q \<in> covered t"
proof -
  obtain r where r: "r \<in> set (type_regs t)" "r_lo r \<le> 4096 * q" "4096 * q + 4096 \<le> r_hi r"
    using assms(2) by (auto simp: page_frames_def node_regs_def frames_def)
  then show ?thesis using region_in_cover(1) [OF assms(1) r(1)] by auto
qed

lemma x86_fill_pages_ok:
  assumes "mb_wf mb" "\<forall>a \<in> covered (mb_memory mb). \<forall>x. x div 2 ^ 12 = a div 2 ^ 12 \<longrightarrow> x < 2 ^ 32 - 2 ^ 12"
  shows "pages_ok (mb_memory mb)"
proof -
  have sh: "shape_wf (mb_memory mb)" using assms(1) by (simp add: mb_wf_def)
  have "below_last_page r" if "r \<in> set (type_regs (mb_memory mb))" for r
  proof -
    have "r_lo r \<in> covered (mb_memory mb)" using region_in_cover [OF sh that] by auto
    then have "r_lo r < 2 ^ 32 - 2 ^ 12" using assms(2) by blast
    then show ?thesis by (simp add: below_last_page_def word_le_nat_alt r_lo_def)
  qed
  then show ?thesis using sh by (simp add: pages_ok_def list_all_iff)
qed

text \<open>
  The state in which \<^verbatim>\<open>arch_setup\<close> finds the machine: memblock knows the kernel image only, the \<^verbatim>\<open>brk\<close> area has room for the
  buffer, the boot code's page tables lie in reserved pages or in the used part of the \<^verbatim>\<open>brk\<close> area, the kernel's memory map has
  no entry that wraps or reaches the last page below 4 GiB, and there are at least 4 MiB of memory.
\<close>

definition boot_state :: "boot_env \<Rightarrow> setup_state \<Rightarrow> bool" where
  "boot_state env st \<longleftrightarrow> env_ok env \<and> brk_ok env (su_dm st) \<and> mb_wf (dm_mb (su_dm st)) \<and> covered (mb_memory (dm_mb (su_dm st))) = {} \<and>
     \<not> array_full (mb_reserved (dm_mb (su_dm st))) \<and> tables_ok env (dm_mem (su_dm st)) (boot_avail (su_dm st)) \<and> present (pte_mask (su_dm st)) \<and>
     (\<forall>e \<in> set (live_map (e820 (su_e820 st))). no_wrap e \<and> (usable e \<longrightarrow> unat (e_addr e + e_size e) \<le> 2 ^ 32 - 2 ^ 12)) \<and>
     1024 \<le> unat (snd (find_low_pfn_range (e820_end_of_ram_pfn (e820 (su_e820 st)))))"

definition is_ram :: "e820_state \<Rightarrow> nat \<Rightarrow> bool" where
  "is_ram st x \<longleftrightarrow> (\<exists>e \<in> set (live_map (e820 st)). usable e \<and> unat (e_addr e) \<le> x \<and> x < unat (e_addr e + e_size e))"

text \<open>Up to the direct mapping: the buffer, memblock's memory, and the invariant of the page tables.\<close>

lemma memory_ready:
  assumes "boot_state env st"
  obtains mb0 mb where "early_alloc_pgt_buf env (su_dm st) = Inr (with_buffer (su_dm st))"
    "memblock_reserve_brk (with_buffer (su_dm st)) = Inr ((with_buffer (su_dm st))\<lparr>dm_mb := mb0, brk_start := 0\<rparr>)"
    "memblock_x86_fill (su_e820 st) mb0 = Inr mb" "mb_reserved mb = mb_reserved mb0" "pages_ok (mb_memory mb)"
    "\<forall>q \<in> page_frames MAX_NR_NODES (mb_memory mb). \<forall>x. x div 4096 = q \<longrightarrow> is_ram (su_e820 st) x"
    "pt_inv env ((with_buffer (su_dm st))\<lparr>dm_mb := mb, brk_start := 0\<rparr>)"
proof -
  let ?s = "su_dm st"
  have B: "env_ok env" "brk_ok env ?s" "mb_wf (dm_mb ?s)" "covered (mb_memory (dm_mb ?s)) = {}" "\<not> array_full (mb_reserved (dm_mb ?s))"
    "tables_ok env (dm_mem ?s) (boot_avail ?s)"
    and E: "\<And>e. e \<in> set (live_map (e820 (su_e820 st))) \<Longrightarrow> no_wrap e"
      "\<And>e. e \<in> set (live_map (e820 (su_e820 st))) \<Longrightarrow> usable e \<Longrightarrow> unat (e_addr e + e_size e) \<le> 2 ^ 32 - 2 ^ 12"
    using assms unfolding boot_state_def by blast+
  note bb = buf_frame_bounds [OF B(2)]
  obtain mb0 where r: "memblock_reserve_brk (with_buffer ?s) = Inr ((with_buffer ?s)\<lparr>dm_mb := mb0, brk_start := 0\<rparr>)" "mb_wf mb0"
    "mb_memory mb0 = mb_memory (dm_mb ?s)"
    "covered (mb_reserved mb0) = covered (mb_reserved (dm_mb ?s)) \<union> {unat (phys_addr (brk_start ?s))..<4096 * (buf_frame ?s + 6)}"
    using reserve_brk_ok [OF B(2,3,5)] by metis
  have "covered (mb_memory mb0) = {}" using B(4) r(3) by simp
  from x86_fill_ram [of mb0 "su_e820 st", OF r(2) this E] obtain mb where
    f: "memblock_x86_fill (su_e820 st) mb0 = Inr mb" "mb_wf mb" "mb_reserved mb = mb_reserved mb0"
      "\<forall>a \<in> covered (mb_memory mb). \<forall>x. x div 2 ^ 12 = a div 2 ^ 12 \<longrightarrow> is_ram (su_e820 st) x"
    unfolding is_ram_def by blast
  have "x < 2 ^ 32 - 2 ^ 12" if "is_ram (su_e820 st) x" for x using that E(2) unfolding is_ram_def by (meson order_less_le_trans)
  with f(4) have "pages_ok (mb_memory mb)" by (intro x86_fill_pages_ok [OF f(2)]) blast
  moreover have "\<forall>q \<in> page_frames MAX_NR_NODES (mb_memory mb). \<forall>x. x div 4096 = q \<longrightarrow> is_ram (su_e820 st) x"
  proof (intro ballI allI impI)
    fix q x :: nat assume "q \<in> page_frames MAX_NR_NODES (mb_memory mb)" "x div 4096 = q"
    then have "4096 * q \<in> covered (mb_memory mb)" "x div 2 ^ 12 = 4096 * q div 2 ^ 12" using frames_in_memory [of "mb_memory mb"] f(2) by (simp_all add: mb_wf_def)
    then show "is_ram (su_e820 st) x" using f(4) by blast
  qed
  moreover have "pt_inv env ((with_buffer ?s)\<lparr>dm_mb := mb, brk_start := 0\<rparr>)" (is "pt_inv env ?t")
  proof -
    have t: "unat (pgt_buf_end ?t) = buf_frame ?s" "unat (pgt_buf_top ?t) = buf_frame ?s + 6" "dm_mb ?t = mb" "dm_mem ?t = dm_mem (with_buffer ?s)"
      using bb(4) by (simp_all add: with_buffer_def unat_of_nat32 del: of_nat_add)
    have cov: "covered (mb_reserved mb) = covered (mb_reserved (dm_mb ?s)) \<union> {unat (phys_addr (brk_start ?s))..<4096 * (buf_frame ?s + 6)}"
      using r(4) f(3) by simp
    have "avail ?t \<subseteq> boot_avail ?s"
      using bb(2) free_frame_start [of mb] unfolding avail_def boot_avail_def t cov by fastforce
    moreover have "buf_ok ?t" unfolding buf_ok_def word_le_nat_alt t cov using f(2) bb by auto
    ultimately show ?thesis using boot_tables(1) [OF B(2,6)] B(1) t(4) by (simp add: pt_inv_def)
  qed
  ultimately show ?thesis using that early_alloc_pgt_buf_ok [OF B(2)] r(1) f(1,3) by blast
qed

lemma pt_inv_limit: "pt_inv env (s\<lparr>dm_mb := memblock_set_current_limit l (dm_mb s)\<rparr>) = pt_inv env s"
  "no_room (memblock_set_current_limit l mb) = no_room mb" "mb_memory (memblock_set_current_limit l mb) = mb_memory mb"
  by (simp_all add: pt_inv_def buf_ok_def avail_def free_frame_def free_block_def memblock_set_current_limit_def mb_wf_def no_room_def)

text \<open>
  C6: Setting up low memory in \<^verbatim>\<open>arch_setup\<close>, from the BIOS memory map to the direct mapping: when it returns, memblock's memory
  consists of page frames that are RAM, every address below 1 MiB and every address in such a page frame below \<^verbatim>\<open>max_low_pfn\<close>
  is mapped at \<^verbatim>\<open>PAGE_OFFSET\<close> above it, no other translation of the kernel's part has changed, and memblock's limit is the end of
  the mapped memory.  It panics only when the boot code left out a page table, or the reserved array is full.
\<close>

theorem setup_low_memory_correct:
  assumes "boot_state env st"
  shows "setup_low_memory env st = Inl Panic \<and>
      ((\<exists>i. 768 \<le> i \<and> i < 1024 \<and> \<not> present (dir env (dm_mem (su_dm st)) i)) \<or>
       (\<exists>s. memblock_reserve_brk (with_buffer (su_dm st)) = Inr s \<and> no_room (dm_mb s))) \<or>
    (\<exists>st'. setup_low_memory env st = Inr st' \<and>
       su_max_low_pfn st' = snd (find_low_pfn_range (e820_end_of_ram_pfn (e820 (su_e820 st)))) \<and>
       current_limit (dm_mb (su_dm st')) = push_bit PAGE_SHIFT (max_pfn_mapped (su_dm st')) \<and>
       (\<forall>q \<in> page_frames MAX_NR_NODES (mb_memory (dm_mb (su_dm st'))). \<forall>x. x div 4096 = q \<longrightarrow> is_ram (su_e820 st) x) \<and>
       (no_room (dm_mb (su_dm st')) \<or> pt_inv env (su_dm st') \<and>
          (\<forall>pa. unat pa < 2 ^ 30 \<longrightarrow> page_walk env (dm_mem (su_dm st')) (phys_to_virt pa) =
             (if unat pa < 2 ^ 20 \<or> unat pa div 4096 \<in> page_frames MAX_NR_NODES (mb_memory (dm_mb (su_dm st'))) \<and>
                 unat pa div 4096 < unat (su_max_low_pfn st')
              then Some pa else page_walk env (dm_mem (su_dm st)) (phys_to_virt pa)))))"
proof -
  let ?s = "su_dm st" and ?F = "e820_end_of_ram_pfn (e820 (su_e820 st))"
  have B: "env_ok env" "brk_ok env ?s" "tables_ok env (dm_mem ?s) (boot_avail ?s)" "present (pte_mask ?s)" "1024 \<le> unat (snd (find_low_pfn_range ?F))"
    using assms unfolding boot_state_def by blast+
  obtain mb0 mb where r: "early_alloc_pgt_buf env ?s = Inr (with_buffer ?s)"
    "memblock_reserve_brk (with_buffer ?s) = Inr ((with_buffer ?s)\<lparr>dm_mb := mb0, brk_start := 0\<rparr>)"
    "memblock_x86_fill (su_e820 st) mb0 = Inr mb" "mb_reserved mb = mb_reserved mb0" "pages_ok (mb_memory mb)"
    "\<forall>q \<in> page_frames MAX_NR_NODES (mb_memory mb). \<forall>x. x div 4096 = q \<longrightarrow> is_ram (su_e820 st) x"
    "pt_inv env ((with_buffer ?s)\<lparr>dm_mb := mb, brk_start := 0\<rparr>)" (is "pt_inv env ?t")
    using memory_ready [OF assms] by metis
  have t: "pte_mask ?t = pte_mask ?s" "dm_mem ?t = dm_mem (with_buffer ?s)" "dm_mb ?t = mb"
    "((with_buffer ?s)\<lparr>dm_mb := mb0, brk_start := 0\<rparr>)\<lparr>dm_mb := mb\<rparr> = ?t" by (simp_all add: with_buffer_def)
  obtain mp low where F: "find_low_pfn_range ?F = (mp, low)" by (cases "find_low_pfn_range ?F")
  have run: "setup_low_memory env st = kbind (init_mem_mapping env low ?t (su_ior st)) (\<lambda>(s, ior).
      Inr (st\<lparr>su_max_pfn := mp, su_max_low_pfn := low, su_ior := ior,
         su_dm := s\<lparr>dm_mb := memblock_set_current_limit (push_bit PAGE_SHIFT (max_pfn_mapped s)) (dm_mb s)\<rparr>\<rparr>))"
  proof -
    have "dm_mb ((with_buffer ?s)\<lparr>dm_mb := mb0, brk_start := 0\<rparr>) = mb0" by simp
    then show ?thesis unfolding setup_low_memory_def F by (simp only: prod.case r(1-3) t(4) kbind_Inr)
  qed
  have walk: "page_walk env (dm_mem ?t) (phys_to_virt pa) = page_walk env (dm_mem ?s) (phys_to_virt pa)" if pa: "unat pa < 2 ^ 30" for pa
    using page_walk_lookup [OF r(7) pa] page_walk_tables [OF B(1,3) pa] boot_tables(2) [OF B(2,3) subset_refl] pa t(2) by simp
  have room: "no_room mb = no_room mb0" using r(4) by (simp add: no_room_def)
  from init_mem_mapping_outcome [OF r(7), of ?F "su_ior st", unfolded F snd_conv] B(4,5) r(5) t F
  consider (panic) "init_mem_mapping env low ?t (su_ior st) = Inl Panic" "no_room mb \<or> (\<exists>i. 768 \<le> i \<and> i < 1024 \<and> \<not> present (dir env (dm_mem ?t) i))"
    | (mapped) s' ior' where "init_mem_mapping env low ?t (su_ior st) = Inr (s', ior')" "mb_memory (dm_mb s') = mb_memory mb"
      "no_room (dm_mb s') \<or> pt_inv env s' \<and> (\<forall>pa. unat pa < 2 ^ 30 \<longrightarrow> page_walk env (dm_mem s') (phys_to_virt pa) =
         (if unat pa < 2 ^ 20 \<or> unat pa div 4096 \<in> page_frames MAX_NR_NODES (mb_memory mb) \<and> unat pa div 4096 < unat low
          then Some pa else page_walk env (dm_mem ?t) (phys_to_virt pa)))"
    by auto
  then show ?thesis
  proof cases
    case panic
    moreover have "dir env (dm_mem ?t) i = dir env (dm_mem ?s) i" if "i < 1024" for i using boot_tables(3) [OF B(2,3) subset_refl that] t(2) by simp
    ultimately show ?thesis using run r(2) room by auto
  next
    case mapped
    have "no_room (dm_mb s') \<or> pt_inv env s' \<and> (\<forall>pa. unat pa < 2 ^ 30 \<longrightarrow> page_walk env (dm_mem s') (phys_to_virt pa) =
       (if unat pa < 2 ^ 20 \<or> unat pa div 4096 \<in> page_frames MAX_NR_NODES (mb_memory mb) \<and> unat pa div 4096 < unat low
        then Some pa else page_walk env (dm_mem ?s) (phys_to_virt pa)))"
      using mapped(3) unfolding t(2) by (simp only: walk [unfolded t(2)] cong: imp_cong)
    note mapped = mapped(1,2) this
    let ?s' = "s'\<lparr>dm_mb := memblock_set_current_limit (push_bit PAGE_SHIFT (max_pfn_mapped s')) (dm_mb s')\<rparr>"
    have "setup_low_memory env st = Inr (st\<lparr>su_max_pfn := mp, su_max_low_pfn := low, su_ior := ior', su_dm := ?s'\<rparr>)"
      using run mapped(1) by simp
    moreover have "current_limit (dm_mb ?s') = push_bit PAGE_SHIFT (max_pfn_mapped ?s')" by (simp add: memblock_set_current_limit_def)
    moreover have "mb_memory (dm_mb ?s') = mb_memory mb" using mapped(2) by (simp add: pt_inv_limit)
    moreover have "pt_inv env ?s' = pt_inv env s'" "no_room (dm_mb ?s') = no_room (dm_mb s')" "dm_mem ?s' = dm_mem s'" by (simp_all add: pt_inv_limit)
    ultimately show ?thesis using mapped(3) r(6) F
      by (intro disjI2 exI [of _ "st\<lparr>su_max_pfn := mp, su_max_low_pfn := low, su_ior := ior', su_dm := ?s'\<rparr>"]) simp
  qed
qed

text \<open>A machine with RAM from 1 MiB to 32 MiB and the kernel, its page tables included, below 20 MiB.\<close>

definition demo_kernel_memblock :: memblock where
  "demo_kernel_memblock = init_memblock\<lparr>mb_reserved := init_memblock_type
     \<lparr>total_size := 0x1400000, regions := (regions init_memblock_type)[0 := mk_region 0 0x1400000 MAX_NR_NODES 0]\<rparr>\<rparr>"

definition demo_setup :: setup_state where
  "demo_setup = \<lparr>su_e820 = demo_boot\<lparr>e820 := \<lparr>nr_entries = 1, e_map = [mk_entry 0x100000 0x1F00000 E820_RAM]\<rparr>\<rparr>,
     su_dm = demo_map\<lparr>dm_mb := demo_kernel_memblock, brk_start := 0xC1400000, brk_end := 0xC1400000\<rparr>, su_ior = boot_ioremap, su_max_pfn = 0,
     su_max_low_pfn = 0, highstart_pfn = 0, highend_pfn = 0, high_memory = 0, pkmap_pte = 0, kmap_pte = 0, su_zones = demo_zone_vars,
     su_node = demo_pgdata\<rparr>"

lemma demo_setup_sel:
  "dm_mb (su_dm demo_setup) = demo_kernel_memblock" "brk_start (su_dm demo_setup) = 0xC1400000" "brk_end (su_dm demo_setup) = 0xC1400000"
  "dm_mem (su_dm demo_setup) = dm_mem demo_map" "pte_mask (su_dm demo_setup) = - 1"
  "live_map (e820 (su_e820 demo_setup)) = [mk_entry 0x100000 0x1F00000 E820_RAM]"
  by (simp_all add: demo_setup_def demo_map_def live_map_def)

lemma demo_kernel_memblock_facts:
  "mb_wf demo_kernel_memblock" "covered (mb_memory demo_kernel_memblock) = {}" "covered (mb_reserved demo_kernel_memblock) = {0..<0x1400000}"
  "\<not> array_full (mb_reserved demo_kernel_memblock)"
proof -
  let ?r = "mk_region 0 0x1400000 MAX_NR_NODES 0" and ?t = "mb_reserved demo_kernel_memblock"
  have l: "live ?t = [?r]" and a: "array_wf ?t"
    by (simp_all add: demo_kernel_memblock_def init_memblock_type_def live_def array_wf_def INIT_MEMBLOCK_REGIONS_def eval_nat_numeral)
  have "regs_wf [?r]" by (simp add: regs_wf_Cons region_ok_def r_hi_def)
  note t = type_regs_wf [OF a l this]
  have "mt_max ?t = INIT_MEMBLOCK_REGIONS" by (simp add: demo_kernel_memblock_def init_memblock_type_def)
  then show "mb_wf demo_kernel_memblock" using mb_wf_init t(2) by (simp add: mb_wf_def demo_kernel_memblock_def)
  show "covered (mb_memory demo_kernel_memblock) = {}"
    by (simp add: covered_def type_map_def type_regs_def demo_kernel_memblock_def init_memblock_def init_memblock_type_def region_at_def
        INIT_MEMBLOCK_REGIONS_def zero_region_def)
  show "covered ?t = {0..<0x1400000}" by (simp add: covered_def type_map_def t dom_region_map region_cover_def r_lo_def r_hi_def)
  show "\<not> array_full ?t" by (simp add: array_full_def demo_kernel_memblock_def init_memblock_type_def INIT_MEMBLOCK_REGIONS_def)
qed

lemma demo_setup_boot: "boot_state demo_map_env demo_setup"
proof -
  have "buf_frame (su_dm demo_setup) = 5120" by (simp add: buf_frame_def demo_setup_sel phys_addr_def PAGE_OFFSET_def)
  then have "boot_avail (su_dm demo_setup) = {5120..}"
    by (auto simp: boot_avail_def demo_setup_sel demo_kernel_memblock_facts phys_addr_def PAGE_OFFSET_def)
  then have T: "tables_ok demo_map_env (dm_mem (su_dm demo_setup)) (boot_avail (su_dm demo_setup))"
    unfolding demo_setup_sel(4) by (intro demo_tables_ok) auto
  have "brk_ok demo_map_env (su_dm demo_setup)" by (simp add: brk_ok_def demo_setup_sel demo_map_env_def PAGE_OFFSET_def)
  moreover have "snd (find_low_pfn_range (e820_end_of_ram_pfn (e820 (su_e820 demo_setup)))) = 0x2000"
    by (simp add: demo_setup_def) code_simp
  ultimately show ?thesis using T demo_map_dir(3)
    by (simp add: boot_state_def demo_setup_sel demo_kernel_memblock_facts present_def PAGE_PRESENT_def no_wrap_def mk_entry_def usable_def E820_RAM_def)
qed

lemma demo_brk_room:
  assumes "memblock_reserve_brk (with_buffer (su_dm demo_setup)) = Inr s"
  shows "\<not> no_room (dm_mb s)"
proof -
  have "\<not> no_room (snd (projr (memblock_reserve 0x1400000 0x6000 demo_kernel_memblock)))" by code_simp
  moreover have "buf_frame (su_dm demo_setup) = 5120" by (simp add: buf_frame_def demo_setup_sel phys_addr_def PAGE_OFFSET_def)
  then have "brk_start (with_buffer (su_dm demo_setup)) = 0xC1400000" "brk_end (with_buffer (su_dm demo_setup)) = 0xC1406000"
    "dm_mb (with_buffer (su_dm demo_setup)) = demo_kernel_memblock"
    by (simp_all add: with_buffer_def demo_setup_sel phys_to_virt_def PAGE_OFFSET_def)
  then have "\<exists>ret. memblock_reserve 0x1400000 0x6000 demo_kernel_memblock = Inr (ret, dm_mb s)"
    using assms by (auto simp: memblock_reserve_brk_def phys_addr_def PAGE_OFFSET_def kbind_eq_Inr)
  ultimately show ?thesis by auto
qed

theorem setup_low_memory_correct_witness:
  "\<exists>st'. setup_low_memory demo_map_env demo_setup = Inr st' \<and> su_max_low_pfn st' = 0x2000 \<and>
     (no_room (dm_mb (su_dm st')) \<or> page_walk demo_map_env (dm_mem (su_dm st')) 0xC00B8000 = Some 0xB8000)"
proof -
  have low: "snd (find_low_pfn_range (e820_end_of_ram_pfn (e820 (su_e820 demo_setup)))) = 0x2000"
    by (simp add: demo_setup_def) code_simp
  have "present (dir demo_map_env (dm_mem (su_dm demo_setup)) i)" if "768 \<le> i" "i < 1024" for i
    using that demo_map_dir(2) demo_tables(2) by (simp add: demo_setup_sel)
  with setup_low_memory_correct [OF demo_setup_boot] demo_brk_room low obtain st' where
    st': "setup_low_memory demo_map_env demo_setup = Inr st'" "su_max_low_pfn st' = 0x2000"
      "no_room (dm_mb (su_dm st')) \<or> (\<forall>pa. unat pa < 2 ^ 30 \<longrightarrow> page_walk demo_map_env (dm_mem (su_dm st')) (phys_to_virt pa) =
         (if unat pa < 2 ^ 20 \<or> unat pa div 4096 \<in> page_frames MAX_NR_NODES (mb_memory (dm_mb (su_dm st'))) \<and> unat pa div 4096 < unat (su_max_low_pfn st')
          then Some pa else page_walk demo_map_env (dm_mem (su_dm demo_setup)) (phys_to_virt pa)))"
    by fastforce
  then have "no_room (dm_mb (su_dm st')) \<or> page_walk demo_map_env (dm_mem (su_dm st')) (phys_to_virt 0xB8000) = Some 0xB8000" by auto
  then show ?thesis using st'(1,2) by (simp add: phys_to_virt_def PAGE_OFFSET_def)
qed

section \<open>Boot mappings past the end of memory\<close>

text \<open>
  The loop of \<^verbatim>\<open>native_pagetable_init\<close> is to remove the mappings past the end of low memory.  \<^verbatim>\<open>pte_present\<close> tests the large
  page bit, which entries of page tables do not have, so the loop stops at once and the mappings stay.
\<close>

lemma past_end_loop_stops:
  assumes inv: "pt_inv env s" and low: "unat low < 2 ^ 18"
    and e: "present (dir env (dm_mem s) (768 + unat low div 1024)) \<Longrightarrow>
      entry (dm_mem s) (frame_of (dir env (dm_mem s) (768 + unat low div 1024))) (unat low mod 1024) AND PAGE_PSE = 0"
  shows "past_end_loop env low s = Inr s"
proof -
  let ?i = "768 + unat low div 1024" and ?va = "PAGE_OFFSET + push_bit PAGE_SHIFT low"
  have i: "768 \<le> ?i" "?i < 1024" using low by simp_all
  have eo: "env_ok env" and T: "tables_ok env (dm_mem s) (avail s)" using inv by (simp_all add: pt_inv_def)
  have idx: "pgd_index ?va = ?i" "pte_index ?va = unat low mod 1024" using page_indices [OF low] by (simp_all add: add.commute)
  have d: "load32 (dm_mem s) (initial_page_table env + 4 * of_nat (pgd_index ?va)) = dir env (dm_mem s) ?i"
    unfolding idx dir_addr [OF eo] by (simp add: dir_def entry_def)
  have lt: "low < push_bit (32 - PAGE_SHIFT) 1" using low by (simp add: word_less_nat_alt PAGE_SHIFT_def)
  show ?thesis
  proof (cases "present (dir env (dm_mem s) ?i)")
    case True
    have pse: "dir env (dm_mem s) ?i AND PAGE_PSE = 0" by (rule tables_okD(1) [OF T i True])
    then have large: "pmd_large (dir env (dm_mem s) ?i) = 0" by (simp add: pmd_large_def pmd_flags_def and.commute [of _ PAGE_PSE] and.assoc [symmetric])
    have "pte_offset_kernel (dm_mem s) (initial_page_table env + 4 * of_nat (pgd_index ?va)) ?va = slot_addr (frame_of (dir env (dm_mem s) ?i)) (unat low mod 1024)"
      unfolding pte_offset_kernel_def d unfolding table_slot [OF pse] idx(2) slot_addr_add by simp
    then have "pte_present (load32 (dm_mem s) (pte_offset_kernel (dm_mem s) (initial_page_table env + 4 * of_nat (pgd_index ?va)) ?va)) = 0"
      using e [OF True] by (simp add: entry_def pte_present_def pte_flags_def and.commute [of _ PAGE_PSE] and.assoc [symmetric])
    with lt large d show ?thesis by (subst past_end_loop.simps) (simp only: if_True Let_def simp_thms if_False split: if_split)
  next
    case False
    then have "pmd_present (dir env (dm_mem s) ?i) = 0"
      by (simp add: present_def pmd_present_def pmd_flags_def and.commute [of _ PAGE_PRESENT] and.assoc [symmetric])
    with lt d show ?thesis by (subst past_end_loop.simps) (simp only: if_True Let_def simp_thms)
  qed
qed

text \<open>The permanent kmap area gets its page table, and no translation changes.\<close>

lemma permanent_kmap_init_ok:
  assumes "buf_ok s"
  shows "mapping_ok env {} s snd (permanent_kmap_init env s)"
proof -
  have pk: "PKMAP_BASE = 0xFF800000" "pgd_index 0xFF800000 = 1022" "\<not> 0xFF800000 > fix_to_virt FIX_KMAP_END" by code_simp+
  have e: "0xFF800000 + PMD_SIZE = 0xFFC00000" "0xFF800000 + PAGE_SIZE * LAST_PKMAP = 0xFFC00000"
    by (simp_all add: PMD_SIZE_def PMD_SHIFT_def PGDIR_SHIFT_def PAGE_SIZE_def LAST_PKMAP_def)
  let ?one = "one_page_table_init env (initial_page_table env + 4 * of_nat 1022) s"
  have "permanent_kmap_init env s = kbind ?one (\<lambda>(_, s).
      Inr (pte_offset_kernel (dm_mem s) (initial_page_table env + 4 * of_nat (pgd_index 0xFF800000)) 0xFF800000, s))"
    unfolding permanent_kmap_init_def Let_def pk(1) e(2) range_init_one [OF pk(2) _ pk(3) e(1), simplified] by (simp add: kbind_assoc case_prod_unfold)
  moreover have "mapping_ok env {} s snd ?one" using one_page_table_init_ok [OF assms, of 1022 env] by simp
  ultimately show ?thesis by (cases ?one) (auto simp: case_prod_unfold)
qed

end
