(* ===== verification/Tty.thy ===== *)
theory Tty
  imports Ctype
begin

text \<open>
  Terminals: the structures of \<^verbatim>\<open>include/sandix/tty.h\<close>, \<^verbatim>\<open>tty_driver.h\<close> and \<^verbatim>\<open>termios.h\<close>, the calls of a tty driver
  in \<^verbatim>\<open>drivers/tty/tty_io.c\<close> and the line discipline \<^verbatim>\<open>N_TTY\<close> of \<^verbatim>\<open>drivers/tty/n_tty.c\<close>.  The functions that call a
  tty driver are polymorphic in the state \<open>'d\<close> of the device behind it.  A buffer is the list of its \<^verbatim>\<open>count\<close> bytes.
  Mutexes and semaphores have empty bodies in this kernel and do not appear.
\<close>

section \<open>Terminal settings\<close>

record termios =
  c_iflag :: u32
  c_oflag :: u32
  c_cflag :: u32
  c_lflag :: u32
  c_line :: u8
  c_cc :: "u8 list"
  c_ispeed :: u32
  c_ospeed :: u32

definition OPOST :: u32 where "OPOST = 1"
definition OLCUC :: u32 where "OLCUC = 2"
definition ONLCR :: u32 where "ONLCR = 4"
definition OCRNL :: u32 where "OCRNL = 8"
definition ONOCR :: u32 where "ONOCR = 16"
definition ONLRET :: u32 where "ONLRET = 32"
definition TABDLY :: u32 where "TABDLY = 0x1800"
definition XTABS :: u32 where "XTABS = 0x1800"

definition INIT_C_CC :: "u8 list" where
  "INIT_C_CC = [3, 28, 127, 21, 4, 0, 1, 0, 17, 19, 26, 0, 18, 15, 23, 22, 0]"

text \<open>
  \<^verbatim>\<open>ICRNL | IXON\<close>, \<^verbatim>\<open>OPOST | ONLCR\<close>, \<^verbatim>\<open>B38400 | CS8 | CREAD | HUPCL\<close> and
  \<^verbatim>\<open>ISIG | ICANON | ECHO | ECHOE | ECHOK | ECHOCTL | ECHOKE | IEXTEN\<close>.
\<close>

definition tty_std_termios :: termios where
  "tty_std_termios = \<lparr>c_iflag = 0x100 OR 0x400, c_oflag = OPOST OR ONLCR, c_cflag = 0xF OR 0x30 OR 0x80 OR 0x400,
     c_lflag = 0x1 OR 0x2 OR 0x8 OR 0x10 OR 0x20 OR 0x200 OR 0x800 OR 0x8000, c_line = 0, c_cc = INIT_C_CC,
     c_ispeed = 38400, c_ospeed = 38400\<rparr>"

section \<open>The tty structure and its driver\<close>

text \<open>
  Pointers: the driver operations of the kernel are the constant \<open>console_ops\<close>; \<^verbatim>\<open>driver_data\<close> points to an element of
  \<^verbatim>\<open>vc_struct_map\<close>, by its index; \<^verbatim>\<open>ldisc\<close> points to a line discipline object, by its address; \<^verbatim>\<open>ldisc_data\<close> is null or
  points to the one structure \<^verbatim>\<open>tmp_ldata\<close>.
\<close>

datatype tty_ops_name = console_ops
datatype ldata_name = tmp_ldata

record tty_struct =
  tty_magic :: int
  tty_index :: int
  tty_flags :: ulong
  tty_stopped :: bool
  tty_termios :: termios
  tty_drv :: "ulong option"
  tty_ops :: "tty_ops_name option"
  tty_driver_data :: "nat option"
  tty_ldisc :: "nat option"
  tty_ldisc_data :: "ldata_name option"
  tty_write_cnt :: int
  tty_write_buf :: "u8 list"

definition TTY_WRITE_BUF_SIZE :: nat where "TTY_WRITE_BUF_SIZE = 2048"
definition TTY_STRUCT_MAGIC :: int where "TTY_STRUCT_MAGIC = 0x3131"
definition TTY_LDISC_OPEN :: nat where "TTY_LDISC_OPEN = 11"

text \<open>The functions of a tty driver; a null pointer is \<open>None\<close>.\<close>

record 'd tty_operations =
  op_write :: "(tty_struct \<Rightarrow> u8 list \<Rightarrow> 'd \<Rightarrow> int \<times> 'd) option"
  op_put_char :: "(tty_struct \<Rightarrow> u8 \<Rightarrow> 'd \<Rightarrow> int \<times> 'd) option"
  op_write_room :: "(tty_struct \<Rightarrow> 'd \<Rightarrow> int) option"
  op_chars_in_buffer :: "(tty_struct \<Rightarrow> 'd \<Rightarrow> int) option"
  op_flush_chars :: "(tty_struct \<Rightarrow> 'd \<Rightarrow> 'd) option"
  op_flush_buffer :: "(tty_struct \<Rightarrow> 'd \<Rightarrow> 'd) option"

type_synonym 'd tty_writer = "tty_struct \<Rightarrow> u8 list \<Rightarrow> 'd \<Rightarrow> int \<times> 'd"

definition EIO :: int where "EIO = 5"
definition EAGAIN :: int where "EAGAIN = 11"

definition O_FLAG :: "tty_struct \<Rightarrow> u32 \<Rightarrow> u32" where
  "O_FLAG tty f = c_oflag (tty_termios tty) AND f"

definition O_OPOST :: "tty_struct \<Rightarrow> bool" where "O_OPOST tty \<longleftrightarrow> O_FLAG tty OPOST \<noteq> 0"
definition O_OLCUC :: "tty_struct \<Rightarrow> bool" where "O_OLCUC tty \<longleftrightarrow> O_FLAG tty OLCUC \<noteq> 0"
definition O_ONLCR :: "tty_struct \<Rightarrow> bool" where "O_ONLCR tty \<longleftrightarrow> O_FLAG tty ONLCR \<noteq> 0"
definition O_OCRNL :: "tty_struct \<Rightarrow> bool" where "O_OCRNL tty \<longleftrightarrow> O_FLAG tty OCRNL \<noteq> 0"
definition O_ONOCR :: "tty_struct \<Rightarrow> bool" where "O_ONOCR tty \<longleftrightarrow> O_FLAG tty ONOCR \<noteq> 0"
definition O_ONLRET :: "tty_struct \<Rightarrow> bool" where "O_ONLRET tty \<longleftrightarrow> O_FLAG tty ONLRET \<noteq> 0"
definition O_TABDLY :: "tty_struct \<Rightarrow> u32" where "O_TABDLY tty = O_FLAG tty TABDLY"

section \<open>Calls of the driver\<close>

definition tty_chars_in_buffer :: "'d tty_operations \<Rightarrow> tty_struct \<Rightarrow> 'd \<Rightarrow> int" where
  "tty_chars_in_buffer ops tty d = (case op_chars_in_buffer ops of Some f \<Rightarrow> f tty d | None \<Rightarrow> 0)"

definition tty_write_room :: "'d tty_operations \<Rightarrow> tty_struct \<Rightarrow> 'd \<Rightarrow> int" where
  "tty_write_room ops tty d = (case op_write_room ops of Some f \<Rightarrow> f tty d | None \<Rightarrow> 2048)"

definition tty_driver_flush_buffer :: "'d tty_operations \<Rightarrow> tty_struct \<Rightarrow> 'd \<Rightarrow> 'd" where
  "tty_driver_flush_buffer ops tty d = (case op_flush_buffer ops of Some f \<Rightarrow> f tty d | None \<Rightarrow> d)"

text \<open>
  The functions that call \<^verbatim>\<open>tty->ops->write\<close> take it as the argument \<open>wr\<close>: \<^verbatim>\<open>tty_write\<close> has checked that the pointer is
  not null before it calls the line discipline.
\<close>

definition tty_put_char :: "'d tty_operations \<Rightarrow> 'd tty_writer \<Rightarrow> tty_struct \<Rightarrow> u8 \<Rightarrow> 'd \<Rightarrow> int \<times> 'd" where
  "tty_put_char ops wr tty ch d = (case op_put_char ops of Some f \<Rightarrow> f tty ch d | None \<Rightarrow> wr tty [ch] d)"

section \<open>The line discipline N\_TTY\<close>

record n_tty_data =
  column :: u32
  canon_column :: u32

definition do_output_char ::
  "'d tty_operations \<Rightarrow> 'd tty_writer \<Rightarrow> u8 \<Rightarrow> tty_struct \<Rightarrow> int \<Rightarrow> n_tty_data \<Rightarrow> 'd \<Rightarrow> int \<times> n_tty_data \<times> 'd" where
  "do_output_char ops wr c tty space ld d =
     (let put = (\<lambda>ld c. (1, ld, snd (tty_put_char ops wr tty c d))) in
      if space = 0 then (- 1, ld, d)
      else if c = 10 then
        (let ld = (if O_ONLRET tty then ld\<lparr>column := 0\<rparr> else ld) in
         if O_ONLCR tty then
           (if space < 2 then (- 1, ld, d)
            else (2, ld\<lparr>column := 0, canon_column := 0\<rparr>, snd (wr tty [13, 10] d)))
         else put (ld\<lparr>canon_column := column ld\<rparr>) c)
      else if c = 13 then
        (if O_ONOCR tty \<and> column ld = 0 then (0, ld, d)
         else if O_OCRNL tty then put (if O_ONLRET tty then ld\<lparr>column := 0, canon_column := 0\<rparr> else ld) 10
         else put (ld\<lparr>column := 0, canon_column := 0\<rparr>) c)
      else if c = 9 then
        (let spaces = 8 - (column ld AND 7); ld' = ld\<lparr>column := column ld + spaces\<rparr> in
         if O_TABDLY tty = XTABS then
           (if space < int (unat spaces) then (- 1, ld, d)
            else (int (unat spaces), ld', snd (wr tty (replicate (unat spaces) 32) d)))
         else put ld' c)
      else if c = 8 then put (if column ld > 0 then ld\<lparr>column := column ld - 1\<rparr> else ld) c
      else put ld (if \<not> iscntrl c \<and> O_OLCUC tty then toupper c else c))"

definition process_output ::
  "'d tty_operations \<Rightarrow> 'd tty_writer \<Rightarrow> u8 \<Rightarrow> tty_struct \<Rightarrow> n_tty_data \<Rightarrow> 'd \<Rightarrow> int \<times> n_tty_data \<times> 'd" where
  "process_output ops wr ch tty ld d =
     (case do_output_char ops wr ch tty (tty_write_room ops tty d) ld d of
        (retval, ld, d) \<Rightarrow> (if retval < 0 then - 1 else 0, ld, d))"

text \<open>One character of the scan of \<^verbatim>\<open>process_output_block\<close>: the column state, or also that the scan stops before it.\<close>

definition block_char :: "tty_struct \<Rightarrow> u8 \<Rightarrow> n_tty_data \<Rightarrow> bool \<times> n_tty_data" where
  "block_char tty ch ld =
     (if ch = 10 then
        (let ld = (if O_ONLRET tty then ld\<lparr>column := 0\<rparr> else ld) in
         if O_ONLCR tty then (True, ld) else (False, ld\<lparr>canon_column := column ld\<rparr>))
      else if ch = 13 then
        (if O_ONOCR tty \<and> column ld = 0 then (True, ld)
         else if O_OCRNL tty then (True, ld)
         else (False, ld\<lparr>column := 0, canon_column := 0\<rparr>))
      else if ch = 9 then (True, ld)
      else if ch = 8 then (False, if column ld > 0 then ld\<lparr>column := column ld - 1\<rparr> else ld)
      else (\<not> iscntrl ch \<and> O_OLCUC tty, ld))"

fun block_scan :: "tty_struct \<Rightarrow> u8 list \<Rightarrow> n_tty_data \<Rightarrow> nat \<times> n_tty_data" where
  "block_scan tty [] ld = (0, ld)"
| "block_scan tty (ch # buf) ld =
     (case block_char tty ch ld of
        (True, ld) \<Rightarrow> (0, ld)
      | (False, ld) \<Rightarrow> (case block_scan tty buf ld of (i, ld) \<Rightarrow> (Suc i, ld)))"

text \<open>\<^verbatim>\<open>if (count > space)\<close> compares as unsigned.\<close>

definition process_output_block ::
  "'d tty_operations \<Rightarrow> 'd tty_writer \<Rightarrow> tty_struct \<Rightarrow> u8 list \<Rightarrow> n_tty_data \<Rightarrow> 'd \<Rightarrow> int \<times> n_tty_data \<times> 'd" where
  "process_output_block ops wr tty buf ld d =
     (let space = tty_write_room ops tty d in
      if space = 0 then (0, ld, d)
      else (let buf = (if int (length buf) > space mod 2 ^ 32 then take (nat (space mod 2 ^ 32)) buf else buf) in
            case block_scan tty buf ld of (i, ld) \<Rightarrow>
              (case wr tty (take i buf) d of (i, d) \<Rightarrow> (i, ld, d))))"

text \<open>
  The loop of \<^verbatim>\<open>n_tty_write\<close> with output processing: \<open>n\<close> is \<^verbatim>\<open>b - buf\<close> and \<open>bs\<close> the bytes from \<^verbatim>\<open>b\<close> on.  While the
  driver has no room it tries again; a loop that never ends is \<open>None\<close>.
\<close>

partial_function (option) opost_loop ::
  "'d tty_operations \<Rightarrow> 'd tty_writer \<Rightarrow> tty_struct \<Rightarrow> nat \<Rightarrow> u8 list \<Rightarrow> n_tty_data \<Rightarrow> 'd \<Rightarrow> (int \<times> nat \<times> n_tty_data \<times> 'd) option" where
  "opost_loop ops wr tty n bs ld d =
     (if bs = [] then Some (0, n, ld, d)
      else (case process_output_block ops wr tty bs ld d of (num, ld, d) \<Rightarrow>
        if num < 0 then
          (if num = - EAGAIN then opost_loop ops wr tty n bs ld d else Some (num, n, ld, d))
        else (let n = n + nat num; bs = drop (nat num) bs in
          if bs = [] then Some (0, n, ld, d)
          else (case process_output ops wr (hd bs) tty ld d of (r, ld, d) \<Rightarrow>
            if r < 0 then opost_loop ops wr tty n bs ld d
            else opost_loop ops wr tty (n + 1) (tl bs) ld d))))"

text \<open>The loop without output processing.\<close>

function raw_loop :: "'d tty_writer \<Rightarrow> tty_struct \<Rightarrow> nat \<Rightarrow> u8 list \<Rightarrow> 'd \<Rightarrow> int \<times> nat \<times> 'd" where
  "raw_loop wr tty n bs d =
     (if bs = [] then (0, n, d)
      else (case wr tty bs d of (c, d) \<Rightarrow>
        if c < 0 then (c, n, d)
        else if c = 0 then (0, n, d)
        else raw_loop wr tty (n + nat c) (drop (nat c) bs) d))"
  by pat_completeness auto

termination
  by (relation "measure (\<lambda>(wr, tty, n, bs, d). length bs)") auto

declare raw_loop.simps [simp del]

text \<open>An error leaves the loop with \<^verbatim>\<open>goto break_out\<close>, past the call of \<^verbatim>\<open>flush_chars\<close>.\<close>

definition n_tty_write ::
  "'d tty_operations \<Rightarrow> 'd tty_writer \<Rightarrow> tty_struct \<Rightarrow> u8 list \<Rightarrow> n_tty_data \<Rightarrow> 'd \<Rightarrow> (int \<times> n_tty_data \<times> 'd) option" where
  "n_tty_write ops wr tty buf ld d =
     (if O_OPOST tty then
        (case opost_loop ops wr tty 0 buf ld d of
           None \<Rightarrow> None
         | Some (retval, n, ld, d) \<Rightarrow>
             (let d = (if retval < 0 then d else (case op_flush_chars ops of None \<Rightarrow> d | Some f \<Rightarrow> f tty d)) in
              Some (if n \<noteq> 0 then int n else retval, ld, d)))
      else (case raw_loop wr tty 0 buf d of (retval, n, d) \<Rightarrow> Some (if n \<noteq> 0 then int n else retval, ld, d)))"

definition n_tty_read :: int where
  "n_tty_read = 0"

definition n_tty_set_termios :: "tty_struct \<Rightarrow> termios \<Rightarrow> tty_struct" where
  "n_tty_set_termios tty old = tty"

definition n_tty_open :: "tty_struct \<Rightarrow> int \<times> tty_struct" where
  "n_tty_open tty = (0, tty\<lparr>tty_ldisc_data := Some tmp_ldata\<rparr>)"

definition n_tty_close :: "tty_struct \<Rightarrow> tty_struct" where
  "n_tty_close tty = tty\<lparr>tty_ldisc_data := None\<rparr>"

end
