(* ===== verification/Tty_Ldisc.thy ===== *)
theory Tty_Ldisc
  imports Tty
begin

text \<open>
  The line discipline layer of \<^verbatim>\<open>drivers/tty/tty_ldisc.c\<close>: registration, the reference counts of line disciplines, and
  opening, closing and changing the discipline of a terminal.  The functions of the disciplines are an argument
  \<open>fns\<close>; \<open>N_TTY\<close>'s own are those of \<open>Tty\<close>.  \<^verbatim>\<open>kmalloc\<close> and \<^verbatim>\<open>kfree\<close> of \<^verbatim>\<open>include/sandix/slab.h\<close> are placeholders: the one always
  returns null, the other does nothing.
\<close>

section \<open>State\<close>

definition N_TTY :: int where "N_TTY = 0"
definition NR_LDISCS :: int where "NR_LDISCS = 30"

text \<open>A discipline structure is known by its address; its changing fields are \<^verbatim>\<open>num\<close> and \<^verbatim>\<open>refcount\<close>.\<close>

record tty_ldisc_ops =
  ldo_num :: int
  ldo_refcount :: int

record tty_ldisc_obj =
  ld_ops :: nat
  ld_tty :: nat

record ldisc_state =
  ldops :: "nat \<Rightarrow> tty_ldisc_ops"
  tty_ldiscs :: "nat option list"
  ldiscs :: "nat \<Rightarrow> tty_ldisc_obj option"

record ldisc_fns =
  ldf_open :: "(tty_struct \<Rightarrow> int \<times> tty_struct) option"
  ldf_close :: "(tty_struct \<Rightarrow> tty_struct) option"

text \<open>The result of \<^verbatim>\<open>kmalloc\<close> is an address or null.\<close>

definition kmalloc :: "nat \<Rightarrow> int \<Rightarrow> nat option" where
  "kmalloc sz flags = None"

definition kfree :: "nat \<Rightarrow> ldisc_state \<Rightarrow> ldisc_state" where
  "kfree p s = s"

definition upd_ops :: "nat \<Rightarrow> (tty_ldisc_ops \<Rightarrow> tty_ldisc_ops) \<Rightarrow> ldisc_state \<Rightarrow> ldisc_state" where
  "upd_ops p f s = s\<lparr>ldops := (ldops s)(p := f (ldops s p))\<rparr>"

section \<open>Registration\<close>

definition tty_register_ldisc :: "int \<Rightarrow> nat \<Rightarrow> ldisc_state \<Rightarrow> int \<times> ldisc_state" where
  "tty_register_ldisc disc new_ldisc s =
     (if disc < N_TTY \<or> disc \<ge> NR_LDISCS then (- EINVAL, s)
      else (0, upd_ops new_ldisc (\<lambda>o'. o'\<lparr>ldo_num := disc, ldo_refcount := 0\<rparr>)
                 (s\<lparr>tty_ldiscs := (tty_ldiscs s)[nat disc := Some new_ldisc]\<rparr>)))"

definition tty_unregister_ldisc :: "int \<Rightarrow> ldisc_state \<Rightarrow> (int \<times> ldisc_state) kres" where
  "tty_unregister_ldisc disc s =
     (if disc < N_TTY \<or> disc \<ge> NR_LDISCS then Inr (- EINVAL, s)
      else (case tty_ldiscs s ! nat disc of
              None \<Rightarrow> Inl NullDeref
            | Some p \<Rightarrow>
                if ldo_refcount (ldops s p) \<noteq> 0 then Inr (- EBUSY, s)
                else Inr (0, s\<lparr>tty_ldiscs := (tty_ldiscs s)[nat disc := None]\<rparr>)))"

section \<open>References\<close>

text \<open>A returned pointer is \<open>Inr\<close>, an error pointer \<open>Inl\<close> with the error number.\<close>

definition get_ldops :: "int \<Rightarrow> ldisc_state \<Rightarrow> (int + nat) \<times> ldisc_state" where
  "get_ldops disc s =
     (case tty_ldiscs s ! nat disc of
        None \<Rightarrow> (Inl (- EINVAL), s)
      | Some p \<Rightarrow> (Inr p, upd_ops p (\<lambda>o'. o'\<lparr>ldo_refcount := ldo_refcount o' + 1\<rparr>) s))"

definition put_ldops :: "nat \<Rightarrow> ldisc_state \<Rightarrow> ldisc_state" where
  "put_ldops p s = upd_ops p (\<lambda>o'. o'\<lparr>ldo_refcount := ldo_refcount o' - 1\<rparr>) s"

definition tty_ldisc_get :: "nat \<Rightarrow> int \<Rightarrow> ldisc_state \<Rightarrow> (int + nat) \<times> ldisc_state" where
  "tty_ldisc_get t disc s =
     (if disc < N_TTY \<or> disc \<ge> NR_LDISCS then (Inl (- EINVAL), s)
      else (case get_ldops disc s of
              (Inl e, s) \<Rightarrow> (Inl e, s)
            | (Inr p, s) \<Rightarrow>
                (case kmalloc 8 1 of
                   None \<Rightarrow> (Inl (- ENOMEM), put_ldops p s)
                 | Some a \<Rightarrow> (Inr a, s\<lparr>ldiscs := (ldiscs s)(a := Some \<lparr>ld_ops = p, ld_tty = t\<rparr>)\<rparr>))))"

text \<open>A null argument only gives a warning.\<close>

definition tty_ldisc_put :: "nat option \<Rightarrow> ldisc_state \<Rightarrow> ldisc_state kres" where
  "tty_ldisc_put ld s =
     (case ld of
        None \<Rightarrow> Inr s
      | Some a \<Rightarrow>
          (case ldiscs s a of
             None \<Rightarrow> Inl NullDeref
           | Some l \<Rightarrow> Inr (kfree a (put_ldops (ld_ops l) s))))"

section \<open>The discipline of a terminal\<close>

definition tty_set_termios_ldisc :: "tty_struct \<Rightarrow> int \<Rightarrow> tty_struct" where
  "tty_set_termios_ldisc tty disc = tty\<lparr>tty_termios := (tty_termios tty)\<lparr>c_line := of_int disc\<rparr>\<rparr>"

definition tty_ldisc_open :: "(nat \<Rightarrow> ldisc_fns) \<Rightarrow> tty_struct \<Rightarrow> tty_ldisc_obj \<Rightarrow> int \<times> tty_struct" where
  "tty_ldisc_open fns tty ld =
     (let tty = tty\<lparr>tty_flags := set_bit TTY_LDISC_OPEN (tty_flags tty)\<rparr> in
      case ldf_open (fns (ld_ops ld)) of
        None \<Rightarrow> (0, tty)
      | Some open \<Rightarrow>
          (case open tty of (ret, tty) \<Rightarrow>
             (ret, if ret \<noteq> 0 then tty\<lparr>tty_flags := unset_bit TTY_LDISC_OPEN (tty_flags tty)\<rparr> else tty)))"

definition tty_ldisc_close :: "(nat \<Rightarrow> ldisc_fns) \<Rightarrow> tty_struct \<Rightarrow> tty_ldisc_obj \<Rightarrow> tty_struct" where
  "tty_ldisc_close fns tty ld =
     (let tty = tty\<lparr>tty_flags := unset_bit TTY_LDISC_OPEN (tty_flags tty)\<rparr> in
      case ldf_close (fns (ld_ops ld)) of None \<Rightarrow> tty | Some close \<Rightarrow> close tty)"

text \<open>The attachment of an object to the terminal, as the callers write it out: set the pointer and the line number, open.\<close>

definition attach_ldisc :: "(nat \<Rightarrow> ldisc_fns) \<Rightarrow> tty_struct \<Rightarrow> nat \<Rightarrow> tty_ldisc_obj \<Rightarrow> int \<Rightarrow> int \<times> tty_struct" where
  "attach_ldisc fns tty a ld disc = tty_ldisc_open fns (tty_set_termios_ldisc (tty\<lparr>tty_ldisc := Some a\<rparr>) disc) ld"

text \<open>
  When no object can be had for the old discipline, \<^verbatim>\<open>WARN_ON(IS_ERR(old))\<close> reports it and the next line reads through
  the error pointer.
\<close>

definition tty_ldisc_restore ::
  "(nat \<Rightarrow> ldisc_fns) \<Rightarrow> nat \<Rightarrow> tty_struct \<Rightarrow> tty_ldisc_obj \<Rightarrow> ldisc_state \<Rightarrow> (tty_struct \<times> ldisc_state) kres" where
  "tty_ldisc_restore fns t tty old s =
     (case tty_ldisc_get t (ldo_num (ldops s (ld_ops old))) s of
        (Inl e, s) \<Rightarrow> Inl NullDeref
      | (Inr a, s) \<Rightarrow>
          (case ldiscs s a of
             None \<Rightarrow> Inl NullDeref
           | Some l \<Rightarrow>
               (case attach_ldisc fns tty a l (ldo_num (ldops s (ld_ops l))) of (ret, tty) \<Rightarrow>
                  if \<not> ret < 0 then Inr (tty, s)
                  else kbind (tty_ldisc_put (Some a) s) (\<lambda>s.
                    case tty_ldisc_get t N_TTY s of
                      (Inl e, s) \<Rightarrow> Inl Panic
                    | (Inr b, s) \<Rightarrow>
                        (case ldiscs s b of
                           None \<Rightarrow> Inl NullDeref
                         | Some l \<Rightarrow>
                             (case attach_ldisc fns tty b l N_TTY of (ret, tty) \<Rightarrow>
                                if ret < 0 then Inl Panic else Inr (tty, s)))))))"

definition tty_ldisc_change ::
  "(nat \<Rightarrow> ldisc_fns) \<Rightarrow> nat \<Rightarrow> tty_struct \<Rightarrow> int \<Rightarrow> ldisc_state \<Rightarrow> (int \<times> tty_struct \<times> ldisc_state) kres" where
  "tty_ldisc_change fns t tty disc s =
     (case tty_ldisc tty of
        None \<Rightarrow> Inl BugOn
      | Some oa \<Rightarrow>
          (case ldiscs s oa of
             None \<Rightarrow> Inl NullDeref
           | Some old \<Rightarrow>
               if ldo_num (ldops s (ld_ops old)) = disc then Inr (0, tty, s)
               else (case tty_ldisc_get t disc s of
                       (Inl e, s) \<Rightarrow> Inr (e, tty, s)
                     | (Inr na, s) \<Rightarrow>
                         (case ldiscs s na of
                            None \<Rightarrow> Inl NullDeref
                          | Some new \<Rightarrow>
                              (case attach_ldisc fns (tty_ldisc_close fns tty old) na new disc of (ret, tty) \<Rightarrow>
                                 kbind (if ret \<noteq> 0
                                        then kbind (tty_ldisc_put (Some na) s) (tty_ldisc_restore fns t tty old)
                                        else Inr (tty, s))
                                   (\<lambda>(tty, s). kbind (tty_ldisc_put (Some oa) s) (\<lambda>s. Inr (ret, tty, s))))))))"

definition tty_ldisc_ref_wait :: "tty_struct \<Rightarrow> nat option" where
  "tty_ldisc_ref_wait tty = tty_ldisc tty"

definition tty_ldisc_init :: "nat \<Rightarrow> tty_struct \<Rightarrow> ldisc_state \<Rightarrow> (tty_struct \<times> ldisc_state) kres" where
  "tty_ldisc_init t tty s =
     (case tty_ldisc_get t N_TTY s of
        (Inl e, s) \<Rightarrow> Inl Panic
      | (Inr a, s) \<Rightarrow> Inr (tty\<lparr>tty_ldisc := Some a\<rparr>, s))"

definition tty_ldisc_deinit :: "tty_struct \<Rightarrow> ldisc_state \<Rightarrow> (tty_struct \<times> ldisc_state) kres" where
  "tty_ldisc_deinit tty s = kbind (tty_ldisc_put (tty_ldisc tty) s) (\<lambda>s. Inr (tty\<lparr>tty_ldisc := None\<rparr>, s))"

text \<open>The address of the structure \<^verbatim>\<open>tty_ldisc_N_TTY\<close> is 0.\<close>

definition tty_ldisc_N_TTY :: nat where "tty_ldisc_N_TTY = 0"

definition tty_ldisc_begin :: "ldisc_state \<Rightarrow> ldisc_state" where
  "tty_ldisc_begin s = snd (tty_register_ldisc N_TTY tty_ldisc_N_TTY s)"

definition n_tty_fns :: ldisc_fns where
  "n_tty_fns = \<lparr>ldf_open = Some n_tty_open, ldf_close = Some n_tty_close\<rparr>"

end
