(* ===== verification/List_Head.thy ===== *)
theory List_Head
  imports Sandix_Prelude
begin

text \<open>
  The circular doubly linked lists of \<^verbatim>\<open>include/sandix/list.h\<close>.  A node is its address; the heap holds the two
  pointers of every node.  The operations are proved to implement those on the list of the nodes behind a head.
\<close>

section \<open>Operations\<close>

record list_heap =
  lh_next :: "ulong \<Rightarrow> ulong"
  lh_prev :: "ulong \<Rightarrow> ulong"

definition set_next :: "list_heap \<Rightarrow> ulong \<Rightarrow> ulong \<Rightarrow> list_heap" where
  "set_next h a b = h\<lparr>lh_next := (lh_next h)(a := b)\<rparr>"

definition set_prev :: "list_heap \<Rightarrow> ulong \<Rightarrow> ulong \<Rightarrow> list_heap" where
  "set_prev h a b = h\<lparr>lh_prev := (lh_prev h)(a := b)\<rparr>"

definition INIT_LIST_HEAD :: "list_heap \<Rightarrow> ulong \<Rightarrow> list_heap" where
  "INIT_LIST_HEAD h lst = set_prev (set_next h lst lst) lst lst"

definition list_add_between :: "list_heap \<Rightarrow> ulong \<Rightarrow> ulong \<Rightarrow> ulong \<Rightarrow> list_heap" where
  "list_add_between h new prv nxt =
     (let h = set_next h prv new;
          h = set_prev h nxt new;
          h = set_next h new nxt in
      set_prev h new prv)"

definition list_del_between :: "list_heap \<Rightarrow> ulong \<Rightarrow> ulong \<Rightarrow> list_heap" where
  "list_del_between h prv nxt = set_prev (set_next h prv nxt) nxt prv"

definition list_add :: "list_heap \<Rightarrow> ulong \<Rightarrow> ulong \<Rightarrow> list_heap" where
  "list_add h new head = list_add_between h new head (lh_next h head)"

definition list_add_tail :: "list_heap \<Rightarrow> ulong \<Rightarrow> ulong \<Rightarrow> list_heap" where
  "list_add_tail h new head = list_add_between h new (lh_prev h head) head"

definition list_del :: "list_heap \<Rightarrow> ulong \<Rightarrow> list_heap" where
  "list_del h entry = list_del_between h (lh_prev h entry) (lh_next h entry)"

definition list_del_init :: "list_heap \<Rightarrow> ulong \<Rightarrow> list_heap" where
  "list_del_init h entry = INIT_LIST_HEAD (list_del_between h (lh_prev h entry) (lh_next h entry)) entry"

definition list_replace :: "list_heap \<Rightarrow> ulong \<Rightarrow> ulong \<Rightarrow> list_heap" where
  "list_replace h old new =
     (let h = set_next h (lh_prev h old) new;
          h = set_prev h (lh_next h old) new;
          h = set_prev h new (lh_prev h old) in
      set_next h new (lh_next h old))"

definition list_replace_init :: "list_heap \<Rightarrow> ulong \<Rightarrow> ulong \<Rightarrow> list_heap" where
  "list_replace_init h old new = INIT_LIST_HEAD (list_replace h old new) old"

definition list_move :: "list_heap \<Rightarrow> ulong \<Rightarrow> ulong \<Rightarrow> list_heap" where
  "list_move h lst head = list_add (list_del h lst) lst head"

definition list_move_tail :: "list_heap \<Rightarrow> ulong \<Rightarrow> ulong \<Rightarrow> list_heap" where
  "list_move_tail h lst head = list_add_tail (list_del h lst) lst head"

definition list_is_last :: "list_heap \<Rightarrow> ulong \<Rightarrow> ulong \<Rightarrow> bool" where
  "list_is_last h lst head \<longleftrightarrow> lh_next h lst = head"

definition list_empty :: "list_heap \<Rightarrow> ulong \<Rightarrow> bool" where
  "list_empty h head \<longleftrightarrow> lh_next h head = head"

definition list_is_singular :: "list_heap \<Rightarrow> ulong \<Rightarrow> bool" where
  "list_is_singular h head \<longleftrightarrow> \<not> list_empty h head \<and> lh_next h head = lh_prev h head"

text \<open>\<^verbatim>\<open>container_of\<close>: the structure that holds the node at offset \<open>member\<close>.\<close>

definition list_entry :: "ulong \<Rightarrow> ulong \<Rightarrow> ulong" where
  "list_entry ptr member = ptr - member"

definition list_first_entry :: "list_heap \<Rightarrow> ulong \<Rightarrow> ulong \<Rightarrow> ulong" where
  "list_first_entry h ptr member = list_entry (lh_next h ptr) member"

definition list_last_entry :: "list_heap \<Rightarrow> ulong \<Rightarrow> ulong \<Rightarrow> ulong" where
  "list_last_entry h ptr member = list_entry (lh_prev h ptr) member"

definition list_next_entry :: "list_heap \<Rightarrow> ulong \<Rightarrow> ulong \<Rightarrow> ulong" where
  "list_next_entry h pos member = list_entry (lh_next h (pos + member)) member"

definition list_prev_entry :: "list_heap \<Rightarrow> ulong \<Rightarrow> ulong \<Rightarrow> ulong" where
  "list_prev_entry h pos member = list_entry (lh_prev h (pos + member)) member"

text \<open>
  The loops: the values that \<^verbatim>\<open>pos\<close> takes, in order.  On a heap whose pointers do not lead back to the head the
  loop does not end, and the value is \<open>None\<close>.
\<close>

partial_function (option) walk_next :: "list_heap \<Rightarrow> ulong \<Rightarrow> ulong \<Rightarrow> ulong list option" where
  "walk_next h head pos =
     (if pos = head then Some []
      else Option.bind (walk_next h head (lh_next h pos)) (\<lambda>ps. Some (pos # ps)))"

partial_function (option) walk_prev :: "list_heap \<Rightarrow> ulong \<Rightarrow> ulong \<Rightarrow> ulong list option" where
  "walk_prev h head pos =
     (if pos = head then Some []
      else Option.bind (walk_prev h head (lh_prev h pos)) (\<lambda>ps. Some (pos # ps)))"

partial_function (option) walk_next_entry :: "list_heap \<Rightarrow> ulong \<Rightarrow> ulong \<Rightarrow> ulong \<Rightarrow> ulong list option" where
  "walk_next_entry h head member pos =
     (if pos + member = head then Some []
      else Option.bind (walk_next_entry h head member (list_next_entry h pos member)) (\<lambda>ps. Some (pos # ps)))"

partial_function (option) walk_prev_entry :: "list_heap \<Rightarrow> ulong \<Rightarrow> ulong \<Rightarrow> ulong \<Rightarrow> ulong list option" where
  "walk_prev_entry h head member pos =
     (if pos + member = head then Some []
      else Option.bind (walk_prev_entry h head member (list_prev_entry h pos member)) (\<lambda>ps. Some (pos # ps)))"

definition list_for_each :: "list_heap \<Rightarrow> ulong \<Rightarrow> ulong list option" where
  "list_for_each h head = walk_next h head (lh_next h head)"

definition list_for_each_prev :: "list_heap \<Rightarrow> ulong \<Rightarrow> ulong list option" where
  "list_for_each_prev h head = walk_prev h head (lh_prev h head)"

definition list_for_each_entry :: "list_heap \<Rightarrow> ulong \<Rightarrow> ulong \<Rightarrow> ulong list option" where
  "list_for_each_entry h head member = walk_next_entry h head member (list_first_entry h head member)"

definition list_for_each_entry_reverse :: "list_heap \<Rightarrow> ulong \<Rightarrow> ulong \<Rightarrow> ulong list option" where
  "list_for_each_entry_reverse h head member = walk_prev_entry h head member (list_last_entry h head member)"

section \<open>Chains of nodes\<close>

text \<open>Consecutive nodes point to each other; a list is a chain from its head back to the head.\<close>

fun linked :: "list_heap \<Rightarrow> ulong list \<Rightarrow> bool" where
  "linked h (a # b # as) \<longleftrightarrow> lh_next h a = b \<and> lh_prev h b = a \<and> linked h (b # as)"
| "linked h as \<longleftrightarrow> True"

definition clist :: "list_heap \<Rightarrow> ulong \<Rightarrow> ulong list \<Rightarrow> bool" where
  "clist h head xs \<longleftrightarrow> distinct (head # xs) \<and> linked h (head # xs @ [head])"

lemma set_link_sel [simp]:
  "lh_next (set_next h a b) = (lh_next h)(a := b)" "lh_prev (set_next h a b) = lh_prev h"
  "lh_next (set_prev h a b) = lh_next h" "lh_prev (set_prev h a b) = (lh_prev h)(a := b)"
  by (simp_all add: set_next_def set_prev_def)

lemma linked_append: "linked h (us @ a # vs) \<longleftrightarrow> linked h (us @ [a]) \<and> linked h (a # vs)"
proof (induction us)
  case (Cons u us)
  then show ?case by (cases us) auto
qed simp

lemma linked_join:
  "linked h (us @ p # n # vs) \<longleftrightarrow> linked h (us @ [p]) \<and> lh_next h p = n \<and> lh_prev h n = p \<and> linked h (n # vs)"
  using linked_append [of h us p "n # vs"] by simp

lemma linked_frame:
  assumes "\<And>a. a \<in> set (butlast as) \<Longrightarrow> lh_next h' a = lh_next h a" "\<And>a. a \<in> set (tl as) \<Longrightarrow> lh_prev h' a = lh_prev h a"
  shows "linked h' as \<longleftrightarrow> linked h as"
  using assms by (induction h as rule: linked.induct) auto

text \<open>
  The three changes of a chain.  In a chain of a circular list the head stands at both ends, so the nodes that have a
  successor (all but the last) are distinct, and so are those that have a predecessor (all but the first).
\<close>

definition chain :: "list_heap \<Rightarrow> ulong list \<Rightarrow> bool" where
  "chain h as \<longleftrightarrow> linked h as \<and> distinct (butlast as) \<and> distinct (tl as)"

lemma butlast_mid: "butlast (us @ p # n # vs) = us @ p # butlast (n # vs)"
  by (simp add: butlast_append)

lemma tl_mid: "tl (us @ p # n # vs) = tl (us @ [p]) @ n # vs"
  by (cases us) simp_all

lemma in_chain: "a \<in> set (butlast as) \<Longrightarrow> a \<in> set as" "a \<in> set (tl as) \<Longrightarrow> a \<in> set as"
  by (auto dest: in_set_butlastD list.set_sel(2) [rotated]) (cases as; simp)

lemma chain_split:
  assumes "chain h (us @ p # n # vs)"
  shows "linked h (us @ [p])" "linked h (n # vs)" "lh_next h p = n" "lh_prev h n = p"
    "p \<notin> set us" "p \<notin> set (butlast (n # vs))" "n \<notin> set (tl (us @ [p]))" "n \<notin> set vs"
  using assms unfolding chain_def butlast_mid tl_mid linked_join by auto

lemma linked_mid:
  assumes "linked h (us @ [p])" "linked h (n # vs)" "lh_next h p = a" "lh_prev h a = p" "lh_next h a = n" "lh_prev h n = a"
  shows "linked h (us @ p # a # n # vs)"
  using assms by (simp add: linked_join)

lemma linked_add:
  assumes c: "chain h (us @ p # n # vs)" and new: "new \<notin> set (us @ p # n # vs)"
  shows "linked (list_add_between h new p n) (us @ p # new # n # vs)"
proof (rule linked_mid)
  note s = chain_split [OF c]
  let ?h = "list_add_between h new p n"
  have nx: "lh_next ?h = (lh_next h)(p := new, new := n)" and pv: "lh_prev ?h = (lh_prev h)(n := new, new := p)"
    by (simp_all add: list_add_between_def)
  have "linked ?h (us @ [p]) = linked h (us @ [p])"
    using s(5,7) new by (intro linked_frame) (auto simp: nx pv dest: in_chain)
  with s(1) show "linked ?h (us @ [p])" by simp
  have "linked ?h (n # vs) = linked h (n # vs)"
    using s(6,8) new in_chain(1) [of _ "n # vs"] by (intro linked_frame) (auto simp: nx pv)
  with s(2) show "linked ?h (n # vs)" by simp
  show "lh_next ?h p = new" "lh_prev ?h new = p" "lh_next ?h new = n" "lh_prev ?h n = new"
    using new by (auto simp: nx pv)
qed

lemma linked_del:
  assumes c: "chain h (us @ p # e # n # vs)"
  shows "linked (list_del_between h p n) (us @ p # n # vs)"
proof -
  let ?h = "list_del_between h p n"
  note s = chain_split [OF c]
  from c have "chain h ((us @ [p]) @ e # n # vs)" by simp
  note t = chain_split [OF this]
  have nx: "lh_next ?h = (lh_next h)(p := n)" and pv: "lh_prev ?h = (lh_prev h)(n := p)"
    by (simp_all add: list_del_between_def)
  have "linked ?h (us @ [p]) = linked h (us @ [p])"
    using s(5) t(7) by (intro linked_frame) (cases us; auto simp: nx pv)+
  moreover have "linked ?h (n # vs) = linked h (n # vs)"
    using s(6) t(8) by (intro linked_frame) (auto simp: nx pv)
  ultimately show ?thesis using s(1) t(2) by (simp add: linked_join nx pv)
qed

lemma linked_replace:
  assumes c: "chain h (us @ p # old # n # vs)" and new: "new \<notin> set (us @ p # old # n # vs)"
  shows "linked (list_replace h old new) (us @ p # new # n # vs)"
proof (rule linked_mid)
  let ?h = "list_replace h old new"
  note s = chain_split [OF c]
  from c have "chain h ((us @ [p]) @ old # n # vs)" by simp
  note t = chain_split [OF this]
  have "p \<noteq> old" "n \<noteq> old" using s(6,8) by auto
  then have nx: "lh_next ?h = (lh_next h)(p := new, new := n)" and pv: "lh_prev ?h = (lh_prev h)(n := new, new := p)"
    using s(4) t(3) new by (simp_all add: list_replace_def Let_def)
  have "linked ?h (us @ [p]) = linked h (us @ [p])"
    using s(5) t(7) new by (intro linked_frame) (cases us; auto simp: nx pv)+
  with s(1) show "linked ?h (us @ [p])" by simp
  have "linked ?h (n # vs) = linked h (n # vs)"
    using s(6) t(8) new in_chain(1) [of _ "n # vs"] by (intro linked_frame) (auto simp: nx pv)
  with t(2) show "linked ?h (n # vs)" by simp
  show "lh_next ?h p = new" "lh_prev ?h new = p" "lh_next ?h new = n" "lh_prev ?h n = new"
    using new by (auto simp: nx pv)
qed

section \<open>The operations on whole lists\<close>

lemma clist_chain: "clist h head xs \<Longrightarrow> chain h (head # xs @ [head])"
  by (simp add: clist_def chain_def butlast_append)

lemma clist_frame:
  assumes "clist h head xs" "\<And>a. a \<in> set (head # xs) \<Longrightarrow> lh_next h' a = lh_next h a \<and> lh_prev h' a = lh_prev h a"
  shows "clist h' head xs"
proof -
  have "linked h' (head # xs @ [head]) = linked h (head # xs @ [head])"
    using assms(2) by (intro linked_frame) (auto simp: butlast_append)
  with assms(1) show ?thesis by (simp add: clist_def)
qed

lemma clist_init: "clist (INIT_LIST_HEAD h head) head []"
  by (simp add: clist_def INIT_LIST_HEAD_def)

lemma clist_next: "clist h head xs \<Longrightarrow> lh_next h head = (case xs of [] \<Rightarrow> head | x # _ \<Rightarrow> x)"
  by (auto simp: clist_def split: list.splits)

lemma clist_last:
  assumes "clist h head xs"
  obtains us p where "head # xs = us @ [p]" "head # xs @ [head] = us @ p # head # []" "lh_prev h head = p"
proof -
  obtain us p where p: "head # xs = us @ [p]" by (metis list.distinct(1) rev_exhaust)
  have "head # xs @ [head] = (head # xs) @ [head]" by simp
  also have "\<dots> = us @ p # head # []" unfolding p by simp
  finally have e: "head # xs @ [head] = us @ p # head # []" .
  from that [OF p e chain_split(4) [OF clist_chain [OF assms, unfolded e]]] show ?thesis .
qed

lemma clist_add:
  assumes "clist h head xs" "new \<notin> set (head # xs)"
  shows "clist (list_add h new head) head (new # xs)"
proof -
  obtain n vs where "xs @ [head] = n # vs" by (cases "xs @ [head]") auto
  then have e: "head # xs @ [head] = [] @ head # n # vs" by simp
  have "lh_next h head = n" using clist_chain [OF assms(1)] chain_split(3) unfolding e by blast
  moreover from linked_add [OF clist_chain [OF assms(1), unfolded e]] have "linked (list_add_between h new head n) (head # new # n # vs)"
    using assms(2) arg_cong [OF e, of set] by auto
  moreover have "head # new # n # vs = head # (new # xs) @ [head]" using e by simp
  ultimately show ?thesis using assms by (auto simp: clist_def list_add_def)
qed

lemma clist_add_tail:
  assumes "clist h head xs" "new \<notin> set (head # xs)"
  shows "clist (list_add_tail h new head) head (xs @ [new])"
proof -
  obtain us p where p: "head # xs = us @ [p]" "head # xs @ [head] = us @ p # head # []" "lh_prev h head = p"
    using clist_last [OF assms(1)] by blast
  have "new \<notin> set (us @ p # head # [])" using assms(2) arg_cong [OF p(1), of set] by auto
  from linked_add [OF clist_chain [OF assms(1), unfolded p(2)] this]
  have "linked (list_add_tail h new head) (us @ p # new # head # [])" by (simp add: list_add_tail_def p(3))
  then have "linked (list_add_tail h new head) ((head # xs) @ [new, head])" unfolding p(1) by simp
  with assms show ?thesis by (auto simp: clist_def)
qed

text \<open>An entry of a list, with the nodes around it.\<close>

lemma clist_entry:
  assumes "clist h head (xs @ e # ys)"
  obtains us p n vs where "head # (xs @ e # ys) @ [head] = us @ p # e # n # vs" "head # xs = us @ [p]" "ys @ [head] = n # vs"
    "chain h (us @ p # e # n # vs)" "lh_prev h e = p" "lh_next h e = n"
proof -
  obtain us p where p: "head # xs = us @ [p]" by (metis list.distinct(1) rev_exhaust)
  obtain n vs where n: "ys @ [head] = n # vs" by (cases "ys @ [head]") auto
  have "head # (xs @ e # ys) @ [head] = (head # xs) @ e # ys @ [head]" by simp
  also have "\<dots> = us @ p # e # n # vs" unfolding p n by simp
  finally have e: "head # (xs @ e # ys) @ [head] = us @ p # e # n # vs" .
  have c: "chain h (us @ p # e # n # vs)" using clist_chain [OF assms] unfolding e .
  then have "chain h ((us @ [p]) @ e # n # vs)" by simp
  from that [OF e p n c chain_split(4) [OF c] chain_split(3) [OF this]] show ?thesis .
qed

lemma clist_del:
  assumes "clist h head (xs @ e # ys)"
  shows "clist (list_del h e) head (xs @ ys)"
proof -
  obtain us p n vs where e: "head # xs = us @ [p]" "ys @ [head] = n # vs" "chain h (us @ p # e # n # vs)"
    "lh_prev h e = p" "lh_next h e = n" using clist_entry [OF assms] by metis
  have "head # (xs @ ys) @ [head] = us @ p # n # vs" using e(1,2) by (metis append.assoc append_Cons append_Nil)
  with linked_del [OF e(3)] assms e(4,5) show ?thesis by (auto simp: clist_def list_del_def)
qed

lemma clist_del_frame:
  assumes "clist h head (xs @ e # ys)" "a \<notin> set (head # xs @ ys)"
  shows "lh_next (list_del h e) a = lh_next h a \<and> lh_prev (list_del h e) a = lh_prev h a"
proof -
  obtain us p n vs where e: "head # xs = us @ [p]" "ys @ [head] = n # vs"
    "lh_prev h e = p" "lh_next h e = n" using clist_entry [OF assms(1)] by metis
  have "p \<in> set (head # xs)" "n \<in> set (ys @ [head])" unfolding e(1,2) by simp_all
  with assms(2) have "a \<noteq> p" "a \<noteq> n" by auto
  with e(3,4) show ?thesis by (simp add: list_del_def list_del_between_def)
qed

lemma clist_del_init:
  assumes "clist h head (xs @ e # ys)"
  shows "clist (list_del_init h e) head (xs @ ys)" "clist (list_del_init h e) e []"
proof -
  have i: "list_del_init h e = INIT_LIST_HEAD (list_del h e) e" by (simp add: list_del_init_def list_del_def)
  have "e \<notin> set (head # xs @ ys)" using assms by (auto simp: clist_def)
  then show "clist (list_del_init h e) head (xs @ ys)"
    unfolding i by (intro clist_frame [OF clist_del [OF assms]]) (auto simp: INIT_LIST_HEAD_def)
  show "clist (list_del_init h e) e []" unfolding i by (rule clist_init)
qed

lemma clist_replace:
  assumes "clist h head (xs @ old # ys)" "new \<notin> set (head # xs @ old # ys)"
  shows "clist (list_replace h old new) head (xs @ new # ys)"
proof -
  obtain us p n vs where e: "head # (xs @ old # ys) @ [head] = us @ p # old # n # vs" "head # xs = us @ [p]" "ys @ [head] = n # vs"
    "chain h (us @ p # old # n # vs)" using clist_entry [OF assms(1)] by metis
  have "head # (xs @ new # ys) @ [head] = (head # xs) @ new # ys @ [head]" by simp
  also have "\<dots> = us @ p # new # n # vs" unfolding e(2,3) by simp
  finally have c: "head # (xs @ new # ys) @ [head] = us @ p # new # n # vs" .
  have "new \<notin> set (us @ p # old # n # vs)" using assms(2) arg_cong [OF e(1), of set] by auto
  from linked_replace [OF e(4) this] c assms show ?thesis by (auto simp: clist_def)
qed

lemma clist_replace_init:
  assumes "clist h head (xs @ old # ys)" "new \<notin> set (head # xs @ old # ys)"
  shows "clist (list_replace_init h old new) head (xs @ new # ys)" "clist (list_replace_init h old new) old []"
proof -
  have "old \<notin> set (head # xs @ new # ys)" using assms by (auto simp: clist_def)
  then show "clist (list_replace_init h old new) head (xs @ new # ys)" unfolding list_replace_init_def
    by (intro clist_frame [OF clist_replace [OF assms]]) (auto simp: INIT_LIST_HEAD_def)
  show "clist (list_replace_init h old new) old []" unfolding list_replace_init_def by (rule clist_init)
qed

text \<open>Moving an entry to another list: the two lists share no node.\<close>

lemma list_del_other:
  assumes "clist h a (xs @ e # ys)" "clist h b zs" "set (a # xs @ e # ys) \<inter> set (b # zs) = {}"
  shows "clist (list_del h e) b zs"
proof (rule clist_frame [OF assms(2)])
  fix n assume "n \<in> set (b # zs)"
  with assms(3) have "n \<notin> set (a # xs @ ys)" by auto
  from clist_del_frame [OF assms(1) this] show "lh_next (list_del h e) n = lh_next h n \<and> lh_prev (list_del h e) n = lh_prev h n" .
qed

lemma add_between_frame:
  "a \<noteq> new \<Longrightarrow> a \<noteq> p \<Longrightarrow> a \<noteq> n \<Longrightarrow>
   lh_next (list_add_between h new p n) a = lh_next h a \<and> lh_prev (list_add_between h new p n) a = lh_prev h a"
  by (simp add: list_add_between_def Let_def)

lemma clist_ends:
  assumes "clist h b zs"
  shows "lh_next h b \<in> set (b # zs)" "lh_prev h b \<in> set (b # zs)"
proof -
  show "lh_next h b \<in> set (b # zs)" using clist_next [OF assms] by (cases zs) auto
  obtain us p where "b # zs = us @ [p]" "lh_prev h b = p" using clist_last [OF assms] by metis
  then show "lh_prev h b \<in> set (b # zs)" by (metis in_set_conv_decomp)
qed

lemma list_add_other:
  assumes "clist h a xs" "clist h b zs" "set (a # xs) \<inter> set (b # zs) = {}" "e \<notin> set (a # xs)"
  shows "clist (list_add h e b) a xs" "clist (list_add_tail h e b) a xs"
proof -
  have "n \<noteq> e \<and> n \<noteq> b \<and> n \<noteq> lh_next h b \<and> n \<noteq> lh_prev h b" if "n \<in> set (a # xs)" for n
    using that assms(3,4) clist_ends [OF assms(2)] by (metis disjoint_iff list.set_intros(1))
  then show "clist (list_add h e b) a xs" "clist (list_add_tail h e b) a xs" unfolding list_add_def list_add_tail_def
    by (auto intro!: clist_frame [OF assms(1)] simp: add_between_frame)
qed

lemma clist_move:
  assumes "clist h a (xs @ e # ys)" "clist h b zs" "set (a # xs @ e # ys) \<inter> set (b # zs) = {}"
  shows "clist (list_move h e b) a (xs @ ys)" "clist (list_move h e b) b (e # zs)"
    "clist (list_move_tail h e b) a (xs @ ys)" "clist (list_move_tail h e b) b (zs @ [e])"
proof -
  note d = clist_del [OF assms(1)] and o = list_del_other [OF assms]
  have disj: "set (a # xs @ ys) \<inter> set (b # zs) = {}" and e: "e \<notin> set (a # xs @ ys)" "e \<notin> set (b # zs)"
    using assms(1,3) by (auto simp: clist_def)
  show "clist (list_move h e b) a (xs @ ys)" "clist (list_move_tail h e b) a (xs @ ys)"
    unfolding list_move_def list_move_tail_def by (rule list_add_other [OF d o disj e(1)])+
  show "clist (list_move h e b) b (e # zs)" unfolding list_move_def by (rule clist_add [OF o e(2)])
  show "clist (list_move_tail h e b) b (zs @ [e])" unfolding list_move_tail_def by (rule clist_add_tail [OF o e(2)])
qed

section \<open>Tests and loops\<close>

lemma clist_empty: "clist h head xs \<Longrightarrow> list_empty h head \<longleftrightarrow> xs = []"
  by (cases xs) (auto simp: list_empty_def clist_def)

lemma clist_is_last:
  assumes "clist h head (xs @ e # ys)"
  shows "list_is_last h e head \<longleftrightarrow> ys = []"
proof -
  obtain us p n vs where "ys @ [head] = n # vs" "lh_next h e = n" using clist_entry [OF assms] by metis
  then show ?thesis using assms by (cases ys) (auto simp: list_is_last_def clist_def)
qed

lemma clist_is_singular:
  assumes "clist h head xs"
  shows "list_is_singular h head \<longleftrightarrow> length xs = 1"
proof -
  obtain us p where p: "head # xs = us @ [p]" "lh_prev h head = p" using clist_last [OF assms] by metis
  show ?thesis
  proof (cases xs)
    case (Cons x ys)
    have "p = last xs" using p(1) Cons by (metis last.simps last_snoc list.distinct(1))
    moreover have "x \<notin> set ys" using Cons assms by (simp add: clist_def)
    then have "last xs = x \<longleftrightarrow> ys = []" using Cons by (metis last.simps last_in_set)
    ultimately show ?thesis using Cons assms p(2) clist_next [OF assms] by (auto simp: list_is_singular_def list_empty_def clist_def)
  qed (use clist_next [OF assms] in \<open>simp add: list_is_singular_def list_empty_def\<close>)
qed

lemma walk_next_linked:
  "linked h (as @ [head]) \<Longrightarrow> head \<notin> set as \<Longrightarrow> walk_next h head (hd (as @ [head])) = Some as"
proof (induction as)
  case Nil
  show ?case by (simp add: walk_next.simps)
next
  case (Cons a as)
  then have "lh_next h a = hd (as @ [head])" "linked h (as @ [head])" by (cases as; simp)+
  with Cons show ?case by (auto simp: walk_next.simps [of h head a])
qed

lemma walk_prev_linked:
  "linked h (head # as) \<Longrightarrow> head \<notin> set as \<Longrightarrow> walk_prev h head (last (head # as)) = Some (rev as)"
proof (induction as rule: rev_induct)
  case Nil
  show ?case by (simp add: walk_prev.simps)
next
  case (snoc a as)
  obtain us p where p: "head # as = us @ [p]" by (metis list.distinct(1) rev_exhaust)
  from snoc.prems(1) have "linked h (us @ p # a # [])" using p by (metis append.assoc append_Cons append_Nil)
  then have l: "linked h (head # as)" "lh_prev h a = last (head # as)" unfolding linked_join p by simp_all
  have "walk_prev h head (lh_prev h a) = Some (rev as)" using snoc l by simp
  with snoc.prems(2) show ?case by (auto simp: walk_prev.simps [of h head a])
qed

lemma clist_for_each:
  assumes "clist h head xs"
  shows "list_for_each h head = Some xs"
proof -
  have "linked h (xs @ [head])" "head \<notin> set xs" using assms by (cases xs; simp add: clist_def)+
  from walk_next_linked [OF this] show ?thesis using clist_next [OF assms] by (cases xs) (simp_all add: list_for_each_def)
qed

lemma clist_for_each_prev:
  assumes "clist h head xs"
  shows "list_for_each_prev h head = Some (rev xs)"
proof -
  obtain us p where p: "head # xs = us @ [p]" "head # xs @ [head] = us @ p # head # []" "lh_prev h head = p"
    using clist_last [OF assms] by blast
  have "linked h (head # xs)" using assms p(2) unfolding clist_def p(1) by (simp add: linked_join)
  moreover have "head \<notin> set xs" using assms by (simp add: clist_def)
  ultimately show ?thesis using walk_prev_linked [of h head xs] p by (simp add: list_for_each_prev_def)
qed

text \<open>The loops over the structures visit those that hold the nodes.\<close>

lemma walk_next_entry_eq:
  "walk_next h head pos = Some as \<Longrightarrow> walk_next_entry h head member (list_entry pos member) = Some (map (\<lambda>a. list_entry a member) as)"
proof (induction as arbitrary: pos)
  case Nil
  then have "pos = head" by (subst (asm) walk_next.simps) (auto simp: bind_eq_Some_conv split: if_splits)
  then show ?case by (simp add: walk_next_entry.simps list_entry_def)
next
  case (Cons a as)
  then have "pos \<noteq> head" "a = pos" "walk_next h head (lh_next h pos) = Some as"
    by (subst (asm) (2) walk_next.simps; auto simp: bind_eq_Some_conv split: if_splits)+
  with Cons.IH show ?case
    by (subst walk_next_entry.simps) (simp add: list_next_entry_def list_entry_def [of pos])
qed

lemma walk_prev_entry_eq:
  "walk_prev h head pos = Some as \<Longrightarrow> walk_prev_entry h head member (list_entry pos member) = Some (map (\<lambda>a. list_entry a member) as)"
proof (induction as arbitrary: pos)
  case Nil
  then have "pos = head" by (subst (asm) walk_prev.simps) (auto simp: bind_eq_Some_conv split: if_splits)
  then show ?case by (simp add: walk_prev_entry.simps list_entry_def)
next
  case (Cons a as)
  then have "pos \<noteq> head" "a = pos" "walk_prev h head (lh_prev h pos) = Some as"
    by (subst (asm) (2) walk_prev.simps; auto simp: bind_eq_Some_conv split: if_splits)+
  with Cons.IH show ?case
    by (subst walk_prev_entry.simps) (simp add: list_prev_entry_def list_entry_def [of pos])
qed

lemma clist_entries:
  assumes "clist h head xs"
  shows "list_for_each_entry h head member = Some (map (\<lambda>a. list_entry a member) xs)"
    "list_for_each_entry_reverse h head member = Some (rev (map (\<lambda>a. list_entry a member) xs))"
  using walk_next_entry_eq [OF clist_for_each [OF assms, unfolded list_for_each_def], of member]
    walk_prev_entry_eq [OF clist_for_each_prev [OF assms, unfolded list_for_each_prev_def], of member]
  by (simp_all add: list_for_each_entry_def list_for_each_entry_reverse_def list_first_entry_def list_last_entry_def rev_map)

section \<open>Sequences of operations\<close>

text \<open>The operations on the list of one head, what they do to the list of its nodes, and when they may be called.\<close>

datatype list_op =
    Add ulong | Add_tail ulong | Del ulong | Del_init ulong
  | Replace ulong ulong | Replace_init ulong ulong | Move ulong | Move_tail ulong

fun run_op :: "ulong \<Rightarrow> list_op \<Rightarrow> list_heap \<Rightarrow> list_heap" where
  "run_op head (Add a) h = list_add h a head"
| "run_op head (Add_tail a) h = list_add_tail h a head"
| "run_op head (Del a) h = list_del h a"
| "run_op head (Del_init a) h = list_del_init h a"
| "run_op head (Replace a b) h = list_replace h a b"
| "run_op head (Replace_init a b) h = list_replace_init h a b"
| "run_op head (Move a) h = list_move h a head"
| "run_op head (Move_tail a) h = list_move_tail h a head"

definition subst_node :: "ulong \<Rightarrow> ulong \<Rightarrow> ulong list \<Rightarrow> ulong list" where
  "subst_node a b xs = map (\<lambda>x. if x = a then b else x) xs"

fun spec_op :: "list_op \<Rightarrow> ulong list \<Rightarrow> ulong list" where
  "spec_op (Add a) xs = a # xs"
| "spec_op (Add_tail a) xs = xs @ [a]"
| "spec_op (Del a) xs = remove1 a xs"
| "spec_op (Del_init a) xs = remove1 a xs"
| "spec_op (Replace a b) xs = subst_node a b xs"
| "spec_op (Replace_init a b) xs = subst_node a b xs"
| "spec_op (Move a) xs = a # remove1 a xs"
| "spec_op (Move_tail a) xs = remove1 a xs @ [a]"

fun op_allowed :: "ulong \<Rightarrow> list_op \<Rightarrow> ulong list \<Rightarrow> bool" where
  "op_allowed head (Add a) xs \<longleftrightarrow> a \<notin> set (head # xs)"
| "op_allowed head (Add_tail a) xs \<longleftrightarrow> a \<notin> set (head # xs)"
| "op_allowed head (Del a) xs \<longleftrightarrow> a \<in> set xs"
| "op_allowed head (Del_init a) xs \<longleftrightarrow> a \<in> set xs"
| "op_allowed head (Replace a b) xs \<longleftrightarrow> a \<in> set xs \<and> b \<notin> set (head # xs)"
| "op_allowed head (Replace_init a b) xs \<longleftrightarrow> a \<in> set xs \<and> b \<notin> set (head # xs)"
| "op_allowed head (Move a) xs \<longleftrightarrow> a \<in> set xs"
| "op_allowed head (Move_tail a) xs \<longleftrightarrow> a \<in> set xs"

fun ops_allowed :: "ulong \<Rightarrow> list_op list \<Rightarrow> ulong list \<Rightarrow> bool" where
  "ops_allowed head [] xs \<longleftrightarrow> True"
| "ops_allowed head (op # ops) xs \<longleftrightarrow> op_allowed head op xs \<and> ops_allowed head ops (spec_op op xs)"

lemma distinct_split:
  assumes "a \<in> set xs" "distinct xs"
  obtains us vs where "xs = us @ a # vs" "remove1 a xs = us @ vs" "subst_node a b xs = us @ b # vs"
proof -
  from split_list [OF assms(1)] obtain us vs where x: "xs = us @ a # vs" by blast
  with assms(2) have "a \<notin> set us" "a \<notin> set vs" by auto
  then have "subst_node a b xs = us @ b # vs" "remove1 a xs = us @ vs"
    by (auto simp: x subst_node_def remove1_append intro!: map_idI)
  with that x show ?thesis by blast
qed

lemma clist_op:
  assumes "clist h head xs" "op_allowed head op xs"
  shows "clist (run_op head op h) head (spec_op op xs)"
proof -
  have d: "distinct xs" "head \<notin> set xs" using assms(1) by (auto simp: clist_def)
  note split = distinct_split [OF _ d(1)]
  have del: "clist (list_del h a) head (remove1 a xs) \<and> clist (list_del_init h a) head (remove1 a xs)" if "a \<in> set xs" for a
    using split [OF that] clist_del clist_del_init(1) assms(1) by metis
  have rep: "clist (list_replace h a b) head (subst_node a b xs) \<and> clist (list_replace_init h a b) head (subst_node a b xs)"
    if "a \<in> set xs" "b \<notin> set (head # xs)" for a b
    using split [OF that(1)] clist_replace clist_replace_init(1) assms(1) that(2) by metis
  have mv: "a \<notin> set (head # remove1 a xs)" if "a \<in> set xs" for a using that d by auto
  show ?thesis using assms(2)
  proof (cases op)
    case (Move a)
    then show ?thesis using assms(2) clist_add [OF conjunct1 [OF del] mv] by (simp add: list_move_def)
  next
    case (Move_tail a)
    then show ?thesis using assms(2) clist_add_tail [OF conjunct1 [OF del] mv] by (simp add: list_move_tail_def)
  qed (use clist_add [OF assms(1)] clist_add_tail [OF assms(1)] del rep in auto)
qed

lemma clist_ops:
  "clist h head xs \<Longrightarrow> ops_allowed head ops xs \<Longrightarrow> clist (fold (run_op head) ops h) head (fold spec_op ops xs)"
  by (induction ops arbitrary: h xs) (auto intro: clist_op)

text \<open>
  C21: From an initialised head on, after any sequence of additions at either end, deletions, replacements and moves, the
  forward loop visits the nodes in the order the operations prescribe and ends, the backward loop visits them in the
  opposite order, the loops over entries visit the structures that hold them, and the tests for no entry and for one
  entry agree with the number of nodes.
\<close>

theorem list_operations_refine:
  assumes "ops_allowed head ops []"
  shows "let h' = fold (run_op head) ops (INIT_LIST_HEAD h head); xs = fold spec_op ops [] in
    list_for_each h' head = Some xs \<and> list_for_each_prev h' head = Some (rev xs) \<and>
    list_for_each_entry h' head member = Some (map (\<lambda>a. list_entry a member) xs) \<and>
    list_empty h' head = (xs = []) \<and> list_is_singular h' head = (length xs = 1)"
proof -
  note c = clist_ops [OF clist_init assms]
  show ?thesis unfolding Let_def
    using clist_for_each [OF c] clist_for_each_prev [OF c] clist_entries(1) [OF c] clist_empty [OF c] clist_is_singular [OF c]
    by blast
qed

theorem list_operations_refine_witness:
  "let h' = fold (run_op 100) [Add 1, Add_tail 2, Add 3, Move_tail 3, Replace 1 7, Del 2]
       (INIT_LIST_HEAD \<lparr>lh_next = (\<lambda>_. 0), lh_prev = (\<lambda>_. 0)\<rparr> 100) in
    list_for_each h' 100 = Some [7, 3] \<and> list_for_each_prev h' 100 = Some [3, 7]"
  using list_operations_refine [of 100 "[Add 1, Add_tail 2, Add 3, Move_tail 3, Replace 1 7, Del 2]"
      "\<lparr>lh_next = (\<lambda>_. 0), lh_prev = (\<lambda>_. 0)\<rparr>"]
  by (simp add: subst_node_def Let_def)

end
