(* ===== verification/Vgacon.thy ===== *)
theory Vgacon
  imports String_Spec
begin

text \<open>
  The console drivers: the screen memory functions of \<^verbatim>\<open>include/video/video.h\<close>, the VGA driver of
  \<^verbatim>\<open>drivers/console/vgacon.c\<close>, the dummy driver of \<^verbatim>\<open>drivers/console/dummycon.c\<close> and the structures of
  \<^verbatim>\<open>include/sandix/console.h\<close>.  The state is the byte memory, the log of bytes sent to I/O ports, the boot
  screen information and the variables of the VGA driver.  Disabling interrupts has no effect in the model.
\<close>

section \<open>Screen memory\<close>

definition scr_writew :: "mem \<Rightarrow> u16 \<Rightarrow> ulong \<Rightarrow> mem" where
  "scr_writew m v addr = m(addr := ucast v, addr + 1 := ucast (drop_bit 8 v))"

definition scr_readw :: "mem \<Rightarrow> ulong \<Rightarrow> u16" where
  "scr_readw m addr = ucast (m addr) OR push_bit 8 (ucast (m (addr + 1)))"

text \<open>The pointers are to 16-bit cells, so \<^verbatim>\<open>d++\<close> adds 2 to the address.\<close>

primrec memsetw_loop :: "nat \<Rightarrow> mem \<Rightarrow> ulong \<Rightarrow> u16 \<Rightarrow> mem" where
  "memsetw_loop 0 m d v = m"
| "memsetw_loop (Suc n) m d v = memsetw_loop n (scr_writew m v d) (d + 2) v"

definition scr_memsetw :: "mem \<Rightarrow> ulong \<Rightarrow> u16 \<Rightarrow> u32 \<Rightarrow> mem" where
  "scr_memsetw m d v count = memsetw_loop (unat count) m d v"

primrec memcpyw_loop :: "nat \<Rightarrow> mem \<Rightarrow> ulong \<Rightarrow> ulong \<Rightarrow> mem" where
  "memcpyw_loop 0 m d s = m"
| "memcpyw_loop (Suc n) m d s = memcpyw_loop n (scr_writew m (scr_readw m s) d) (d + 2) (s + 2)"

definition scr_memcpyw :: "mem \<Rightarrow> ulong \<Rightarrow> ulong \<Rightarrow> u32 \<Rightarrow> mem" where
  "scr_memcpyw m d s count = memcpyw_loop (unat count) m d s"

primrec memmovew_loop :: "nat \<Rightarrow> mem \<Rightarrow> ulong \<Rightarrow> ulong \<Rightarrow> mem" where
  "memmovew_loop 0 m d s = m"
| "memmovew_loop (Suc n) m d s = memmovew_loop n (scr_writew m (scr_readw m (s - 2)) (d - 2)) (d - 2) (s - 2)"

text \<open>\<^verbatim>\<open>d += count*2\<close> on a pointer to 16-bit cells.\<close>

definition scr_memmovew :: "mem \<Rightarrow> ulong \<Rightarrow> ulong \<Rightarrow> u32 \<Rightarrow> mem" where
  "scr_memmovew m d s count =
     (if d < s then scr_memcpyw m d s count
      else memmovew_loop (unat count) m (d + 2 * (count * 2)) (s + 2 * (count * 2)))"

section \<open>Structures\<close>

definition NPAR :: nat where "NPAR = 16"
definition MAX_NR_CONSOLES :: nat where "MAX_NR_CONSOLES = 8"
definition MAX_NR_CON_DRIVERS :: nat where "MAX_NR_CON_DRIVERS = 4"

text \<open>The driver structures are constants of the kernel; a pointer to one is its name.\<close>

datatype con_driver = vga_con | dummy_con

record vc_struct =
  magic :: int
  driver :: "con_driver option"
  vc_num :: u32
  vc_cols :: u32
  vc_rows :: u32
  vc_row_size :: u32
  vc_scr_size :: u32
  vc_scan_line :: u32
  vc_origin :: ulong
  vc_scr_end :: ulong
  vc_visible_origin :: ulong
  vc_top :: u32
  vc_bottom :: u32
  vc_erased_char :: u16
  vc_attr :: u32
  vc_blink :: u32
  vc_f_color :: u32
  vc_b_color :: u32
  vc_italic :: u32
  vc_bold :: u32
  vc_underline :: u32
  vc_x :: u32
  vc_y :: u32
  vc_saved_x :: u32
  vc_saved_y :: u32
  vc_pos :: ulong
  vc_state :: u32
  vc_npar :: u32
  vc_par :: "u32 list"

datatype vwin = VWIN_UP | VWIN_DOWN
datatype cursor_manner = CM_DRAW | CM_ERASE | CM_MOVE

text \<open>The fields of the boot screen information that the driver reads.\<close>

record screen_info =
  orig_x :: u8
  orig_y :: u8
  orig_video_mode :: u8
  orig_video_cols :: u8
  orig_video_ega_bx :: u16
  orig_video_lines :: u8
  orig_video_isVGA :: u8

record vga_vars =
  vga_visible_origin :: ulong
  vga_vram_base :: ulong
  vga_vram_end :: ulong
  vga_vram_size :: ulong
  vga_pos :: ulong
  vga_x :: u32
  vga_y :: u32
  vga_vram_attr :: u32
  vga_erased_char :: u16
  vga_video_num_cols :: u32
  vga_video_num_rows :: u32
  vga_video_port_reg :: u32
  vga_video_port_val :: u32
  vga_can_do_color :: int
  vga_video_type :: u8
  vga_video_desc :: string
  has_called_startup :: bool

record console =
  con_mem :: mem
  con_out :: "(u32 \<times> u8) list"
  con_screen :: screen_info
  con_vga :: vga_vars

section \<open>The VGA driver\<close>

definition BLANK :: u32 where "BLANK = 0x0020"

definition VGA_CRT_DC :: u32 where "VGA_CRT_DC = 0x3D5"
definition VGA_CRT_DM :: u32 where "VGA_CRT_DM = 0x3B5"
definition VGA_CRT_IC :: u32 where "VGA_CRT_IC = 0x3D4"
definition VGA_CRT_IM :: u32 where "VGA_CRT_IM = 0x3B4"
definition VGA_CRTC_START_HI :: u8 where "VGA_CRTC_START_HI = 0x0C"
definition VGA_CRTC_START_LO :: u8 where "VGA_CRTC_START_LO = 0x0D"
definition VGA_CRTC_CURSOR_HI :: u8 where "VGA_CRTC_CURSOR_HI = 0x0E"
definition VGA_CRTC_CURSOR_LO :: u8 where "VGA_CRTC_CURSOR_LO = 0x0F"

definition VIDEO_TYPE_MDA :: u8 where "VIDEO_TYPE_MDA = 0x10"
definition VIDEO_TYPE_EGAM :: u8 where "VIDEO_TYPE_EGAM = 0x20"
definition VIDEO_TYPE_EGAC :: u8 where "VIDEO_TYPE_EGAC = 0x21"
definition VIDEO_TYPE_VGAC :: u8 where "VIDEO_TYPE_VGAC = 0x22"

definition VGA_OFFSET :: "vc_struct \<Rightarrow> u32 \<Rightarrow> u32 \<Rightarrow> ulong" where
  "VGA_OFFSET vc y x = push_bit 1 (vc_cols vc * y + x)"

definition VGA_ADDR :: "vc_struct \<Rightarrow> u32 \<Rightarrow> u32 \<Rightarrow> ulong" where
  "VGA_ADDR vc y x = vc_visible_origin vc + VGA_OFFSET vc y x"

definition VGA_ATTR :: "vc_struct \<Rightarrow> u32 \<Rightarrow> u16" where
  "VGA_ATTR vc ch = ucast (push_bit 8 (vc_attr vc) OR ucast (ucast ch :: u8))"

definition write_vga :: "u8 \<Rightarrow> u32 \<Rightarrow> console \<Rightarrow> console" where
  "write_vga reg val c =
     c\<lparr>con_out := con_out c @ [(vga_video_port_reg (con_vga c), reg), (vga_video_port_val (con_vga c), ucast val)]\<rparr>"

definition vga_set_mem_top :: "vc_struct \<Rightarrow> console \<Rightarrow> console" where
  "vga_set_mem_top vc c =
     (let off = vc_visible_origin vc - vga_vram_base (con_vga c) in
      write_vga VGA_CRTC_START_LO (0xff AND drop_bit 1 off) (write_vga VGA_CRTC_START_HI (0xff AND drop_bit 9 off) c))"

definition vga_set_cursor :: "vc_struct \<Rightarrow> console \<Rightarrow> console" where
  "vga_set_cursor vc c =
     (let off = vc_pos vc - vga_vram_base (con_vga c) in
      write_vga VGA_CRTC_CURSOR_LO (0xff AND drop_bit 1 off) (write_vga VGA_CRTC_CURSOR_HI (0xff AND drop_bit 9 off) c))"

definition vgacon_cursor :: "vc_struct \<Rightarrow> cursor_manner \<Rightarrow> console \<Rightarrow> console" where
  "vgacon_cursor vc mode c =
     (case mode of CM_ERASE \<Rightarrow> vga_set_cursor vc c | CM_MOVE \<Rightarrow> vga_set_cursor vc c | CM_DRAW \<Rightarrow> vga_set_cursor vc c)"

definition vgacon_set_origin :: "vc_struct \<Rightarrow> console \<Rightarrow> vc_struct \<times> console" where
  "vgacon_set_origin vc c =
     (let vc = vc\<lparr>vc_origin := vga_vram_base (con_vga c), vc_visible_origin := vga_vram_base (con_vga c)\<rparr> in
      (vc, vga_set_mem_top vc c))"

definition vgacon_putc :: "vc_struct \<Rightarrow> u32 \<Rightarrow> u32 \<Rightarrow> u32 \<Rightarrow> console \<Rightarrow> console" where
  "vgacon_putc vc ch y x c = c\<lparr>con_mem := scr_writew (con_mem c) (VGA_ATTR vc ch) (VGA_ADDR vc y x)\<rparr>"

fun putcs_loop :: "vc_struct \<Rightarrow> u8 list \<Rightarrow> ulong \<Rightarrow> mem \<Rightarrow> mem" where
  "putcs_loop vc [] addr m = m"
| "putcs_loop vc (ch # s) addr m = putcs_loop vc s (addr + 2) (scr_writew m (VGA_ATTR vc (ucast ch)) addr)"

definition vgacon_putcs :: "vc_struct \<Rightarrow> u8 list \<Rightarrow> u32 \<Rightarrow> u32 \<Rightarrow> console \<Rightarrow> console" where
  "vgacon_putcs vc s y x c = c\<lparr>con_mem := putcs_loop vc s (VGA_ADDR vc y x) (con_mem c)\<rparr>"

primrec clear_loop :: "nat \<Rightarrow> vc_struct \<Rightarrow> u16 \<Rightarrow> u32 \<Rightarrow> ulong \<Rightarrow> mem \<Rightarrow> mem" where
  "clear_loop 0 vc ech width dest m = m"
| "clear_loop (Suc h) vc ech width dest m = clear_loop h vc ech width (dest + vc_row_size vc) (scr_memsetw m dest ech width)"

definition vgacon_clear :: "vc_struct \<Rightarrow> u32 \<Rightarrow> u32 \<Rightarrow> int \<Rightarrow> int \<Rightarrow> console \<Rightarrow> console" where
  "vgacon_clear vc y x height width c =
     (if height \<le> 0 \<or> width \<le> 0 then c
      else c\<lparr>con_mem := clear_loop (nat height) vc (VGA_ATTR vc (ucast (vc_erased_char vc))) (of_int width) (VGA_ADDR vc y x) (con_mem c)\<rparr>)"

text \<open>\<^verbatim>\<open>lines\<close> is compared as unsigned with half the rows once it is known to be positive.\<close>

definition vgacon_scroll :: "vc_struct \<Rightarrow> vwin \<Rightarrow> int \<Rightarrow> console \<Rightarrow> vc_struct \<times> console" where
  "vgacon_scroll vc dir lines c =
     (if lines \<le> 0 \<or> (of_int lines :: u32) \<ge> vc_rows vc div 2 then (vc, c)
      else (let delta = of_int lines * vc_row_size vc;
                base = vga_vram_base (con_vga c);
                (vc, c) =
                  (case dir of
                     VWIN_UP \<Rightarrow>
                       if vc_visible_origin vc - delta \<le> base
                       then (vc\<lparr>vc_visible_origin := base, vc_scr_end := base + vc_scr_size vc\<rparr>, c)
                       else (vc\<lparr>vc_visible_origin := vc_visible_origin vc - delta, vc_scr_end := vc_scr_end vc - delta\<rparr>, c)
                   | VWIN_DOWN \<Rightarrow>
                       if vc_scr_end vc + delta \<le> vga_vram_end (con_vga c)
                       then (vc\<lparr>vc_visible_origin := vc_visible_origin vc + delta, vc_scr_end := vc_scr_end vc + delta\<rparr>, c)
                       else (let c = c\<lparr>con_mem := scr_memcpyw (con_mem c) base (vc_visible_origin vc) (delta div 2)\<rparr>;
                                 vc = vc\<lparr>vc_pos := base + (vc_pos vc - vc_visible_origin vc),
                                         vc_visible_origin := base,
                                         vc_scr_end := base + vc_scr_size vc\<rparr> in
                             (vc, vga_set_cursor vc c))) in
            (vc, vga_set_mem_top vc c)))"

definition vgacon_startup :: "console \<Rightarrow> console" where
  "vgacon_startup c =
     (let si = con_screen c; v = con_vga c in
      if has_called_startup v then c
      else if orig_video_mode si = 0 \<and> orig_video_lines si = 0 \<and> orig_video_cols si = 0
      then c\<lparr>con_vga := v\<lparr>has_called_startup := True\<rparr>\<rparr>
      else
        (let v =
           (if orig_video_mode si = 7 then
              (if orig_video_ega_bx si AND 0xff \<noteq> 0x10
               then v\<lparr>vga_video_desc := ''EGA+'', vga_video_type := VIDEO_TYPE_EGAM, vga_vram_size := 0x8000\<rparr>
               else v\<lparr>vga_video_desc := ''*MDA'', vga_video_type := VIDEO_TYPE_MDA, vga_vram_size := 0x2000\<rparr>)
              \<lparr>vga_vram_base := 0xb0000, vga_video_port_reg := VGA_CRT_IM, vga_video_port_val := VGA_CRT_DM\<rparr>
            else
              (if orig_video_ega_bx si AND 0xff \<noteq> 0x10
               then (if orig_video_isVGA si = 0
                     then v\<lparr>vga_video_desc := ''EGA'', vga_video_type := VIDEO_TYPE_EGAC\<rparr>
                     else v\<lparr>vga_video_desc := ''VGA+'', vga_video_type := VIDEO_TYPE_VGAC\<rparr>)\<lparr>vga_vram_size := 0x8000\<rparr>
               else v\<lparr>vga_video_desc := ''*CGA'', vga_vram_size := 0x2000\<rparr>)
              \<lparr>vga_can_do_color := 1, vga_vram_base := 0xb8000, vga_video_port_reg := VGA_CRT_IC,
               vga_video_port_val := VGA_CRT_DC\<rparr>);
             base = phys_to_virt (vga_vram_base v);
             cols = ucast (orig_video_cols si);
             y = ucast (orig_y si);
             x = ucast (orig_x si) in
         c\<lparr>con_vga := v\<lparr>has_called_startup := True,
             vga_vram_base := base,
             vga_vram_end := base + vga_vram_size v,
             vga_vram_attr := 0x7,
             vga_erased_char := ucast (push_bit 8 (0x7 :: u32) OR BLANK),
             vga_visible_origin := base,
             vga_video_num_cols := cols,
             vga_video_num_rows := ucast (orig_video_lines si),
             vga_x := x,
             vga_y := y,
             vga_pos := push_bit 1 (cols * y + x) + base\<rparr>\<rparr>))"

definition vgacon_init :: "vc_struct \<Rightarrow> console \<Rightarrow> int \<times> vc_struct" where
  "vgacon_init vc c =
     (let v = con_vga c in
      if \<not> has_called_startup v then (- EPERM, vc)
      else (0, vc\<lparr>vc_x := vga_x v,
                  vc_y := vga_y v,
                  vc_pos := vga_pos v,
                  vc_cols := vga_video_num_cols v,
                  vc_rows := vga_video_num_rows v,
                  vc_row_size := push_bit 1 (vga_video_num_cols v),
                  vc_scr_size := push_bit 1 (vga_video_num_cols v) * vga_video_num_rows v,
                  vc_attr := vga_vram_attr v,
                  vc_origin := vga_vram_base v,
                  vc_scr_end := vga_visible_origin v + push_bit 1 (vga_video_num_cols v) * vga_video_num_rows v,
                  vc_top := 0,
                  vc_bottom := vga_video_num_rows v,
                  vc_visible_origin := vga_visible_origin v,
                  vc_erased_char := vga_erased_char v\<rparr>))"

definition vgacon_set_color :: "vc_struct \<Rightarrow> int \<Rightarrow> int \<Rightarrow> int \<Rightarrow> vc_struct" where
  "vgacon_set_color vc blink bg fg =
     (if bg > 7 \<or> fg > 7 then vc
      else (let attr = push_bit 4 (of_int bg) OR of_int fg in
            vc\<lparr>vc_attr := (if blink \<noteq> 0 then attr OR 0x80 else attr)\<rparr>))"

section \<open>The dummy driver and the tables\<close>

definition DUMMY_COLUMNS :: u32 where "DUMMY_COLUMNS = 80"
definition DUMMY_ROWS :: u32 where "DUMMY_ROWS = 25"

definition dummycon_init :: "vc_struct \<Rightarrow> console \<Rightarrow> int \<times> vc_struct" where
  "dummycon_init vc c = (0, vc\<lparr>vc_cols := DUMMY_COLUMNS, vc_rows := DUMMY_ROWS\<rparr>)"

text \<open>The functions the terminal calls through the driver structure.\<close>

record con_ops =
  con_startup :: "console \<Rightarrow> console"
  con_init :: "vc_struct \<Rightarrow> console \<Rightarrow> int \<times> vc_struct"
  con_putc :: "vc_struct \<Rightarrow> u32 \<Rightarrow> u32 \<Rightarrow> u32 \<Rightarrow> console \<Rightarrow> console"
  con_cursor :: "vc_struct \<Rightarrow> cursor_manner \<Rightarrow> console \<Rightarrow> console"
  con_scroll :: "vc_struct \<Rightarrow> vwin \<Rightarrow> int \<Rightarrow> console \<Rightarrow> vc_struct \<times> console"

definition vga_ops :: con_ops where
  "vga_ops = \<lparr>con_startup = vgacon_startup, con_init = vgacon_init, con_putc = vgacon_putc, con_cursor = vgacon_cursor,
     con_scroll = vgacon_scroll\<rparr>"

definition dummy_ops :: con_ops where
  "dummy_ops = \<lparr>con_startup = (\<lambda>c. c), con_init = dummycon_init, con_putc = (\<lambda>vc ch y x c. c),
     con_cursor = (\<lambda>vc mode c. c), con_scroll = (\<lambda>vc dir lines c. (vc, c))\<rparr>"

primrec driver_ops :: "con_driver \<Rightarrow> con_ops" where
  "driver_ops vga_con = vga_ops"
| "driver_ops dummy_con = dummy_ops"

end
