(* ===== verification/Vt.thy ===== *)
theory Vt
  imports Vgacon
begin

text \<open>
  The VT102 terminal of \<^verbatim>\<open>drivers/tty/vt/vt.c\<close>: screen manipulation, the escape sequence state machine
  \<^verbatim>\<open>con_write\<close> and the management of console drivers.  The functions that call through \<^verbatim>\<open>vc->driver\<close> take the
  table of driver functions as an argument.  The functions with an empty body (\<^verbatim>\<open>reverse_line_feed\<close>,
  \<^verbatim>\<open>respond\<close>, \<^verbatim>\<open>respond_ID\<close>) and \<^verbatim>\<open>csi_L\<close> and \<^verbatim>\<open>csi_M\<close>, which compute a count and drop it, change nothing.
  The console structure and the variables of the VGA driver are kept apart from the memory \<open>con_mem\<close>.  The program has them
  in memory too, outside the video memory, so the model follows the program as long as nothing but video memory is written;
  the commands that delete, insert and erase can write elsewhere, and \<open>Vt_Safe\<close> says when they do not.
\<close>

section \<open>Cursor\<close>

definition scrup :: "con_ops \<Rightarrow> vc_struct \<Rightarrow> int \<Rightarrow> console \<Rightarrow> vc_struct \<times> console" where
  "scrup ops vc lines c = con_scroll ops vc VWIN_UP lines c"

definition scrdown :: "con_ops \<Rightarrow> vc_struct \<Rightarrow> int \<Rightarrow> console \<Rightarrow> vc_struct \<times> console" where
  "scrdown ops vc lines c = con_scroll ops vc VWIN_DOWN lines c"

definition save_cursor :: "vc_struct \<Rightarrow> vc_struct" where
  "save_cursor vc = vc\<lparr>vc_saved_x := vc_x vc, vc_saved_y := vc_y vc\<rparr>"

definition restore_cursor :: "vc_struct \<Rightarrow> vc_struct" where
  "restore_cursor vc = vc\<lparr>vc_x := vc_saved_x vc, vc_y := vc_saved_y vc\<rparr>"

definition hide_cursor :: "con_ops \<Rightarrow> vc_struct \<Rightarrow> console \<Rightarrow> console" where
  "hide_cursor ops vc c = con_cursor ops vc CM_ERASE c"

definition set_cursor :: "con_ops \<Rightarrow> vc_struct \<Rightarrow> console \<Rightarrow> console" where
  "set_cursor ops vc c = con_cursor ops vc CM_DRAW c"

definition carriage_return :: "vc_struct \<Rightarrow> vc_struct" where
  "carriage_return vc = vc\<lparr>vc_pos := vc_pos vc - push_bit 1 (vc_x vc), vc_x := 0\<rparr>"

definition line_feed :: "con_ops \<Rightarrow> vc_struct \<Rightarrow> console \<Rightarrow> vc_struct \<times> console" where
  "line_feed ops vc c =
     (let (vc, c) = (if vc_y vc + 1 = vc_rows vc then scrdown ops vc 1 c else (vc\<lparr>vc_y := vc_y vc + 1\<rparr>, c)) in
      (vc\<lparr>vc_pos := vc_pos vc + vc_row_size vc\<rparr>, c))"

definition reverse_line_feed :: "vc_struct \<Rightarrow> vc_struct" where
  "reverse_line_feed vc = vc"

text \<open>The \<^verbatim>\<open>int\<close> arguments are compared with unsigned fields, so the comparison is unsigned.\<close>

definition gotoxy :: "vc_struct \<Rightarrow> u32 \<Rightarrow> u32 \<Rightarrow> vc_struct" where
  "gotoxy vc new_x new_y =
     (if new_x \<ge> vc_cols vc \<or> new_y \<ge> vc_rows vc then vc
      else vc\<lparr>vc_x := new_x, vc_y := new_y,
              vc_pos := vc_visible_origin vc + push_bit 1 (vc_cols vc * new_y + new_x)\<rparr>)"

section \<open>Erasing, deleting and inserting\<close>

definition delete_char :: "vc_struct \<Rightarrow> u32 \<Rightarrow> console \<Rightarrow> console" where
  "delete_char vc nr c =
     (let p = vc_pos vc; rest = vc_cols vc - vc_x vc - nr;
          m = scr_memcpyw (con_mem c) p (p + 2 * nr) rest in
      c\<lparr>con_mem := scr_memsetw m (p + 2 * vc_cols vc - 2 * vc_x vc - 2 * nr) (vc_erased_char vc) nr\<rparr>)"

definition insert_char :: "vc_struct \<Rightarrow> u32 \<Rightarrow> console \<Rightarrow> console" where
  "insert_char vc nr c =
     (let p = vc_pos vc;
          m = scr_memmovew (con_mem c) (p + 2 * nr) p (vc_cols vc - vc_x vc - nr) in
      c\<lparr>con_mem := scr_memsetw m p (vc_erased_char vc) nr\<rparr>)"

definition csi_J :: "vc_struct \<Rightarrow> console \<Rightarrow> console" where
  "csi_J vc c =
     (let erase = (\<lambda>start count. c\<lparr>con_mem := scr_memsetw (con_mem c) start (vc_erased_char vc) count\<rparr>) in
      if vc_par vc ! 0 = 0 then erase (vc_pos vc) (drop_bit 1 (vc_scr_end vc - vc_pos vc))
      else if vc_par vc ! 0 = 1 then erase (vc_visible_origin vc) (drop_bit 1 (vc_pos vc - vc_visible_origin vc) + 1)
      else if vc_par vc ! 0 = 2 then erase (vc_visible_origin vc) (vc_cols vc * vc_rows vc)
      else if vc_par vc ! 0 = 3 then erase (vc_origin vc) (drop_bit 1 (vc_pos vc - vc_origin vc) + 1)
      else c)"

text \<open>Cases 1 and 2 fall through to the default case, which returns before anything is erased.\<close>

definition csi_K :: "vc_struct \<Rightarrow> console \<Rightarrow> console" where
  "csi_K vc c =
     (if vc_par vc ! 0 = 0
      then c\<lparr>con_mem := scr_memsetw (con_mem c) (vc_pos vc) (vc_erased_char vc) (vc_cols vc - vc_x vc)\<rparr>
      else c)"

definition csi_L :: "vc_struct \<Rightarrow> console \<Rightarrow> console" where
  "csi_L vc c = c"

definition csi_M :: "vc_struct \<Rightarrow> console \<Rightarrow> console" where
  "csi_M vc c = c"

text \<open>The count of \<^verbatim>\<open>csi_P\<close> and \<^verbatim>\<open>csi_at\<close>.\<close>

definition clip_nr :: "vc_struct \<Rightarrow> u32" where
  "clip_nr vc =
     (let nr = vc_par vc ! 0 in
      if nr > vc_cols vc - vc_x vc then vc_cols vc - vc_x vc else if nr = 0 then 1 else nr)"

definition csi_P :: "vc_struct \<Rightarrow> console \<Rightarrow> console" where
  "csi_P vc c = delete_char vc (clip_nr vc) c"

definition csi_X :: "vc_struct \<Rightarrow> console \<Rightarrow> console" where
  "csi_X vc c =
     (let nr = vc_par vc ! 0;
          nr = (if nr = 0 then nr + 1 else nr);
          nr = (if nr > vc_cols vc - vc_x vc then vc_cols vc - vc_x vc else nr) in
      c\<lparr>con_mem := scr_memsetw (con_mem c) (vc_pos vc) (vc_erased_char vc) nr\<rparr>)"

definition csi_at :: "vc_struct \<Rightarrow> console \<Rightarrow> console" where
  "csi_at vc c = insert_char vc (clip_nr vc) c"

section \<open>Attributes\<close>

definition update_attribute :: "vc_struct \<Rightarrow> vc_struct" where
  "update_attribute vc =
     (let attr = (vc_f_color vc AND 0x7) OR push_bit 4 (vc_b_color vc AND 0x7) OR push_bit 7 (vc_blink vc AND 0x1) in
      vc\<lparr>vc_attr := attr, vc_erased_char := (vc_erased_char vc AND 0xff) OR ucast attr\<rparr>)"

definition set_attribute :: "u32 \<Rightarrow> vc_struct \<Rightarrow> vc_struct" where
  "set_attribute p vc =
     (if p = 0 then vc\<lparr>vc_bold := 0, vc_underline := 0, vc_blink := 0, vc_f_color := 7, vc_b_color := 0\<rparr>
      else if p = 1 then vc\<lparr>vc_bold := 1\<rparr>
      else if p = 4 then vc\<lparr>vc_underline := 1\<rparr>
      else if p = 5 then vc\<lparr>vc_blink := 1\<rparr>
      else if 30 \<le> p \<and> p \<le> 37 then vc\<lparr>vc_f_color := p - 30\<rparr>
      else if 40 \<le> p \<and> p \<le> 47 then vc\<lparr>vc_b_color := p - 40\<rparr>
      else if p = 38 then vc\<lparr>vc_f_color := 7\<rparr>
      else if p = 48 then vc\<lparr>vc_b_color := 0\<rparr>
      else vc)"

text \<open>\<^verbatim>\<open>for (i = 0; i <= vc->vc_npar; i++)\<close>; \<^verbatim>\<open>vc_npar\<close> is the index of the last parameter read.\<close>

definition csi_m :: "vc_struct \<Rightarrow> vc_struct" where
  "csi_m vc = update_attribute (fold set_attribute (take (unat (vc_npar vc) + 1) (vc_par vc)) vc)"

section \<open>The state machine\<close>

datatype vt_state = VT_NORMAL | VT_ESC | VT_CSI_QUESTION | VT_CSI_PARAMETER | VT_CSI_HANDLE

text \<open>The state of the loop of \<^verbatim>\<open>con_write\<close>: the console, the hardware, and the local \<^verbatim>\<open>npar\<close> and \<^verbatim>\<open>state\<close>.\<close>

type_synonym vt = "vc_struct \<times> console \<times> nat \<times> vt_state"

definition put_printable :: "con_ops \<Rightarrow> u8 \<Rightarrow> vc_struct \<Rightarrow> console \<Rightarrow> vc_struct \<times> console" where
  "put_printable ops ch vc c =
     (let (vc, c) = (if vc_x vc = vc_cols vc
                     then line_feed ops (vc\<lparr>vc_x := 0, vc_pos := vc_pos vc - vc_row_size vc\<rparr>) c
                     else (vc, c));
          c = con_putc ops vc (ucast ch) (vc_y vc) (vc_x vc) c in
      (vc\<lparr>vc_x := vc_x vc + 1, vc_pos := vc_pos vc + 2\<rparr>, c))"

definition backspace :: "vc_struct \<Rightarrow> vc_struct" where
  "backspace vc = (if vc_x vc \<noteq> 0 then vc\<lparr>vc_x := vc_x vc - 1, vc_pos := vc_pos vc - 2\<rparr> else vc)"

definition horizontal_tab :: "con_ops \<Rightarrow> vc_struct \<Rightarrow> console \<Rightarrow> vc_struct \<times> console" where
  "horizontal_tab ops vc c =
     (let w = 8 - (vc_x vc AND 7);
          vc = vc\<lparr>vc_x := vc_x vc + w, vc_pos := vc_pos vc + push_bit 1 w\<rparr> in
      if vc_x vc \<ge> vc_cols vc
      then line_feed ops (vc\<lparr>vc_x := vc_x vc - vc_cols vc, vc_pos := vc_pos vc - vc_row_size vc\<rparr>) c
      else (vc, c))"

definition vt_normal :: "con_ops \<Rightarrow> u8 \<Rightarrow> vc_struct \<Rightarrow> console \<Rightarrow> nat \<Rightarrow> vt" where
  "vt_normal ops ch vc c npar =
     (let stay = (\<lambda>(vc, c). (vc, c, npar, VT_NORMAL)) in
      if ch > 31 \<and> ch < 127 then stay (put_printable ops ch vc c)
      else if ch = 8 then stay (backspace vc, c)
      else if ch = 9 then stay (horizontal_tab ops vc c)
      else if ch = 10 \<or> ch = 11 \<or> ch = 12 then stay (line_feed ops vc c)
      else if ch = 13 then stay (carriage_return vc, c)
      else if ch = 27 then (vc, c, npar, VT_ESC)
      else stay (vc, c))"

text \<open>\<^verbatim>\<open>gotoxy(vc, 0, vc->vc_y++)\<close> passes the old row, after the increment of the field.\<close>

definition vt_esc :: "con_ops \<Rightarrow> u8 \<Rightarrow> vc_struct \<Rightarrow> console \<Rightarrow> nat \<Rightarrow> vt" where
  "vt_esc ops ch vc c npar =
     (let normal = (\<lambda>(vc, c). (vc, c, npar, VT_NORMAL)) in
      if ch = of_char CHR ''['' then (vc, c, npar, VT_CSI_QUESTION)
      else if ch = of_char CHR ''D'' then normal (line_feed ops vc c)
      else if ch = of_char CHR ''E'' then normal (gotoxy (vc\<lparr>vc_y := vc_y vc + 1\<rparr>) 0 (vc_y vc), c)
      else if ch = of_char CHR ''M'' then normal (reverse_line_feed vc, c)
      else if ch = of_char CHR ''Z'' then normal (vc, c)
      else if ch = of_char CHR ''7'' then normal (save_cursor vc, c)
      else if ch = of_char CHR ''8'' then normal (restore_cursor vc, c)
      else normal (vc, c))"

text \<open>The first parameter after \<^verbatim>\<open>if (!par) par++\<close> and after \<^verbatim>\<open>if (par) par--\<close>; both change the array.\<close>

definition par_up :: "nat \<Rightarrow> vc_struct \<Rightarrow> vc_struct" where
  "par_up i vc = (if vc_par vc ! i = 0 then vc\<lparr>vc_par := (vc_par vc)[i := vc_par vc ! i + 1]\<rparr> else vc)"

definition par_down :: "nat \<Rightarrow> vc_struct \<Rightarrow> vc_struct" where
  "par_down i vc = (if vc_par vc ! i \<noteq> 0 then vc\<lparr>vc_par := (vc_par vc)[i := vc_par vc ! i - 1]\<rparr> else vc)"

definition csi_r :: "vc_struct \<Rightarrow> vc_struct" where
  "csi_r vc =
     (let vc = par_up 0 vc;
          vc = (if vc_par vc ! 1 = 0 then vc\<lparr>vc_par := (vc_par vc)[1 := vc_rows vc]\<rparr> else vc) in
      if vc_par vc ! 0 < vc_par vc ! 1 \<and> vc_par vc ! 1 \<le> vc_rows vc
      then gotoxy (vc\<lparr>vc_top := vc_par vc ! 0 - 1, vc_bottom := vc_par vc ! 1\<rparr>) 0 0
      else vc)"

text \<open>The commands that move the cursor, and the rest.  Command \<^verbatim>\<open>D\<close> moves to the right, as \<^verbatim>\<open>C\<close> does.\<close>

definition csi_move :: "u8 \<Rightarrow> vc_struct \<Rightarrow> vc_struct option" where
  "csi_move ch vc =
     (let up = par_up 0 vc; dn = par_down 0 vc; p = vc_par up ! 0 in
      if ch = of_char CHR ''G'' \<or> ch = of_char CHR ''`'' then Some (gotoxy dn (vc_par dn ! 0) (vc_y vc))
      else if ch = of_char CHR ''A'' then Some (gotoxy up (vc_x vc) (vc_y vc - p))
      else if ch = of_char CHR ''B'' \<or> ch = of_char CHR ''e'' then Some (gotoxy up (vc_x vc) (vc_y vc + p))
      else if ch = of_char CHR ''C'' \<or> ch = of_char CHR ''a'' then Some (gotoxy up (vc_x vc + p) (vc_y vc))
      else if ch = of_char CHR ''D'' then Some (gotoxy up (vc_x vc + p) (vc_y vc))
      else if ch = of_char CHR ''E'' then Some (gotoxy up 0 (vc_y vc + p))
      else if ch = of_char CHR ''F'' then Some (gotoxy up 0 (vc_y vc - p))
      else if ch = of_char CHR ''d'' then Some (gotoxy dn (vc_x vc) (vc_par dn ! 0))
      else if ch = of_char CHR ''H'' \<or> ch = of_char CHR ''f'' then
        (let vc = par_down 1 dn in Some (gotoxy vc (vc_par vc ! 1) (vc_par vc ! 0)))
      else None)"

definition csi_handle :: "u8 \<Rightarrow> vc_struct \<Rightarrow> console \<Rightarrow> vc_struct \<times> console" where
  "csi_handle ch vc c =
     (case csi_move ch vc of
        Some vc \<Rightarrow> (vc, c)
      | None \<Rightarrow>
          if ch = of_char CHR ''J'' then (vc, csi_J vc c)
          else if ch = of_char CHR ''K'' then (vc, csi_K vc c)
          else if ch = of_char CHR ''L'' then (vc, csi_L vc c)
          else if ch = of_char CHR ''M'' then (vc, csi_M vc c)
          else if ch = of_char CHR ''P'' then (vc, csi_P vc c)
          else if ch = of_char CHR ''X'' then (vc, csi_X vc c)
          else if ch = of_char CHR ''c'' then (vc, c)
          else if ch = of_char CHR ''m'' then (csi_m vc, c)
          else if ch = of_char CHR ''r'' then (csi_r vc, c)
          else if ch = of_char CHR ''s'' then (save_cursor vc, c)
          else if ch = of_char CHR ''u'' then (restore_cursor vc, c)
          else if ch = of_char CHR ''@'' then (vc, csi_at vc c)
          else (vc, c))"

definition vt_handle :: "u8 \<Rightarrow> vc_struct \<Rightarrow> console \<Rightarrow> nat \<Rightarrow> vt" where
  "vt_handle ch vc c npar = (case csi_handle ch vc c of (vc, c) \<Rightarrow> (vc, c, npar, VT_NORMAL))"

definition vt_parameter :: "u8 \<Rightarrow> vc_struct \<Rightarrow> console \<Rightarrow> nat \<Rightarrow> vt" where
  "vt_parameter ch vc c npar =
     (if ch = of_char CHR '';'' \<and> npar < NPAR - 1 then (vc, c, npar + 1, VT_CSI_PARAMETER)
      else if of_char CHR ''0'' \<le> ch \<and> ch \<le> of_char CHR ''9''
      then (vc\<lparr>vc_par := (vc_par vc)[npar := 10 * vc_par vc ! npar + (ucast ch - 48)]\<rparr>, c, npar, VT_CSI_PARAMETER)
      else vt_handle ch (vc\<lparr>vc_npar := of_nat npar\<rparr>) c npar)"

definition vt_question :: "u8 \<Rightarrow> vc_struct \<Rightarrow> console \<Rightarrow> vt" where
  "vt_question ch vc c =
     (let vc = vc\<lparr>vc_par := replicate NPAR 0\<rparr> in
      if ch = of_char CHR ''?'' then (vc, c, 0, VT_CSI_PARAMETER) else vt_parameter ch vc c 0)"

fun con_step :: "con_ops \<Rightarrow> u8 \<Rightarrow> vt \<Rightarrow> vt" where
  "con_step ops ch (vc, c, npar, VT_NORMAL) = vt_normal ops ch vc c npar"
| "con_step ops ch (vc, c, npar, VT_ESC) = vt_esc ops ch vc c npar"
| "con_step ops ch (vc, c, npar, VT_CSI_QUESTION) = vt_question ch vc c"
| "con_step ops ch (vc, c, npar, VT_CSI_PARAMETER) = vt_parameter ch vc c npar"
| "con_step ops ch (vc, c, npar, VT_CSI_HANDLE) = vt_handle ch vc c npar"

text \<open>\<^verbatim>\<open>buf\<close> is the list of its \<^verbatim>\<open>count\<close> bytes.  The parser state is local: every call starts in \<open>VT_NORMAL\<close>.\<close>

definition con_write :: "u8 list \<Rightarrow> vc_struct \<Rightarrow> console \<Rightarrow> int \<times> vc_struct \<times> console" where
  "con_write buf vc c =
     (case driver vc of
        None \<Rightarrow> (- EFAULT, vc, c)
      | Some con \<Rightarrow>
          (let ops = driver_ops con in
           case fold (con_step ops) buf (vc, hide_cursor ops vc c, 0, VT_NORMAL) of
             (vc, c, npar, state) \<Rightarrow> (int (length buf), vc, set_cursor ops vc c)))"

definition con_put_char :: "u8 \<Rightarrow> vc_struct \<Rightarrow> console \<Rightarrow> int \<times> vc_struct \<times> console" where
  "con_put_char ch vc c = con_write [ch] vc c"

section \<open>Driver management\<close>

text \<open>
  \<open>regs\<close> is the array \<^verbatim>\<open>registed_con_drivers\<close> of \<^verbatim>\<open>MAX_NR_CON_DRIVERS\<close> elements; the loops stop at the first
  match.
\<close>

definition bind_con_driver :: "con_driver option list \<Rightarrow> vc_struct \<Rightarrow> con_driver \<Rightarrow> int \<times> vc_struct" where
  "bind_con_driver regs vc con =
     (if Some con \<in> set regs then (0, vc\<lparr>driver := Some con\<rparr>) else (- EINVAL, vc))"

definition unbind_con_driver :: "con_driver \<Rightarrow> int" where
  "unbind_con_driver con = 0"

fun replace_first :: "con_driver option \<Rightarrow> con_driver option \<Rightarrow> con_driver option list \<Rightarrow> con_driver option list option" where
  "replace_first old new [] = None"
| "replace_first old new (r # regs) =
     (if r = old then Some (new # regs) else (case replace_first old new regs of None \<Rightarrow> None | Some rs \<Rightarrow> Some (r # rs)))"

definition register_con_driver :: "con_driver option list \<Rightarrow> con_driver \<Rightarrow> console \<Rightarrow> int \<times> con_driver option list \<times> console" where
  "register_con_driver regs con c =
     (if Some con \<in> set regs then (- EBUSY, regs, c)
      else (case replace_first None (Some con) regs of
              None \<Rightarrow> (- EINVAL, regs, c)
            | Some regs \<Rightarrow> (0, regs, con_startup (driver_ops con) c)))"

definition unregister_con_driver :: "con_driver option list \<Rightarrow> con_driver \<Rightarrow> int \<times> con_driver option list" where
  "unregister_con_driver regs con =
     (let err = unbind_con_driver con in
      if err \<noteq> 0 then (err, regs)
      else (case replace_first (Some con) None regs of None \<Rightarrow> (- EINVAL, regs) | Some regs \<Rightarrow> (0, regs)))"

definition con_write_room :: "bool \<Rightarrow> int" where
  "con_write_room stopped = (if stopped then 0 else 32768)"

definition con_chars_in_buffer :: int where
  "con_chars_in_buffer = 0"

text \<open>
  \<^verbatim>\<open>console_init\<close> up to the registration of the tty driver: the drivers, the virtual consoles bound to them and
  the first one initialised.  The result is the error code of \<^verbatim>\<open>con_init\<close>, the array \<^verbatim>\<open>vc_struct_map\<close> and the
  hardware.
\<close>

definition bind_all :: "con_driver option list \<Rightarrow> con_driver \<Rightarrow> vc_struct list \<Rightarrow> vc_struct list" where
  "bind_all regs con vcs = map (\<lambda>vc. snd (bind_con_driver regs vc con)) vcs"

definition console_init :: "vc_struct list \<Rightarrow> console \<Rightarrow> (int \<times> vc_struct list \<times> console) kres" where
  "console_init vcs c =
     (let (_, regs, c) = register_con_driver (replicate MAX_NR_CON_DRIVERS None) dummy_con c;
          vcs = take 1 vcs @ bind_all regs dummy_con (drop 1 vcs);
          (_, regs, c) = register_con_driver regs vga_con c;
          vc = snd (bind_con_driver regs (vcs ! 0) vga_con) in
      case driver vc of
        None \<Rightarrow> Inl NullDeref
      | Some con \<Rightarrow> (let (err, vc) = con_init (driver_ops con) vc c in Inr (err, vcs[0 := vc], c)))"

end
