(* ===== verification/Hexdump.thy ===== *)
theory Hexdump
  imports String_Spec
begin

text \<open>
  The hexadecimal routines of \<^verbatim>\<open>lib/hexdump.c\<close> and their helpers in \<^verbatim>\<open>include/sandix/kernel.h\<close>, on a byte memory:
  printing bytes as pairs of digits, reading them back, and that the two are inverse.
\<close>

section \<open>The program\<close>

definition hex_asc :: "u8 list" where
  "hex_asc = [48, 49, 50, 51, 52, 53, 54, 55, 56, 57, 97, 98, 99, 100, 101, 102]"

definition hex_asc_upper :: "u8 list" where
  "hex_asc_upper = [48, 49, 50, 51, 52, 53, 54, 55, 56, 57, 65, 66, 67, 68, 69, 70]"

definition hex_asc_lo :: "u8 \<Rightarrow> u8" where
  "hex_asc_lo x = hex_asc ! unat (x AND 0x0f)"

definition hex_asc_hi :: "u8 \<Rightarrow> u8" where
  "hex_asc_hi x = hex_asc ! unat (drop_bit 4 (x AND 0xf0))"

definition hex_byte_pack :: "mem \<Rightarrow> ulong \<Rightarrow> u8 \<Rightarrow> ulong \<times> mem" where
  "hex_byte_pack m buf byte = (buf + 2, m(buf := hex_asc_hi byte, buf + 1 := hex_asc_lo byte))"

text \<open>\<^verbatim>\<open>char\<close> is signed; the digits and letters are \<^verbatim>\<open>'0'\<close> = 48 and \<^verbatim>\<open>'a'\<close> = 97.\<close>

definition hex_to_bin :: "u8 \<Rightarrow> int" where
  "hex_to_bin ch =
     (if sint ch \<ge> 48 \<and> sint ch \<le> 57 then sint ch - 48
      else (let ch = tolower ch in
            if sint ch \<ge> 97 \<and> sint ch \<le> 102 then sint ch - 97 + 10 else - 1))"

primrec hex2bin_loop :: "nat \<Rightarrow> mem \<Rightarrow> ulong \<Rightarrow> ulong \<Rightarrow> int \<times> mem" where
  "hex2bin_loop 0 m dst src = (0, m)"
| "hex2bin_loop (Suc count) m dst src =
     (let hi = hex_to_bin (m src); lo = hex_to_bin (m (src + 1)) in
      if hi < 0 \<or> lo < 0 then (- 1, m)
      else hex2bin_loop count (m(dst := word_of_int (push_bit 4 hi OR lo))) (dst + 1) (src + 2))"

definition hex2bin :: "mem \<Rightarrow> ulong \<Rightarrow> ulong \<Rightarrow> ulong \<Rightarrow> int \<times> mem" where
  "hex2bin m dst src count = hex2bin_loop (unat count) m dst src"

primrec bin2hex_loop :: "nat \<Rightarrow> mem \<Rightarrow> ulong \<Rightarrow> ulong \<Rightarrow> ulong \<times> mem" where
  "bin2hex_loop 0 m dst src = (dst, m)"
| "bin2hex_loop (Suc count) m dst src =
     (case hex_byte_pack m dst (m src) of (dst, m) \<Rightarrow> bin2hex_loop count m dst (src + 1))"

definition bin2hex :: "mem \<Rightarrow> ulong \<Rightarrow> ulong \<Rightarrow> ulong \<Rightarrow> ulong \<times> mem" where
  "bin2hex m dst src count = bin2hex_loop (unat count) m dst src"

section \<open>Digits\<close>

definition nibbles_ok :: "u8 \<Rightarrow> bool" where
  "nibbles_ok c \<longleftrightarrow> (let hi = hex_to_bin (hex_asc_hi c); lo = hex_to_bin (hex_asc_lo c) in
     0 \<le> hi \<and> 0 \<le> lo \<and> (word_of_int (push_bit 4 hi OR lo) :: u8) = c)"

lemma sint8: "sint (c :: u8) = (if uint c < 128 then uint c else uint c - 256)"
proof -
  have "(uint c + 128) mod 256 = (if uint c < 128 then uint c + 128 else uint c - 128)"
    using uint_byte [of c] mod_pos_pos_trivial [of "uint c + 128" 256] mod_pos_pos_trivial [of "uint c - 128" 256]
      mod_add_self2 [of "uint c - 128" 256] by (auto simp: not_less add.commute)
  then show ?thesis by (simp add: sint_uint signed_take_bit_eq_take_bit_shift take_bit_eq_mod)
qed

text \<open>The two digits of a byte read back as the byte.  Each of the 16 digits has its value.\<close>

lemma hex_digit_value: "n < 16 \<Longrightarrow> hex_to_bin (hex_asc ! n) = int n"
proof -
  have "\<forall>n \<in> {0..<16}. hex_to_bin (hex_asc ! n) = int n"
    by (simp add: atLeastLessThan_nat_numeral hex_asc_def hex_to_bin_def tolower_def isupper_iff Let_def)
  then show "n < 16 \<Longrightarrow> hex_to_bin (hex_asc ! n) = int n" by simp
qed

lemma nibble_masks: "(0x0f :: u8) = mask 4" "(0xf0 :: u8) = push_bit 4 (mask 4)"
  by (simp_all add: mask_eq_exp_minus_1 push_bit_eq_mult)

lemma nibble_less: "unat (drop_bit 4 (c AND 0xf0) :: u8) < 16" "unat (c AND 0x0f :: u8) < 16"
proof -
  have "unat (c AND mask 4) < 16" unfolding take_bit_eq_mask [symmetric] unat_take_bit by simp
  then show "unat (c AND 0x0f :: u8) < 16" by (simp only: nibble_masks)
  have "drop_bit 4 (c AND push_bit 4 (mask 4)) = take_bit 4 (drop_bit 4 c)"
    by (rule bit_word_eqI) (auto simp: bit_simps)
  then show "unat (drop_bit 4 (c AND 0xf0) :: u8) < 16" by (simp only: nibble_masks unat_take_bit) simp
qed

lemma join_nibbles: "(word_of_int (push_bit 4 (uint h) OR uint l) :: u8) = push_bit 4 h OR l"
  by (rule bit_word_eqI) (auto simp: bit_simps)

lemma split_nibbles: "push_bit 4 (drop_bit 4 (c AND push_bit 4 (mask 4))) OR (c AND mask 4) = (c :: u8)"
  by (rule bit_word_eqI) (auto simp: bit_simps)

lemma nibbles: "nibbles_ok c"
proof -
  let ?h = "drop_bit 4 (c AND 0xf0) :: u8" and ?l = "c AND 0x0f :: u8"
  have v: "hex_to_bin (hex_asc_hi c) = uint ?h" "hex_to_bin (hex_asc_lo c) = uint ?l"
    using nibble_less [of c] by (simp_all add: hex_asc_hi_def hex_asc_lo_def hex_digit_value)
  have "(word_of_int (push_bit 4 (uint ?h) OR uint ?l) :: u8) = c"
    by (simp only: join_nibbles nibble_masks split_nibbles)
  then show ?thesis unfolding nibbles_ok_def v by simp
qed

section \<open>Areas of memory\<close>

definition area :: "ulong \<Rightarrow> nat \<Rightarrow> ulong set" where
  "area s n = (\<lambda>i. s + of_nat i) ` {..<n}"

lemma area_0 [simp]: "area s 0 = {}"
  by (simp add: area_def)

lemma area_Suc: "area s (Suc n) = insert s (area (s + 1) n)"
  by (simp add: area_def lessThan_Suc_eq_insert_0 image_image add.assoc)

lemma area_2: "area s (Suc (Suc n)) = insert s (insert (s + 1) (area (s + 2) n))"
  by (simp add: area_Suc add.assoc)

lemma bytes_frame: "(\<And>x. x \<in> area s n \<Longrightarrow> m' x = m x) \<Longrightarrow> bytes m' s n = bytes m s n"
  by (simp add: bytes_def area_def)

lemma area_head: "n < 2 ^ 32 \<Longrightarrow> s \<notin> area (s + 1) n"
proof
  assume n: "n < 2 ^ 32" and "s \<in> area (s + 1) n"
  then obtain i where i: "i < n" "s = s + 1 + of_nat i" by (auto simp: area_def)
  then have "(of_nat (Suc i) :: ulong) = 0" by simp
  moreover have "unat (of_nat (Suc i) :: ulong) = Suc i" using i(1) n by (intro unat_of_nat32) simp
  ultimately show False by simp
qed

definition hex_pair :: "u8 \<Rightarrow> u8 list" where
  "hex_pair c = [hex_asc_hi c, hex_asc_lo c]"

lemma bin2hex_loop_spec:
  "2 * n < 2 ^ 32 \<Longrightarrow> area dst (2 * n) \<inter> area src n = {} \<Longrightarrow> bin2hex_loop n m dst src = (p, m') \<Longrightarrow>
   p = dst + of_nat (2 * n) \<and> bytes m' dst (2 * n) = concat (map hex_pair (bytes m src n)) \<and>
   (\<forall>x. x \<notin> area dst (2 * n) \<longrightarrow> m' x = m x)"
proof (induction n arbitrary: m dst src)
  case (Suc n)
  let ?m = "m(dst := hex_asc_hi (m src), dst + 1 := hex_asc_lo (m src))"
  have ar: "area dst (2 * Suc n) = insert dst (insert (dst + 1) (area (dst + 2) (2 * n)))"
    by (simp add: area_2)
  have dis: "area (dst + 2) (2 * n) \<inter> area (src + 1) n = {}" using Suc.prems(2) [unfolded ar area_Suc] by blast
  have step: "bin2hex_loop n ?m (dst + 2) (src + 1) = (p, m')" using Suc.prems(3) by (simp add: hex_byte_pack_def)
  have "2 * n < 2 ^ 32" using Suc.prems(1) by simp
  note rec = Suc.IH [OF this dis step]
  have IH: "p = dst + 2 + of_nat (2 * n)" "bytes m' (dst + 2) (2 * n) = concat (map hex_pair (bytes ?m (src + 1) n))"
    "\<And>x. x \<notin> area (dst + 2) (2 * n) \<Longrightarrow> m' x = ?m x"
    using rec by blast+
  have "area (dst + 1) (Suc (2 * n)) = insert (dst + 1) (area (dst + 2) (2 * n))" by (simp add: area_Suc add.assoc)
  then have h: "dst \<notin> area (dst + 2) (2 * n)" "dst + 1 \<notin> area (dst + 2) (2 * n)"
    using area_head [of "Suc (2 * n)" dst] area_head [of "2 * n" "dst + 1"] Suc.prems(1) by (auto simp: add.assoc)
  have "bytes ?m (src + 1) n = bytes m (src + 1) n"
    using Suc.prems(2) [unfolded ar area_Suc] by (intro bytes_frame) auto
  moreover have "bytes m' dst (2 * Suc n) = m' dst # m' (dst + 1) # bytes m' (dst + 2) (2 * n)"
    by (simp add: bytes_Suc add.assoc)
  moreover have "m' dst = hex_asc_hi (m src)" "m' (dst + 1) = hex_asc_lo (m src)"
    using IH(3) h by auto
  ultimately have "bytes m' dst (2 * Suc n) = concat (map hex_pair (bytes m src (Suc n)))"
    using IH(2) by (simp add: bytes_Suc hex_pair_def)
  moreover have "\<forall>x. x \<notin> area dst (2 * Suc n) \<longrightarrow> m' x = m x" unfolding ar using IH(3) by simp
  ultimately show ?case using IH(1) by (simp add: algebra_simps)
qed simp

lemma hex2bin_loop_pairs:
  "n < 2 ^ 32 \<Longrightarrow> area dst n \<inter> area src (2 * n) = {} \<Longrightarrow> bytes m src (2 * n) = concat (map hex_pair cs) \<Longrightarrow>
   length cs = n \<Longrightarrow> \<exists>m'. hex2bin_loop n m dst src = (0, m') \<and> bytes m' dst n = cs \<and> (\<forall>x. x \<notin> area dst n \<longrightarrow> m' x = m x)"
proof (induction n arbitrary: m dst src cs)
  case (Suc n)
  obtain c cs' where cs: "cs = c # cs'" "length cs' = n" using Suc.prems(4) by (cases cs) auto
  have ar: "area src (2 * Suc n) = insert src (insert (src + 1) (area (src + 2) (2 * n)))"
    by (simp add: area_2)
  have "bytes m src (2 * Suc n) = m src # m (src + 1) # bytes m (src + 2) (2 * n)" by (simp add: bytes_Suc add.assoc)
  then have b: "m src = hex_asc_hi c" "m (src + 1) = hex_asc_lo c" "bytes m (src + 2) (2 * n) = concat (map hex_pair cs')"
    using Suc.prems(3) by (simp_all add: cs hex_pair_def [of c])
  let ?m = "m(dst := c)"
  have step: "hex2bin_loop (Suc n) m dst src = hex2bin_loop n ?m (dst + 1) (src + 2)"
    using nibbles [of c] by (simp add: nibbles_ok_def b Let_def)
  have dis: "area (dst + 1) n \<inter> area (src + 2) (2 * n) = {}" "dst \<notin> area (src + 2) (2 * n)"
    using Suc.prems(2) [unfolded ar area_Suc] by blast+
  have "bytes ?m (src + 2) (2 * n) = concat (map hex_pair cs')"
    using b(3) dis(2) by (subst bytes_frame [of _ _ _ m]) auto
  from Suc.IH [OF _ dis(1) this cs(2)] Suc_lessD [OF Suc.prems(1)] obtain m' where
    m': "hex2bin_loop n ?m (dst + 1) (src + 2) = (0, m')" "bytes m' (dst + 1) n = cs'"
      "\<forall>x. x \<notin> area (dst + 1) n \<longrightarrow> m' x = ?m x" by blast
  have "m' dst = c" using m'(3) area_head [of n dst] Suc.prems(1) by simp
  with m' step show ?case by (auto simp: bytes_Suc cs area_Suc)
qed simp

section \<open>Properties\<close>

text \<open>
  C39: \<open>hex2bin\<close> reads back what \<open>bin2hex\<close> printed: after printing \<open>count\<close> bytes to a second area and reading
  that into a third, \<open>hex2bin\<close> returns 0 and the third area holds the bytes of the first.
\<close>

theorem hex_roundtrip:
  assumes "2 * unat count < 2 ^ 32"
    and "area mid (2 * unat count) \<inter> area src (unat count) = {}" "area dst (unat count) \<inter> area mid (2 * unat count) = {}"
    and "bin2hex m mid src count = (p, m1)"
  shows "\<exists>m2. hex2bin m1 dst mid count = (0, m2) \<and> bytes m2 dst (unat count) = bytes m src (unat count)"
proof -
  have "bytes m1 mid (2 * unat count) = concat (map hex_pair (bytes m src (unat count)))"
    using bin2hex_loop_spec [OF assms(1,2)] assms(4) by (simp add: bin2hex_def)
  moreover have "length (bytes m src (unat count)) = unat count" by (simp add: bytes_def)
  ultimately show ?thesis
    using hex2bin_loop_pairs [OF _ assms(3), of m1 "bytes m src (unat count)"] assms(1) by (auto simp: hex2bin_def)
qed

theorem hex_roundtrip_witness:
  "\<exists>m2. hex2bin (snd (bin2hex hello 0x2000 0x100 2)) 0x3000 0x2000 2 = (0, m2) \<and> bytes m2 0x3000 2 = [104, 105]"
proof -
  have a: "area s 2 = {s, s + 1}" "area s 4 = {s, s + 1, s + 2, s + 3}" for s
    by (simp_all add: area_def numeral_eq_Suc lessThan_Suc insert_commute add.assoc)
  obtain p m1 where "bin2hex hello 0x2000 0x100 2 = (p, m1)" by fastforce
  with hex_roundtrip [of 2 "0x2000" "0x100" "0x3000" hello p m1] show ?thesis by (simp add: a bytes_hello)
qed

text \<open>
  \<open>hex_to_bin\<close> accepts the 22 hexadecimal digits, in both cases, with their values, and answers -1 for every
  other byte.
\<close>

theorem hex_to_bin_digits:
  "hex_to_bin ch =
     (if 48 \<le> unat ch \<and> unat ch \<le> 57 then int (unat ch) - 48
      else if 65 \<le> unat ch \<and> unat ch \<le> 70 then int (unat ch) - 55
      else if 97 \<le> unat ch \<and> unat ch \<le> 102 then int (unat ch) - 87
      else - 1)"
proof -
  have "int (unat ch) = uint ch" "\<And>k. numeral k \<le> unat ch \<longleftrightarrow> numeral k \<le> uint ch" "\<And>k. unat ch \<le> numeral k \<longleftrightarrow> uint ch \<le> numeral k"
    using of_nat_le_iff [of "numeral _" "unat ch", where 'a = int] of_nat_le_iff [of "unat ch" "numeral _", where 'a = int] by simp_all
  note nat = this
  show ?thesis
    unfolding hex_to_bin_def Let_def sint8 uint_tolower isupper_iff nat using uint_byte [of ch] by auto
qed

end
