(* ===== verification/Vsprintf.thy ===== *)
theory Vsprintf
  imports Hexdump Resource
begin

text \<open>
  The formatted output of \<^verbatim>\<open>lib/vsprintf.c\<close>.  All output of the code goes through the idiom
  \<^verbatim>\<open>if (buf < end) *buf = c; ++buf;\<close>, so a function that prints is modelled by the list of
  characters it emits and \<open>put\<close> is the idiom; \<open>vsnprintf\<close> puts the text of the whole format.  The format is the
  list of its bytes before the terminator.  The variable arguments are the 32-bit slots of the i386
  calling convention.  Strings and objects the arguments point to are taken not to overlap the output buffer.
\<close>

section \<open>Flags, types and specifications\<close>

definition SIGN :: u8 where "SIGN = 0x01"
definition LEFT :: u8 where "LEFT = 0x02"
definition PLUS :: u8 where "PLUS = 0x04"
definition SPACE :: u8 where "SPACE = 0x08"
definition ZEROPAD :: u8 where "ZEROPAD = 0x10"
definition SMALL :: u8 where "SMALL = 0x20"
definition SPECIAL :: u8 where "SPECIAL = 0x40"

datatype format_type =
    FORMAT_TYPE_NONE | FORMAT_TYPE_WIDTH | FORMAT_TYPE_PRECISION | FORMAT_TYPE_CHAR | FORMAT_TYPE_STR
  | FORMAT_TYPE_PTR | FORMAT_TYPE_PERCENT_CHAR | FORMAT_TYPE_INVALID | FORMAT_TYPE_LONG_LONG
  | FORMAT_TYPE_ULONG | FORMAT_TYPE_LONG | FORMAT_TYPE_UBYTE | FORMAT_TYPE_BYTE | FORMAT_TYPE_USHORT
  | FORMAT_TYPE_SHORT | FORMAT_TYPE_UINT | FORMAT_TYPE_INT | FORMAT_TYPE_SIZE_T | FORMAT_TYPE_PTRDIFF

text \<open>\<^verbatim>\<open>field_width\<close> and \<^verbatim>\<open>precision\<close> are signed 16-bit; every assignment to them goes through \<open>short\<close>.\<close>

record printf_spec =
  ps_type :: format_type
  ps_flags :: u8
  ps_base :: u8
  ps_modifier :: u8
  field_width :: int
  precision :: int

definition short :: "int \<Rightarrow> int" where
  "short x = (x + 32768) mod 65536 - 32768"

definition has :: "u8 \<Rightarrow> u8 \<Rightarrow> bool" where
  "has flags f \<longleftrightarrow> flags AND f \<noteq> 0"

definition zero_spec :: printf_spec where
  "zero_spec = \<lparr>ps_type = FORMAT_TYPE_NONE, ps_flags = 0, ps_base = 0, ps_modifier = 0, field_width = 0, precision = 0\<rparr>"

text \<open>The character under a format pointer; the terminator is 0.\<close>

definition cur :: "u8 list \<Rightarrow> u8" where
  "cur fmt = (case fmt of [] \<Rightarrow> 0 | c # _ \<Rightarrow> c)"

text \<open>A \<^verbatim>\<open>do\<close> loop: it consumes the first character whatever it is.\<close>

fun skip_atoi_loop :: "u32 \<Rightarrow> u8 list \<Rightarrow> u32 \<times> u8 list" where
  "skip_atoi_loop i [] = (i, [])"
| "skip_atoi_loop i (c # s) =
     (let i = i * 10 + scast c - 48 in if isdigit (cur s) then skip_atoi_loop i s else (i, s))"

definition skip_atoi :: "u8 list \<Rightarrow> int \<times> u8 list" where
  "skip_atoi s = (case skip_atoi_loop 0 s of (i, s) \<Rightarrow> (sint i, s))"

section \<open>Decimal digits\<close>

text \<open>The buffer is an array; a \<^verbatim>\<open>u16\<close> store writes the low byte first.\<close>

definition decpair :: "u16 list" where
  "decpair = map (\<lambda>x. (of_nat (x mod 10) OR push_bit 8 (of_nat (x div 10))) + 0x3030) [0..<100]"

definition store16 :: "u8 list \<Rightarrow> nat \<Rightarrow> u16 \<Rightarrow> u8 list" where
  "store16 buf i w = buf[i := ucast w, Suc i := ucast (drop_bit 8 w)]"

definition put_pair :: "u8 list \<Rightarrow> nat \<Rightarrow> u32 \<Rightarrow> u8 list" where
  "put_pair buf i r = store16 buf i (decpair ! unat r)"

text \<open>The two fixed-point divisions by 100 and the one by 10000.\<close>

definition div100_wide :: "u32 \<Rightarrow> u32" where
  "div100_wide r = ucast (drop_bit 32 (ucast r * (0x28f5c29 :: u64)))"

definition div100_narrow :: "u32 \<Rightarrow> u32" where
  "div100_narrow r = drop_bit 19 (r * 0x147b)"

definition put_dec_out_r :: "u8 list \<Rightarrow> nat \<Rightarrow> u32 \<Rightarrow> u8 list \<times> nat" where
  "put_dec_out_r buf i r = (put_pair buf i r, if r < 10 then i + 1 else i + 2)"

definition put_dec_trunc8 :: "u8 list \<Rightarrow> nat \<Rightarrow> u32 \<Rightarrow> u8 list \<times> nat" where
  "put_dec_trunc8 buf i r =
     (if r < 100 then put_dec_out_r buf i r
      else (let q = div100_wide r; buf = put_pair buf i (r - 100 * q); i = i + 2 in
        if q < 100 then put_dec_out_r buf i q
        else (let r = div100_wide q; buf = put_pair buf i (q - 100 * r); i = i + 2 in
          if r < 100 then put_dec_out_r buf i r
          else (let q = div100_narrow r; buf = put_pair buf i (r - 100 * q); i = i + 2 in
            put_dec_out_r buf i q))))"

definition put_dec_full4 :: "u8 list \<Rightarrow> nat \<Rightarrow> u32 \<Rightarrow> u8 list" where
  "put_dec_full4 buf i r = (let q = div100_narrow r in put_pair (put_pair buf i (r - 100 * q)) (i + 2) q)"

definition put_dec_helper4 :: "u8 list \<Rightarrow> nat \<Rightarrow> u32 \<Rightarrow> u32 \<times> u8 list" where
  "put_dec_helper4 buf i x =
     (let q = ucast (drop_bit 43 (ucast x * (0x346DC5D7 :: u64))) in (q, put_dec_full4 buf i (x - q * 10000)))"

text \<open>\<^verbatim>\<open>while (buf[-1] == '0') --buf;\<close>\<close>

fun trim_zeros :: "u8 list \<Rightarrow> nat \<Rightarrow> nat" where
  "trim_zeros buf 0 = 0"
| "trim_zeros buf (Suc i) = (if buf ! i = 48 then trim_zeros buf i else Suc i)"

definition put_dec :: "u8 list \<Rightarrow> nat \<Rightarrow> u64 \<Rightarrow> u8 list \<times> nat" where
  "put_dec buf i n =
     (if n < 100 * 1000 * 1000 then put_dec_trunc8 buf i (ucast n)
      else (let d1 = drop_bit 16 (ucast n :: u32);
                h = ucast (drop_bit 32 n) :: u32;
                d2 = h AND 0xffff;
                d3 = drop_bit 16 h;
                q = 656 * d3 + 7296 * d2 + 5536 * d1 + ((ucast n :: u32) AND 0xffff) in
            case put_dec_helper4 buf i q of (q, buf) \<Rightarrow>
            (let q = q + (7671 * d3 + 9496 * d2 + 6 * d1) in
             case put_dec_helper4 buf (i + 4) q of (q, buf) \<Rightarrow>
             (let q = q + (4749 * d3 + 42 * d2) in
              case put_dec_helper4 buf (i + 8) q of (q, buf) \<Rightarrow>
              (let q = q + 281 * d3; i = i + 12 in
               if q \<noteq> 0 then put_dec_trunc8 buf i q else (buf, trim_zeros buf i))))))"

section \<open>Numbers and strings\<close>

text \<open>
  The padding loops \<^verbatim>\<open>while (--w >= 0)\<close>, \<^verbatim>\<open>while (--w > 0)\<close> and \<^verbatim>\<open>while (len < w--)\<close>: the number
  of turns and the width left.
\<close>

lemma short_range: "- 32768 \<le> short x" "short x \<le> 32767"
proof -
  have "0 \<le> (x + 32768) mod 65536" "(x + 32768) mod 65536 < 65536" by simp_all
  then show "- 32768 \<le> short x" "short x \<le> 32767" unfolding short_def by linarith+
qed

lemma short_id: "- 32768 \<le> x \<Longrightarrow> x \<le> 32767 \<Longrightarrow> short x = x"
  by (simp add: short_def)

function pad_ge :: "int \<Rightarrow> nat \<times> int" where
  "pad_ge w = (let w = short (w - 1) in if w \<ge> 0 then (case pad_ge w of (n, w) \<Rightarrow> (Suc n, w)) else (0, w))"
  by pat_completeness auto
termination
proof (relation "measure (\<lambda>w. nat (short (w - 1) + 1))")
  fix w x :: int assume x: "x = short (w - 1)" "x \<ge> 0"
  then have "short (x - 1) = x - 1" using short_range [of "w - 1"] by (intro short_id) auto
  with x show "(x, w) \<in> measure (\<lambda>w. nat (short (w - 1) + 1))" by simp
qed simp

function pad_gt :: "int \<Rightarrow> nat \<times> int" where
  "pad_gt w = (let w = short (w - 1) in if w > 0 then (case pad_gt w of (n, w) \<Rightarrow> (Suc n, w)) else (0, w))"
  by pat_completeness auto
termination
proof (relation "measure (\<lambda>w. nat (short (w - 1) + 1))")
  fix w x :: int assume x: "x = short (w - 1)" "x > 0"
  then have "short (x - 1) = x - 1" using short_range [of "w - 1"] by (intro short_id) auto
  with x show "(x, w) \<in> measure (\<lambda>w. nat (short (w - 1) + 1))" by simp
qed simp

function pad_below :: "nat \<Rightarrow> int \<Rightarrow> nat \<times> int" where
  "pad_below len w = (if int len < w \<and> w \<le> 32767 then (case pad_below len (short (w - 1)) of (n, w) \<Rightarrow> (Suc n, w))
     else (0, short (w - 1)))"
  by pat_completeness auto
termination
proof (relation "measure (\<lambda>(len, w). nat w)")
  fix len :: nat and w :: int assume w: "int len < w \<and> w \<le> 32767"
  then have "short (w - 1) = w - 1" by (intro short_id) auto
  with w show "((len, short (w - 1)), len, w) \<in> measure (\<lambda>(len, w). nat w)" by simp
qed simp

declare pad_ge.simps [simp del] pad_gt.simps [simp del] pad_below.simps [simp del]

text \<open>The digits of a number in base 8 or 16, least significant first.\<close>

function digit_loop :: "u8 \<Rightarrow> u8 \<Rightarrow> u8 list \<Rightarrow> nat \<Rightarrow> u64 \<Rightarrow> u8 list \<times> nat" where
  "digit_loop base locase tmp i num =
     (let mask = base - 1; shift = (if base = 16 then 4 else 3);
          tmp = tmp[i := (hex_asc_upper ! unat ((ucast num :: u8) AND mask)) OR locase];
          num = drop_bit shift num in
      if num \<noteq> 0 then digit_loop base locase tmp (Suc i) num else (tmp, Suc i))"
  by pat_completeness auto
termination
proof (relation "measure (\<lambda>(base, locase, tmp, i, num). unat num)")
  fix base locase :: u8 and tmp i and num num' :: u64 and mask shift tmp'
  assume s: "shift = (if base = 16 then 4 else 3 :: nat)" and n: "num' = drop_bit shift num" "num' \<noteq> 0"
  have "unat num' = unat num div 2 ^ shift" unfolding n(1) by (rule unat_drop_bit)
  moreover have "num \<noteq> 0" using n by auto
  then have "0 < unat num" by (simp add: unat_gt_0)
  moreover have "(1 :: nat) < 2 ^ shift" using s by simp
  ultimately have "unat num' < unat num" by simp
  then show "((base, locase, tmp', Suc i, num'), base, locase, tmp, i, num) \<in> measure (\<lambda>(base, locase, tmp, i, num). unat num)"
    by simp
qed simp

declare digit_loop.simps [simp del]

definition number_digits :: "u8 \<Rightarrow> u8 \<Rightarrow> u64 \<Rightarrow> u8 list \<times> nat" where
  "number_digits base locase num =
     (let tmp = replicate 24 0 in
      if num < ucast base then (tmp[0 := (hex_asc_upper ! unat num) OR locase], 1)
      else if base = 10 then put_dec tmp 0 num
      else digit_loop base locase tmp 0 num)"

text \<open>\<^verbatim>\<open>while (i <= --precision)\<close>: the number of extra zeros.\<close>

function zero_loop :: "nat \<Rightarrow> int \<Rightarrow> nat" where
  "zero_loop i p = (let p = short (p - 1) in if int i \<le> p then Suc (zero_loop i p) else 0)"
  by pat_completeness auto
termination
proof (relation "measure (\<lambda>(i, p). nat (short (p - 1) + 1))")
  fix i :: nat and p x :: int assume x: "x = short (p - 1)" "int i \<le> x"
  then have "short (x - 1) = x - 1" using short_range [of "p - 1"] by (intro short_id) auto
  with x show "((i, x), i, p) \<in> measure (\<lambda>(i, p). nat (short (p - 1) + 1))" by simp
qed simp

declare zero_loop.simps [simp del]

definition number_sign :: "u8 \<Rightarrow> u64 \<Rightarrow> int \<Rightarrow> u8 \<times> u64 \<times> int" where
  "number_sign flags num w =
     (if has flags SIGN then
        if sint num < 0 then (of_char CHR ''-'', - num, short (w - 1))
        else if has flags PLUS then (of_char CHR ''+'', num, short (w - 1))
        else if has flags SPACE then (of_char CHR '' '', num, short (w - 1))
        else (0, num, w)
      else (0, num, w))"

definition number_prefix :: "bool \<Rightarrow> u8 \<Rightarrow> bool \<Rightarrow> u8 \<Rightarrow> u8 list" where
  "number_prefix need_pfx base is_zero locase =
     (if need_pfx then
        (if base = 16 \<or> \<not> is_zero then [of_char CHR ''0''] else []) @
        (if base = 16 then [of_char CHR ''X'' OR locase] else [])
      else [])"

definition number :: "u64 \<Rightarrow> printf_spec \<Rightarrow> u8 list" where
  "number num spec =
     (let locase = ps_flags spec AND SMALL;
          flags = (if has (ps_flags spec) LEFT then ps_flags spec AND NOT ZEROPAD else ps_flags spec);
          base = ps_base spec;
          (sign, num, w) = number_sign flags num (field_width spec);
          is_zero = (num = 0);
          need_pfx = (has flags SPECIAL \<and> base \<noteq> 10);
          w = (if need_pfx then if base = 16 then short (w - 2) else if \<not> is_zero then short (w - 1) else w else w);
          (tmp, i) = number_digits base locase num;
          prec = (if int i > precision spec then int i else precision spec);
          w = short (w - prec);
          (lead, w) = (if \<not> has flags (ZEROPAD OR LEFT) then pad_ge w else (0, w));
          (mid, w) = (if \<not> has flags LEFT then pad_ge w else (0, w)) in
      replicate lead (of_char CHR '' '') @
      (if sign \<noteq> 0 then [sign] else []) @
      number_prefix need_pfx base is_zero locase @
      replicate mid (of_char CHR '' '' + (flags AND ZEROPAD)) @
      replicate (zero_loop i prec) (of_char CHR ''0'') @
      rev (take i tmp) @
      replicate (fst (pad_ge w)) (of_char CHR '' ''))"

text \<open>A string argument: an address in memory or a literal of the program.\<close>

datatype strsrc = At ulong | Lit "u8 list"

definition str8 :: "string \<Rightarrow> u8 list" where
  "str8 s = map of_char s"

fun src_len :: "mem \<Rightarrow> strsrc \<Rightarrow> ulong \<Rightarrow> nat" where
  "src_len m (At a) count = unat (strnlen m a count)"
| "src_len m (Lit cs) count = min (length cs) (unat count)"

fun src_char :: "mem \<Rightarrow> strsrc \<Rightarrow> nat \<Rightarrow> u8" where
  "src_char m (At a) i = m (a + of_nat i)"
| "src_char m (Lit cs) i = cs ! i"

text \<open>Strings are shorter than 2 GiB, so their length is a non-negative \<^verbatim>\<open>int\<close>.\<close>

definition string_out :: "mem \<Rightarrow> strsrc \<Rightarrow> printf_spec \<Rightarrow> u8 list" where
  "string_out m src spec =
     (let s = (case src of At a \<Rightarrow> if a < PAGE_SIZE then Lit (str8 ''(null)'') else At a | Lit cs \<Rightarrow> Lit cs);
          len = src_len m s (of_int (precision spec));
          (lead, w) = (if \<not> has (ps_flags spec) LEFT then pad_below len (field_width spec) else (0, field_width spec)) in
      replicate lead (of_char CHR '' '') @
      map (src_char m s) [0..<len] @
      replicate (fst (pad_below len w)) (of_char CHR '' ''))"

section \<open>Pointers\<close>

definition io_spec :: printf_spec where
  "io_spec = zero_spec\<lparr>ps_base := 16, field_width := 6, precision := - 1, ps_flags := SPECIAL OR SMALL OR ZEROPAD\<rparr>"

definition mem_spec :: printf_spec where
  "mem_spec = zero_spec\<lparr>ps_base := 16, field_width := 10, precision := - 1, ps_flags := SPECIAL OR SMALL OR ZEROPAD\<rparr>"

definition bus_spec :: printf_spec where
  "bus_spec = zero_spec\<lparr>ps_base := 16, field_width := 2, precision := - 1, ps_flags := SMALL OR ZEROPAD\<rparr>"

definition dec_spec :: printf_spec where
  "dec_spec = zero_spec\<lparr>ps_base := 10, precision := - 1, ps_flags := 0\<rparr>"

definition str_spec :: printf_spec where
  "str_spec = zero_spec\<lparr>field_width := - 1, precision := 10, ps_flags := LEFT\<rparr>"

definition flag_spec :: printf_spec where
  "flag_spec = zero_spec\<lparr>ps_base := 16, precision := - 1, ps_flags := SPECIAL OR SMALL\<rparr>"

definition lit :: "string \<Rightarrow> u8 list" where
  "lit s = string_out (\<lambda>_. 0) (Lit (str8 s)) str_spec"

definition rflag :: "resource \<Rightarrow> ulong \<Rightarrow> bool" where
  "rflag res f \<longleftrightarrow> res_flags res AND f \<noteq> 0"

text \<open>The content of the local array \<^verbatim>\<open>sym\<close> before its terminator.\<close>

definition resource_sym :: "resource \<Rightarrow> bool \<Rightarrow> u8 list" where
  "resource_sym res decode0 =
     (let (kind, spec, decode) =
            (if rflag res IORESOURCE_IO then (''io  '', io_spec, decode0)
             else if rflag res IORESOURCE_MEM then (''mem '', mem_spec, decode0)
             else if rflag res IORESOURCE_IRQ then (''irq '', dec_spec, decode0)
             else if rflag res IORESOURCE_DMA then (''dma '', dec_spec, decode0)
             else if rflag res IORESOURCE_BUS then (''bus '', bus_spec, decode0)
             else (''??? '', mem_spec, False)) in
      [of_char CHR ''[''] @ lit kind @
      (if decode \<and> rflag res IORESOURCE_UNSET
       then lit ''size '' @ number (ucast (resource_size res)) spec
       else number (ucast (res_start res)) spec @
         (if res_start res \<noteq> res_end res then [of_char CHR ''-''] @ number (ucast (res_end res)) spec else [])) @
      (if decode then
         (if rflag res IORESOURCE_MEM_64 then lit '' 64bit'' else []) @
         (if rflag res IORESOURCE_PREFETCH then lit '' pref'' else []) @
         (if rflag res IORESOURCE_WINDOW then lit '' window'' else []) @
         (if rflag res IORESOURCE_DISABLED then lit '' disabled'' else [])
       else lit '' flags '' @ number (ucast (res_flags res)) flag_spec) @
      [of_char CHR '']''])"

definition resource_string :: "mem \<Rightarrow> resource \<Rightarrow> printf_spec \<Rightarrow> u8 list \<Rightarrow> u8 list" where
  "resource_string m res spec fmt =
     string_out m (Lit (resource_sym res (cur fmt = of_char CHR ''R''))) spec"

definition hex_string :: "mem \<Rightarrow> ulong \<Rightarrow> printf_spec \<Rightarrow> u8 list \<Rightarrow> u8 list" where
  "hex_string m addr spec fmt =
     (if field_width spec = 0 then []
      else (let c = cur (tl fmt);
                separator = (if c = of_char CHR ''C'' then of_char CHR '':'' else if c = of_char CHR ''D'' then of_char CHR ''-''
                             else if c = of_char CHR ''N'' then 0 else of_char CHR '' '');
                len = (if field_width spec > 0 then nat (min (field_width spec) 64) else 1) in
            concat (map (\<lambda>i. [hex_asc_hi (m (addr + of_nat i)), hex_asc_lo (m (addr + of_nat i))] @
              (if separator \<noteq> 0 \<and> i \<noteq> len - 1 then [separator] else [])) [0..<len])))"

text \<open>A 32-bit load; \<^verbatim>\<open>dma_addr_t\<close> and \<^verbatim>\<open>phys_addr_t\<close> are both 32 bits wide.\<close>

definition load32 :: "mem \<Rightarrow> ulong \<Rightarrow> u32" where
  "load32 m a = ucast (m a) OR push_bit 8 (ucast (m (a + 1))) OR push_bit 16 (ucast (m (a + 2))) OR push_bit 24 (ucast (m (a + 3)))"

definition address_val :: "mem \<Rightarrow> ulong \<Rightarrow> printf_spec \<Rightarrow> u8 list \<Rightarrow> u8 list" where
  "address_val m addr spec fmt =
     number (ucast (load32 m addr))
       (spec\<lparr>ps_flags := ps_flags spec OR (SPECIAL OR SMALL OR ZEROPAD), ps_base := 16, field_width := 4 * 2 + 2\<rparr>)"

definition pointer :: "(ulong \<Rightarrow> resource) \<Rightarrow> mem \<Rightarrow> u8 list \<Rightarrow> ulong \<Rightarrow> printf_spec \<Rightarrow> u8 list" where
  "pointer rh m fmt ptr spec =
     (if ptr = 0 \<and> cur fmt \<noteq> of_char CHR ''K'' then
        string_out m (Lit (str8 ''(null)'')) (if field_width spec = - 1 then spec\<lparr>field_width := 8\<rparr> else spec)
      else if cur fmt = of_char CHR ''R'' \<or> cur fmt = of_char CHR ''r'' then resource_string m (rh ptr) spec fmt
      else if cur fmt = of_char CHR ''h'' then hex_string m ptr spec fmt
      else if cur fmt = of_char CHR ''a'' then address_val m ptr spec fmt
      else (let spec = spec\<lparr>ps_flags := ps_flags spec OR SMALL\<rparr>;
                spec = (if field_width spec = - 1 then spec\<lparr>field_width := 8, ps_flags := ps_flags spec OR ZEROPAD\<rparr> else spec) in
            number (ucast ptr) (spec\<lparr>ps_base := 16\<rparr>)))"

section \<open>Decoding a format\<close>

text \<open>
  The parts of \<^verbatim>\<open>format_decode\<close> from its labels \<^verbatim>\<open>modifier\<close> and \<^verbatim>\<open>precision\<close> on.  They return the rest
  of the format; the code returns how much was read.
\<close>

definition decode_length :: "u8 list \<Rightarrow> u8 \<times> u8 list" where
  "decode_length fmt =
     (if cur fmt = of_char CHR ''h'' \<or> fast_tolower (cur fmt) = of_char CHR ''l'' \<or>
         fast_tolower (cur fmt) = of_char CHR ''z'' \<or> cur fmt = of_char CHR ''t'' then
        (let modifier = cur fmt; fmt = tl fmt in
         if modifier = cur fmt then
           if modifier = of_char CHR ''l'' then (of_char CHR ''L'', tl fmt)
           else if modifier = of_char CHR ''h'' then (of_char CHR ''H'', tl fmt)
           else (modifier, fmt)
         else (modifier, fmt))
      else (- 1, fmt))"

definition int_type :: "u8 \<Rightarrow> u8 \<Rightarrow> format_type" where
  "int_type modifier flags =
     (if modifier = of_char CHR ''L'' then FORMAT_TYPE_LONG_LONG
      else if modifier = of_char CHR ''l'' then (if has flags SIGN then FORMAT_TYPE_LONG else FORMAT_TYPE_ULONG)
      else if fast_tolower modifier = of_char CHR ''z'' then FORMAT_TYPE_SIZE_T
      else if modifier = of_char CHR ''t'' then FORMAT_TYPE_PTRDIFF
      else if modifier = of_char CHR ''H'' then (if has flags SIGN then FORMAT_TYPE_BYTE else FORMAT_TYPE_UBYTE)
      else if modifier = of_char CHR ''h'' then (if has flags SIGN then FORMAT_TYPE_SHORT else FORMAT_TYPE_USHORT)
      else (if has flags SIGN then FORMAT_TYPE_INT else FORMAT_TYPE_UINT))"

definition decode_integer :: "u8 list \<Rightarrow> printf_spec \<Rightarrow> u8 list \<times> printf_spec" where
  "decode_integer fmt spec = (tl fmt, spec\<lparr>ps_type := int_type (ps_modifier spec) (ps_flags spec)\<rparr>)"

definition decode_modifier :: "u8 list \<Rightarrow> printf_spec \<Rightarrow> u8 list \<times> printf_spec" where
  "decode_modifier fmt spec =
     (let (modifier, fmt) = decode_length fmt;
          spec = spec\<lparr>ps_modifier := modifier, ps_base := 10\<rparr>;
          c = cur fmt in
      if c = of_char CHR ''c'' then (tl fmt, spec\<lparr>ps_type := FORMAT_TYPE_CHAR\<rparr>)
      else if c = of_char CHR ''s'' then (tl fmt, spec\<lparr>ps_type := FORMAT_TYPE_STR\<rparr>)
      else if c = of_char CHR ''p'' then (tl fmt, spec\<lparr>ps_type := FORMAT_TYPE_PTR\<rparr>)
      else if c = of_char CHR ''%'' then (tl fmt, spec\<lparr>ps_type := FORMAT_TYPE_PERCENT_CHAR\<rparr>)
      else if c = of_char CHR ''d'' \<or> c = of_char CHR ''i'' then
        decode_integer fmt (spec\<lparr>ps_flags := ps_flags spec OR SIGN\<rparr>)
      else if c = of_char CHR ''u'' then decode_integer fmt spec
      else if c = of_char CHR ''x'' then decode_integer fmt (spec\<lparr>ps_flags := ps_flags spec OR SMALL, ps_base := 16\<rparr>)
      else if c = of_char CHR ''X'' then decode_integer fmt (spec\<lparr>ps_base := 16\<rparr>)
      else if c = of_char CHR ''o'' then decode_integer fmt (spec\<lparr>ps_base := 8\<rparr>)
      else (fmt, spec\<lparr>ps_type := FORMAT_TYPE_INVALID\<rparr>))"

definition decode_precision :: "u8 list \<Rightarrow> printf_spec \<Rightarrow> u8 list \<times> printf_spec" where
  "decode_precision fmt spec =
     (let spec = spec\<lparr>precision := - 1\<rparr> in
      if cur fmt = of_char CHR ''.'' then
        (let fmt = tl fmt in
         if isdigit (cur fmt) then
           (case skip_atoi fmt of (i, fmt) \<Rightarrow>
              decode_modifier fmt (spec\<lparr>precision := (if short i < 0 then 0 else short i)\<rparr>))
         else if cur fmt = of_char CHR ''*'' then (tl fmt, spec\<lparr>ps_type := FORMAT_TYPE_PRECISION\<rparr>)
         else decode_modifier fmt spec)
      else decode_modifier fmt spec)"

text \<open>The flag characters after the percent sign.\<close>

fun decode_flags :: "u8 \<Rightarrow> u8 list \<Rightarrow> u8 \<times> u8 list" where
  "decode_flags flags [] = (flags, [])"
| "decode_flags flags (c # fmt) =
     (if c = of_char CHR ''-'' then decode_flags (flags OR LEFT) fmt
      else if c = of_char CHR ''+'' then decode_flags (flags OR PLUS) fmt
      else if c = of_char CHR '' '' then decode_flags (flags OR SPACE) fmt
      else if c = of_char CHR ''#'' then decode_flags (flags OR SPECIAL) fmt
      else if c = of_char CHR ''0'' then decode_flags (flags OR ZEROPAD) fmt
      else (flags, c # fmt))"

definition decode_rest :: "u8 list \<Rightarrow> printf_spec \<Rightarrow> u8 list \<times> printf_spec" where
  "decode_rest fmt spec =
     (if ps_type spec = FORMAT_TYPE_WIDTH then
        decode_precision fmt
          ((if field_width spec < 0
            then spec\<lparr>field_width := short (- field_width spec), ps_flags := ps_flags spec OR LEFT\<rparr> else spec)
           \<lparr>ps_type := FORMAT_TYPE_NONE\<rparr>)
      else if ps_type spec = FORMAT_TYPE_PRECISION then
        decode_modifier fmt ((if precision spec < 0 then spec\<lparr>precision := 0\<rparr> else spec)\<lparr>ps_type := FORMAT_TYPE_NONE\<rparr>)
      else
        (let spec = spec\<lparr>ps_type := FORMAT_TYPE_NONE\<rparr>;
             rest = dropWhile (\<lambda>c. c \<noteq> of_char CHR ''%'') fmt in
         if rest \<noteq> fmt \<or> rest = [] then (rest, spec)
         else (case decode_flags 0 (tl rest) of (flags, fmt) \<Rightarrow>
           (let spec = spec\<lparr>ps_flags := flags, field_width := - 1\<rparr> in
            if isdigit (cur fmt) then
              (case skip_atoi fmt of (i, fmt) \<Rightarrow> decode_precision fmt (spec\<lparr>field_width := short i\<rparr>))
            else if cur fmt = of_char CHR ''*'' then (tl fmt, spec\<lparr>ps_type := FORMAT_TYPE_WIDTH\<rparr>)
            else decode_precision fmt spec))))"

definition format_decode :: "u8 list \<Rightarrow> printf_spec \<Rightarrow> nat \<times> printf_spec" where
  "format_decode fmt spec = (case decode_rest fmt spec of (rest, spec) \<Rightarrow> (length fmt - length rest, spec))"

text \<open>Each call makes progress: it reads something or ends a width or precision argument.\<close>

definition awaits_arg :: "printf_spec \<Rightarrow> bool" where
  "awaits_arg spec \<longleftrightarrow> ps_type spec = FORMAT_TYPE_WIDTH \<or> ps_type spec = FORMAT_TYPE_PRECISION"

lemma decode_length_le: "decode_length fmt = (md, rest) \<Longrightarrow> length rest \<le> length fmt"
  by (auto simp: decode_length_def Let_def split: if_splits)

lemma int_type_args: "int_type md fl \<noteq> FORMAT_TYPE_WIDTH" "int_type md fl \<noteq> FORMAT_TYPE_PRECISION"
  by (simp_all add: int_type_def)

lemma decode_modifier_le:
  assumes "decode_modifier fmt spec = (rest, spec')"
  shows "length rest \<le> length fmt \<and> \<not> awaits_arg spec'"
proof -
  obtain md f where f: "decode_length fmt = (md, f)" by fastforce
  have "length rest \<le> length f \<and> \<not> awaits_arg spec'"
    using assms int_type_args by (auto simp: decode_modifier_def f Let_def awaits_arg_def decode_integer_def split: if_splits)
  with decode_length_le [OF f] show ?thesis by simp
qed

lemma skip_atoi_le: "skip_atoi_loop i s = (j, t) \<Longrightarrow> length t \<le> length s"
  by (induction i s rule: skip_atoi_loop.induct) (auto simp: Let_def split: if_splits)

lemma cur_nonempty: "cur fmt \<noteq> 0 \<Longrightarrow> fmt \<noteq> []"
  by (auto simp: cur_def)

lemma decode_precision_le:
  assumes "decode_precision fmt spec = (rest, spec')"
  shows "length rest \<le> length fmt \<and> (awaits_arg spec' \<longrightarrow> length rest < length fmt)"
proof (cases "cur fmt = of_char CHR ''.''")
  case True
  then have ne: "fmt \<noteq> []" by (intro cur_nonempty) simp
  then have lt: "length (tl fmt) < length fmt" by simp
  show ?thesis
  proof (cases "isdigit (cur (tl fmt))")
    case dig: True
    obtain j t where t: "skip_atoi_loop 0 (tl fmt) = (j, t)" by fastforce
    with assms True dig decode_modifier_le skip_atoi_le [OF t] lt show ?thesis
      by (fastforce simp: decode_precision_def skip_atoi_def Let_def)
  next
    case False
    with assms True lt decode_modifier_le [of "tl fmt"] show ?thesis
      by (fastforce simp: decode_precision_def Let_def split: if_splits)
  qed
next
  case False
  with assms decode_modifier_le show ?thesis by (auto simp: decode_precision_def)
qed

lemma decode_flags_le: "decode_flags fl fmt = (fl', rest) \<Longrightarrow> length rest \<le> length fmt"
  by (induction fl fmt rule: decode_flags.induct) (auto split: if_splits)

lemma dropWhile_shorter: "dropWhile P xs \<noteq> xs \<Longrightarrow> length (dropWhile P xs) < length xs"
proof (cases xs)
  case (Cons x ys)
  assume "dropWhile P xs \<noteq> xs"
  with Cons have "P x" by (auto split: if_splits)
  with Cons show ?thesis by (simp add: le_imp_less_Suc length_dropWhile_le)
qed simp

lemma decode_rest_progress:
  assumes "decode_rest fmt spec = (rest, spec')" "fmt \<noteq> []"
  shows "length rest \<le> length fmt \<and> (length rest < length fmt \<or> awaits_arg spec \<and> \<not> awaits_arg spec')"
proof -
  consider (w) "ps_type spec = FORMAT_TYPE_WIDTH" | (p) "ps_type spec = FORMAT_TYPE_PRECISION"
    | (n) "\<not> awaits_arg spec" by (auto simp: awaits_arg_def)
  then show ?thesis
  proof cases
    case w
    with assms(1) decode_precision_le show ?thesis by (auto simp: decode_rest_def awaits_arg_def)
  next
    case p
    with assms(1) decode_modifier_le show ?thesis by (auto simp: decode_rest_def awaits_arg_def)
  next
    case n
    then have ne: "ps_type spec \<noteq> FORMAT_TYPE_WIDTH" "ps_type spec \<noteq> FORMAT_TYPE_PRECISION" by (auto simp: awaits_arg_def)
    let ?d = "dropWhile (\<lambda>c. c \<noteq> of_char CHR ''%'') fmt"
    show ?thesis
    proof (cases "?d \<noteq> fmt \<or> ?d = []")
      case True
      then have "length ?d < length fmt"
        by (metis assms(2) dropWhile_shorter)
      moreover have "decode_rest fmt spec = (?d, spec\<lparr>ps_type := FORMAT_TYPE_NONE\<rparr>)"
        by (simp only: decode_rest_def Let_def ne if_False if_True True)
      ultimately show ?thesis using assms(1) by simp
    next
      case False
      obtain fl f where f: "decode_flags 0 (tl fmt) = (fl, f)" by fastforce
      have lt: "length f < length fmt" using decode_flags_le [OF f] assms(2) by (cases fmt) auto
      obtain j t where t: "skip_atoi_loop 0 f = (j, t)" by fastforce
      from False n assms(1) f t lt skip_atoi_le [OF t] decode_precision_le show ?thesis
        by (fastforce simp: decode_rest_def awaits_arg_def skip_atoi_def Let_def split: if_splits)
    qed
  qed
qed

lemma decode_rest_length:
  "fmt \<noteq> [] \<Longrightarrow> format_decode fmt spec = (n, spec') \<Longrightarrow>
   length (drop n fmt) < length fmt \<or> length (drop n fmt) = length fmt \<and> awaits_arg spec \<and> \<not> awaits_arg spec'"
  using decode_rest_progress [of fmt spec] by (fastforce simp: format_decode_def split: prod.splits)

section \<open>The main loop\<close>

definition va_int :: "u32 list \<Rightarrow> (u32 \<times> u32 list) kres" where
  "va_int args = (case args of [] \<Rightarrow> Inl MissingArg | v # vs \<Rightarrow> Inr (v, vs))"

definition va_long_long :: "u32 list \<Rightarrow> (u64 \<times> u32 list) kres" where
  "va_long_long args = kbind (va_int args) (\<lambda>(lo, args). kbind (va_int args) (\<lambda>(hi, args).
     Inr (ucast lo OR push_bit 32 (ucast hi), args)))"

text \<open>The argument of an integer conversion, widened to 64 bits.\<close>

definition va_num :: "printf_spec \<Rightarrow> u32 list \<Rightarrow> (u64 \<times> u32 list) kres" where
  "va_num spec args =
     (if ps_type spec = FORMAT_TYPE_LONG_LONG then va_long_long args
      else kbind (va_int args) (\<lambda>(v, args). Inr (
        (case ps_type spec of
           FORMAT_TYPE_ULONG \<Rightarrow> ucast v
         | FORMAT_TYPE_LONG \<Rightarrow> scast v
         | FORMAT_TYPE_SIZE_T \<Rightarrow> if has (ps_flags spec) SIGN then scast v else ucast v
         | FORMAT_TYPE_PTRDIFF \<Rightarrow> scast v
         | FORMAT_TYPE_UBYTE \<Rightarrow> ucast (ucast v :: u8)
         | FORMAT_TYPE_BYTE \<Rightarrow> scast (ucast v :: u8)
         | FORMAT_TYPE_USHORT \<Rightarrow> ucast (ucast v :: u16)
         | FORMAT_TYPE_SHORT \<Rightarrow> scast (ucast v :: u16)
         | FORMAT_TYPE_INT \<Rightarrow> scast v
         | _ \<Rightarrow> ucast v), args)))"

text \<open>\<^verbatim>\<open>%c\<close>: the text and the width left in the specification.\<close>

definition char_out :: "u32 \<Rightarrow> printf_spec \<Rightarrow> u8 list \<times> printf_spec" where
  "char_out v spec =
     (let (lead, w) = (if \<not> has (ps_flags spec) LEFT then pad_gt (field_width spec) else (0, field_width spec));
          (trail, w) = pad_gt w in
      (replicate lead (of_char CHR '' '') @ [ucast v] @ replicate trail (of_char CHR '' ''), spec\<lparr>field_width := w\<rparr>))"

lemma length_dropWhile_drop: "length (dropWhile P (drop n xs)) \<le> length xs - n"
  using length_dropWhile_le [of P "drop n xs"] by simp

lemma vsn_decreases:
  assumes "fmt \<noteq> []" "(n, spec) = format_decode fmt spec0" "length f \<le> length fmt - n" "awaits_arg spec' \<Longrightarrow> awaits_arg spec"
  shows "((rh, m, f, spec', args'), (rh, m, fmt, spec0, args)) \<in>
    measure (\<lambda>(rh, m, fmt, spec, args). 2 * length fmt + of_bool (awaits_arg spec))"
  using decode_rest_length [OF assms(1), of spec0 n spec] assms by auto

lemma char_out_type: "(t, spec') = char_out v spec \<Longrightarrow> ps_type spec' = ps_type spec"
  by (auto simp: char_out_def split: prod.splits)

function vsn_text :: "(ulong \<Rightarrow> resource) \<Rightarrow> mem \<Rightarrow> u8 list \<Rightarrow> printf_spec \<Rightarrow> u32 list \<Rightarrow> u8 list kres" where
  "vsn_text rh m fmt spec0 args =
     (if fmt = [] then Inr []
      else (case format_decode fmt spec0 of (n, spec) \<Rightarrow>
        (case ps_type spec of
           FORMAT_TYPE_NONE \<Rightarrow> kbind (vsn_text rh m (drop n fmt) spec args) (\<lambda>t. Inr (take n fmt @ t))
         | FORMAT_TYPE_WIDTH \<Rightarrow> kbind (va_int args) (\<lambda>(v, args).
             vsn_text rh m (drop n fmt) (spec\<lparr>field_width := short (sint v)\<rparr>) args)
         | FORMAT_TYPE_PRECISION \<Rightarrow> kbind (va_int args) (\<lambda>(v, args).
             vsn_text rh m (drop n fmt) (spec\<lparr>precision := short (sint v)\<rparr>) args)
         | FORMAT_TYPE_CHAR \<Rightarrow> kbind (va_int args) (\<lambda>(v, args). case char_out v spec of (text, spec) \<Rightarrow>
             kbind (vsn_text rh m (drop n fmt) spec args) (\<lambda>t. Inr (text @ t)))
         | FORMAT_TYPE_STR \<Rightarrow> kbind (va_int args) (\<lambda>(v, args).
             kbind (vsn_text rh m (drop n fmt) spec args) (\<lambda>t. Inr (string_out m (At v) spec @ t)))
         | FORMAT_TYPE_PTR \<Rightarrow> kbind (va_int args) (\<lambda>(v, args).
             kbind (vsn_text rh m (dropWhile isalnum (drop n fmt)) spec args) (\<lambda>t.
               Inr (pointer rh m (drop n fmt) v spec @ t)))
         | FORMAT_TYPE_PERCENT_CHAR \<Rightarrow> kbind (vsn_text rh m (drop n fmt) spec args) (\<lambda>t. Inr (of_char CHR ''%'' # t))
         | FORMAT_TYPE_INVALID \<Rightarrow> kbind (vsn_text rh m (drop n fmt) spec args) (\<lambda>t. Inr (of_char CHR ''%'' # t))
         | _ \<Rightarrow> kbind (va_num spec args) (\<lambda>(num, args).
             kbind (vsn_text rh m (drop n fmt) spec args) (\<lambda>t. Inr (number num spec @ t))))))"
  by pat_completeness auto

termination
proof (relation "measure (\<lambda>(rh, m, fmt, spec, args). 2 * length fmt + of_bool (awaits_arg spec))", goal_cases)
  case 1
  show ?case by simp
qed (rule vsn_decreases, assumption, assumption, (simp add: length_dropWhile_drop; fail),
    (simp add: awaits_arg_def char_out_type; fail))+

declare vsn_text.simps [simp del]

section \<open>The output buffer\<close>

primrec put :: "mem \<Rightarrow> ulong \<Rightarrow> ulong \<Rightarrow> u8 list \<Rightarrow> mem \<times> ulong" where
  "put m end_ptr buf [] = (m, buf)"
| "put m end_ptr buf (c # cs) = put (if buf < end_ptr then m(buf := c) else m) end_ptr (buf + 1) cs"

definition INT_MAX :: ulong where "INT_MAX = 0x7fffffff"

definition vsnprintf :: "(ulong \<Rightarrow> resource) \<Rightarrow> mem \<Rightarrow> ulong \<Rightarrow> ulong \<Rightarrow> u8 list \<Rightarrow> u32 list \<Rightarrow> (int \<times> mem) kres" where
  "vsnprintf rh m buf sz fmt args =
     (if sz > INT_MAX then Inr (0, m)
      else (let (end_ptr, sz) = (if buf + sz < buf then (- 1, - 1 - buf) else (buf + sz, sz)) in
        kbind (vsn_text rh m fmt zero_spec args) (\<lambda>text.
          (let (m, str) = put m end_ptr buf text;
               m = (if sz > 0 then if str < end_ptr then m(str := 0) else m(end_ptr - 1 := 0) else m) in
           Inr (sint (str - buf), m)))))"

definition vscnprintf :: "(ulong \<Rightarrow> resource) \<Rightarrow> mem \<Rightarrow> ulong \<Rightarrow> ulong \<Rightarrow> u8 list \<Rightarrow> u32 list \<Rightarrow> (int \<times> mem) kres" where
  "vscnprintf rh m buf sz fmt args =
     kbind (vsnprintf rh m buf sz fmt args) (\<lambda>(i, m).
       Inr (if (of_int i :: ulong) < sz then i else if sz \<noteq> 0 then sint (sz - 1) else 0, m))"

definition snprintf :: "(ulong \<Rightarrow> resource) \<Rightarrow> mem \<Rightarrow> ulong \<Rightarrow> ulong \<Rightarrow> u8 list \<Rightarrow> u32 list \<Rightarrow> (int \<times> mem) kres" where
  "snprintf rh m buf sz fmt args = vsnprintf rh m buf sz fmt args"

definition scnprintf :: "(ulong \<Rightarrow> resource) \<Rightarrow> mem \<Rightarrow> ulong \<Rightarrow> ulong \<Rightarrow> u8 list \<Rightarrow> u32 list \<Rightarrow> (int \<times> mem) kres" where
  "scnprintf rh m buf sz fmt args = vscnprintf rh m buf sz fmt args"

definition vsprintf :: "(ulong \<Rightarrow> resource) \<Rightarrow> mem \<Rightarrow> ulong \<Rightarrow> u8 list \<Rightarrow> u32 list \<Rightarrow> (int \<times> mem) kres" where
  "vsprintf rh m buf fmt args = vsnprintf rh m buf INT_MAX fmt args"

definition sprintf :: "(ulong \<Rightarrow> resource) \<Rightarrow> mem \<Rightarrow> ulong \<Rightarrow> u8 list \<Rightarrow> u32 list \<Rightarrow> (int \<times> mem) kres" where
  "sprintf rh m buf fmt args = vsnprintf rh m buf INT_MAX fmt args"

end
