(* ===== verification/Tty_Core.thy ===== *)
theory Tty_Core
  imports Tty_Ldisc List_Head Vt Vsprintf
begin

text \<open>
  The tty core of \<^verbatim>\<open>drivers/tty/tty_io.c\<close>, the end of \<^verbatim>\<open>console_init\<close> in \<^verbatim>\<open>drivers/tty/vt/vt.c\<close>, which makes the virtual
  terminal a tty driver, and \<^verbatim>\<open>printk\<close> of \<^verbatim>\<open>kernel/printk.c\<close>: from a format to the bytes on the screen.
\<close>

section \<open>State\<close>

record tty_driver =
  drv_name :: string
  drv_flags :: ulong
  drv_type :: u32
  drv_major :: u32
  drv_minor_start :: u32
  drv_num :: u32
  init_termios :: termios
  drv_ops :: "tty_ops_name option"

definition TTY_DRIVER_INSTALLED :: ulong where "TTY_DRIVER_INSTALLED = 1"
definition TTY_DRIVER_RESET_TERMIOS :: ulong where "TTY_DRIVER_RESET_TERMIOS = 2"
definition TTY_DRIVER_REAL_RAW :: ulong where "TTY_DRIVER_REAL_RAW = 4"
definition TTY_DRIVER_TYPE_CONSOLE :: u32 where "TTY_DRIVER_TYPE_CONSOLE = 2"
definition TTY_MAJOR :: u32 where "TTY_MAJOR = 4"

text \<open>
  The variables of the tty layer: \<^verbatim>\<open>tty_table\<close>, the state of the line discipline layer with the object \<^verbatim>\<open>tmp_ldisc\<close>, the
  structure \<^verbatim>\<open>tmp_ldata\<close>, the list of drivers, \<^verbatim>\<open>console_driver\<close>, \<^verbatim>\<open>vc_struct_map\<close> and the console hardware with the
  memory.
\<close>

record tty_sys =
  tty_table :: "tty_struct list"
  sys_ldiscs :: ldisc_state
  sys_ldata :: n_tty_data
  sys_drivers :: list_heap
  sys_console_driver :: tty_driver
  sys_vcs :: "vc_struct list"
  sys_con :: console

text \<open>
  Addresses that the linker chooses: the list head \<^verbatim>\<open>tty_drivers\<close>, the node inside \<^verbatim>\<open>console_driver\<close> and the buffer of
  \<^verbatim>\<open>printk\<close>.
\<close>

record tty_symbols =
  sym_tty_drivers :: ulong
  sym_console_node :: ulong
  sym_KMBUF :: ulong

definition tmp_ldisc :: nat where "tmp_ldisc = 0"

section \<open>Drivers\<close>

definition tty_set_operations :: "tty_driver \<Rightarrow> tty_ops_name \<Rightarrow> tty_driver" where
  "tty_set_operations drv ops = drv\<lparr>drv_ops := Some ops\<rparr>"

text \<open>A driver is given by the address of its list node and its contents; \<open>None\<close> is the null pointer.\<close>

definition tty_register_driver :: "ulong \<Rightarrow> (ulong \<times> tty_driver) option \<Rightarrow> list_heap \<Rightarrow> int \<times> (ulong \<times> tty_driver) option \<times> list_heap" where
  "tty_register_driver head drv h =
     (case drv of
        None \<Rightarrow> (- EINVAL, None, h)
      | Some (node, d) \<Rightarrow>
          (0, Some (node, d\<lparr>drv_flags := drv_flags d OR TTY_DRIVER_INSTALLED\<rparr>), list_add h node head))"

definition tty_unregister_driver :: "(ulong \<times> tty_driver) option \<Rightarrow> list_heap \<Rightarrow> int \<times> list_heap" where
  "tty_unregister_driver drv h = (case drv of None \<Rightarrow> (- EINVAL, h) | Some (node, d) \<Rightarrow> (0, list_del h node))"

text \<open>
  \<^verbatim>\<open>idx\<close> is an index of \<^verbatim>\<open>tty_table\<close>.  The line discipline is opened before \<^verbatim>\<open>flags\<close> is cleared, and \<^verbatim>\<open>driver_data\<close> keeps its
  value.
\<close>

definition alloc_tty_struct :: "ulong \<times> tty_driver \<Rightarrow> nat \<Rightarrow> tty_sys \<Rightarrow> tty_sys" where
  "alloc_tty_struct drv idx sys =
     (let ld = \<lparr>ld_ops = tty_ldisc_N_TTY, ld_tty = idx\<rparr>;
          ls = (sys_ldiscs sys)\<lparr>ldiscs := (ldiscs (sys_ldiscs sys))(tmp_ldisc := Some ld)\<rparr>;
          tty = (tty_table sys ! idx)\<lparr>tty_ldisc := Some tmp_ldisc\<rparr>;
          tty = snd (tty_ldisc_open (\<lambda>p. n_tty_fns) tty ld);
          tty = tty\<lparr>tty_magic := TTY_STRUCT_MAGIC,
                    tty_index := 0,
                    tty_flags := 0,
                    tty_stopped := False,
                    tty_termios := init_termios (snd drv),
                    tty_drv := Some (fst drv),
                    tty_ops := drv_ops (snd drv),
                    tty_write_cnt := int TTY_WRITE_BUF_SIZE\<rparr> in
      sys\<lparr>sys_ldiscs := ls, tty_table := (tty_table sys)[idx := tty]\<rparr>)"

text \<open>The rest of \<^verbatim>\<open>console_init\<close>, behind the initialisation of the first virtual console.\<close>

definition console_init_tty :: "tty_symbols \<Rightarrow> tty_sys \<Rightarrow> tty_sys" where
  "console_init_tty sy sys =
     (let drv = (sys_console_driver sys)
            \<lparr>drv_name := ''tty'', drv_type := TTY_DRIVER_TYPE_CONSOLE, drv_major := TTY_MAJOR, drv_minor_start := 1, drv_num := 1,
             drv_flags := TTY_DRIVER_RESET_TERMIOS OR TTY_DRIVER_REAL_RAW, init_termios := tty_std_termios\<rparr>;
          drv = tty_set_operations drv console_ops in
      case tty_register_driver (sym_tty_drivers sy) (Some (sym_console_node sy, drv)) (sys_drivers sys) of
        (_, None, h) \<Rightarrow> sys
      | (_, Some (node, drv), h) \<Rightarrow>
          (let sys = alloc_tty_struct (node, drv) 0 (sys\<lparr>sys_console_driver := drv, sys_drivers := h\<rparr>) in
           sys\<lparr>tty_table := (tty_table sys)[0 := (tty_table sys ! 0)\<lparr>tty_driver_data := Some 0\<rparr>]\<rparr>))"

definition tty_console_init :: "tty_symbols \<Rightarrow> tty_sys \<Rightarrow> tty_sys kres" where
  "tty_console_init sy sys =
     kbind (console_init (sys_vcs sys) (sys_con sys)) (\<lambda>(err, vcs, c).
       let sys = sys\<lparr>sys_vcs := vcs, sys_con := c\<rparr> in
       Inr (if err \<noteq> 0 then sys else console_init_tty sy sys))"

definition tty_init :: "tty_symbols \<Rightarrow> tty_sys \<Rightarrow> tty_sys kres" where
  "tty_init sy sys = tty_console_init sy (sys\<lparr>sys_ldiscs := tty_ldisc_begin (sys_ldiscs sys)\<rparr>)"

section \<open>Writing\<close>

text \<open>The table \<^verbatim>\<open>console_ops\<close> of \<^verbatim>\<open>vt.c\<close>; the device is the virtual console that \<^verbatim>\<open>driver_data\<close> points to, and the hardware.\<close>

definition con_writer :: "(vc_struct \<times> console) tty_writer" where
  "con_writer tty buf d = con_write buf (fst d) (snd d)"

definition console_tty_ops :: "(vc_struct \<times> console) tty_operations" where
  "console_tty_ops = \<lparr>op_write = Some con_writer,
     op_put_char = Some (\<lambda>tty ch d. con_put_char ch (fst d) (snd d)),
     op_write_room = Some (\<lambda>tty d. con_write_room (tty_stopped tty)),
     op_chars_in_buffer = Some (\<lambda>tty d. con_chars_in_buffer),
     op_flush_chars = None, op_flush_buffer = None\<rparr>"

type_synonym line_writer = "tty_struct \<Rightarrow> u8 list \<Rightarrow> n_tty_data \<Rightarrow> vc_struct \<times> console \<Rightarrow> (int \<times> n_tty_data \<times> vc_struct \<times> console) option"

text \<open>The \<^verbatim>\<open>write\<close> functions of the line disciplines of the kernel: there is one discipline.\<close>

definition ldisc_write :: "nat \<Rightarrow> line_writer option" where
  "ldisc_write p = (if p = tty_ldisc_N_TTY then Some (n_tty_write console_tty_ops con_writer) else None)"

text \<open>\<^verbatim>\<open>copy_from_user\<close> of \<^verbatim>\<open>asm-generic/uaccess.h\<close>: \<^verbatim>\<open>access_ok\<close> is always true, and nothing is left uncopied.\<close>

definition copy_from_user :: "u8 list \<Rightarrow> u8 list \<Rightarrow> int \<times> u8 list" where
  "copy_from_user dst src = (0, src @ drop (length src) dst)"

text \<open>
  \<open>warn\<close> is what the message of \<^verbatim>\<open>WARN\<close> does to the line discipline and the console: it is itself printed through
  \<^verbatim>\<open>printk\<close>.
\<close>

definition do_tty_write ::
  "(n_tty_data \<times> vc_struct \<times> console \<Rightarrow> n_tty_data \<times> vc_struct \<times> console) \<Rightarrow> line_writer \<Rightarrow> tty_struct \<Rightarrow> u8 list \<Rightarrow>
   n_tty_data \<times> vc_struct \<times> console \<Rightarrow> (int \<times> tty_struct \<times> n_tty_data \<times> vc_struct \<times> console) option" where
  "do_tty_write warn write tty buf st =
     (let (buf, st) = (if int (length buf) > tty_write_cnt tty mod 2 ^ 32
                       then (take (nat (tty_write_cnt tty mod 2 ^ 32)) buf, warn st) else (buf, st));
          (r, wb) = copy_from_user (tty_write_buf tty) buf;
          tty = tty\<lparr>tty_write_buf := wb\<rparr> in
      if r \<noteq> 0 then Some (- EFAULT, tty, st)
      else (case write tty (take (length buf) wb) (fst st) (snd st) of
              None \<Rightarrow> None
            | Some (ret, ld, d) \<Rightarrow> Some (ret, tty, ld, d)))"

text \<open>
  With an empty buffer neither the data of the line discipline nor that of the driver is read; otherwise a null pointer to
  one of them is an error.
\<close>

definition tty_write ::
  "(n_tty_data \<times> vc_struct \<times> console \<Rightarrow> n_tty_data \<times> vc_struct \<times> console) \<Rightarrow> u8 list \<Rightarrow> tty_sys \<Rightarrow> (int \<times> tty_sys) kres option" where
  "tty_write warn buf sys =
     (let tty = tty_table sys ! 0 in
      case tty_ops tty of
        None \<Rightarrow> Some (Inl NullDeref)
      | Some console_ops \<Rightarrow>
          if op_write console_tty_ops = None then Some (Inr (- EIO, sys))
          else (case Option.bind (tty_ldisc_ref_wait tty) (ldiscs (sys_ldiscs sys)) of
            None \<Rightarrow> Some (Inl NullDeref)
          | Some ld \<Rightarrow>
              (case ldisc_write (ld_ops ld) of
                 None \<Rightarrow> Some (Inr (- EIO, sys))
               | Some write \<Rightarrow>
                   if tty_ldisc_data tty = None \<or> tty_driver_data tty = None
                   then Some (if buf = [] then Inr (0, sys) else Inl NullDeref)
                   else (let i = the (tty_driver_data tty) in
                         case do_tty_write warn write tty buf (sys_ldata sys, sys_vcs sys ! i, sys_con sys) of
                           None \<Rightarrow> None
                         | Some (ret, tty, ld, vc, c) \<Rightarrow>
                             Some (Inr (ret, sys\<lparr>tty_table := (tty_table sys)[0 := tty], sys_ldata := ld,
                                                sys_vcs := (sys_vcs sys)[i := vc], sys_con := c\<rparr>))))))"

section \<open>printk\<close>

text \<open>The length that \<^verbatim>\<open>vsnprintf\<close> returns, which counts what did not fit, is the number of bytes written to the terminal.\<close>

definition printk ::
  "tty_symbols \<Rightarrow> (ulong \<Rightarrow> resource) \<Rightarrow> (n_tty_data \<times> vc_struct \<times> console \<Rightarrow> n_tty_data \<times> vc_struct \<times> console) \<Rightarrow>
   u8 list \<Rightarrow> u32 list \<Rightarrow> tty_sys \<Rightarrow> (int \<times> tty_sys) kres option" where
  "printk sy rh warn fmt args sys =
     (case vsnprintf rh (con_mem (sys_con sys)) (sym_KMBUF sy) 1024 fmt args of
        Inl e \<Rightarrow> Some (Inl e)
      | Inr (len, m) \<Rightarrow>
          (case tty_write warn (bytes m (sym_KMBUF sy) (nat (len mod 2 ^ 32))) (sys\<lparr>sys_con := (sys_con sys)\<lparr>con_mem := m\<rparr>\<rparr>) of
             None \<Rightarrow> None
           | Some (Inl e) \<Rightarrow> Some (Inl e)
           | Some (Inr (ret, sys)) \<Rightarrow> Some (Inr (len, sys))))"

end
