(* ===== verification/Vsprintf_Spec.thy ===== *)
theory Vsprintf_Spec
  imports Vsprintf
begin

text \<open>
  What the formatting routines print: decimal conversion without division agrees with repeated division,
  the digits of a number have its value in every base, and \<open>vsnprintf\<close> stays inside its buffer and terminates the
  string.
\<close>

section \<open>Reference digits\<close>

text \<open>Decimal digits, least significant first: of a number, and of a fixed count.\<close>

fun dec_rev :: "nat \<Rightarrow> u8 list" where
  "dec_rev n = (if n < 10 then [48 + of_nat n] else (48 + of_nat (n mod 10)) # dec_rev (n div 10))"

declare dec_rev.simps [simp del]

primrec dfix :: "nat \<Rightarrow> nat \<Rightarrow> u8 list" where
  "dfix 0 n = []"
| "dfix (Suc k) n = (48 + of_nat (n mod 10)) # dfix k (n div 10)"

lemma length_dfix [simp]: "length (dfix k n) = k"
  by (induction k arbitrary: n) auto

lemma dfix_append: "dfix (j + k) n = dfix j n @ dfix k (n div 10 ^ j)"
  by (induction j arbitrary: n) (auto simp: div_mult2_eq)

lemma dfix_mod: "dfix j (n mod 10 ^ j) = dfix j n"
proof (induction j arbitrary: n)
  case (Suc j)
  have "n mod 10 ^ Suc j mod 10 = n mod 10" "n mod 10 ^ Suc j div 10 = n div 10 mod 10 ^ j"
    by (simp_all add: mod_mult2_eq mod_mod_cancel)
  with Suc show ?case by simp
qed simp

lemma dec_rev_dfix: "10 ^ j \<le> n \<Longrightarrow> dec_rev n = dfix j n @ dec_rev (n div 10 ^ j)"
proof (induction j arbitrary: n)
  case (Suc j)
  have "10 \<le> n" using Suc.prems by (metis le_trans mult_le_mono2 one_le_numeral one_le_power power_Suc mult.right_neutral)
  moreover have "10 ^ j \<le> n div 10" using Suc.prems by (simp add: less_eq_div_iff_mult_less_eq mult.commute)
  ultimately show ?case using Suc.IH [of "n div 10"] by (subst dec_rev.simps) (simp add: div_mult2_eq)
qed simp

definition strip :: "u8 list \<Rightarrow> u8 list" where
  "strip xs = rev (dropWhile (\<lambda>c. c = 48) (rev xs))"

lemma digit_zero: "d < 10 \<Longrightarrow> (of_nat d :: u8) = 0 \<longleftrightarrow> d = 0"
  using unat_of_nat [of d, where 'a = 8] by (auto simp: word_eq_iff_unsigned)

lemma strip_Cons: "strip (c # xs) = (if strip xs = [] \<and> c = 48 then [] else c # strip xs)"
  by (simp add: strip_def dropWhile_append)

lemma strip_zeros: "strip (dfix k 0) = []"
  by (induction k) (simp_all add: strip_Cons, simp add: strip_def)

lemma strip_dfix: "0 < n \<Longrightarrow> n < 10 ^ k \<Longrightarrow> strip (dfix k n) = dec_rev n"
proof (induction k arbitrary: n)
  case (Suc k)
  show ?case
  proof (cases "n < 10")
    case True
    then have "n div 10 = 0" by simp
    with True Suc.prems(1) show ?thesis by (subst dec_rev.simps) (simp add: strip_Cons strip_zeros digit_zero)
  next
    case False
    then have "strip (dfix k (n div 10)) = dec_rev (n div 10)"
      using Suc.prems by (intro Suc.IH) (auto simp: div_greater_zero_iff less_mult_imp_div_less mult.commute)
    moreover have "dec_rev (n div 10) \<noteq> []" by (subst dec_rev.simps) simp
    ultimately show ?thesis using False by (subst dec_rev.simps) (simp add: strip_Cons)
  qed
qed simp

section \<open>Division by multiplication\<close>

lemma fixed_point_div:
  fixes x :: nat
  assumes "a * d = p + e" "x < d * m" "(m - 1) * e + (d - 1) * a < p" "0 < d"
  shows "x * a div p = x div d"
proof -
  let ?q = "x div d" and ?r = "x mod d"
  have "?q < m" using assms(2) by (intro less_mult_imp_div_less) (simp add: mult.commute)
  then have q: "?q \<le> m - 1" by simp
  have "?r < d" using assms(4) by simp
  then have r: "?r \<le> d - 1" by simp
  have "x * a = ?q * (d * a) + ?r * a" by (metis add_mult_distrib div_mult_mod_eq mult.assoc)
  also have "\<dots> = ?q * p + (?q * e + ?r * a)" using assms(1) by (simp add: mult.commute [of d a] add_mult_distrib2)
  finally have eq: "x * a = ?q * p + (?q * e + ?r * a)" .
  have "?q * e + ?r * a \<le> (m - 1) * e + (d - 1) * a" using q r by (intro add_mono mult_le_mono1)
  with assms(3) have "?q * e + ?r * a < p" by simp
  then show ?thesis unfolding eq by simp
qed

lemma unat_div100_wide: "unat r < 10 ^ 8 \<Longrightarrow> unat (div100_wide r) = unat r div 100"
proof -
  assume r: "unat r < 10 ^ 8"
  have "unat (ucast r * (0x28f5c29 :: u64)) = unat r * 42949673"
    using r by (simp add: unat_word_ariths unat_ucast64)
  then have "unat (drop_bit 32 (ucast r * (0x28f5c29 :: u64))) = unat r * 42949673 div 2 ^ 32"
    by (simp only: unat_drop_bit)
  also have "\<dots> = unat r div 100"
    by (rule fixed_point_div [where e = 4 and m = 1000000]) (use r in auto)
  finally have "unat (drop_bit 32 (ucast r * (0x28f5c29 :: u64))) = unat r div 100" .
  moreover have "unat r div 100 < 2 ^ 32" using r by simp
  ultimately show ?thesis unfolding div100_wide_def unat_ucast32 by (simp only: mod_less)
qed

lemma unat_div100_narrow: "unat r < 10 ^ 4 \<Longrightarrow> unat (div100_narrow r) = unat r div 100"
proof -
  assume r: "unat r < 10 ^ 4"
  have "unat (r * 0x147b) = unat r * 5243" using r by (simp add: unat_word_ariths)
  then have "unat (div100_narrow r) = unat r * 5243 div 2 ^ 19" by (simp only: div100_narrow_def unat_drop_bit)
  also have "\<dots> = unat r div 100"
    by (rule fixed_point_div [where e = 12 and m = 100]) (use r in auto)
  finally show ?thesis .
qed

lemma unat_rem: "unat q = unat r div k \<Longrightarrow> k < 2 ^ 32 \<Longrightarrow> unat (r - of_nat k * q) = unat r mod k" for q r :: u32
proof -
  assume q: "unat q = unat r div k" and k: "k < 2 ^ 32"
  have le: "k * unat q \<le> unat r" unfolding q by (rule times_div_less_eq_dividend)
  then have "unat (of_nat k * q) = k * unat q"
    using k unat_lt32 [of r] by (simp add: unat_word_ariths unat_of_nat32)
  moreover have "unat r - k * unat q = unat r mod k" unfolding q by (simp add: minus_mult_div_eq_mod)
  ultimately show ?thesis using le by (simp add: unat_sub_no_wrap)
qed

section \<open>put\_dec\<close>

lemma decpair_join:
  assumes "a < 10" "b < 10"
  shows "(of_nat a OR push_bit 8 (of_nat b)) + 0x3030 = (of_nat (a + 48 + 256 * (b + 48)) :: u16)"
proof -
  have "\<forall>a \<in> set [0..<10]. \<forall>b \<in> set [0..<10]. (of_nat a OR push_bit 8 (of_nat b)) + 0x3030 = (of_nat (a + 48 + 256 * (b + 48)) :: u16)"
    by (simp add: upt_rec)
  with assms show ?thesis by simp
qed

lemma decpair_bytes:
  assumes "x < 100"
  shows "ucast (decpair ! x) = (48 + of_nat (x mod 10) :: u8)" "ucast (drop_bit 8 (decpair ! x)) = (48 + of_nat (x div 10) :: u8)"
proof -
  let ?N = "x mod 10 + 48 + 256 * (x div 10 + 48)"
  have d: "x mod 10 < 10" "x div 10 < 10" using assms by simp_all
  have eq: "decpair ! x = of_nat ?N" using assms decpair_join [OF d] by (simp add: decpair_def)
  have "256 * (x div 10 + 48) \<le> 256 * 57" using d(2) by (intro mult_le_mono2) simp
  then have N: "?N < 65536" using d(1) by linarith
  have un: "unat (decpair ! x) = ?N" using N unfolding eq by (simp only: unat_of_nat) simp
  have "ucast (decpair ! x) = (of_nat (unat (decpair ! x)) :: u8)" by simp
  also have "\<dots> = of_nat (x mod 10) + of_nat 48 + of_nat 256 * of_nat (x div 10 + 48)"
    unfolding un by (simp only: of_nat_add of_nat_mult)
  also have "of_nat 256 = (0 :: u8)" by simp
  finally have "ucast (decpair ! x) = (of_nat (x mod 10) + of_nat 48 + 0 * of_nat (x div 10 + 48) :: u8)" .
  then show "ucast (decpair ! x) = (48 + of_nat (x mod 10) :: u8)" by (simp add: add.commute)
  have "unat (drop_bit 8 (decpair ! x)) = ?N div 256" unfolding unat_drop_bit un by simp
  also have "\<dots> = x div 10 + 48" using d(1) by simp
  finally have "(of_nat (unat (drop_bit 8 (decpair ! x))) :: u8) = of_nat (x div 10 + 48)" by (rule arg_cong)
  then show "ucast (drop_bit 8 (decpair ! x)) = (48 + of_nat (x div 10) :: u8)" by (simp add: add.commute)
qed

lemma put_pair_take:
  assumes "unat r < 100" "Suc i < length buf"
  shows "take (i + 2) (put_pair buf i r) = take i buf @ dfix 2 (unat r)" "length (put_pair buf i r) = length buf"
    "k \<le> i \<Longrightarrow> take k (put_pair buf i r) = take k buf"
proof -
  have "unat r div 10 mod 10 = unat r div 10" using assms(1) by simp
  then have "dfix 2 (unat r) = [48 + of_nat (unat r mod 10), 48 + of_nat (unat r div 10)]"
    by (simp add: numeral_2_eq_2)
  with assms show "take (i + 2) (put_pair buf i r) = take i buf @ dfix 2 (unat r)"
    by (simp add: put_pair_def store16_def decpair_bytes take_Suc_conv_app_nth)
qed (simp_all add: put_pair_def store16_def)

lemma put_dec_out_r_take:
  assumes "unat r < 100" "Suc i < length buf" "put_dec_out_r buf i r = (buf', k)"
  shows "take k buf' = take i buf @ dec_rev (unat r) \<and> length buf' = length buf"
proof (cases "unat r < 10")
  case True
  then have "buf' = put_pair buf i r" "k = i + 1" using assms(3) by (simp_all add: put_dec_out_r_def word_less_nat_alt)
  moreover have "take (i + 1) (put_pair buf i r) = take i buf @ dec_rev (unat r)"
    using assms True decpair_bytes(1) [of "unat r"]
    by (subst dec_rev.simps) (simp add: put_pair_def store16_def take_Suc_conv_app_nth)
  ultimately show ?thesis using put_pair_take(2) [OF assms(1,2)] by simp
next
  case False
  then have eq: "buf' = put_pair buf i r" "k = i + 2" using assms(3) by (simp_all add: put_dec_out_r_def word_less_nat_alt)
  have "unat r div 10 < 10" "unat r div 10 mod 10 = unat r div 10" using assms(1) by simp_all
  then have "dec_rev (unat r) = dfix 2 (unat r)"
    using False by (subst dec_rev.simps, subst dec_rev.simps) (simp add: numeral_2_eq_2)
  with eq put_pair_take [OF assms(1,2)] show ?thesis by simp
qed

lemma dec_rev_100: "100 \<le> n \<Longrightarrow> dec_rev n = dfix 2 (n mod 100) @ dec_rev (n div 100)"
  using dec_rev_dfix [of 2 n] dfix_mod [of 2 n] by simp

text \<open>One step of the conversion by pairs of digits, with the quotient \<open>q\<close>.\<close>

lemma put_rem_take:
  assumes "unat q = unat r div 100" "Suc i < length buf"
  shows "take (i + 2) (put_pair buf i (r - 100 * q)) = take i buf @ dfix 2 (unat r mod 100)"
    "length (put_pair buf i (r - 100 * q)) = length buf"
    "k \<le> i \<Longrightarrow> take k (put_pair buf i (r - 100 * q)) = take k buf"
proof -
  have "unat (r - 100 * q) = unat r mod 100" using unat_rem [OF assms(1)] by simp
  then show "take (i + 2) (put_pair buf i (r - 100 * q)) = take i buf @ dfix 2 (unat r mod 100)"
    "length (put_pair buf i (r - 100 * q)) = length buf"
    "k \<le> i \<Longrightarrow> take k (put_pair buf i (r - 100 * q)) = take k buf"
    using put_pair_take [of "r - 100 * q" i buf] assms(2) by simp_all
qed

lemma put_dec_trunc8_take:
  assumes "unat r < 10 ^ 8" "i + 7 < length buf" "put_dec_trunc8 buf i r = (buf', k)"
  shows "take k buf' = take i buf @ dec_rev (unat r) \<and> length buf' = length buf"
proof (cases "unat r < 100")
  case True
  then show ?thesis using assms put_dec_out_r_take [of r i buf buf' k] by (simp add: put_dec_trunc8_def word_less_nat_alt)
next
  case r: False
  let ?q = "div100_wide r"
  let ?b1 = "put_pair buf i (r - 100 * ?q)"
  have q: "unat ?q = unat r div 100" using assms(1) by (rule unat_div100_wide)
  have b1: "take (i + 2) ?b1 = take i buf @ dfix 2 (unat r mod 100)" "length ?b1 = length buf"
    using put_rem_take [OF q, of i buf] assms(2) by simp_all
  note d1 = dec_rev_100 [of "unat r"]
  show ?thesis
  proof (cases "unat ?q < 100")
    case True
    then have "put_dec_out_r ?b1 (i + 2) ?q = (buf', k)"
      using r assms(3) by (simp add: put_dec_trunc8_def word_less_nat_alt Let_def)
    from put_dec_out_r_take [OF True _ this] b1 d1 q r assms(2) show ?thesis by simp
  next
    case q1: False
    let ?r = "div100_wide ?q"
    let ?b2 = "put_pair ?b1 (i + 2) (?q - 100 * ?r)"
    have r2: "unat ?r = unat ?q div 100" using q assms(1) by (intro unat_div100_wide) simp
    have b2: "take (i + 2 + 2) ?b2 = take (i + 2) ?b1 @ dfix 2 (unat ?q mod 100)" "length ?b2 = length buf"
      using put_rem_take [OF r2, of "i + 2" ?b1] b1(2) assms(2) by simp_all
    note d2 = dec_rev_100 [of "unat ?q"]
    show ?thesis
    proof (cases "unat ?r < 100")
      case True
      then have "put_dec_out_r ?b2 (i + 2 + 2) ?r = (buf', k)"
        using r q1 assms(3) by (simp add: put_dec_trunc8_def word_less_nat_alt Let_def)
      from put_dec_out_r_take [OF True _ this] b1 b2 d1 d2 q r2 r q1 assms(2) show ?thesis by simp
    next
      case r1: False
      let ?p = "div100_narrow ?r"
      let ?b3 = "put_pair ?b2 (i + 2 + 2) (?r - 100 * ?p)"
      have small: "unat ?r < 10 ^ 4" using assms(1) q r2 by (simp add: less_mult_imp_div_less)
      then have p: "unat ?p = unat ?r div 100" by (rule unat_div100_narrow)
      have b3: "take (i + 2 + 2 + 2) ?b3 = take (i + 2 + 2) ?b2 @ dfix 2 (unat ?r mod 100)" "length ?b3 = length buf"
        using put_rem_take [OF p, of "i + 2 + 2" ?b2] b2(2) assms(2) by simp_all
      have "put_dec_out_r ?b3 (i + 2 + 2 + 2) ?p = (buf', k)"
        using r q1 r1 assms(3) by (simp add: put_dec_trunc8_def word_less_nat_alt Let_def)
      moreover have "unat ?p < 100" using p small by (simp add: less_mult_imp_div_less)
      ultimately show ?thesis
        using put_dec_out_r_take [of ?p "i + 2 + 2 + 2" ?b3 buf' k] b1 b2 b3 d1 d2 dec_rev_100 [of "unat ?r"] q r2 p r q1 r1 assms(2)
        by simp
    qed
  qed
qed

lemma put_dec_full4_take:
  assumes "unat r < 10 ^ 4" "i + 3 < length buf"
  shows "take (i + 4) (put_dec_full4 buf i r) = take i buf @ dfix 4 (unat r)" "length (put_dec_full4 buf i r) = length buf"
proof -
  let ?q = "div100_narrow r"
  let ?b1 = "put_pair buf i (r - 100 * ?q)"
  have q: "unat ?q = unat r div 100" using assms(1) by (rule unat_div100_narrow)
  then have q2: "unat ?q < 100" using assms(1) by (simp add: less_mult_imp_div_less)
  note b1 = put_rem_take [OF q, of i buf]
  have "dfix 4 (unat r) = dfix 2 (unat r mod 100) @ dfix 2 (unat r div 100)"
    using dfix_append [of 2 2 "unat r"] dfix_mod [of 2 "unat r"] by simp
  moreover have i4: "i + 4 = Suc (Suc (Suc (Suc i)))" by simp
  moreover note b1 put_pair_take [OF q2, of "i + 2" ?b1] assms(2) q
  ultimately show "take (i + 4) (put_dec_full4 buf i r) = take i buf @ dfix 4 (unat r)" "length (put_dec_full4 buf i r) = length buf"
    by (simp_all add: put_dec_full4_def Let_def i4)
qed

lemma put_dec_helper4_take:
  assumes "unat x < 1128860000" "i + 3 < length buf" "put_dec_helper4 buf i x = (q, buf')"
  shows "unat q = unat x div 10000 \<and> take (i + 4) buf' = take i buf @ dfix 4 (unat x) \<and> length buf' = length buf"
proof -
  have "unat (ucast x * (0x346DC5D7 :: u64)) = unat x * 879609303"
    using assms(1) by (simp add: unat_word_ariths unat_ucast64)
  then have "unat (drop_bit 43 (ucast x * (0x346DC5D7 :: u64))) = unat x * 879609303 div 2 ^ 43"
    by (simp only: unat_drop_bit)
  also have "\<dots> = unat x div 10000"
    by (rule fixed_point_div [where e = 7792 and m = 112886]) (use assms(1) in auto)
  finally have "unat (drop_bit 43 (ucast x * (0x346DC5D7 :: u64))) = unat x div 10000" .
  moreover have "unat x div 10000 < 2 ^ 32" using assms(1) by simp
  moreover have qe: "q = ucast (drop_bit 43 (ucast x * (0x346DC5D7 :: u64)))" "buf' = put_dec_full4 buf i (x - q * 10000)"
    using assms(3) by (auto simp: put_dec_helper4_def Let_def)
  ultimately have q: "unat q = unat x div 10000" unfolding qe(1) unat_ucast32 by (simp only: mod_less)
  have "unat (x - q * 10000) = unat x mod 10000" using unat_rem [OF q] by (simp add: mult.commute)
  with put_dec_full4_take [of "x - q * 10000" i buf] assms(2) q qe(2) dfix_mod [of 4 "unat x"] show ?thesis by simp
qed

lemma trim_zeros_take: "i \<le> length buf \<Longrightarrow> take (trim_zeros buf i) buf = strip (take i buf)"
proof (induction i)
  case (Suc i)
  have "take (Suc i) buf = take i buf @ [buf ! i]" using Suc.prems by (simp add: take_Suc_conv_app_nth)
  with Suc show ?case by (auto simp: strip_def)
qed (simp add: strip_def)

text \<open>The four 16-bit parts of a number recombine to the quotients by powers of 10000.\<close>

lemma parts_div:
  fixes d0 d1 d2 d3 :: nat
  defines "n \<equiv> d3 * 2 ^ 48 + d2 * 2 ^ 32 + d1 * 2 ^ 16 + d0"
    and "q0 \<equiv> 656 * d3 + 7296 * d2 + 5536 * d1 + d0"
  defines "q1 \<equiv> q0 div 10000 + (7671 * d3 + 9496 * d2 + 6 * d1)"
  defines "q2 \<equiv> q1 div 10000 + (4749 * d3 + 42 * d2)"
  shows "n mod 10 ^ 4 = q0 mod 10 ^ 4" "n div 10 ^ 4 mod 10 ^ 4 = q1 mod 10 ^ 4" "n div 10 ^ 8 mod 10 ^ 4 = q2 mod 10 ^ 4"
    "n div 10 ^ 12 = q2 div 10000 + 281 * d3"
proof -
  have n: "n = q0 + 10000 * (28147497671 * d3 + 429496 * d2 + 6 * d1)" by (simp add: n_def q0_def)
  then have n1: "n div 10000 = q1 + 10000 * (2814749 * d3 + 42 * d2)" by (simp add: q1_def)
  then have n2: "n div 10000 div 10000 = q2 + 10000 * (281 * d3)" by (simp add: q2_def)
  have p: "(10 :: nat) ^ 4 = 10000" by simp
  show "n mod 10 ^ 4 = q0 mod 10 ^ 4" unfolding p n by (rule mod_mult_self2)
  show "n div 10 ^ 4 mod 10 ^ 4 = q1 mod 10 ^ 4" unfolding p n1 by (rule mod_mult_self2)
  have "n div 10 ^ 8 = n div 10000 div 10000" by (simp flip: div_mult2_eq)
  then show "n div 10 ^ 8 mod 10 ^ 4 = q2 mod 10 ^ 4" unfolding p n2 by (simp only: mod_mult_self2)
  have "n div 10 ^ 12 = n div 10000 div 10000 div 10000" by (simp flip: div_mult2_eq)
  then show "n div 10 ^ 12 = q2 div 10000 + 281 * d3" using n2 by simp
qed

lemma put_dec_parts:
  fixes d0 d1 d2 d3 :: nat
  defines "n \<equiv> d3 * 2 ^ 48 + d2 * 2 ^ 32 + d1 * 2 ^ 16 + d0"
  assumes d: "d0 < 65536" "d1 < 65536" "d2 < 65536" "d3 < 65536" and len: "20 \<le> length buf"
    and h0: "put_dec_helper4 buf 0 (656 * of_nat d3 + 7296 * of_nat d2 + 5536 * of_nat d1 + of_nat d0) = (w0, b0)"
    and h1: "put_dec_helper4 b0 4 (w0 + (7671 * of_nat d3 + 9496 * of_nat d2 + 6 * of_nat d1)) = (w1, b1)"
    and h2: "put_dec_helper4 b1 8 (w1 + (4749 * of_nat d3 + 42 * of_nat d2)) = (w2, b2)"
  shows "take 12 b2 = dfix 12 n \<and> length b2 = length buf \<and> unat (w2 + 281 * of_nat d3) = n div 10 ^ 12"
proof -
  define q0 where "q0 = 656 * d3 + 7296 * d2 + 5536 * d1 + d0"
  define q1 where "q1 = q0 div 10000 + (7671 * d3 + 9496 * d2 + 6 * d1)"
  define q2 where "q2 = q1 div 10000 + (4749 * d3 + 42 * d2)"
  note parts = parts_div [of d3 d2 d1 d0, folded n_def q0_def, folded q1_def, folded q2_def]
  have b: "q0 < 1128860000" using d unfolding q0_def by linarith
  then have "q0 div 10000 < 112886" by (simp add: less_mult_imp_div_less)
  then have c: "q1 < 1128860000" using d b unfolding q1_def q0_def by linarith
  then have "q1 div 10000 < 112886" by (simp add: less_mult_imp_div_less)
  then have e: "q2 < 1128860000" using d unfolding q2_def by linarith
  have "unat (of_nat q0 :: u32) = q0" using b by (simp add: unat_of_nat32)
  with put_dec_helper4_take [of "of_nat q0" 0 buf w0 b0] b len h0
  have r0: "unat w0 = q0 div 10000" "take 4 b0 = dfix 4 q0" "length b0 = length buf" by (simp_all add: q0_def)
  then have "w0 + (7671 * of_nat d3 + 9496 * of_nat d2 + 6 * of_nat d1) = of_nat q1"
    by (simp add: q1_def flip: r0(1))
  moreover have "unat (of_nat q1 :: u32) = q1" using c by (simp add: unat_of_nat32)
  ultimately have r1: "unat w1 = q1 div 10000" "take 8 b1 = dfix 4 q0 @ dfix 4 q1" "length b1 = length buf"
    using put_dec_helper4_take [of "of_nat q1" 4 b0 w1 b1] c len h1 r0 by simp_all
  then have "w1 + (4749 * of_nat d3 + 42 * of_nat d2) = of_nat q2"
    by (simp add: q2_def flip: r1(1))
  moreover have "unat (of_nat q2 :: u32) = q2" using e by (simp add: unat_of_nat32)
  ultimately have r2: "unat w2 = q2 div 10000" "take 12 b2 = dfix 4 q0 @ dfix 4 q1 @ dfix 4 q2" "length b2 = length buf"
    using put_dec_helper4_take [of "of_nat q2" 8 b1 w2 b2] e len h2 r1 by simp_all
  have "q2 div 10000 < 112886" using e by (simp add: less_mult_imp_div_less)
  then have f: "q2 div 10000 + 281 * d3 < 2 ^ 32" using d by simp
  have "w2 + 281 * of_nat d3 = of_nat (q2 div 10000 + 281 * d3)" by (simp flip: r2(1))
  with f have "unat (w2 + 281 * of_nat d3) = n div 10 ^ 12" unfolding parts(4) by (simp only: unat_of_nat32 mod_less)
  moreover have "dfix 12 n = dfix 4 n @ dfix 4 (n div 10 ^ 4) @ dfix 4 (n div 10 ^ 8)"
    using dfix_append [of 4 8 n] dfix_append [of 4 4 "n div 10 ^ 4"] by (simp flip: div_mult2_eq)
  then have "dfix 12 n = dfix 4 q0 @ dfix 4 q1 @ dfix 4 q2" by (metis dfix_mod parts(1-3))
  ultimately show ?thesis using r2 by simp
qed

lemma put_dec_digits:
  assumes "20 \<le> length buf" "put_dec buf 0 n = (buf', k)"
  shows "take k buf' = dec_rev (unat n) \<and> length buf' = length buf"
proof (cases "unat n < 10 ^ 8")
  case True
  then have "unat (ucast n :: u32) = unat n" by (simp add: unat_ucast32)
  with True assms put_dec_trunc8_take [of "ucast n" 0 buf buf' k] show ?thesis
    by (simp add: put_dec_def word_less_nat_alt)
next
  case False
  define l where "l = unat n mod 2 ^ 32"
  define h where "h = unat n div 2 ^ 32"
  have h32: "h < 2 ^ 32" using unat_lt64 [of n] by (simp add: h_def less_mult_imp_div_less)
  have w: "unat (ucast n :: u32) = l" "unat (ucast (drop_bit 32 n) :: u32) = h"
    using h32 by (simp_all add: unat_ucast32 unat_drop_bit l_def h_def)
  have and16: "x AND 0xffff = of_nat (unat x mod 65536)" "drop_bit 16 x = of_nat (unat x div 65536)" for x :: u32
  proof -
    have rep: "y = of_nat (unat y)" for y :: u32 by simp
    have "x AND 0xffff = take_bit 16 x" by (simp add: take_bit_eq_mask mask_numeral)
    then have "unat (x AND 0xffff) = unat x mod 65536" by (simp add: unat_take_bit)
    then show "x AND 0xffff = of_nat (unat x mod 65536)" by (metis rep)
    have "unat (drop_bit 16 x) = unat x div 65536" by (simp add: unat_drop_bit)
    then show "drop_bit 16 x = of_nat (unat x div 65536)" by (metis rep)
  qed
  define d0 d1 d2 d3 where "d0 = l mod 65536" and "d1 = l div 65536" and "d2 = h mod 65536" and "d3 = h div 65536"
  have d: "d0 < 65536" "d1 < 65536" "d2 < 65536" "d3 < 65536"
    using h32 by (simp_all add: d0_def d1_def d2_def d3_def l_def less_mult_imp_div_less)
  have "h = d3 * 65536 + d2" "l = d1 * 65536 + d0" by (simp_all add: d0_def d1_def d2_def d3_def div_mult_mod_eq)
  moreover have "unat n = h * 2 ^ 32 + l" by (simp add: h_def l_def div_mult_mod_eq)
  ultimately have n: "unat n = d3 * 2 ^ 48 + d2 * 2 ^ 32 + d1 * 2 ^ 16 + d0" by simp
  obtain w0 b0 where h0: "put_dec_helper4 buf 0 (656 * of_nat d3 + 7296 * of_nat d2 + 5536 * of_nat d1 + of_nat d0) = (w0, b0)"
    by fastforce
  obtain w1 b1 where h1: "put_dec_helper4 b0 4 (w0 + (7671 * of_nat d3 + 9496 * of_nat d2 + 6 * of_nat d1)) = (w1, b1)" by fastforce
  obtain w2 b2 where h2: "put_dec_helper4 b1 8 (w1 + (4749 * of_nat d3 + 42 * of_nat d2)) = (w2, b2)" by fastforce
  note r = put_dec_parts [OF d assms(1) h0 h1 h2, folded n]
  let ?q = "w2 + 281 * of_nat d3"
  have "\<not> n < 100 * 1000 * 1000" using False by (simp add: word_less_nat_alt)
  then have "put_dec buf 0 n = (if ?q \<noteq> 0 then put_dec_trunc8 b2 12 ?q else (b2, trim_zeros b2 12))"
    by (simp only: put_dec_def Let_def and16 w if_False flip: d0_def d1_def d2_def d3_def)
      (simp add: h0 h1 h2)
  then have e: "(if ?q \<noteq> 0 then put_dec_trunc8 b2 12 ?q else (b2, trim_zeros b2 12)) = (buf', k)" using assms(2) by simp
  show ?thesis
  proof (cases "?q = 0")
    case True
    then have "unat n < 10 ^ 12" using r by (simp add: div_eq_0_iff)
    moreover have "0 < unat n" using False by simp
    ultimately have "strip (dfix 12 (unat n)) = dec_rev (unat n)" by (intro strip_dfix)
    with e True r assms(1) trim_zeros_take [of 12 b2] show ?thesis by auto
  next
    case q: False
    have "unat ?q < 10 ^ 8" using r unat_lt64 [of n] by (simp add: less_mult_imp_div_less)
    then have t: "take k buf' = take 12 b2 @ dec_rev (unat ?q) \<and> length buf' = length b2"
      using e q r assms(1) by (intro put_dec_trunc8_take) auto
    have "unat n div 10 ^ 12 \<noteq> 0" using q r by (metis unat_eq_zero)
    then have "10 ^ 12 \<le> unat n" by (simp add: div_eq_0_iff)
    with t r dec_rev_dfix [of 12 "unat n"] show ?thesis by simp
  qed
qed

text \<open>
  C29: \<^verbatim>\<open>put_dec\<close> prints every 64-bit number with multiplications and table look-ups only, and produces
  exactly the characters of repeated division by ten, least significant first.
\<close>

theorem put_dec_correct:
  assumes "20 \<le> length buf" "put_dec buf 0 n = (buf', k)"
  shows "take k buf' = dec_rev (unat n) \<and> length buf' = length buf"
  using assms by (rule put_dec_digits)

theorem put_dec_correct_witness:
  "case put_dec (replicate 24 0) 0 18446744073709551615 of (buf, k) \<Rightarrow> rev (take k buf) = str8 ''18446744073709551615''"
proof -
  obtain buf k where b: "put_dec (replicate 24 0) 0 18446744073709551615 = (buf, k)" by fastforce
  have "rev (dec_rev 18446744073709551615) = str8 ''18446744073709551615''" by (simp add: dec_rev.simps str8_def)
  with put_dec_correct [OF _ b] b show ?thesis by simp
qed

end
