(* ===== verification/Vt_Spec.thy ===== *)
theory Vt_Spec
  imports Vt Vsprintf_Spec
begin

text \<open>
  The terminal on top of the contract of a console driver: every byte sequence keeps the cursor on the screen and the
  window in the video memory; text and control characters change nothing but video memory; printing shows the
  characters; the cursor addressing sequence moves the cursor where it says.
\<close>

section \<open>The invariant\<close>

definition window_ok :: "vga_vars \<Rightarrow> vc_struct \<Rightarrow> bool" where
  "window_ok v vc \<longleftrightarrow>
     8 \<le> unat (vc_cols vc) \<and> 0 < unat (vc_rows vc) \<and>
     unat (vc_row_size vc) = 2 * unat (vc_cols vc) \<and>
     unat (vc_scr_size vc) = 2 * unat (vc_cols vc) * unat (vc_rows vc) \<and>
     unat (vga_vram_base v) + unat (vc_scr_size vc) \<le> unat (vga_vram_end v) \<and>
     unat (vga_vram_base v) \<le> unat (vc_visible_origin vc) \<and>
     unat (vc_scr_end vc) = unat (vc_visible_origin vc) + unat (vc_scr_size vc) \<and>
     unat (vc_scr_end vc) \<le> unat (vga_vram_end v) \<and>
     unat (vga_vram_end v) + unat (vc_row_size vc) < 2 ^ 32"

definition cursor_ok :: "vc_struct \<Rightarrow> bool" where
  "cursor_ok vc \<longleftrightarrow>
     vc_x vc \<le> vc_cols vc \<and> vc_y vc < vc_rows vc \<and> vc_saved_x vc \<le> vc_cols vc \<and> vc_saved_y vc < vc_rows vc \<and>
     length (vc_par vc) = NPAR"

definition vc_ok :: "vga_vars \<Rightarrow> vc_struct \<Rightarrow> bool" where
  "vc_ok v vc \<longleftrightarrow> window_ok v vc \<and> cursor_ok vc"

lemmas vc_ok_defs = vc_ok_def window_ok_def cursor_ok_def

definition same_outside :: "vga_vars \<Rightarrow> console \<Rightarrow> console \<Rightarrow> bool" where
  "same_outside v c c' \<longleftrightarrow>
     (\<forall>a. unat a < unat (vga_vram_base v) \<or> unat (vga_vram_end v) \<le> unat a \<longrightarrow> con_mem c' a = con_mem c a)"

lemma same_outside_refl [simp]: "same_outside v c c"
  by (simp add: same_outside_def)

lemma same_outside_trans: "same_outside v c1 c2 \<Longrightarrow> same_outside v c2 c3 \<Longrightarrow> same_outside v c1 c3"
  by (simp add: same_outside_def)

text \<open>Fields of the console that the invariant does not read.\<close>

lemma vc_ok_update [simp]:
  "vc_ok v (vc\<lparr>vc_pos := p\<rparr>) = vc_ok v vc" "vc_ok v (vc\<lparr>vc_npar := n\<rparr>) = vc_ok v vc" "vc_ok v (vc\<lparr>vc_attr := n\<rparr>) = vc_ok v vc"
  "vc_ok v (vc\<lparr>vc_erased_char := e\<rparr>) = vc_ok v vc" "vc_ok v (vc\<lparr>vc_top := n\<rparr>) = vc_ok v vc" "vc_ok v (vc\<lparr>vc_bottom := n\<rparr>) = vc_ok v vc"
  "vc_ok v (vc\<lparr>vc_bold := n\<rparr>) = vc_ok v vc" "vc_ok v (vc\<lparr>vc_underline := n\<rparr>) = vc_ok v vc" "vc_ok v (vc\<lparr>vc_blink := n\<rparr>) = vc_ok v vc"
  "vc_ok v (vc\<lparr>vc_f_color := n\<rparr>) = vc_ok v vc" "vc_ok v (vc\<lparr>vc_b_color := n\<rparr>) = vc_ok v vc"
  "vc_ok v (vc\<lparr>vc_par := (vc_par vc)[i := n]\<rparr>) = vc_ok v vc"
  by (simp_all add: vc_ok_defs)

section \<open>The part that calls no driver\<close>

lemma vc_ok_bounds:
  assumes "vc_ok v vc"
  shows "0 < vc_cols vc" "vc_x vc \<le> vc_cols vc" "vc_y vc < vc_rows vc"
  using assms by (simp_all add: vc_ok_defs word_less_nat_alt)

lemma gotoxy_ok: "vc_ok v vc \<Longrightarrow> vc_ok v (gotoxy vc x y)"
  by (auto simp: gotoxy_def vc_ok_defs not_le)

lemma par_ok [simp]: "vc_ok v (par_up i vc) = vc_ok v vc" "vc_ok v (par_down i vc) = vc_ok v vc"
  by (simp_all add: par_up_def par_down_def)

lemma csi_r_ok: "vc_ok v vc \<Longrightarrow> vc_ok v (csi_r vc)"
  by (auto simp: csi_r_def Let_def intro!: gotoxy_ok)

lemma csi_move_ok: "vc_ok v vc \<Longrightarrow> csi_move ch vc = Some vc' \<Longrightarrow> vc_ok v vc'"
  by (auto simp: csi_move_def Let_def gotoxy_ok split: if_splits)

lemma set_attribute_ok: "vc_ok v (set_attribute p vc) = vc_ok v vc"
  by (simp add: set_attribute_def)

lemma csi_m_ok: "vc_ok v (csi_m vc) = vc_ok v vc"
proof -
  have "vc_ok v (fold set_attribute ps vc) = vc_ok v vc" for ps
    by (induction ps arbitrary: vc) (simp_all add: set_attribute_ok)
  then show ?thesis by (simp add: csi_m_def update_attribute_def Let_def)
qed

lemma cursor_moves_ok:
  assumes "vc_ok v vc"
  shows "vc_ok v (save_cursor vc)" "vc_ok v (restore_cursor vc)"
  using assms by (simp_all add: vc_ok_defs save_cursor_def restore_cursor_def)

lemma csi_vga:
  "con_vga (csi_J vc c) = con_vga c" "con_vga (csi_K vc c) = con_vga c" "con_vga (csi_L vc c) = con_vga c"
  "con_vga (csi_M vc c) = con_vga c" "con_vga (csi_P vc c) = con_vga c" "con_vga (csi_X vc c) = con_vga c"
  "con_vga (csi_at vc c) = con_vga c"
  by (simp_all add: csi_J_def csi_K_def csi_L_def csi_M_def csi_P_def csi_X_def csi_at_def delete_char_def insert_char_def Let_def)

lemma csi_handle_ok:
  assumes "vc_ok v vc" "csi_handle ch vc c = (vc', c')"
  shows "vc_ok v vc' \<and> con_vga c' = con_vga c"
proof (cases "csi_move ch vc")
  case None
  with assms show ?thesis
    by (auto simp: csi_handle_def csi_vga csi_m_ok csi_r_ok cursor_moves_ok split: if_splits)
next
  case (Some w)
  with assms csi_move_ok show ?thesis by (auto simp: csi_handle_def)
qed

lemma handle_ok:
  assumes "vc_ok v vc" "vt_handle ch vc c npar = (vc', c', npar', st)"
  shows "vc_ok v vc' \<and> con_vga c' = con_vga c \<and> npar' = npar \<and> st = VT_NORMAL"
  using assms csi_handle_ok by (auto simp: vt_handle_def split: prod.splits)

lemma parameter_ok:
  assumes "vc_ok v vc" "npar < NPAR" "vt_parameter ch vc c npar = (vc', c', npar', st)"
  shows "vc_ok v vc' \<and> con_vga c' = con_vga c \<and> npar' < NPAR"
  using assms handle_ok [of v "vc\<lparr>vc_npar := of_nat npar\<rparr>" ch c npar]
  by (auto simp: vt_parameter_def split: if_splits)

lemma question_ok:
  assumes "vc_ok v vc" "vt_question ch vc c = (vc', c', npar', st)"
  shows "vc_ok v vc' \<and> con_vga c' = con_vga c \<and> npar' < NPAR"
proof -
  let ?vc = "vc\<lparr>vc_par := replicate NPAR 0\<rparr>"
  have ok: "vc_ok v ?vc" "0 < NPAR" using assms(1) by (simp_all add: vc_ok_defs NPAR_def)
  show ?thesis
  proof (cases "ch = of_char CHR ''?''")
    case True
    with assms(2) ok show ?thesis by (simp add: vt_question_def Let_def)
  next
    case False
    with assms(2) have "vt_parameter ch ?vc c 0 = (vc', c', npar', st)" by (simp add: vt_question_def Let_def)
    then show ?thesis by (rule parameter_ok [OF ok])
  qed
qed

section \<open>The contract of a driver\<close>

locale console_driver =
  fixes ops :: con_ops
  assumes putc_vga: "con_vga (con_putc ops vc ch y x c) = con_vga c"
    and cursor_vga: "con_vga (con_cursor ops vc mode c) = con_vga c"
    and scroll_vga: "con_vga (snd (con_scroll ops vc dir n c)) = con_vga c"
    and scroll_ok: "vc_ok (con_vga c) vc \<Longrightarrow> vc_ok (con_vga c) (fst (con_scroll ops vc VWIN_DOWN 1 c))"
    and scroll_xy: "vc_x (fst (con_scroll ops vc VWIN_DOWN 1 c)) = vc_x vc"
      "vc_cols (fst (con_scroll ops vc VWIN_DOWN 1 c)) = vc_cols vc"
    and putc_mem: "vc_ok (con_vga c) vc \<Longrightarrow> x < vc_cols vc \<Longrightarrow> y < vc_rows vc \<Longrightarrow>
      same_outside (con_vga c) c (con_putc ops vc ch y x c)"
    and cursor_mem: "con_mem (con_cursor ops vc mode c) = con_mem c"
    and scroll_mem: "vc_ok (con_vga c) vc \<Longrightarrow> same_outside (con_vga c) c (snd (con_scroll ops vc VWIN_DOWN 1 c))"
begin

lemma line_feed_ok:
  assumes "vc_ok (con_vga c) vc" "line_feed ops vc c = (vc', c')"
  shows "vc_ok (con_vga c) vc' \<and> con_vga c' = con_vga c \<and> vc_x vc' = vc_x vc \<and> vc_cols vc' = vc_cols vc \<and>
    same_outside (con_vga c) c c'"
proof (cases "vc_y vc + 1 = vc_rows vc")
  case True
  obtain s d where s: "con_scroll ops vc VWIN_DOWN 1 c = (s, d)" by fastforce
  with True assms(2) have "vc' = s\<lparr>vc_pos := vc_pos s + vc_row_size s\<rparr>" "c' = d"
    by (auto simp: line_feed_def scrdown_def)
  with s assms(1) scroll_ok [of c vc] scroll_xy [of vc c] scroll_vga [of vc VWIN_DOWN 1 c] scroll_mem [of c vc]
  show ?thesis by simp
next
  case False
  have "vc_y vc < vc_rows vc" using assms(1) by (simp add: vc_ok_defs)
  then have "vc_y vc + 1 < vc_rows vc" using False inc_le [of "vc_y vc" "vc_rows vc"] by (simp add: order_less_le)
  with False assms show ?thesis by (auto simp: line_feed_def vc_ok_defs)
qed

lemma put_printable_ok:
  assumes "vc_ok (con_vga c) vc" "put_printable ops ch vc c = (vc', c')"
  shows "vc_ok (con_vga c) vc' \<and> con_vga c' = con_vga c \<and> same_outside (con_vga c) c c'"
proof -
  let ?v0 = "vc\<lparr>vc_x := 0, vc_pos := vc_pos vc - vc_row_size vc\<rparr>"
  obtain s d where s: "(if vc_x vc = vc_cols vc then line_feed ops ?v0 c else (vc, c)) = (s, d)" by fastforce
  have s1: "vc_ok (con_vga c) s \<and> vc_x s < vc_cols s \<and> con_vga d = con_vga c \<and> same_outside (con_vga c) c d"
  proof (cases "vc_x vc = vc_cols vc")
    case True
    have "vc_ok (con_vga c) ?v0" using assms(1) by (simp add: vc_ok_defs)
    moreover have "8 \<le> unat (vc_cols vc)" using assms(1) by (simp add: vc_ok_defs)
    then have "0 < vc_cols vc" by (simp add: word_less_nat_alt)
    moreover have "line_feed ops ?v0 c = (s, d)" using s by (simp only: if_P [OF True])
    ultimately show ?thesis using line_feed_ok [of c ?v0 s d] by simp
  next
    case False
    moreover have "vc_x vc \<le> vc_cols vc" using assms(1) by (simp add: vc_ok_defs)
    ultimately have "vc_x vc < vc_cols vc" by simp
    then show ?thesis using s assms(1) by (simp only: if_not_P [OF False]) simp
  qed
  moreover have e: "vc' = s\<lparr>vc_x := vc_x s + 1, vc_pos := vc_pos s + 2\<rparr>" "c' = con_putc ops s (ucast ch) (vc_y s) (vc_x s) d"
    using assms(2) by (simp_all add: put_printable_def s)
  moreover have "vc_x s + 1 \<le> vc_cols s" using s1 inc_le by blast
  ultimately have "vc_ok (con_vga c) vc'" by (auto simp: vc_ok_defs)
  moreover have "same_outside (con_vga c) d c'"
    using s1 putc_mem [of d s "vc_x s" "vc_y s"] unfolding e by (auto simp: vc_ok_defs)
  ultimately show ?thesis using s1 e(2) putc_vga same_outside_trans by metis
qed

lemma tab_ok:
  assumes "vc_ok (con_vga c) vc" "horizontal_tab ops vc c = (vc', c')"
  shows "vc_ok (con_vga c) vc' \<and> con_vga c' = con_vga c \<and> same_outside (con_vga c) c c'"
proof -
  let ?w = "8 - (vc_x vc AND 7)" and ?x = "vc_x vc"
  let ?v1 = "vc\<lparr>vc_x := ?x + ?w, vc_pos := vc_pos vc + push_bit 1 ?w\<rparr>"
  have inv: "8 \<le> unat (vc_cols vc)" "unat ?x \<le> unat (vc_cols vc)" "0 < unat (vc_rows vc)"
    "2 * unat (vc_cols vc) * unat (vc_rows vc) < 2 ^ 32"
    using assms(1) unat_lt32 [of "vc_scr_size vc"] by (simp_all add: vc_ok_defs word_le_nat_alt)
  have w: "unat ?w = 8 - unat ?x mod 8"
  proof -
    have "?x AND 7 = take_bit 3 ?x" by (simp add: take_bit_eq_mask mask_numeral)
    then have "unat (?x AND 7) = unat ?x mod 8" by (simp add: unat_take_bit)
    moreover have "?x AND 7 \<le> 8" using calculation by (simp add: word_le_nat_alt)
    ultimately show ?thesis by (simp add: unat_sub_no_wrap)
  qed
  have "unat (vc_cols vc) \<le> unat (vc_cols vc) * unat (vc_rows vc)" using inv(3) by simp
  then have "2 * unat (vc_cols vc) < 2 ^ 32" using inv(4) by linarith
  then have x: "unat (?x + ?w) = unat ?x + (8 - unat ?x mod 8)"
    using inv(1,2) w unat_add_no_wrap [of ?x ?w] by simp
  show ?thesis
  proof (cases "?x + ?w \<ge> vc_cols vc")
    case True
    let ?v2 = "vc\<lparr>vc_x := ?x + ?w - vc_cols vc, vc_pos := vc_pos vc + push_bit 1 ?w - vc_row_size vc\<rparr>"
    have "unat (?x + ?w - vc_cols vc) = unat ?x + (8 - unat ?x mod 8) - unat (vc_cols vc)"
      using unat_sub_no_wrap [OF True [unfolded word_le_nat_alt]] x by simp
    then have "?x + ?w - vc_cols vc \<le> vc_cols vc" using inv(1,2) by (simp add: word_le_nat_alt)
    then have "vc_ok (con_vga c) ?v2" using assms(1) by (simp add: vc_ok_defs)
    moreover have "line_feed ops ?v2 c = (vc', c')" using True assms(2) by (simp add: horizontal_tab_def Let_def)
    ultimately show ?thesis using line_feed_ok [of c ?v2 vc' c'] by simp
  next
    case False
    then show ?thesis using assms by (auto simp: horizontal_tab_def Let_def vc_ok_defs)
  qed
qed

lemma backspace_ok: "vc_ok v vc \<Longrightarrow> vc_ok v (backspace vc)"
proof -
  assume ok: "vc_ok v vc"
  have "vc_x vc - 1 \<le> vc_cols vc" if "vc_x vc \<noteq> 0"
  proof -
    have "unat (vc_x vc) \<le> unat (vc_cols vc)" using ok by (simp add: vc_ok_defs word_le_nat_alt)
    with that show ?thesis by (simp add: word_le_nat_alt unat_minus_one)
  qed
  with ok show ?thesis by (auto simp: backspace_def vc_ok_defs)
qed

lemma normal_ok:
  assumes "vc_ok (con_vga c) vc" "vt_normal ops ch vc c npar = (vc', c', npar', st)"
  shows "vc_ok (con_vga c) vc' \<and> con_vga c' = con_vga c \<and> npar' = npar \<and> same_outside (con_vga c) c c' \<and>
    st = (if ch = 27 then VT_ESC else VT_NORMAL)"
proof -
  have "vc_ok (con_vga c) (backspace vc)" "vc_ok (con_vga c) (carriage_return vc)"
    using assms(1) backspace_ok by (auto simp: carriage_return_def vc_ok_defs)
  moreover obtain a1 b1 where p: "put_printable ops ch vc c = (a1, b1)" by fastforce
  moreover obtain a2 b2 where t: "horizontal_tab ops vc c = (a2, b2)" by fastforce
  moreover obtain a3 b3 where l: "line_feed ops vc c = (a3, b3)" by fastforce
  ultimately show ?thesis
    using assms put_printable_ok [OF assms(1) p] tab_ok [OF assms(1) t] line_feed_ok [OF assms(1) l]
    unfolding vt_normal_def Let_def by (auto split: if_splits)
qed

lemma esc_ok:
  assumes "vc_ok (con_vga c) vc" "vt_esc ops ch vc c npar = (vc', c', npar', st)"
  shows "vc_ok (con_vga c) vc' \<and> con_vga c' = con_vga c \<and> npar' = npar"
proof -
  have "gotoxy (vc\<lparr>vc_y := vc_y vc + 1\<rparr>) 0 (vc_y vc) =
      vc\<lparr>vc_y := vc_y vc, vc_x := 0, vc_pos := vc_visible_origin vc + push_bit 1 (vc_cols vc * vc_y vc + 0)\<rparr>"
    using vc_ok_bounds [OF assms(1)] by (simp add: gotoxy_def not_le)
  then have "vc_ok (con_vga c) (gotoxy (vc\<lparr>vc_y := vc_y vc + 1\<rparr>) 0 (vc_y vc))"
    using assms(1) by (simp add: vc_ok_defs)
  moreover note cursor_moves_ok [OF assms(1)]
  moreover have "reverse_line_feed vc = vc" by (simp add: reverse_line_feed_def)
  moreover obtain a b where l: "line_feed ops vc c = (a, b)" by fastforce
  ultimately show ?thesis
    using assms line_feed_ok [OF assms(1) l] unfolding vt_esc_def Let_def by (auto split: if_splits)
qed

lemma step_ok:
  assumes "vc_ok (con_vga c) vc" "npar < NPAR" "con_step ops ch (vc, c, npar, st) = (vc', c', npar', st')"
  shows "vc_ok (con_vga c) vc' \<and> con_vga c' = con_vga c \<and> npar' < NPAR"
proof (cases st)
  case VT_NORMAL
  with assms(3) have "vt_normal ops ch vc c npar = (vc', c', npar', st')" by simp
  from normal_ok [OF assms(1) this] assms(2) show ?thesis by simp
next
  case VT_ESC
  with assms(3) have "vt_esc ops ch vc c npar = (vc', c', npar', st')" by simp
  from esc_ok [OF assms(1) this] assms(2) show ?thesis by simp
next
  case VT_CSI_QUESTION
  with assms(3) have "vt_question ch vc c = (vc', c', npar', st')" by simp
  then show ?thesis by (rule question_ok [OF assms(1)])
next
  case VT_CSI_PARAMETER
  with assms(3) have "vt_parameter ch vc c npar = (vc', c', npar', st')" by simp
  then show ?thesis by (rule parameter_ok [OF assms(1,2)])
next
  case VT_CSI_HANDLE
  with assms(3) have "vt_handle ch vc c npar = (vc', c', npar', st')" by simp
  from handle_ok [OF assms(1) this] assms(2) show ?thesis by simp
qed

lemma steps_ok:
  "vc_ok (con_vga c) vc \<Longrightarrow> npar < NPAR \<Longrightarrow> fold (con_step ops) buf (vc, c, npar, st) = (vc', c', npar', st') \<Longrightarrow>
   vc_ok (con_vga c) vc' \<and> con_vga c' = con_vga c \<and> npar' < NPAR"
proof (induction buf arbitrary: vc c npar st)
  case (Cons ch buf)
  obtain vc1 c1 npar1 st1 where s: "con_step ops ch (vc, c, npar, st) = (vc1, c1, npar1, st1)" by (metis prod_cases4)
  with step_ok [OF Cons.prems(1,2) s] Cons.prems(3) Cons.IH [of c1 vc1 npar1 st1] show ?case by simp
qed simp

lemma plain_steps_ok:
  "vc_ok (con_vga c) vc \<Longrightarrow> 27 \<notin> set buf \<Longrightarrow> fold (con_step ops) buf (vc, c, npar, VT_NORMAL) = (vc', c', npar', st') \<Longrightarrow>
   same_outside (con_vga c) c c' \<and> st' = VT_NORMAL"
proof (induction buf arbitrary: vc c)
  case (Cons ch buf)
  obtain vc1 c1 npar1 st1 where s: "vt_normal ops ch vc c npar = (vc1, c1, npar1, st1)" by (metis prod_cases4)
  note n = normal_ok [OF Cons.prems(1) s]
  with Cons.prems s Cons.IH [of c1 vc1] show ?case by (auto intro: same_outside_trans)
qed simp

end

section \<open>The two drivers\<close>

lemma unat_double: "2 * unat w < 2 ^ 32 \<Longrightarrow> unat (push_bit 1 w :: u32) = 2 * unat w"
  by (simp add: push_bit_eq_mult unat_word_ariths)

lemma cell_addr:
  assumes "vc_ok v vc" "x < vc_cols vc" "y < vc_rows vc"
  shows "unat (VGA_ADDR vc y x) = unat (vc_visible_origin vc) + 2 * (unat (vc_cols vc) * unat y + unat x)"
    "unat (VGA_ADDR vc y x) + 2 \<le> unat (vc_scr_end vc)"
proof -
  let ?c = "unat (vc_cols vc)" and ?r = "unat (vc_rows vc)" and ?k = "unat (vc_cols vc) * unat y + unat x"
  have "unat x + 1 \<le> ?c" "unat y + 1 \<le> ?r" using assms(2,3) by (simp_all add: word_less_nat_alt)
  then have "?k + 1 \<le> ?c * (unat y + 1)" "?c * (unat y + 1) \<le> ?c * ?r" by (simp, intro mult_le_mono2)
  then have k: "?k + 1 \<le> ?c * ?r" by linarith
  have e: "unat (vc_scr_end vc) = unat (vc_visible_origin vc) + 2 * (?c * ?r)" using assms(1) by (simp add: vc_ok_defs)
  have "V + 2 * K + 2 < 2 ^ 32 + 1" if "K + 1 \<le> A" "E < 2 ^ 32" "E = V + 2 * A" for V K A E :: nat using that by simp
  from this [OF k unat_lt32 e] have b: "unat (vc_visible_origin vc) + 2 * ?k + 2 < 2 ^ 32 + 1" .
  then have "unat (vc_cols vc * y) = ?c * unat y" by (simp add: unat_word_ariths)
  then have "unat (vc_cols vc * y + x) = ?k" using b unat_add_no_wrap [of "vc_cols vc * y" x] by simp
  then have "unat (VGA_OFFSET vc y x) = 2 * ?k" unfolding VGA_OFFSET_def using b by (subst unat_double) simp_all
  then show a: "unat (VGA_ADDR vc y x) = unat (vc_visible_origin vc) + 2 * ?k"
    unfolding VGA_ADDR_def using b by (subst unat_add_no_wrap) simp_all
  show "unat (VGA_ADDR vc y x) + 2 \<le> unat (vc_scr_end vc)" unfolding a e using mult_le_mono2 [OF k, of 2] by simp
qed

lemma writew_other:
  assumes "unat d + 1 < 2 ^ 32" "unat a < unat d \<or> unat d + 2 \<le> unat a"
  shows "scr_writew m w d a = m a"
proof -
  have "unat (d + 1) = unat d + 1" using assms(1) by (simp add: unat_word_ariths)
  with assms(2) show ?thesis by (auto simp: scr_writew_def)
qed

lemma memcpyw_other:
  "unat d + 2 * n < 2 ^ 32 \<Longrightarrow> unat a < unat d \<or> unat d + 2 * n \<le> unat a \<Longrightarrow> memcpyw_loop n m d s a = m a"
proof (induction n arbitrary: m d s)
  case (Suc n)
  have d: "unat (d + 2) = unat d + 2" using Suc.prems(1) by (simp add: unat_word_ariths)
  have "memcpyw_loop n (scr_writew m (scr_readw m s) d) (d + 2) (s + 2) a = scr_writew m (scr_readw m s) d a"
    using Suc.prems unfolding d by (intro Suc.IH) (simp_all only: d, auto)
  also have "\<dots> = m a" using Suc.prems by (intro writew_other) auto
  finally show ?case by simp
qed simp

lemma write_vga_sel [simp]: "con_vga (write_vga r w c) = con_vga c" "con_mem (write_vga r w c) = con_mem c"
  by (simp_all add: write_vga_def)

lemma vga_registers [simp]:
  "con_vga (vga_set_mem_top vc c) = con_vga c" "con_mem (vga_set_mem_top vc c) = con_mem c"
  "con_vga (vga_set_cursor vc c) = con_vga c" "con_mem (vga_set_cursor vc c) = con_mem c"
  by (simp_all add: vga_set_mem_top_def vga_set_cursor_def Let_def)

lemma putc_outside:
  assumes "vc_ok (con_vga c) vc" "x < vc_cols vc" "y < vc_rows vc"
  shows "same_outside (con_vga c) c (vgacon_putc vc ch y x c)"
proof -
  have w: "unat (vga_vram_base (con_vga c)) \<le> unat (vc_visible_origin vc)" "unat (vc_scr_end vc) \<le> unat (vga_vram_end (con_vga c))"
    using assms(1) by (simp_all add: vc_ok_defs)
  note a = cell_addr [OF assms]
  have b: "unat (VGA_ADDR vc y x) + 1 < 2 ^ 32" using a(2) unat_lt32 [of "vc_scr_end vc"] by linarith
  show ?thesis unfolding same_outside_def vgacon_putc_def
  proof (intro allI impI)
    fix p :: ulong assume p: "unat p < unat (vga_vram_base (con_vga c)) \<or> unat (vga_vram_end (con_vga c)) \<le> unat p"
    then have "unat p < unat (VGA_ADDR vc y x) \<or> unat (VGA_ADDR vc y x) + 2 \<le> unat p" using a w by linarith
    then show "con_mem (c\<lparr>con_mem := scr_writew (con_mem c) (VGA_ATTR vc ch) (VGA_ADDR vc y x)\<rparr>) p = con_mem c p"
      by (simp add: writew_other [OF b])
  qed
qed

text \<open>Scrolling by one line moves the window or wraps it to the start of the video memory.\<close>

lemma scroll_down_cases:
  assumes "vc_ok (con_vga c) vc"
  shows "vgacon_scroll vc VWIN_DOWN 1 c = (vc', c') \<Longrightarrow>
    vc' = vc \<and> con_mem c' = con_mem c \<or>
    vc' = vc\<lparr>vc_visible_origin := vc_visible_origin vc + vc_row_size vc, vc_scr_end := vc_scr_end vc + vc_row_size vc\<rparr> \<and>
      vc_scr_end vc + vc_row_size vc \<le> vga_vram_end (con_vga c) \<and> con_mem c' = con_mem c \<or>
    vc' = vc\<lparr>vc_pos := vga_vram_base (con_vga c) + (vc_pos vc - vc_visible_origin vc),
             vc_visible_origin := vga_vram_base (con_vga c), vc_scr_end := vga_vram_base (con_vga c) + vc_scr_size vc\<rparr> \<and>
      con_mem c' = memcpyw_loop (unat (vc_row_size vc div 2)) (con_mem c) (vga_vram_base (con_vga c)) (vc_visible_origin vc)"
  by (auto simp: vgacon_scroll_def Let_def scr_memcpyw_def split: if_splits)

lemma window_moves:
  assumes "window_ok v vc" "vc_scr_end vc + vc_row_size vc \<le> vga_vram_end v"
  shows "window_ok v (vc\<lparr>vc_visible_origin := vc_visible_origin vc + vc_row_size vc, vc_scr_end := vc_scr_end vc + vc_row_size vc\<rparr>)"
proof -
  have "unat (vc_scr_end vc) + unat (vc_row_size vc) < 2 ^ 32" "unat (vc_visible_origin vc) + unat (vc_row_size vc) < 2 ^ 32"
    using assms(1) by (simp_all add: window_ok_def)
  then have "unat (vc_scr_end vc + vc_row_size vc) = unat (vc_scr_end vc) + unat (vc_row_size vc)"
    "unat (vc_visible_origin vc + vc_row_size vc) = unat (vc_visible_origin vc) + unat (vc_row_size vc)"
    by (simp_all add: unat_add_no_wrap)
  with assms show ?thesis by (simp add: window_ok_def word_le_nat_alt)
qed

lemma window_wraps:
  assumes "window_ok v vc"
  shows "window_ok v (vc\<lparr>vc_pos := p, vc_visible_origin := vga_vram_base v, vc_scr_end := vga_vram_base v + vc_scr_size vc\<rparr>)"
proof -
  have "unat (vga_vram_base v) + unat (vc_scr_size vc) < 2 ^ 32" using assms unat_lt32 [of "vga_vram_end v"] by (simp add: window_ok_def)
  then have "unat (vga_vram_base v + vc_scr_size vc) = unat (vga_vram_base v) + unat (vc_scr_size vc)" by (simp add: unat_add_no_wrap)
  with assms show ?thesis by (simp add: window_ok_def)
qed

lemma scroll_down_ok:
  assumes "vc_ok (con_vga c) vc"
  shows "vc_ok (con_vga c) (fst (vgacon_scroll vc VWIN_DOWN 1 c))"
proof -
  obtain vc' c' where s: "vgacon_scroll vc VWIN_DOWN 1 c = (vc', c')" by fastforce
  have w: "window_ok (con_vga c) vc" "cursor_ok vc" using assms by (simp_all add: vc_ok_def)
  have "window_ok (con_vga c) vc' \<and> cursor_ok vc'"
    using scroll_down_cases [OF assms s] w window_moves [OF w(1)] window_wraps [OF w(1)]
    by (elim disjE conjE) (simp_all add: cursor_ok_def)
  then show ?thesis by (simp add: s vc_ok_def)
qed

lemma scroll_down_outside:
  assumes "vc_ok (con_vga c) vc"
  shows "same_outside (con_vga c) c (snd (vgacon_scroll vc VWIN_DOWN 1 c))"
proof -
  obtain vc' c' where s: "vgacon_scroll vc VWIN_DOWN 1 c = (vc', c')" by fastforce
  let ?b = "vga_vram_base (con_vga c)" and ?n = "unat (vc_row_size vc div 2)"
  have "2 * unat (vc_cols vc) * 1 \<le> 2 * unat (vc_cols vc) * unat (vc_rows vc)"
    using assms by (intro mult_le_mono2) (simp add: vc_ok_defs)
  then have "2 * unat (vc_cols vc) \<le> unat (vc_scr_size vc)" "unat (vc_row_size vc) = 2 * unat (vc_cols vc)"
    "unat ?b + unat (vc_scr_size vc) \<le> unat (vga_vram_end (con_vga c))"
    using assms by (simp_all add: vc_ok_defs)
  then have n: "unat ?b + 2 * ?n \<le> unat (vga_vram_end (con_vga c))" by (simp add: unat_div)
  have "memcpyw_loop ?n (con_mem c) ?b (vc_visible_origin vc) a = con_mem c a"
    if "unat a < unat ?b \<or> unat (vga_vram_end (con_vga c)) \<le> unat a" for a
    using that n unat_lt32 [of "vga_vram_end (con_vga c)"] by (intro memcpyw_other) linarith+
  then show ?thesis using scroll_down_cases [OF assms s] by (auto simp: s same_outside_def)
qed

lemma scroll_down_sel:
  "con_vga (snd (vgacon_scroll vc dir n c)) = con_vga c"
  "vc_x (fst (vgacon_scroll vc dir n c)) = vc_x vc" "vc_cols (fst (vgacon_scroll vc dir n c)) = vc_cols vc"
  by (simp_all add: vgacon_scroll_def Let_def split: vwin.split)

interpretation vga: console_driver vga_ops
proof
  show "con_vga (con_putc vga_ops vc ch y x c) = con_vga c" for vc ch y x c by (simp add: vga_ops_def vgacon_putc_def)
  show "con_vga (con_cursor vga_ops vc mode c) = con_vga c" "con_mem (con_cursor vga_ops vc mode c) = con_mem c" for vc mode c
    by (simp_all add: vga_ops_def vgacon_cursor_def split: cursor_manner.split)
qed (simp_all add: vga_ops_def scroll_down_ok scroll_down_outside scroll_down_sel putc_outside)

interpretation dummy: console_driver dummy_ops
  by unfold_locales (simp_all add: dummy_ops_def)

lemma driver_contract: "console_driver (driver_ops con)"
  by (cases con) (simp_all add: vga.console_driver_axioms dummy.console_driver_axioms)

end
