(* ===== verification/Vt_Text.thy ===== *)
theory Vt_Text
  imports Vt_Spec
begin

text \<open>
  The properties of the terminal: the state after \<^verbatim>\<open>console_init\<close>, what plain text does, what is shown, and cursor addressing.
\<close>

section \<open>The first state\<close>

lemmas driver_steps_ok = console_driver.steps_ok [OF driver_contract]
lemmas driver_plain_steps_ok = console_driver.plain_steps_ok [OF driver_contract]
lemmas driver_cursor = console_driver.cursor_vga [OF driver_contract] console_driver.cursor_mem [OF driver_contract]

lemma con_write_steps:
  assumes "driver vc = Some con" "con_write buf vc c = (n, vc', c')"
  obtains c1 npar st where "fold (con_step (driver_ops con)) buf (vc, hide_cursor (driver_ops con) vc c, 0, VT_NORMAL) = (vc', c1, npar, st)"
    "con_vga c' = con_vga c1" "con_mem c' = con_mem c1" "n = int (length buf)"
  using assms by (auto simp: con_write_def Let_def set_cursor_def driver_cursor split: prod.splits)

lemma con_write_ok:
  assumes "vc_ok (con_vga c) vc" "con_write buf vc c = (n, vc', c')"
  shows "vc_ok (con_vga c') vc' \<and> con_vga c' = con_vga c"
proof (cases "driver vc")
  case None
  with assms show ?thesis by (simp add: con_write_def)
next
  case (Some con)
  let ?h = "hide_cursor (driver_ops con) vc c"
  have h: "con_vga ?h = con_vga c" by (simp add: hide_cursor_def driver_cursor)
  from con_write_steps [OF Some assms(2)] obtain c1 npar st where
    s: "fold (con_step (driver_ops con)) buf (vc, ?h, 0, VT_NORMAL) = (vc', c1, npar, st)" and v: "con_vga c' = con_vga c1" by metis
  have "vc_ok (con_vga ?h) vc" "0 < NPAR" using assms(1) h by (simp_all add: NPAR_def)
  from driver_steps_ok [OF this s] show ?thesis using v h by simp
qed

text \<open>What the boot code must have found: a text mode whose screen fits the video memory, with the cursor on it.\<close>

definition screen_ok :: "screen_info \<Rightarrow> bool" where
  "screen_ok si \<longleftrightarrow>
     8 \<le> unat (orig_video_cols si) \<and> 0 < unat (orig_video_lines si) \<and>
     2 * unat (orig_video_cols si) * unat (orig_video_lines si) \<le> (if orig_video_ega_bx si AND 0xff \<noteq> 0x10 then 0x8000 else 0x2000) \<and>
     orig_x si \<le> orig_video_cols si \<and> orig_y si < orig_video_lines si"

definition fresh_vc :: "vc_struct \<Rightarrow> bool" where
  "fresh_vc vc \<longleftrightarrow> driver vc = None \<and> vc_saved_x vc = 0 \<and> vc_saved_y vc = 0 \<and> length (vc_par vc) = NPAR"

lemma unat_ucast_byte: "unat (ucast (b :: u8) :: u32) = unat b"
proof -
  have "unat b < 256" using unsigned_less [of b, where ?'a = nat] by simp
  then show ?thesis by (simp add: unsigned_ucast_eq take_bit_eq_mod)
qed

lemma startup_vga:
  assumes "screen_ok (con_screen c)" "\<not> has_called_startup (con_vga c)"
  defines "v \<equiv> con_vga (vgacon_startup c)" and "si \<equiv> con_screen c"
  shows "has_called_startup v" "vga_video_num_cols v = ucast (orig_video_cols si)" "vga_video_num_rows v = ucast (orig_video_lines si)"
    "vga_x v = ucast (orig_x si)" "vga_y v = ucast (orig_y si)" "vga_visible_origin v = vga_vram_base v"
    "unat (vga_vram_end v) = unat (vga_vram_base v) + (if orig_video_ega_bx si AND 0xff \<noteq> 0x10 then 0x8000 else 0x2000)"
    "unat (vga_vram_end v) \<le> 0xC0100000"
proof -
  have nz: "orig_video_cols si \<noteq> 0" using assms(1) by (auto simp: screen_ok_def si_def)
  let ?s = "if orig_video_ega_bx si AND 0xff \<noteq> 0x10 then 0x8000 else 0x2000 :: ulong"
  have v: "has_called_startup v \<and> vga_video_num_cols v = ucast (orig_video_cols si) \<and> vga_video_num_rows v = ucast (orig_video_lines si) \<and>
    vga_x v = ucast (orig_x si) \<and> vga_y v = ucast (orig_y si) \<and> vga_visible_origin v = vga_vram_base v \<and>
    vga_vram_base v = (if orig_video_mode si = 7 then 0xC00B0000 else 0xC00B8000) \<and> vga_vram_end v = vga_vram_base v + ?s"
    unfolding v_def vgacon_startup_def using assms(2) nz
    by (simp add: Let_def phys_to_virt_def PAGE_OFFSET_def flip: si_def)
  then show "has_called_startup v" "vga_video_num_cols v = ucast (orig_video_cols si)" "vga_video_num_rows v = ucast (orig_video_lines si)"
    "vga_x v = ucast (orig_x si)" "vga_y v = ucast (orig_y si)" "vga_visible_origin v = vga_vram_base v"
    by simp_all
  from v show "unat (vga_vram_end v) = unat (vga_vram_base v) + (if orig_video_ega_bx si AND 0xff \<noteq> 0x10 then 0x8000 else 0x2000)"
    "unat (vga_vram_end v) \<le> 0xC0100000"
    by auto
qed

lemma console_init_steps:
  assumes "fresh_vc (vcs ! 0)" "vcs \<noteq> []" "console_init vcs c0 = Inr (e, vcs', c)"
  shows "c = vgacon_startup c0 \<and> vgacon_init ((vcs ! 0)\<lparr>driver := Some vga_con\<rparr>) c = (e, vcs' ! 0)"
proof -
  have "register_con_driver (replicate MAX_NR_CON_DRIVERS None) dummy_con c0 = (0, [Some dummy_con, None, None, None], c0)"
    by (simp add: register_con_driver_def MAX_NR_CON_DRIVERS_def eval_nat_numeral dummy_ops_def)
  moreover have "register_con_driver [Some dummy_con, None, None, None] vga_con c0 =
      (0, [Some dummy_con, Some vga_con, None, None], vgacon_startup c0)"
    by (simp add: register_con_driver_def vga_ops_def)
  moreover have "bind_con_driver [Some dummy_con, Some vga_con, None, None] vc vga_con = (0, vc\<lparr>driver := Some vga_con\<rparr>)" for vc
    by (simp add: bind_con_driver_def)
  ultimately show ?thesis
    using assms(2,3) by (cases vcs) (auto simp: console_init_def Let_def vga_ops_def split: prod.splits)
qed

lemma init_vc_ok:
  assumes "screen_ok (con_screen c0)" "\<not> has_called_startup (con_vga c0)" "fresh_vc vc"
    and "vgacon_init (vc\<lparr>driver := Some vga_con\<rparr>) (vgacon_startup c0) = (0, vc')"
  shows "vc_ok (con_vga (vgacon_startup c0)) vc'"
proof -
  note st = startup_vga [OF assms(1,2)]
  let ?v = "con_vga (vgacon_startup c0)" and ?si = "con_screen c0"
  let ?c = "unat (orig_video_cols ?si)" and ?r = "unat (orig_video_lines ?si)"
  have c: "?c < 256" "?r < 256" using unsigned_less [of "orig_video_cols ?si", where ?'a = nat] unsigned_less [of "orig_video_lines ?si", where ?'a = nat] by simp_all
  have fits: "8 \<le> ?c" "0 < ?r" "2 * ?c * ?r \<le> (if orig_video_ega_bx ?si AND 0xff \<noteq> 0x10 then 0x8000 else 0x2000)"
    using assms(1) by (simp_all add: screen_ok_def)
  have rs: "unat (push_bit 1 (ucast (orig_video_cols ?si)) :: u32) = 2 * ?c"
    using c by (subst unat_double) (simp_all add: unat_ucast_byte)
  have small: "2 * ?c * ?r \<le> 0x8000" using fits(3) by (simp split: if_splits)
  have ss: "unat (push_bit 1 (ucast (orig_video_cols ?si)) * ucast (orig_video_lines ?si) :: u32) = 2 * ?c * ?r"
    using small by (simp only: unat_word_ariths rs unat_ucast_byte) simp
  have be: "unat (vga_vram_base ?v) + 2 * ?c * ?r \<le> unat (vga_vram_end ?v)" using st(7) fits(3) by simp
  have se: "unat (vga_vram_base ?v + push_bit 1 (ucast (orig_video_cols ?si)) * ucast (orig_video_lines ?si)) =
      unat (vga_vram_base ?v) + 2 * ?c * ?r"
  proof -
    have "unat (vga_vram_base ?v) + unat (push_bit 1 (ucast (orig_video_cols ?si)) * ucast (orig_video_lines ?si) :: u32) < 2 ^ LENGTH(32)"
      unfolding ss using be st(8) by simp
    from unat_add_no_wrap [OF this] show ?thesis unfolding ss .
  qed
  have xy: "(ucast (orig_x ?si) :: u32) \<le> ucast (orig_video_cols ?si)" "(ucast (orig_y ?si) :: u32) < ucast (orig_video_lines ?si)"
    "(0 :: u32) < ucast (orig_video_lines ?si)"
    using assms(1) fits by (simp_all only: screen_ok_def word_le_nat_alt word_less_nat_alt unat_ucast_byte) simp_all
  have "vc_cols vc' = ucast (orig_video_cols ?si) \<and> vc_rows vc' = ucast (orig_video_lines ?si) \<and>
    vc_row_size vc' = push_bit 1 (ucast (orig_video_cols ?si)) \<and>
    vc_scr_size vc' = push_bit 1 (ucast (orig_video_cols ?si)) * ucast (orig_video_lines ?si) \<and>
    vc_visible_origin vc' = vga_vram_base ?v \<and>
    vc_scr_end vc' = vga_vram_base ?v + push_bit 1 (ucast (orig_video_cols ?si)) * ucast (orig_video_lines ?si) \<and>
    vc_x vc' = ucast (orig_x ?si) \<and> vc_y vc' = ucast (orig_y ?si) \<and> vc_saved_x vc' = 0 \<and> vc_saved_y vc' = 0 \<and> length (vc_par vc') = NPAR"
    using assms(3,4) st by (auto simp: vgacon_init_def Let_def fresh_vc_def)
  then show ?thesis
    unfolding vc_ok_defs using fits(1,2) be se rs ss xy st(8) c by (simp add: unat_ucast_byte)
qed

lemma plain_text_outside:
  assumes "vc_ok (con_vga c) vc" "27 \<notin> set buf" "con_write buf vc c = (n, vc', c')"
  shows "same_outside (con_vga c) c c'"
proof (cases "driver vc")
  case None
  with assms show ?thesis by (simp add: con_write_def)
next
  case (Some con)
  let ?h = "hide_cursor (driver_ops con) vc c"
  have h: "con_vga ?h = con_vga c" "con_mem ?h = con_mem c" by (simp_all add: hide_cursor_def driver_cursor)
  from con_write_steps [OF Some assms(3)] obtain c1 npar st where
    s: "fold (con_step (driver_ops con)) buf (vc, ?h, 0, VT_NORMAL) = (vc', c1, npar, st)" and m: "con_mem c' = con_mem c1" by metis
  have "vc_ok (con_vga ?h) vc" using assms(1) h by simp
  from driver_plain_steps_ok [OF this assms(2) s] show ?thesis using h m by (simp add: same_outside_def)
qed

section \<open>Text on the screen\<close>

definition printable :: "u8 \<Rightarrow> bool" where
  "printable ch \<longleftrightarrow> ch > 31 \<and> ch < 127"

lemma next_cell: "VGA_ADDR vc y (x + 1) = VGA_ADDR vc y x + 2"
  by (simp add: VGA_ADDR_def VGA_OFFSET_def push_bit_eq_mult algebra_simps)

lemma vga_cell_cong: "VGA_ADDR (vc\<lparr>vc_x := a, vc_pos := p\<rparr>) = VGA_ADDR vc" "VGA_ATTR (vc\<lparr>vc_x := a, vc_pos := p\<rparr>) = VGA_ATTR vc"
  by (simp_all add: fun_eq_iff VGA_ADDR_def VGA_OFFSET_def VGA_ATTR_def)

lemma putcs_cong: "VGA_ATTR vc = VGA_ATTR vc' \<Longrightarrow> putcs_loop vc s d m = putcs_loop vc' s d m"
  by (induction s arbitrary: d m) simp_all

lemma print_steps:
  "list_all printable s \<Longrightarrow> unat (vc_x vc) + length s \<le> unat (vc_cols vc) \<Longrightarrow>
   fold (con_step vga_ops) s (vc, c, npar, VT_NORMAL) =
     (vc\<lparr>vc_x := vc_x vc + of_nat (length s), vc_pos := vc_pos vc + of_nat (2 * length s)\<rparr>,
      c\<lparr>con_mem := putcs_loop vc s (VGA_ADDR vc (vc_y vc) (vc_x vc)) (con_mem c)\<rparr>, npar, VT_NORMAL)"
proof (induction s arbitrary: vc c)
  case (Cons ch s)
  let ?vc = "vc\<lparr>vc_x := vc_x vc + 1, vc_pos := vc_pos vc + 2\<rparr>"
  let ?c = "vgacon_putc vc (ucast ch) (vc_y vc) (vc_x vc) c"
  have x: "vc_x vc \<noteq> vc_cols vc" "unat (vc_x vc + 1) = unat (vc_x vc) + 1"
    using Cons.prems(2) unat_lt32 [of "vc_cols vc"] by (auto simp: unat_word_ariths)
  have "con_step vga_ops ch (vc, c, npar, VT_NORMAL) = (?vc, ?c, npar, VT_NORMAL)"
    using Cons.prems(1) x(1) by (simp add: vt_normal_def printable_def put_printable_def vga_ops_def)
  moreover have "unat (vc_x ?vc) + length s \<le> unat (vc_cols ?vc)" using Cons.prems(2) x(2) by simp
  moreover have "list_all printable s" using Cons.prems(1) by simp
  ultimately show ?case
    using Cons.IH [of ?vc ?c] putcs_cong [of ?vc vc]
    by (simp add: vga_cell_cong next_cell vgacon_putc_def add.assoc)
qed simp

lemma readw_writew: "unat d + 1 < 2 ^ 32 \<Longrightarrow> scr_readw (scr_writew m w d) d = w"
proof -
  assume "unat d + 1 < 2 ^ 32"
  then have "d \<noteq> d + 1" by simp
  moreover have "ucast (ucast w :: u8) OR push_bit 8 (ucast (ucast (drop_bit 8 w) :: u8)) = w"
    by (rule bit_word_eqI) (auto simp: bit_simps)
  ultimately show ?thesis by (simp add: scr_readw_def scr_writew_def)
qed

lemma putcs_other:
  "unat d + 2 * length s < 2 ^ 32 \<Longrightarrow> unat a < unat d \<or> unat d + 2 * length s \<le> unat a \<Longrightarrow> putcs_loop vc s d m a = m a"
proof (induction s arbitrary: m d)
  case (Cons ch s)
  have d: "unat (d + 2) = unat d + 2" using Cons.prems(1) by (simp add: unat_word_ariths)
  have "putcs_loop vc s (d + 2) (scr_writew m (VGA_ATTR vc (ucast ch)) d) a = scr_writew m (VGA_ATTR vc (ucast ch)) d a"
    using Cons.prems unfolding d by (intro Cons.IH) (simp_all only: d, auto)
  also have "\<dots> = m a" using Cons.prems by (intro writew_other) auto
  finally show ?case by simp
qed simp

lemma putcs_shows:
  "unat d + 2 * length s < 2 ^ 32 \<Longrightarrow> i < length s \<Longrightarrow>
   scr_readw (putcs_loop vc s d m) (d + of_nat (2 * i)) = VGA_ATTR vc (ucast (s ! i))"
proof (induction s arbitrary: m d i)
  case (Cons ch s)
  let ?m = "scr_writew m (VGA_ATTR vc (ucast ch)) d"
  have d: "unat (d + 2) = unat d + 2" "unat (d + 1) = unat d + 1" using Cons.prems(1) by (simp_all add: unat_word_ariths)
  have b: "unat (d + 2) + 2 * length s < 2 ^ 32" using Cons.prems(1) unfolding d by simp
  show ?case
  proof (cases i)
    case 0
    have "putcs_loop vc s (d + 2) ?m d = ?m d" "putcs_loop vc s (d + 2) ?m (d + 1) = ?m (d + 1)"
      using d by (simp_all add: putcs_other [OF b])
    then have "scr_readw (putcs_loop vc s (d + 2) ?m) d = scr_readw ?m d" by (simp add: scr_readw_def)
    with 0 Cons.prems(1) show ?thesis by (simp add: readw_writew)
  next
    case (Suc j)
    with Cons.IH [OF b, of j ?m] Cons.prems(2) show ?thesis by (simp add: algebra_simps)
  qed
qed simp

lemma line_bound:
  assumes "vc_ok v vc" "unat (vc_x vc) + length s \<le> unat (vc_cols vc)" "s \<noteq> []"
  shows "unat (VGA_ADDR vc (vc_y vc) (vc_x vc)) + 2 * length s < 2 ^ 32"
proof -
  have "0 < length s" using assms(3) by simp
  then have "vc_x vc < vc_cols vc" using assms(2) unfolding word_less_nat_alt by linarith
  note a = cell_addr [OF assms(1) this vc_ok_bounds(3) [OF assms(1)]]
  have e: "unat (vc_scr_end vc) = unat (vc_visible_origin vc) + 2 * (unat (vc_cols vc) * unat (vc_rows vc))"
    "unat (vga_vram_end v) < 2 ^ 32" "unat (vc_scr_end vc) \<le> unat (vga_vram_end v)"
    using assms(1) unat_lt32 [of "vga_vram_end v"] by (simp_all add: vc_ok_defs)
  have "unat (vc_cols vc) * (unat (vc_y vc) + 1) \<le> unat (vc_cols vc) * unat (vc_rows vc)"
    using vc_ok_bounds(3) [OF assms(1)] by (intro mult_le_mono2) (simp add: word_less_nat_alt)
  then have p: "unat (vc_cols vc) * unat (vc_y vc) + unat (vc_cols vc) \<le> unat (vc_cols vc) * unat (vc_rows vc)" by simp
  have "A + 2 * L < B" if "A = V + 2 * (P + X)" "E = V + 2 * Q" "D < B" "E \<le> D" "X + L \<le> C" "P + C \<le> Q"
    for A B V P X E Q D L C :: nat using that by (simp add: algebra_simps)
  from this [OF a(1) e assms(2) p] show ?thesis .
qed

section \<open>Cursor addressing\<close>

definition digit :: "u8 \<Rightarrow> bool" where
  "digit ch \<longleftrightarrow> of_char CHR ''0'' \<le> ch \<and> ch \<le> of_char CHR ''9''"

definition par_value :: "u32 \<Rightarrow> u8 list \<Rightarrow> u32" where
  "par_value v ds = foldl (\<lambda>v d. 10 * v + (ucast d - 48)) v ds"

lemma digit_not: "digit ch \<Longrightarrow> ch \<noteq> of_char CHR '';'' \<and> ch \<noteq> of_char CHR ''?''"
  by (auto simp: digit_def)

lemma digits_steps:
  "list_all digit ds \<Longrightarrow> k < length (vc_par vc) \<Longrightarrow>
   fold (con_step ops) ds (vc, c, k, VT_CSI_PARAMETER) =
     (vc\<lparr>vc_par := (vc_par vc)[k := par_value (vc_par vc ! k) ds]\<rparr>, c, k, VT_CSI_PARAMETER)"
proof (induction ds arbitrary: vc)
  case (Cons d ds)
  let ?vc = "vc\<lparr>vc_par := (vc_par vc)[k := 10 * vc_par vc ! k + (ucast d - 48)]\<rparr>"
  have "con_step ops d (vc, c, k, VT_CSI_PARAMETER) = (?vc, c, k, VT_CSI_PARAMETER)"
    using Cons.prems digit_not [of d] by (simp add: vt_parameter_def digit_def)
  with Cons show ?case by (simp add: par_value_def)
qed (simp add: par_value_def)

lemma digit_value:
  assumes "d < 10"
  shows "digit (48 + of_nat d)" "(ucast (48 + of_nat d :: u8) - 48 :: u32) = of_nat d"
proof -
  have "\<forall>d \<in> set [0..<10]. digit (48 + of_nat d) \<and> (ucast (48 + of_nat d :: u8) - 48 :: u32) = of_nat d"
    by (simp add: upt_rec digit_def)
  with assms show "digit (48 + of_nat d)" "(ucast (48 + of_nat d :: u8) - 48 :: u32) = of_nat d" by simp_all
qed

lemma dec_par_value: "list_all digit (rev (dec_rev n)) \<and> par_value 0 (rev (dec_rev n)) = of_nat n"
proof (induction n rule: dec_rev.induct)
  case (1 n)
  show ?case
  proof (cases "n < 10")
    case True
    then show ?thesis by (subst (1 2) dec_rev.simps) (simp add: digit_value par_value_def)
  next
    case False
    have "(of_nat n :: u32) = of_nat (10 * (n div 10) + n mod 10)" by simp
    then have "10 * of_nat (n div 10) + of_nat (n mod 10) = (of_nat n :: u32)" by (simp only: of_nat_add of_nat_mult) simp
    with 1 [OF False] False show ?thesis by (subst (1 2) dec_rev.simps) (simp add: digit_value par_value_def)
  qed
qed

lemma question_digits:
  assumes "list_all digit ds" "ds \<noteq> []"
  shows "fold (con_step ops) ds (vc, c, k, VT_CSI_QUESTION) =
    fold (con_step ops) ds (vc\<lparr>vc_par := replicate NPAR 0\<rparr>, c, 0, VT_CSI_PARAMETER)"
proof -
  obtain d ds' where ds: "ds = d # ds'" using assms(2) by (cases ds) auto
  have "d \<noteq> of_char CHR ''?''" using digit_not [of d] assms(1) ds by simp
  then have "con_step ops d (vc, c, k, VT_CSI_QUESTION) = con_step ops d (vc\<lparr>vc_par := replicate NPAR 0\<rparr>, c, 0, VT_CSI_PARAMETER)"
    by (simp only: con_step.simps vt_question_def Let_def if_False)
  then show ?thesis unfolding ds by (simp only: fold_simps)
qed

definition cursor_sequence :: "nat \<Rightarrow> nat \<Rightarrow> u8 list" where
  "cursor_sequence row col =
     [27, of_char CHR ''[''] @ rev (dec_rev row) @ [of_char CHR '';''] @ rev (dec_rev col) @ [of_char CHR ''H'']"

lemma cursor_steps:
  assumes "0 < row" "row \<le> unat (vc_rows vc)" "0 < col" "col \<le> unat (vc_cols vc)"
    and "fold (con_step ops) (cursor_sequence row col) (vc, c, npar, VT_NORMAL) = (vc', c', npar', st)"
  shows "c' = c \<and> st = VT_NORMAL \<and> vc_x vc' = of_nat (col - 1) \<and> vc_y vc' = of_nat (row - 1) \<and>
    vc_pos vc' = VGA_ADDR vc (of_nat (row - 1)) (of_nat (col - 1))"
proof -
  let ?p1 = "(replicate NPAR 0)[0 := of_nat row]" and ?p2 = "(replicate NPAR 0)[0 := of_nat row, 1 := of_nat col] :: u32 list"
  have ne: "rev (dec_rev row) \<noteq> []" by (subst dec_rev.simps) simp
  have lt: "row < 2 ^ 32" "col < 2 ^ 32" using assms(2,4) unat_lt32 [of "vc_rows vc"] unat_lt32 [of "vc_cols vc"] by linarith+
  have "con_step ops 27 (vc, c, npar, VT_NORMAL) = (vc, c, npar, VT_ESC)" by (simp add: vt_normal_def)
  moreover have "con_step ops (of_char CHR ''['') (vc, c, npar, VT_ESC) = (vc, c, npar, VT_CSI_QUESTION)" by (simp add: vt_esc_def)
  moreover have "fold (con_step ops) (rev (dec_rev row)) (vc, c, npar, VT_CSI_QUESTION) = (vc\<lparr>vc_par := ?p1\<rparr>, c, 0, VT_CSI_PARAMETER)"
    using dec_par_value [of row] ne by (simp add: question_digits digits_steps NPAR_def)
  moreover have "con_step ops (of_char CHR '';'') (vc\<lparr>vc_par := ?p1\<rparr>, c, 0, VT_CSI_PARAMETER) = (vc\<lparr>vc_par := ?p1\<rparr>, c, 1, VT_CSI_PARAMETER)"
    by (simp add: vt_parameter_def NPAR_def)
  moreover have "fold (con_step ops) (rev (dec_rev col)) (vc\<lparr>vc_par := ?p1\<rparr>, c, 1, VT_CSI_PARAMETER) = (vc\<lparr>vc_par := ?p2\<rparr>, c, 1, VT_CSI_PARAMETER)"
    using dec_par_value [of col] by (simp add: digits_steps NPAR_def)
  ultimately have h: "vt_handle (of_char CHR ''H'') (vc\<lparr>vc_par := ?p2, vc_npar := 1\<rparr>) c 1 = (vc', c', npar', st)"
    using assms(5) by (simp add: cursor_sequence_def vt_parameter_def)
  have "unat (of_nat row :: u32) = row" "unat (of_nat col :: u32) = col" using lt by (simp_all add: unat_of_nat32)
  then have nz: "(of_nat row :: u32) \<noteq> 0" "(of_nat col :: u32) \<noteq> 0" using assms(1,3) by (metis less_irrefl unat_0)+
  have m1: "(of_nat row - 1 :: u32) = of_nat (row - 1)" "(of_nat col - 1 :: u32) = of_nat (col - 1)" using assms(1,3) by (simp_all add: of_nat_diff)
  have in_screen: "(of_nat (row - 1) :: u32) < vc_rows vc" "(of_nat (col - 1) :: u32) < vc_cols vc"
  proof -
    have "unat (of_nat (row - 1) :: u32) = row - 1" "unat (of_nat (col - 1) :: u32) = col - 1"
      using lt by (intro unat_of_nat32; linarith)+
    then show "(of_nat (row - 1) :: u32) < vc_rows vc" "(of_nat (col - 1) :: u32) < vc_cols vc"
      unfolding word_less_nat_alt using assms(1-4) by linarith+
  qed
  show ?thesis
    using h in_screen nz m1
    by (auto simp: vt_handle_def csi_handle_def csi_move_def Let_def par_down_def gotoxy_def NPAR_def not_le VGA_ADDR_def VGA_OFFSET_def)
qed

section \<open>Deviations\<close>

text \<open>
  \<^verbatim>\<open>scr_memmovew\<close> doubles a count that pointer arithmetic doubles again, so a move to a higher address writes
  behind its destination.
\<close>

lemma memmovew_loop_other:
  "2 * n \<le> unat d \<Longrightarrow> unat a < unat d - 2 * n \<or> unat d \<le> unat a \<Longrightarrow> memmovew_loop n m d s a = m a"
proof (induction n arbitrary: m d s)
  case (Suc n)
  have d: "unat (d - 2) = unat d - 2" using Suc.prems(1) by (subst unat_sub_no_wrap) simp_all
  have "memmovew_loop n (scr_writew m (scr_readw m (s - 2)) (d - 2)) (d - 2) (s - 2) a = scr_writew m (scr_readw m (s - 2)) (d - 2) a"
    using Suc.prems by (intro Suc.IH) (simp_all only: d, auto)
  also have "\<dots> = m a"
    using Suc.prems unat_lt32 [of d] by (intro writew_other) (simp_all only: d, auto)
  finally show ?case by simp
qed simp

lemma memmovew_misses:
  assumes "\<not> d < s" "unat d + 4 * unat count < 2 ^ 32" "unat a < unat d + 2 * unat count"
  shows "scr_memmovew m d s count a = m a"
proof -
  have "unat (count * 2) = unat count * 2" using assms(2) by (simp add: unat_word_ariths)
  then have "unat (2 * (count * 2)) = 4 * unat count" using assms(2) by (simp add: unat_word_ariths)
  then have "unat (d + 2 * (count * 2)) = unat d + 4 * unat count" using assms(2) by (simp add: unat_add_no_wrap)
  with assms(1,3) show ?thesis by (simp add: scr_memmovew_def memmovew_loop_other)
qed

text \<open>Cursor left moves to the right; next line stays on the line; erasing to the start of a line does nothing.\<close>

lemma csi_D_moves_right: "csi_move (of_char CHR ''D'') vc = csi_move (of_char CHR ''C'') vc"
  by (simp add: csi_move_def)

lemma esc_E_same_line:
  assumes "vc_ok v vc" "vt_esc ops (of_char CHR ''E'') vc c npar = (vc', c', npar', st)"
  shows "vc_y vc' = vc_y vc"
  using assms(2) vc_ok_bounds [OF assms(1)] by (auto simp: vt_esc_def gotoxy_def not_le)

lemma csi_1K_erases_nothing: "vc_par vc ! 0 \<in> {1, 2} \<Longrightarrow> csi_K vc c = c"
  by (auto simp: csi_K_def)

text \<open>At the pending wrap column, deleting a character copies almost the whole address space.\<close>

lemma delete_count_wraps: "vc_x vc = vc_cols vc \<Longrightarrow> vc_par vc ! 0 = 0 \<Longrightarrow> vc_cols vc - vc_x vc - clip_nr vc = - 1"
  by (simp add: clip_nr_def)

section \<open>Properties\<close>

definition demo_screen :: screen_info where
  "demo_screen = \<lparr>orig_x = 0, orig_y = 0, orig_video_mode = 3, orig_video_cols = 80, orig_video_ega_bx = 3, orig_video_lines = 25,
     orig_video_isVGA = 1\<rparr>"

definition demo_vga :: vga_vars where
  "demo_vga = \<lparr>vga_visible_origin = 0, vga_vram_base = 0, vga_vram_end = 0, vga_vram_size = 0, vga_pos = 0, vga_x = 0, vga_y = 0,
     vga_vram_attr = 0, vga_erased_char = 0, vga_video_num_cols = 0, vga_video_num_rows = 0, vga_video_port_reg = 0,
     vga_video_port_val = 0, vga_can_do_color = 0, vga_video_type = 0, vga_video_desc = [], has_called_startup = False\<rparr>"

definition demo_console :: console where
  "demo_console = \<lparr>con_mem = (\<lambda>_. 0), con_out = [], con_screen = demo_screen, con_vga = demo_vga\<rparr>"

definition zero_vc :: vc_struct where
  "zero_vc = \<lparr>magic = 0, driver = None, vc_num = 0, vc_cols = 0, vc_rows = 0, vc_row_size = 0, vc_scr_size = 0, vc_scan_line = 0,
     vc_origin = 0, vc_scr_end = 0, vc_visible_origin = 0, vc_top = 0, vc_bottom = 0, vc_erased_char = 0, vc_attr = 0, vc_blink = 0,
     vc_f_color = 0, vc_b_color = 0, vc_italic = 0, vc_bold = 0, vc_underline = 0, vc_x = 0, vc_y = 0, vc_saved_x = 0,
     vc_saved_y = 0, vc_pos = 0, vc_state = 0, vc_npar = 0, vc_par = replicate NPAR 0\<rparr>"

definition demo_start :: console where
  "demo_start = vgacon_startup demo_console"

definition demo_vc :: vc_struct where
  "demo_vc = snd (vgacon_init (zero_vc\<lparr>driver := Some vga_con\<rparr>) demo_start)"

lemma demo_screen_ok: "screen_ok (con_screen demo_console)" "\<not> has_called_startup (con_vga demo_console)" "fresh_vc zero_vc"
  by (simp_all add: screen_ok_def demo_console_def demo_screen_def demo_vga_def fresh_vc_def zero_vc_def)

lemma demo_init: "vgacon_init (zero_vc\<lparr>driver := Some vga_con\<rparr>) demo_start = (0, demo_vc)"
  using startup_vga(1) [OF demo_screen_ok(1,2)] by (simp add: demo_vc_def demo_start_def vgacon_init_def Let_def)

lemma demo_vc_ok: "vc_ok (con_vga demo_start) demo_vc"
  using init_vc_ok [OF demo_screen_ok demo_init [unfolded demo_start_def]] by (simp add: demo_start_def)

lemma demo_vc_sel: "vc_cols demo_vc = 80" "vc_rows demo_vc = 25" "vc_x demo_vc = 0" "vc_y demo_vc = 0" "driver demo_vc = Some vga_con"
  "VGA_ADDR demo_vc 0 0 = 0xC00B8000" "vc_attr demo_vc = 7"
  by (simp_all add: demo_vc_def demo_start_def vgacon_init_def vgacon_startup_def Let_def demo_console_def demo_screen_def demo_vga_def
      VGA_ADDR_def VGA_OFFSET_def phys_to_virt_def PAGE_OFFSET_def zero_vc_def)

lemma demo_console_init:
  "console_init (replicate 8 zero_vc) demo_console = Inr (0, (take 1 (replicate 8 zero_vc) @
      bind_all [Some dummy_con, None, None, None] dummy_con (drop 1 (replicate 8 zero_vc)))[0 := demo_vc], demo_start)"
  using demo_init
  by (simp add: console_init_def register_con_driver_def bind_con_driver_def MAX_NR_CON_DRIVERS_def eval_nat_numeral
      dummy_ops_def vga_ops_def demo_start_def)

text \<open>
  C23: A write without an escape character changes no byte outside the video memory, whatever its bytes, its length and the
  driver; line feeds, tabs, wrapping and scrolling included.
\<close>

theorem plain_text_safe:
  assumes "vc_ok (con_vga c) vc" "27 \<notin> set buf" "con_write buf vc c = (n, vc', c')"
  shows "same_outside (con_vga c) c c'"
  by (rule plain_text_outside [OF assms])

theorem plain_text_safe_witness:
  "same_outside (con_vga demo_start) demo_start (snd (snd (con_write [72, 105, 9, 13, 10] demo_vc demo_start)))"
proof -
  obtain n vc' c' where w: "con_write [72, 105, 9, 13, 10] demo_vc demo_start = (n, vc', c')" by (metis prod_cases3)
  have "27 \<notin> set [72, 105, 9, 13, 10 :: u8]" by simp
  from plain_text_safe [OF demo_vc_ok this w] w show ?thesis by simp
qed

text \<open>
  C24: Writing printable characters that fit on the line shows them: each cell holds the character and the attribute, the
  cursor moves behind the last one and no other byte of memory changes.
\<close>

theorem print_shows:
  assumes "driver vc = Some vga_con" "vc_ok (con_vga c) vc" "list_all printable s"
    and "unat (vc_x vc) + length s \<le> unat (vc_cols vc)" "con_write s vc c = (n, vc', c')"
  shows "n = int (length s) \<and> vc_x vc' = vc_x vc + of_nat (length s) \<and> vc_y vc' = vc_y vc \<and>
    (\<forall>i < length s. scr_readw (con_mem c') (VGA_ADDR vc (vc_y vc) (vc_x vc + of_nat i)) = VGA_ATTR vc (ucast (s ! i))) \<and>
    (\<forall>a. unat a < unat (VGA_ADDR vc (vc_y vc) (vc_x vc)) \<or> unat (VGA_ADDR vc (vc_y vc) (vc_x vc)) + 2 * length s \<le> unat a \<longrightarrow>
      con_mem c' a = con_mem c a)"
proof -
  let ?d = "VGA_ADDR vc (vc_y vc) (vc_x vc)" and ?h = "hide_cursor vga_ops vc c"
  have h: "con_mem ?h = con_mem c" using driver_cursor(2) [of vga_con] by (simp add: hide_cursor_def)
  from con_write_steps [OF assms(1,5)] obtain c1 npar st where
    f: "fold (con_step vga_ops) s (vc, ?h, 0, VT_NORMAL) = (vc', c1, npar, st)"
    and m: "con_mem c' = con_mem c1" and n: "n = int (length s)" by (metis driver_ops.simps(1))
  have r: "vc' = vc\<lparr>vc_x := vc_x vc + of_nat (length s), vc_pos := vc_pos vc + of_nat (2 * length s)\<rparr>"
    "con_mem c' = putcs_loop vc s ?d (con_mem c)"
    using print_steps [OF assms(3,4), of ?h 0] f m h by simp_all
  have cell: "VGA_ADDR vc y (x + of_nat i) = VGA_ADDR vc y x + of_nat (2 * i)" for y x i
    by (simp add: VGA_ADDR_def VGA_OFFSET_def push_bit_eq_mult algebra_simps)
  show ?thesis
  proof (cases "s = []")
    case True
    with r n show ?thesis by simp
  next
    case False
    note b = line_bound [OF assms(2,4) False]
    from putcs_shows [OF b] putcs_other [OF b] n r show ?thesis by (simp add: cell)
  qed
qed

theorem print_shows_witness:
  "scr_readw (con_mem (snd (snd (con_write [72, 105] demo_vc demo_start)))) (VGA_ADDR demo_vc 0 1) = 0x769"
proof -
  obtain n vc' c' where w: "con_write [72, 105] demo_vc demo_start = (n, vc', c')" by (metis prod_cases3)
  have "list_all printable [72, 105]" "unat (vc_x demo_vc) + length [72, 105 :: u8] \<le> unat (vc_cols demo_vc)"
    by (simp_all add: printable_def demo_vc_sel)
  from print_shows [OF demo_vc_sel(5) demo_vc_ok this w]
  have "\<forall>i < 2. scr_readw (con_mem c') (VGA_ADDR demo_vc 0 (of_nat i)) = VGA_ATTR demo_vc (ucast ([72, 105 :: u8] ! i))"
    by (simp add: demo_vc_sel)
  from this [THEN spec, of 1] w show ?thesis by (simp add: VGA_ATTR_def demo_vc_sel)
qed

text \<open>
  The sequence \<^verbatim>\<open>ESC [ row ; col H\<close> with the two numbers in decimal moves the cursor to that row and column, both counted
  from 1, sets the cursor address to that cell and changes no memory.
\<close>

theorem cursor_address:
  assumes "driver vc = Some con" "0 < row" "row \<le> unat (vc_rows vc)" "0 < col" "col \<le> unat (vc_cols vc)"
    and "con_write (cursor_sequence row col) vc c = (n, vc', c')"
  shows "vc_x vc' = of_nat (col - 1) \<and> vc_y vc' = of_nat (row - 1) \<and>
    vc_pos vc' = VGA_ADDR vc (of_nat (row - 1)) (of_nat (col - 1)) \<and> con_mem c' = con_mem c"
proof -
  from con_write_steps [OF assms(1,6)] obtain c1 npar st where
    f: "fold (con_step (driver_ops con)) (cursor_sequence row col) (vc, hide_cursor (driver_ops con) vc c, 0, VT_NORMAL) = (vc', c1, npar, st)"
    and m: "con_mem c' = con_mem c1" by metis
  from cursor_steps [OF assms(2-5) f] m show ?thesis by (simp add: hide_cursor_def driver_cursor)
qed

theorem cursor_address_witness:
  "cursor_sequence 12 40 = [27, 91, 49, 50, 59, 52, 48, 72] \<and>
   (let vc' = fst (snd (con_write (cursor_sequence 12 40) demo_vc demo_start)) in vc_x vc' = 39 \<and> vc_y vc' = 11)"
proof -
  obtain n vc' c' where w: "con_write (cursor_sequence 12 40) demo_vc demo_start = (n, vc', c')" by (metis prod_cases3)
  have "vc_x vc' = of_nat 39 \<and> vc_y vc' = of_nat 11"
    using cursor_address [OF demo_vc_sel(5) _ _ _ _ w] by (simp add: demo_vc_sel)
  moreover have "cursor_sequence 12 40 = [27, 91, 49, 50, 59, 52, 48, 72]"
    by (simp add: cursor_sequence_def dec_rev.simps)
  ultimately show ?thesis unfolding w by simp
qed

text \<open>
  \<^verbatim>\<open>scr_memmovew\<close> to a higher address writes none of the cells it was asked to fill, nor anything below them: both
  pointers are advanced by twice the count, and the loop then runs down over \<^verbatim>\<open>count\<close> cells only.
\<close>

theorem memmovew_misses_destination:
  assumes "\<not> d < s" "unat d + 4 * unat count < 2 ^ 32" "unat a < unat d + 2 * unat count"
  shows "scr_memmovew m d s count a = m a"
  by (rule memmovew_misses [OF assms])

theorem memmovew_misses_destination_witness: "scr_memmovew ((\<lambda>_. 0)(0x1000 := 5)) 0x1002 0x1000 1 0x1002 = 0"
  by (subst memmovew_misses_destination) simp_all

end
