(* ===== verification/Tty_Spec.thy ===== *)
theory Tty_Spec
  imports Tty_Core Vt_Text
begin

text \<open>
  Output processing: the block-wise loop of \<^verbatim>\<open>n_tty_write\<close> sends to a driver that takes what it is given exactly the text
  that a translation character by character defines.  The contract of such a driver is the locale \<open>tty_device\<close>; the
  virtual terminal implements it.
\<close>

section \<open>The reference translation\<close>

definition opost_char :: "tty_struct \<Rightarrow> u8 \<Rightarrow> n_tty_data \<Rightarrow> u8 list \<times> n_tty_data" where
  "opost_char tty c ld =
     (let home = ld\<lparr>column := 0, canon_column := 0\<rparr>;
          spaces = 8 - (column ld AND 7) in
      if c = 10 then
        (if O_ONLCR tty then ([13, 10], home)
         else if O_ONLRET tty then ([10], home)
         else ([10], ld\<lparr>canon_column := column ld\<rparr>))
      else if c = 13 then
        (if O_ONOCR tty \<and> column ld = 0 then ([], ld)
         else if O_OCRNL tty then ([10], if O_ONLRET tty then home else ld)
         else ([13], home))
      else if c = 9 then
        (if O_TABDLY tty = XTABS then replicate (unat spaces) 32 else [9], ld\<lparr>column := column ld + spaces\<rparr>)
      else if c = 8 then ([8], if column ld > 0 then ld\<lparr>column := column ld - 1\<rparr> else ld)
      else ([if \<not> iscntrl c \<and> O_OLCUC tty then toupper c else c], ld))"

fun opost :: "tty_struct \<Rightarrow> u8 list \<Rightarrow> n_tty_data \<Rightarrow> u8 list \<times> n_tty_data" where
  "opost tty [] ld = ([], ld)"
| "opost tty (c # cs) ld =
     (case opost_char tty c ld of (out, ld) \<Rightarrow> (case opost tty cs ld of (outs, ld) \<Rightarrow> (out @ outs, ld)))"

definition n_tty_text :: "tty_struct \<Rightarrow> u8 list \<Rightarrow> n_tty_data \<Rightarrow> u8 list \<times> n_tty_data" where
  "n_tty_text tty buf ld = (if O_OPOST tty then opost tty buf ld else (buf, ld))"

text \<open>The characters that the scan of a block passes are their own translation; one that stops it is translated as before.\<close>

lemma block_char_go: "block_char tty ch ld = (False, ld') \<Longrightarrow> opost_char tty ch ld = ([ch], ld')"
  by (auto simp: block_char_def opost_char_def Let_def split: if_splits)

lemma block_char_stop: "block_char tty ch ld = (True, ld') \<Longrightarrow> opost_char tty ch ld' = opost_char tty ch ld"
  by (auto simp: block_char_def opost_char_def Let_def split: if_splits)

lemma block_scan_spec:
  "block_scan tty bs ld = (i, ld') \<Longrightarrow>
   i \<le> length bs \<and> opost tty (bs @ cs) ld = (take i bs @ fst (opost tty (drop i bs @ cs) ld'), snd (opost tty (drop i bs @ cs) ld'))"
proof (induction bs arbitrary: ld i ld')
  case (Cons ch bs)
  show ?case
  proof (cases "block_char tty ch ld")
    case (Pair stop ld1)
    show ?thesis
    proof (cases stop)
      case True
      with Pair Cons.prems have "i = 0" "ld' = ld1" by auto
      with block_char_stop [of tty ch ld ld1] Pair True show ?thesis by simp
    next
      case False
      obtain j ld2 where s: "block_scan tty bs ld1 = (j, ld2)" by fastforce
      with Pair False Cons.prems have "i = Suc j" "ld' = ld2" by auto
      with Cons.IH [OF s] block_char_go [of tty ch ld ld1] Pair False show ?thesis by simp
    qed
  qed
qed simp

section \<open>Devices\<close>

text \<open>
  The contract: \<open>view\<close> is what the device shows and \<open>feed\<close> what one byte does to it.  In a state that is \<open>ok\<close> the device has
  room, takes every byte, and its view is that of the bytes fed one by one.  \<open>plain\<close> are the bytes of which this
  is claimed.
\<close>

locale tty_device =
  fixes ops :: "'d tty_operations" and wr :: "'d tty_writer" and tty :: tty_struct and ok :: "'d \<Rightarrow> bool"
    and view :: "'d \<Rightarrow> 'v" and feed :: "u8 \<Rightarrow> 'v \<Rightarrow> 'v" and plain :: "u8 \<Rightarrow> bool"
  assumes dev_write: "ok d \<Longrightarrow> list_all plain buf \<Longrightarrow> wr tty buf d = (n, d') \<Longrightarrow>
      n = int (length buf) \<and> ok d' \<and> view d' = fold feed buf (view d)"
    and dev_put: "ok d \<Longrightarrow> plain ch \<Longrightarrow> tty_put_char ops wr tty ch d = (n, d') \<Longrightarrow> ok d' \<and> view d' = feed ch (view d)"
    and dev_room: "ok d \<Longrightarrow> 8 \<le> tty_write_room ops tty d \<and> tty_write_room ops tty d < 2 ^ 32"
    and dev_flush: "op_flush_chars ops = Some f \<Longrightarrow> ok d \<Longrightarrow> ok (f tty d) \<and> view (f tty d) = view d"
    and plain_out: "plain 10" "plain 13" "plain 32" "plain c \<Longrightarrow> plain (toupper c)"
begin

lemma spaces_le: "unat (8 - (x AND 7) :: u32) \<le> 8"
proof -
  have "x AND 7 = take_bit 3 x" by (simp add: take_bit_eq_mask mask_eq_exp_minus_1)
  then have "unat (x AND 7) \<le> 7" using unat_take_bit [of 3 x] by simp
  then show ?thesis by (simp add: unat_sub_no_wrap)
qed

lemma process_output_spec:
  assumes "ok d" "plain c" "opost_char tty c ld = (out, ld')"
  shows "\<exists>d'. process_output ops wr c tty ld d = (0, ld', d') \<and> ok d' \<and> view d' = fold feed out (view d)"
proof -
  let ?w = "\<lambda>s. snd (wr tty s d)" and ?p = "\<lambda>ch. snd (tty_put_char ops wr tty ch d)"
  have w: "ok (?w s) \<and> view (?w s) = fold feed s (view d)" if "list_all plain s" for s
    using dev_write [OF assms(1) that] by (metis prod.collapse)
  have p: "ok (?p ch) \<and> view (?p ch) = feed ch (view d)" if "plain ch" for ch
    using dev_put [OF assms(1) that] by (metis prod.collapse)
  have r: "tty_write_room ops tty d \<noteq> 0" "\<not> tty_write_room ops tty d < 2" "\<not> tty_write_room ops tty d < 8"
    "\<not> tty_write_room ops tty d < int (unat (8 - (x AND 7) :: u32))" for x
    using dev_room [OF assms(1)] spaces_le [of x] by linarith+
  have crlf: "list_all plain [13, 10]" and sp: "list_all plain (replicate k 32)" for k
    using plain_out(1-3) by (auto simp: list_all_iff)
  have p': "plain (if b then toupper c else c)" for b using assms(2) plain_out(4) by simp
  show ?thesis using assms(1,3) p [OF assms(2)] p [OF plain_out(1)] p [OF p'] w [OF crlf] w [OF sp] r
    by (auto simp: process_output_def do_output_char_def opost_char_def Let_def split: if_splits)
qed

lemma process_output_block_spec:
  assumes "ok d" "list_all plain bs"
  shows "\<exists>n ld' d'. process_output_block ops wr tty bs ld d = (int n, ld', d') \<and> n \<le> length bs \<and> ok d' \<and>
    view d' = fold feed (take n bs) (view d) \<and>
    opost tty bs ld = (take n bs @ fst (opost tty (drop n bs) ld'), snd (opost tty (drop n bs) ld'))"
proof -
  let ?room = "tty_write_room ops tty d"
  define k where "k = (if int (length bs) > ?room mod 2 ^ 32 then nat (?room mod 2 ^ 32) else length bs)"
  have k: "k \<le> length bs" "(if int (length bs) > ?room mod 2 ^ 32 then take (nat (?room mod 2 ^ 32)) bs else bs) = take k bs"
    by (auto simp: k_def)
  obtain i ld' where s: "block_scan tty (take k bs) ld = (i, ld')" by fastforce
  obtain n d' where w: "wr tty (take i (take k bs)) d = (n, d')" by fastforce
  have i: "i \<le> k" "opost tty bs ld = (take i bs @ fst (opost tty (drop i bs) ld'), snd (opost tty (drop i bs) ld'))"
  proof -
    note b = block_scan_spec [OF s, of "drop k bs"]
    then show "i \<le> k" using k(1) by simp
    then have "drop i (take k bs) @ drop k bs = drop i bs" by (metis append_take_drop_id drop_append drop_take length_take min.absorb2 k(1) diff_is_0_eq drop0)
    with b \<open>i \<le> k\<close> show "opost tty bs ld = (take i bs @ fst (opost tty (drop i bs) ld'), snd (opost tty (drop i bs) ld'))"
      by (simp add: min_absorb1)
  qed
  have "list_all plain (take i (take k bs))" using assms(2) by (auto simp: list_all_iff dest: in_set_takeD)
  from dev_write [OF assms(1) this w] have "n = int i" "ok d'" "view d' = fold feed (take i bs) (view d)"
    using i(1) k(1) by (simp_all add: min_absorb1)
  moreover have "process_output_block ops wr tty bs ld d = (n, ld', d')"
  proof -
    have "?room \<noteq> 0" using dev_room [OF assms(1)] by linarith
    then show ?thesis unfolding process_output_block_def Let_def k(2) s prod.case w by simp
  qed
  ultimately show ?thesis using i k(1) by (intro exI [of _ i]) auto
qed

text \<open>Every round of the loop consumes a character.\<close>

lemma opost_loop_spec:
  assumes "ok d" "list_all plain bs"
  shows "\<exists>d'. opost_loop ops wr tty n bs ld d = Some (0, n + length bs, snd (opost tty bs ld), d') \<and> ok d' \<and>
    view d' = fold feed (fst (opost tty bs ld)) (view d)"
  using assms
proof (induction bs arbitrary: n ld d rule: length_induct)
  case (1 bs)
  show ?case
  proof (cases "bs = []")
    case True
    with 1(2) show ?thesis by (simp add: opost_loop.simps)
  next
    case False
    obtain k ld1 d1 where b: "process_output_block ops wr tty bs ld d = (int k, ld1, d1)" "k \<le> length bs" "ok d1"
      "view d1 = fold feed (take k bs) (view d)"
      "opost tty bs ld = (take k bs @ fst (opost tty (drop k bs) ld1), snd (opost tty (drop k bs) ld1))"
      using process_output_block_spec [OF 1(2,3)] by blast
    show ?thesis
    proof (cases "drop k bs")
      case Nil
      with b have "opost_loop ops wr tty n bs ld d = Some (0, n + length bs, ld1, d1)" "opost tty bs ld = (bs, ld1)"
        using False by (auto simp: opost_loop.simps [of ops wr tty n bs])
      with Nil b show ?thesis by auto
    next
      case (Cons c cs)
      have pl: "plain c" "list_all plain cs" using 1(3) Cons by (metis append_take_drop_id list.pred_inject(2) list_all_append)+
      obtain out ld2 where oc: "opost_char tty c ld1 = (out, ld2)" by fastforce
      obtain d2 where p: "process_output ops wr c tty ld1 d1 = (0, ld2, d2)" "ok d2" "view d2 = fold feed out (view d1)"
        using process_output_spec [OF b(3) pl(1) oc] by blast
      have len: "length bs = k + 1 + length cs" using Cons b(2) by (metis add.assoc append_take_drop_id length_Cons length_append length_take min.absorb2 plus_1_eq_Suc)
      then have "length cs < length bs" by simp
      with 1(1) p(2) pl(2) obtain d3 where l: "opost_loop ops wr tty (n + k + 1) cs ld2 d2 = Some (0, n + k + 1 + length cs, snd (opost tty cs ld2), d3)"
        "ok d3" "view d3 = fold feed (fst (opost tty cs ld2)) (view d2)" by blast
      have "opost_loop ops wr tty n bs ld d = opost_loop ops wr tty (n + k + 1) cs ld2 d2"
        using False Cons b(1) p(1) by (simp add: opost_loop.simps [of ops wr tty n bs])
      moreover have "opost tty bs ld = (take k bs @ out @ fst (opost tty cs ld2), snd (opost tty cs ld2))"
        using b(5) Cons oc by (simp add: split_beta)
      ultimately show ?thesis using l p(3) b(4) len by simp
    qed
  qed
qed

lemma raw_loop_spec:
  assumes "ok d" "list_all plain bs"
  shows "\<exists>d'. raw_loop wr tty n bs d = (0, n + length bs, d') \<and> ok d' \<and> view d' = fold feed bs (view d)"
proof (cases "bs = []")
  case True
  with assms show ?thesis by (simp add: raw_loop.simps)
next
  case False
  obtain m d' where w: "wr tty bs d = (m, d')" by fastforce
  from dev_write [OF assms w] have "m = int (length bs)" "ok d'" "view d' = fold feed bs (view d)" by auto
  with False w show ?thesis by (simp add: raw_loop.simps [of wr tty n bs] raw_loop.simps [of wr tty _ "[]"])
qed

lemma n_tty_write_spec:
  assumes "ok d" "list_all plain buf"
  shows "\<exists>d'. n_tty_write ops wr tty buf ld d = Some (int (length buf), snd (n_tty_text tty buf ld), d') \<and> ok d' \<and>
    view d' = fold feed (fst (n_tty_text tty buf ld)) (view d)"
proof (cases "O_OPOST tty")
  case True
  obtain d' where l: "opost_loop ops wr tty 0 buf ld d = Some (0, length buf, snd (opost tty buf ld), d')" "ok d'"
    "view d' = fold feed (fst (opost tty buf ld)) (view d)" using opost_loop_spec [OF assms, of 0 ld] by auto
  show ?thesis
  proof (cases "op_flush_chars ops")
    case None
    with True l show ?thesis by (simp add: n_tty_write_def n_tty_text_def)
  next
    case (Some f)
    with True l dev_flush [OF Some l(2)] show ?thesis by (simp add: n_tty_write_def n_tty_text_def)
  qed
next
  case False
  with raw_loop_spec [OF assms, of 0] show ?thesis by (auto simp: n_tty_write_def n_tty_text_def)
qed

end

section \<open>A device without room\<close>

lemma opost_loop_stuck:
  assumes "tty_write_room ops tty d = 0" "bs \<noteq> []"
  shows "opost_loop ops wr tty n bs ld d = None"
proof (rule ccontr)
  assume "opost_loop ops wr tty n bs ld d \<noteq> None"
  then obtain r where "opost_loop ops wr tty n bs ld d = Some r" by blast
  then have "tty_write_room ops tty d = 0 \<longrightarrow> bs = []"
  proof (rule opost_loop.raw_induct [where P = "\<lambda>ops wr tty n bs ld d r. tty_write_room ops tty d = 0 \<longrightarrow> bs = []", rotated], goal_cases)
    case (1 f ops wr tty n bs ld d y)
    show ?case
    proof (intro impI, rule ccontr)
      assume z: "tty_write_room ops tty d = 0" "bs \<noteq> []"
      with 1(2) have "f ops wr tty n bs ld d = Some y"
        by (simp add: process_output_block_def process_output_def do_output_char_def Let_def)
      from 1(1) [OF this] z show False by blast
    qed
  qed
  with assms show False by simp
qed

section \<open>The virtual terminal as a device\<close>

text \<open>What a console shows: everything but the log of bytes sent to ports, which also records the movements of the hardware cursor.\<close>

definition quiet :: "console \<Rightarrow> console" where
  "quiet c = c\<lparr>con_out := []\<rparr>"

definition con_view :: "vc_struct \<times> console \<Rightarrow> vc_struct \<times> console" where
  "con_view d = (fst d, quiet (snd d))"

definition con_feed :: "con_driver \<Rightarrow> u8 \<Rightarrow> vc_struct \<times> console \<Rightarrow> vc_struct \<times> console" where
  "con_feed con ch d = (case con_step (driver_ops con) ch (fst d, snd d, 0, VT_NORMAL) of (vc, c, _) \<Rightarrow> (vc, quiet c))"

lemma quiet_simps [simp]:
  "con_mem (quiet c) = con_mem c" "con_screen (quiet c) = con_screen c" "con_vga (quiet c) = con_vga c"
  "quiet (c\<lparr>con_mem := m\<rparr>) = (quiet c)\<lparr>con_mem := m\<rparr>" "quiet (quiet c) = quiet c" "quiet (write_vga reg v c) = quiet c"
  by (simp_all add: quiet_def write_vga_def)

lemma quiet_cursor [simp]: "quiet (con_cursor (driver_ops con) vc mode c) = quiet c"
  by (cases con; cases mode) (simp_all add: vga_ops_def dummy_ops_def vgacon_cursor_def vga_set_cursor_def Let_def)

text \<open>Scrolling and drawing do not depend on the log.\<close>

lemma quiet_scroll:
  "con_scroll (driver_ops con) vc dir k c = (vc', c') \<Longrightarrow>
   driver vc' = driver vc \<and> (\<exists>c''. con_scroll (driver_ops con) vc dir k (quiet c) = (vc', c'') \<and> quiet c'' = quiet c')"
  by (cases con)
    (auto simp: vga_ops_def dummy_ops_def vgacon_scroll_def vga_set_mem_top_def vga_set_cursor_def Let_def split: vwin.splits if_splits)

lemma quiet_putc: "quiet (con_putc (driver_ops con) vc ch y x c) = con_putc (driver_ops con) vc ch y x (quiet c)"
  by (cases con) (simp_all add: vga_ops_def dummy_ops_def vgacon_putc_def)

lemma quiet_line_feed:
  "fst (line_feed (driver_ops con) vc (quiet c)) = fst (line_feed (driver_ops con) vc c)"
  "quiet (snd (line_feed (driver_ops con) vc (quiet c))) = quiet (snd (line_feed (driver_ops con) vc c))"
  "driver (fst (line_feed (driver_ops con) vc c)) = driver vc"
proof -
  obtain v1 c1 where s: "con_scroll (driver_ops con) vc VWIN_DOWN 1 c = (v1, c1)" by fastforce
  from quiet_scroll [OF s] obtain c2 where "driver v1 = driver vc" "con_scroll (driver_ops con) vc VWIN_DOWN 1 (quiet c) = (v1, c2)"
    "quiet c2 = quiet c1" by blast
  with s show "fst (line_feed (driver_ops con) vc (quiet c)) = fst (line_feed (driver_ops con) vc c)"
    "quiet (snd (line_feed (driver_ops con) vc (quiet c))) = quiet (snd (line_feed (driver_ops con) vc c))"
    "driver (fst (line_feed (driver_ops con) vc c)) = driver vc" by (simp_all add: line_feed_def scrdown_def)
qed

text \<open>The effect of a byte that is not an escape character, with its local variables left out.\<close>

definition plain_step :: "con_ops \<Rightarrow> u8 \<Rightarrow> vc_struct \<times> console \<Rightarrow> vc_struct \<times> console" where
  "plain_step ops ch d =
     (if ch > 31 \<and> ch < 127 then put_printable ops ch (fst d) (snd d)
      else if ch = 8 then (backspace (fst d), snd d)
      else if ch = 9 then horizontal_tab ops (fst d) (snd d)
      else if ch = 10 \<or> ch = 11 \<or> ch = 12 then line_feed ops (fst d) (snd d)
      else if ch = 13 then (carriage_return (fst d), snd d)
      else d)"

lemma con_step_plain:
  "ch \<noteq> 27 \<Longrightarrow> con_step ops ch (vc, c, n, VT_NORMAL) = (fst (plain_step ops ch (vc, c)), snd (plain_step ops ch (vc, c)), n, VT_NORMAL)"
  by (simp add: vt_normal_def plain_step_def Let_def split_beta)

lemma con_steps_plain:
  "27 \<notin> set buf \<Longrightarrow> fold (con_step ops) buf (vc, c, n, VT_NORMAL) =
    (fst (fold (plain_step ops) buf (vc, c)), snd (fold (plain_step ops) buf (vc, c)), n, VT_NORMAL)"
  by (induction buf arbitrary: vc c) (simp_all add: con_step_plain del: con_step.simps)

lemma view_put: "con_view (put_printable (driver_ops con) ch vc (quiet c)) = con_view (put_printable (driver_ops con) ch vc c)"
  "driver (fst (put_printable (driver_ops con) ch vc c)) = driver vc"
  by (simp_all add: put_printable_def con_view_def Let_def split_beta quiet_line_feed quiet_putc)

lemma view_tab: "con_view (horizontal_tab (driver_ops con) vc (quiet c)) = con_view (horizontal_tab (driver_ops con) vc c)"
  "driver (fst (horizontal_tab (driver_ops con) vc c)) = driver vc"
  by (simp_all add: horizontal_tab_def con_view_def Let_def split_beta quiet_line_feed)

lemma view_lf: "con_view (line_feed (driver_ops con) vc (quiet c)) = con_view (line_feed (driver_ops con) vc c)"
  by (simp add: con_view_def quiet_line_feed)

lemma plain_step_view:
  "con_view (plain_step (driver_ops con) ch (con_view d)) = con_view (plain_step (driver_ops con) ch d)"
  "driver (fst (plain_step (driver_ops con) ch d)) = driver (fst d)"
  by (cases d; simp add: plain_step_def view_put view_tab view_lf con_view_def [of d] con_view_def [of "(v, e)" for v e])
    (cases d; simp add: plain_step_def view_put view_tab quiet_line_feed backspace_def carriage_return_def)

lemma plain_steps_view:
  "con_view (fold (plain_step (driver_ops con)) buf d) = fold (\<lambda>ch d. con_view (plain_step (driver_ops con) ch d)) buf (con_view d)"
  "driver (fst (fold (plain_step (driver_ops con)) buf d)) = driver (fst d)"
  by (induction buf arbitrary: d) (simp_all add: plain_step_view)

lemma con_feed_eq: "ch \<noteq> 27 \<Longrightarrow> con_feed con ch d = con_view (plain_step (driver_ops con) ch d)"
  by (simp add: con_feed_def con_step_plain con_view_def del: con_step.simps)

text \<open>A write without an escape character shows the bytes one by one.\<close>

lemma con_write_view:
  assumes "driver vc = Some con" "27 \<notin> set buf" "con_write buf vc c = (n, vc', c')"
  shows "n = int (length buf) \<and> driver vc' = Some con \<and> con_view (vc', c') = fold (con_feed con) buf (con_view (vc, c))"
proof -
  let ?h = "hide_cursor (driver_ops con) vc c" and ?f = "fold (plain_step (driver_ops con)) buf"
  have h: "con_view (vc, ?h) = con_view (vc, c)" by (simp add: con_view_def hide_cursor_def)
  have r: "n = int (length buf)" "vc' = fst (?f (vc, ?h))" "quiet c' = quiet (snd (?f (vc, ?h)))"
    using assms by (auto simp: con_write_def con_steps_plain Let_def set_cursor_def)
  then have "con_view (vc', c') = con_view (?f (vc, ?h))" by (simp add: con_view_def)
  also have "\<dots> = fold (\<lambda>ch d. con_view (plain_step (driver_ops con) ch d)) buf (con_view (vc, c))"
    by (simp only: plain_steps_view h)
  also have "\<dots> = fold (con_feed con) buf (con_view (vc, c))"
    using assms(2) by (intro fold_cong refl) (auto simp: fun_eq_iff intro!: con_feed_eq [symmetric])
  finally show ?thesis using r(1,2) plain_steps_view(2) [of con buf "(vc, ?h)"] assms(1) by simp
qed

lemma toupper_not_escape: "c \<noteq> 27 \<Longrightarrow> toupper c \<noteq> 27"
proof
  assume "c \<noteq> 27" "toupper c = 27"
  then have "islower c" "c - (97 - 65) = 27" by (auto simp: toupper_def split: if_splits)
  then have "c = 59" by (simp add: diff_eq_eq)
  moreover have "\<not> islower 59" by code_simp
  ultimately show False using \<open>islower c\<close> by simp
qed

interpretation con_tty: tty_device console_tty_ops con_writer tty "\<lambda>d. \<not> tty_stopped tty \<and> driver (fst d) = Some con" con_view "con_feed con" "\<lambda>ch. ch \<noteq> 27"
  for tty con
proof unfold_locales
  fix d buf n d'
  assume "\<not> tty_stopped tty \<and> driver (fst d) = Some con" "list_all (\<lambda>ch. ch \<noteq> (27 :: u8)) buf" "con_writer tty buf d = (n, d')"
  then show "n = int (length buf) \<and> (\<not> tty_stopped tty \<and> driver (fst d') = Some con) \<and> con_view d' = fold (con_feed con) buf (con_view d)"
    using con_write_view [of "fst d" con buf "snd d" n "fst d'" "snd d'"] by (auto simp: con_writer_def list_all_iff)
next
  fix d ch n d'
  assume "\<not> tty_stopped tty \<and> driver (fst d) = Some con" "ch \<noteq> (27 :: u8)" "tty_put_char console_tty_ops con_writer tty ch d = (n, d')"
  then show "(\<not> tty_stopped tty \<and> driver (fst d') = Some con) \<and> con_view d' = con_feed con ch (con_view d)"
    using con_write_view [of "fst d" con "[ch]" "snd d" n "fst d'" "snd d'"]
    by (auto simp: tty_put_char_def console_tty_ops_def con_put_char_def)
qed (auto simp: tty_write_room_def console_tty_ops_def con_write_room_def toupper_not_escape)

lemma opost_char_plain: "c \<noteq> 27 \<Longrightarrow> opost_char tty c ld = (out, ld') \<Longrightarrow> 27 \<notin> set out"
  using toupper_not_escape [of c] by (auto simp: opost_char_def Let_def split: if_splits)

lemma opost_plain: "27 \<notin> set buf \<Longrightarrow> 27 \<notin> set (fst (opost tty buf ld))"
proof (induction buf arbitrary: ld)
  case (Cons c buf)
  obtain out ld1 where o: "opost_char tty c ld = (out, ld1)" by fastforce
  with Cons opost_char_plain [OF _ o] show ?case by (auto simp: split_beta)
qed simp

lemma n_tty_text_plain: "27 \<notin> set buf \<Longrightarrow> 27 \<notin> set (fst (n_tty_text tty buf ld))"
  using opost_plain by (simp add: n_tty_text_def)

section \<open>Writing to the console terminal\<close>

text \<open>The state that \<^verbatim>\<open>tty_init\<close> leaves and every write keeps.\<close>

definition console_ready :: "con_driver \<Rightarrow> tty_sys \<Rightarrow> bool" where
  "console_ready con sys \<longleftrightarrow>
     (let tty = tty_table sys ! 0 in
      tty_table sys \<noteq> [] \<and> sys_vcs sys \<noteq> [] \<and> driver (sys_vcs sys ! 0) = Some con \<and>
      tty_ops tty = Some console_ops \<and> \<not> tty_stopped tty \<and> tty_write_cnt tty = int TTY_WRITE_BUF_SIZE \<and>
      tty_driver_data tty = Some 0 \<and> tty_ldisc_data tty = Some tmp_ldata \<and>
      map_option ld_ops (Option.bind (tty_ldisc tty) (ldiscs (sys_ldiscs sys))) = Some tty_ldisc_N_TTY)"

text \<open>The console of a state: the first virtual terminal and the hardware.\<close>

definition sys_console :: "tty_sys \<Rightarrow> vc_struct \<times> console" where
  "sys_console sys = (sys_vcs sys ! 0, sys_con sys)"

text \<open>What the terminal receives for a text, in the current settings and column.\<close>

definition cooked :: "tty_sys \<Rightarrow> u8 list \<Rightarrow> u8 list" where
  "cooked sys buf = fst (n_tty_text (tty_table sys ! 0) buf (sys_ldata sys))"

lemma n_tty_text_cong: "c_oflag (tty_termios tty) = c_oflag (tty_termios tty') \<Longrightarrow> n_tty_text tty = n_tty_text tty'"
proof -
  assume a: "c_oflag (tty_termios tty) = c_oflag (tty_termios tty')"
  then have f: "O_FLAG tty = O_FLAG tty'" by (simp add: fun_eq_iff O_FLAG_def)
  then have "O_ONLCR tty = O_ONLCR tty'" "O_ONLRET tty = O_ONLRET tty'" "O_ONOCR tty = O_ONOCR tty'" "O_OCRNL tty = O_OCRNL tty'"
    "O_OLCUC tty = O_OLCUC tty'" "O_TABDLY tty = O_TABDLY tty'"
    by (simp_all add: O_ONLCR_def O_ONLRET_def O_ONOCR_def O_OCRNL_def O_OLCUC_def O_TABDLY_def)
  then have "opost_char tty c ld = opost_char tty' c ld" for c ld by (simp only: opost_char_def)
  then have "opost tty buf ld = opost tty' buf ld" for buf ld by (induction buf arbitrary: ld) simp_all
  with f show ?thesis by (simp add: fun_eq_iff n_tty_text_def O_OPOST_def)
qed

lemma console_readyD:
  assumes "console_ready con sys"
  obtains ld where "Option.bind (tty_ldisc_ref_wait (tty_table sys ! 0)) (ldiscs (sys_ldiscs sys)) = Some ld" "ldisc_write (ld_ops ld) = Some (n_tty_write console_tty_ops con_writer)"
  using assms by (auto simp: console_ready_def Let_def tty_ldisc_ref_wait_def ldisc_write_def)

lemma tty_write_view:
  assumes "console_ready con sys" "27 \<notin> set buf" "length buf \<le> TTY_WRITE_BUF_SIZE"
  shows "\<exists>sys'. tty_write warn buf sys = Some (Inr (int (length buf), sys')) \<and> console_ready con sys' \<and>
    con_view (sys_console sys') = fold (con_feed con) (cooked sys buf) (con_view (sys_console sys)) \<and>
    sys_ldata sys' = snd (n_tty_text (tty_table sys ! 0) buf (sys_ldata sys)) \<and>
    tty_termios (tty_table sys' ! 0) = tty_termios (tty_table sys ! 0)"
proof -
  let ?tty = "tty_table sys ! 0"
  let ?t = "?tty\<lparr>tty_write_buf := buf @ drop (length buf) (tty_write_buf ?tty)\<rparr>" and ?d = "sys_console sys"
  obtain ld where ld: "Option.bind (tty_ldisc_ref_wait ?tty) (ldiscs (sys_ldiscs sys)) = Some ld" "ldisc_write (ld_ops ld) = Some (n_tty_write console_tty_ops con_writer)"
    using console_readyD [OF assms(1)] .
  have rdy: "tty_ops ?tty = Some console_ops" "tty_driver_data ?tty = Some 0" "tty_ldisc_data ?tty = Some tmp_ldata"
    "\<not> int (length buf) > tty_write_cnt ?tty mod 2 ^ 32" "\<not> tty_stopped ?t" "driver (fst ?d) = Some con"
    "tty_table sys \<noteq> []" "sys_vcs sys \<noteq> []"
    using assms(1,3) by (simp_all add: console_ready_def Let_def sys_console_def TTY_WRITE_BUF_SIZE_def)
  have "list_all (\<lambda>ch. ch \<noteq> 27) buf" using assms(2) by (auto simp: list_all_iff)
  from con_tty.n_tty_write_spec [of ?t ?d con buf "sys_ldata sys"] rdy(5,6) this obtain d' where
    w: "n_tty_write console_tty_ops con_writer ?t buf (sys_ldata sys) ?d = Some (int (length buf), snd (n_tty_text ?t buf (sys_ldata sys)), d')"
    "driver (fst d') = Some con" "con_view d' = fold (con_feed con) (fst (n_tty_text ?t buf (sys_ldata sys))) (con_view ?d)" by auto
  have t: "n_tty_text ?t = n_tty_text ?tty" by (rule n_tty_text_cong) simp
  let ?s = "sys\<lparr>tty_table := (tty_table sys)[0 := ?t], sys_ldata := snd (n_tty_text ?tty buf (sys_ldata sys)),
      sys_vcs := (sys_vcs sys)[0 := fst d'], sys_con := snd d'\<rparr>"
  have "tty_write warn buf sys = Some (Inr (int (length buf), ?s))"
    using rdy(1-4) ld w(1) unfolding tty_write_def do_tty_write_def copy_from_user_def t sys_console_def Let_def
    by (simp add: console_tty_ops_def [THEN arg_cong, of op_write] split_beta)
  moreover have "console_ready con ?s"
    using assms(1) rdy(7,8) w(2) by (simp add: console_ready_def Let_def)
  moreover have "sys_console ?s = d'" using rdy(8) by (simp add: sys_console_def)
  ultimately show ?thesis using w(3) t rdy(7) by (intro exI [of _ ?s]) (simp add: cooked_def)
qed

section \<open>The list of drivers\<close>

text \<open>The registered drivers, in the order in which \<^verbatim>\<open>tty_print_drivers\<close> visits them: the last one registered comes first.\<close>

lemma register_driver_list:
  assumes "clist h head xs" "node \<notin> set (head # xs)" "tty_register_driver head (Some (node, drv)) h = (ret, Some (node', drv'), h')"
  shows "ret = 0 \<and> clist h' head (node # xs) \<and> list_for_each h' head = Some (node # xs) \<and> bit (drv_flags drv') 0"
proof -
  have "clist h' head (node # xs)" "ret = 0" "drv' = drv\<lparr>drv_flags := drv_flags drv OR TTY_DRIVER_INSTALLED\<rparr>"
    using assms clist_add [OF assms(1,2)] by (auto simp: tty_register_driver_def)
  then show ?thesis using clist_for_each by (simp add: TTY_DRIVER_INSTALLED_def bit_or_iff)
qed

lemma unregister_driver_list:
  assumes "clist h head (xs @ node # ys)" "tty_unregister_driver (Some (node, drv)) h = (ret, h')"
  shows "ret = 0 \<and> clist h' head (xs @ ys) \<and> list_for_each h' head = Some (xs @ ys)"
  using assms clist_del [OF assms(1)] clist_for_each by (auto simp: tty_unregister_driver_def)

text \<open>
  \<^verbatim>\<open>alloc_tty_struct\<close> clears the flag that \<^verbatim>\<open>tty_ldisc_open\<close> has just set, and attaches \<^verbatim>\<open>tmp_ldisc\<close> without counting the
  reference.
\<close>

lemma alloc_loses_open_flag:
  assumes "idx < length (tty_table sys)"
  shows "\<not> bit (tty_flags (tty_table (alloc_tty_struct drv idx sys) ! idx)) TTY_LDISC_OPEN"
    "ldo_refcount (ldops (sys_ldiscs (alloc_tty_struct drv idx sys)) p) = ldo_refcount (ldops (sys_ldiscs sys) p)"
  using assms by (simp_all add: alloc_tty_struct_def Let_def)

end
