(* ===== verification/Tty_Ldisc_Spec.thy ===== *)
theory Tty_Ldisc_Spec
  imports Tty_Ldisc
begin

text \<open>
  What the line discipline layer does in this kernel, whose \<^verbatim>\<open>kmalloc\<close> returns null: an abstract specification with a table of
  disciplines and their numbers, but no reference counts, and the proof that the layer refines it.
\<close>

section \<open>The abstract layer\<close>

text \<open>The registered disciplines by number, and the number that each discipline was last registered with.\<close>

record abs_ldiscs =
  al_table :: "int \<rightharpoonup> nat"
  al_num :: "nat \<Rightarrow> int"

datatype ldisc_call = Register int nat | Unregister int | Change tty_struct int

text \<open>
  The outcome of a call: its return value and, for a change, the terminal.  No discipline can be attached: a change to
  another one than the terminal has ends with an error and leaves the terminal as it is.  No discipline is ever busy.
\<close>

definition change_code :: "abs_ldiscs \<Rightarrow> nat \<Rightarrow> int \<Rightarrow> int" where
  "change_code a old disc =
     (if al_num a old = disc then 0 else if al_table a disc = None then - EINVAL else - ENOMEM)"

fun abs_call :: "(nat \<Rightarrow> tty_ldisc_obj option) \<Rightarrow> ldisc_call \<Rightarrow> abs_ldiscs \<Rightarrow> ((int \<times> tty_struct option) \<times> abs_ldiscs) kres" where
  "abs_call objs (Register disc p) a =
     (if 0 \<le> disc \<and> disc < NR_LDISCS
      then Inr ((0, None), a\<lparr>al_table := (al_table a)(disc \<mapsto> p), al_num := (al_num a)(p := disc)\<rparr>)
      else Inr ((- EINVAL, None), a))"
| "abs_call objs (Unregister disc) a =
     (if 0 \<le> disc \<and> disc < NR_LDISCS
      then if al_table a disc = None then Inl NullDeref else Inr ((0, None), a\<lparr>al_table := (al_table a)(disc := None)\<rparr>)
      else Inr ((- EINVAL, None), a))"
| "abs_call objs (Change tty disc) a =
     (case tty_ldisc tty of
        None \<Rightarrow> Inl BugOn
      | Some oa \<Rightarrow> (case objs oa of None \<Rightarrow> Inl NullDeref | Some old \<Rightarrow> Inr ((change_code a (ld_ops old) disc, Some tty), a)))"

fun abs_calls :: "(nat \<Rightarrow> tty_ldisc_obj option) \<Rightarrow> ldisc_call list \<Rightarrow> abs_ldiscs \<Rightarrow> ((int \<times> tty_struct option) list \<times> abs_ldiscs) kres" where
  "abs_calls objs [] a = Inr ([], a)"
| "abs_calls objs (c # cs) a =
     kbind (abs_call objs c a) (\<lambda>(r, a). kbind (abs_calls objs cs a) (\<lambda>(rs, a). Inr (r # rs, a)))"

section \<open>The calls of the layer\<close>

fun ldisc_do :: "(nat \<Rightarrow> ldisc_fns) \<Rightarrow> nat \<Rightarrow> ldisc_call \<Rightarrow> ldisc_state \<Rightarrow> ((int \<times> tty_struct option) \<times> ldisc_state) kres" where
  "ldisc_do fns t (Register disc p) s = (case tty_register_ldisc disc p s of (ret, s) \<Rightarrow> Inr ((ret, None), s))"
| "ldisc_do fns t (Unregister disc) s = kbind (tty_unregister_ldisc disc s) (\<lambda>(ret, s). Inr ((ret, None), s))"
| "ldisc_do fns t (Change tty disc) s = kbind (tty_ldisc_change fns t tty disc s) (\<lambda>(ret, tty, s). Inr ((ret, Some tty), s))"

fun ldisc_dos :: "(nat \<Rightarrow> ldisc_fns) \<Rightarrow> nat \<Rightarrow> ldisc_call list \<Rightarrow> ldisc_state \<Rightarrow> ((int \<times> tty_struct option) list \<times> ldisc_state) kres" where
  "ldisc_dos fns t [] s = Inr ([], s)"
| "ldisc_dos fns t (c # cs) s =
     kbind (ldisc_do fns t c s) (\<lambda>(r, s). kbind (ldisc_dos fns t cs s) (\<lambda>(rs, s). Inr (r # rs, s)))"

definition ld_abs :: "ldisc_state \<Rightarrow> abs_ldiscs" where
  "ld_abs s = \<lparr>al_table = (\<lambda>d. if 0 \<le> d \<and> d < NR_LDISCS then tty_ldiscs s ! nat d else None), al_num = (\<lambda>p. ldo_num (ldops s p))\<rparr>"

definition no_refs :: "ldisc_state \<Rightarrow> bool" where
  "no_refs s \<longleftrightarrow> length (tty_ldiscs s) = nat NR_LDISCS \<and> (\<forall>p. ldo_refcount (ldops s p) = 0)"

lemma upd_ops_sel [simp]:
  "ldops (upd_ops p f s) = (ldops s)(p := f (ldops s p))" "tty_ldiscs (upd_ops p f s) = tty_ldiscs s" "ldiscs (upd_ops p f s) = ldiscs s"
  by (simp_all add: upd_ops_def)

text \<open>Taking a reference and dropping it is the identity.\<close>

lemma put_get: "put_ldops p (upd_ops p (\<lambda>o'. o'\<lparr>ldo_refcount := ldo_refcount o' + 1\<rparr>) s) = s"
  by (simp add: put_ldops_def upd_ops_def)

lemma ldisc_get_fails:
  "tty_ldisc_get t disc s =
     (Inl (if disc < N_TTY \<or> disc \<ge> NR_LDISCS \<or> tty_ldiscs s ! nat disc = None then - EINVAL else - ENOMEM), s)"
  by (auto simp: tty_ldisc_get_def get_ldops_def kmalloc_def put_get split: option.splits)

lemma change_refines:
  assumes "tty_ldisc tty = Some oa" "ldiscs s oa = Some old"
  shows "tty_ldisc_change fns t tty disc s = Inr (change_code (ld_abs s) (ld_ops old) disc, tty, s)"
  using assms by (auto simp: tty_ldisc_change_def ldisc_get_fails change_code_def ld_abs_def N_TTY_def)

lemma init_panics: "tty_ldisc_init t tty s = Inl Panic"
  by (simp add: tty_ldisc_init_def ldisc_get_fails)

lemma register_refines:
  assumes "no_refs s" "tty_register_ldisc disc p s = (ret, s')"
  shows "abs_call objs (Register disc p) (ld_abs s) = Inr ((ret, None), ld_abs s') \<and> no_refs s' \<and> ldiscs s' = ldiscs s"
proof (cases "0 \<le> disc \<and> disc < NR_LDISCS")
  case True
  with assms(1) have "nat disc < length (tty_ldiscs s)" by (simp add: no_refs_def)
  moreover have "nat d = nat disc \<longleftrightarrow> d = disc" if "0 \<le> d" for d using True that by auto
  ultimately show ?thesis
    using True assms by (auto simp: tty_register_ldisc_def N_TTY_def ld_abs_def no_refs_def fun_eq_iff nth_list_update)
next
  case False
  with assms show ?thesis by (auto simp: tty_register_ldisc_def N_TTY_def)
qed

lemma unregister_refines:
  assumes "no_refs s"
  shows "case tty_unregister_ldisc disc s of
      Inl e \<Rightarrow> abs_call objs (Unregister disc) (ld_abs s) = Inl e
    | Inr (ret, s') \<Rightarrow> abs_call objs (Unregister disc) (ld_abs s) = Inr ((ret, None), ld_abs s') \<and> no_refs s' \<and> ldiscs s' = ldiscs s"
proof (cases "0 \<le> disc \<and> disc < NR_LDISCS")
  case True
  with assms have "nat disc < length (tty_ldiscs s)" by (simp add: no_refs_def)
  moreover have "nat d = nat disc \<longleftrightarrow> d = disc" if "0 \<le> d" for d using True that by auto
  ultimately show ?thesis
    using True assms by (auto simp: tty_unregister_ldisc_def N_TTY_def ld_abs_def no_refs_def fun_eq_iff nth_list_update split: option.splits)
next
  case False
  with assms show ?thesis by (auto simp: tty_unregister_ldisc_def N_TTY_def)
qed

lemma ldisc_do_refines:
  assumes "no_refs s"
  shows "case ldisc_do fns t c s of
      Inl e \<Rightarrow> abs_call (ldiscs s) c (ld_abs s) = Inl e
    | Inr (r, s') \<Rightarrow> abs_call (ldiscs s) c (ld_abs s) = Inr (r, ld_abs s') \<and> no_refs s' \<and> ldiscs s' = ldiscs s"
proof (cases c)
  case (Register disc p)
  with register_refines [OF assms] show ?thesis by (auto split: prod.splits)
next
  case (Unregister disc)
  with unregister_refines [OF assms, where disc = disc and objs = "ldiscs s"] show ?thesis
    by (auto simp: kbind_def simp del: abs_call.simps split: sum.splits prod.splits)
next
  case (Change tty disc)
  show ?thesis
  proof (cases "\<exists>oa old. tty_ldisc tty = Some oa \<and> ldiscs s oa = Some old")
    case True
    then obtain oa old where o: "tty_ldisc tty = Some oa" "ldiscs s oa = Some old" by blast
    from change_refines [OF this] Change o assms show ?thesis by (simp add: kbind_def)
  next
    case False
    with Change show ?thesis by (auto simp: tty_ldisc_change_def kbind_def split: option.splits)
  qed
qed

section \<open>Properties\<close>

text \<open>
  C15: while no reference is counted, as after \<^verbatim>\<open>tty_ldisc_begin\<close> at boot, every sequence of registrations, removals and changes of
  line disciplines does what the abstract layer says, with the same return values and the same failure: registering and
  removing update the table, no discipline is ever busy, a change to a registered discipline fails with \<^verbatim>\<open>-ENOMEM\<close> because
  \<^verbatim>\<open>kmalloc\<close> returns null, a change to an unknown one with \<^verbatim>\<open>-EINVAL\<close>, and a failed change leaves the terminal, the
  objects and every reference count as they were.
\<close>

theorem ldisc_calls_refine:
  assumes "no_refs s"
  shows "case ldisc_dos fns t cs s of
      Inl e \<Rightarrow> abs_calls (ldiscs s) cs (ld_abs s) = Inl e
    | Inr (rs, s') \<Rightarrow> abs_calls (ldiscs s) cs (ld_abs s) = Inr (rs, ld_abs s') \<and> no_refs s' \<and> ldiscs s' = ldiscs s"
  using assms
proof (induction cs arbitrary: s)
  case (Cons c cs)
  show ?case
  proof (cases "ldisc_do fns t c s")
    case (Inl e)
    with ldisc_do_refines [OF Cons.prems, where fns = fns and t = t and c = c] show ?thesis by (simp add: kbind_def)
  next
    case (Inr x)
    obtain r s1 where x: "x = (r, s1)" by (cases x)
    with Inr ldisc_do_refines [OF Cons.prems, where fns = fns and t = t and c = c]
    have c: "abs_call (ldiscs s) c (ld_abs s) = Inr (r, ld_abs s1)" "no_refs s1" "ldiscs s1 = ldiscs s" by simp_all
    with Cons.IH [OF c(2)] Inr x show ?thesis by (auto simp: kbind_def split: sum.splits prod.splits)
  qed
qed simp

definition demo_tty :: tty_struct where
  "demo_tty = \<lparr>tty_magic = TTY_STRUCT_MAGIC, tty_index = 0, tty_flags = 0, tty_stopped = False, tty_termios = tty_std_termios, tty_drv = None,
     tty_ops = None, tty_driver_data = None, tty_ldisc = Some 1, tty_ldisc_data = Some tmp_ldata, tty_write_cnt = 2048,
     tty_write_buf = replicate 2048 0\<rparr>"

definition demo_ldiscs :: ldisc_state where
  "demo_ldiscs = \<lparr>ldops = (\<lambda>p. \<lparr>ldo_num = 0, ldo_refcount = 0\<rparr>), tty_ldiscs = replicate 30 None,
     ldiscs = (\<lambda>_. None)(1 := Some \<lparr>ld_ops = tty_ldisc_N_TTY, ld_tty = 0\<rparr>)\<rparr>"

text \<open>\<^verbatim>\<open>N_TTY\<close> is registered, a second discipline too; the terminal cannot change to it, and \<^verbatim>\<open>N_TTY\<close> can be removed under the terminal.\<close>

theorem ldisc_calls_refine_witness:
  "\<exists>s'. ldisc_dos (\<lambda>p. n_tty_fns) 0 [Register 1 7, Change demo_tty 1, Change demo_tty 9, Unregister 0] (tty_ldisc_begin demo_ldiscs) =
     Inr ([(0, None), (- ENOMEM, Some demo_tty), (- EINVAL, Some demo_tty), (0, None)], s') \<and> no_refs s'"
proof -
  let ?s = "tty_ldisc_begin demo_ldiscs" and ?cs = "[Register 1 7, Change demo_tty 1, Change demo_tty 9, Unregister 0]"
  have n: "no_refs ?s" by (simp add: no_refs_def tty_ldisc_begin_def tty_register_ldisc_def demo_ldiscs_def N_TTY_def NR_LDISCS_def)
  have "\<exists>a. abs_calls (ldiscs ?s) ?cs (ld_abs ?s) = Inr ([(0, None), (- ENOMEM, Some demo_tty), (- EINVAL, Some demo_tty), (0, None)], a)"
    by (simp add: kbind_def ld_abs_def tty_ldisc_begin_def tty_register_ldisc_def demo_ldiscs_def demo_tty_def N_TTY_def NR_LDISCS_def
        change_code_def tty_ldisc_N_TTY_def)
  with ldisc_calls_refine [OF n, where fns = "\<lambda>p. n_tty_fns" and t = 0 and cs = ?cs] show ?thesis by (auto split: sum.splits prod.splits)
qed

end
