(* ===== verification/Vsprintf_Number.thy ===== *)
theory Vsprintf_Number
  imports Vsprintf_Spec
begin

text \<open>
  The digits and the width of a printed number: read back with \<^verbatim>\<open>hex_to_bin\<close> the digits give the number in
  bases 8, 10 and 16, and a field is exactly as wide as asked for, as long as the 16-bit widths do not wrap.
\<close>

section \<open>Digits in any base\<close>

fun base_rev :: "nat \<Rightarrow> nat \<Rightarrow> nat list" where
  "base_rev b n = (if b < 2 \<or> n < b then [n] else (n mod b) # base_rev b (n div b))"

declare base_rev.simps [simp del]

definition read_digits :: "int \<Rightarrow> u8 list \<Rightarrow> int" where
  "read_digits base ds = foldl (\<lambda>v c. v * base + hex_to_bin c) 0 ds"

lemma read_digits_snoc: "read_digits b (ds @ [c]) = read_digits b ds * b + hex_to_bin c"
  by (simp add: read_digits_def)

lemma read_digits_rev:
  "map hex_to_bin ds = map int (base_rev b n) \<Longrightarrow> read_digits (int b) (rev ds) = int n"
proof (induction b n arbitrary: ds rule: base_rev.induct)
  case (1 b n)
  show ?case
  proof (cases "b < 2 \<or> n < b")
    case True
    with 1(2) show ?thesis by (cases ds) (auto simp: base_rev.simps read_digits_def)
  next
    case False
    with 1(2) obtain c cs where c: "ds = c # cs" "hex_to_bin c = int (n mod b)" "map hex_to_bin cs = map int (base_rev b (n div b))"
      by (cases ds) (auto simp: base_rev.simps)
    from 1(1) [OF False c(3)] show ?thesis
      by (simp add: c(1,2) read_digits_snoc flip: of_nat_mult of_nat_add)
  qed
qed

lemma base_rev_last: "2 \<le> b \<Longrightarrow> 0 < n \<Longrightarrow> last (base_rev b n) \<noteq> 0"
proof (induction b n rule: base_rev.induct)
  case (1 b n)
  have "base_rev b (n div b) \<noteq> []" by (subst base_rev.simps) simp
  with 1 show ?case by (subst base_rev.simps) (auto simp: div_greater_zero_iff)
qed

definition digit_char :: "u8 \<Rightarrow> nat \<Rightarrow> u8" where
  "digit_char locase d = (hex_asc_upper ! d) OR locase"

lemma digit_char_value:
  assumes "d < 16" "locase = 0 \<or> locase = 0x20"
  shows "hex_to_bin (digit_char locase d) = int d"
proof -
  have "\<forall>d \<in> set [0..<16]. hex_to_bin (digit_char 0 d) = int d" "\<forall>d \<in> set [0..<16]. hex_to_bin (digit_char 0x20 d) = int d"
    by (simp_all add: upt_rec digit_char_def hex_asc_upper_def hex_to_bin_def tolower_def isupper_iff Let_def)
  with assms show ?thesis by auto
qed

lemma digit_char_dec:
  assumes "d < 10" "locase = 0 \<or> locase = 0x20"
  shows "digit_char locase d = 48 + of_nat d"
proof -
  have "\<forall>d \<in> set [0..<10]. digit_char 0 d = 48 + of_nat d" "\<forall>d \<in> set [0..<10]. digit_char 0x20 d = 48 + of_nat d"
    by (simp_all add: upt_rec digit_char_def hex_asc_upper_def)
  with assms show ?thesis by auto
qed

lemma base_rev_digits: "2 \<le> b \<Longrightarrow> d \<in> set (base_rev b n) \<Longrightarrow> d < b"
  by (induction b n rule: base_rev.induct) (subst (asm) base_rev.simps, auto split: if_splits)

lemma dec_rev_base: "locase = 0 \<or> locase = 0x20 \<Longrightarrow> dec_rev n = map (digit_char locase) (base_rev 10 n)"
proof (induction n rule: dec_rev.induct)
  case (1 n)
  then show ?case by (subst dec_rev.simps, subst base_rev.simps) (simp add: digit_char_dec)
qed

lemma base_rev_length: "2 \<le> b \<Longrightarrow> 0 < k \<Longrightarrow> n < b ^ k \<Longrightarrow> length (base_rev b n) \<le> k"
proof (induction b n arbitrary: k rule: base_rev.induct)
  case (1 b n)
  show ?case
  proof (cases "n < b")
    case False
    then obtain j where j: "k = Suc j" "0 < j" using 1(3,4) by (cases k; cases "k - 1") auto
    then have "n div b < b ^ j" using 1(4) by (simp add: less_mult_imp_div_less mult.commute)
    with 1(1) [of j] 1(2) False j show ?thesis by (subst base_rev.simps) simp
  qed (use 1 in \<open>simp add: base_rev.simps\<close>)
qed

lemma digit_loop_take:
  fixes s :: nat
  assumes b: "base = 8 \<and> s = 3 \<or> base = 16 \<and> s = 4"
  shows "digit_loop base locase tmp i num = (tmp', j) \<Longrightarrow> i + length (base_rev (unat base) (unat num)) \<le> length tmp \<Longrightarrow>
    take j tmp' = take i tmp @ map (digit_char locase) (base_rev (unat base) (unat num)) \<and> length tmp' = length tmp"
proof (induction "unat num" arbitrary: tmp i num rule: less_induct)
  case less
  let ?c = "(hex_asc_upper ! unat ((ucast num :: u8) AND (base - 1))) OR locase"
  let ?t = "tmp[i := ?c]" and ?n = "drop_bit s num"
  have B: "unat base = 2 ^ s" "(if base = 16 then 4 else 3) = s" "\<not> unat base < 2" using b by auto
  have "(ucast num :: u8) AND (base - 1) = take_bit s (ucast num)" using b by (auto simp: take_bit_eq_mask mask_numeral)
  moreover have "unat (ucast num :: u8) mod 2 ^ s = unat num mod 2 ^ s"
    using b by (auto simp: unsigned_ucast_eq take_bit_eq_mod mod_mod_cancel)
  ultimately have c: "?c = digit_char locase (unat num mod 2 ^ s)" by (simp add: unat_take_bit digit_char_def)
  have n: "unat ?n = unat num div 2 ^ s" by (rule unat_drop_bit)
  have ne: "base_rev x y \<noteq> []" for x y by (subst base_rev.simps) simp
  then have i: "i < length tmp" using less.prems(2) by (metis add.right_neutral le_eq_less_or_eq length_0_conv less_add_same_cancel1 less_le_trans neq0_conv)
  have t: "take (Suc i) ?t = take i tmp @ [digit_char locase (unat num mod 2 ^ s)]"
    using i by (simp add: take_Suc_conv_app_nth c)
  have step: "digit_loop base locase tmp i num = (if ?n \<noteq> 0 then digit_loop base locase ?t (Suc i) ?n else (?t, Suc i))"
    by (subst digit_loop.simps) (simp only: Let_def B(2))
  show ?case
  proof (cases "?n = 0")
    case True
    then have "unat num div 2 ^ s = 0" using n by simp
    then have lt: "unat num < unat base" unfolding B(1) by (simp add: div_eq_0_iff)
    then have "base_rev (unat base) (unat num) = [unat num]" by (simp add: base_rev.simps)
    with True step less.prems t lt i show ?thesis by (auto simp: B(1))
  next
    case False
    then have nz: "unat num div 2 ^ s \<noteq> 0" using n by (metis unat_eq_zero)
    then have "\<not> unat num < unat base" unfolding B(1) by (simp add: div_eq_0_iff)
    then have r: "base_rev (unat base) (unat num) = (unat num mod 2 ^ s) # base_rev (unat base) (unat ?n)"
      using B(3) by (subst base_rev.simps) (simp add: B(1) n)
    have "unat ?n < unat num" using nz b unfolding n by (intro div_less_dividend) auto
    moreover have "digit_loop base locase ?t (Suc i) ?n = (tmp', j)" using step False less.prems(1) by simp
    ultimately show ?thesis using less.hyps [of ?n ?t "Suc i"] less.prems(2) t r by simp
  qed
qed

lemma number_digits_take:
  assumes "base \<in> {8, 10, 16}" "locase = 0 \<or> locase = 0x20" "number_digits base locase num = (tmp, i)"
  shows "take i tmp = map (digit_char locase) (base_rev (unat base) (unat num)) \<and> length tmp = 24"
proof (cases "num < ucast base")
  case True
  then have lt: "unat num < unat base" using assms(1) by (auto simp: word_less_nat_alt)
  then have "base_rev (unat base) (unat num) = [unat num]" by (simp add: base_rev.simps)
  with True assms(3) show ?thesis by (auto simp: number_digits_def digit_char_def Let_def take_Suc_conv_app_nth)
next
  case False
  show ?thesis
  proof (cases "base = 10")
    case True
    with False assms(3) have "put_dec (replicate 24 0) 0 num = (tmp, i)" by (simp add: number_digits_def Let_def)
    from put_dec_digits [OF _ this] dec_rev_base [OF assms(2)] True show ?thesis by simp
  next
    case ne: False
    with False assms(3) have "digit_loop base locase (replicate 24 0) 0 num = (tmp, i)" by (simp add: number_digits_def Let_def)
    moreover have "length (base_rev (unat base) (unat num)) \<le> 22"
    proof (rule base_rev_length)
      have "unat num < 8 ^ 22" using unat_lt64 [of num] by simp
      also have "\<dots> \<le> unat base ^ 22" using assms(1) by (intro power_mono) auto
      finally show "unat num < unat base ^ 22" .
    qed (use assms(1) in auto)
    ultimately show ?thesis
      using digit_loop_take [of base "if base = 16 then 4 else 3"] assms(1) ne by auto
  qed
qed

text \<open>
  the digits \<^verbatim>\<open>number\<close> prints in base 8, 10 or 16 fit its array \<^verbatim>\<open>tmp\<close>, have no leading zero, and
  read back with \<^verbatim>\<open>hex_to_bin\<close>, most significant first, give the number.
\<close>

theorem number_digits_roundtrip:
  assumes "base \<in> {8, 10, 16}" "locase = 0 \<or> locase = 0x20" "number_digits base locase num = (tmp, i)"
  shows "read_digits (uint base) (rev (take i tmp)) = uint num \<and> take i tmp \<noteq> [] \<and> length (take i tmp) \<le> 22 \<and>
    (num \<noteq> 0 \<longrightarrow> hex_to_bin (last (take i tmp)) \<noteq> 0)"
proof -
  let ?ds = "base_rev (unat base) (unat num)"
  have b: "2 \<le> unat base" "unat base \<le> 16" using assms(1) by auto
  have ne: "?ds \<noteq> []" by (subst base_rev.simps) simp
  have d: "d < 16" if "d \<in> set ?ds" for d using base_rev_digits [OF b(1) that] b(2) by simp
  have t: "take i tmp = map (digit_char locase) ?ds" using number_digits_take [OF assms] by simp
  have v: "map hex_to_bin (take i tmp) = map int ?ds" unfolding t by (simp add: digit_char_value [OF d assms(2)])
  have "unat num < 8 ^ 22" using unat_lt64 [of num] by simp
  also have "\<dots> \<le> unat base ^ 22" using assms(1) by (intro power_mono) auto
  finally have "length ?ds \<le> 22" using b by (intro base_rev_length) simp_all
  moreover have "hex_to_bin (last (take i tmp)) = int (last ?ds)"
    using ne by (simp add: t last_map digit_char_value [OF d assms(2)])
  ultimately show ?thesis using read_digits_rev [OF v] ne base_rev_last [OF b(1)] t
    by (simp add: unat_gt_0)
qed

theorem number_digits_roundtrip_witness:
  "case number_digits 16 0x20 0xdeadbeef of (tmp, i) \<Rightarrow> read_digits 16 (rev (take i tmp)) = 0xdeadbeef"
proof -
  obtain tmp i where t: "number_digits 16 0x20 0xdeadbeef = (tmp, i)" by fastforce
  from number_digits_roundtrip [OF _ _ t] show ?thesis unfolding t by simp
qed

section \<open>Fields\<close>

lemma pad_ge_nonneg: "0 \<le> w \<Longrightarrow> w \<le> 32767 \<Longrightarrow> pad_ge w = (nat w, - 1)"
proof (induction "nat w" arbitrary: w)
  case 0
  then show ?case by (simp add: pad_ge.simps short_id)
next
  case (Suc n)
  then have "pad_ge (w - 1) = (nat (w - 1), - 1)" by simp
  moreover have "0 < w" "Suc (nat (w - 1)) = nat w" using Suc(2) by auto
  ultimately show ?case using Suc.prems by (simp add: pad_ge.simps [of w] short_id Let_def)
qed

lemma pad_ge_neg: "- 32767 \<le> w \<Longrightarrow> w < 0 \<Longrightarrow> pad_ge w = (0, w - 1)"
  by (simp add: pad_ge.simps short_id)

text \<open>The value the loop condition does not expect: the width wraps and the loop prints 32768 blanks.\<close>

lemma pad_ge_min: "pad_ge (- 32768) = (32768, - 1)"
proof -
  have "short (- 32769) = 32767" by (simp add: short_def)
  with pad_ge_nonneg [of 32767] show ?thesis by (simp add: pad_ge.simps [of "- 32768"])
qed

lemma zero_loop_count: "int i \<le> p \<Longrightarrow> p \<le> 32767 \<Longrightarrow> zero_loop i p = nat p - i"
proof (induction "nat p - i" arbitrary: p)
  case 0
  then have "p = int i" by simp
  with 0 show ?case by (simp add: zero_loop.simps short_id)
next
  case (Suc n)
  then have "zero_loop i (p - 1) = nat (p - 1) - i" by simp
  moreover have "int i < p" "Suc (nat (p - 1) - i) = nat p - i" using Suc(2) by auto
  ultimately show ?case using Suc.prems by (simp add: zero_loop.simps [of i p] short_id Let_def)
qed

text \<open>The reference: a sign, a prefix, and the digits, filled up to the width on the side the flags name.\<close>

definition sign_text :: "u8 \<Rightarrow> u64 \<Rightarrow> u8 list" where
  "sign_text flags num =
     (if \<not> has flags SIGN then []
      else if sint num < 0 then str8 ''-''
      else if has flags PLUS then str8 ''+''
      else if has flags SPACE then str8 '' '' else [])"

definition magnitude :: "u8 \<Rightarrow> u64 \<Rightarrow> u64" where
  "magnitude flags num = (if has flags SIGN \<and> sint num < 0 then - num else num)"

definition prefix_text :: "printf_spec \<Rightarrow> u64 \<Rightarrow> u8 list" where
  "prefix_text spec n =
     (if \<not> has (ps_flags spec) SPECIAL then []
      else if ps_base spec = 16 then (if has (ps_flags spec) SMALL then str8 ''0x'' else str8 ''0X'')
      else if ps_base spec = 8 \<and> n \<noteq> 0 then str8 ''0'' else [])"

definition digits_text :: "printf_spec \<Rightarrow> u64 \<Rightarrow> u8 list" where
  "digits_text spec n =
     (let ds = map (digit_char (ps_flags spec AND SMALL)) (rev (base_rev (unat (ps_base spec)) (unat n))) in
      replicate (nat (precision spec) - length ds) (of_char CHR ''0'') @ ds)"

definition number_text :: "u64 \<Rightarrow> printf_spec \<Rightarrow> u8 list" where
  "number_text num spec =
     (let n = magnitude (ps_flags spec) num;
          start = sign_text (ps_flags spec) num @ prefix_text spec n;
          ds = digits_text spec n;
          fill = nat (field_width spec) - length (start @ ds) in
      if has (ps_flags spec) LEFT then start @ ds @ replicate fill (of_char CHR '' '')
      else if has (ps_flags spec) ZEROPAD then start @ replicate fill (of_char CHR ''0'') @ ds
      else replicate fill (of_char CHR '' '') @ start @ ds)"

text \<open>The flags as bits.\<close>

lemma has_bit:
  "has f SIGN = bit f 0" "has f LEFT = bit f 1" "has f PLUS = bit f 2" "has f SPACE = bit f 3" "has f ZEROPAD = bit f 4"
  "has f SMALL = bit f 5" "has f SPECIAL = bit f 6"
  using and_exp_eq_0_iff_not_bit [of f 0] and_exp_eq_0_iff_not_bit [of f 1] and_exp_eq_0_iff_not_bit [of f 2]
    and_exp_eq_0_iff_not_bit [of f 3] and_exp_eq_0_iff_not_bit [of f 4] and_exp_eq_0_iff_not_bit [of f 5]
    and_exp_eq_0_iff_not_bit [of f 6]
  by (simp_all add: has_def SIGN_def LEFT_def PLUS_def SPACE_def ZEROPAD_def SMALL_def SPECIAL_def)

definition norm_flags :: "u8 \<Rightarrow> u8" where
  "norm_flags f = (if has f LEFT then f AND NOT ZEROPAD else f)"

lemma bit_zeropad: "bit ZEROPAD n \<longleftrightarrow> n = 4"
proof -
  have z: "ZEROPAD = 2 ^ 4" by (simp add: ZEROPAD_def)
  show ?thesis unfolding z bit_exp_iff by (auto simp: possible_bit_def)
qed

lemma bit_small: "bit SMALL n \<longleftrightarrow> n = 5"
proof -
  have z: "SMALL = 2 ^ 5" by (simp add: SMALL_def)
  show ?thesis unfolding z bit_exp_iff by (auto simp: possible_bit_def)
qed

lemma norm_flags_has [simp]:
  "has (norm_flags f) SIGN = has f SIGN" "has (norm_flags f) LEFT = has f LEFT" "has (norm_flags f) PLUS = has f PLUS"
  "has (norm_flags f) SPACE = has f SPACE" "has (norm_flags f) SPECIAL = has f SPECIAL"
  "has (norm_flags f) ZEROPAD \<longleftrightarrow> has f ZEROPAD \<and> \<not> has f LEFT"
  by (simp_all add: has_bit norm_flags_def bit_simps bit_zeropad)

lemma has_or: "has f (a OR b) \<longleftrightarrow> has f a \<or> has f b"
  by (simp add: has_def bit.conj_disj_distrib or_eq_0_iff)

lemma and_zeropad: "f AND ZEROPAD = (if has f ZEROPAD then ZEROPAD else 0)"
  by (rule bit_word_eqI) (auto simp: bit_simps bit_zeropad has_bit)

lemma and_small: "f AND SMALL = (if has f SMALL then 0x20 else 0)"
proof -
  have "f AND SMALL = (if has f SMALL then SMALL else 0)"
    by (rule bit_word_eqI) (auto simp: bit_small bit_simps has_bit)
  then show ?thesis by (simp add: SMALL_def)
qed

lemma number_sign_text:
  assumes "- 1 \<le> w" "w \<le> 32767" "number_sign (norm_flags flags) num w = (s, n, w')"
  shows "(if s \<noteq> 0 then [s] else []) = sign_text flags num \<and> n = magnitude flags num \<and> w' = w - int (length (sign_text flags num))"
  using assms by (auto simp: number_sign_def sign_text_def magnitude_def str8_def short_id split: if_splits)

lemma number_prefix_text:
  assumes "ps_base spec \<in> {8, 10, 16}" "- 2 \<le> w" "w \<le> 32767"
  defines "need \<equiv> has (ps_flags spec) SPECIAL \<and> ps_base spec \<noteq> 10"
  shows "number_prefix need (ps_base spec) (n = 0) (ps_flags spec AND SMALL) = prefix_text spec n"
    "(if need then if ps_base spec = 16 then short (w - 2) else if n \<noteq> 0 then short (w - 1) else w else w) =
     w - int (length (prefix_text spec n))"
  using assms by (auto simp: number_prefix_def prefix_text_def need_def str8_def short_id and_small)

lemma number_pads:
  assumes "- 32765 \<le> w" "w \<le> 32767"
    and "(if \<not> has (norm_flags f) (ZEROPAD OR LEFT) then pad_ge w else (0, w)) = (lead, w1)"
    and "(if \<not> has (norm_flags f) LEFT then pad_ge w1 else (0, w1)) = (mid, w2)"
  shows "(lead, mid, fst (pad_ge w2)) =
     (if has f LEFT then (0, 0, nat w) else if has f ZEROPAD then (0, nat w, 0) else (nat w, 0, 0))"
proof (cases "0 \<le> w")
  case True
  with assms show ?thesis by (auto simp: has_or pad_ge_nonneg pad_ge_neg split: if_splits)
next
  case False
  with assms show ?thesis by (auto simp: has_or pad_ge_neg split: if_splits)
qed

lemma number_number_text:
  assumes b: "ps_base spec \<in> {8, 10, 16}" and w: "- 1 \<le> field_width spec" "field_width spec \<le> 32767"
    and p: "precision spec \<le> 32761"
  shows "number num spec = number_text num spec"
proof -
  let ?f = "ps_flags spec" and ?l = "ps_flags spec AND SMALL"
  define n where "n = magnitude ?f num"
  obtain s n' w0 where s: "number_sign (norm_flags ?f) num (field_width spec) = (s, n', w0)" by (metis prod_cases3)
  note s' = number_sign_text [OF w s]
  have n': "n' = n" using s' by (simp add: n_def)
  have sl: "length (sign_text ?f num) \<le> 1" by (simp add: sign_text_def str8_def)
  then have w0: "- 2 \<le> w0" "w0 \<le> 32767" using s' w by linarith+
  obtain tmp i where t: "number_digits (ps_base spec) ?l n = (tmp, i)" by fastforce
  have l: "?l = 0 \<or> ?l = 0x20" by (simp add: and_small)
  note t' = number_digits_take [OF b l t]
  let ?ds = "base_rev (unat (ps_base spec)) (unat n)"
  have "unat n < 8 ^ 22" using unat_lt64 [of n] by simp
  also have "\<dots> \<le> unat (ps_base spec) ^ 22" using b by (intro power_mono) auto
  finally have ds: "length ?ds \<le> 22" using b by (intro base_rev_length) auto
  have "length (take i tmp) = length ?ds" using t' by simp
  moreover have "length (take i tmp) = min i 24" unfolding length_take using t' by simp
  ultimately have i: "i = length ?ds" using ds by linarith
  define prec where "prec = (if int i > precision spec then int i else precision spec)"
  have pr: "int i \<le> prec" "prec \<le> 32761" using p ds i by (simp_all add: prec_def)
  let ?w = "w0 - int (length (prefix_text spec n)) - prec"
  have "length (prefix_text spec n) \<le> 2" by (simp add: prefix_text_def str8_def)
  then have wr: "- 32765 \<le> ?w" "?w \<le> 32767" using w0 pr by linarith+
  then have sw: "short ?w = ?w" by (intro short_id) auto
  obtain lead w1 where lead: "(if \<not> has (norm_flags ?f) (ZEROPAD OR LEFT) then pad_ge ?w else (0, ?w)) = (lead, w1)" by fastforce
  obtain mid w2 where mid: "(if \<not> has (norm_flags ?f) LEFT then pad_ge w1 else (0, w1)) = (mid, w2)" by fastforce
  note pads = number_pads [OF wr lead mid]
  note px = number_prefix_text [OF b w0, of n]
  have "number num spec = replicate lead (of_char CHR '' '') @ (if s \<noteq> 0 then [s] else []) @
      prefix_text spec n @ replicate mid (of_char CHR '' '' + (norm_flags ?f AND ZEROPAD)) @
      replicate (zero_loop i prec) (of_char CHR ''0'') @ rev (take i tmp) @ replicate (fst (pad_ge w2)) (of_char CHR '' '')"
    unfolding number_def Let_def norm_flags_def [symmetric]
    by (simp only: s n' prod.case norm_flags_has(5) px t prec_def [symmetric] sw lead mid)
  also have "\<dots> = number_text num spec"
  proof -
    let ?st = "sign_text ?f num @ prefix_text spec n"
    have dt: "digits_text spec n = replicate (nat prec - i) (of_char CHR ''0'') @ rev (take i tmp)"
      using t' i by (simp add: digits_text_def prec_def rev_map)
    then have "int (length (digits_text spec n)) = prec" using pr i ds t' by simp
    then have fill: "nat (field_width spec) - length (?st @ digits_text spec n) = nat ?w"
      using s' w by simp
    have z: "zero_loop i prec = nat prec - i" using pr by (intro zero_loop_count) auto
    have zc: "of_char CHR '' '' + (norm_flags ?f AND ZEROPAD) =
      (if has ?f ZEROPAD \<and> \<not> has ?f LEFT then of_char CHR ''0'' else of_char CHR '' '')"
      unfolding and_zeropad norm_flags_has by (simp add: ZEROPAD_def)
    show ?thesis
      unfolding number_text_def Let_def n_def [symmetric] fill zc
      using pads s' by (simp add: dt z split: if_splits)
  qed
  finally show ?thesis .
qed

text \<open>
  C35: \<^verbatim>\<open>number\<close> prints its argument as the reference does: sign, prefix and digits, the digits extended with
  zeros to the precision, the whole filled to the field width with blanks on the left, blanks on the right or zeros
  after the prefix.  It needs a precision below 32762, so that no 16-bit width wraps.
\<close>

theorem number_correct:
  assumes "ps_base spec \<in> {8, 10, 16}" "- 1 \<le> field_width spec" "field_width spec \<le> 32767" "precision spec \<le> 32761"
  shows "number num spec = number_text num spec"
  using assms by (rule number_number_text)

theorem number_correct_witness:
  "number (- 42) (dec_spec\<lparr>ps_flags := SIGN OR ZEROPAD, field_width := 6\<rparr>) = str8 ''-00042''"
proof -
  have "sint (- 42 :: u64) = - 42" by simp
  moreover have "base_rev 10 42 = [2, 4]" by (simp add: base_rev.simps)
  ultimately have "number_text (- 42) (dec_spec\<lparr>ps_flags := SIGN OR ZEROPAD, field_width := 6\<rparr>) = str8 ''-00042''"
    by (simp add: number_text_def dec_spec_def zero_spec_def sign_text_def magnitude_def prefix_text_def digits_text_def
        has_def SIGN_def ZEROPAD_def LEFT_def SPECIAL_def SMALL_def digit_char_def hex_asc_upper_def str8_def numeral_3_eq_3)
  with number_correct [of "dec_spec\<lparr>ps_flags := SIGN OR ZEROPAD, field_width := 6\<rparr>" "- 42"] show ?thesis
    by (simp add: dec_spec_def zero_spec_def)
qed

text \<open>
  The bound on the precision is needed: with the largest precision and no width, the 16-bit width wraps to its least
  value and the loop that should print nothing prints 32768 blanks.
\<close>

lemma precision_wraps:
  "number 5 (dec_spec\<lparr>field_width := - 1, precision := 32767\<rparr>) =
   replicate 32768 (of_char CHR '' '') @ replicate 32766 (of_char CHR ''0'') @ str8 ''5''"
proof -
  have "short (- 32768) = - 32768" by (simp add: short_id)
  moreover have "zero_loop 1 32767 = 32766" by (simp add: zero_loop_count)
  moreover have "pad_ge (- 1) = (0, - 2)" "pad_ge (- 2) = (0, - 3)" by (simp_all add: pad_ge_neg)
  moreover have "number_digits 10 0 5 = ((replicate 24 0)[0 := 53], 1)"
    by (simp add: number_digits_def hex_asc_upper_def)
  ultimately show ?thesis
    by (simp add: number_def dec_spec_def zero_spec_def number_sign_def number_prefix_def has_def pad_ge_min
        str8_def take_Suc_conv_app_nth)
qed

end
