(* ===== verification/Vsprintf_Out.thy ===== *)
theory Vsprintf_Out
  imports Vsprintf_Number
begin

text \<open>
  The output buffer of \<^verbatim>\<open>vsnprintf\<close>: what is stored, what is left alone and what is returned; and that a
  format always produces a text when it has enough arguments.
\<close>

section \<open>The buffer\<close>

lemma put_spec:
  assumes "unat buf + length cs < 2 ^ 32"
  shows "put m e buf cs =
    (\<lambda>a. if buf \<le> a \<and> a < e \<and> unat a < unat buf + length cs then cs ! (unat a - unat buf) else m a, buf + of_nat (length cs))"
  using assms
proof (induction cs arbitrary: m buf)
  case (Cons c cs)
  have s: "unat (buf + 1) = Suc (unat buf)" using Cons.prems by (simp add: unat_word_ariths)
  then have "unat (buf + 1) + length cs < 2 ^ 32" using Cons.prems by simp
  note IH = Cons.IH [OF this, of "if buf < e then m(buf := c) else m"]
  have "(if buf + 1 \<le> a \<and> a < e \<and> unat a < unat (buf + 1) + length cs then cs ! (unat a - unat (buf + 1))
          else (if buf < e then m(buf := c) else m) a) =
        (if buf \<le> a \<and> a < e \<and> unat a < unat buf + length (c # cs) then (c # cs) ! (unat a - unat buf) else m a)" for a
  proof (cases "a = buf")
    case False
    then have "unat a \<noteq> unat buf" by (metis unsigned_word_eqI)
    then have "buf + 1 \<le> a \<longleftrightarrow> buf \<le> a" "buf \<le> a \<Longrightarrow> unat a - unat buf = Suc (unat a - unat (buf + 1))"
      unfolding word_le_nat_alt s by linarith+
    with False show ?thesis by (simp add: s)
  qed (simp add: s word_le_nat_alt)
  then show ?case by (simp add: IH)
qed (auto simp: word_le_nat_alt fun_eq_iff)

text \<open>The number of bytes the code may use: the given size, cut where the address space ends.\<close>

definition room :: "ulong \<Rightarrow> ulong \<Rightarrow> nat" where
  "room buf sz = min (unat sz) (2 ^ 32 - 1 - unat buf)"

lemma end_of_buffer:
  assumes "(if buf + sz < buf then (- 1, - 1 - buf) else (buf + sz, sz)) = (e, sz')"
  shows "unat e = unat buf + room buf sz \<and> unat sz' = room buf sz"
proof (cases "unat buf + unat sz < 2 ^ 32")
  case True
  then have "unat (buf + sz) = unat buf + unat sz" by (simp add: unat_word_ariths)
  with True assms show ?thesis by (auto simp: room_def word_less_nat_alt)
next
  case False
  then have "unat (buf + sz) = unat buf + unat sz - 2 ^ 32"
    using unat_lt32 [of buf] unat_lt32 [of sz] by (simp add: unat_word_ariths le_mod_geq)
  then have "buf + sz < buf" using False unat_lt32 [of sz] by (simp add: word_less_nat_alt) 
  moreover have "unat (- 1 :: ulong) = 2 ^ 32 - 1" by (simp add: unsigned_minus_1_eq_mask mask_eq_exp_minus_1)
  moreover have "unat (- 1 - buf) = 2 ^ 32 - 1 - unat buf"
    using unat_lt32 [of buf] calculation(2) by (subst unat_sub_no_wrap) (simp_all add: word_le_nat_alt)
  ultimately show ?thesis using assms False unat_lt32 [of buf] by (auto simp: room_def)
qed

lemma vsnprintf_stores:
  assumes "sz \<le> INT_MAX" "vsn_text rh m fmt zero_spec args = Inr text"
    and "unat buf + length text < 2 ^ 32" "length text < 2 ^ 31"
  shows "\<exists>m'. vsnprintf rh m buf sz fmt args = Inr (int (length text), m') \<and>
    (\<forall>a. unat a < unat buf \<or> unat buf + room buf sz \<le> unat a \<longrightarrow> m' a = m a) \<and>
    (0 < room buf sz \<longrightarrow>
      (let n = min (length text) (room buf sz - 1) in bytes m' buf n = take n text \<and> m' (buf + of_nat n) = 0))"
proof -
  obtain e sz' where e: "(if buf + sz < buf then (- 1, - 1 - buf) else (buf + sz, sz)) = (e, sz')" by fastforce
  note r = end_of_buffer [OF e]
  let ?str = "buf + of_nat (length text)"
  let ?m = "\<lambda>a. if buf \<le> a \<and> a < e \<and> unat a < unat buf + length text then text ! (unat a - unat buf) else m a"
  let ?n = "min (length text) (room buf sz - 1)"
  define z where "z = (if ?str < e then ?str else e - 1)"
  define m1 where "m1 = (if sz' > 0 then ?m(z := 0) else ?m)"
  have at: "unat (buf + of_nat i) = unat buf + i" if "i \<le> length text" for i
    using assms(3) that by (simp add: unat_word_ariths unat_of_nat32)
  have "sint (?str - buf) = int (length text)" using assms(4) by (simp add: sint32_small unat_of_nat32)
  moreover have "\<not> sz > INT_MAX" using assms(1) by (simp add: not_less)
  then have "vsnprintf rh m buf sz fmt args = Inr (sint (?str - buf), m1)"
    by (simp only: vsnprintf_def if_False e Let_def prod.case assms(2) put_spec [OF assms(3)] kbind_Inr m1_def z_def)
      (simp add: m1_def)
  moreover have pos: "0 < sz' \<longleftrightarrow> 0 < room buf sz" using r by (simp add: word_less_nat_alt)
  moreover have z: "unat z = unat buf + ?n" if "0 < room buf sz"
  proof -
    have "unat (e - 1) = unat buf + (room buf sz - 1)"
      using that r by (subst unat_sub_no_wrap) (simp_all add: word_le_nat_alt)
    then show ?thesis using at [of "length text"] r that unfolding z_def word_less_nat_alt by auto
  qed
  moreover have "m1 a = m a" if "unat a < unat buf \<or> unat buf + room buf sz \<le> unat a" for a
  proof -
    have "a \<noteq> z" if "0 < sz'" using z that pos \<open>unat a < unat buf \<or> unat buf + room buf sz \<le> unat a\<close> by auto
    moreover have "\<not> (buf \<le> a \<and> a < e)" using that r by (auto simp: word_le_nat_alt word_less_nat_alt)
    ultimately show ?thesis by (auto simp: m1_def)
  qed
  moreover have "bytes m1 buf ?n = take ?n text \<and> m1 (buf + of_nat ?n) = 0" if R: "0 < room buf sz"
  proof -
    have "buf + of_nat ?n = z" using z [OF R] at [of ?n] by (metis min.cobounded1 unsigned_word_eqI)
    then have "m1 (buf + of_nat ?n) = 0" using R pos by (simp add: m1_def)
    moreover have "m1 (buf + of_nat i) = text ! i" if "i < ?n" for i
    proof -
      have u: "unat (buf + of_nat i) = unat buf + i" using that by (intro at) simp
      then have "buf + of_nat i \<noteq> z" using z [OF R] that by auto
      moreover have "buf \<le> buf + of_nat i" "buf + of_nat i < e" using u r that R by (auto simp: word_le_nat_alt word_less_nat_alt)
      ultimately show ?thesis using u that by (auto simp: m1_def)
    qed
    then have "bytes m1 buf ?n = take ?n text" by (intro nth_equalityI) (simp_all add: bytes_def)
    ultimately show ?thesis by simp
  qed
  ultimately show ?thesis by (auto simp: Let_def)
qed

section \<open>Every format ends\<close>

lemma va_num_ok: "\<exists>num args'. va_num spec (v1 # v2 # vs) = Inr (num, args') \<and> length vs \<le> length args'"
  by (simp add: va_num_def va_int_def va_long_long_def)

lemma vsn_text_ok:
  "2 * (2 * length fmt + of_bool (awaits_arg spec0)) \<le> length args \<Longrightarrow> \<exists>text. vsn_text rh m fmt spec0 args = Inr text"
proof (induction "2 * length fmt + of_bool (awaits_arg spec0) :: nat" arbitrary: fmt spec0 args rule: less_induct)
  case less
  show ?case
  proof (cases "fmt = []")
    case True
    then show ?thesis by (simp add: vsn_text.simps)
  next
    case False
    obtain n spec where d: "(n, spec) = format_decode fmt spec0" by (metis surj_pair)
    have "4 \<le> length args" using False less.prems by (cases fmt) auto
    then obtain v1 v2 vs where args: "args = v1 # v2 # vs"
      by (metis Suc_le_length_iff add_2_eq_Suc' le_trans numeral_2_eq_2 numeral_Bit0 le_add1 one_add_one)
    have rec: "\<exists>text. vsn_text rh m f spec' args' = Inr text"
      if "length f \<le> length fmt - n" "awaits_arg spec' \<longrightarrow> awaits_arg spec" "length vs \<le> length args'" for f spec' args'
    proof (rule less.hyps)
      show lt: "2 * length f + of_bool (awaits_arg spec') < 2 * length fmt + of_bool (awaits_arg spec0)"
        using vsn_decreases [OF False d that(1) that(2) [rule_format]] by simp
      show "2 * (2 * length f + of_bool (awaits_arg spec')) \<le> length args'"
        using lt that(3) less.prems args by simp
    qed
    have step: "\<exists>text. kbind (vsn_text rh m f spec' args') (\<lambda>t. Inr (h @ t)) = Inr text"
      if "length f \<le> length fmt - n" "awaits_arg spec' \<longrightarrow> awaits_arg spec" "length vs \<le> length args'" for f spec' args' h
      using rec [OF that] by auto
    have step1: "\<exists>text. kbind (vsn_text rh m f spec' args') (\<lambda>t. Inr (h # t)) = Inr text"
      if "length f \<le> length fmt - n" "awaits_arg spec' \<longrightarrow> awaits_arg spec" "length vs \<le> length args'" for f spec' args' h
      using rec [OF that] by auto
    obtain c spec' where c: "char_out v1 spec = (c, spec')" by fastforce
    then have c': "awaits_arg spec' = awaits_arg spec" by (metis awaits_arg_def char_out_type)
    obtain num args' where num: "va_num spec args = Inr (num, args')" "length vs \<le> length args'"
      using va_num_ok args by blast
    have w: "awaits_arg (spec\<lparr>field_width := x\<rparr>) = awaits_arg spec" "awaits_arg (spec\<lparr>precision := x\<rparr>) = awaits_arg spec" for x
      by (simp_all add: awaits_arg_def)
    have len: "length (drop n fmt) \<le> length fmt - n" "length (dropWhile isalnum (drop n fmt)) \<le> length fmt - n"
      by (simp_all add: length_dropWhile_drop)
    note u = vsn_text.simps [of rh m fmt spec0 args] and rules = len num(2)
    show ?thesis
      unfolding u d [symmetric]
      by (cases "ps_type spec") (use False args num(1) c c' w len num(2) in
        \<open>auto simp del: length_drop simp: va_int_def intro!: step step1 rec\<close>)
  qed
qed

section \<open>The local array of resource\_string\<close>

text \<open>
  A resource prints in at most 54 characters, so the text, which the code stores with unchecked and checked writes
  mixed, fits the 59 bytes of \<^verbatim>\<open>sym\<close> with its terminator.
\<close>

lemma number_ucast_length:
  assumes "spec \<in> {io_spec, mem_spec, bus_spec, dec_spec, flag_spec}"
  shows "length (number (ucast (x :: u32)) spec) \<le> 10"
proof -
  let ?b = "unat (ps_base spec)" and ?k = "if ps_base spec = 10 then 10 else 8"
  note specs = io_spec_def mem_spec_def bus_spec_def dec_spec_def flag_spec_def zero_spec_def
  have b: "ps_base spec = 10 \<or> ps_base spec = 16" using assms by (auto simp: specs)
  have "unat (ucast x :: u64) < 2 ^ 32" using unat_lt32 [of x] by (simp only: unat_ucast64)
  also have "\<dots> \<le> ?b ^ ?k" using b by auto
  finally have "length (base_rev ?b (unat (ucast x :: u64))) \<le> ?k" using b by (intro base_rev_length) auto
  moreover have "precision spec = - 1" "field_width spec \<le> 10" "\<not> has (ps_flags spec) SIGN" "- 1 \<le> field_width spec"
    using assms by (auto simp: specs has_def SPECIAL_def SMALL_def ZEROPAD_def SIGN_def)
  moreover from this have "number (ucast x) spec = number_text (ucast x) spec" using b by (intro number_number_text) auto
  ultimately show ?thesis using b
    by (auto simp: number_text_def Let_def sign_text_def magnitude_def digits_text_def prefix_text_def str8_def)
qed

lemma length_lit: "length s \<le> 10 \<Longrightarrow> length (lit s) = length s"
  by (simp add: lit_def string_out_def str_spec_def zero_spec_def has_def LEFT_def str8_def pad_below.simps)

lemma resource_sym_fits: "length (resource_sym res decode) \<le> 54"
proof -
  note l = number_ucast_length
  have n: "length (number (ucast x) io_spec) \<le> 10" "length (number (ucast x) mem_spec) \<le> 10"
    "length (number (ucast x) bus_spec) \<le> 10" "length (number (ucast x) dec_spec) \<le> 10"
    "length (number (ucast x) flag_spec) \<le> 10" for x :: u32
    by (rule l; simp)+
  show ?thesis
    using n [of "res_start res"] n [of "res_end res"] n [of "res_flags res"] n [of "resource_size res"]
    by (auto simp: resource_sym_def length_lit)
qed

section \<open>Properties\<close>

definition no_resource :: heap where
  "no_resource = (\<lambda>_. \<lparr>res_start = 0, res_end = 0, res_name = [], res_flags = 0, parent = 0, sibling = 0, child = 0\<rparr>)"

lemma example_text: "vsn_text no_resource (\<lambda>_. 0) (str8 ''x=%d'') zero_spec [42] = Inr (str8 ''x=42'')"
  by code_simp

text \<open>
  Two formats that the comment of \<^verbatim>\<open>vsnprintf\<close> describes otherwise: \<^verbatim>\<open>%n\<close> is printed and not ignored, and a MAC
  address prints as the pointer itself.
\<close>

lemma percent_n_printed: "vsn_text no_resource (\<lambda>_. 0) (str8 ''%n'') zero_spec [] = Inr (str8 ''%n'')"
  by code_simp

lemma unsupported_pointer_format:
  "vsn_text no_resource (\<lambda>_. 0) (str8 ''%pM'') zero_spec [0x12345678] = Inr (str8 ''12345678'')"
  by code_simp

text \<open>
  C10: \<^verbatim>\<open>vsnprintf\<close> with a size of at most \<^verbatim>\<open>INT_MAX\<close> returns the length of the whole text, stores nothing outside
  its buffer, which it cuts where the address space ends, and leaves in the buffer, when it has any room, the longest
  prefix of the text that fits, followed by a terminator.
\<close>

theorem vsnprintf_correct:
  assumes "sz \<le> INT_MAX" "vsn_text rh m fmt zero_spec args = Inr text"
    and "unat buf + length text < 2 ^ 32" "length text < 2 ^ 31"
  shows "\<exists>m'. vsnprintf rh m buf sz fmt args = Inr (int (length text), m') \<and>
    (\<forall>a. unat a < unat buf \<or> unat buf + room buf sz \<le> unat a \<longrightarrow> m' a = m a) \<and>
    (0 < room buf sz \<longrightarrow>
      (let n = min (length text) (room buf sz - 1) in bytes m' buf n = take n text \<and> m' (buf + of_nat n) = 0))"
  using assms by (rule vsnprintf_stores)

theorem vsnprintf_correct_witness:
  "\<exists>m'. vsnprintf no_resource (\<lambda>_. 0) 0x1000 4 (str8 ''x=%d'') [42] = Inr (4, m') \<and> bytes m' 0x1000 3 = str8 ''x=4'' \<and> m' 0x1003 = 0"
  using vsnprintf_correct [where sz = 4 and buf = "0x1000", OF _ example_text]
  by (simp add: INT_MAX_def str8_def room_def Let_def numeral_3_eq_3) blast

text \<open>
  C38: the main loop of \<^verbatim>\<open>vsnprintf\<close> ends on every format, whatever its characters, and produces a text as soon as
  there are enough arguments; four argument words for each character of the format are.
\<close>

theorem vsn_text_returns:
  assumes "4 * length fmt \<le> length args"
  shows "\<exists>text. vsn_text rh m fmt zero_spec args = Inr text"
proof (rule vsn_text_ok)
  have "\<not> awaits_arg zero_spec" by (simp add: awaits_arg_def zero_spec_def)
  with assms show "2 * (2 * length fmt + of_bool (awaits_arg zero_spec)) \<le> length args" by simp
qed

theorem vsn_text_returns_witness:
  "\<exists>text. vsn_text no_resource (\<lambda>_. 0) (str8 ''%*.*lld%q'') zero_spec (replicate 40 7) = Inr text"
  by (rule vsn_text_returns) (simp add: str8_def)

text \<open>
  \<^verbatim>\<open>vscnprintf\<close> returns the number of characters in the buffer before the terminator, and 0 when the buffer is
  empty.
\<close>

theorem vscnprintf_counts:
  assumes "sz \<le> INT_MAX" "vsn_text rh m fmt zero_spec args = Inr text"
    and "unat buf + length text < 2 ^ 32" "length text < 2 ^ 31"
  shows "\<exists>m'. vscnprintf rh m buf sz fmt args = Inr (int (min (length text) (unat sz - 1)), m')"
proof -
  obtain m' where v: "vsnprintf rh m buf sz fmt args = Inr (int (length text), m')"
    using vsnprintf_stores [OF assms] by auto
  have lt: "(of_int (int (length text)) :: ulong) < sz \<longleftrightarrow> length text < unat sz"
    using assms(4) by (simp add: word_less_nat_alt unat_of_nat32)
  have "sint (sz - 1) = int (unat sz - 1)" if "sz \<noteq> 0"
  proof -
    have "unat (sz - 1) = unat sz - 1" using that by (simp add: unat_gt_0 unat_minus_one)
    moreover have "unat sz - 1 < 2 ^ 31" using assms(1) by (simp add: word_le_nat_alt INT_MAX_def)
    ultimately show ?thesis by (simp add: sint32_small del: of_nat_diff)
  qed
  then have "(if (of_int (int (length text)) :: ulong) < sz then int (length text) else if sz \<noteq> 0 then sint (sz - 1) else 0) =
    int (min (length text) (unat sz - 1))"
    unfolding lt by (cases "sz = 0"; cases "length text < unat sz") auto
  then show ?thesis unfolding vscnprintf_def v by simp
qed

theorem vscnprintf_counts_witness:
  "\<exists>m'. vscnprintf no_resource (\<lambda>_. 0) 0x1000 4 (str8 ''x=%d'') [42] = Inr (3, m')"
  using vscnprintf_counts [where sz = 4 and buf = "0x1000", OF _ example_text] by (simp add: INT_MAX_def str8_def)

end
