(* ===== verification/Printk_Spec.thy ===== *)
theory Printk_Spec
  imports Tty_Spec Tty_Ldisc_Spec Vsprintf_Out
begin

text \<open>
  Printing: from \<^verbatim>\<open>tty_init\<close> on, \<^verbatim>\<open>printk\<close> returns and the virtual terminal receives the formatted text with a carriage return
  before every line feed.  Writes in any terminal settings follow the reference translation; a stopped terminal makes
  them loop.
\<close>

section \<open>The standard settings\<close>

definition crlf :: "u8 list \<Rightarrow> u8 list" where
  "crlf buf = concat (map (\<lambda>c. if c = 10 then [13, 10] else [c]) buf)"

lemma std_flags:
  assumes "c_oflag (tty_termios tty) = c_oflag tty_std_termios"
  shows "O_OPOST tty" "O_ONLCR tty" "\<not> O_OCRNL tty" "\<not> O_ONOCR tty" "\<not> O_OLCUC tty" "O_TABDLY tty \<noteq> XTABS"
  using assms by (simp_all add: O_OPOST_def O_ONLCR_def O_OCRNL_def O_ONOCR_def O_OLCUC_def O_TABDLY_def O_FLAG_def tty_std_termios_def
      OPOST_def ONLCR_def OCRNL_def ONOCR_def OLCUC_def TABDLY_def XTABS_def)

lemma opost_std:
  assumes "c_oflag (tty_termios tty) = c_oflag tty_std_termios"
  shows "fst (opost tty buf ld) = crlf buf"
proof (induction buf arbitrary: ld)
  case (Cons c buf)
  have "fst (opost_char tty c ld) = (if c = 10 then [13, 10] else [c])"
    using std_flags [OF assms] by (simp add: opost_char_def Let_def)
  with Cons show ?case by (simp add: split_beta crlf_def)
qed (simp add: crlf_def)

lemma cooked_std: "c_oflag (tty_termios (tty_table sys ! 0)) = c_oflag tty_std_termios \<Longrightarrow> cooked sys buf = crlf buf"
  by (simp add: cooked_def n_tty_text_def opost_std std_flags(1))

section \<open>A write is a write of the translated text\<close>

lemma tty_write_con_write:
  assumes "console_ready con sys" "27 \<notin> set buf" "length buf \<le> TTY_WRITE_BUF_SIZE"
    and "con_write (cooked sys buf) (sys_vcs sys ! 0) (sys_con sys) = (n, vc, c)"
  shows "\<exists>sys'. tty_write warn buf sys = Some (Inr (int (length buf), sys')) \<and> console_ready con sys' \<and>
    sys_vcs sys' ! 0 = vc \<and> quiet (sys_con sys') = quiet c \<and>
    tty_termios (tty_table sys' ! 0) = tty_termios (tty_table sys ! 0)"
proof -
  obtain sys' where w: "tty_write warn buf sys = Some (Inr (int (length buf), sys'))" "console_ready con sys'"
    "con_view (sys_console sys') = fold (con_feed con) (cooked sys buf) (con_view (sys_console sys))"
    "tty_termios (tty_table sys' ! 0) = tty_termios (tty_table sys ! 0)" using tty_write_view [OF assms(1-3)] by blast
  have "driver (sys_vcs sys ! 0) = Some con" using assms(1) by (simp add: console_ready_def Let_def)
  from con_write_view [OF this _ assms(4)] n_tty_text_plain [OF assms(2)]
  have "con_view (vc, c) = con_view (sys_console sys')" using w(3) by (simp add: cooked_def sys_console_def)
  then have "sys_vcs sys' ! 0 = vc" "quiet (sys_con sys') = quiet c" by (simp_all add: con_view_def sys_console_def)
  with w show ?thesis by blast
qed

section \<open>Boot\<close>

lemma vgacon_init_driver: "vgacon_init vc c = (e, vc') \<Longrightarrow> driver vc' = driver vc \<and> (has_called_startup (con_vga c) \<longrightarrow> e = 0)"
  by (auto simp: vgacon_init_def Let_def split: if_splits)

lemma console_init_length: "console_init vcs c0 = Inr (e, vcs', c) \<Longrightarrow> length vcs' = length vcs"
  by (auto simp: console_init_def Let_def bind_all_def min_def split: prod.splits option.splits)

definition tty_boot_ok :: "tty_sys \<Rightarrow> bool" where
  "tty_boot_ok sys \<longleftrightarrow>
     screen_ok (con_screen (sys_con sys)) \<and> \<not> has_called_startup (con_vga (sys_con sys)) \<and>
     sys_vcs sys \<noteq> [] \<and> fresh_vc (sys_vcs sys ! 0) \<and> tty_table sys \<noteq> []"

lemma tty_init_ready:
  assumes "tty_boot_ok sys0" "tty_init sy sys0 = Inr sys"
  shows "console_ready vga_con sys \<and> tty_termios (tty_table sys ! 0) = tty_std_termios"
proof -
  let ?s = "sys0\<lparr>sys_ldiscs := tty_ldisc_begin (sys_ldiscs sys0)\<rparr>"
  obtain e vcs c where ci: "console_init (sys_vcs sys0) (sys_con sys0) = Inr (e, vcs, c)"
    and s: "sys = (if e \<noteq> 0 then ?s\<lparr>sys_vcs := vcs, sys_con := c\<rparr> else console_init_tty sy (?s\<lparr>sys_vcs := vcs, sys_con := c\<rparr>))"
    using assms(2) by (auto simp: tty_init_def tty_console_init_def kbind_eq_Inr Let_def)
  have b: "fresh_vc (sys_vcs sys0 ! 0)" "sys_vcs sys0 \<noteq> []" "screen_ok (con_screen (sys_con sys0))" "\<not> has_called_startup (con_vga (sys_con sys0))"
    "tty_table sys0 \<noteq> []" using assms(1) by (simp_all add: tty_boot_ok_def)
  note st = console_init_steps [OF b(1,2) ci] and vs = startup_vga(1) [OF b(3,4)]
  have d: "driver (vcs ! 0) = Some vga_con" "e = 0" using st vs vgacon_init_driver by fastforce+
  moreover have "vcs \<noteq> []" using console_init_length [OF ci] b(2) by auto
  ultimately show ?thesis using s b(5)
    by (simp add: console_init_tty_def tty_register_driver_def tty_set_operations_def alloc_tty_struct_def tty_ldisc_open_def n_tty_fns_def
        n_tty_open_def console_ready_def Let_def)
qed

section \<open>printk\<close>

lemma printk_spec:
  assumes "console_ready con sys" "c_oflag (tty_termios (tty_table sys ! 0)) = c_oflag tty_std_termios"
    and "vsn_text rh (con_mem (sys_con sys)) fmt zero_spec args = Inr text" "length text < 1024" "27 \<notin> set text"
    and "unat (sym_KMBUF sy) + 1024 < 2 ^ 32"
  shows "\<exists>sys' m n vc c. printk sy rh warn fmt args sys = Some (Inr (int (length text), sys')) \<and>
    vsnprintf rh (con_mem (sys_con sys)) (sym_KMBUF sy) 1024 fmt args = Inr (int (length text), m) \<and>
    con_write (crlf text) (sys_vcs sys ! 0) ((sys_con sys)\<lparr>con_mem := m\<rparr>) = (n, vc, c) \<and>
    sys_vcs sys' ! 0 = vc \<and> quiet (sys_con sys') = quiet c \<and>
    console_ready con sys' \<and> tty_termios (tty_table sys' ! 0) = tty_termios (tty_table sys ! 0)"
proof -
  let ?b = "sym_KMBUF sy"
  have sz: "(1024 :: ulong) \<le> INT_MAX" by (simp add: INT_MAX_def)
  have "room ?b 1024 = 1024" using assms(6) by (simp add: room_def)
  with vsnprintf_stores [OF sz assms(3), of ?b] assms(4,6) obtain m where
    v: "vsnprintf rh (con_mem (sys_con sys)) ?b 1024 fmt args = Inr (int (length text), m)" "bytes m ?b (length text) = text"
    by (auto simp: Let_def min_def split: if_splits)
  let ?s = "sys\<lparr>sys_con := (sys_con sys)\<lparr>con_mem := m\<rparr>\<rparr>"
  have r: "console_ready con ?s" using assms(1) by (simp add: console_ready_def)
  obtain n vc c where w: "con_write (crlf text) (sys_vcs sys ! 0) ((sys_con sys)\<lparr>con_mem := m\<rparr>) = (n, vc, c)" by (metis prod_cases3)
  have "cooked ?s text = crlf text"
    using assms(2) by (simp add: cooked_std)
  with w have "con_write (cooked ?s text) (sys_vcs ?s ! 0) (sys_con ?s) = (n, vc, c)" by simp
  from tty_write_con_write [OF r assms(5) _ this, of warn] assms(4) obtain sys' where
    t: "tty_write warn text ?s = Some (Inr (int (length text), sys'))" "console_ready con sys'" "sys_vcs sys' ! 0 = vc"
    "quiet (sys_con sys') = quiet c" "tty_termios (tty_table sys' ! 0) = tty_termios (tty_table sys ! 0)"
    by (auto simp: TTY_WRITE_BUF_SIZE_def)
  have "printk sy rh warn fmt args sys = Some (Inr (int (length text), sys'))"
    using assms(4) v t(1) by (simp add: printk_def)
  with v(1) w t show ?thesis by blast
qed

text \<open>The states of the machine while the kernel prints: it boots, and prints texts that fit the buffer of \<^verbatim>\<open>printk\<close>.\<close>

inductive printk_reach ::
  "tty_symbols \<Rightarrow> (ulong \<Rightarrow> resource) \<Rightarrow> (n_tty_data \<times> vc_struct \<times> console \<Rightarrow> n_tty_data \<times> vc_struct \<times> console) \<Rightarrow> tty_sys \<Rightarrow> tty_sys \<Rightarrow> bool"
  for sy rh warn sys0 where
  reach_boot: "tty_init sy sys0 = Inr sys \<Longrightarrow> printk_reach sy rh warn sys0 sys"
| reach_print: "printk_reach sy rh warn sys0 sys \<Longrightarrow> vsn_text rh (con_mem (sys_con sys)) fmt zero_spec args = Inr text \<Longrightarrow>
    length text < 1024 \<Longrightarrow> 27 \<notin> set text \<Longrightarrow> printk sy rh warn fmt args sys = Some (Inr (n, sys')) \<Longrightarrow> printk_reach sy rh warn sys0 sys'"

lemma reach_ready:
  assumes "printk_reach sy rh warn sys0 sys" "tty_boot_ok sys0" "unat (sym_KMBUF sy) + 1024 < 2 ^ 32"
  shows "console_ready vga_con sys \<and> tty_termios (tty_table sys ! 0) = tty_std_termios"
  using assms(1)
proof induction
  case reach_boot
  with tty_init_ready [OF assms(2)] show ?case by blast
next
  case reach_print
  then show ?case using printk_spec [of vga_con _ rh _ _ _ sy warn] assms(3) by fastforce
qed

section \<open>Properties\<close>

definition demo_sy :: tty_symbols where
  "demo_sy = \<lparr>sym_tty_drivers = 0xC0002000, sym_console_node = 0xC0002040, sym_KMBUF = 0xC0001000\<rparr>"

definition demo_sys :: tty_sys where
  "demo_sys = \<lparr>tty_table = replicate 2 demo_tty, sys_ldiscs = demo_ldiscs, sys_ldata = \<lparr>column = 0, canon_column = 0\<rparr>,
     sys_drivers = INIT_LIST_HEAD \<lparr>lh_next = (\<lambda>_. 0), lh_prev = (\<lambda>_. 0)\<rparr> (sym_tty_drivers demo_sy),
     sys_console_driver = \<lparr>drv_name = [], drv_flags = 0, drv_type = 0, drv_major = 0, drv_minor_start = 0, drv_num = 0,
       init_termios = tty_std_termios, drv_ops = None\<rparr>,
     sys_vcs = replicate 8 zero_vc, sys_con = demo_console\<rparr>"

lemma demo_boot: "tty_boot_ok demo_sys" "unat (sym_KMBUF demo_sy) + 1024 < 2 ^ 32"
  using demo_screen_ok by (simp_all add: tty_boot_ok_def demo_sys_def demo_sy_def)

lemma demo_tty_init:
  obtains sys where "tty_init demo_sy demo_sys = Inr sys" "sys_con sys = demo_start"
proof -
  obtain vcs where "console_init (sys_vcs demo_sys) (sys_con demo_sys) = Inr (0, vcs, demo_start)"
    using demo_console_init by (simp add: demo_sys_def)
  then have "\<exists>sys. tty_init demo_sy demo_sys = Inr sys \<and> sys_con sys = demo_start"
    by (simp add: tty_init_def tty_console_init_def console_init_tty_def tty_register_driver_def alloc_tty_struct_def Let_def)
  with that show ?thesis by blast
qed

lemma demo_start_mem: "con_mem demo_start = (\<lambda>_. 0)"
  by (simp add: demo_start_def demo_console_def vgacon_startup_def Let_def)

text \<open>
  C8: From \<^verbatim>\<open>tty_init\<close> on, after any number of calls, \<^verbatim>\<open>printk\<close> of a format whose text is shorter than its buffer and has no
  escape character returns the length of the text, and the terminal and the memory are those after the text, with a
  carriage return before every line feed, was written to the virtual terminal; only the log of the port writes
  that move the hardware cursor differs.
\<close>

theorem printk_shows_text:
  assumes "tty_boot_ok sys0" "unat (sym_KMBUF sy) + 1024 < 2 ^ 32" "printk_reach sy rh warn sys0 sys"
    and "vsn_text rh (con_mem (sys_con sys)) fmt zero_spec args = Inr text" "length text < 1024" "27 \<notin> set text"
  shows "\<exists>sys' m n vc c. printk sy rh warn fmt args sys = Some (Inr (int (length text), sys')) \<and>
    vsnprintf rh (con_mem (sys_con sys)) (sym_KMBUF sy) 1024 fmt args = Inr (int (length text), m) \<and>
    con_write (crlf text) (sys_vcs sys ! 0) ((sys_con sys)\<lparr>con_mem := m\<rparr>) = (n, vc, c) \<and>
    sys_vcs sys' ! 0 = vc \<and> (sys_con sys')\<lparr>con_out := []\<rparr> = c\<lparr>con_out := []\<rparr>"
proof -
  have "console_ready vga_con sys" "c_oflag (tty_termios (tty_table sys ! 0)) = c_oflag tty_std_termios"
    using reach_ready [OF assms(3,1,2)] by auto
  from printk_spec [OF this assms(4-6,2), of warn] show ?thesis unfolding quiet_def by blast
qed

theorem printk_shows_text_witness:
  "\<exists>sys sys'. tty_init demo_sy demo_sys = Inr sys \<and>
    printk demo_sy no_resource (\<lambda>st. st) (str8 ''x=%d'') [42] sys = Some (Inr (4, sys'))"
proof -
  obtain sys where i: "tty_init demo_sy demo_sys = Inr sys" "sys_con sys = demo_start" using demo_tty_init .
  have t: "vsn_text no_resource (con_mem (sys_con sys)) (str8 ''x=%d'') zero_spec [42] = Inr (str8 ''x=42'')"
    using example_text by (simp add: i(2) demo_start_mem)
  have "length (str8 ''x=42'') < 1024" "27 \<notin> set (str8 ''x=42'')" by (simp_all add: str8_def)
  from printk_shows_text [OF demo_boot printk_reach.reach_boot [OF i(1)] t this, of "\<lambda>st. st"] i(1)
  show ?thesis by (auto simp: str8_def)
qed

text \<open>
  C22: In any terminal settings, a write of at most 2048 bytes without an escape character to the console terminal returns
  their number and does to the virtual terminal and the memory what one write of the text does that the reference translation
  gives, character by character; the column state is that of the translation too.
\<close>

theorem tty_write_cooks:
  assumes "console_ready con sys" "27 \<notin> set buf" "length buf \<le> TTY_WRITE_BUF_SIZE"
    and "con_write (cooked sys buf) (sys_vcs sys ! 0) (sys_con sys) = (n, vc, c)"
  shows "\<exists>sys'. tty_write warn buf sys = Some (Inr (int (length buf), sys')) \<and> console_ready con sys' \<and>
    sys_vcs sys' ! 0 = vc \<and> (sys_con sys')\<lparr>con_out := []\<rparr> = c\<lparr>con_out := []\<rparr> \<and>
    sys_ldata sys' = snd (n_tty_text (tty_table sys ! 0) buf (sys_ldata sys))"
proof -
  obtain sys' where w: "tty_write warn buf sys = Some (Inr (int (length buf), sys'))"
    "sys_ldata sys' = snd (n_tty_text (tty_table sys ! 0) buf (sys_ldata sys))" using tty_write_view [OF assms(1-3)] by blast
  with tty_write_con_write [OF assms, of warn] show ?thesis by (auto simp: quiet_def)
qed

theorem tty_write_cooks_witness:
  "\<exists>sys sys'. tty_init demo_sy demo_sys = Inr sys \<and> cooked sys [72, 105, 10] = [72, 105, 13, 10] \<and>
    tty_write (\<lambda>st. st) [72, 105, 10] sys = Some (Inr (3, sys'))"
proof -
  obtain sys where i: "tty_init demo_sy demo_sys = Inr sys" using demo_tty_init .
  note r = tty_init_ready [OF demo_boot(1) i]
  obtain n vc c where w: "con_write (cooked sys [72, 105, 10]) (sys_vcs sys ! 0) (sys_con sys) = (n, vc, c)" by (metis prod_cases3)
  have "cooked sys [72, 105, 10] = [72, 105, 13, 10]"
    using r by (simp add: cooked_std crlf_def)
  moreover have "27 \<notin> set [72, 105, 10 :: u8]" "length [72, 105, 10 :: u8] \<le> TTY_WRITE_BUF_SIZE" by (simp_all add: TTY_WRITE_BUF_SIZE_def)
  from tty_write_cooks [OF conjunct1 [OF r] this w, of "\<lambda>st. st"] have "\<exists>sys'. tty_write (\<lambda>st. st) [72, 105, 10] sys = Some (Inr (3, sys'))" by auto
  ultimately show ?thesis using i by blast
qed

text \<open>
  C25: A write of any bytes to a stopped terminal with output processing does not return: the driver has no room, the loop of
  \<^verbatim>\<open>n_tty_write\<close> tries again and nothing in it can start the terminal.
\<close>

theorem stopped_terminal_loops:
  assumes "console_ready con sys" "O_OPOST (tty_table sys ! 0)" "buf \<noteq> []"
  shows "tty_write warn buf (sys\<lparr>tty_table := (tty_table sys)[0 := (tty_table sys ! 0)\<lparr>tty_stopped := True\<rparr>]\<rparr>) = None"
proof -
  let ?tty = "(tty_table sys ! 0)\<lparr>tty_stopped := True\<rparr>"
  have loop: "n_tty_write console_tty_ops con_writer (?tty\<lparr>tty_write_buf := wb\<rparr>) bs ld d = None" if "bs \<noteq> []" for wb bs ld d
  proof -
    have "tty_write_room console_tty_ops (?tty\<lparr>tty_write_buf := wb\<rparr>) d = 0"
      by (simp add: tty_write_room_def console_tty_ops_def con_write_room_def)
    from opost_loop_stuck [OF this that] assms(2) show ?thesis by (simp add: n_tty_write_def O_OPOST_def O_FLAG_def)
  qed
  have rdy: "tty_table sys \<noteq> []" "tty_ops (tty_table sys ! 0) = Some console_ops" "tty_driver_data (tty_table sys ! 0) = Some 0"
    "tty_ldisc_data (tty_table sys ! 0) = Some tmp_ldata" "tty_write_cnt (tty_table sys ! 0) = 2048"
    using assms(1) by (simp_all add: console_ready_def Let_def TTY_WRITE_BUF_SIZE_def)
  obtain ld where "Option.bind (tty_ldisc_ref_wait (tty_table sys ! 0)) (ldiscs (sys_ldiscs sys)) = Some ld"
    "ldisc_write (ld_ops ld) = Some (n_tty_write console_tty_ops con_writer)" using console_readyD [OF assms(1)] .
  with rdy assms(3) show ?thesis
    by (simp add: tty_write_def do_tty_write_def copy_from_user_def tty_ldisc_ref_wait_def Let_def loop split_beta
        console_tty_ops_def [THEN arg_cong, of op_write])
qed

theorem stopped_terminal_loops_witness:
  "\<exists>sys. tty_init demo_sy demo_sys = Inr sys \<and>
    tty_write (\<lambda>st. st) [72] (sys\<lparr>tty_table := (tty_table sys)[0 := (tty_table sys ! 0)\<lparr>tty_stopped := True\<rparr>]\<rparr>) = None"
proof -
  obtain sys where i: "tty_init demo_sy demo_sys = Inr sys" using demo_tty_init .
  note r = tty_init_ready [OF demo_boot(1) i]
  then have "O_OPOST (tty_table sys ! 0)" by (intro std_flags) simp
  from stopped_terminal_loops [OF conjunct1 [OF r] this, of "[72]"] i show ?thesis by blast
qed

text \<open>
  The column counts only tabs: with tab expansion, a tab behind printed characters still gives eight spaces.
\<close>

lemma tab_ignores_text:
  assumes "O_TABDLY tty = XTABS" "\<not> O_OLCUC tty" "list_all printable buf" "column ld = 0"
  shows "fst (opost tty (buf @ [9]) ld) = buf @ replicate 8 32"
  using assms(3)
proof (induction buf)
  case Nil
  with assms show ?case by (simp add: opost_char_def Let_def)
next
  case (Cons c buf)
  then have "c \<noteq> 10" "c \<noteq> 13" "c \<noteq> 9" "c \<noteq> 8" by (auto simp: printable_def)
  with Cons assms(2) show ?case by (simp add: opost_char_def Let_def split_beta)
qed

end
