(* ===== verification/Boot_Code.thy ===== *)
theory Boot_Code
  imports E820 Vsprintf
begin

text \<open>
  The real-mode boot code of \<^verbatim>\<open>arch/x86/boot\<close> that is written in C: \<^verbatim>\<open>printf.c\<close>, \<^verbatim>\<open>string.c\<close>, the console functions of
  \<^verbatim>\<open>tty.c\<close>, \<^verbatim>\<open>regs.c\<close> and the memory detection of \<^verbatim>\<open>memory.c\<close>.  The BIOS is a parameter: \<^verbatim>\<open>intcall\<close> takes an interrupt number, the
  registers and the state of the machine and gives the registers and the state after the call; where the code reads memory
  the state has the memory of the machine as its first part, by linear address; the program reads and writes it through the
  segment \<^verbatim>\<open>ds\<close>, which is also the segment of its stack.  \<^verbatim>\<open>boot_params\<close> is kept apart from it.  The A20 gate of \<^verbatim>\<open>a20.c\<close> works on physical
  memory.
\<close>

section \<open>Strings\<close>

primrec boot_memset :: "nat \<Rightarrow> mem \<Rightarrow> ulong \<Rightarrow> u8 \<Rightarrow> mem" where
  "boot_memset 0 m d c = m"
| "boot_memset (Suc len) m d c = boot_memset len (m(d := c)) (d + 1) c"

primrec boot_memcpy :: "nat \<Rightarrow> mem \<Rightarrow> ulong \<Rightarrow> ulong \<Rightarrow> mem" where
  "boot_memcpy 0 m d s = m"
| "boot_memcpy (Suc n) m d s = boot_memcpy n (m(d := m s)) (d + 1) (s + 1)"

text \<open>\<^verbatim>\<open>delta = *s2 - *s1\<close>.\<close>

partial_function (option) boot_strcmp :: "mem \<Rightarrow> ulong \<Rightarrow> ulong \<Rightarrow> int option" where
  "boot_strcmp m s1 s2 =
     (if m s1 \<noteq> 0 \<or> m s2 \<noteq> 0 then
        (let delta = uint (m s2) - uint (m s1) in if delta \<noteq> 0 then Some delta else boot_strcmp m (s1 + 1) (s2 + 1))
      else Some 0)"

primrec boot_strncmp :: "nat \<Rightarrow> mem \<Rightarrow> ulong \<Rightarrow> ulong \<Rightarrow> int" where
  "boot_strncmp 0 m s1 s2 = 0"
| "boot_strncmp (Suc len) m s1 s2 =
     (if m s1 \<noteq> 0 \<or> m s2 \<noteq> 0 then
        (let delta = uint (m s2) - uint (m s1) in if delta \<noteq> 0 then delta else boot_strncmp len m (s1 + 1) (s2 + 1))
      else 0)"

primrec boot_strnlen :: "nat \<Rightarrow> mem \<Rightarrow> ulong \<Rightarrow> nat" where
  "boot_strnlen 0 m es = 0"
| "boot_strnlen (Suc maxlen) m es = (if m es \<noteq> 0 then Suc (boot_strnlen maxlen m (es + 1)) else 0)"

partial_function (option) boot_strlen :: "mem \<Rightarrow> ulong \<Rightarrow> nat option" where
  "boot_strlen m es = (if m es \<noteq> 0 then Option.bind (boot_strlen m (es + 1)) (\<lambda>n. Some (Suc n)) else Some 0)"

section \<open>Numbers\<close>

definition BOOT_ZEROPAD :: u8 where "BOOT_ZEROPAD = 1"
definition BOOT_SIGN :: u8 where "BOOT_SIGN = 2"
definition BOOT_PLUS :: u8 where "BOOT_PLUS = 4"
definition BOOT_SPACE :: u8 where "BOOT_SPACE = 8"
definition BOOT_LEFT :: u8 where "BOOT_LEFT = 16"
definition BOOT_SMALL :: u8 where "BOOT_SMALL = 32"
definition BOOT_SPECIAL :: u8 where "BOOT_SPECIAL = 64"

definition boot_isdigit :: "u8 \<Rightarrow> bool" where
  "boot_isdigit ch \<longleftrightarrow> 48 \<le> ch \<and> ch \<le> 57"

fun boot_skip_atoi :: "u32 \<Rightarrow> u8 list \<Rightarrow> u32 \<times> u8 list" where
  "boot_skip_atoi i [] = (i, [])"
| "boot_skip_atoi i (c # s) = (if boot_isdigit c then boot_skip_atoi (i * 10 + ucast c - 48) s else (i, c # s))"

text \<open>The digits, least significant first: \<^verbatim>\<open>while (num != 0) tmp[i++] = (digits[__do_div(num, base)] | locase);\<close>\<close>

function boot_digits :: "u32 \<Rightarrow> u8 \<Rightarrow> u32 \<Rightarrow> u8 list" where
  "boot_digits base locase num =
     (if num = 0 \<or> base < 2 then []
      else (hex_asc_upper ! unat (num mod base) OR locase) # boot_digits base locase (num div base))"
  by pat_completeness auto
termination
proof (relation "measure (\<lambda>(base, locase, num). unat num)")
  fix base :: u32 and locase :: u8 and num :: u32
  assume "\<not> (num = 0 \<or> base < 2)"
  then have "0 < unat num" "2 \<le> unat base" by (simp_all add: unat_gt_0 word_less_nat_alt)
  then show "((base, locase, num div base), base, locase, num) \<in> measure (\<lambda>(base, locase, num). unat num)"
    by (simp add: unat_div)
qed simp

declare boot_digits.simps [simp del]

text \<open>\<^verbatim>\<open>while (size-- > 0)\<close> and \<^verbatim>\<open>while (i < precision--)\<close>: the number of turns, and the size left.\<close>

function boot_pad :: "int \<Rightarrow> nat \<times> int" where
  "boot_pad sz = (if sz > 0 then (case boot_pad (sz - 1) of (n, sz) \<Rightarrow> (Suc n, sz)) else (0, sz - 1))"
  by pat_completeness auto
termination
  by (relation "measure nat") auto

function boot_zeros :: "int \<Rightarrow> int \<Rightarrow> nat" where
  "boot_zeros i prec = (if i < prec then Suc (boot_zeros i (prec - 1)) else 0)"
  by pat_completeness auto
termination
  by (relation "measure (\<lambda>(i, p). nat (p - i))") auto

declare boot_pad.simps [simp del] boot_zeros.simps [simp del]

text \<open>\<open>None\<close> is the null pointer that \<^verbatim>\<open>number\<close> returns for a base it does not know; the text is what it stores.\<close>

definition boot_number :: "u32 \<Rightarrow> u32 \<Rightarrow> int \<Rightarrow> int \<Rightarrow> u8 \<Rightarrow> u8 list option" where
  "boot_number num base sz prec type =
     (let locase = type AND BOOT_SMALL;
          type = (if type AND BOOT_LEFT \<noteq> 0 then type AND NOT BOOT_ZEROPAD else type) in
      if base < 2 \<or> base > 16 then None
      else
        (let c = (if type AND BOOT_ZEROPAD \<noteq> 0 then of_char CHR ''0'' else of_char CHR '' '');
             (sign, num, sz) =
               (if type AND BOOT_SIGN \<noteq> 0 then
                  if sint num < 0 then (of_char CHR ''-'', - num, sz - 1)
                  else if type AND BOOT_PLUS \<noteq> 0 then (of_char CHR ''+'', num, sz - 1)
                  else if type AND BOOT_SPACE \<noteq> 0 then (of_char CHR '' '', num, sz - 1)
                  else (0, num, sz)
                else (0, num, sz));
             sz = (if type AND BOOT_SPECIAL \<noteq> 0 then if base = 16 then sz - 2 else if base = 8 then sz - 1 else sz else sz);
             tmp = (if num = 0 then [of_char CHR ''0''] else boot_digits base locase num);
             prec = (if int (length tmp) > prec then int (length tmp) else prec);
             sz = sz - prec;
             (lead, sz) = (if type AND (BOOT_ZEROPAD + BOOT_LEFT) = 0 then boot_pad sz else (0, sz));
             prefix = (if type AND BOOT_SPECIAL \<noteq> 0 then
                         if base = 8 then [of_char CHR ''0'']
                         else if base = 16 then [of_char CHR ''0'', of_char CHR ''X'' OR locase] else []
                       else []);
             (mid, sz) = (if type AND BOOT_LEFT = 0 then boot_pad sz else (0, sz)) in
         Some (replicate lead (of_char CHR '' '') @
               (if sign \<noteq> 0 then [sign] else []) @ prefix @
               replicate mid c @
               replicate (boot_zeros (int (length tmp)) prec) (of_char CHR ''0'') @
               rev tmp @
               replicate (fst (boot_pad sz)) (of_char CHR '' ''))))"

section \<open>Formats\<close>

text \<open>
  The format is the list of its bytes before the terminator, the arguments are 32-bit slots.  After a \<^verbatim>\<open>%\<close>: the flags, the width,
  the precision and the qualifier; each function returns what is left of the format.
\<close>

fun boot_flags :: "u8 \<Rightarrow> u8 list \<Rightarrow> u8 \<times> u8 list" where
  "boot_flags flags [] = (flags, [])"
| "boot_flags flags (c # fmt) =
     (if c = of_char CHR ''-'' then boot_flags (flags OR BOOT_LEFT) fmt
      else if c = of_char CHR ''+'' then boot_flags (flags OR BOOT_PLUS) fmt
      else if c = of_char CHR '' '' then boot_flags (flags OR BOOT_SPACE) fmt
      else if c = of_char CHR ''#'' then boot_flags (flags OR BOOT_SPECIAL) fmt
      else if c = of_char CHR ''0'' then boot_flags (flags OR BOOT_ZEROPAD) fmt
      else (flags, c # fmt))"

definition boot_width :: "u8 \<Rightarrow> u8 list \<Rightarrow> u32 list \<Rightarrow> (int \<times> u8 \<times> u8 list \<times> u32 list) kres" where
  "boot_width flags fmt args =
     (if boot_isdigit (cur fmt) then (case boot_skip_atoi 0 fmt of (i, fmt) \<Rightarrow> Inr (sint i, flags, fmt, args))
      else if cur fmt = of_char CHR ''*'' then
        kbind (va_int args) (\<lambda>(v, args).
          if sint v < 0 then Inr (- sint v, flags OR BOOT_LEFT, tl fmt, args) else Inr (sint v, flags, tl fmt, args))
      else Inr (- 1, flags, fmt, args))"

definition boot_precision :: "u8 list \<Rightarrow> u32 list \<Rightarrow> (int \<times> u8 list \<times> u32 list) kres" where
  "boot_precision fmt args =
     (if cur fmt = of_char CHR ''.'' then
        (let fmt = tl fmt in
         kbind (if boot_isdigit (cur fmt) then (case boot_skip_atoi 0 fmt of (i, fmt) \<Rightarrow> Inr (sint i, fmt, args))
                else if cur fmt = of_char CHR ''*'' then kbind (va_int args) (\<lambda>(v, args). Inr (sint v, tl fmt, args))
                else Inr (- 1, fmt, args))
           (\<lambda>(prec, fmt, args). Inr (if prec < 0 then 0 else prec, fmt, args)))
      else Inr (- 1, fmt, args))"

definition boot_qualifier :: "u8 list \<Rightarrow> u8 \<times> u8 list" where
  "boot_qualifier fmt =
     (if cur fmt = of_char CHR ''h'' \<or> cur fmt = of_char CHR ''l'' \<or> cur fmt = of_char CHR ''L'' then (cur fmt, tl fmt) else (0, fmt))"

text \<open>The value of an integer argument.\<close>

definition boot_arg :: "u8 \<Rightarrow> u8 \<Rightarrow> u32 \<Rightarrow> u32" where
  "boot_arg qualifier flags v =
     (if qualifier = of_char CHR ''l'' then v
      else if qualifier = of_char CHR ''h'' then
        (if flags AND BOOT_SIGN \<noteq> 0 then scast (ucast v :: u16) else ucast (ucast v :: u16))
      else v)"

text \<open>\<^verbatim>\<open>while (--field_width > 0)\<close> and \<^verbatim>\<open>while (len < field_width--)\<close>.\<close>

definition boot_pad_pre :: "int \<Rightarrow> nat \<times> int" where
  "boot_pad_pre w = (let w = w - 1 in if w > 0 then (nat w, 0) else (0, w))"

definition boot_pad_len :: "nat \<Rightarrow> int \<Rightarrow> nat \<times> int" where
  "boot_pad_len len w = (if int len < w then (nat (w - int len), int len - 1) else (0, w - 1))"

definition boot_char :: "u8 \<Rightarrow> int \<Rightarrow> u32 \<Rightarrow> u8 list" where
  "boot_char flags w v =
     (let (lead, w) = (if flags AND BOOT_LEFT = 0 then boot_pad_pre w else (0, w)) in
      replicate lead 32 @ [ucast v] @ replicate (fst (boot_pad_pre w)) 32)"

text \<open>\<^verbatim>\<open>*str++ = c\<close> for each character of a text.\<close>

fun boot_put :: "mem \<Rightarrow> ulong \<Rightarrow> u8 list \<Rightarrow> mem" where
  "boot_put m str [] = m"
| "boot_put m str (c # cs) = boot_put (m(str := c)) (str + 1) cs"

definition boot_emit :: "mem \<Rightarrow> ulong \<Rightarrow> u8 list \<Rightarrow> mem \<times> ulong" where
  "boot_emit m str out = (boot_put m str out, str + of_nat (length out))"

text \<open>The characters are copied one by one from the string to the buffer.\<close>

definition boot_string :: "mem \<Rightarrow> ulong \<Rightarrow> u8 \<Rightarrow> int \<Rightarrow> int \<Rightarrow> ulong \<Rightarrow> mem \<times> ulong" where
  "boot_string m str flags w prec s =
     (let len = boot_strnlen (unat (of_int prec :: u32)) m s;
          (lead, w) = (if flags AND BOOT_LEFT = 0 then boot_pad_len len w else (0, w));
          (m, str) = boot_emit m str (replicate lead 32);
          m = boot_memcpy len m str s in
      boot_emit m (str + of_nat len) (replicate (fst (boot_pad_len len w)) 32))"

definition boot_store32 :: "mem \<Rightarrow> ulong \<Rightarrow> u32 \<Rightarrow> mem" where
  "boot_store32 m a v =
     m(a := ucast v, a + 1 := ucast (drop_bit 8 v), a + 2 := ucast (drop_bit 16 v), a + 3 := ucast (drop_bit 24 v))"

text \<open>
  One conversion: the memory, the end of the output and the arguments left; \<open>buf\<close> is the start of the output, for \<^verbatim>\<open>%n\<close>.
  \<^verbatim>\<open>number\<close> is called with bases that it knows.
\<close>

definition boot_conv ::
  "ulong \<Rightarrow> mem \<Rightarrow> ulong \<Rightarrow> u8 \<Rightarrow> u8 \<Rightarrow> int \<Rightarrow> int \<Rightarrow> u8 \<Rightarrow> u32 list \<Rightarrow> (mem \<times> ulong \<times> u32 list) kres" where
  "boot_conv buf m str ch flags w prec qualifier args =
     (let emit = (\<lambda>out args. case boot_emit m str out of (m, str) \<Rightarrow> Inr (m, str, args));
          num = (\<lambda>base flags. kbind (va_int args) (\<lambda>(v, args).
            case boot_number (boot_arg qualifier flags v) base w prec flags of
              None \<Rightarrow> Inl NullDeref
            | Some out \<Rightarrow> emit out args)) in
      if ch = of_char CHR ''c'' then kbind (va_int args) (\<lambda>(v, args). emit (boot_char flags w v) args)
      else if ch = of_char CHR ''s'' then
        kbind (va_int args) (\<lambda>(v, args). case boot_string m str flags w prec v of (m, str) \<Rightarrow> Inr (m, str, args))
      else if ch = of_char CHR ''p'' then
        kbind (va_int args) (\<lambda>(v, args).
          case (if w = - 1 then boot_number v 16 8 prec (flags OR BOOT_ZEROPAD) else boot_number v 16 w prec flags) of
            None \<Rightarrow> Inl NullDeref
          | Some out \<Rightarrow> emit out args)
      else if ch = of_char CHR ''n'' then kbind (va_int args) (\<lambda>(v, args). Inr (boot_store32 m v (str - buf), str, args))
      else if ch = of_char CHR ''%'' then emit [of_char CHR ''%''] args
      else if ch = of_char CHR ''o'' then num 8 flags
      else if ch = of_char CHR ''x'' then num 16 (flags OR BOOT_SMALL)
      else if ch = of_char CHR ''X'' then num 16 flags
      else if ch = of_char CHR ''d'' \<or> ch = of_char CHR ''i'' then num 10 (flags OR BOOT_SIGN)
      else if ch = of_char CHR ''u'' then num 10 flags
      else emit (of_char CHR ''%'' # (if ch \<noteq> 0 then [ch] else [])) args)"

definition boot_directive ::
  "ulong \<Rightarrow> mem \<Rightarrow> ulong \<Rightarrow> u8 list \<Rightarrow> u32 list \<Rightarrow> (mem \<times> ulong \<times> u8 list \<times> u32 list) kres" where
  "boot_directive buf m str fmt args =
     (case boot_flags 0 fmt of (flags, fmt) \<Rightarrow>
      kbind (boot_width flags fmt args) (\<lambda>(w, flags, fmt, args).
      kbind (boot_precision fmt args) (\<lambda>(prec, fmt, args).
      case boot_qualifier fmt of (qualifier, fmt) \<Rightarrow>
      kbind (boot_conv buf m str (cur fmt) flags w prec qualifier args) (\<lambda>(m, str, args). Inr (m, str, tl fmt, args)))))"

lemma boot_flags_le: "boot_flags fl fmt = (fl', rest) \<Longrightarrow> length rest \<le> length fmt"
  by (induction fl fmt rule: boot_flags.induct) (auto split: if_splits simp: le_SucI)

lemma boot_skip_atoi_le: "boot_skip_atoi i fmt = (j, rest) \<Longrightarrow> length rest \<le> length fmt"
  by (induction i fmt rule: boot_skip_atoi.induct) (auto split: if_splits simp: le_SucI)

lemma boot_width_le: "boot_width fl fmt args = Inr (w, fl', rest, args') \<Longrightarrow> length rest \<le> length fmt"
  by (auto simp: boot_width_def kbind_eq_Inr boot_skip_atoi_le split: if_splits prod.splits)

lemma boot_precision_le: "boot_precision fmt args = Inr (p, rest, args') \<Longrightarrow> length rest \<le> length fmt"
  by (auto simp: boot_precision_def Let_def kbind_eq_Inr split: if_splits prod.splits dest!: boot_skip_atoi_le)

lemma boot_directive_le: "boot_directive buf m str fmt args = Inr (m', str', rest, args') \<Longrightarrow> length rest \<le> length fmt"
  by (auto simp: boot_directive_def kbind_eq_Inr boot_qualifier_def split: prod.splits if_splits
      dest!: boot_flags_le boot_width_le boot_precision_le)

text \<open>The loop of \<^verbatim>\<open>vsprintf\<close>; a \<^verbatim>\<open>%\<close> at the end of the format ends it.\<close>

function boot_vsprintf_loop :: "ulong \<Rightarrow> mem \<Rightarrow> ulong \<Rightarrow> u8 list \<Rightarrow> u32 list \<Rightarrow> (mem \<times> ulong) kres" where
  "boot_vsprintf_loop buf m str fmt args =
     (case fmt of
        [] \<Rightarrow> Inr (m, str)
      | c # fmt \<Rightarrow>
          if c \<noteq> of_char CHR ''%'' then boot_vsprintf_loop buf (m(str := c)) (str + 1) fmt args
          else (case boot_directive buf m str fmt args of
                  Inl e \<Rightarrow> Inl e
                | Inr (m, str, fmt, args) \<Rightarrow> boot_vsprintf_loop buf m str fmt args))"
  by pat_completeness auto
termination
  by (relation "measure (\<lambda>(buf, m, str, fmt, args). length fmt)") (auto dest: boot_directive_le)

declare boot_vsprintf_loop.simps [simp del]

definition boot_vsprintf :: "mem \<Rightarrow> ulong \<Rightarrow> u8 list \<Rightarrow> u32 list \<Rightarrow> (int \<times> mem) kres" where
  "boot_vsprintf m buf fmt args =
     kbind (boot_vsprintf_loop buf m buf fmt args) (\<lambda>(m, str). Inr (sint (str - buf), m(str := 0)))"

definition boot_sprintf :: "mem \<Rightarrow> ulong \<Rightarrow> u8 list \<Rightarrow> u32 list \<Rightarrow> (int \<times> mem) kres" where
  "boot_sprintf m buf fmt args = boot_vsprintf m buf fmt args"

section \<open>BIOS calls\<close>

record biosregs =
  r_edi :: u32
  r_esi :: u32
  r_ebp :: u32
  r_esp :: u32
  r_ebx :: u32
  r_edx :: u32
  r_ecx :: u32
  r_eax :: u32
  r_gs :: u16
  r_fs :: u16
  r_es :: u16
  r_ds :: u16
  r_eflags :: u32

definition X86_EFLAGS_CF :: u32 where "X86_EFLAGS_CF = 1"
definition X86_EFLAGS_ZF :: u32 where "X86_EFLAGS_ZF = 0x40"

text \<open>The BIOS on a machine of any type, and the values of the segment registers \<^verbatim>\<open>ds\<close>, \<^verbatim>\<open>fs\<close> and \<^verbatim>\<open>gs\<close>.\<close>

type_synonym 's intcall = "u8 \<Rightarrow> biosregs \<Rightarrow> 's \<Rightarrow> biosregs \<times> 's"

record segments =
  seg_ds :: u16
  seg_fs :: u16
  seg_gs :: u16

definition initregs :: "segments \<Rightarrow> biosregs" where
  "initregs sg = \<lparr>r_edi = 0, r_esi = 0, r_ebp = 0, r_esp = 0, r_ebx = 0, r_edx = 0, r_ecx = 0, r_eax = 0,
     r_gs = seg_gs sg, r_fs = seg_fs sg, r_es = seg_ds sg, r_ds = seg_ds sg, r_eflags = X86_EFLAGS_CF\<rparr>"

text \<open>The parts of a register: the low word, its high and its low byte.\<close>

definition set_word :: "u32 \<Rightarrow> u16 \<Rightarrow> u32" where
  "set_word r v = (r AND 0xffff0000) OR ucast v"

definition set_high :: "u32 \<Rightarrow> u8 \<Rightarrow> u32" where
  "set_high r v = (r AND 0xffff00ff) OR push_bit 8 (ucast v)"

definition set_low :: "u32 \<Rightarrow> u8 \<Rightarrow> u32" where
  "set_low r v = (r AND 0xffffff00) OR ucast v"

section \<open>The console of the BIOS\<close>

definition bios_putchar :: "'s intcall \<Rightarrow> segments \<Rightarrow> u8 \<Rightarrow> 's \<Rightarrow> 's" where
  "bios_putchar intcall sg ch st =
     (let ireg = initregs sg;
          ireg = ireg\<lparr>r_ebx := set_word (r_ebx ireg) 7, r_ecx := set_word (r_ecx ireg) 1,
                      r_eax := set_low (set_high (r_eax ireg) 0x0e) ch\<rparr> in
      snd (intcall 0x10 ireg st))"

definition boot_putchar :: "'s intcall \<Rightarrow> segments \<Rightarrow> u8 \<Rightarrow> 's \<Rightarrow> 's" where
  "boot_putchar intcall sg ch st =
     bios_putchar intcall sg ch (if ch = 10 then bios_putchar intcall sg 13 st else st)"

text \<open>The memory of the machine as the program sees it: offset \<open>a\<close> of a segment is the linear address 16 times the segment plus \<open>a\<close>.\<close>

definition seg_addr :: "u16 \<Rightarrow> u32 \<Rightarrow> ulong" where
  "seg_addr segm a = push_bit 4 (ucast segm) + a"

definition seg_view :: "u16 \<Rightarrow> mem \<Rightarrow> mem" where
  "seg_view segm m = (\<lambda>a. m (seg_addr segm a))"

definition seg_update :: "u16 \<Rightarrow> mem \<Rightarrow> mem" where
  "seg_update segm v = (\<lambda>x. v (x - seg_addr segm 0))"

partial_function (option) boot_puts :: "(mem \<times> 'b) intcall \<Rightarrow> segments \<Rightarrow> ulong \<Rightarrow> mem \<times> 'b \<Rightarrow> (mem \<times> 'b) option" where
  "boot_puts intcall sg str st =
     (let ch = seg_view (seg_ds sg) (fst st) str in
      if ch \<noteq> 0 then boot_puts intcall sg (str + 1) (boot_putchar intcall sg ch st) else Some st)"

definition boot_gettime :: "'s intcall \<Rightarrow> segments \<Rightarrow> 's \<Rightarrow> u8 \<times> 's" where
  "boot_gettime intcall sg st =
     (let ireg = initregs sg; (oreg, st) = intcall 0x1a (ireg\<lparr>r_eax := set_high (r_eax ireg) 2\<rparr>) st in
      (ucast (drop_bit 8 (r_edx oreg)), st))"

definition boot_getchar :: "'s intcall \<Rightarrow> segments \<Rightarrow> 's \<Rightarrow> u8 \<times> 's" where
  "boot_getchar intcall sg st = (let (oreg, st) = intcall 0x16 (initregs sg) st in (ucast (r_eax oreg), st))"

definition kbd_pending :: "'s intcall \<Rightarrow> segments \<Rightarrow> 's \<Rightarrow> bool \<times> 's" where
  "kbd_pending intcall sg st =
     (let ireg = initregs sg; (oreg, st) = intcall 0x16 (ireg\<lparr>r_eax := set_high (r_eax ireg) 1\<rparr>) st in
      (r_eflags oreg AND X86_EFLAGS_ZF = 0, st))"

partial_function (option) kbd_flush :: "'s intcall \<Rightarrow> segments \<Rightarrow> 's \<Rightarrow> 's option" where
  "kbd_flush intcall sg st =
     (case kbd_pending intcall sg st of (pending, st) \<Rightarrow>
        if \<not> pending then Some st else kbd_flush intcall sg (snd (boot_getchar intcall sg st)))"

partial_function (option) timeout_loop :: "'s intcall \<Rightarrow> segments \<Rightarrow> nat \<Rightarrow> u8 \<Rightarrow> 's \<Rightarrow> (int \<times> 's) option" where
  "timeout_loop intcall sg cnt t0 st =
     (if cnt = 0 then Some (0, st)
      else (case kbd_pending intcall sg st of (pending, st) \<Rightarrow>
        if pending then (case boot_getchar intcall sg st of (ch, st) \<Rightarrow> Some (uint ch, st))
        else (case boot_gettime intcall sg st of (t1, st) \<Rightarrow>
          if t0 \<noteq> t1 then timeout_loop intcall sg (cnt - 1) t1 st else timeout_loop intcall sg cnt t0 st)))"

definition getchar_timeout :: "'s intcall \<Rightarrow> segments \<Rightarrow> 's \<Rightarrow> (int \<times> 's) option" where
  "getchar_timeout intcall sg st = (case boot_gettime intcall sg st of (t0, st) \<Rightarrow> timeout_loop intcall sg 30 t0 st)"

text \<open>\<open>buf\<close> is the address of the array on the stack.\<close>

definition boot_printf :: "(mem \<times> 'b) intcall \<Rightarrow> segments \<Rightarrow> ulong \<Rightarrow> u8 list \<Rightarrow> u32 list \<Rightarrow> mem \<times> 'b \<Rightarrow> (int \<times> mem \<times> 'b) kres option" where
  "boot_printf intcall sg buf fmt args st =
     (case boot_vsprintf (seg_view (seg_ds sg) (fst st)) buf fmt args of
        Inl e \<Rightarrow> Some (Inl e)
      | Inr (printed, v) \<Rightarrow>
          (let st = (seg_update (seg_ds sg) v, snd st) in
           if printed \<noteq> - 1 then
             (case boot_puts intcall sg buf st of None \<Rightarrow> None | Some st \<Rightarrow> Some (Inr (printed, st)))
           else Some (Inr (printed, st))))"

section \<open>Memory detection\<close>

definition SMAP :: u32 where "SMAP = 0x534D4150"

definition load64 :: "mem \<Rightarrow> ulong \<Rightarrow> u64" where
  "load64 m a = ucast (load32 m a) OR push_bit 32 (ucast (load32 m (a + 4)))"

text \<open>An entry in memory: address, size and type, 20 bytes.\<close>

definition load_entry :: "mem \<Rightarrow> ulong \<Rightarrow> e820entry" where
  "load_entry m a = \<lparr>e_addr = load64 m a, e_size = load64 m (a + 8), e_type = load32 m (a + 16)\<rparr>"

function e820_loop ::
  "(mem \<times> 'b) intcall \<Rightarrow> segments \<Rightarrow> ulong \<Rightarrow> nat \<Rightarrow> e820entry list \<Rightarrow> biosregs \<Rightarrow> mem \<times> 'b \<Rightarrow> nat \<times> e820entry list \<times> mem \<times> 'b" where
  "e820_loop intcall sg buf cnt desc ireg st =
     (let (oreg, st) = intcall 0x15 ireg st; ireg = ireg\<lparr>r_ebx := r_ebx oreg\<rparr> in
      if r_eflags oreg AND 1 \<noteq> 0 then (cnt, desc, st)
      else if r_eax oreg \<noteq> SMAP then (0, desc, st)
      else (let desc = desc[cnt := load_entry (seg_view (seg_ds sg) (fst st)) buf]; cnt = cnt + 1 in
            if r_ebx ireg \<noteq> 0 \<and> cnt < E820MAX then e820_loop intcall sg buf cnt desc ireg st else (cnt, desc, st)))"
  by pat_completeness auto
termination
  by (relation "measure (\<lambda>(intcall, sg, buf, cnt, desc, ireg, st). E820MAX - cnt)") auto

declare e820_loop.simps [simp del]

text \<open>\<open>buf\<close> is the offset of the local variable; \<open>desc\<close> is \<^verbatim>\<open>boot_params.e820_map\<close>.  The result is \<^verbatim>\<open>e820_nr_entries\<close>, the map and the machine.\<close>

definition detect_memory_e820 :: "(mem \<times> 'b) intcall \<Rightarrow> segments \<Rightarrow> ulong \<Rightarrow> e820entry list \<Rightarrow> mem \<times> 'b \<Rightarrow> nat \<times> e820entry list \<times> mem \<times> 'b" where
  "detect_memory_e820 intcall sg buf desc st =
     (let st = (boot_put (fst st) (seg_addr (seg_ds sg) buf) (replicate 20 0), snd st);
          ireg = initregs sg;
          ireg = ireg\<lparr>r_eax := set_word (r_eax ireg) 0xe820, r_ecx := set_word (r_ecx ireg) 20, r_edx := SMAP,
                      r_edi := set_word (r_edi ireg) (ucast buf)\<rparr> in
      e820_loop intcall sg buf 0 desc ireg st)"

definition detect_memory :: "(mem \<times> 'b) intcall \<Rightarrow> segments \<Rightarrow> ulong \<Rightarrow> e820entry list \<Rightarrow> mem \<times> 'b \<Rightarrow> nat \<times> e820entry list \<times> mem \<times> 'b" where
  "detect_memory intcall sg buf desc st =
     (case detect_memory_e820 intcall sg buf desc st of (cnt, desc, st) \<Rightarrow>
        (cnt, desc, if cnt = 0 then fold (boot_putchar intcall sg) (str8 ''Detect physical memory failed...'' @ [10]) st else st))"

section \<open>The A20 gate\<close>

text \<open>
  Physical memory behind the gate: while it is closed, bit 20 of an address is zero on the bus.  The ports are parameters, like the
  BIOS; \<open>pc_rest\<close> is the state of the devices.
\<close>

record 'b pc =
  pc_mem :: mem
  pc_a20 :: bool
  pc_rest :: 'b

type_synonym 's inb = "u16 \<Rightarrow> 's \<Rightarrow> u8 \<times> 's"
type_synonym 's outb = "u8 \<Rightarrow> u16 \<Rightarrow> 's \<Rightarrow> 's"

definition bus :: "'b pc \<Rightarrow> u16 \<Rightarrow> u32 \<Rightarrow> u32" where
  "bus s segm addr = (let a = seg_addr segm addr in if pc_a20 s then a else a AND NOT 0x100000)"

text \<open>\<^verbatim>\<open>rdfs32\<close>, \<^verbatim>\<open>wrfs32\<close> and \<^verbatim>\<open>rdgs32\<close> with the segment as an argument.\<close>

definition rdseg32 :: "'b pc \<Rightarrow> u16 \<Rightarrow> u32 \<Rightarrow> u32" where
  "rdseg32 s segm addr = load32 (pc_mem s) (bus s segm addr)"

definition wrseg32 :: "u16 \<Rightarrow> u32 \<Rightarrow> u32 \<Rightarrow> 'b pc \<Rightarrow> 'b pc" where
  "wrseg32 segm v addr s = s\<lparr>pc_mem := boot_store32 (pc_mem s) (bus s segm addr) v\<rparr>"

text \<open>\<^verbatim>\<open>outb %al, $0x80\<close>; what is in \<^verbatim>\<open>%al\<close> does not matter.\<close>

definition boot_io_delay :: "'s outb \<Rightarrow> 's \<Rightarrow> 's" where
  "boot_io_delay outb s = outb 0 0x80 s"

definition enable_a20_bios :: "'s intcall \<Rightarrow> segments \<Rightarrow> 's \<Rightarrow> bool \<times> 's" where
  "enable_a20_bios intcall sg s =
     (let ireg = initregs sg; (oreg, s) = intcall 0x15 (ireg\<lparr>r_eax := set_word (r_eax ireg) 0x2401\<rparr>) s in
      (r_eflags oreg AND 1 = 0 \<and> (ucast (drop_bit 8 (r_eax oreg)) :: u8) = 0, s))"

definition enable_a20_fast :: "'s inb \<Rightarrow> 's outb \<Rightarrow> 's \<Rightarrow> 's" where
  "enable_a20_fast inb outb s =
     (let (port_a, s) = inb 0x92 s; port_a = port_a OR 2; port_a = port_a AND NOT 1 in outb port_a 0x92 s)"

definition disable_a20_fast :: "'s inb \<Rightarrow> 's outb \<Rightarrow> 's \<Rightarrow> 's" where
  "disable_a20_fast inb outb s =
     (let (port_a, s) = inb 0x92 s; port_a = port_a AND NOT 2; port_a = port_a AND NOT 1 in outb port_a 0x92 s)"

definition A20_TEST_ADDR :: u32 where "A20_TEST_ADDR = 4 * 0x80"
definition A20_TEST_LOOPS :: nat where "A20_TEST_LOOPS = 32"

fun a20_test_loop :: "'b pc outb \<Rightarrow> segments \<Rightarrow> nat \<Rightarrow> u32 \<Rightarrow> u32 \<Rightarrow> 'b pc \<Rightarrow> u32 \<times> 'b pc" where
  "a20_test_loop outb sg 0 ok tmp s = (ok, s)"
| "a20_test_loop outb sg (Suc loops) ok tmp s =
     (let tmp = tmp + 1;
          s = wrseg32 (seg_fs sg) tmp A20_TEST_ADDR s;
          s = boot_io_delay outb s;
          ok = rdseg32 s (seg_gs sg) (A20_TEST_ADDR + 0x10) XOR tmp in
      if ok \<noteq> 0 then (ok, s) else a20_test_loop outb sg loops ok tmp s)"

definition a20_test :: "'b pc outb \<Rightarrow> segments \<Rightarrow> 'b pc \<Rightarrow> u32 \<times> segments \<times> 'b pc" where
  "a20_test outb sg s =
     (let sg = sg\<lparr>seg_fs := 0, seg_gs := 0xffff\<rparr>;
          saved = rdseg32 s (seg_fs sg) A20_TEST_ADDR;
          (ok, s) = a20_test_loop outb sg A20_TEST_LOOPS 0 saved s in
      (ok, sg, wrseg32 (seg_fs sg) saved A20_TEST_ADDR s))"

fun enable_a20_loop ::
  "'b pc inb \<Rightarrow> 'b pc outb \<Rightarrow> 'b pc intcall \<Rightarrow> nat \<Rightarrow> segments \<Rightarrow> 'b pc \<Rightarrow> bool \<times> segments \<times> 'b pc" where
  "enable_a20_loop inb outb intcall 0 sg s = (False, sg, s)"
| "enable_a20_loop inb outb intcall (Suc loops) sg s =
     (case a20_test outb sg s of (ok, sg, s) \<Rightarrow>
        if ok \<noteq> 0 then (True, sg, s)
        else (case enable_a20_bios intcall sg s of (works, s) \<Rightarrow>
          if works then (True, sg, s)
          else enable_a20_loop inb outb intcall loops sg (enable_a20_fast inb outb s)))"

text \<open>The result says whether the function returned from the loop; otherwise it has printed its message.\<close>

definition enable_a20 :: "'b pc inb \<Rightarrow> 'b pc outb \<Rightarrow> 'b pc intcall \<Rightarrow> segments \<Rightarrow> 'b pc \<Rightarrow> bool \<times> segments \<times> 'b pc" where
  "enable_a20 inb outb intcall sg s =
     (case enable_a20_loop inb outb intcall A20_TEST_LOOPS sg s of (fin, sg, s) \<Rightarrow>
        (fin, sg, if fin then s else fold (boot_putchar intcall sg) (str8 ''Fail to enable A20 Line ...'' @ [10]) s))"

end
