(* ===== verification/Boot_Spec.thy ===== *)
theory Boot_Spec
  imports Boot_Code E820_Spec Vsprintf_Number
begin

text \<open>
  The real-mode boot code against the kernel: its \<^verbatim>\<open>number\<close> prints what the kernel's \<^verbatim>\<open>number\<close> prints, the memory map it
  collects from the BIOS is the one that the kernel sanitizes, and the test of the A20 gate tells an open gate from a closed one
  and leaves memory as it was.
\<close>

section \<open>Numbers\<close>

lemma boot_pad_eq: "boot_pad sz = (nat sz, if 0 \<le> sz then - 1 else sz - 1)"
proof (induction sz rule: boot_pad.induct)
  case (1 sz)
  have "0 < sz \<Longrightarrow> Suc (nat (sz - 1)) = nat sz" by linarith
  with 1 show ?case by (subst boot_pad.simps) auto
qed

lemma boot_zeros_eq: "boot_zeros i p = nat (p - i)"
proof (induction i p rule: boot_zeros.induct)
  case (1 i p)
  have "i < p \<Longrightarrow> Suc (nat (p - 1 - i)) = nat (p - i)" by linarith
  with 1 show ?case by (subst boot_zeros.simps) (auto simp: algebra_simps)
qed

lemma boot_digits_base:
  assumes "num \<noteq> 0" "2 \<le> unat base"
  shows "boot_digits base locase num = map (digit_char locase) (base_rev (unat base) (unat num))"
  using assms
proof (induction base locase num rule: boot_digits.induct)
  case (1 base locase num)
  have b: "\<not> base < 2" using 1(3) by (simp add: word_less_nat_alt)
  show ?case
  proof (cases "unat num < unat base")
    case True
    then have "num div base = 0" "unat (num mod base) = unat num" by (simp_all add: word_arith_nat_div unat_mod)
    with 1 b True show ?thesis
      by (simp add: boot_digits.simps [of _ _ num] boot_digits.simps [of _ _ 0] base_rev.simps [of _ "unat num"] digit_char_def)
  next
    case False
    then have "0 < unat num div unat base" using 1(3) by (simp add: div_greater_zero_iff)
    then have "num div base \<noteq> 0" by (metis unat_0 unat_div less_irrefl)
    with 1 b False show ?thesis
      by (simp add: boot_digits.simps [of _ _ num] base_rev.simps [of _ "unat num"] digit_char_def unat_mod unat_div)
  qed
qed

text \<open>The flags of the boot code have other bits than the kernel's; both are read with \<^verbatim>\<open>&\<close>.\<close>

definition kernel_flags :: "u8 \<Rightarrow> u8" where
  "kernel_flags t =
     (if has t BOOT_SIGN then SIGN else 0) OR (if has t BOOT_LEFT then LEFT else 0) OR
     (if has t BOOT_PLUS then PLUS else 0) OR (if has t BOOT_SPACE then SPACE else 0) OR
     (if has t BOOT_ZEROPAD then ZEROPAD else 0) OR (if has t BOOT_SMALL then SMALL else 0) OR
     (if has t BOOT_SPECIAL then SPECIAL else 0)"

lemma has_or_flags: "has (a OR b) f \<longleftrightarrow> has a f \<or> has b f"
  by (simp add: has_def bit.conj_disj_distrib2 or_eq_0_iff)

lemma has_if_flag: "has (if c then x else 0) f \<longleftrightarrow> c \<and> has x f"
  by (simp add: has_def)

lemma kernel_flags_has [simp]:
  "has (kernel_flags t) SIGN = has t BOOT_SIGN" "has (kernel_flags t) LEFT = has t BOOT_LEFT"
  "has (kernel_flags t) PLUS = has t BOOT_PLUS" "has (kernel_flags t) SPACE = has t BOOT_SPACE"
  "has (kernel_flags t) ZEROPAD = has t BOOT_ZEROPAD" "has (kernel_flags t) SMALL = has t BOOT_SMALL"
  "has (kernel_flags t) SPECIAL = has t BOOT_SPECIAL"
  unfolding kernel_flags_def has_or_flags has_if_flag
  by (simp_all add: has_def SIGN_def LEFT_def PLUS_def SPACE_def ZEROPAD_def SMALL_def SPECIAL_def)

lemma boot_has_bit:
  "has f BOOT_ZEROPAD = bit f 0" "has f BOOT_SIGN = bit f 1" "has f BOOT_PLUS = bit f 2" "has f BOOT_SPACE = bit f 3"
  "has f BOOT_LEFT = bit f 4" "has f BOOT_SMALL = bit f 5" "has f BOOT_SPECIAL = bit f 6"
  using and_exp_eq_0_iff_not_bit [of f 0] and_exp_eq_0_iff_not_bit [of f 1] and_exp_eq_0_iff_not_bit [of f 2]
    and_exp_eq_0_iff_not_bit [of f 3] and_exp_eq_0_iff_not_bit [of f 4] and_exp_eq_0_iff_not_bit [of f 5]
    and_exp_eq_0_iff_not_bit [of f 6]
  by (simp_all add: has_def BOOT_SIGN_def BOOT_LEFT_def BOOT_PLUS_def BOOT_SPACE_def BOOT_ZEROPAD_def BOOT_SMALL_def BOOT_SPECIAL_def)

definition boot_norm :: "u8 \<Rightarrow> u8" where
  "boot_norm t = (if has t BOOT_LEFT then t AND NOT BOOT_ZEROPAD else t)"

lemma bit_boot_zeropad: "bit BOOT_ZEROPAD n \<longleftrightarrow> n = 0"
  by (simp add: BOOT_ZEROPAD_def bit_1_iff)

lemma boot_norm_has [simp]:
  "has (boot_norm t) BOOT_SIGN = has t BOOT_SIGN" "has (boot_norm t) BOOT_LEFT = has t BOOT_LEFT"
  "has (boot_norm t) BOOT_PLUS = has t BOOT_PLUS" "has (boot_norm t) BOOT_SPACE = has t BOOT_SPACE"
  "has (boot_norm t) BOOT_SPECIAL = has t BOOT_SPECIAL"
  "has (boot_norm t) BOOT_ZEROPAD \<longleftrightarrow> has t BOOT_ZEROPAD \<and> \<not> has t BOOT_LEFT"
  by (auto simp: boot_has_bit boot_norm_def bit_simps bit_boot_zeropad)

lemma not_has: "t AND f = 0 \<longleftrightarrow> \<not> has t f"
  by (simp add: has_def)

lemma boot_flags_none: "has t (BOOT_ZEROPAD + BOOT_LEFT) \<longleftrightarrow> has t BOOT_ZEROPAD \<or> has t BOOT_LEFT"
proof -
  have "BOOT_ZEROPAD + BOOT_LEFT = BOOT_ZEROPAD OR BOOT_LEFT" by (simp add: BOOT_ZEROPAD_def BOOT_LEFT_def)
  then show ?thesis by (simp add: has_or)
qed

lemma boot_small: "t AND BOOT_SMALL = kernel_flags t AND SMALL"
proof -
  have "BOOT_SMALL = SMALL" by (simp add: BOOT_SMALL_def SMALL_def)
  then show ?thesis by (metis and_small kernel_flags_has(6))
qed

text \<open>The argument as the kernel's 64-bit value: \<^verbatim>\<open>number\<close> of the boot code takes a \<^verbatim>\<open>long\<close>, signed or not by the flag.\<close>

definition boot_value :: "u8 \<Rightarrow> u32 \<Rightarrow> u64" where
  "boot_value t num = (if has t BOOT_SIGN then scast num else ucast num)"

definition boot_spec :: "u32 \<Rightarrow> int \<Rightarrow> int \<Rightarrow> u8 \<Rightarrow> printf_spec" where
  "boot_spec base w p t = dec_spec\<lparr>ps_flags := kernel_flags t, ps_base := ucast base, field_width := w, precision := p\<rparr>"

lemma sint_boot_value: "has t BOOT_SIGN \<Longrightarrow> sint (boot_value t num) = sint num"
  by (simp add: boot_value_def sint_up_scast is_up)

lemma unat_word_of_int:
  "0 \<le> k \<Longrightarrow> k < 2 ^ 32 \<Longrightarrow> unat (word_of_int k :: u64) = nat k \<and> unat (word_of_int k :: u32) = nat k"
  by (simp add: unat_eq_nat_uint unsigned_of_int take_bit_int_eq_self)

lemma unat_neg_scast:
  assumes "sint (num :: u32) < 0"
  shows "unat (- (scast num :: u64)) = unat (- num)"
proof -
  have "0 \<le> - sint num" "- sint num < 2 ^ 32" using assms sint_ge [of num] by simp_all
  moreover have "- (scast num :: u64) = word_of_int (- sint num)" by (metis scast_eq wi_hom_neg)
  moreover have "- num = word_of_int (- sint num)" by simp
  ultimately show ?thesis using unat_word_of_int [of "- sint num"] by metis
qed

lemma unat_nonneg_scast:
  assumes "0 \<le> sint (num :: u32)"
  shows "unat (scast num :: u64) = unat num"
proof -
  have r: "sint num < 2 ^ 32" using sint_lt [of num] by simp
  have "(scast num :: u64) = word_of_int (sint num)" by (rule scast_eq)
  moreover have "num = word_of_int (sint num)" by simp
  ultimately show ?thesis using unat_word_of_int [of "sint num"] assms r by metis
qed

definition boot_magnitude :: "u8 \<Rightarrow> u32 \<Rightarrow> u32" where
  "boot_magnitude t num = (if has t BOOT_SIGN \<and> sint num < 0 then - num else num)"

lemma boot_magnitude_unat: "unat (magnitude (kernel_flags t) (boot_value t num)) = unat (boot_magnitude t num)"
proof (cases "has t BOOT_SIGN")
  case True
  then show ?thesis
    by (auto simp: magnitude_def boot_magnitude_def sint_boot_value) (simp_all add: boot_value_def unat_neg_scast unat_nonneg_scast)
next
  case False
  then show ?thesis
    using unat_lt32 [of num] by (simp add: magnitude_def boot_magnitude_def boot_value_def unsigned_ucast_eq take_bit_nat_eq_self)
qed

text \<open>The parts of the text.\<close>

lemma boot_sign_parts:
  assumes "(if has t BOOT_SIGN then
      if sint num < 0 then (of_char CHR ''-'' :: u8, - num, sz - 1)
      else if has t BOOT_PLUS then (of_char CHR ''+'', num, sz - 1)
      else if has t BOOT_SPACE then (of_char CHR '' '', num, sz - 1) else (0, num, sz)
    else (0, num, sz :: int)) = (s, n, sz')"
  shows "(if s \<noteq> 0 then [s] else []) = sign_text (kernel_flags t) (boot_value t num)" "n = boot_magnitude t num"
    "sz' = sz - int (length (sign_text (kernel_flags t) (boot_value t num)))"
  using assms by (auto simp: sign_text_def boot_magnitude_def sint_boot_value str8_def split: if_splits)

lemma boot_prefix_parts:
  assumes "base \<in> {8, 10, 16}" "base = 8 \<and> has t BOOT_SPECIAL \<longrightarrow> n \<noteq> 0"
  shows "(if has t BOOT_SPECIAL then if base = 8 then [of_char CHR ''0'']
      else if base = 16 then [of_char CHR ''0'', of_char CHR ''X'' OR (kernel_flags t AND SMALL)] else [] else []) =
      prefix_text (boot_spec base w p t) n"
    "(if has t BOOT_SPECIAL then if base = 16 then sz - 2 else if base = 8 then sz - 1 else sz else sz) =
      sz - int (length (prefix_text (boot_spec base w p t) n))"
  using assms by (auto simp: prefix_text_def boot_spec_def str8_def and_small)

lemma boot_pads:
  fixes sz :: int
  assumes "(if \<not> has (boot_norm t) (BOOT_ZEROPAD + BOOT_LEFT) then boot_pad sz else (0, sz)) = (lead, w1)"
    and "(if \<not> has (boot_norm t) BOOT_LEFT then boot_pad w1 else (0, w1)) = (mid, w2)"
  shows "(lead, mid, fst (boot_pad w2)) =
     (if has t BOOT_LEFT then (0, 0, nat sz) else if has t BOOT_ZEROPAD then (0, nat sz, 0) else (nat sz, 0, 0))"
  using assms by (auto simp: boot_flags_none boot_pad_eq split: if_splits)

lemma boot_tmp_digits:
  assumes "base \<in> {8, 10, 16}" "l = 0 \<or> l = 0x20"
  shows "(if n = 0 then [of_char CHR ''0''] else boot_digits base l n) =
    map (digit_char l) (base_rev (unat base) (unat n))"
proof (cases "n = 0")
  case True
  with assms show ?thesis by (auto simp: base_rev.simps [of _ 0] digit_char_def hex_asc_upper_def)
next
  case False
  with assms show ?thesis by (auto simp: boot_digits_base)
qed

lemma boot_number_text:
  assumes b: "base \<in> {8, 10, 16}" and o: "base = 8 \<and> has t BOOT_SPECIAL \<longrightarrow> num \<noteq> 0"
  shows "boot_number num base w p t = Some (number_text (boot_value t num) (boot_spec base w p t))"
proof -
  let ?f = "kernel_flags t" and ?l = "kernel_flags t AND SMALL" and ?sp = "boot_spec base w p t" and ?v = "boot_value t num"
  define n where "n = magnitude ?f ?v"
  have l: "?l = 0 \<or> ?l = 0x20" by (simp add: and_small)
  obtain s n' w0 where s: "(if has t BOOT_SIGN then
      if sint num < 0 then (of_char CHR ''-'' :: u8, - num, w - 1)
      else if has t BOOT_PLUS then (of_char CHR ''+'', num, w - 1)
      else if has t BOOT_SPACE then (of_char CHR '' '', num, w - 1) else (0, num, w)
    else (0, num, w)) = (s, n', w0)" by (metis prod_cases3)
  note s' = boot_sign_parts [OF s]
  have un: "unat n = unat n'" by (simp add: n_def boot_magnitude_unat s'(2))
  have "num \<noteq> 0 \<Longrightarrow> n \<noteq> 0" using un s'(2) by (auto simp: boot_magnitude_def unat_0_iff split: if_splits)
  with o have o': "base = 8 \<and> has t BOOT_SPECIAL \<longrightarrow> n \<noteq> 0" by blast
  note px = boot_prefix_parts [OF b o', where w = w and p = p]
  let ?px = "prefix_text ?sp n"
  define ds where "ds = map (digit_char ?l) (base_rev (unat base) (unat n))"
  note tmp = boot_tmp_digits [OF b l, of n', folded un, folded ds_def]
  define prec where "prec = (if int (length ds) > p then int (length ds) else p)"
  let ?w = "w0 - int (length ?px) - prec"
  obtain lead w1 where lead: "(if \<not> has (boot_norm t) (BOOT_ZEROPAD + BOOT_LEFT) then boot_pad ?w else (0, ?w)) = (lead, w1)" by fastforce
  obtain mid w2 where mid: "(if \<not> has (boot_norm t) BOOT_LEFT then boot_pad w1 else (0, w1)) = (mid, w2)" by fastforce
  note pads = boot_pads [OF lead mid]
  have bb: "\<not> (base < 2 \<or> base > 16)" using b by auto
  have "boot_number num base w p t = Some (replicate lead (of_char CHR '' '') @ (if s \<noteq> 0 then [s] else []) @ ?px @
      replicate mid (if has (boot_norm t) BOOT_ZEROPAD then of_char CHR ''0'' else of_char CHR '' '') @
      replicate (nat (prec - int (length ds))) (of_char CHR ''0'') @ rev ds @ replicate (fst (boot_pad w2)) (of_char CHR '' ''))"
    unfolding boot_number_def Let_def boot_small not_has not_not boot_norm_def [symmetric] if_not_P [OF bb]
    by (simp only: boot_norm_has s prod.case px tmp length_map prec_def [symmetric] lead mid [unfolded boot_norm_has] boot_zeros_eq)
  also have "\<dots> = Some (number_text ?v ?sp)"
  proof -
    have f: "ps_flags ?sp = ?f" "field_width ?sp = w" by (simp_all add: boot_spec_def)
    have ub: "unat (ps_base ?sp) = unat base" using b by (auto simp: boot_spec_def)
    have dt: "digits_text ?sp n = replicate (nat (prec - int (length ds))) (of_char CHR ''0'') @ rev ds"
      unfolding digits_text_def ub by (simp add: boot_spec_def ds_def prec_def rev_map nat_diff_distrib')
    then have "int (length (digits_text ?sp n)) = prec" by (simp add: prec_def)
    then have fill: "nat w - length ((sign_text ?f ?v @ ?px) @ digits_text ?sp n) = nat ?w" using s'(3) by simp
    show ?thesis
      unfolding number_text_def Let_def f n_def [symmetric] fill using pads s'(1) by (simp add: dt split: if_splits)
  qed
  finally show ?thesis .
qed

text \<open>
  C36: the two implementations of \<^verbatim>\<open>number\<close> agree.  In bases 8, 10 and 16 the boot code prints a 32-bit argument, signed or not, as the
  kernel prints the same value with the same flags, width and precision, as long as the kernel's 16-bit fields hold them.  The only
  difference is the alternate form of octal zero, which the last hypothesis leaves out.
\<close>

theorem boot_number_agrees:
  assumes "base \<in> {8, 10, 16}" "- 1 \<le> w" "w \<le> 32767" "p \<le> 32761" "base = 8 \<and> has t BOOT_SPECIAL \<longrightarrow> num \<noteq> 0"
  shows "boot_number num base w p t = Some (number (boot_value t num) (boot_spec base w p t))"
proof -
  have "number (boot_value t num) (boot_spec base w p t) = number_text (boot_value t num) (boot_spec base w p t)"
    using assms by (intro number_number_text) (auto simp: boot_spec_def)
  then show ?thesis using boot_number_text [OF assms(1,5)] by simp
qed

theorem boot_number_agrees_witness:
  "boot_number (- 42) 10 6 (- 1) (BOOT_SIGN OR BOOT_ZEROPAD) =
   Some (number (boot_value (BOOT_SIGN OR BOOT_ZEROPAD) (- 42)) (boot_spec 10 6 (- 1) (BOOT_SIGN OR BOOT_ZEROPAD)))"
  by (rule boot_number_agrees) simp_all

text \<open>Octal zero in the alternate form: two zeros from the boot code, one from the kernel.\<close>

lemma octal_zero_differs:
  "boot_number 0 8 (- 1) (- 1) BOOT_SPECIAL = Some (str8 ''00'')"
  "number 0 (boot_spec 8 (- 1) (- 1) BOOT_SPECIAL) = str8 ''0''"
proof -
  show "boot_number 0 8 (- 1) (- 1) BOOT_SPECIAL = Some (str8 ''00'')"
    by (simp add: boot_number_def BOOT_SPECIAL_def BOOT_SMALL_def BOOT_LEFT_def BOOT_ZEROPAD_def BOOT_SIGN_def boot_pad_eq boot_zeros_eq str8_def)
  have h: "\<not> has BOOT_SPECIAL BOOT_SIGN" "\<not> has BOOT_SPECIAL BOOT_LEFT" "\<not> has BOOT_SPECIAL BOOT_ZEROPAD" "\<not> has BOOT_SPECIAL BOOT_SMALL"
    by (simp_all add: has_def BOOT_SPECIAL_def BOOT_SMALL_def BOOT_LEFT_def BOOT_ZEROPAD_def BOOT_SIGN_def)
  have "number 0 (boot_spec 8 (- 1) (- 1) BOOT_SPECIAL) = number_text 0 (boot_spec 8 (- 1) (- 1) BOOT_SPECIAL)"
    by (rule number_number_text) (simp_all add: boot_spec_def)
  then show "number 0 (boot_spec 8 (- 1) (- 1) BOOT_SPECIAL) = str8 ''0''"
    by (simp add: h number_text_def Let_def boot_spec_def sign_text_def magnitude_def prefix_text_def digits_text_def base_rev.simps
        digit_char_def hex_asc_upper_def str8_def and_small)
qed

section \<open>The memory map\<close>

text \<open>
  What the BIOS promises for \<^verbatim>\<open>int 0x15, eax = 0xe820\<close>: called with the continuation value \<open>cont k\<close>, zero for the first entry, and with a
  buffer of 20 bytes at \<^verbatim>\<open>es:di\<close>, it stores entry \<open>k\<close> there, answers with the signature and without carry, and returns the
  continuation value of the next entry or zero after the last one.
\<close>

abbreviation reg_di :: "biosregs \<Rightarrow> u16" where
  "reg_di r \<equiv> ucast (r_edi r)"

definition e820_answer :: "(nat \<Rightarrow> u32) \<Rightarrow> e820entry list \<Rightarrow> nat \<Rightarrow> biosregs \<Rightarrow> biosregs \<times> mem \<times> 'b \<Rightarrow> bool" where
  "e820_answer cont es k r a \<longleftrightarrow>
     (case a of (r', m, b) \<Rightarrow>
        r_eflags r' AND 1 = 0 \<and> r_eax r' = SMAP \<and> load_entry (seg_view (r_es r) m) (ucast (reg_di r)) = es ! k \<and>
        r_ebx r' = (if Suc k < length es then cont (Suc k) else 0))"

definition e820_service :: "(mem \<times> 'b) intcall \<Rightarrow> (nat \<Rightarrow> u32) \<Rightarrow> e820entry list \<Rightarrow> bool" where
  "e820_service intcall cont es \<longleftrightarrow>
     cont 0 = 0 \<and> (\<forall>k. 0 < k \<and> k < length es \<longrightarrow> cont k \<noteq> 0) \<and>
     (\<forall>k r st. k < length es \<and> r_ebx r = cont k \<and> r_eax r = 0xe820 \<and> r_edx r = SMAP \<and> r_ecx r = 20 \<and> unat (reg_di r) + 20 \<le> 2 ^ 16 \<longrightarrow>
        e820_answer cont es k r (intcall 0x15 r st))"

text \<open>The registers of the call: the buffer of the program is at \<^verbatim>\<open>es:di\<close>.\<close>

definition e820_regs :: "segments \<Rightarrow> ulong \<Rightarrow> biosregs \<Rightarrow> bool" where
  "e820_regs sg buf r \<longleftrightarrow> r_eax r = 0xe820 \<and> r_edx r = SMAP \<and> r_ecx r = 20 \<and> r_es r = seg_ds sg \<and> ucast (reg_di r) = buf"

lemma unat_ucast16: "unat (ucast (x :: u16) :: u32) = unat x"
  by transfer (simp add: take_bit_int_eq_self_iff nat_take_bit_eq)

lemma e820_serviceD:
  assumes "e820_service intcall cont es" "k < length es" "r_ebx r = cont k" "e820_regs sg buf r" "unat buf + 20 \<le> 2 ^ 16"
    and "intcall 0x15 r st = (r', m, b)"
  shows "r_eflags r' AND 1 = 0 \<and> r_eax r' = SMAP \<and> load_entry (seg_view (seg_ds sg) m) buf = es ! k \<and>
    r_ebx r' = (if Suc k < length es then cont (Suc k) else 0)"
proof -
  have r: "r_eax r = 0xe820" "r_edx r = SMAP" "r_ecx r = 20" "r_es r = seg_ds sg" "ucast (reg_di r) = buf"
    using assms(4) by (simp_all add: e820_regs_def)
  have "unat (ucast (reg_di r) :: u32) = unat (reg_di r)" by (rule unat_ucast16)
  with assms(5) r(5) have "unat (reg_di r) + 20 \<le> 2 ^ 16" by simp
  with assms(1-3) r(1-3) have "e820_answer cont es k r (intcall 0x15 r st)" unfolding e820_service_def by blast
  with r(4,5) show ?thesis unfolding assms(6) e820_answer_def prod.case by simp
qed

lemma e820_loop_bounds:
  "e820_loop intcall sg buf cnt desc ireg st = (n, desc', st') \<Longrightarrow> cnt < E820MAX \<Longrightarrow> n \<le> E820MAX \<and> length desc' = length desc"
proof (induction "E820MAX - cnt" arbitrary: cnt desc ireg st rule: less_induct)
  case less
  obtain r m b where i: "intcall 0x15 ireg st = (r, m, b)" by (metis prod_cases3)
  show ?case
  proof (cases "r_eflags r AND 1 = 0 \<and> r_eax r = SMAP \<and> r_ebx r \<noteq> 0 \<and> Suc cnt < E820MAX")
    case True
    with less(2) have "e820_loop intcall sg buf (Suc cnt) (desc[cnt := load_entry (seg_view (seg_ds sg) m) buf]) (ireg\<lparr>r_ebx := r_ebx r\<rparr>) (m, b) = (n, desc', st')"
      by (subst (asm) e820_loop.simps) (simp add: i Let_def)
    with less(1) [of "Suc cnt"] True show ?thesis by fastforce
  next
    case False
    with less(2,3) show ?thesis by (subst (asm) e820_loop.simps) (auto simp: i Let_def split: if_splits)
  qed
qed

lemma e820_loop_serves:
  assumes "e820_service intcall cont es" "unat buf + 20 \<le> 2 ^ 16" "length desc = E820MAX" "cnt < length es" "cnt < E820MAX"
    and "r_ebx ireg = cont cnt" "e820_regs sg buf ireg" "take cnt desc = take cnt es"
  shows "\<exists>desc' st'. e820_loop intcall sg buf cnt desc ireg st = (min (length es) E820MAX, desc', st') \<and>
    length desc' = E820MAX \<and> take (min (length es) E820MAX) desc' = take E820MAX es"
  using assms(3-)
proof (induction "E820MAX - cnt" arbitrary: cnt desc ireg st rule: less_induct)
  case less
  obtain r m b where i: "intcall 0x15 ireg st = (r, m, b)" by (metis prod_cases3)
  have r: "r_eflags r AND 1 = 0" "r_eax r = SMAP" "load_entry (seg_view (seg_ds sg) m) buf = es ! cnt" "r_ebx r = (if Suc cnt < length es then cont (Suc cnt) else 0)"
    using e820_serviceD [OF assms(1) less(3,5,6) assms(2) i] by blast+
  let ?desc = "desc[cnt := es ! cnt]"
  have step: "e820_loop intcall sg buf cnt desc ireg st =
    (if r_ebx r \<noteq> 0 \<and> Suc cnt < E820MAX then e820_loop intcall sg buf (Suc cnt) ?desc (ireg\<lparr>r_ebx := r_ebx r\<rparr>) (m, b)
     else (Suc cnt, ?desc, (m, b)))"
    by (subst e820_loop.simps) (simp add: i r Let_def)
  have tk: "take (Suc cnt) ?desc = take (Suc cnt) es"
    using less(2-4,7) by (simp add: upd_conv_take_nth_drop take_Suc_conv_app_nth)
  show ?case
  proof (cases "Suc cnt < length es \<and> Suc cnt < E820MAX")
    case True
    then have "r_ebx r \<noteq> 0" using r(4) assms(1) by (simp add: e820_service_def)
    moreover have "e820_regs sg buf (ireg\<lparr>r_ebx := r_ebx r\<rparr>)" using less(6) by (simp add: e820_regs_def)
    ultimately show ?thesis using True step less(2-5) tk r(4) less(1) [of "Suc cnt" ?desc "ireg\<lparr>r_ebx := r_ebx r\<rparr>" "(m, b)"] by auto
  next
    case False
    then have "min (length es) E820MAX = Suc cnt" using less(3,4) by linarith
    moreover from this have "take E820MAX es = take (Suc cnt) es" by (simp add: min_def split: if_splits)
    moreover have "e820_loop intcall sg buf cnt desc ireg st = (Suc cnt, ?desc, (m, b))"
      unfolding step using False r(4) by auto
    ultimately show ?thesis using tk less(2) by simp
  qed
qed

lemma ucast_low:
  assumes "unat buf + 20 \<le> 2 ^ 16"
  shows "(ucast (ucast (ucast (ucast (buf :: u32) :: u16) :: u32) :: u16) :: u32) = buf"
proof -
  have "take_bit 16 buf = buf" 
    using assms by (simp add: word_unat_eq_iff unat_take_bit)
  moreover have "(ucast (ucast (ucast (ucast buf :: u16) :: u32) :: u16) :: u32) = take_bit 16 buf"
    by (rule bit_word_eqI) (auto simp: bit_simps)
  ultimately show ?thesis by simp
qed

lemma detect_memory_serves:
  assumes "detect_memory intcall sg buf desc st = (n, desc', st')" "length desc = E820MAX"
  shows "n \<le> E820MAX" "length desc' = E820MAX"
    and "e820_service intcall cont es \<Longrightarrow> unat buf + 20 \<le> 2 ^ 16 \<Longrightarrow> es \<noteq> [] \<Longrightarrow> n = min (length es) E820MAX \<and> take n desc' = take E820MAX es"
proof -
  obtain st1 st2 ireg where l: "e820_loop intcall sg buf 0 desc ireg st1 = (n, desc', st2)"
    and r: "r_ebx ireg = 0" "unat buf + 20 \<le> 2 ^ 16 \<longrightarrow> e820_regs sg buf ireg"
    using assms(1) by (auto simp: detect_memory_def detect_memory_e820_def Let_def initregs_def set_word_def e820_regs_def ucast_low split: prod.splits)
  show "n \<le> E820MAX" "length desc' = E820MAX" using e820_loop_bounds [OF l] assms(2) by (simp_all add: E820MAX_def)
  assume e: "e820_service intcall cont es" "unat buf + 20 \<le> 2 ^ 16" "es \<noteq> []"
  then have "cont 0 = 0" by (simp add: e820_service_def)
  with e820_loop_serves [OF e(1,2) assms(2), of 0 ireg sg st1] e(2,3) r l
  show "n = min (length es) E820MAX \<and> take n desc' = take E820MAX es" by (auto simp: E820MAX_def)
qed

lemma boot_ok_detected:
  assumes "map_wf (e820 k)" "nr_entries (e820 k) = 0" "n \<le> E820MAX" "length desc' = E820MAX" "2 \<le> n" "take n desc' = es" "\<forall>e \<in> set es. no_wrap e"
  defines "k' \<equiv> k\<lparr>bp_map := desc', bp_nr := of_nat n\<rparr>"
  shows "boot_ok k'" "bios_map k' = es"
proof -
  have u: "unat (of_nat n :: u32) = n" using assms(3) by (simp add: unat_of_nat E820MAX_def take_bit_nat_eq_self)
  have "no_wrap (desc' ! i)" if "i < n" for i
  proof -
    have "desc' ! i = es ! i" using that assms(6) by auto
    moreover have "i < length es" using that assms(3,4,6) by auto
    ultimately show ?thesis using assms(7) by simp
  qed
  with assms u show "boot_ok k'" by (simp add: boot_ok_def)
  show "bios_map k' = es" using u assms(6) by (simp add: bios_map_def k'_def)
qed

text \<open>
  C7: from the BIOS to the kernel's map.  Whatever the BIOS answers, \<^verbatim>\<open>detect_memory\<close> stores at most \<^verbatim>\<open>E820MAX\<close> entries and stays inside
  the array.  With a buffer that lies in the 64 KiB of the data segment, a BIOS that stores the entries \<open>es\<close>, one per call, at \<^verbatim>\<open>es:di\<close> leaves the first \<^verbatim>\<open>E820MAX\<close> of them in \<^verbatim>\<open>boot_params\<close>, in order, and if
  none of them wraps, \<^verbatim>\<open>setup_memory_map\<close> turns them into an ordered map that gives the addresses below some limit the types that
  the BIOS reported, and all addresses when the table did not fill up; it panics only when fewer than two entries remain.
\<close>

theorem detect_memory_reaches_kernel:
  assumes bp: "length desc = E820MAX"
    and k: "map_wf (e820 k)" "nr_entries (e820 k) = 0"
  shows "case detect_memory intcall sg buf desc st of (n, desc', st') \<Rightarrow>
    n \<le> E820MAX \<and> length desc' = E820MAX \<and>
    (e820_service intcall cont es \<and> unat buf + 20 \<le> 2 ^ 16 \<and> 2 \<le> length es \<and> (\<forall>e \<in> set es. no_wrap e) \<longrightarrow>
       n = min (length es) E820MAX \<and> take n desc' = take E820MAX es \<and>
       (\<exists>new lim. ordered_map lim new \<and> length new \<le> E820MAX \<and>
          (\<forall>a<lim. type_at new a = type_at (take E820MAX es) a) \<and>
          (length new < E820MAX \<longrightarrow> type_at new = type_at (take E820MAX es)) \<and>
          (if length new < 2 then setup_memory_map (k\<lparr>bp_map := desc', bp_nr := of_nat n\<rparr>) = Inl Panic
           else \<exists>k'. setup_memory_map (k\<lparr>bp_map := desc', bp_nr := of_nat n\<rparr>) = Inr k' \<and>
             live_map (e820 k') = new \<and> map_wf (e820 k') \<and> e820_bios k' = e820 k')))"
proof -
  obtain n desc' st' where d: "detect_memory intcall sg buf desc st = (n, desc', st')" by (metis prod_cases3)
  note b = detect_memory_serves [OF d bp]
  show ?thesis
  proof (unfold d prod.case, intro conjI impI; (elim conjE)?)
    show "n \<le> E820MAX" "length desc' = E820MAX" by (fact b(1), fact b(2))
    assume e: "e820_service intcall cont es" "unat buf + 20 \<le> 2 ^ 16" "2 \<le> length es" "\<forall>e \<in> set es. no_wrap e"
    then have "es \<noteq> []" by auto
    with b(3) [OF e(1,2)] show n: "n = min (length es) E820MAX" and t: "take n desc' = take E820MAX es" by blast+
    have "2 \<le> n" using n e(3) by (simp add: E820MAX_def)
    moreover have "\<forall>e \<in> set (take E820MAX es). no_wrap e" using e(4) by (meson in_set_takeD)
    ultimately have o: "boot_ok (k\<lparr>bp_map := desc', bp_nr := of_nat n\<rparr>)" "bios_map (k\<lparr>bp_map := desc', bp_nr := of_nat n\<rparr>) = take E820MAX es"
      using boot_ok_detected [OF k b(1,2) _ t] by blast+
    show "\<exists>new lim. ordered_map lim new \<and> length new \<le> E820MAX \<and>
          (\<forall>a<lim. type_at new a = type_at (take E820MAX es) a) \<and>
          (length new < E820MAX \<longrightarrow> type_at new = type_at (take E820MAX es)) \<and>
          (if length new < 2 then setup_memory_map (k\<lparr>bp_map := desc', bp_nr := of_nat n\<rparr>) = Inl Panic
           else \<exists>k'. setup_memory_map (k\<lparr>bp_map := desc', bp_nr := of_nat n\<rparr>) = Inr k' \<and>
             live_map (e820 k') = new \<and> map_wf (e820 k') \<and> e820_bios k' = e820 k')"
      by (rule setup_map [OF o(1), unfolded o(2)])
  qed
qed

text \<open>A BIOS with two entries: one megabyte of memory, and a reserved area.\<close>

definition demo_e820 :: "e820entry list" where
  "demo_e820 = [mk_entry 0 0x100000 E820_RAM, mk_entry 0xf0000 0x10000 E820_RESERVED]"

definition demo_e820_int :: "(mem \<times> unit) intcall" where
  "demo_e820_int intno r st =
     (let out = (if r_ebx r = 0 then [0, 0, 0, 0, 0, 0, 0, 0, 0, 0, 0x10, 0, 0, 0, 0, 0, 1, 0, 0, 0]
                 else [0, 0, 0xf, 0, 0, 0, 0, 0, 0, 0, 1, 0, 0, 0, 0, 0, 2, 0, 0, 0]) in
      (r\<lparr>r_eax := SMAP, r_eflags := 0, r_ebx := (if r_ebx r = 0 then 1 else 0)\<rparr>,
       boot_put (fst st) (seg_addr (r_es r) (ucast (reg_di r))) out, ()))"

lemma boot_put_at:
  "length out \<le> 2 ^ 32 \<Longrightarrow> boot_put m d out x = (if unat (x - d) < length out then out ! unat (x - d) else m x)"
proof (induction out arbitrary: m d)
  case (Cons c out)
  then have IH: "boot_put m' (d + 1) out x = (if unat (x - (d + 1)) < length out then out ! unat (x - (d + 1)) else m' x)" for m' by simp
  show ?case
  proof (cases "x = d")
    case True
    have "unat (- 1 :: u32) = 2 ^ 32 - 1" by (simp add: unsigned_minus_1_eq_mask mask_eq_exp_minus_1)
    with True show ?thesis using Cons.prems IH by (simp add: minus_add)
  next
    case False
    then have "unat (x - d) = Suc (unat (x - d - 1))" using unat_minus_one [of "x - d"] unat_gt_0 [of "x - d"] by simp
    moreover have "x - (d + 1) = x - d - 1" by simp
    ultimately have "unat (x - d) = Suc (unat (x - (d + 1)))" by metis
    with False IH show ?thesis by simp
  qed
qed simp

lemma load_entry_shift: "load_entry m a = load_entry (\<lambda>i. m (a + i)) 0"
  by (simp add: load_entry_def load64_def load32_def add.assoc)

lemma load_entry_put:
  assumes "length out = 20"
  shows "load_entry (seg_view segm (boot_put m (seg_addr segm a) out)) a =
    load_entry (\<lambda>i. if unat i < 20 then out ! unat i else m (seg_addr segm (a + i))) 0"
proof -
  have "seg_addr segm (a + i) - seg_addr segm a = i" for i by (simp add: seg_addr_def)
  with assms show ?thesis by (subst load_entry_shift) (simp add: seg_view_def boot_put_at cong: if_cong)
qed

lemma demo_e820_int_serves: "e820_service demo_e820_int of_nat demo_e820"
proof -
  have e: "load_entry (seg_view segm (boot_put m (seg_addr segm a) [0, 0, 0, 0, 0, 0, 0, 0, 0, 0, 0x10, 0, 0, 0, 0, 0, 1, 0, 0, 0])) a = demo_e820 ! 0"
    "load_entry (seg_view segm (boot_put m (seg_addr segm a) [0, 0, 0xf, 0, 0, 0, 0, 0, 0, 0, 1, 0, 0, 0, 0, 0, 2, 0, 0, 0])) a = demo_e820 ! 1" for segm m a
    by (simp_all add: load_entry_put del: boot_put.simps) (simp_all add: load_entry_def load64_def load32_def demo_e820_def mk_entry_def E820_RAM_def E820_RESERVED_def)
  have l: "length demo_e820 = 2" by (simp add: demo_e820_def)
  have "e820_answer of_nat demo_e820 0 r (demo_e820_int 0x15 r st)" if "r_ebx r = 0" for r st
    using that by (simp add: e820_answer_def demo_e820_int_def e l del: boot_put.simps)
  moreover have "e820_answer of_nat demo_e820 1 r (demo_e820_int 0x15 r st)" if "r_ebx r = 1" for r st
    using that by (simp add: e820_answer_def demo_e820_int_def e [unfolded One_nat_def] l del: boot_put.simps)
  moreover have "k = 0 \<or> k = 1" if "k < 2" for k :: nat using that by linarith
  ultimately show ?thesis unfolding e820_service_def l by fastforce
qed

theorem detect_memory_reaches_kernel_witness:
  "\<exists>desc' st'. detect_memory demo_e820_int \<lparr>seg_ds = 0x1000, seg_fs = 0, seg_gs = 0\<rparr> 0x800 (bp_map demo_boot) ((\<lambda>_. 0), ()) = (2, desc', st') \<and>
    take 2 desc' = demo_e820"
proof -
  let ?sg = "\<lparr>seg_ds = 0x1000, seg_fs = 0, seg_gs = 0\<rparr>"
  obtain n desc' st' where d: "detect_memory demo_e820_int ?sg 0x800 (bp_map demo_boot) ((\<lambda>_. 0), ()) = (n, desc', st')" by (metis prod_cases3)
  have "length (bp_map demo_boot) = E820MAX" "map_wf (e820 demo_boot)" "nr_entries (e820 demo_boot) = 0" using boot_ok_demo by (simp_all add: boot_ok_def)
  note k = detect_memory_reaches_kernel [OF this, where intcall = demo_e820_int and buf = "0x800" and sg = ?sg and
      st = "((\<lambda>_. 0), ())" and cont = of_nat and es = demo_e820, unfolded d prod.case]
  have e: "length demo_e820 = 2" "\<forall>e \<in> set demo_e820. no_wrap e" by (simp_all add: demo_e820_def no_wrap_def mk_entry_def)
  then have "e820_service demo_e820_int of_nat demo_e820 \<and> unat (0x800 :: ulong) + 20 \<le> 2 ^ 16 \<and> 2 \<le> length demo_e820 \<and> (\<forall>e \<in> set demo_e820. no_wrap e)"
    using demo_e820_int_serves by simp
  note k = k [THEN conjunct2, THEN conjunct2, THEN mp, OF this]
  have "min (length demo_e820) E820MAX = 2" "take E820MAX demo_e820 = demo_e820" using e(1) by (simp_all add: E820MAX_def)
  with k [THEN conjunct1] k [THEN conjunct2, THEN conjunct1] d show ?thesis by (cases st') simp
qed

section \<open>The A20 gate\<close>

lemma load32_boot_store32: "load32 (boot_store32 m a v) a = v"
  using bytes_word [of v] by (simp add: load32_def boot_store32_def)

lemma load32_bytes:
  "(ucast (load32 m a) :: u8) = m a" "(ucast (drop_bit 8 (load32 m a)) :: u8) = m (a + 1)"
  "(ucast (drop_bit 16 (load32 m a)) :: u8) = m (a + 2)" "(ucast (drop_bit 24 (load32 m a)) :: u8) = m (a + 3)"
  by (rule bit_word_eqI; auto simp: load32_def bit_simps dest: bit_imp_le_length)+

lemma boot_store32_same:
  assumes "\<And>x. x \<notin> {a, a + 1, a + 2, a + 3} \<Longrightarrow> m' x = m x"
  shows "boot_store32 m' a (load32 m a) = m"
  using assms by (auto simp: boot_store32_def load32_bytes fun_eq_iff)

text \<open>A write to port 0x80, the delay, changes neither memory nor the gate.\<close>

definition quiet_delay :: "'b pc outb \<Rightarrow> bool" where
  "quiet_delay outb \<longleftrightarrow> (\<forall>v s. pc_mem (outb v 0x80 s) = pc_mem s \<and> pc_a20 (outb v 0x80 s) = pc_a20 s)"

abbreviation a20_segs :: "segments \<Rightarrow> bool" where
  "a20_segs sg \<equiv> seg_fs sg = 0 \<and> seg_gs sg = 0xffff"

lemma a20_bus: "bus s 0 A20_TEST_ADDR = 0x200" "bus s 0xffff (A20_TEST_ADDR + 0x10) = (if pc_a20 s then 0x100200 else 0x200)"
  by (simp_all add: bus_def seg_addr_def A20_TEST_ADDR_def)

text \<open>One turn of the loop.\<close>

definition a20_turn :: "'b pc outb \<Rightarrow> segments \<Rightarrow> u32 \<Rightarrow> 'b pc \<Rightarrow> 'b pc" where
  "a20_turn outb sg tmp s = boot_io_delay outb (wrseg32 (seg_fs sg) tmp A20_TEST_ADDR s)"

lemma a20_turn_facts:
  assumes "quiet_delay outb" "a20_segs sg" "s' = a20_turn outb sg tmp s"
  shows "pc_a20 s' = pc_a20 s" "x \<notin> {0x200, 0x201, 0x202, 0x203} \<Longrightarrow> pc_mem s' x = pc_mem s x"
    "rdseg32 s' (seg_gs sg) (A20_TEST_ADDR + 0x10) = (if pc_a20 s then load32 (pc_mem s) 0x100200 else tmp)"
proof -
  have m: "pc_mem s' = boot_store32 (pc_mem s) 0x200 tmp" and g: "pc_a20 s' = pc_a20 s"
    using assms(1,2) by (simp_all add: assms(3) a20_turn_def boot_io_delay_def quiet_delay_def wrseg32_def a20_bus)
  show "pc_a20 s' = pc_a20 s" by (rule g)
  show "x \<notin> {0x200, 0x201, 0x202, 0x203} \<Longrightarrow> pc_mem s' x = pc_mem s x" by (simp add: m boot_store32_def)
  show "rdseg32 s' (seg_gs sg) (A20_TEST_ADDR + 0x10) = (if pc_a20 s then load32 (pc_mem s) 0x100200 else tmp)"
    using assms(2) by (simp add: rdseg32_def a20_bus g m load32_boot_store32) (simp add: load32_def boot_store32_def)
qed

lemma a20_test_loop_Suc:
  "a20_test_loop outb sg (Suc n) ok tmp s =
     (let s' = a20_turn outb sg (tmp + 1) s; ok' = rdseg32 s' (seg_gs sg) (A20_TEST_ADDR + 0x10) XOR (tmp + 1) in
      if ok' \<noteq> 0 then (ok', s') else a20_test_loop outb sg n ok' (tmp + 1) s')"
  by (simp add: Let_def a20_turn_def)

lemma a20_loop_frame:
  assumes "quiet_delay outb" "a20_segs sg"
  shows "a20_test_loop outb sg n ok tmp s = (ok', s') \<Longrightarrow>
    pc_a20 s' = pc_a20 s \<and> (\<forall>x. x \<notin> {0x200, 0x201, 0x202, 0x203} \<longrightarrow> pc_mem s' x = pc_mem s x)"
proof (induction n arbitrary: ok tmp s)
  case (Suc n)
  note t = a20_turn_facts(1,2) [OF assms refl, where tmp = "tmp + 1" and s = s]
  from Suc(2) show ?case
    unfolding a20_test_loop_Suc Let_def using t by (auto split: if_splits dest!: Suc.IH)
qed simp

lemma xor_zero_iff: "(x :: u32) XOR y = 0 \<longleftrightarrow> x = y"
  by (metis xor.assoc xor_self_eq xor.right_neutral xor.left_neutral)

lemma a20_loop_closed:
  assumes "quiet_delay outb" "a20_segs sg"
  shows "\<not> pc_a20 s \<Longrightarrow> fst (a20_test_loop outb sg n 0 tmp s) = 0"
proof (induction n arbitrary: tmp s)
  case (Suc n)
  note t = a20_turn_facts [OF assms refl, where tmp = "tmp + 1" and s = s]
  from Suc t show ?case unfolding a20_test_loop_Suc Let_def by simp
qed simp

text \<open>With the gate open, the word above one megabyte cannot equal both of two different values.\<close>

lemma a20_loop_open:
  assumes "quiet_delay outb" "a20_segs sg" "pc_a20 s"
  shows "fst (a20_test_loop outb sg (Suc (Suc n)) ok tmp s) \<noteq> 0"
proof -
  let ?s1 = "a20_turn outb sg (tmp + 1) s"
  note t = a20_turn_facts [OF assms(1,2) refl, where tmp = "tmp + 1" and s = s] and u = a20_turn_facts [OF assms(1,2) refl, where tmp = "tmp + 1 + 1" and s = ?s1]
  have "load32 (pc_mem ?s1) 0x100200 = load32 (pc_mem s) 0x100200" using t(2) by (simp add: load32_def)
  with t(1,3) u(3) assms(3) show ?thesis unfolding a20_test_loop_Suc [of _ _ "Suc n"] a20_test_loop_Suc [of _ _ n] Let_def
    by (auto simp: xor_zero_iff)
qed

lemma a20_test_tells:
  assumes "quiet_delay outb" "a20_test outb sg s = (ok, sg', s')"
  shows "ok \<noteq> 0 \<longleftrightarrow> pc_a20 s" "pc_mem s' = pc_mem s" "pc_a20 s' = pc_a20 s" "sg' = sg\<lparr>seg_fs := 0, seg_gs := 0xffff\<rparr>"
proof -
  let ?sg = "sg\<lparr>seg_fs := 0, seg_gs := 0xffff\<rparr>" and ?v = "load32 (pc_mem s) 0x200"
  obtain s1 where l: "a20_test_loop outb ?sg 32 0 ?v s = (ok, s1)" "s' = wrseg32 0 ?v A20_TEST_ADDR s1" and "sg' = ?sg"
    using assms(2) by (auto simp: a20_bus a20_test_def Let_def A20_TEST_LOOPS_def rdseg32_def split: prod.splits)
  note f = a20_loop_frame [OF assms(1) _ l(1)]
  show "sg' = ?sg" by fact
  show "ok \<noteq> 0 \<longleftrightarrow> pc_a20 s"
    using a20_loop_closed [OF assms(1), of ?sg s 32 ?v] a20_loop_open [OF assms(1), of ?sg s 30 0 ?v] l(1)
    by (cases "pc_a20 s") (simp_all add: numeral_eq_Suc)
  have "s' = s1\<lparr>pc_mem := boot_store32 (pc_mem s1) 0x200 ?v\<rparr>"
    using l(2) by (simp add: wrseg32_def a20_bus)
  then show "pc_mem s' = pc_mem s" "pc_a20 s' = pc_a20 s"
    using f boot_store32_same [of "0x200" "pc_mem s1" "pc_mem s"] by auto
qed

text \<open>
  What the hardware promises: bit 1 of port 0x92, written with bit 0 clear, is the gate, and a BIOS that answers
  \<^verbatim>\<open>int 0x15, ax = 0x2401\<close> without carry and with \<^verbatim>\<open>ah = 0\<close> has opened it.
\<close>

definition a20_hardware :: "'b pc outb \<Rightarrow> 'b pc intcall \<Rightarrow> bool" where
  "a20_hardware outb intcall \<longleftrightarrow>
     quiet_delay outb \<and> (\<forall>v s. \<not> bit v 0 \<longrightarrow> pc_a20 (outb v 0x92 s) = bit v 1) \<and>
     (\<forall>r s. r_eax r = 0x2401 \<and> r_eflags (fst (intcall 0x15 r s)) AND 1 = 0 \<and>
        (ucast (drop_bit 8 (r_eax (fst (intcall 0x15 r s)))) :: u8) = 0 \<longrightarrow> pc_a20 (snd (intcall 0x15 r s)))"

lemma enable_a20_fast_opens: "a20_hardware outb intcall \<Longrightarrow> pc_a20 (enable_a20_fast inb outb s)"
  by (simp add: a20_hardware_def enable_a20_fast_def bit_simps split: prod.splits)

lemma enable_a20_bios_opens:
  assumes "a20_hardware outb intcall" "enable_a20_bios intcall sg s = (True, s')"
  shows "pc_a20 s'"
proof -
  let ?r = "initregs sg\<lparr>r_eax := set_word (r_eax (initregs sg)) 0x2401\<rparr>"
  have "r_eax ?r = 0x2401" by (simp add: initregs_def set_word_def)
  moreover from assms(1) have "\<forall>r s. r_eax r = 0x2401 \<and> r_eflags (fst (intcall 0x15 r s)) AND 1 = 0 \<and>
        (ucast (drop_bit 8 (r_eax (fst (intcall 0x15 r s)))) :: u8) = 0 \<longrightarrow> pc_a20 (snd (intcall 0x15 r s))"
    unfolding a20_hardware_def by (elim conjE)
  note this [THEN spec, THEN spec, THEN mp, of ?r s]
  ultimately show ?thesis using assms(2) by (auto simp: enable_a20_bios_def Let_def split: prod.splits)
qed

lemma enable_a20_loop_open:
  assumes "quiet_delay outb" "pc_a20 s"
  shows "\<exists>sg' s'. enable_a20_loop inb outb intcall (Suc n) sg s = (True, sg', s') \<and> pc_a20 s' \<and> pc_mem s' = pc_mem s"
proof -
  obtain ok sg' s' where t: "a20_test outb sg s = (ok, sg', s')" by (metis prod_cases3)
  show ?thesis using a20_test_tells [OF assms(1) t] assms(2) by (simp add: t)
qed

lemma enable_a20_loop_opens:
  assumes "a20_hardware outb intcall"
  shows "\<exists>sg' s'. enable_a20_loop inb outb intcall (Suc (Suc n)) sg s = (True, sg', s') \<and> pc_a20 s' \<and> (pc_a20 s \<longrightarrow> pc_mem s' = pc_mem s)"
proof -
  have q: "quiet_delay outb" using assms by (simp add: a20_hardware_def)
  obtain ok sg1 s1 where t: "a20_test outb sg s = (ok, sg1, s1)" by (metis prod_cases3)
  obtain works s2 where w: "enable_a20_bios intcall sg1 s1 = (works, s2)" by (metis surj_pair)
  note tt = a20_test_tells [OF q t]
  have step: "enable_a20_loop inb outb intcall (Suc (Suc n)) sg s =
    (if ok \<noteq> 0 then (True, sg1, s1) else if works then (True, sg1, s2)
     else enable_a20_loop inb outb intcall (Suc n) sg1 (enable_a20_fast inb outb s2))"
    by (subst enable_a20_loop.simps(2)) (simp only: t w prod.case)
  consider "ok \<noteq> 0" | "ok = 0" "works" | "ok = 0" "\<not> works" by blast
  then show ?thesis
  proof cases
    case 1
    with tt show ?thesis unfolding step by simp
  next
    case 2
    with tt(1) enable_a20_bios_opens [OF assms] w show ?thesis unfolding step by simp
  next
    case 3
    then have "\<not> pc_a20 s" using tt(1) by simp
    with 3 enable_a20_loop_open [OF q enable_a20_fast_opens [OF assms]] show ?thesis
      unfolding step by (simp del: enable_a20_loop.simps) metis
  qed
qed

text \<open>
  C37: \<^verbatim>\<open>enable_a20\<close> returns with the gate open and without its message, in at most two turns of its loop: \<^verbatim>\<open>a20_test\<close> is nonzero exactly when
  the gate is open and leaves memory as it was, so an open gate is found at once, and a closed one is opened by the BIOS or by port
  0x92.
\<close>

theorem enable_a20_opens:
  assumes "a20_hardware outb intcall"
  shows "(case a20_test outb sg s of (ok, sg', s') \<Rightarrow> (ok \<noteq> 0 \<longleftrightarrow> pc_a20 s) \<and> pc_mem s' = pc_mem s \<and> pc_a20 s' = pc_a20 s) \<and>
    (\<exists>sg' s'. enable_a20 inb outb intcall sg s = (True, sg', s') \<and> pc_a20 s' \<and> (pc_a20 s \<longrightarrow> pc_mem s' = pc_mem s))"
proof -
  have q: "quiet_delay outb" using assms by (simp add: a20_hardware_def)
  obtain ok sg1 s1 where t: "a20_test outb sg s = (ok, sg1, s1)" by (metis prod_cases3)
  note tt = a20_test_tells [OF q t]
  have "A20_TEST_LOOPS = Suc (Suc 30)" by (simp add: A20_TEST_LOOPS_def)
  with enable_a20_loop_opens [OF assms, of inb 30 sg s]
  have "\<exists>sg' s'. enable_a20 inb outb intcall sg s = (True, sg', s') \<and> pc_a20 s' \<and> (pc_a20 s \<longrightarrow> pc_mem s' = pc_mem s)"
    unfolding enable_a20_def by (elim exE conjE) (simp only: prod.case if_True, blast)
  with tt show ?thesis by (simp add: t)
qed

text \<open>A machine whose BIOS does not know the call, with the gate at port 0x92.\<close>

definition demo_outb :: "unit pc outb" where
  "demo_outb v port s = (if port = 0x92 then s\<lparr>pc_a20 := bit v 1\<rparr> else s)"

definition demo_a20_int :: "unit pc intcall" where
  "demo_a20_int intno r s = (r\<lparr>r_eflags := 1\<rparr>, s)"

theorem enable_a20_opens_witness:
  "\<exists>sg' s'. enable_a20 (\<lambda>port s. (0, s)) demo_outb demo_a20_int \<lparr>seg_ds = 0, seg_fs = 0, seg_gs = 0\<rparr>
     \<lparr>pc_mem = (\<lambda>_. 0), pc_a20 = False, pc_rest = ()\<rparr> = (True, sg', s') \<and> pc_a20 s'"
proof -
  have "a20_hardware demo_outb demo_a20_int"
    by (simp add: a20_hardware_def quiet_delay_def demo_outb_def demo_a20_int_def)
  from enable_a20_opens [OF this, THEN conjunct2, of "\<lambda>port s. (0, s)"] show ?thesis by blast
qed

end
