(* ===== verification/Vt_Safe.thy ===== *)
theory Vt_Safe
  imports Vt_Text
begin

text \<open>
  Where the terminal writes.  Printing, control characters and cursor movement write video memory only; the commands that
  erase, delete and insert write the cells from the cursor address on, without a check.  As long as these cells are in the
  video memory, no byte outside it changes, and the console keeps its invariant.
\<close>

section \<open>The cells that a command writes\<close>

text \<open>The blocks of cells, by their first address and their number, that a command writes, in the order of the code.\<close>

definition move_span :: "ulong \<Rightarrow> ulong \<Rightarrow> u32 \<Rightarrow> ulong \<times> u32" where
  "move_span d s count = (if d < s then (d, count) else (d + 2 * count, count))"

definition edit_spans :: "u8 \<Rightarrow> vc_struct \<Rightarrow> (ulong \<times> u32) list" where
  "edit_spans ch vc =
     (let p = vc_par vc ! 0; pos = vc_pos vc; left = vc_cols vc - vc_x vc; nr = clip_nr vc in
      if ch = of_char CHR ''J'' then
        (if p = 0 then [(pos, drop_bit 1 (vc_scr_end vc - pos))]
         else if p = 1 then [(vc_visible_origin vc, drop_bit 1 (pos - vc_visible_origin vc) + 1)]
         else if p = 2 then [(vc_visible_origin vc, vc_cols vc * vc_rows vc)]
         else if p = 3 then [(vc_origin vc, drop_bit 1 (pos - vc_origin vc) + 1)] else [])
      else if ch = of_char CHR ''K'' then (if p = 0 then [(pos, left)] else [])
      else if ch = of_char CHR ''P'' then [(pos, left - nr), (pos + 2 * vc_cols vc - 2 * vc_x vc - 2 * nr, nr)]
      else if ch = of_char CHR ''X'' then [(pos, if (if p = 0 then p + 1 else p) > left then left else if p = 0 then p + 1 else p)]
      else if ch = of_char CHR ''@'' then [move_span (pos + 2 * nr) pos (left - nr), (pos, nr)]
      else [])"

definition in_video :: "vga_vars \<Rightarrow> ulong \<times> u32 \<Rightarrow> bool" where
  "in_video v sp \<longleftrightarrow> unat (vga_vram_base v) \<le> unat (fst sp) \<and> unat (fst sp) + 2 * unat (snd sp) \<le> unat (vga_vram_end v)"

definition outside :: "vga_vars \<Rightarrow> ulong \<Rightarrow> bool" where
  "outside v a \<longleftrightarrow> unat a < unat (vga_vram_base v) \<or> unat (vga_vram_end v) \<le> unat a"

lemma memsetw_other:
  "unat d + 2 * n < 2 ^ 32 \<Longrightarrow> unat a < unat d \<or> unat d + 2 * n \<le> unat a \<Longrightarrow> memsetw_loop n m d w a = m a"
proof (induction n arbitrary: m d)
  case (Suc n)
  have d: "unat (d + 2) = unat d + 2" using Suc.prems(1) by (simp add: unat_word_ariths)
  have "memsetw_loop n (scr_writew m w d) (d + 2) w a = scr_writew m w d a"
    using Suc.prems unfolding d by (intro Suc.IH) (simp_all only: d, auto)
  also have "\<dots> = m a" using Suc.prems by (intro writew_other) auto
  finally show ?case by simp
qed simp

lemma in_video_apart:
  assumes "in_video v (d, count)" "outside v a"
  shows "unat d + 2 * unat count < 2 ^ 32" "unat a < unat d \<or> unat d + 2 * unat count \<le> unat a"
  using assms unat_lt32 [of "vga_vram_end v"] by (auto simp: in_video_def outside_def)

lemma block_writes:
  assumes "outside v a"
  shows "in_video v (d, count) \<Longrightarrow> scr_memsetw m d w count a = m a"
    "in_video v (d, count) \<Longrightarrow> scr_memcpyw m d s count a = m a"
    "in_video v (move_span d s count) \<Longrightarrow> scr_memmovew m d s count a = m a"
proof -
  show "in_video v (d, count) \<Longrightarrow> scr_memsetw m d w count a = m a"
    unfolding scr_memsetw_def using in_video_apart [OF _ assms] by (intro memsetw_other)
  show cp: "in_video v (d, count) \<Longrightarrow> scr_memcpyw m d s count a = m a"
    unfolding scr_memcpyw_def using in_video_apart [OF _ assms] by (intro memcpyw_other)
  assume m: "in_video v (move_span d s count)"
  show "scr_memmovew m d s count a = m a"
  proof (cases "d < s")
    case True
    with m cp show ?thesis by (simp add: scr_memmovew_def move_span_def)
  next
    case False
    then have iv: "in_video v (d + 2 * count, count)" using m by (simp add: move_span_def)
    note ap = in_video_apart [OF iv assms]
    have "unat (e + 2 * count) = unat e + 2 * unat count" if e: "unat e + 2 * unat count < 2 ^ 32" for e
    proof -
      have "unat (2 * count) = 2 * unat count" using e by (simp add: unat_word_ariths)
      with e show ?thesis by (subst unat_add_no_wrap) simp_all
    qed
    from this [OF ap(1)] have "unat (d + 2 * count + 2 * count) = unat (d + 2 * count) + 2 * unat count" .
    moreover have "d + 2 * (count * 2) = d + 2 * count + 2 * count" by simp
    ultimately have "unat (d + 2 * (count * 2)) = unat (d + 2 * count) + 2 * unat count" by metis
    with ap(2) False show ?thesis by (simp add: scr_memmovew_def memmovew_loop_other)
  qed
qed

lemma csi_handle_spans:
  assumes "list_all (in_video v) (edit_spans ch vc)" "csi_handle ch vc c = (vc', c')" "outside v a"
  shows "con_mem c' a = con_mem c a"
proof (cases "csi_move ch vc")
  case None
  with assms show ?thesis
    by (auto simp: csi_handle_def edit_spans_def csi_J_def csi_K_def csi_L_def csi_M_def csi_P_def csi_X_def csi_at_def delete_char_def insert_char_def
        Let_def block_writes split: if_splits)
next
  case (Some w)
  with assms show ?thesis by (simp add: csi_handle_def)
qed

section \<open>Runs that stay in the video memory\<close>

text \<open>A byte is calm when it is not the end of a command that writes outside the video memory.\<close>

fun calm :: "u8 \<Rightarrow> vt \<Rightarrow> bool" where
  "calm ch (vc, c, npar, VT_NORMAL) = True"
| "calm ch (vc, c, npar, VT_ESC) = True"
| "calm ch (vc, c, npar, VT_CSI_QUESTION) = list_all (in_video (con_vga c)) (edit_spans ch (vc\<lparr>vc_par := replicate NPAR 0\<rparr>))"
| "calm ch (vc, c, npar, VT_CSI_PARAMETER) = list_all (in_video (con_vga c)) (edit_spans ch vc)"
| "calm ch (vc, c, npar, VT_CSI_HANDLE) = list_all (in_video (con_vga c)) (edit_spans ch vc)"

primrec calm_run :: "con_ops \<Rightarrow> u8 list \<Rightarrow> vt \<Rightarrow> bool" where
  "calm_run ops [] w = True"
| "calm_run ops (ch # buf) w = (calm ch w \<and> calm_run ops buf (con_step ops ch w))"

definition calm_write :: "u8 list \<Rightarrow> vc_struct \<Rightarrow> console \<Rightarrow> bool" where
  "calm_write buf vc c =
     (case driver vc of
        None \<Rightarrow> True
      | Some con \<Rightarrow> calm_run (driver_ops con) buf (vc, hide_cursor (driver_ops con) vc c, 0, VT_NORMAL))"

lemma same_outsideI: "(\<And>a. outside v a \<Longrightarrow> con_mem c' a = con_mem c a) \<Longrightarrow> same_outside v c c'"
  by (simp add: same_outside_def outside_def)

lemma handle_calm:
  assumes "list_all (in_video v) (edit_spans ch vc)" "vt_handle ch vc c npar = (vc', c', npar', st)"
  shows "same_outside v c c'"
  using assms(2) csi_handle_spans [OF assms(1)] by (intro same_outsideI) (auto simp: vt_handle_def split: prod.splits)

lemma parameter_calm:
  assumes "list_all (in_video v) (edit_spans ch vc)" "vt_parameter ch vc c npar = (vc', c', npar', st)"
  shows "same_outside v c c'"
proof -
  have "edit_spans ch (vc\<lparr>vc_npar := of_nat npar\<rparr>) = edit_spans ch vc" by (simp add: edit_spans_def clip_nr_def Let_def)
  with assms(1) have "list_all (in_video v) (edit_spans ch (vc\<lparr>vc_npar := of_nat npar\<rparr>))" by simp
  from handle_calm [OF this] assms(2) show ?thesis by (auto simp: vt_parameter_def split: if_splits)
qed

context console_driver
begin

lemma esc_calm:
  assumes "vc_ok (con_vga c) vc" "vt_esc ops ch vc c npar = (vc', c', npar', st)"
  shows "same_outside (con_vga c) c c'"
proof -
  obtain a b where l: "line_feed ops vc c = (a, b)" by fastforce
  from line_feed_ok [OF assms(1) l] assms(2) l show ?thesis unfolding vt_esc_def Let_def by (auto split: if_splits)
qed

lemma step_calm:
  assumes "vc_ok (con_vga c) vc" "calm ch (vc, c, npar, st)" "con_step ops ch (vc, c, npar, st) = (vc', c', npar', st')"
  shows "same_outside (con_vga c) c c'"
proof (cases st)
  case VT_NORMAL
  with assms(3) have "vt_normal ops ch vc c npar = (vc', c', npar', st')" by simp
  from normal_ok [OF assms(1) this] show ?thesis by blast
next
  case VT_ESC
  with assms(3) have "vt_esc ops ch vc c npar = (vc', c', npar', st')" by simp
  then show ?thesis by (rule esc_calm [OF assms(1)])
next
  case VT_CSI_QUESTION
  with assms(2,3) show ?thesis using parameter_calm by (auto simp: vt_question_def Let_def split: if_splits)
next
  case VT_CSI_PARAMETER
  with assms(2,3) show ?thesis using parameter_calm by auto
next
  case VT_CSI_HANDLE
  with assms(2,3) show ?thesis using handle_calm by auto
qed

lemma run_calm:
  "vc_ok (con_vga c) vc \<Longrightarrow> npar < NPAR \<Longrightarrow> calm_run ops buf (vc, c, npar, st) \<Longrightarrow>
   fold (con_step ops) buf (vc, c, npar, st) = (vc', c', npar', st') \<Longrightarrow> same_outside (con_vga c) c c'"
proof (induction buf arbitrary: vc c npar st)
  case (Cons ch buf)
  obtain vc1 c1 npar1 st1 where s: "con_step ops ch (vc, c, npar, st) = (vc1, c1, npar1, st1)" by (metis prod_cases4)
  note ok = step_ok [OF Cons.prems(1,2) s]
  have "calm ch (vc, c, npar, st)" "calm_run ops buf (vc1, c1, npar1, st1)" using Cons.prems(3) s by simp_all
  with step_calm [OF Cons.prems(1) _ s] Cons.IH [of c1 vc1 npar1 st1] ok Cons.prems(4) s show ?case
    by (auto intro: same_outside_trans)
qed simp

end

lemma con_write_calm:
  assumes "vc_ok (con_vga c) vc" "calm_write buf vc c" "con_write buf vc c = (n, vc', c')"
  shows "same_outside (con_vga c) c c'"
proof (cases "driver vc")
  case None
  with assms show ?thesis by (simp add: con_write_def)
next
  case (Some con)
  let ?h = "hide_cursor (driver_ops con) vc c"
  have h: "con_vga ?h = con_vga c" "con_mem ?h = con_mem c" by (simp_all add: hide_cursor_def driver_cursor)
  from con_write_steps [OF Some assms(3)] obtain c1 npar st where
    s: "fold (con_step (driver_ops con)) buf (vc, ?h, 0, VT_NORMAL) = (vc', c1, npar, st)" and m: "con_mem c' = con_mem c1" by metis
  have "vc_ok (con_vga ?h) vc" "0 < NPAR" "calm_run (driver_ops con) buf (vc, ?h, 0, VT_NORMAL)"
    using assms(1,2) h Some by (simp_all add: NPAR_def calm_write_def)
  from console_driver.run_calm [OF driver_contract this s] show ?thesis using h m by (simp add: same_outside_def)
qed

section \<open>Reachable consoles\<close>

text \<open>The steps of a console: it is initialised, and then bytes are written to it, by calm writes.\<close>

inductive console_reach :: "vc_struct list \<Rightarrow> console \<Rightarrow> vc_struct \<Rightarrow> console \<Rightarrow> bool" for vcs c0 where
  reach_init: "console_init vcs c0 = Inr (0, vcs', c) \<Longrightarrow> console_reach vcs c0 (vcs' ! 0) c"
| reach_write: "console_reach vcs c0 vc c \<Longrightarrow> calm_write buf vc c \<Longrightarrow> con_write buf vc c = (n, vc', c') \<Longrightarrow> console_reach vcs c0 vc' c'"

lemma startup_mem: "con_mem (vgacon_startup c) = con_mem c"
  by (simp add: vgacon_startup_def Let_def)

lemma reach_ok:
  assumes "console_reach vcs c0 vc c" "screen_ok (con_screen c0)" "\<not> has_called_startup (con_vga c0)"
    and "vcs \<noteq> []" "fresh_vc (vcs ! 0)"
  shows "vc_ok (con_vga c) vc \<and> con_vga c = con_vga (vgacon_startup c0) \<and> same_outside (con_vga c) c0 c"
  using assms(1)
proof (induction rule: console_reach.induct)
  case (reach_init vcs' c)
  note i = console_init_steps [OF assms(5,4) reach_init]
  then have "vgacon_init ((vcs ! 0)\<lparr>driver := Some vga_con\<rparr>) (vgacon_startup c0) = (0, vcs' ! 0)" by metis
  from init_vc_ok [OF assms(2,3,5) this] i show ?case by (simp add: same_outside_def startup_mem)
next
  case (reach_write vc c buf n vc' c')
  then have ok: "vc_ok (con_vga c) vc" and c: "con_vga c = con_vga (vgacon_startup c0)" "same_outside (con_vga c) c0 c" by blast+
  note w = con_write_ok [OF ok reach_write(3)] con_write_calm [OF ok reach_write(2,3)]
  with c show ?case using same_outside_trans by metis
qed

section \<open>Calm writes\<close>

text \<open>
  A write with none of the letters of the editing commands is calm.  Erasing the whole screen is calm too, wherever the
  cursor is.
\<close>

definition edit_letters :: "u8 list" where
  "edit_letters = [of_char CHR ''J'', of_char CHR ''K'', of_char CHR ''P'', of_char CHR ''X'', of_char CHR ''@'']"

lemma calm_letter: "ch \<notin> set edit_letters \<Longrightarrow> calm ch w"
  by (cases "(ch, w)" rule: calm.cases) (auto simp: edit_spans_def edit_letters_def Let_def)

lemma calm_run_letters: "set buf \<inter> set edit_letters = {} \<Longrightarrow> calm_run ops buf w"
  by (induction buf arbitrary: w) (auto simp: calm_letter)

lemma calm_write_letters: "set buf \<inter> set edit_letters = {} \<Longrightarrow> calm_write buf vc c"
  by (simp add: calm_write_def calm_run_letters split: option.split)

lemma window_cells:
  assumes "vc_ok v vc"
  shows "in_video v (vc_visible_origin vc, vc_cols vc * vc_rows vc)"
proof -
  have w: "unat (vc_visible_origin vc) + 2 * (unat (vc_cols vc) * unat (vc_rows vc)) \<le> unat (vga_vram_end v)"
    "unat (vga_vram_base v) \<le> unat (vc_visible_origin vc)"
    using assms by (simp_all add: vc_ok_defs)
  have "unat (vc_cols vc * vc_rows vc) \<le> unat (vc_cols vc) * unat (vc_rows vc)" by (simp add: unat_word_ariths)
  with w show ?thesis by (simp add: in_video_def)
qed

lemma calm_clear:
  assumes "vc_ok (con_vga c) vc" "set buf \<inter> set edit_letters = {}"
  shows "calm_run ops ([27, of_char CHR ''['', of_char CHR ''2'', of_char CHR ''J''] @ buf) (vc, c, npar, VT_NORMAL)"
proof -
  let ?vc = "vc\<lparr>vc_par := (replicate NPAR 0)[0 := 2]\<rparr>"
  have "con_step ops 27 (vc, c, npar, VT_NORMAL) = (vc, c, npar, VT_ESC)" by (simp add: vt_normal_def)
  moreover have "con_step ops (of_char CHR ''['') (vc, c, npar, VT_ESC) = (vc, c, npar, VT_CSI_QUESTION)" by (simp add: vt_esc_def)
  moreover have "con_step ops (of_char CHR ''2'') (vc, c, npar, VT_CSI_QUESTION) = (?vc, c, 0, VT_CSI_PARAMETER)"
    by (simp add: vt_question_def vt_parameter_def NPAR_def)
  moreover have "vc_ok (con_vga c) ?vc" "vc_par ?vc ! 0 = 2" using assms(1) by (simp_all add: vc_ok_defs NPAR_def)
  then have "calm (of_char CHR ''J'') (?vc, c, 0, VT_CSI_PARAMETER)" using window_cells [of "con_vga c" ?vc] by (simp add: edit_spans_def)
  moreover have "calm (of_char CHR ''2'') (vc, c, npar, VT_CSI_QUESTION)" by (rule calm_letter) (simp add: edit_letters_def)
  ultimately show ?thesis using calm_run_letters [OF assms(2)] by simp
qed

lemma demo_reach: "console_reach (replicate 8 zero_vc) demo_console demo_vc demo_start"
  using console_reach.reach_init [OF demo_console_init] by (simp add: eval_nat_numeral)

text \<open>ESC [ 2 J clears the screen, and \<open>Hi\<close> is printed.\<close>

lemma demo_calm: "calm_write [27, 91, 50, 74, 72, 105] demo_vc demo_start"
proof -
  have "vc_ok (con_vga (hide_cursor (driver_ops vga_con) demo_vc demo_start)) demo_vc"
    using demo_vc_ok by (simp only: hide_cursor_def driver_cursor)
  from calm_clear [OF this, of "[72, 105]"] show ?thesis by (simp add: calm_write_def demo_vc_sel edit_letters_def)
qed

text \<open>
  C16: From \<^verbatim>\<open>console_init\<close> on, after any sequence of writes in which the blocks of cells that the editing commands (erase,
  delete, insert) write are in the video memory, the cursor is inside the screen (or one past its last column), the saved
  cursor too, the window of the screen lies inside the video memory and the parameter array has its 16 elements; the
  variables of the VGA driver are those that \<^verbatim>\<open>vgacon_startup\<close> set; and no byte outside the video memory has changed since
  before \<^verbatim>\<open>console_init\<close>: printing, tabs, wrapping, scrolling and cursor movement never write elsewhere.
\<close>

theorem console_reach_ok:
  assumes "screen_ok (con_screen c0)" "\<not> has_called_startup (con_vga c0)" "vcs \<noteq> []" "fresh_vc (vcs ! 0)"
    and "console_reach vcs c0 vc c"
  shows "vc_ok (con_vga c) vc \<and> con_vga c = con_vga (vgacon_startup c0) \<and> same_outside (con_vga c) c0 c"
  by (rule reach_ok [OF assms(5,1,2,3,4)])

theorem console_reach_ok_witness:
  "case con_write [27, 91, 50, 74, 72, 105] demo_vc demo_start of (n, vc, c) \<Rightarrow>
     console_reach (replicate 8 zero_vc) demo_console vc c \<and> vc_ok (con_vga c) vc \<and> same_outside (con_vga c) demo_console c"
proof -
  obtain n vc c where w: "con_write [27, 91, 50, 74, 72, 105] demo_vc demo_start = (n, vc, c)" by (metis prod_cases3)
  have "replicate 8 zero_vc \<noteq> []" "fresh_vc (replicate 8 zero_vc ! 0)" using demo_screen_ok(3) by simp_all
  note ok = console_reach_ok [OF demo_screen_ok(1,2) this]
  have r: "console_reach (replicate 8 zero_vc) demo_console vc c" by (rule console_reach.reach_write [OF demo_reach demo_calm w])
  from ok [OF r] r show ?thesis unfolding w by blast
qed

end
