(* ===== verification/Spec2Isabelle.thy ===== *)
theory Spec2Isabelle
  imports Setup_Spec Printk_Spec Boot_Spec Vt_Safe
begin

text \<open>
  A verification library for the Sandix kernel.  The build modelled is
  \<^verbatim>\<open>arch/x86/configs/i386_defconfig\<close>: 32-bit x86 without PAE, one node, so \<^verbatim>\<open>unsigned long\<close>, pointers,
  \<^verbatim>\<open>phys_addr_t\<close> and \<^verbatim>\<open>resource_size_t\<close> are 32-bit words.

  \<^bold>\<open>How the parts work together.\<close>  The real-mode boot code asks the BIOS for its table of
  memory ranges, opens the A20 gate and hands the table to the kernel.
  \<^verbatim>\<open>setup_memory_map\<close> sorts it with \<^verbatim>\<open>sort\<close>, removes the overlaps and copies it to the kernel's map;
  \<^verbatim>\<open>memblock_x86_fill\<close> gives the usable part to memblock.  Memblock keeps two arrays of regions, memory and
  reserved, and \<^verbatim>\<open>alloc_bootmem\<close> and \<^verbatim>\<open>memblock_virt_alloc\<close> search the difference of the two from the top,
  reserve what they find and clear it.  \<^verbatim>\<open>zone_init\<close> counts the page frames of memblock's memory into zones and
  allocates the array of page structures.  \<^verbatim>\<open>init_mem_mapping\<close> maps the page frames of low memory at \<^verbatim>\<open>PAGE_OFFSET\<close>,
  with page tables from a buffer in the kernel's \<^verbatim>\<open>brk\<close> area and then from memblock.  Before paging is complete, devices are reached through \<^verbatim>\<open>early_ioremap\<close>, which
  hands out eight slots of fixed addresses.  The resource tree keeps the I/O port and memory ranges of devices.
  \<^verbatim>\<open>console_init\<close> registers the console drivers and binds them to virtual consoles; \<^verbatim>\<open>con_write\<close> interprets
  the bytes written to a console and calls its driver.  Its end makes the console a tty driver; \<^verbatim>\<open>printk\<close> formats a text and
  \<^verbatim>\<open>tty_write\<close> sends it through the line discipline \<^verbatim>\<open>N_TTY\<close> to the console.
  The string, sorting, hexadecimal and formatting libraries serve all of them.

  \<^bold>\<open>Theories and sources.\<close>

  \<^item> \<open>Sandix_Prelude\<close>: types, the errors of the model and the macros of \<^verbatim>\<open>include/sandix/kernel.h\<close>,
    \<^verbatim>\<open>pfn.h\<close>, \<^verbatim>\<open>page.h\<close> and \<^verbatim>\<open>errno.h\<close>; lemmas on words, rounding and array moves.
  \<^item> \<open>Memblock\<close>: \<^verbatim>\<open>mm/memblock.c\<close>, the region arrays and the operations that insert, merge, add, isolate, remove,
    trim and assign nodes.  \<open>Memblock_Refine\<close> relates the array loops to functions on lists, \<open>Memblock_Map\<close> the lists
    to a partial map from addresses to attributes, \<open>Memblock_Spec\<close> has the invariant \<open>type_wf\<close> and the
    refinement theorems.
  \<^item> \<open>Memblock_Iter\<close> and \<open>Memblock_Search\<close>: the iterators and \<^verbatim>\<open>memblock_find_in_range_node\<close>; it returns the
    highest aligned address of a free block, and 0 only when there is none.
  \<^item> \<open>Memblock_Store\<close>: the interface of a store of ranges as the locale \<open>region_store\<close>, interpreted on both
    arrays, with the theorems on sequences of operations.
  \<^item> \<open>Memblock_Alloc\<close>: \<^verbatim>\<open>memblock_virt_alloc_*\<close> and \<^verbatim>\<open>mm/bootmem_memblk.c\<close>; what is granted was free memory, is
    reserved and cleared afterwards, and nothing else changes.
  \<^item> \<open>Page_Alloc\<close>, \<open>Page_Spec\<close>: \<^verbatim>\<open>mm/page_alloc.c\<close>, \<^verbatim>\<open>include/sandix/mm_zone.h\<close> and \<^verbatim>\<open>zone_init\<close> of
    \<^verbatim>\<open>arch/x86/mm/init.c\<close>; the page counts of the zones are the numbers of page frames of memory in them, and the
    array of page structures lies in a block memblock granted.
  \<^item> \<open>Early_Ioremap\<close>, \<open>Ioremap_Spec\<close>: \<^verbatim>\<open>mm/early_ioremap.c\<close>, \<^verbatim>\<open>arch/x86/mm/ioremap.c\<close>, \<^verbatim>\<open>__set_fixmap\<close> and the fixed
    addresses; a mapping translates every byte of its range, leaves the other slots alone, and is undone by unmapping.
  \<^item> \<open>Direct_Map\<close>: \<^verbatim>\<open>arch/x86/mm/init.c\<close>, \<^verbatim>\<open>init_32.c\<close>, \<^verbatim>\<open>pageattr.c\<close>, and \<^verbatim>\<open>extend_brk\<close> and
    \<^verbatim>\<open>memblock_reserve_brk\<close> of \<^verbatim>\<open>arch/x86/kernel/setup.c\<close>, with the page tables as words of the byte memory.
    \<open>Page_Table\<close> has the laws of entries and of \<^verbatim>\<open>alloc_low_pages\<close>, \<open>Direct_Map_Spec\<close> the invariant \<open>pt_inv\<close> (the tables are
    disjoint and not available) and the loops over the directory, \<open>Direct_Map_Boot\<close> the composition: the processor's walk
    through the tables takes every address of low memory to its physical address.
  \<^item> \<open>Kernel_Setup\<close>, \<open>Setup_Spec\<close>: the memory part of \<^verbatim>\<open>arch_setup\<close> in \<^verbatim>\<open>arch/x86/kernel/setup.c\<close>, the page tables set up after the
    direct mapping, and the standard I/O ports; from the BIOS memory map to the direct mapping, only RAM reaches memblock and all of low
    memory is mapped.
  \<^item> \<open>Ctype\<close>, \<open>String_Lib\<close>, \<open>String_Spec\<close>: \<^verbatim>\<open>lib/ctype.c\<close> and \<^verbatim>\<open>lib/string.c\<close> over a byte memory.
  \<^item> \<open>Sort\<close>: \<^verbatim>\<open>lib/sort.c\<close>, heapsort over 32-bit byte offsets, with the contract of a comparison function as the locale
    \<open>comparison\<close> and the default swap functions; an array of at most 1 GiB is sorted, and beyond the range of an \<^verbatim>\<open>int\<close> the
    loops do not run.
  \<^item> \<open>E820\<close>, \<open>E820_Spec\<close>: \<^verbatim>\<open>arch/x86/kernel/e820.c\<close>; \<open>comparison\<close> is interpreted on \<^verbatim>\<open>cpcompare\<close>.  The sanitized map is
    ordered and has at each address the highest type of the entries that cover it.
  \<^item> \<open>Boot_Code\<close>, \<open>Boot_Spec\<close>: \<^verbatim>\<open>printf.c\<close>, \<^verbatim>\<open>string.c\<close>, \<^verbatim>\<open>tty.c\<close>, \<^verbatim>\<open>regs.c\<close>, \<^verbatim>\<open>memory.c\<close> and \<^verbatim>\<open>a20.c\<close> of
    \<^verbatim>\<open>arch/x86/boot\<close>, with the BIOS and the ports as parameters and memory by linear address, as the BIOS sees it at \<^verbatim>\<open>es:di\<close> and the program through
    \<^verbatim>\<open>ds\<close>; the memory map of the BIOS reaches the kernel's map, the numbers
    print as the kernel prints them, and the A20 gate is open afterwards.
  \<^item> \<open>Resource\<close>, \<open>Resource_Spec\<close>: \<^verbatim>\<open>kernel/resource.c\<close> over a heap of nodes; the children of a node are an ordered
    list of disjoint ranges, which requesting extends, releasing restores and inserting regroups.
  \<^item> \<open>Hexdump\<close>: \<^verbatim>\<open>lib/hexdump.c\<close>; what \<^verbatim>\<open>bin2hex\<close> prints \<^verbatim>\<open>hex2bin\<close> reads back.
  \<^item> \<open>Vsprintf\<close>, \<open>Vsprintf_Spec\<close>, \<open>Vsprintf_Number\<close>, \<open>Vsprintf_Out\<close>: \<^verbatim>\<open>lib/vsprintf.c\<close>; decimal conversion without
    division equals repeated division, numbers print as a reference says and read back, \<^verbatim>\<open>vsnprintf\<close> ends on
    every format, stays inside its buffer and terminates it.
  \<^item> \<open>Vgacon\<close>: \<^verbatim>\<open>include/video/video.h\<close>, \<^verbatim>\<open>include/sandix/console.h\<close>, \<^verbatim>\<open>drivers/console/vgacon.c\<close> and
    \<^verbatim>\<open>dummycon.c\<close> over a byte memory and a log of port writes.  \<open>Vt\<close>: \<^verbatim>\<open>drivers/tty/vt/vt.c\<close>, the escape sequence
    state machine \<^verbatim>\<open>con_write\<close> and the management of drivers.
  \<^item> \<open>Vt_Spec\<close>: the contract of a console driver as the locale \<open>console_driver\<close>, interpreted on both drivers; every byte
    keeps the invariant \<open>vc_ok\<close>.  \<open>Vt_Text\<close>: plain text stays inside the video memory, what
    printing shows, cursor addressing, and the places where an escape sequence does not do what its comment says.  \<open>Vt_Safe\<close>: the
    cells that the editing commands write, and the reachable consoles as long as these cells are in the video memory.  Outside
    that condition the program overwrites its own variables, which the model keeps apart from the byte memory.
  \<^item> \<open>List_Head\<close>: the circular lists of \<^verbatim>\<open>include/sandix/list.h\<close> over a heap of nodes; every sequence of operations leaves the
    list that the operations prescribe, and the loops visit it and end.
  \<^item> \<open>Tty\<close>: \<^verbatim>\<open>include/sandix/tty.h\<close>, \<^verbatim>\<open>termios.h\<close>, the calls of a tty driver and \<^verbatim>\<open>drivers/tty/n_tty.c\<close>.  \<open>Tty_Ldisc\<close>,
    \<open>Tty_Ldisc_Spec\<close>: \<^verbatim>\<open>drivers/tty/tty_ldisc.c\<close>; \<^verbatim>\<open>kmalloc\<close> of this kernel returns null, and every sequence of
    registrations, removals and changes refines an abstract table of disciplines in which a change to a registered
    discipline fails for want of memory and no reference is left behind.
  \<^item> \<open>Tty_Core\<close>: \<^verbatim>\<open>drivers/tty/tty_io.c\<close>, the end of \<^verbatim>\<open>console_init\<close> and \<^verbatim>\<open>kernel/printk.c\<close>.  \<open>Tty_Spec\<close>: the reference translation of
    output, the contract of a tty driver as the locale \<open>tty_device\<close>, interpreted on the virtual terminal.  \<open>Printk_Spec\<close>: from
    \<^verbatim>\<open>tty_init\<close> on, what is printed reaches the terminal.

  \<^bold>\<open>State, errors and loops.\<close>  State is passed explicitly: the \<^verbatim>\<open>memblock\<close> structure, the tables of \<^verbatim>\<open>e820.c\<close>, a byte
  memory, a heap of resource nodes, the zones of the node, the mapping slots with their page table,
  the variables of the direct mapping, the console with its screen, the terminals with their line disciplines.  \<open>kres\<close> is a sum of \<open>kerror\<close> and a result; the errors are \<^verbatim>\<open>BUG_ON\<close>,
  \<^verbatim>\<open>panic\<close>, a \<^verbatim>\<open>NULL\<close> dereference, a missing argument and a loop that runs out of fuel; negative return
  codes are results.  Most loops are structural or have a measure.  \<^verbatim>\<open>memblock_isolate_range\<close> visits an index again
  after a split, at most twice, and takes \<^verbatim>\<open>nr_regions + 4\<close> turns of fuel; the search and trim loops take one turn
  per region of either array and two more; the theorems show that the bounds are never reached.  Loops over
  strings and linked lists, which end only on well-formed data, are \<open>partial_function (option)\<close>, and the
  theorems show that they return; so are the three loops of \<^verbatim>\<open>sort\<close>, whose offsets can wrap, and the output loop of \<^verbatim>\<open>n_tty_write\<close>, which returns when the driver has room and is
  shown not to return on a stopped terminal.

  \<^bold>\<open>Not modelled.\<close>  Code that is inline assembly or hardware access: the video mode code and the mode switch of the real-mode boot
  code, the assembly string functions, CPU detection, PCI, interrupts, locks; loading \<^verbatim>\<open>cr3\<close> and flushing the TLB have no effect.  Mutexes and
  semaphores have empty bodies in the source.  The messages that the other components print have no effect in their models;
  \<^verbatim>\<open>printk\<close> itself is modelled, and the message of \<^verbatim>\<open>WARN\<close> inside \<^verbatim>\<open>tty_write\<close> is a parameter, because it is printed by
  the same path.
  The build tools under \<^verbatim>\<open>scripts\<close> are vendored.
\<close>

end
